(* ===== verification/Prelude.thy ===== *)
theory Prelude
  imports Complex_Main "HOL-Library.Multiset"
begin

text \<open>
  Shared vocabulary of the development: the JavaScript values the front end passes around as
  \<^verbatim>\<open>unknown\<close>, the array and string methods of the language's standard library that the sources
  call (splice, slice, join, split, startsWith, includes, trim), the decimal rendering of
  counters, and the generic lemmas on lists, options and multisets that the component theories
  use.  Nothing here is specific to one component.
\<close>

named_theorems js_simps "unfolding rules for the modelled JavaScript library"

section \<open>JavaScript values\<close>

text \<open>
  A number is a finite value, one of the infinities or NaN.  Every finite double is a rational;
  the development compares numbers and never relies on the rounding of an arithmetic result.
\<close>

datatype js_num = NaN | PosInf | NegInf | Fin rat

fun js_minus :: "js_num \<Rightarrow> js_num \<Rightarrow> js_num" where
  "js_minus (Fin a) (Fin b) = Fin (a - b)"
| "js_minus PosInf (Fin b) = PosInf"
| "js_minus NegInf (Fin b) = NegInf"
| "js_minus (Fin a) PosInf = NegInf"
| "js_minus (Fin a) NegInf = PosInf"
| "js_minus PosInf NegInf = PosInf"
| "js_minus NegInf PosInf = NegInf"
| "js_minus _ _ = NaN"

fun js_positive :: "js_num \<Rightarrow> bool" where
  "js_positive (Fin a) = (a > 0)"
| "js_positive PosInf = True"
| "js_positive NegInf = False"
| "js_positive NaN = False"

text \<open>
  The order of two numbers as the language's comparison operators give it: false as soon as one
  side is NaN.
\<close>

fun js_less :: "js_num \<Rightarrow> js_num \<Rightarrow> bool" where
  "js_less NaN _ = False"
| "js_less _ NaN = False"
| "js_less PosInf _ = False"
| "js_less _ NegInf = False"
| "js_less NegInf _ = True"
| "js_less _ PosInf = True"
| "js_less (Fin a) (Fin b) = (a < b)"

lemma js_positive_minus: "js_positive (js_minus a b) = js_less b a"
  by (cases a; cases b) auto

text \<open>An object lists its own keys, each once, in the order the language enumerates them.\<close>

datatype js_value =
    JUndefined
  | JNull
  | JBool bool
  | JNum js_num
  | JStr string
  | JDate js_num
  | JArr "js_value list"
  | JObj "(string \<times> js_value) list"

text \<open>Reading a property of an object: a missing key answers \<^verbatim>\<open>undefined\<close>.\<close>

definition js_field :: "(string \<times> js_value) list \<Rightarrow> string \<Rightarrow> js_value" where
  "js_field ob k = (case map_of ob k of None \<Rightarrow> JUndefined | Some v \<Rightarrow> v)"

definition is_nullish :: "js_value \<Rightarrow> bool" where
  "is_nullish v \<longleftrightarrow> v = JUndefined \<or> v = JNull"

definition is_str :: "js_value \<Rightarrow> bool" where
  "is_str v = (case v of JStr _ \<Rightarrow> True | _ \<Rightarrow> False)"

definition str_of :: "js_value \<Rightarrow> string option" where
  "str_of v = (case v of JStr s \<Rightarrow> Some s | _ \<Rightarrow> None)"

lemma is_str_JStr [simp]: "is_str (JStr s)"
  by (simp add: is_str_def)

lemma is_str_conv: "is_str v \<longleftrightarrow> (\<exists>s. v = JStr s)"
  by (auto simp: is_str_def split: js_value.splits)

lemma str_of_JStr [simp]: "str_of (JStr s) = Some s"
  by (simp add: str_of_def)

lemma str_of_JUndefined [simp]: "str_of JUndefined = None"
  by (simp add: str_of_def)

lemma str_of_Some_iff: "str_of v = Some s \<longleftrightarrow> v = JStr s"
  by (auto simp: str_of_def split: js_value.splits)

section \<open>Array methods\<close>

text \<open>
  \<^verbatim>\<open>rules.splice(k, deleteCount, ...items)\<close> on an array, for an index that is already in range.
\<close>

definition js_splice :: "nat \<Rightarrow> nat \<Rightarrow> 'a list \<Rightarrow> 'a list \<Rightarrow> 'a list" where
  "js_splice k del items xs = take k xs @ items @ drop (k + del) xs"

lemma mset_splice_insert: "mset (js_splice k 0 items xs) = mset xs + mset items"
proof -
  have "mset xs = mset (take k xs) + mset (drop k xs)"
    by (simp flip: mset_append)
  then show ?thesis by (simp add: js_splice_def)
qed

lemma mset_splice_replace:
  assumes "k < length xs"
  shows "mset (js_splice k 1 items xs) + {#xs ! k#} = mset xs + mset items"
proof -
  have "mset xs = mset (take k xs @ xs ! k # drop (Suc k) xs)"
    using assms by (simp flip: id_take_nth_drop)
  then show ?thesis by (simp add: js_splice_def)
qed

text \<open>The first element an array's \<^verbatim>\<open>find\<close> accepts is the library's \<open>List.find\<close>.\<close>

lemma find_Some_in: "List.find P xs = Some x \<Longrightarrow> x \<in> set xs \<and> P x"
  by (induction xs) (auto split: if_splits)

lemma find_None_all: "List.find P xs = None \<longleftrightarrow> (\<forall>x\<in>set xs. \<not> P x)"
  by (induction xs) auto

lemma concat_map_cong: "(\<And>x. x \<in> set xs \<Longrightarrow> f x = g x) \<Longrightarrow> concat (map f xs) = concat (map g xs)"
  by (induction xs) auto

section \<open>Strings\<close>

fun join :: "string \<Rightarrow> string list \<Rightarrow> string" where
  "join sep [] = []"
| "join sep [x] = x"
| "join sep (x # y # ys) = x @ sep @ join sep (y # ys)"

text \<open>\<^verbatim>\<open>text.split(c)\<close> for a separator of one character.\<close>

fun split_on :: "char \<Rightarrow> string \<Rightarrow> string list" where
  "split_on c [] = [[]]"
| "split_on c (x # xs) =
     (if x = c then [] # split_on c xs
      else (case split_on c xs of [] \<Rightarrow> [[x]] | w # ws \<Rightarrow> (x # w) # ws))"

lemma split_on_ne [simp]: "split_on c s \<noteq> []"
  by (induction s) (auto split: list.splits)

lemma split_on_no_sep: "c \<notin> set s \<Longrightarrow> split_on c s = [s]"
  by (induction s) auto

lemma split_on_append:
  "c \<notin> set w \<Longrightarrow> split_on c (w @ c # rest) = w # split_on c rest"
  by (induction w) auto

lemma split_on_join:
  "xs \<noteq> [] \<Longrightarrow> \<forall>x\<in>set xs. c \<notin> set x \<Longrightarrow> split_on c (join [c] xs) = xs"
proof (induction "[c]" xs rule: join.induct)
  case (2 x)
  then show ?case by (simp add: split_on_no_sep)
next
  case (3 x y ys)
  then show ?case by (simp add: split_on_append)
qed simp

lemma join_inject:
  assumes "xs \<noteq> []" "ys \<noteq> []" "\<forall>x\<in>set xs. c \<notin> set x" "\<forall>y\<in>set ys. c \<notin> set y"
    and "join [c] xs = join [c] ys"
  shows "xs = ys"
  using assms split_on_join by metis

definition starts_with :: "string \<Rightarrow> string \<Rightarrow> bool" where
  "starts_with s p \<longleftrightarrow> take (length p) s = p"

lemma starts_with_append [simp]: "starts_with (p @ s) p"
  by (simp add: starts_with_def)

lemma starts_with_simps:
  "starts_with s []" "starts_with [] (y # ys) = False"
  "starts_with (x # xs) (y # ys) = (x = y \<and> starts_with xs ys)"
  by (simp_all add: starts_with_def)

lemma starts_with_conv: "starts_with s p \<longleftrightarrow> (\<exists>r. s = p @ r)"
  by (auto simp: starts_with_def) (metis append_take_drop_id)

definition ends_with :: "string \<Rightarrow> string \<Rightarrow> bool" where
  "ends_with s p \<longleftrightarrow> starts_with (rev s) (rev p)"

text \<open>\<^verbatim>\<open>s.includes(p)\<close>: p occurs somewhere in s.\<close>

fun str_includes :: "string \<Rightarrow> string \<Rightarrow> bool" where
  "str_includes [] p = (p = [])"
| "str_includes (x # xs) p = (starts_with (x # xs) p \<or> str_includes xs p)"

lemma str_includes_conv: "str_includes s p \<longleftrightarrow> (\<exists>a b. s = a @ p @ b)"
proof (induction s)
  case (Cons x xs)
  have "str_includes (x # xs) p \<longleftrightarrow> (\<exists>b. x # xs = p @ b) \<or> (\<exists>a b. xs = a @ p @ b)"
    using Cons.IH by (simp add: starts_with_conv)
  also have "\<dots> \<longleftrightarrow> (\<exists>a b. x # xs = a @ p @ b)"
    by (metis append_Cons append_Nil neq_Nil_conv list.inject)
  finally show ?case .
qed simp

lemma str_includes_empty [simp]: "str_includes s []"
  by (cases s) (simp_all add: starts_with_def)

text \<open>The whitespace that \<^verbatim>\<open>trim\<close> strips, within the modelled character range.\<close>

definition is_ws :: "char \<Rightarrow> bool" where
  "is_ws c \<longleftrightarrow> of_char c \<in> {9, 10, 11, 12, 13, 32, 160 :: nat}"

definition trim :: "string \<Rightarrow> string" where
  "trim s = rev (dropWhile is_ws (rev (dropWhile is_ws s)))"

section \<open>Decimal rendering\<close>

definition digit_char :: "nat \<Rightarrow> char" where
  "digit_char d = char_of (48 + d)"

fun nat_to_dec :: "nat \<Rightarrow> string" where
  "nat_to_dec n = (if n < 10 then [digit_char n] else nat_to_dec (n div 10) @ [digit_char (n mod 10)])"

declare nat_to_dec.simps [simp del]

lemma digit_char_inject: "a < 10 \<Longrightarrow> b < 10 \<Longrightarrow> digit_char a = digit_char b \<longleftrightarrow> a = b"
  by (auto simp: digit_char_def char_of_eq_iff take_bit_eq_mod)

lemma nat_to_dec_ne [simp]: "nat_to_dec n \<noteq> []"
  by (subst nat_to_dec.simps) auto

lemma nat_to_dec_inject [simp]: "nat_to_dec m = nat_to_dec n \<longleftrightarrow> m = n"
proof (induction m arbitrary: n rule: less_induct)
  case (less m)
  have step: "nat_to_dec k = (if k < 10 then [] else nat_to_dec (k div 10)) @ [digit_char (k mod 10)]" for k
    by (subst nat_to_dec.simps) auto
  show ?case
  proof
    assume eq: "nat_to_dec m = nat_to_dec n"
    then have "digit_char (m mod 10) = digit_char (n mod 10)"
      and hi: "(if m < 10 then [] else nat_to_dec (m div 10)) = (if n < 10 then [] else nat_to_dec (n div 10))"
      using step [of m] step [of n] by auto
    then have lo: "m mod 10 = n mod 10" by (simp add: digit_char_inject)
    have "m div 10 = n div 10"
      using hi less.IH [of "m div 10" "n div 10"]
        nat_to_dec_ne [of "m div 10"] nat_to_dec_ne [of "n div 10"]
      by (cases "m < 10"; cases "n < 10") (simp_all del: nat_to_dec_ne)
    with lo show "m = n" by (metis div_mult_mod_eq)
  qed simp
qed

text \<open>The digits \<^verbatim>\<open>\d\<close> of a regular expression, and the number that a text of digits stands for.\<close>

definition is_digit :: "char \<Rightarrow> bool" where
  "is_digit c \<longleftrightarrow> 48 \<le> (of_char c :: nat) \<and> (of_char c :: nat) \<le> 57"

definition dec_value :: "string \<Rightarrow> nat" where
  "dec_value s = foldl (\<lambda>n c. 10 * n + (of_char c - 48)) 0 s"

lemma of_digit_char: "d < 10 \<Longrightarrow> of_char (digit_char d) = 48 + d"
  by (simp add: digit_char_def of_char_of)

lemma dec_value_snoc: "dec_value (s @ [c]) = 10 * dec_value s + (of_char c - 48)"
  by (simp add: dec_value_def)

lemma nat_to_dec_step: "10 \<le> n \<Longrightarrow> nat_to_dec n = nat_to_dec (n div 10) @ [digit_char (n mod 10)]"
  by (subst nat_to_dec.simps) simp

lemma dec_value_nat: "dec_value (nat_to_dec n) = n"
proof (induction n rule: less_induct)
  case (less n)
  show ?case
  proof (cases "n < 10")
    case True
    then show ?thesis by (subst nat_to_dec.simps) (simp add: dec_value_def of_digit_char)
  next
    case False
    with less [of "n div 10"] show ?thesis by (simp add: nat_to_dec_step dec_value_snoc of_digit_char)
  qed
qed

lemma nat_to_dec_digits: "list_all is_digit (nat_to_dec n)"
proof (induction n rule: less_induct)
  case (less n)
  then show ?case
    by (cases "n < 10") (simp_all add: nat_to_dec_step nat_to_dec.simps [of n] is_digit_def of_digit_char)
qed

lemma digit_not_ws: "is_digit c \<Longrightarrow> \<not> is_ws c"
  by (auto simp: is_digit_def is_ws_def)

lemma trim_edges: "s \<noteq> [] \<Longrightarrow> \<not> is_ws (hd s) \<Longrightarrow> \<not> is_ws (last s) \<Longrightarrow> trim s = s"
proof -
  assume s: "s \<noteq> []" "\<not> is_ws (hd s)" "\<not> is_ws (last s)"
  then have "dropWhile is_ws s = s" by (cases s) simp_all
  moreover have "dropWhile is_ws (rev s) = rev s" using s by (cases s rule: rev_cases) simp_all
  ultimately show "trim s = s" by (simp add: trim_def)
qed

section \<open>Options that stand for object identity\<close>

text \<open>
  The tree operations return the very object they were given when nothing changed, so that a
  memoised view is not redrawn.  Their model answers \<open>None\<close> for "the same object" and \<open>Some x\<close>
  for a fresh one; \<open>settle\<close> reads the value back.
\<close>

definition settle :: "'a \<Rightarrow> 'a option \<Rightarrow> 'a" where
  "settle old r = (case r of None \<Rightarrow> old | Some new \<Rightarrow> new)"

lemma settle_simps [simp]: "settle old None = old" "settle old (Some new) = new"
  by (simp_all add: settle_def)

text \<open>\<^verbatim>\<open>s.replaceAll(c, r)\<close> for a single character.\<close>

definition replace_char :: "char \<Rightarrow> string \<Rightarrow> string \<Rightarrow> string" where
  "replace_char c r s = concat (map (\<lambda>x. if x = c then r else [x]) s)"

lemma replace_char_simps [simp]:
  "replace_char c r [] = []"
  "replace_char c r (x # xs) = (if x = c then r else [x]) @ replace_char c r xs"
  "replace_char c r (xs @ ys) = replace_char c r xs @ replace_char c r ys"
  by (simp_all add: replace_char_def)

end
