(* ===== verification/Filter_Query.thy ===== *)
theory Filter_Query
  imports Prelude
begin

text \<open>
  The filter query tree of the UI package
  (\<^verbatim>\<open>web/packages/ui/src/components/reui/filters/filters-query.tsx\<close>, its types in
  \<^verbatim>\<open>filters-types.tsx\<close>): rules under groups, each group with one combinator, and every edit the
  filter bar and the advanced builder make to it.  The definitions are in the order of the source.
  An edit that leaves a subtree alone returns the object it was given; the functions that rebuild
  the tree therefore answer \<open>None\<close> for "the same object" (see \<open>settle\<close> in the prelude).
\<close>

section \<open>The tree\<close>

datatype filter_combinator = CAnd | COr

record filter_rule =
  rule_id :: string
  rule_path :: "string list"
  rule_operator :: string
  rule_value :: js_value
  rule_negated :: "bool option"

datatype filter_node = RuleNode filter_rule | GroupNode filter_group
and filter_group =
  FilterGroup (group_id: string) (group_combinator: filter_combinator) (group_rules: "filter_node list")

type_synonym filter_query = filter_group

fun node_id :: "filter_node \<Rightarrow> string" where
  "node_id (RuleNode r) = rule_id r"
| "node_id (GroupNode g) = group_id g"

fun isFilterRule :: "filter_node \<Rightarrow> bool" where
  "isFilterRule (RuleNode r) = True"
| "isFilterRule (GroupNode g) = False"

fun isFilterGroup :: "filter_node \<Rightarrow> bool" where
  "isFilterGroup (RuleNode r) = False"
| "isFilterGroup (GroupNode g) = True"

section \<open>Construction and reading\<close>

definition createFilterRule ::
  "string \<Rightarrow> string list \<Rightarrow> string \<Rightarrow> js_value \<Rightarrow> bool option \<Rightarrow> filter_rule" where
  "createFilterRule i path operator value negated =
     \<lparr>rule_id = i, rule_path = path, rule_operator = operator, rule_value = value,
      rule_negated = (if negated = Some True then Some True else None)\<rparr>"

definition createFilterGroup ::
  "string \<Rightarrow> filter_combinator option \<Rightarrow> filter_node list option \<Rightarrow> filter_group" where
  "createFilterGroup i combinator rules =
     FilterGroup i (case combinator of None \<Rightarrow> CAnd | Some c \<Rightarrow> c)
       (case rules of None \<Rightarrow> [] | Some rs \<Rightarrow> rs)"

definition createFilterQuery ::
  "filter_node list \<Rightarrow> filter_combinator \<Rightarrow> string \<Rightarrow> filter_query" where
  "createFilterQuery rules combinator i = FilterGroup i combinator rules"

text \<open>The inner \<^verbatim>\<open>walk\<close> of \<^verbatim>\<open>flattenFilterRules\<close> pushes the rules depth first.\<close>

fun flatten_walk :: "filter_node \<Rightarrow> filter_rule list" where
  "flatten_walk (RuleNode r) = [r]"
| "flatten_walk (GroupNode (FilterGroup i c rs)) = concat (map flatten_walk rs)"

definition flattenFilterRules :: "filter_query \<Rightarrow> filter_rule list" where
  "flattenFilterRules q = flatten_walk (GroupNode q)"

record filter_condition =
  cond_path :: "string list"
  cond_field :: "string option"
  cond_operator :: string
  cond_values :: "js_value list"
  cond_negated :: bool

definition isFilterRuleComplete :: "filter_rule \<Rightarrow> bool" where
  "isFilterRuleComplete r \<longleftrightarrow> rule_operator r \<noteq> []"

text \<open>A rule's value as an array, the expression both readers of the tree share.\<close>

definition filter_values :: "js_value \<Rightarrow> js_value list" where
  "filter_values v =
     (if is_nullish v then [] else case v of JArr vs \<Rightarrow> vs | _ \<Rightarrow> [v])"

definition flattenFilterConditions :: "filter_query \<Rightarrow> filter_condition list" where
  "flattenFilterConditions q =
     map (\<lambda>r. \<lparr>cond_path = rule_path r,
               cond_field = (case rule_path r of [] \<Rightarrow> None | p # _ \<Rightarrow> Some p),
               cond_operator = rule_operator r,
               cond_values = filter_values (rule_value r),
               cond_negated = (rule_negated r = Some True)\<rparr>)
       (filter isFilterRuleComplete (flattenFilterRules q))"

fun count_walk :: "filter_node \<Rightarrow> nat" where
  "count_walk (RuleNode r) = 1"
| "count_walk (GroupNode (FilterGroup i c rs)) = sum_list (map count_walk rs)"

definition countFilterRules :: "filter_query \<Rightarrow> nat" where
  "countFilterRules q = count_walk (GroupNode q)"

definition isFilterQueryEmpty :: "filter_query \<Rightarrow> bool" where
  "isFilterQueryEmpty q \<longleftrightarrow> countFilterRules q = 0"

section \<open>Validation\<close>

datatype filter_arity = ArNone | ArOne | ArMany | ArRange

datatype issue_column = ColOperator | ColValue | ColGroup

datatype issue_reason =
  MissingOperator | MissingValue | IncompleteRange | ReversedRange | EmptyGroup | Custom

record filter_issue =
  issue_node :: string
  issue_col :: issue_column
  issue_reason :: issue_reason
  issue_message :: "string option"

definition isBlankFilterValue :: "js_value \<Rightarrow> bool" where
  "isBlankFilterValue v \<longleftrightarrow> v = JUndefined \<or> v = JNull \<or> v = JStr []"

text \<open>
  \<^verbatim>\<open>Date.parse\<close> accepts implementation-defined formats beside ISO dates, so it is a parameter; NaN
  is a string it does not parse.
\<close>

fun compareFilterBounds :: "(string \<Rightarrow> js_num) \<Rightarrow> js_value \<Rightarrow> js_value \<Rightarrow> js_num option" where
  "compareFilterBounds dateParse (JNum a) (JNum b) =
     (if a = NaN \<or> b = NaN then None else Some (js_minus a b))"
| "compareFilterBounds dateParse (JDate a) (JDate b) =
     (if a = NaN \<or> b = NaN then None else Some (js_minus a b))"
| "compareFilterBounds dateParse (JStr s) (JStr t) =
     (let a = dateParse s; b = dateParse t in
      if a = NaN \<or> b = NaN then None else Some (js_minus a b))"
| "compareFilterBounds dateParse _ _ = None"

text \<open>
  The body of the loop of \<^verbatim>\<open>collectFilterIssues\<close> for one rule.  \<open>arityOf\<close> answers \<open>None\<close> for a rule
  the caller cannot judge; \<open>validateOf\<close> is the field's own validator, whose message counts when
  it is a non-empty string.
\<close>

definition rule_issues ::
  "(string \<Rightarrow> js_num) \<Rightarrow> (filter_rule \<Rightarrow> filter_arity option) \<Rightarrow> (filter_rule \<Rightarrow> string option)
   \<Rightarrow> filter_rule \<Rightarrow> filter_issue list" where
  "rule_issues dateParse arityOf validateOf r =
     (case arityOf r of
        None \<Rightarrow> []
      | Some arity \<Rightarrow>
          if \<not> isFilterRuleComplete r then
            [\<lparr>issue_node = rule_id r, issue_col = ColOperator, issue_reason = MissingOperator,
              issue_message = None\<rparr>]
          else if arity = ArNone then []
          else let values = filter_values (rule_value r) in
            if arity = ArRange then
              if length values < 2 \<or> isBlankFilterValue (values ! 0) \<or> isBlankFilterValue (values ! 1)
              then [\<lparr>issue_node = rule_id r, issue_col = ColValue, issue_reason = IncompleteRange,
                     issue_message = None\<rparr>]
              else case compareFilterBounds dateParse (values ! 0) (values ! 1) of
                     None \<Rightarrow> []
                   | Some order \<Rightarrow>
                       if js_positive order
                       then [\<lparr>issue_node = rule_id r, issue_col = ColValue,
                              issue_reason = ReversedRange, issue_message = None\<rparr>]
                       else []
            else if values = [] \<or> list_all isBlankFilterValue values then
              [\<lparr>issue_node = rule_id r, issue_col = ColValue, issue_reason = MissingValue,
                issue_message = None\<rparr>]
            else case validateOf r of
                   None \<Rightarrow> []
                 | Some m \<Rightarrow>
                     if m = [] then []
                     else [\<lparr>issue_node = rule_id r, issue_col = ColValue, issue_reason = Custom,
                            issue_message = Some m\<rparr>])"

fun issues_visit ::
  "(string \<Rightarrow> js_num) \<Rightarrow> (filter_rule \<Rightarrow> filter_arity option) \<Rightarrow> (filter_rule \<Rightarrow> string option)
   \<Rightarrow> bool \<Rightarrow> filter_group \<Rightarrow> filter_issue list" where
  "issues_visit dateParse arityOf validateOf isRoot (FilterGroup i c rs) =
     (if \<not> isRoot \<and> rs = []
      then [\<lparr>issue_node = i, issue_col = ColGroup, issue_reason = EmptyGroup, issue_message = None\<rparr>]
      else []) @
     concat (map (\<lambda>ch. case ch of
                          GroupNode g \<Rightarrow> issues_visit dateParse arityOf validateOf False g
                        | RuleNode r \<Rightarrow> rule_issues dateParse arityOf validateOf r) rs)"

definition collectFilterIssues ::
  "(string \<Rightarrow> js_num) \<Rightarrow> filter_query \<Rightarrow> (filter_rule \<Rightarrow> filter_arity option)
   \<Rightarrow> (filter_rule \<Rightarrow> string option) \<Rightarrow> filter_issue list" where
  "collectFilterIssues dateParse q arityOf validateOf = issues_visit dateParse arityOf validateOf True q"

section \<open>Lookup\<close>

record found =
  found_node :: filter_node
  found_parent :: "filter_group option"
  found_index :: int

text \<open>The loop over \<^verbatim>\<open>group.rules\<close> from index \<open>k\<close>; a match in a subtree ends it.\<close>

function find_walk :: "string \<Rightarrow> filter_group \<Rightarrow> nat \<Rightarrow> filter_node list \<Rightarrow> found option" where
  "find_walk i g k [] = None"
| "find_walk i g k (ch # chs) =
     (if node_id ch = i
      then Some \<lparr>found_node = ch, found_parent = Some g, found_index = int k\<rparr>
      else case ch of
             RuleNode r \<Rightarrow> find_walk i g (Suc k) chs
           | GroupNode g' \<Rightarrow>
               (case find_walk i g' 0 (group_rules g') of
                  Some f \<Rightarrow> Some f
                | None \<Rightarrow> find_walk i g (Suc k) chs))"
  by pat_completeness auto
termination
proof (relation "measure (\<lambda>(i, g, k, ns). size_list size ns)")
  fix i g k chs and ch :: filter_node and g'
  assume "ch = GroupNode g'"
  then show "((i, g', 0, group_rules g'), i, g, k, ch # chs)
      \<in> measure (\<lambda>(i, g, k, ns). size_list size ns)"
    by (cases g') simp
qed simp_all

definition findFilterNode :: "filter_query \<Rightarrow> string \<Rightarrow> found option" where
  "findFilterNode q i =
     (if group_id q = i
      then Some \<lparr>found_node = GroupNode q, found_parent = None, found_index = -1\<rparr>
      else find_walk i q 0 (group_rules q))"

definition findFilterRule :: "filter_query \<Rightarrow> string \<Rightarrow> filter_rule option" where
  "findFilterRule q i =
     (case findFilterNode q i of
        None \<Rightarrow> None
      | Some f \<Rightarrow> (case found_node f of RuleNode r \<Rightarrow> Some r | GroupNode g \<Rightarrow> None))"

section \<open>Edits\<close>

text \<open>
  \<open>rewriteGroup should transform g\<close> hands the first groups that \<open>should\<close> accepts to \<open>transform\<close>
  (which answers \<open>None\<close> when it returns its argument) and rebuilds only the groups above a changed
  one.
\<close>

fun rewriteGroup ::
  "(filter_group \<Rightarrow> bool) \<Rightarrow> (filter_group \<Rightarrow> filter_group option) \<Rightarrow> filter_group \<Rightarrow> filter_group option"
where
  "rewriteGroup should transform (FilterGroup i c rs) =
     (if should (FilterGroup i c rs) then transform (FilterGroup i c rs)
      else let nexts = map (\<lambda>ch. case ch of
                                    RuleNode r \<Rightarrow> None
                                  | GroupNode g \<Rightarrow> map_option GroupNode (rewriteGroup should transform g)) rs
           in if list_all (\<lambda>n. n = None) nexts then None
              else Some (FilterGroup i c (map2 settle rs nexts)))"

record rule_updates =
  upd_path :: "string list option"
  upd_operator :: "string option"
  upd_value :: "js_value option"
  upd_negated :: "bool option option"

text \<open>The object spread \<^verbatim>\<open>{ ...child, ...updates }\<close>: a key the updates do not carry keeps its value.\<close>

definition apply_updates :: "rule_updates \<Rightarrow> filter_rule \<Rightarrow> filter_rule" where
  "apply_updates u r =
     r\<lparr>rule_path := settle (rule_path r) (upd_path u),
       rule_operator := settle (rule_operator r) (upd_operator u),
       rule_value := settle (rule_value r) (upd_value u),
       rule_negated := settle (rule_negated r) (upd_negated u)\<rparr>"

definition updateFilterRule :: "filter_query \<Rightarrow> string \<Rightarrow> rule_updates \<Rightarrow> filter_query" where
  "updateFilterRule q i updates =
     settle q (rewriteGroup
       (\<lambda>g. list_ex (\<lambda>ch. node_id ch = i \<and> isFilterRule ch) (group_rules g))
       (\<lambda>g. Some (FilterGroup (group_id g) (group_combinator g)
          (map (\<lambda>ch. case ch of
                        RuleNode r \<Rightarrow> if rule_id r = i then RuleNode (apply_updates updates r) else ch
                      | GroupNode _ \<Rightarrow> ch) (group_rules g)))) q)"

text \<open>
  The \<^verbatim>\<open>prune\<close> of \<^verbatim>\<open>removeFilterNode\<close>: per child, whether it sets \<^verbatim>\<open>changed\<close> and what it pushes.  A
  group child that is empty afterwards is not pushed, whether or not the removal emptied it.
\<close>

fun remove_prune :: "string \<Rightarrow> filter_group \<Rightarrow> filter_group option" where
  "remove_prune i (FilterGroup gi c rs) =
     (let outs = map (\<lambda>ch.
            if node_id ch = i then (True, [])
            else case ch of
                   GroupNode g \<Rightarrow>
                     (let p = remove_prune i g; next = settle g p
                      in (p \<noteq> None, if group_rules next = [] then [] else [GroupNode next]))
                 | RuleNode r \<Rightarrow> (False, [ch])) rs
      in if list_ex fst outs then Some (FilterGroup gi c (concat (map snd outs))) else None)"

definition removeFilterNode :: "filter_query \<Rightarrow> string \<Rightarrow> filter_query" where
  "removeFilterNode q i = settle q (remove_prune i q)"

text \<open>\<^verbatim>\<open>Math.max(0, Math.min(index, rules.length))\<close>, or the end without an index.\<close>

definition insert_position :: "int option \<Rightarrow> nat \<Rightarrow> nat" where
  "insert_position index len =
     (case index of None \<Rightarrow> len | Some k \<Rightarrow> nat (max 0 (min k (int len))))"

definition insertFilterNode ::
  "filter_query \<Rightarrow> filter_node \<Rightarrow> string option \<Rightarrow> int option \<Rightarrow> filter_query" where
  "insertFilterNode q node parentId index =
     settle q (rewriteGroup
       (\<lambda>g. group_id g = settle (group_id q) parentId)
       (\<lambda>g. Some (FilterGroup (group_id g) (group_combinator g)
          (js_splice (insert_position index (length (group_rules g))) 0 [node] (group_rules g)))) q)"

text \<open>
  \<open>nextId\<close> is the id source the caller passes in, with its state threaded through: the node's own
  id is drawn before those of its children, and these in order.
\<close>

fun cloneFilterNode :: "('s \<Rightarrow> string \<times> 's) \<Rightarrow> filter_node \<Rightarrow> 's \<Rightarrow> filter_node \<times> 's"
and clone_nodes :: "('s \<Rightarrow> string \<times> 's) \<Rightarrow> filter_node list \<Rightarrow> 's \<Rightarrow> filter_node list \<times> 's"
where
  "cloneFilterNode nextId (RuleNode r) s =
     (let (i, s') = nextId s in (RuleNode (r\<lparr>rule_id := i\<rparr>), s'))"
| "cloneFilterNode nextId (GroupNode (FilterGroup gi c rs)) s =
     (let (i, s1) = nextId s; (rs', s2) = clone_nodes nextId rs s1
      in (GroupNode (FilterGroup i c rs'), s2))"
| "clone_nodes nextId [] s = ([], s)"
| "clone_nodes nextId (n # ns) s =
     (let (n', s1) = cloneFilterNode nextId n s; (ns', s2) = clone_nodes nextId ns s1
      in (n' # ns', s2))"

definition duplicateFilterNode ::
  "filter_query \<Rightarrow> string \<Rightarrow> ('s \<Rightarrow> string \<times> 's) \<Rightarrow> 's \<Rightarrow> filter_query \<times> 's" where
  "duplicateFilterNode q i nextId s =
     (case findFilterNode q i of
        None \<Rightarrow> (q, s)
      | Some f \<Rightarrow>
          (case found_parent f of
             None \<Rightarrow> (q, s)
           | Some parent \<Rightarrow>
               (let (n, s') = cloneFilterNode nextId (found_node f) s
                in (insertFilterNode q n (Some (group_id parent)) (Some (found_index f + 1)), s'))))"

definition setFilterCombinator :: "filter_query \<Rightarrow> string \<Rightarrow> filter_combinator \<Rightarrow> filter_query" where
  "setFilterCombinator q groupId combinator =
     settle q (rewriteGroup
       (\<lambda>g. group_id g = groupId)
       (\<lambda>g. if group_combinator g = combinator then None
            else Some (FilterGroup (group_id g) combinator (group_rules g))) q)"

definition toggleFilterCombinator :: "filter_query \<Rightarrow> string \<Rightarrow> filter_query" where
  "toggleFilterCombinator q groupId =
     (case findFilterNode q groupId of
        None \<Rightarrow> q
      | Some f \<Rightarrow>
          (case found_node f of
             RuleNode _ \<Rightarrow> q
           | GroupNode g \<Rightarrow>
               setFilterCombinator q groupId (if group_combinator g = CAnd then COr else CAnd)))"

text \<open>
  The two splices of \<^verbatim>\<open>moveFilterNode\<close>: the removed element, when there is one at \<open>from\<close>, goes back
  in at \<open>to\<close>.  (The index comes from the lookup of the same group, so there is one.)
\<close>

definition move_in_list :: "nat \<Rightarrow> nat \<Rightarrow> 'a list \<Rightarrow> 'a list" where
  "move_in_list from to xs = js_splice to 0 (take 1 (drop from xs)) (js_splice from 1 [] xs)"

definition moveFilterNode :: "filter_query \<Rightarrow> string \<Rightarrow> int \<Rightarrow> filter_query" where
  "moveFilterNode q i delta =
     (case findFilterNode q i of
        None \<Rightarrow> q
      | Some f \<Rightarrow>
          (case found_parent f of
             None \<Rightarrow> q
           | Some parent \<Rightarrow>
               (let from = found_index f; to = from + delta in
                if to < 0 \<or> to \<ge> int (length (group_rules parent)) \<or> delta = 0 then q
                else settle q (rewriteGroup
                       (\<lambda>g. group_id g = group_id parent)
                       (\<lambda>g. Some (FilterGroup (group_id g) (group_combinator g)
                          (move_in_list (nat from) (nat to) (group_rules g)))) q))))"

fun containsFilterNode :: "filter_node \<Rightarrow> string \<Rightarrow> bool" where
  "containsFilterNode (RuleNode r) i = (rule_id r = i)"
| "containsFilterNode (GroupNode (FilterGroup gi c rs)) i =
     (gi = i \<or> list_ex (\<lambda>n. containsFilterNode n i) rs)"

fun detachFilterNode :: "string \<Rightarrow> filter_group \<Rightarrow> filter_group option" where
  "detachFilterNode i (FilterGroup gi c rs) =
     (let outs = map (\<lambda>ch.
            if node_id ch = i then (True, [])
            else case ch of
                   GroupNode g \<Rightarrow>
                     (let p = detachFilterNode i g in (p \<noteq> None, [GroupNode (settle g p)]))
                 | RuleNode r \<Rightarrow> (False, [ch])) rs
      in if list_ex fst outs then Some (FilterGroup gi c (concat (map snd outs))) else None)"

definition moveFilterNodeTo :: "filter_query \<Rightarrow> string \<Rightarrow> string \<Rightarrow> int \<Rightarrow> filter_query" where
  "moveFilterNodeTo q i parentId index =
     (case findFilterNode q i of
        None \<Rightarrow> q
      | Some f \<Rightarrow>
          (case found_parent f of
             None \<Rightarrow> q
           | Some parent \<Rightarrow>
               if containsFilterNode (found_node f) parentId then q
               else (case findFilterNode q parentId of
                       None \<Rightarrow> q
                     | Some destination \<Rightarrow>
                         if \<not> isFilterGroup (found_node destination) then q
                         else let sameParent = (group_id parent = parentId);
                                  target = (if sameParent \<and> found_index f < index then index - 1 else index)
                              in if sameParent \<and> target = found_index f then q
                                 else insertFilterNode (settle q (detachFilterNode i q)) (found_node f)
                                        (Some parentId) (Some target))))"

definition copyFilterNodeTo ::
  "filter_query \<Rightarrow> string \<Rightarrow> string \<Rightarrow> int \<Rightarrow> ('s \<Rightarrow> string \<times> 's) \<Rightarrow> 's \<Rightarrow> filter_query \<times> 's" where
  "copyFilterNodeTo q i parentId index nextId s =
     (case findFilterNode q i of
        None \<Rightarrow> (q, s)
      | Some f \<Rightarrow>
          if found_parent f = None then (q, s)
          else (case findFilterNode q parentId of
                  None \<Rightarrow> (q, s)
                | Some destination \<Rightarrow>
                    if \<not> isFilterGroup (found_node destination) then (q, s)
                    else let (n, s') = cloneFilterNode nextId (found_node f) s
                         in (insertFilterNode q n (Some parentId) (Some index), s')))"

definition wrapFilterNodeInGroup ::
  "filter_query \<Rightarrow> string \<Rightarrow> string \<Rightarrow> filter_combinator \<Rightarrow> filter_query" where
  "wrapFilterNodeInGroup q i groupId combinator =
     (case findFilterNode q i of
        None \<Rightarrow> q
      | Some f \<Rightarrow>
          (case found_parent f of
             None \<Rightarrow> q
           | Some parent \<Rightarrow>
               settle q (rewriteGroup
                 (\<lambda>g. group_id g = group_id parent)
                 (\<lambda>g. Some (FilterGroup (group_id g) (group_combinator g)
                    (map (\<lambda>ch. if node_id ch = i
                                then GroupNode (createFilterGroup groupId (Some combinator) (Some [ch]))
                                else ch) (group_rules g)))) q)))"

definition unwrapFilterGroup :: "filter_query \<Rightarrow> string \<Rightarrow> filter_query" where
  "unwrapFilterGroup q groupId =
     (if group_id q = groupId then q
      else case findFilterNode q groupId of
             None \<Rightarrow> q
           | Some f \<Rightarrow>
               (case (found_parent f, found_node f) of
                  (Some parent, GroupNode dissolved) \<Rightarrow>
                    settle q (rewriteGroup
                      (\<lambda>g. group_id g = group_id parent)
                      (\<lambda>g. Some (FilterGroup (group_id g) (group_combinator g)
                         (js_splice (nat (found_index f)) 1 (group_rules dissolved) (group_rules g)))) q)
                | _ \<Rightarrow> q))"

definition clearFilterQuery :: "filter_query \<Rightarrow> filter_query" where
  "clearFilterQuery q =
     (if group_rules q = [] then q else FilterGroup (group_id q) (group_combinator q) [])"

definition opt_list :: "'a option \<Rightarrow> 'a list" where
  "opt_list r = (case r of None \<Rightarrow> [] | Some x \<Rightarrow> [x])"

fun prune_node :: "filter_node \<Rightarrow> filter_node option" where
  "prune_node (RuleNode r) = Some (RuleNode r)"
| "prune_node (GroupNode (FilterGroup i c rs)) =
     (let rules = concat (map (\<lambda>ch. opt_list (prune_node ch)) rs)
      in if rules = [] then None
         else if length rules = 1 \<and> isFilterGroup (hd rules) then Some (hd rules)
         else Some (GroupNode (FilterGroup i c rules)))"

definition pruneFilterQuery :: "filter_query \<Rightarrow> filter_query" where
  "pruneFilterQuery q =
     FilterGroup (group_id q) (group_combinator q)
       (concat (map (\<lambda>ch. opt_list (prune_node ch)) (group_rules q)))"

end
