(* ===== verification/Filter_Zipper.thy ===== *)
theory Filter_Zipper
  imports Filter_Query
begin

text \<open>
  The reasoning layer over the filter query tree: the ids and rules a tree holds, the invariant
  that ids are distinct, and the zipper \<open>at_group q g C\<close> ("the group \<open>g\<close> sits in \<open>q\<close> under the
  context \<open>C\<close>").  With distinct ids every edit of \<^verbatim>\<open>filters-query.tsx\<close> is the replacement of one
  group under its context; \<open>rewrite_at\<close> and \<open>find_at\<close> say so for \<open>rewriteGroup\<close> and
  \<open>findFilterNode\<close>, and the theories about the edits only use those two.
\<close>

named_theorems zipper_simps "reading a query through its contexts"

section \<open>Induction and ids\<close>

lemma group_induct [case_names FilterGroup]:
  assumes "\<And>i c rs. (\<And>g. GroupNode g \<in> set rs \<Longrightarrow> P g) \<Longrightarrow> P (FilterGroup i c rs)"
  shows "P g"
proof (induction "size g" arbitrary: g rule: less_induct)
  case less
  obtain i c rs where g: "g = FilterGroup i c rs" by (cases g)
  have "P g'" if "GroupNode g' \<in> set rs" for g'
    using less that size_list_estimation' [OF that, of "size (GroupNode g')" size] g by auto
  then show ?case unfolding g by (rule assms)
qed

lemma node_induct [case_names Rule Group]:
  assumes "\<And>r. P (RuleNode r)"
    and "\<And>i c rs. (\<And>n. n \<in> set rs \<Longrightarrow> P n) \<Longrightarrow> P (GroupNode (FilterGroup i c rs))"
  shows "P n"
proof (induction "size n" arbitrary: n rule: less_induct)
  case less
  show ?case
  proof (cases n)
    case (GroupNode g)
    obtain i c rs where g: "g = FilterGroup i c rs" by (cases g)
    have "P n'" if "n' \<in> set rs" for n'
      using less that size_list_estimation' [OF that, of "size n'" size] g GroupNode by auto
    then show ?thesis unfolding g GroupNode by (rule assms(2))
  qed (simp add: assms(1))
qed

fun ids_node :: "filter_node \<Rightarrow> string list" where
  "ids_node (RuleNode r) = [rule_id r]"
| "ids_node (GroupNode (FilterGroup i c rs)) = i # concat (map ids_node rs)"

abbreviation ids :: "filter_group \<Rightarrow> string list" where
  "ids g \<equiv> ids_node (GroupNode g)"

abbreviation ids_of :: "filter_node list \<Rightarrow> string list" where
  "ids_of ns \<equiv> concat (map ids_node ns)"

lemma ids_group: "ids g = group_id g # ids_of (group_rules g)"
  by (cases g) simp

lemma node_id_in_ids [simp]: "node_id n \<in> set (ids_node n)"
  by (cases n) (auto simp: ids_group)

lemma hd_ids_node: "ids_node n = node_id n # tl (ids_node n)"
  by (cases n) (auto simp: ids_group)

text \<open>The invariant of a query: no two nodes share an id.\<close>

definition distinct_ids :: "filter_query \<Rightarrow> bool" where
  "distinct_ids q \<longleftrightarrow> distinct (ids q)"

lemma distinct_ids_FilterGroup:
  "distinct_ids (FilterGroup i c (as @ GroupNode g # bs)) \<longleftrightarrow>
     i \<notin> set (ids_of as) \<and> i \<notin> set (ids g) \<and> i \<notin> set (ids_of bs) \<and>
     distinct (ids_of as) \<and> distinct_ids g \<and> distinct (ids_of bs) \<and>
     set (ids_of as) \<inter> set (ids g) = {} \<and> set (ids_of as) \<inter> set (ids_of bs) = {} \<and>
     set (ids g) \<inter> set (ids_of bs) = {}"
  by (auto simp: distinct_ids_def)

section \<open>Contexts\<close>

inductive at_group :: "filter_group \<Rightarrow> filter_group \<Rightarrow> (filter_group \<Rightarrow> filter_group) \<Rightarrow> bool" where
  here: "at_group g g (\<lambda>x. x)"
| below: "at_group q g C \<Longrightarrow>
    at_group (FilterGroup i c (as @ GroupNode q # bs)) g
      (\<lambda>x. FilterGroup i c (as @ GroupNode (C x) # bs))"

inductive_cases at_group_elim: "at_group q g C"

lemma at_group_plug: "at_group q g C \<Longrightarrow> C g = q"
  by (induction rule: at_group.induct) auto

lemma at_group_replug: "at_group q g C \<Longrightarrow> at_group (C x) x C"
  by (induction rule: at_group.induct) (auto intro: at_group.intros)

lemma at_group_ids: "at_group q g C \<Longrightarrow> set (ids g) \<subseteq> set (ids q)"
  by (induction rule: at_group.induct) auto

lemma at_group_child_ids:
  "at_group q p C \<Longrightarrow> n \<in> set (group_rules p) \<Longrightarrow> set (ids_node n) \<subseteq> set (ids_of (group_rules q))"
  by (induction rule: at_group.induct) (auto simp: ids_group)

lemma at_group_distinct: "at_group q g C \<Longrightarrow> distinct_ids q \<Longrightarrow> distinct_ids g"
  by (induction rule: at_group.induct) (auto simp: distinct_ids_def)

text \<open>
  A measure that adds up over the tree changes under a context exactly by what changes in the
  hole.  The contract is stated once and used for the ids and for the rules.
\<close>

locale tree_measure =
  fixes m :: "filter_node \<Rightarrow> 'a multiset" and own :: "string \<Rightarrow> 'a multiset"
  assumes m_group: "m (GroupNode (FilterGroup i c rs)) = own i + (\<Sum>n\<leftarrow>rs. m n)"
begin

abbreviation mg :: "filter_group \<Rightarrow> 'a multiset" where
  "mg g \<equiv> m (GroupNode g)"

lemma mg_exchange: "at_group q g C \<Longrightarrow> mg (C x) + mg g = mg q + mg x"
proof (induction rule: at_group.induct)
  case (below q g C i c as bs)
  have "mg (FilterGroup i c (as @ GroupNode (C x) # bs)) + mg g =
        own i + (\<Sum>n\<leftarrow>as. m n) + (\<Sum>n\<leftarrow>bs. m n) + (mg (C x) + mg g)"
    by (simp add: m_group ac_simps)
  also have "\<dots> = own i + (\<Sum>n\<leftarrow>as. m n) + (\<Sum>n\<leftarrow>bs. m n) + (mg q + mg x)"
    using below.IH by simp
  finally show ?case by (simp add: m_group ac_simps)
qed (simp add: add.commute)

lemma mg_same: "at_group q g C \<Longrightarrow> mg x = mg g \<Longrightarrow> mg (C x) = mg q"
  using mg_exchange [of q g C x] by simp

lemma mg_more: "at_group q g C \<Longrightarrow> mg x = mg g + d \<Longrightarrow> mg (C x) = mg q + d"
  using mg_exchange [of q g C x] by (simp add: ac_simps)

lemma mg_less: "at_group q g C \<Longrightarrow> mg g = mg x + d \<Longrightarrow> mg q = mg (C x) + d"
  using mg_exchange [of q g C x] by (simp add: ac_simps)

end

definition rules_of :: "filter_node \<Rightarrow> filter_rule multiset" where
  "rules_of n = mset (flatten_walk n)"

definition ids_mset :: "filter_node \<Rightarrow> string multiset" where
  "ids_mset n = mset (ids_node n)"

lemma mset_concat_map: "mset (concat (map f xs)) = (\<Sum>x\<leftarrow>xs. mset (f x))"
  by (induction xs) auto

interpretation id_measure: tree_measure ids_mset "\<lambda>i. {#i#}"
  by unfold_locales (simp add: ids_mset_def mset_concat_map)

interpretation rule_measure: tree_measure rules_of "\<lambda>i. {#}"
  by unfold_locales (simp add: rules_of_def mset_concat_map)

lemma distinct_conv_count: "distinct xs \<longleftrightarrow> (\<forall>a. count (mset xs) a \<le> 1)"
proof -
  have "count (mset xs) a \<le> 1 \<longleftrightarrow> count (mset xs) a = (if a \<in> set xs then 1 else 0)" for a
    by (simp only: set_mset_mset [symmetric] count_greater_zero_iff [symmetric]) arith
  then show ?thesis by (simp add: distinct_count_atmost_1)
qed

lemma distinct_ids_mset: "distinct_ids q \<longleftrightarrow> (\<forall>i. count (ids_mset (GroupNode q)) i \<le> 1)"
  by (simp add: distinct_ids_def ids_mset_def distinct_conv_count del: ids_node.simps)

lemma distinct_ids_cong:
  "ids_mset (GroupNode q') = ids_mset (GroupNode q) \<Longrightarrow> distinct_ids q' = distinct_ids q"
  by (simp add: distinct_ids_mset)

section \<open>The edits under a context\<close>

lemma rewrite_unfold:
  "rewriteGroup should tr (FilterGroup i c (as @ GroupNode g # bs)) =
     map_option (\<lambda>g'. FilterGroup i c (as @ GroupNode g' # bs)) (rewriteGroup should tr g)"
  if "\<not> should (FilterGroup i c (as @ GroupNode g # bs))"
    and "\<forall>h. GroupNode h \<in> set as \<union> set bs \<longrightarrow> rewriteGroup should tr h = None"
proof -
  let ?f = "\<lambda>ch. case ch of RuleNode r \<Rightarrow> None
      | GroupNode g \<Rightarrow> map_option GroupNode (rewriteGroup should tr g)"
  have skip: "?f n = None" if "n \<in> set as \<union> set bs" for n
    using that \<open>\<forall>h. _\<close> by (cases n) auto
  have keep: "map2 settle ns (map ?f ns) = ns" if "set ns \<subseteq> set as \<union> set bs" for ns
    using that by (induction ns) (auto simp: skip simp del: split_paired_All)
  have none: "list_all (\<lambda>n. n = None) (map ?f ns)" if "set ns \<subseteq> set as \<union> set bs" for ns
    using that skip by (auto simp: list_all_iff)
  have len: "length (map ?f as) = length as" by simp
  show ?thesis
  proof (cases "rewriteGroup should tr g")
    case None
    then have "list_all (\<lambda>n. n = None) (map ?f (as @ GroupNode g # bs))"
      using none [of as] none [of bs] by simp
    then show ?thesis using that(1) None by (simp add: Let_def)
  next
    case (Some g')
    have "map2 settle (as @ GroupNode g # bs) (map ?f (as @ GroupNode g # bs)) = as @ GroupNode g' # bs"
      using keep [of as] keep [of bs] Some by (simp add: zip_append)
    then show ?thesis using that(1) Some by (simp add: Let_def)
  qed
qed

text \<open>
  The edits select the group to rewrite by an id: the group's own, or that of one of its rules.
  What they rely on is that the selecting ids of a group are among its ids, and are not shared
  with a group below it when ids are distinct.
\<close>

locale rewrite_key =
  fixes K :: "filter_group \<Rightarrow> string set"
  assumes key_ids: "K g \<subseteq> set (ids g)"
    and key_outer: "distinct_ids (FilterGroup i c (as @ GroupNode q # bs)) \<Longrightarrow>
      K (FilterGroup i c (as @ GroupNode q # bs)) \<inter> set (ids q) = {}"
begin

lemma rewrite_absent:
  "t \<notin> set (ids g) \<Longrightarrow> rewriteGroup (\<lambda>h. t \<in> K h) tr g = None"
proof (induction g rule: group_induct)
  case (FilterGroup i c rs)
  have "(case ch of RuleNode r \<Rightarrow> None
      | GroupNode g \<Rightarrow> map_option GroupNode (rewriteGroup (\<lambda>h. t \<in> K h) tr g)) = None"
    if "ch \<in> set rs" for ch
    using FilterGroup that by (cases ch) auto
  moreover have "t \<notin> K (FilterGroup i c rs)" using FilterGroup.prems key_ids by blast
  ultimately show ?case by (auto simp: Let_def list_all_iff)
qed

lemma rewrite_at:
  assumes "at_group q g C" and "distinct_ids q" and "t \<in> K g"
  shows "rewriteGroup (\<lambda>h. t \<in> K h) tr q = map_option C (tr g)"
  using assms
proof (induction rule: at_group.induct)
  case (here g)
  then show ?case by (cases g) (simp add: option.map_ident)
next
  case (below q g C i c as bs)
  have dq: "distinct_ids q" and fresh: "set (ids_of as) \<inter> set (ids q) = {}"
      "set (ids q) \<inter> set (ids_of bs) = {}"
    using below.prems by (auto simp: distinct_ids_FilterGroup)
  have tq: "t \<in> set (ids q)"
    using at_group_ids [OF below.hyps] below.prems key_ids by blast
  have "rewriteGroup (\<lambda>h. t \<in> K h) tr h = None"
    if "GroupNode h \<in> set as \<union> set bs" for h
    using that tq fresh by (intro rewrite_absent) fastforce
  moreover have "t \<notin> K (FilterGroup i c (as @ GroupNode q # bs))"
    using tq key_outer [OF below.prems(1)] by blast
  ultimately have "rewriteGroup (\<lambda>h. t \<in> K h) tr (FilterGroup i c (as @ GroupNode q # bs))
      = map_option (\<lambda>g'. FilterGroup i c (as @ GroupNode g' # bs)) (rewriteGroup (\<lambda>h. t \<in> K h) tr q)"
    by (intro rewrite_unfold) auto
  with below.IH [OF dq below.prems(2)] show ?case by (simp add: option.map_comp comp_def)
qed

end

interpretation by_id: rewrite_key "\<lambda>g. {group_id g}"
  by unfold_locales (auto simp: ids_group distinct_ids_FilterGroup)

definition rule_children :: "filter_group \<Rightarrow> string set" where
  "rule_children g = {rule_id r | r. RuleNode r \<in> set (group_rules g)}"

interpretation by_rule: rewrite_key rule_children
proof unfold_locales
  have in_ids: "rule_id r \<in> set (ids_of ns)" if "RuleNode r \<in> set ns" for r ns
    using that by (auto intro!: bexI [of _ "RuleNode r"])
  show "rule_children g \<subseteq> set (ids g)" for g
    using in_ids by (auto simp only: rule_children_def ids_group list.set)
  show "rule_children (FilterGroup i c (as @ GroupNode q # bs)) \<inter> set (ids q) = {}"
    if "distinct_ids (FilterGroup i c (as @ GroupNode q # bs))" for i c as q bs
    using that in_ids [of _ as] in_ids [of _ bs]
    unfolding rule_children_def distinct_ids_FilterGroup filter_group.sel set_append list.set by blast
qed

text \<open>With distinct ids, rewriting the group named \<open>group_id g\<close> replaces \<open>g\<close> in its context.\<close>

lemma rewrite_group_at:
  assumes "at_group q g C" and "distinct_ids q" and "group_id g = t"
  shows "rewriteGroup (\<lambda>h. group_id h = t) tr q = map_option C (tr g)"
  using by_id.rewrite_at [OF assms(1,2), of t tr] assms(3) by (simp add: eq_commute [of t])

lemma rewrite_group_absent:
  "t \<notin> set (ids g) \<Longrightarrow> rewriteGroup (\<lambda>h. group_id h = t) tr g = None"
  using by_id.rewrite_absent [of t g tr] by (simp add: eq_commute [of t])

section \<open>Lookup under a context\<close>

lemma find_walk_absent: "i \<notin> set (ids_of ns) \<Longrightarrow> find_walk i g k ns = None"
proof (induction i g k ns rule: find_walk.induct)
  case (2 i g k ch chs)
  show ?case
  proof (cases ch)
    case (RuleNode r)
    with 2 show ?thesis by auto
  next
    case (GroupNode g')
    with 2 show ?thesis by (auto simp: ids_group)
  qed
qed simp

lemma find_walk_skip:
  "i \<notin> set (ids_of as) \<Longrightarrow> find_walk i g k (as @ ns) = find_walk i g (k + length as) ns"
proof (induction as arbitrary: k)
  case (Cons a as)
  then have "find_walk i g k (a # as @ ns) = find_walk i g (Suc k) (as @ ns)"
    by (cases a) (auto simp: find_walk_absent ids_group)
  with Cons show ?case by simp
qed simp

lemma distinct_ids_nth:
  assumes "distinct_ids g" "k < length (group_rules g)" "j < length (group_rules g)"
    and "i \<in> set (ids_node (group_rules g ! k))" "i \<in> set (ids_node (group_rules g ! j))"
  shows "k = j"
proof (rule ccontr)
  assume "k \<noteq> j"
  have d: "distinct (ids_of (group_rules g))" using assms(1) by (simp add: distinct_ids_def ids_group)
  have *: "False" if "a < b" "b < length (group_rules g)" "i \<in> set (ids_node (group_rules g ! a))"
      "i \<in> set (ids_node (group_rules g ! b))" for a b
  proof -
    have "group_rules g ! a \<in> set (take b (group_rules g))"
      using that by (metis in_set_conv_nth length_take min.absorb4 nth_take)
    moreover have "group_rules g ! b \<in> set (drop b (group_rules g))"
      using that by (metis Cons_nth_drop_Suc list.set_intros(1))
    moreover have "set (ids_of (take b (group_rules g))) \<inter> set (ids_of (drop b (group_rules g))) = {}"
      using d by (metis append_take_drop_id concat_append distinct_append map_append)
    ultimately show False using that by fastforce
  qed
  show False using * [of k j] * [of j k] assms \<open>k \<noteq> j\<close> by linarith
qed

lemma rules_split:
  "k < length (group_rules g) \<Longrightarrow>
     group_rules g = take k (group_rules g) @ group_rules g ! k # drop (Suc k) (group_rules g)"
  by (rule id_take_nth_drop)

lemma distinct_ids_around:
  assumes "distinct_ids g" "k < length (group_rules g)"
  shows "set (ids_of (take k (group_rules g))) \<inter> set (ids_node (group_rules g ! k)) = {}"
    and "set (ids_of (drop (Suc k) (group_rules g))) \<inter> set (ids_node (group_rules g ! k)) = {}"
proof -
  have "ids g = group_id g # ids_of (take k (group_rules g)) @ ids_node (group_rules g ! k) @
      ids_of (drop (Suc k) (group_rules g))"
    unfolding ids_group by (subst (1) rules_split [OF assms(2)]) simp
  with assms(1) show "set (ids_of (take k (group_rules g))) \<inter> set (ids_node (group_rules g ! k)) = {}"
    and "set (ids_of (drop (Suc k) (group_rules g))) \<inter> set (ids_node (group_rules g ! k)) = {}"
    unfolding distinct_ids_def by auto
qed

lemma node_id_nth_inj:
  assumes "distinct_ids g" "k < length (group_rules g)" "j < length (group_rules g)"
    and "node_id (group_rules g ! k) = node_id (group_rules g ! j)"
  shows "k = j"
  using distinct_ids_nth [OF assms(1-3)] assms(4) node_id_in_ids by metis

lemma find_walk_at:
  assumes "at_group q g C" "distinct_ids q" "k < length (group_rules g)" "node_id (group_rules g ! k) = i"
  shows "find_walk i q 0 (group_rules q) =
    Some \<lparr>found_node = group_rules g ! k, found_parent = Some g, found_index = int k\<rparr>"
  using assms
proof (induction rule: at_group.induct)
  case (here g)
  let ?rs = "group_rules g"
  have split: "?rs = take k ?rs @ ?rs ! k # drop (Suc k) ?rs"
    using here.prems by (intro rules_split)
  have "i \<notin> set (ids_of (take k ?rs))"
    using distinct_ids_around(1) [OF here.prems(1,2)] here.prems(3) node_id_in_ids by blast
  then have "find_walk i g 0 ?rs = find_walk i g (length (take k ?rs)) (?rs ! k # drop (Suc k) ?rs)"
    using find_walk_skip [of i "take k ?rs" g 0 "?rs ! k # drop (Suc k) ?rs"] split by simp
  with here.prems show ?case by simp
next
  case (below q g C i' c as bs)
  have d: "distinct_ids q" and fresh: "set (ids_of as) \<inter> set (ids q) = {}" "i' \<notin> set (ids q)"
    using below.prems by (auto simp: distinct_ids_FilterGroup)
  have iq: "i \<in> set (ids_of (group_rules q))"
  proof (rule ccontr)
    assume "\<not> ?thesis"
    with below.IH [OF d below.prems(2,3)] show False by (simp add: find_walk_absent)
  qed
  then have "i \<notin> set (ids_of as)" and "group_id q \<noteq> i"
    using fresh d by (auto simp: ids_group distinct_ids_def)
  with below.IH [OF d below.prems(2,3)] show ?case
    by (simp add: find_walk_skip)
qed

text \<open>With distinct ids, a child of \<open>g\<close> is found at its own position under its own parent.\<close>

lemma find_at:
  assumes "at_group q g C" "distinct_ids q" "k < length (group_rules g)" "node_id (group_rules g ! k) = i"
  shows "findFilterNode q i =
    Some \<lparr>found_node = group_rules g ! k, found_parent = Some g, found_index = int k\<rparr>"
proof -
  have "i \<in> set (ids_of (group_rules q))"
    using find_walk_at [OF assms] find_walk_absent [of i "group_rules q" q 0] by fastforce
  then have "group_id q \<noteq> i" using assms(2) by (auto simp: distinct_ids_def ids_group)
  with find_walk_at [OF assms] show ?thesis by (simp add: findFilterNode_def)
qed

lemma find_walk_sound:
  assumes "find_walk i g k ns = Some f" and "ns = drop k (group_rules g)"
  shows "\<exists>p C j. found_parent f = Some p \<and> at_group g p C \<and> found_index f = int j \<and>
    j < length (group_rules p) \<and> group_rules p ! j = found_node f \<and> node_id (found_node f) = i"
  using assms
proof (induction i g k ns rule: find_walk.induct)
  case (2 i g k ch chs)
  have k: "k < length (group_rules g)"
    using "2.prems"(2) by (metis drop_all leI list.distinct(1))
  then have "ch # chs = group_rules g ! k # drop (Suc k) (group_rules g)"
    using "2.prems"(2) by (simp add: Cons_nth_drop_Suc)
  then have ch: "ch = group_rules g ! k" and chs: "chs = drop (Suc k) (group_rules g)"
    by simp_all
  show ?case
  proof (cases "node_id ch = i")
    case True
    with "2.prems"(1) k ch show ?thesis by (auto intro!: exI [of _ g] exI [of _ "\<lambda>x. x"] exI [of _ k] here)
  next
    case False
    show ?thesis
    proof (cases ch)
      case (RuleNode r)
      with 2 False chs show ?thesis by simp
    next
      case (GroupNode g')
      show ?thesis
      proof (cases "find_walk i g' 0 (group_rules g')")
        case None
        with 2 False chs GroupNode show ?thesis by simp
      next
        case (Some f')
        with "2.prems"(1) False GroupNode have "f' = f" by simp
        with "2.IH"(2) [OF False GroupNode] Some obtain p C j where
          p: "found_parent f = Some p" "at_group g' p C" "found_index f = int j"
            "j < length (group_rules p)" "group_rules p ! j = found_node f" "node_id (found_node f) = i"
          by auto
        have "group_rules g = take k (group_rules g) @ GroupNode g' # drop (Suc k) (group_rules g)"
          using k ch GroupNode by (simp add: id_take_nth_drop)
        then have "g = FilterGroup (group_id g) (group_combinator g)
            (take k (group_rules g) @ GroupNode g' # drop (Suc k) (group_rules g))"
          by (metis filter_group.collapse)
        then obtain C' where "at_group g p C'" using at_group.below [OF p(2)] by metis
        with p show ?thesis by blast
      qed
    qed
  qed
qed simp

text \<open>What a lookup answers: the root, or a child at its index under a group of the tree.\<close>

lemma find_sound:
  assumes "findFilterNode q i = Some f"
  obtains (root) "found_parent f = None" "found_node f = GroupNode q" "group_id q = i"
  | (child) p C k where "found_parent f = Some p" "at_group q p C" "found_index f = int k"
      "k < length (group_rules p)" "group_rules p ! k = found_node f" "node_id (found_node f) = i"
proof (cases "group_id q = i")
  case True
  with assms root show ?thesis by (auto simp: findFilterNode_def)
next
  case False
  with assms have "find_walk i q 0 (group_rules q) = Some f" by (simp add: findFilterNode_def)
  from find_walk_sound [OF this] child show ?thesis by auto
qed

lemma find_walk_None: "find_walk i g k ns = None \<Longrightarrow> i \<notin> set (ids_of ns)"
proof (induction i g k ns rule: find_walk.induct)
  case (2 i g k ch chs)
  then show ?case by (cases ch) (auto simp: ids_group split: if_splits option.splits)
qed simp

lemma find_complete: "i \<in> set (ids q) \<Longrightarrow> \<exists>f. findFilterNode q i = Some f"
  using find_walk_None [of i q 0 "group_rules q"] by (auto simp: findFilterNode_def ids_group)

lemma find_None_iff: "findFilterNode q i = None \<longleftrightarrow> i \<notin> set (ids q)"
proof
  show "findFilterNode q i = None \<Longrightarrow> i \<notin> set (ids q)" using find_complete [of i q] by auto
  show "i \<notin> set (ids q) \<Longrightarrow> findFilterNode q i = None"
    by (auto simp: findFilterNode_def find_walk_absent ids_group)
qed

text \<open>A group that is not the root sits under a context, and so does a group the lookup returns.\<close>

lemma at_group_child:
  assumes "at_group q p C" "k < length (group_rules p)" "group_rules p ! k = GroupNode g"
  shows "\<exists>D. at_group q g D"
  using assms
proof (induction rule: at_group.induct)
  case (here p)
  then have "p = FilterGroup (group_id p) (group_combinator p)
      (take k (group_rules p) @ GroupNode g # drop (Suc k) (group_rules p))"
    by (metis filter_group.collapse id_take_nth_drop)
  then show ?case using at_group.below [OF at_group.here] by metis
next
  case (below q p C i c as bs)
  then show ?case by (blast intro: at_group.below)
qed

lemma find_group_at:
  assumes "findFilterNode q i = Some f" "found_node f = GroupNode g"
  shows "\<exists>C. at_group q g C" and "group_id g = i"
proof -
  show "\<exists>C. at_group q g C"
    using assms(1)
  proof (cases rule: find_sound)
    case root
    with assms(2) show ?thesis by (auto intro: here)
  next
    case (child p C k)
    with assms(2) show ?thesis by (auto intro: at_group_child)
  qed
  show "group_id g = i"
    using assms(1) by (cases rule: find_sound) (use assms(2) in auto)
qed

end
