(* ===== verification/Filter_Edits.thy ===== *)
theory Filter_Edits
  imports Filter_Zipper
begin

text \<open>
  What each edit of \<^verbatim>\<open>filters-query.tsx\<close> does to a query with distinct ids: the lemmas \<open>insert_at\<close>,
  \<open>update_at\<close>, \<open>detach_at\<close>, \<open>move_at\<close>, \<open>wrap_at\<close> and \<open>unwrap_at\<close> express every edit as one
  replacement under a context, and the properties (ids stay distinct, no condition is lost or
  duplicated, wrapping and unwrapping round-trip, pruning normalises) follow from them.
\<close>

abbreviation with_rules :: "filter_group \<Rightarrow> filter_node list \<Rightarrow> filter_group" where
  "with_rules g rs \<equiv> FilterGroup (group_id g) (group_combinator g) rs"

lemma with_rules_same [simp]: "with_rules g (group_rules g) = g"
  by (cases g) simp

lemma ids_mset_with_rules:
  "ids_mset (GroupNode (with_rules g rs)) = {#group_id g#} + (\<Sum>n\<leftarrow>rs. ids_mset n)"
  by (rule id_measure.m_group)

lemma ids_mset_group: "ids_mset (GroupNode g) = {#group_id g#} + (\<Sum>n\<leftarrow>group_rules g. ids_mset n)"
  using ids_mset_with_rules [of g "group_rules g"] by simp

lemma rules_of_with_rules: "rules_of (GroupNode (with_rules g rs)) = (\<Sum>n\<leftarrow>rs. rules_of n)"
  using rule_measure.m_group [of "group_id g" "group_combinator g" rs] by simp

lemma rules_of_group: "rules_of (GroupNode g) = (\<Sum>n\<leftarrow>group_rules g. rules_of n)"
  using rules_of_with_rules [of g "group_rules g"] by simp

lemma sum_list_mset: "mset xs = mset ys \<Longrightarrow> (\<Sum>x\<leftarrow>xs. f x) = (\<Sum>y\<leftarrow>ys. f y :: 'b multiset)"
  by (metis mset_map sum_mset_sum_list)

lemma sum_list_splice_insert:
  "(\<Sum>x\<leftarrow>js_splice k 0 items xs. f x) = (\<Sum>x\<leftarrow>xs. f x) + (\<Sum>x\<leftarrow>items. f x :: 'b multiset)"
  using sum_list_mset [of "js_splice k 0 items xs" "xs @ items" f] by (simp add: mset_splice_insert)

lemma sum_list_splice_replace:
  assumes "k < length xs"
  shows "(\<Sum>x\<leftarrow>js_splice k 1 items xs. f x) + f (xs ! k) = (\<Sum>x\<leftarrow>xs. f x) + (\<Sum>x\<leftarrow>items. f x :: 'b multiset)"
  using sum_list_mset [of "js_splice k 1 items xs @ [xs ! k]" "xs @ items" f]
    mset_splice_replace [OF assms, of items] by simp

lemma mset_move_in_list: "k < length xs \<Longrightarrow> mset (move_in_list k j xs) = mset xs"
  using mset_splice_replace [of k xs "[]"]
  by (simp add: move_in_list_def mset_splice_insert take_Suc_conv_app_nth take_drop hd_drop_conv_nth
      take_Suc)

section \<open>Each edit under its context\<close>

lemma insert_at:
  assumes "at_group q g C" "distinct_ids q"
  shows "insertFilterNode q n (Some (group_id g)) index =
    C (with_rules g (js_splice (insert_position index (length (group_rules g))) 0 [n] (group_rules g)))"
  using rewrite_group_at [OF assms refl] by (simp add: insertFilterNode_def)

lemma insert_root:
  assumes "distinct_ids q"
  shows "insertFilterNode q n None index =
    with_rules q (js_splice (insert_position index (length (group_rules q))) 0 [n] (group_rules q))"
  using rewrite_group_at [OF here assms refl] by (simp add: insertFilterNode_def)

lemma set_combinator_at:
  assumes "at_group q g C" "distinct_ids q"
  shows "setFilterCombinator q (group_id g) c = C (FilterGroup (group_id g) c (group_rules g))"
  using rewrite_group_at [OF assms refl] at_group_plug [OF assms(1)]
  by (cases g) (auto simp: setFilterCombinator_def)

lemma update_at:
  assumes "at_group q g C" "distinct_ids q" "k < length (group_rules g)"
    and "group_rules g ! k = RuleNode r" "rule_id r = i"
  shows "updateFilterRule q i u = C (with_rules g ((group_rules g)[k := RuleNode (apply_updates u r)]))"
proof -
  let ?f = "\<lambda>ch. case ch of RuleNode r \<Rightarrow> if rule_id r = i then RuleNode (apply_updates u r) else ch
      | GroupNode _ \<Rightarrow> ch"
  have dg: "distinct_ids g" using at_group_distinct assms by blast
  have should: "(\<lambda>h. list_ex (\<lambda>ch. node_id ch = i \<and> isFilterRule ch) (group_rules h)) =
      (\<lambda>h. i \<in> rule_children h)"
    by (auto simp: rule_children_def list_ex_iff fun_eq_iff elim!: isFilterRule.elims
        intro!: bexI [of _ "RuleNode _"])
  have "map ?f (group_rules g) = (group_rules g)[k := RuleNode (apply_updates u r)]"
  proof (rule nth_equalityI)
    fix j assume "j < length (map ?f (group_rules g))"
    then show "map ?f (group_rules g) ! j = (group_rules g)[k := RuleNode (apply_updates u r)] ! j"
      using node_id_nth_inj [OF dg, of j k] assms(3-5)
      by (cases "j = k") (auto split: filter_node.splits)
  qed simp
  moreover have "i \<in> rule_children g"
    using assms(3-5) by (force simp: rule_children_def in_set_conv_nth)
  ultimately show ?thesis
    using by_rule.rewrite_at [OF assms(1,2), of i] by (simp add: updateFilterRule_def should)
qed

text \<open>What the loop of \<^verbatim>\<open>detachFilterNode\<close> records for one child.\<close>

definition detach_out :: "string \<Rightarrow> filter_node \<Rightarrow> bool \<times> filter_node list" where
  "detach_out i ch = (if node_id ch = i then (True, [])
     else case ch of GroupNode g \<Rightarrow>
            (let p = detachFilterNode i g in (p \<noteq> None, [GroupNode (settle g p)]))
          | RuleNode r \<Rightarrow> (False, [ch]))"

lemma detach_eq:
  "detachFilterNode i (FilterGroup gi c rs) =
     (if list_ex (\<lambda>ch. fst (detach_out i ch)) rs
      then Some (FilterGroup gi c (concat (map (\<lambda>ch. snd (detach_out i ch)) rs))) else None)"
proof -
  have "detachFilterNode i (FilterGroup gi c rs) =
      (let outs = map (detach_out i) rs
       in if list_ex fst outs then Some (FilterGroup gi c (concat (map snd outs))) else None)"
    unfolding detachFilterNode.simps detach_out_def [abs_def] by (rule refl)
  then show ?thesis by (simp add: Let_def comp_def list_ex_iff)
qed

declare detachFilterNode.simps [simp del]

lemma detach_absent: "i \<notin> set (ids_of (group_rules g)) \<Longrightarrow> detachFilterNode i g = None"
proof (induction g rule: group_induct)
  case (FilterGroup gi c rs)
  have "\<not> fst (detach_out i ch)" if "ch \<in> set rs" for ch
  proof -
    have "node_id ch \<noteq> i" using FilterGroup.prems that node_id_in_ids [of ch] by auto
    then show ?thesis using FilterGroup that by (cases ch) (auto simp: detach_out_def ids_group Let_def)
  qed
  then show ?case by (simp add: detach_eq list_ex_iff)
qed

lemma detach_out_absent: "i \<notin> set (ids_node ch) \<Longrightarrow> detach_out i ch = (False, [ch])"
  using node_id_in_ids [of ch]
  by (cases ch) (auto simp: detach_out_def detach_absent ids_group)

lemma detach_out_absents:
  "i \<notin> set (ids_of ns) \<Longrightarrow> concat (map (\<lambda>ch. snd (detach_out i ch)) ns) = ns"
  by (induction ns) (auto simp: detach_out_absent)

lemma detach_at:
  assumes "at_group q g C" "distinct_ids q" "k < length (group_rules g)" "node_id (group_rules g ! k) = i"
  shows "detachFilterNode i q = Some (C (with_rules g (js_splice k 1 [] (group_rules g))))"
  using assms
proof (induction rule: at_group.induct)
  case (here g)
  let ?rs = "group_rules g"
  have split: "?rs = take k ?rs @ ?rs ! k # drop (Suc k) ?rs"
    using here.prems by (intro rules_split)
  have "i \<notin> set (ids_of (take k ?rs))" "i \<notin> set (ids_of (drop (Suc k) ?rs))"
    using distinct_ids_around [OF here.prems(1,2)] here.prems(3) node_id_in_ids by blast+
  moreover have "detach_out i (?rs ! k) = (True, [])" using here.prems by (simp add: detach_out_def)
  ultimately have "concat (map (\<lambda>ch. snd (detach_out i ch)) ?rs) = take k ?rs @ drop (Suc k) ?rs"
    by (subst split) (simp add: detach_out_absents)
  moreover have "list_ex (\<lambda>ch. fst (detach_out i ch)) ?rs"
    using here.prems \<open>detach_out i (?rs ! k) = _\<close> by (auto simp: list_ex_iff intro!: bexI [of _ "?rs ! k"])
  ultimately show ?case
    using detach_eq [of i "group_id g" "group_combinator g" ?rs] by (simp add: js_splice_def)
next
  case (below q g C i' c as bs)
  have d: "distinct_ids q" and fresh: "set (ids_of as) \<inter> set (ids q) = {}"
      "set (ids q) \<inter> set (ids_of bs) = {}"
    using below.prems(1) by (auto simp: distinct_ids_FilterGroup)
  have "i \<in> set (ids_of (group_rules q))"
    using find_walk_at [OF below.hyps d below.prems(2,3)] find_walk_absent [of i "group_rules q" q 0]
    by fastforce
  then have "i \<notin> set (ids_of as)" "i \<notin> set (ids_of bs)" "group_id q \<noteq> i"
    using fresh d by (auto simp: ids_group distinct_ids_def)
  moreover from this below.IH [OF d below.prems(2,3)]
  have "detach_out i (GroupNode q) = (True, [GroupNode (C (with_rules g (js_splice k 1 [] (group_rules g))))])"
    by (simp add: detach_out_def)
  ultimately show ?case by (simp add: detach_eq detach_out_absents)
qed

section \<open>Group ids\<close>

fun group_ids_node :: "filter_node \<Rightarrow> string multiset" where
  "group_ids_node (RuleNode r) = {#}"
| "group_ids_node (GroupNode (FilterGroup i c rs)) = {#i#} + (\<Sum>n\<leftarrow>rs. group_ids_node n)"

interpretation group_measure: tree_measure group_ids_node "\<lambda>i. {#i#}"
  by unfold_locales simp

lemma group_ids_of_group:
  "group_ids_node (GroupNode g) = {#group_id g#} + (\<Sum>n\<leftarrow>group_rules g. group_ids_node n)"
  by (cases g) simp

lemma in_sum_list_mset: "x \<in># (\<Sum>n\<leftarrow>ns. f n) \<longleftrightarrow> (\<exists>n\<in>set ns. x \<in># (f n :: 'b multiset))"
  by (induction ns) auto

lemma group_ids_subset: "t \<in># group_ids_node n \<Longrightarrow> t \<in> set (ids_node n)"
  by (induction n rule: node_induct) (auto simp: in_sum_list_mset)

lemma group_at:
  "t \<in># group_ids_node (GroupNode q) \<Longrightarrow> \<exists>g C. at_group q g C \<and> group_id g = t"
proof (induction q rule: group_induct)
  case (FilterGroup i c rs)
  show ?case
  proof (cases "t = i")
    case True
    then show ?thesis using here by (metis filter_group.sel(1))
  next
    case False
    with FilterGroup.prems obtain n where n: "n \<in> set rs" "t \<in># group_ids_node n"
      by (auto simp: in_sum_list_mset)
    obtain h where h: "n = GroupNode h" using n(2) by (cases n) auto
    with n FilterGroup.IH obtain g C where "at_group h g C" "group_id g = t" by blast
    moreover obtain as bs where "rs = as @ GroupNode h # bs"
      using n(1) h split_list by fast
    ultimately show ?thesis using below by blast
  qed
qed

lemma at_group_group_id: "at_group q g C \<Longrightarrow> group_id g \<in># group_ids_node (GroupNode q)"
proof (induction rule: at_group.induct)
  case (here g)
  then show ?case by (cases g) simp
qed (auto simp: in_sum_list_mset)

lemma find_group_ids:
  assumes "findFilterNode q t = Some f" "isFilterGroup (found_node f)"
  shows "t \<in># group_ids_node (GroupNode q)"
proof -
  obtain g where "found_node f = GroupNode g" using assms(2) by (cases "found_node f") auto
  with find_group_at [OF assms(1)] at_group_group_id show ?thesis by blast
qed

lemma contains_iff: "containsFilterNode n i \<longleftrightarrow> i \<in> set (ids_node n)"
  by (induction n rule: node_induct) (auto simp: list_ex_iff)

section \<open>Detaching and inserting\<close>

lemma distinct_ids_sub:
  "distinct_ids q \<Longrightarrow> ids_mset (GroupNode q) = ids_mset (GroupNode q1) + d \<Longrightarrow> distinct_ids q1"
  unfolding distinct_ids_mset by (metis add_leD1 plus_multiset.rep_eq)

lemma splice_out_measure:
  assumes "k < length (group_rules g)"
  shows "ids_mset (GroupNode g) =
      ids_mset (GroupNode (with_rules g (js_splice k 1 [] (group_rules g)))) + ids_mset (group_rules g ! k)"
    and "rules_of (GroupNode g) =
      rules_of (GroupNode (with_rules g (js_splice k 1 [] (group_rules g)))) + rules_of (group_rules g ! k)"
    and "group_ids_node (GroupNode g) =
      group_ids_node (GroupNode (with_rules g (js_splice k 1 [] (group_rules g)))) + group_ids_node (group_rules g ! k)"
  using sum_list_splice_replace [OF assms, of ids_mset "[]"]
    sum_list_splice_replace [OF assms, of rules_of "[]"]
    sum_list_splice_replace [OF assms, of group_ids_node "[]"]
  by (simp_all add: ids_mset_group ids_mset_with_rules rules_of_group rules_of_with_rules group_ids_of_group)

lemma insert_measure:
  assumes "at_group q g C" "distinct_ids q"
  shows "ids_mset (GroupNode (insertFilterNode q n (Some (group_id g)) index)) =
      ids_mset (GroupNode q) + ids_mset n"
    and "rules_of (GroupNode (insertFilterNode q n (Some (group_id g)) index)) =
      rules_of (GroupNode q) + rules_of n"
  unfolding insert_at [OF assms]
  by (rule id_measure.mg_more [OF assms(1)] rule_measure.mg_more [OF assms(1)],
      simp add: ids_mset_group ids_mset_with_rules rules_of_group rules_of_with_rules
        sum_list_splice_insert)+

lemma insert_position_le: "insert_position index len \<le> len"
  by (auto simp: insert_position_def split: option.splits)

lemma nth_splice_insert: "k \<le> length xs \<Longrightarrow> js_splice k 0 [x] xs ! k = x"
  by (simp add: js_splice_def nth_append)

text \<open>Inserting a node makes it the child of the named group at the clamped position.\<close>

lemma insert_found:
  assumes "at_group q g C" "distinct_ids q" "distinct_ids (insertFilterNode q n (Some (group_id g)) index)"
  shows "\<exists>p. findFilterNode (insertFilterNode q n (Some (group_id g)) index) (node_id n) =
    Some \<lparr>found_node = n, found_parent = Some p,
          found_index = int (insert_position index (length (group_rules g)))\<rparr> \<and>
    group_id p = group_id g"
proof -
  let ?k = "insert_position index (length (group_rules g))"
  let ?g' = "with_rules g (js_splice ?k 0 [n] (group_rules g))"
  have q': "insertFilterNode q n (Some (group_id g)) index = C ?g'" by (rule insert_at [OF assms(1,2)])
  have k: "?k \<le> length (group_rules g)" by (rule insert_position_le)
  have "findFilterNode (C ?g') (node_id n) =
      Some \<lparr>found_node = group_rules ?g' ! ?k, found_parent = Some ?g', found_index = int ?k\<rparr>"
    using assms(3) k nth_splice_insert [OF k, of n]
    by (intro find_at [OF at_group_replug [OF assms(1)]]) (auto simp: q' js_splice_def nth_append)
  then show ?thesis using q' nth_splice_insert [OF k, of n] by simp
qed

text \<open>A successful lookup of a child detaches into a query without it, in which every group that is
  not part of the child is still there.\<close>

lemma detach_child:
  assumes "distinct_ids q" "at_group q p C" "k < length (group_rules p)" "node_id (group_rules p ! k) = i"
  defines "q1 \<equiv> settle q (detachFilterNode i q)"
  shows "ids_mset (GroupNode q) = ids_mset (GroupNode q1) + ids_mset (group_rules p ! k)"
    and "rules_of (GroupNode q) = rules_of (GroupNode q1) + rules_of (group_rules p ! k)"
    and "group_ids_node (GroupNode q) = group_ids_node (GroupNode q1) + group_ids_node (group_rules p ! k)"
    and "distinct_ids q1"
proof -
  have q1: "q1 = C (with_rules p (js_splice k 1 [] (group_rules p)))"
    unfolding q1_def detach_at [OF assms(2,1,3,4)] by simp
  show ids: "ids_mset (GroupNode q) = ids_mset (GroupNode q1) + ids_mset (group_rules p ! k)"
    and "rules_of (GroupNode q) = rules_of (GroupNode q1) + rules_of (group_rules p ! k)"
    and "group_ids_node (GroupNode q) = group_ids_node (GroupNode q1) + group_ids_node (group_rules p ! k)"
    unfolding q1
    by (rule id_measure.mg_less [OF assms(2)] rule_measure.mg_less [OF assms(2)]
        group_measure.mg_less [OF assms(2)]; rule splice_out_measure [OF assms(3)])+
  show "distinct_ids q1"
    using assms(1) ids by (rule distinct_ids_sub)
qed

lemma moveFilterNodeTo_cases:
  assumes "distinct_ids q"
  obtains (same) "moveFilterNodeTo q i t index = q"
  | (moved) p C k q1 g D target where
      "findFilterNode q i = Some \<lparr>found_node = group_rules p ! k, found_parent = Some p, found_index = int k\<rparr>"
      "at_group q p C" "k < length (group_rules p)" "node_id (group_rules p ! k) = i"
      "q1 = settle q (detachFilterNode i q)" "distinct_ids q1" "at_group q1 g D" "group_id g = t"
      "target = (if group_id p = t \<and> int k < index then index - 1 else index)"
      "moveFilterNodeTo q i t index = insertFilterNode q1 (group_rules p ! k) (Some t) (Some target)"
proof (cases "moveFilterNodeTo q i t index = q")
  case False
  then obtain f p where f: "findFilterNode q i = Some f" "found_parent f = Some p"
      "\<not> containsFilterNode (found_node f) t"
    by (auto simp: moveFilterNodeTo_def Let_def split: option.splits if_splits)
  with False obtain d where d: "findFilterNode q t = Some d" "isFilterGroup (found_node d)"
    by (auto simp: moveFilterNodeTo_def Let_def split: option.splits if_splits)
  define target where "target = (if group_id p = t \<and> found_index f < index then index - 1 else index)"
  define q1 where "q1 = settle q (detachFilterNode i q)"
  have m: "moveFilterNodeTo q i t index = insertFilterNode q1 (found_node f) (Some t) (Some target)"
    using False f d
    by (auto simp: moveFilterNodeTo_def Let_def target_def q1_def split: if_splits)
  from f(1) show thesis
  proof (cases rule: find_sound)
    case root
    with f show ?thesis by simp
  next
    case (child p' C k)
    with f have p': "p' = p" by simp
    note det = detach_child [OF assms child(2) child(4), of i]
    have "t \<in># group_ids_node (GroupNode q1)"
      using find_group_ids [OF d] det(3) f(3) child group_ids_subset [of t "group_rules p' ! k"]
      by (auto simp: q1_def contains_iff)
    then obtain g D where g: "at_group q1 g D" "group_id g = t" using group_at by blast
    have "findFilterNode q i = Some \<lparr>found_node = group_rules p ! k, found_parent = Some p, found_index = int k\<rparr>"
      using find_at [OF child(2) assms child(4)] child(5,6) p' by simp
    then show ?thesis
      using moved [of p k C q1 g D target] g m child p' det(4) f target_def q1_def by simp
  qed
qed

text \<open>A move across groups is a permutation of the conditions and keeps every id.\<close>

lemma move_to_measure:
  assumes "distinct_ids q"
  shows "ids_mset (GroupNode (moveFilterNodeTo q i t index)) = ids_mset (GroupNode q)"
    and "rules_of (GroupNode (moveFilterNodeTo q i t index)) = rules_of (GroupNode q)"
proof -
  have "ids_mset (GroupNode (moveFilterNodeTo q i t index)) = ids_mset (GroupNode q) \<and>
      rules_of (GroupNode (moveFilterNodeTo q i t index)) = rules_of (GroupNode q)"
    using assms
  proof (cases rule: moveFilterNodeTo_cases [of q i t index])
    case (moved p C k q1 g D target)
    then show ?thesis
      using insert_measure [OF moved(7,6)] detach_child(1,2) [OF assms moved(2-4)] by simp
  qed simp
  then show "ids_mset (GroupNode (moveFilterNodeTo q i t index)) = ids_mset (GroupNode q)"
    and "rules_of (GroupNode (moveFilterNodeTo q i t index)) = rules_of (GroupNode q)"
    by simp_all
qed

end
