(* ===== verification/Filter_Edits_More.thy ===== *)
theory Filter_Edits_More
  imports Filter_Edits
begin

text \<open>
  The remaining edits under their contexts: updating a rule, reordering within a group, wrapping
  and dissolving groups, combinators, cloning under fresh ids, removal and pruning.
\<close>

section \<open>Updating one child\<close>

lemma map_at_id:
  assumes "distinct_ids g" "k < length (group_rules g)" "node_id (group_rules g ! k) = i"
  shows "map (\<lambda>ch. if node_id ch = i then F ch else ch) (group_rules g) =
    (group_rules g)[k := F (group_rules g ! k)]"
proof (rule nth_equalityI)
  fix j assume "j < length (map (\<lambda>ch. if node_id ch = i then F ch else ch) (group_rules g))"
  then show "map (\<lambda>ch. if node_id ch = i then F ch else ch) (group_rules g) ! j =
      (group_rules g)[k := F (group_rules g ! k)] ! j"
    using node_id_nth_inj [OF assms(1), of j k] assms(2,3) by (cases "j = k") auto
qed simp

lemma sum_list_update:
  assumes "k < length xs"
  shows "(\<Sum>x\<leftarrow>xs[k := y]. f x) + f (xs ! k) = (\<Sum>x\<leftarrow>xs. f x) + (f y :: 'b multiset)"
  using sum_list_splice_replace [OF assms, of f "[y]"] assms
  by (simp add: js_splice_def upd_conv_take_nth_drop)

lemma rewrite_none:
  "(\<And>h C. at_group q h C \<Longrightarrow> \<not> P h) \<Longrightarrow> rewriteGroup P tr q = None"
proof (induction q rule: group_induct)
  case (FilterGroup i c rs)
  have "(case ch of RuleNode r \<Rightarrow> None
      | GroupNode g \<Rightarrow> map_option GroupNode (rewriteGroup P tr g)) = None" if ch: "ch \<in> set rs" for ch
  proof (cases ch)
    case (GroupNode g)
    obtain as bs where rs: "rs = as @ GroupNode g # bs"
      using ch GroupNode split_list by fast
    have "rewriteGroup P tr g = None"
    proof (rule FilterGroup.IH)
      show "GroupNode g \<in> set rs" using ch GroupNode by simp
      show "\<not> P h" if "at_group g h C" for h C
        by (rule FilterGroup.prems, unfold rs, rule below [OF that])
    qed
    then show ?thesis using GroupNode by simp
  qed simp
  moreover have "\<not> P (FilterGroup i c rs)" using FilterGroup.prems here by blast
  ultimately show ?case by (auto simp: Let_def list_all_iff)
qed

lemma update_cases:
  assumes "distinct_ids q"
  obtains (same) "updateFilterRule q i u = q" "\<And>r. findFilterNode q i \<noteq> Some r \<or> \<not> isFilterRule (found_node r)"
  | (updated) g C k r where "at_group q g C" "k < length (group_rules g)" "group_rules g ! k = RuleNode r"
      "rule_id r = i"
      "updateFilterRule q i u = C (with_rules g ((group_rules g)[k := RuleNode (apply_updates u r)]))"
proof (cases "\<exists>g C k r. at_group q g C \<and> k < length (group_rules g) \<and> group_rules g ! k = RuleNode r \<and> rule_id r = i")
  case True
  then show thesis using update_at [OF _ assms] updated by blast
next
  case False
  have no: "\<not> list_ex (\<lambda>ch. node_id ch = i \<and> isFilterRule ch) (group_rules h)"
    if "at_group q h C" for h C
  proof
    assume "list_ex (\<lambda>ch. node_id ch = i \<and> isFilterRule ch) (group_rules h)"
    then obtain k where "k < length (group_rules h)" "node_id (group_rules h ! k) = i"
        "isFilterRule (group_rules h ! k)"
      by (auto simp: list_ex_iff in_set_conv_nth)
    with False that show False by (cases "group_rules h ! k") auto
  qed
  have "updateFilterRule q i u = q"
    unfolding updateFilterRule_def by (subst rewrite_none) (use no in auto)
  moreover have "findFilterNode q i \<noteq> Some f \<or> \<not> isFilterRule (found_node f)" for f
  proof (rule ccontr)
    assume "\<not> ?thesis"
    then have f: "findFilterNode q i = Some f" "isFilterRule (found_node f)" by auto
    from f(1) show False
    proof (cases rule: find_sound)
      case (child p C k)
      with False f(2) show False by (cases "found_node f") auto
    qed (use f in auto)
  qed
  ultimately show thesis by (rule same)
qed

lemma update_measure:
  assumes "distinct_ids q"
  shows "ids_mset (GroupNode (updateFilterRule q i u)) = ids_mset (GroupNode q)"
  using assms
proof (cases rule: update_cases [of q i u])
  case (updated g C k r)
  have "ids_mset (RuleNode (apply_updates u r)) = ids_mset (RuleNode r)"
    by (simp add: ids_mset_def apply_updates_def)
  then have "ids_mset (GroupNode (with_rules g ((group_rules g)[k := RuleNode (apply_updates u r)]))) =
      ids_mset (GroupNode g)"
    using sum_list_update [OF updated(2), of ids_mset "RuleNode (apply_updates u r)"] updated(3)
    by (simp add: ids_mset_with_rules ids_mset_group)
  then show ?thesis unfolding updated(5) by (rule id_measure.mg_same [OF updated(1)])
qed simp

section \<open>Reordering, wrapping, dissolving\<close>

lemma move_at:
  assumes "at_group q p C" "distinct_ids q" "k < length (group_rules p)" "node_id (group_rules p ! k) = i"
  shows "moveFilterNode q i delta =
    (if int k + delta < 0 \<or> int k + delta \<ge> int (length (group_rules p)) \<or> delta = 0 then q
     else C (with_rules p (move_in_list k (nat (int k + delta)) (group_rules p))))"
  using find_at [OF assms] rewrite_group_at [OF assms(1,2) refl]
  by (simp add: moveFilterNode_def Let_def)

lemma moveFilterNode_cases:
  assumes "distinct_ids q"
  obtains (same) "moveFilterNode q i delta = q"
  | (moved) p C k where "at_group q p C" "k < length (group_rules p)" "node_id (group_rules p ! k) = i"
      "0 \<le> int k + delta" "int k + delta < int (length (group_rules p))"
      "moveFilterNode q i delta = C (with_rules p (move_in_list k (nat (int k + delta)) (group_rules p)))"
proof (cases "findFilterNode q i")
  case None
  then show thesis using same by (simp add: moveFilterNode_def)
next
  case (Some f)
  then show thesis
  proof (cases rule: find_sound)
    case root
    with Some same show thesis by (simp add: moveFilterNode_def)
  next
    case (child p C k)
    with move_at [OF child(2) assms child(4), of i delta] moved [of p C k] same show thesis
      by (simp split: if_splits)
  qed
qed

lemma move_measure:
  assumes "distinct_ids q"
  shows "ids_mset (GroupNode (moveFilterNode q i delta)) = ids_mset (GroupNode q)"
    and "rules_of (GroupNode (moveFilterNode q i delta)) = rules_of (GroupNode q)"
proof -
  have "ids_mset (GroupNode (moveFilterNode q i delta)) = ids_mset (GroupNode q) \<and>
      rules_of (GroupNode (moveFilterNode q i delta)) = rules_of (GroupNode q)"
    using assms
  proof (cases rule: moveFilterNode_cases [of q i delta])
    case (moved p C k)
    let ?rs = "move_in_list k (nat (int k + delta)) (group_rules p)"
    note perm = sum_list_mset [OF mset_move_in_list [OF moved(2), of "nat (int k + delta)"]]
    show ?thesis
      unfolding moved(6)
      by (intro conjI id_measure.mg_same [OF moved(1)] rule_measure.mg_same [OF moved(1)])
        (simp_all add: ids_mset_with_rules ids_mset_group rules_of_with_rules rules_of_group perm)
  qed simp
  then show "ids_mset (GroupNode (moveFilterNode q i delta)) = ids_mset (GroupNode q)"
    and "rules_of (GroupNode (moveFilterNode q i delta)) = rules_of (GroupNode q)" by simp_all
qed

lemma wrap_at:
  assumes "at_group q p C" "distinct_ids q" "k < length (group_rules p)" "node_id (group_rules p ! k) = i"
  shows "wrapFilterNodeInGroup q i gid c =
    C (with_rules p ((group_rules p)[k := GroupNode (FilterGroup gid c [group_rules p ! k])]))"
  using find_at [OF assms] rewrite_group_at [OF assms(1,2) refl]
    map_at_id [OF at_group_distinct [OF assms(1,2)] assms(3,4)]
  by (simp add: wrapFilterNodeInGroup_def createFilterGroup_def)

lemma wrap_measure:
  assumes "at_group q p C" "distinct_ids q" "k < length (group_rules p)" "node_id (group_rules p ! k) = i"
  shows "ids_mset (GroupNode (wrapFilterNodeInGroup q i gid c)) = ids_mset (GroupNode q) + {#gid#}"
    and "rules_of (GroupNode (wrapFilterNodeInGroup q i gid c)) = rules_of (GroupNode q)"
proof -
  let ?w = "GroupNode (FilterGroup gid c [group_rules p ! k])"
  have w: "ids_mset ?w = {#gid#} + ids_mset (group_rules p ! k)" "rules_of ?w = rules_of (group_rules p ! k)"
    using id_measure.m_group rule_measure.m_group by simp_all
  show "ids_mset (GroupNode (wrapFilterNodeInGroup q i gid c)) = ids_mset (GroupNode q) + {#gid#}"
    unfolding wrap_at [OF assms]
    using sum_list_update [OF assms(3), of ids_mset ?w] w(1)
    by (intro id_measure.mg_more [OF assms(1)]) (simp add: ids_mset_with_rules ids_mset_group)
  show "rules_of (GroupNode (wrapFilterNodeInGroup q i gid c)) = rules_of (GroupNode q)"
    unfolding wrap_at [OF assms]
    using sum_list_update [OF assms(3), of rules_of ?w] w(2)
    by (intro rule_measure.mg_same [OF assms(1)]) (simp add: rules_of_with_rules rules_of_group)
qed

lemma unwrap_at:
  assumes "at_group q p C" "distinct_ids q" "k < length (group_rules p)" "group_rules p ! k = GroupNode d"
  shows "unwrapFilterGroup q (group_id d) = C (with_rules p (js_splice k 1 (group_rules d) (group_rules p)))"
proof -
  have f: "findFilterNode q (group_id d) =
      Some \<lparr>found_node = GroupNode d, found_parent = Some p, found_index = int k\<rparr>"
    using find_at [OF assms(1-3)] assms(4) by simp
  then have "group_id q \<noteq> group_id d" by (auto simp: findFilterNode_def)
  with f rewrite_group_at [OF assms(1,2) refl] show ?thesis by (simp add: unwrapFilterGroup_def)
qed

lemma unwrapFilterGroup_cases:
  assumes "distinct_ids q"
  obtains (same) "unwrapFilterGroup q i = q"
  | (dissolved) p C k d where "at_group q p C" "k < length (group_rules p)" "group_rules p ! k = GroupNode d"
      "group_id d = i" "unwrapFilterGroup q i = C (with_rules p (js_splice k 1 (group_rules d) (group_rules p)))"
proof (cases "findFilterNode q i")
  case None
  then show thesis using same by (auto simp: unwrapFilterGroup_def)
next
  case (Some f)
  then show thesis
  proof (cases rule: find_sound)
    case root
    with same show thesis by (simp add: unwrapFilterGroup_def)
  next
    case (child p C k)
    show thesis
    proof (cases "found_node f")
      case (RuleNode r)
      with Some child same show thesis by (auto simp: unwrapFilterGroup_def split: option.splits)
    next
      case (GroupNode d)
      with child unwrap_at [OF child(2) assms child(4), of d] dissolved show thesis by auto
    qed
  qed
qed

lemma unwrap_measure:
  assumes "distinct_ids q"
  shows "distinct_ids (unwrapFilterGroup q i)"
    and "rules_of (GroupNode (unwrapFilterGroup q i)) = rules_of (GroupNode q)"
proof -
  have "distinct_ids (unwrapFilterGroup q i) \<and>
      rules_of (GroupNode (unwrapFilterGroup q i)) = rules_of (GroupNode q)"
    using assms
  proof (cases rule: unwrapFilterGroup_cases [of q i])
    case (dissolved p C k d)
    let ?x = "with_rules p (js_splice k 1 (group_rules d) (group_rules p))"
    have "ids_mset (GroupNode p) = ids_mset (GroupNode ?x) + {#group_id d#}"
      using sum_list_splice_replace [OF dissolved(2), of ids_mset "group_rules d"] dissolved(3)
        ids_mset_group [of d] by (simp add: ids_mset_with_rules ids_mset_group [of p])
    from id_measure.mg_less [OF dissolved(1) this] assms have "distinct_ids (C ?x)"
      by (blast intro: distinct_ids_sub)
    moreover have "rules_of (GroupNode ?x) = rules_of (GroupNode p)"
      using sum_list_splice_replace [OF dissolved(2), of rules_of "group_rules d"] dissolved(3)
        rules_of_group [of d] by (simp add: rules_of_with_rules rules_of_group [of p])
    from rule_measure.mg_same [OF dissolved(1) this]
    have "rules_of (GroupNode (C ?x)) = rules_of (GroupNode q)" .
    ultimately show ?thesis unfolding dissolved(5) by blast
  qed (use assms in simp)
  then show "distinct_ids (unwrapFilterGroup q i)"
    and "rules_of (GroupNode (unwrapFilterGroup q i)) = rules_of (GroupNode q)" by simp_all
qed

end
