(* ===== verification/Filter_Removal.thy ===== *)
theory Filter_Removal
  imports Filter_Edits_More
begin

text \<open>
  Removing a node, clearing and pruning a query, setting its combinators, and cloning a subtree
  under fresh ids.
\<close>

section \<open>Removal\<close>

definition remove_out :: "string \<Rightarrow> filter_node \<Rightarrow> bool \<times> filter_node list" where
  "remove_out i ch = (if node_id ch = i then (True, [])
     else case ch of GroupNode g \<Rightarrow>
            (let p = remove_prune i g; next = settle g p
             in (p \<noteq> None, if group_rules next = [] then [] else [GroupNode next]))
          | RuleNode r \<Rightarrow> (False, [ch]))"

lemma remove_eq:
  "remove_prune i (FilterGroup gi c rs) =
     (if list_ex (\<lambda>ch. fst (remove_out i ch)) rs
      then Some (FilterGroup gi c (concat (map (\<lambda>ch. snd (remove_out i ch)) rs))) else None)"
proof -
  have "remove_prune i (FilterGroup gi c rs) =
      (let outs = map (remove_out i) rs
       in if list_ex fst outs then Some (FilterGroup gi c (concat (map snd outs))) else None)"
    unfolding remove_prune.simps remove_out_def [abs_def] by (rule refl)
  then show ?thesis by (simp add: Let_def comp_def list_ex_iff)
qed

declare remove_prune.simps [simp del]

text \<open>The removal answers the object it was given exactly when the id names nothing below it.\<close>

lemma remove_same_iff: "remove_prune i g = None \<longleftrightarrow> i \<notin> set (ids_of (group_rules g))"
proof (induction g rule: group_induct)
  case (FilterGroup gi c rs)
  have "fst (remove_out i ch) \<longleftrightarrow> i \<in> set (ids_node ch)" if ch: "ch \<in> set rs" for ch
  proof (cases ch)
    case (GroupNode g)
    with FilterGroup [of g] ch show ?thesis by (auto simp del: not_None_eq simp: remove_out_def ids_group Let_def)
  qed (auto simp: remove_out_def)
  then show ?case by (auto simp: remove_eq list_ex_iff)
qed

fun flatten_except :: "string \<Rightarrow> filter_node \<Rightarrow> filter_rule list" where
  "flatten_except i (RuleNode r) = (if rule_id r = i then [] else [r])"
| "flatten_except i (GroupNode (FilterGroup gi c rs)) =
     (if gi = i then [] else concat (map (flatten_except i) rs))"

lemma flatten_except_absent: "i \<notin> set (ids_node n) \<Longrightarrow> flatten_except i n = flatten_walk n"
proof (induction n rule: node_induct)
  case (Group gi c rs)
  then have "concat (map (flatten_except i) rs) = concat (map flatten_walk rs)"
    by (intro concat_map_cong) auto
  with Group.prems show ?case by auto
qed simp

lemma flatten_except_group:
  "group_id g \<noteq> i \<Longrightarrow> flatten_except i (GroupNode g) = concat (map (flatten_except i) (group_rules g))"
  by (cases g) simp

lemma flatten_group: "flatten_walk (GroupNode g) = concat (map flatten_walk (group_rules g))"
  by (cases g) simp

lemma remove_flatten:
  "flatten_walk (GroupNode (settle g (remove_prune i g))) = concat (map (flatten_except i) (group_rules g))"
proof (induction g rule: group_induct)
  case (FilterGroup gi c rs)
  show ?case
  proof (cases "remove_prune i (FilterGroup gi c rs)")
    case None
    then have "concat (map (flatten_except i) rs) = concat (map flatten_walk rs)"
      by (intro concat_map_cong) (auto simp: remove_same_iff flatten_except_absent)
    then show ?thesis using None by simp
  next
    case (Some g')
    have "concat (map flatten_walk (snd (remove_out i ch))) = flatten_except i ch" if "ch \<in> set rs" for ch
    proof (cases ch)
      case (GroupNode g)
      then have IH: "flatten_walk (GroupNode (settle g (remove_prune i g))) =
          concat (map (flatten_except i) (group_rules g))"
        using FilterGroup that by blast
      show ?thesis
      proof (cases "group_id g = i")
        case True
        then show ?thesis using GroupNode by (cases g) (simp add: remove_out_def)
      next
        case False
        then have "concat (map flatten_walk (snd (remove_out i ch))) =
            flatten_walk (GroupNode (settle g (remove_prune i g)))"
          using GroupNode by (auto simp: remove_out_def Let_def flatten_group)
        with False show ?thesis unfolding GroupNode IH by (simp add: flatten_except_group)
      qed
    qed (simp add: remove_out_def)
    then have "concat (map flatten_walk (concat (map (\<lambda>ch. snd (remove_out i ch)) rs))) =
        concat (map (flatten_except i) rs)"
      by (induction rs) auto
    then show ?thesis using Some by (auto simp: remove_eq split: if_splits)
  qed
qed

lemma remove_ids: "ids_mset (GroupNode (settle g (remove_prune i g))) \<subseteq># ids_mset (GroupNode g)"
proof (induction g rule: group_induct)
  case (FilterGroup gi c rs)
  have out: "(\<Sum>n\<leftarrow>snd (remove_out i ch). ids_mset n) \<subseteq># ids_mset ch" if "ch \<in> set rs" for ch
    using FilterGroup that by (cases ch) (auto simp: remove_out_def Let_def)
  have "(\<Sum>n\<leftarrow>concat (map (\<lambda>ch. snd (remove_out i ch)) rs'). ids_mset n) \<subseteq># (\<Sum>n\<leftarrow>rs'. ids_mset n)"
    if "set rs' \<subseteq> set rs" for rs'
    using that by (induction rs') (auto intro: subset_mset.add_mono out)
  then show ?case
    by (cases "remove_prune i (FilterGroup gi c rs)")
      (auto simp: remove_eq id_measure.m_group split: if_splits)
qed

lemma remove_distinct: "distinct_ids q \<Longrightarrow> distinct_ids (removeFilterNode q i)"
  using remove_ids [of q i] distinct_ids_sub unfolding removeFilterNode_def
  by (metis subset_mset.add_diff_inverse)

lemma remove_gone: "i \<notin> set (ids_of (group_rules (settle g (remove_prune i g))))"
proof (induction g rule: group_induct)
  case (FilterGroup gi c rs)
  show ?case
  proof (cases "remove_prune i (FilterGroup gi c rs)")
    case None
    then have "i \<notin> set (ids_of rs)" using remove_same_iff [of i "FilterGroup gi c rs"] by simp
    with None show ?thesis by simp
  next
    case (Some g')
    have "i \<notin> set (ids_of (snd (remove_out i ch)))" if "ch \<in> set rs" for ch
    proof (cases ch)
      case (GroupNode g)
      obtain next_g where n: "settle g (remove_prune i g) = next_g" by simp
      have gid: "group_id next_g = group_id g"
        using n by (cases g; cases "remove_prune i g") (auto simp: remove_eq split: if_splits)
      show ?thesis
        using GroupNode FilterGroup [of g] that gid n
        by (auto simp: remove_out_def Let_def ids_group)
    qed (auto simp: remove_out_def)
    then show ?thesis using Some by (auto simp: remove_eq split: if_splits)
  qed
qed

lemma remove_group_id [simp]: "group_id (settle g (remove_prune i g)) = group_id g"
  by (cases g; cases "remove_prune i g") (auto simp: remove_eq split: if_splits)

text \<open>No group below the root is empty.\<close>

fun no_empty_node :: "filter_node \<Rightarrow> bool" where
  "no_empty_node (RuleNode r) = True"
| "no_empty_node (GroupNode (FilterGroup i c rs)) = (rs \<noteq> [] \<and> list_all no_empty_node rs)"

definition no_empty_groups :: "filter_query \<Rightarrow> bool" where
  "no_empty_groups q \<longleftrightarrow> list_all no_empty_node (group_rules q)"

lemma no_empty_group: "no_empty_node (GroupNode g) \<longleftrightarrow> group_rules g \<noteq> [] \<and> no_empty_groups g"
  by (cases g) (simp add: no_empty_groups_def)

lemma remove_no_empty:
  "no_empty_groups g \<Longrightarrow> no_empty_groups (settle g (remove_prune i g))"
proof (induction g rule: group_induct)
  case (FilterGroup gi c rs)
  have "list_all no_empty_node (snd (remove_out i ch))" if "ch \<in> set rs" for ch
  proof (cases ch)
    case (GroupNode g)
    then have "no_empty_groups g"
      using FilterGroup.prems that by (auto simp: no_empty_groups_def list_all_iff no_empty_group)
    with FilterGroup.IH [of g] GroupNode that show ?thesis
      by (auto simp: remove_out_def Let_def no_empty_group)
  qed (auto simp: remove_out_def)
  then show ?case
    using FilterGroup.prems
    by (cases "remove_prune i (FilterGroup gi c rs)")
      (auto simp: remove_eq no_empty_groups_def list_all_iff split: if_splits)
qed

text \<open>With distinct ids the rules that go are those below the removed node, and the order of the
  others stays.\<close>

lemma rule_ids_flatten: "r \<in> set (flatten_walk n) \<Longrightarrow> rule_id r \<in> set (ids_node n)"
  by (induction n rule: node_induct) auto

lemma flatten_keep:
  assumes "i \<in> S" "set (ids_of ns) \<inter> S = {}"
  shows "concat (map (flatten_except i) ns) = filter (\<lambda>r. rule_id r \<notin> S) (concat (map flatten_walk ns))"
proof -
  have "concat (map (flatten_except i) ns) = concat (map flatten_walk ns)"
    using assms by (intro concat_map_cong flatten_except_absent) auto
  moreover have "rule_id r \<notin> S" if "r \<in> set (concat (map flatten_walk ns))" for r
    using that assms by (auto dest!: rule_ids_flatten)
  ultimately show ?thesis by (simp add: filter_id_conv)
qed

lemma flatten_except_self: "flatten_except (node_id n) n = []"
  by (cases n; cases "case n of GroupNode g \<Rightarrow> g") (auto split: filter_node.splits)

lemma flatten_except_filter:
  assumes "at_group q p C" "distinct_ids q" "k < length (group_rules p)" "node_id (group_rules p ! k) = i"
  shows "concat (map (flatten_except i) (group_rules q)) =
    filter (\<lambda>r. rule_id r \<notin> set (ids_node (group_rules p ! k))) (concat (map flatten_walk (group_rules q)))"
  using assms
proof (induction rule: at_group.induct)
  case (here p)
  let ?rs = "group_rules p" and ?S = "set (ids_node (group_rules p ! k))"
  have i: "i \<in> ?S" using node_id_in_ids here.prems(3) by metis
  note around = distinct_ids_around [OF here.prems(1,2)]
  have "filter (\<lambda>r. rule_id r \<notin> ?S) (flatten_walk (?rs ! k)) = []"
    by (auto simp: filter_empty_conv dest: rule_ids_flatten)
  moreover have "flatten_except i (?rs ! k) = []" using flatten_except_self here.prems(3) by metis
  moreover have "concat (map f ?rs) =
      concat (map f (take k ?rs)) @ f (?rs ! k) @ concat (map f (drop (Suc k) ?rs))" for f :: "_ \<Rightarrow> filter_rule list"
    using arg_cong [OF rules_split [OF here.prems(2)], of "\<lambda>xs. concat (map f xs)"] by simp
  ultimately show ?case
    using flatten_keep [OF i around(1)] flatten_keep [OF i around(2)] by simp
next
  case (below q p C i' c as bs)
  let ?S = "set (ids_node (group_rules p ! k))"
  have d: "distinct_ids q" and fresh: "set (ids_of as) \<inter> set (ids q) = {}"
      "set (ids q) \<inter> set (ids_of bs) = {}"
    using below.prems(1) by (auto simp: distinct_ids_FilterGroup)
  have sub: "?S \<subseteq> set (ids_of (group_rules q))"
    using below.prems(2) by (intro at_group_child_ids [OF below.hyps]) simp
  have i: "i \<in> ?S" using node_id_in_ids below.prems(3) by metis
  have "group_id q \<noteq> i" using i sub d by (auto simp: distinct_ids_def ids_group)
  then have "flatten_except i (GroupNode q) = filter (\<lambda>r. rule_id r \<notin> ?S) (flatten_walk (GroupNode q))"
    using below.IH [OF d below.prems(2,3)] by (simp add: flatten_except_group flatten_group)
  moreover have "set (ids_of as) \<inter> ?S = {}" "set (ids_of bs) \<inter> ?S = {}"
    using sub fresh by (auto simp: ids_group)
  ultimately show ?case using flatten_keep [OF i] by simp
qed

section \<open>Pruning\<close>

lemma opt_list_simps [simp]: "opt_list None = []" "opt_list (Some x) = [x]"
  by (simp_all add: opt_list_def)

abbreviation prune_nodes :: "filter_node list \<Rightarrow> filter_node list" where
  "prune_nodes ns \<equiv> concat (map (\<lambda>ch. opt_list (prune_node ch)) ns)"

text \<open>
  What a query means, given what each rule means: a group combines what its children mean, and a
  group in which nothing means anything carries no predicate.
\<close>

fun eval_node :: "(filter_rule \<Rightarrow> bool) \<Rightarrow> filter_node \<Rightarrow> bool option" where
  "eval_node p (RuleNode r) = Some (p r)"
| "eval_node p (GroupNode (FilterGroup i c rs)) =
     (let vs = concat (map (\<lambda>ch. opt_list (eval_node p ch)) rs)
      in if vs = [] then None
         else Some (case c of CAnd \<Rightarrow> list_all (\<lambda>v. v) vs | COr \<Rightarrow> list_ex (\<lambda>v. v) vs))"

abbreviation evals :: "(filter_rule \<Rightarrow> bool) \<Rightarrow> filter_node list \<Rightarrow> bool list" where
  "evals p ns \<equiv> concat (map (\<lambda>ch. opt_list (eval_node p ch)) ns)"

lemma evals_prune_nodes:
  "(\<And>n. n \<in> set ns \<Longrightarrow> Option.bind (prune_node n) (eval_node p) = eval_node p n) \<Longrightarrow>
     evals p (prune_nodes ns) = evals p ns"
proof (induction ns)
  case (Cons n ns)
  then have "evals p (prune_nodes ns) = evals p ns" by simp
  with Cons.prems [of n] show ?case by (cases "prune_node n") auto
qed simp

lemma prune_node_eval: "Option.bind (prune_node n) (eval_node p) = eval_node p n"
proof (induction n rule: node_induct)
  case (Group i c rs)
  let ?rs = "prune_nodes rs"
  have E: "evals p ?rs = evals p rs" by (rule evals_prune_nodes) (rule Group.IH)
  show ?case
  proof (cases "?rs")
    case Nil
    with E show ?thesis by (simp add: Let_def)
  next
    case (Cons m ms)
    show ?thesis
    proof (cases "ms = [] \<and> isFilterGroup m")
      case True
      with E Cons have "evals p rs = opt_list (eval_node p m)" by simp
      with True Cons show ?thesis by (cases "eval_node p m"; cases c) (auto simp: Let_def)
    next
      case False
      with Cons have "prune_node (GroupNode (FilterGroup i c rs)) = Some (GroupNode (FilterGroup i c ?rs))"
        by (auto simp: Let_def)
      with E show ?thesis by (simp add: Let_def)
    qed
  qed
qed simp

lemma prune_query_eval: "eval_node p (GroupNode (pruneFilterQuery q)) = eval_node p (GroupNode q)"
  using evals_prune_nodes [of "group_rules q" p] prune_node_eval
  by (cases q) (simp add: pruneFilterQuery_def Let_def)

lemma prune_nodes_flatten:
  "(\<And>n. n \<in> set ns \<Longrightarrow> concat (map flatten_walk (opt_list (prune_node n))) = flatten_walk n) \<Longrightarrow>
     concat (map flatten_walk (prune_nodes ns)) = concat (map flatten_walk ns)"
  by (induction ns) auto

lemma prune_node_flatten: "concat (map flatten_walk (opt_list (prune_node n))) = flatten_walk n"
proof (induction n rule: node_induct)
  case (Group i c rs)
  note F = prune_nodes_flatten [OF Group.IH, of rs]
  show ?case
  proof (cases "prune_nodes rs")
    case (Cons m ms)
    with F show ?thesis by (cases "ms = [] \<and> isFilterGroup m") (auto simp: Let_def)
  next
    case Nil
    then have "concat (map flatten_walk rs) = []" using F unfolding Nil by simp
    with Nil show ?thesis by (simp add: Let_def)
  qed
qed simp

lemma prune_query_flatten: "flattenFilterRules (pruneFilterQuery q) = flattenFilterRules q"
  using prune_nodes_flatten [of "group_rules q", OF prune_node_flatten]
  by (cases q) (simp add: pruneFilterQuery_def flattenFilterRules_def)

text \<open>The shape a pruned query has below its root: no empty group, no group around one group.\<close>

fun pruned_node :: "filter_node \<Rightarrow> bool" where
  "pruned_node (RuleNode r) = True"
| "pruned_node (GroupNode (FilterGroup i c rs)) =
     (rs \<noteq> [] \<and> \<not> (length rs = 1 \<and> isFilterGroup (hd rs)) \<and> list_all pruned_node rs)"

definition pruned :: "filter_query \<Rightarrow> bool" where
  "pruned q \<longleftrightarrow> list_all pruned_node (group_rules q)"

lemma prune_node_pruned: "prune_node n = Some n' \<Longrightarrow> pruned_node n'"
proof (induction n arbitrary: n' rule: node_induct)
  case (Group i c rs)
  define ps where "ps = prune_nodes rs"
  have "list_all pruned_node ps"
    using Group.IH by (auto simp: ps_def list_all_iff opt_list_def split: option.splits)
  moreover have "prune_node (GroupNode (FilterGroup i c rs)) =
      (if ps = [] then None else if length ps = 1 \<and> isFilterGroup (hd ps) then Some (hd ps)
       else Some (GroupNode (FilterGroup i c ps)))"
    unfolding prune_node.simps Let_def ps_def ..
  ultimately show ?case using Group.prems by (cases ps) (auto split: if_splits)
qed auto

lemma pruned_node_fixed: "pruned_node n \<Longrightarrow> prune_node n = Some n"
proof (induction n rule: node_induct)
  case (Group i c rs)
  then have "opt_list (prune_node ch) = [ch]" if "ch \<in> set rs" for ch
    using that by (auto simp: list_all_iff)
  then have "prune_nodes rs = concat (map (\<lambda>ch. [ch]) rs)" by (rule concat_map_cong)
  then have "prune_nodes rs = rs" by simp
  with Group.prems show ?case by (auto simp: Let_def)
qed simp

lemma pruned_prune_nodes: "list_all pruned_node (prune_nodes ns)"
  by (auto simp: list_all_iff opt_list_def prune_node_pruned split: option.splits)

lemma prune_query_pruned: "pruned (pruneFilterQuery q)"
  by (simp only: pruned_def pruneFilterQuery_def filter_group.sel pruned_prune_nodes)

lemma pruned_fixed: "pruned q \<Longrightarrow> pruneFilterQuery q = q"
proof -
  assume "pruned q"
  then have "prune_nodes (group_rules q) = concat (map (\<lambda>ch. [ch]) (group_rules q))"
    by (intro concat_map_cong) (auto simp: pruned_def list_all_iff pruned_node_fixed)
  then show ?thesis by (cases q) (simp add: pruneFilterQuery_def)
qed

section \<open>Cloning under fresh ids\<close>

text \<open>
  What a clone relies on: the id source never answers an id it has issued before.
\<close>

locale id_source =
  fixes nextId :: "'s \<Rightarrow> string \<times> 's" and issued :: "'s \<Rightarrow> string set"
  assumes fresh: "nextId s = (i, s') \<Longrightarrow> i \<notin> issued s \<and> issued s' = insert i (issued s)"
begin

definition clone_ok :: "string list \<Rightarrow> 's \<Rightarrow> 's \<Rightarrow> bool" where
  "clone_ok is s s' \<longleftrightarrow> distinct is \<and> set is \<inter> issued s = {} \<and> issued s' = issued s \<union> set is"

lemma clone_fresh_aux:
  "nx = nextId \<Longrightarrow> cloneFilterNode nx n s = (n', s') \<Longrightarrow> clone_ok (ids_node n') s s'"
  "nx = nextId \<Longrightarrow> clone_nodes nx ns s = (ns', s') \<Longrightarrow> clone_ok (ids_of ns') s s'"
proof (induction nx n s and nx ns s arbitrary: n' s' and ns' s'
    rule: cloneFilterNode_clone_nodes.induct)
  case (1 nx r s)
  then show ?case by (auto simp: clone_ok_def split: prod.splits dest: fresh)
next
  case (2 nx gi c rs s)
  then show ?case by (fastforce simp: clone_ok_def split: prod.splits dest: fresh)
next
  case (3 nx s)
  then show ?case by (auto simp: clone_ok_def)
next
  case (4 nx n ns s)
  then show ?case by (fastforce simp: clone_ok_def split: prod.splits)
qed

lemmas clone_fresh = clone_fresh_aux [OF refl]

end

text \<open>A clone says what the original says: same paths, operators, values and combinators.\<close>

definition rule_content :: "filter_rule \<Rightarrow> string list \<times> string \<times> js_value \<times> bool option" where
  "rule_content r = (rule_path r, rule_operator r, rule_value r, rule_negated r)"

lemma clone_content:
  "map rule_content (flatten_walk (fst (cloneFilterNode nextId n s))) = map rule_content (flatten_walk n)"
  "map rule_content (concat (map flatten_walk (fst (clone_nodes nextId ns s)))) =
     map rule_content (concat (map flatten_walk ns))"
  by (induction nextId n s and nextId ns s rule: cloneFilterNode_clone_nodes.induct)
    (auto simp: rule_content_def split: prod.splits)

end
