(* ===== verification/Filter_Props.thy ===== *)
theory Filter_Props
  imports Filter_Removal
begin

text \<open>
  The properties of the filter query edits, over queries whose node ids are distinct (the
  invariant \<open>distinct_ids\<close>), and the lemmas that combine the component's laws into them.
\<close>

section \<open>Sample trees\<close>

definition sample_rule :: "string \<Rightarrow> filter_rule" where
  "sample_rule i = \<lparr>rule_id = i, rule_path = [''status''], rule_operator = ''is'',
     rule_value = JStr ''open'', rule_negated = None\<rparr>"

definition sample_query :: filter_query where
  "sample_query = FilterGroup ''root'' CAnd
     [RuleNode (sample_rule ''a''),
      GroupNode (FilterGroup ''g'' COr [RuleNode (sample_rule ''b''), RuleNode (sample_rule ''c'')]),
      RuleNode (sample_rule ''d'')]"

lemma sample_distinct: "distinct_ids sample_query"
  by (simp add: distinct_ids_def sample_query_def sample_rule_def)

section \<open>Moving\<close>

lemma rules_of_flatten: "rules_of (GroupNode q) = mset (flattenFilterRules q)"
  by (simp add: rules_of_def flattenFilterRules_def)

text \<open>C4: Dragging a condition or a group to any group and index of the tree
  (\<^verbatim>\<open>moveFilterNodeTo\<close>) never loses, duplicates or changes a condition, and keeps node ids
  distinct, also where the move is refused (an unknown id, the root, a group into its own subtree,
  a target that is not a group).\<close>

theorem move_to_permutes:
  assumes "distinct_ids q"
  shows "mset (flattenFilterRules (moveFilterNodeTo q i t index)) = mset (flattenFilterRules q) \<and>
    distinct_ids (moveFilterNodeTo q i t index)"
  unfolding rules_of_flatten [symmetric] move_to_measure(2) [OF assms]
    distinct_ids_cong [OF move_to_measure(1) [OF assms]]
  using assms by simp

theorem move_to_permutes_witness:
  "distinct_ids sample_query \<and>
   mset (flattenFilterRules (moveFilterNodeTo sample_query ''d'' ''g'' 0)) =
     mset (flattenFilterRules sample_query) \<and>
   distinct_ids (moveFilterNodeTo sample_query ''d'' ''g'' 0)"
  using sample_distinct move_to_permutes [OF sample_distinct] by blast

text \<open>C5: A move that is not refused lands: afterwards the lookup of the id answers the same
  node, under the target group, at the requested index clamped to the group (an index after the
  node's old slot in the same group counts without that slot).\<close>

theorem move_to_lands:
  assumes "distinct_ids q" and "moveFilterNodeTo q i t index \<noteq> q"
  shows "\<exists>f p p' g D.
    findFilterNode q i = Some f \<and> found_parent f = Some p \<and>
    at_group (settle q (detachFilterNode i q)) g D \<and> group_id g = t \<and>
    findFilterNode (moveFilterNodeTo q i t index) i =
      Some \<lparr>found_node = found_node f, found_parent = Some p',
            found_index = int (insert_position
              (Some (if group_id p = t \<and> found_index f < index then index - 1 else index))
              (length (group_rules g)))\<rparr> \<and>
    group_id p' = t"
  using assms(1)
proof (cases rule: moveFilterNodeTo_cases [of q i t index])
  case same
  with assms(2) show ?thesis by simp
next
  case (moved p C k q1 g D target)
  have "distinct_ids (insertFilterNode q1 (group_rules p ! k) (Some (group_id g)) (Some target))"
    using assms(1) distinct_ids_cong [OF move_to_measure(1) [OF assms(1)]] moved(8,10) by metis
  from insert_found [OF moved(7,6) this] show ?thesis
    using moved by fastforce
qed

theorem move_to_lands_witness:
  "\<exists>f p p' g D.
    findFilterNode sample_query ''d'' = Some f \<and> found_parent f = Some p \<and>
    at_group (settle sample_query (detachFilterNode ''d'' sample_query)) g D \<and> group_id g = ''g'' \<and>
    findFilterNode (moveFilterNodeTo sample_query ''d'' ''g'' 0) ''d'' =
      Some \<lparr>found_node = found_node f, found_parent = Some p',
            found_index = int (insert_position
              (Some (if group_id p = ''g'' \<and> found_index f < 0 then 0 - 1 else 0))
              (length (group_rules g)))\<rparr> \<and>
    group_id p' = ''g''"
proof -
  have "moveFilterNodeTo sample_query ''d'' ''g'' 0 \<noteq> sample_query"
    by code_simp
  from move_to_lands [OF sample_distinct this] show ?thesis .
qed

text \<open>Moving a node within its group (\<^verbatim>\<open>moveFilterNode\<close>) permutes the conditions and keeps
  every id; a step off either end of the group, a step of zero, the root and an unknown id leave
  the query as it is.\<close>

theorem move_within_permutes:
  assumes "distinct_ids q"
  shows "mset (flattenFilterRules (moveFilterNode q i delta)) = mset (flattenFilterRules q) \<and>
    ids_mset (GroupNode (moveFilterNode q i delta)) = ids_mset (GroupNode q) \<and>
    (moveFilterNode q i delta \<noteq> q \<longrightarrow>
       (\<exists>f p. findFilterNode q i = Some f \<and> found_parent f = Some p \<and>
          0 \<le> found_index f + delta \<and> found_index f + delta < int (length (group_rules p))))"
proof -
  have "\<exists>f p. findFilterNode q i = Some f \<and> found_parent f = Some p \<and>
          0 \<le> found_index f + delta \<and> found_index f + delta < int (length (group_rules p))"
    if "moveFilterNode q i delta \<noteq> q"
    using assms
  proof (cases rule: moveFilterNode_cases [of q i delta])
    case (moved p C k)
    with find_at [OF moved(1) assms moved(2,3)] show ?thesis by simp
  qed (use that in simp)
  then show ?thesis unfolding rules_of_flatten [symmetric] using move_measure [OF assms] by simp
qed

theorem move_within_permutes_witness:
  "distinct_ids sample_query \<and>
   mset (flattenFilterRules (moveFilterNode sample_query ''a'' 2)) = mset (flattenFilterRules sample_query)"
  using sample_distinct move_within_permutes [OF sample_distinct, of "''a''" 2] by blast

section \<open>Removing\<close>

text \<open>C21: Removing a node takes exactly the conditions below it and leaves the others in their
  order; the id names nothing afterwards, ids stay distinct, and if no group was empty before then
  no group is empty after (a group the removal empties goes too).\<close>

theorem remove_exact:
  assumes "distinct_ids q" and "findFilterNode q i = Some f" and "found_parent f \<noteq> None"
  shows "flattenFilterRules (removeFilterNode q i) =
      filter (\<lambda>r. rule_id r \<notin> set (ids_node (found_node f))) (flattenFilterRules q) \<and>
    findFilterNode (removeFilterNode q i) i = None \<and>
    distinct_ids (removeFilterNode q i) \<and>
    (no_empty_groups q \<longrightarrow> no_empty_groups (removeFilterNode q i))"
  using assms(2)
proof (cases rule: find_sound)
  case root
  with assms(3) show ?thesis by simp
next
  case (child p C k)
  have "flattenFilterRules (removeFilterNode q i) =
      filter (\<lambda>r. rule_id r \<notin> set (ids_node (found_node f))) (flattenFilterRules q)"
    using flatten_except_filter [OF child(2) assms(1) child(4)] child(5,6)
    by (simp add: flattenFilterRules_def removeFilterNode_def remove_flatten flatten_group [of q])
  moreover have "group_id q \<noteq> i"
    using assms(2,3) by (auto simp: findFilterNode_def)
  then have "findFilterNode (removeFilterNode q i) i = None"
    using remove_gone [of i q] by (simp add: find_None_iff removeFilterNode_def ids_group)
  ultimately show ?thesis
    using remove_distinct [OF assms(1)] remove_no_empty [of q i] by (simp add: removeFilterNode_def)
qed

theorem remove_exact_witness:
  "flattenFilterRules (removeFilterNode sample_query ''g'') =
     filter (\<lambda>r. rule_id r \<notin> set (ids_node (found_node (the (findFilterNode sample_query ''g'')))))
       (flattenFilterRules sample_query) \<and>
   findFilterNode (removeFilterNode sample_query ''g'') ''g'' = None"
proof -
  have "findFilterNode sample_query ''g'' = Some (the (findFilterNode sample_query ''g''))"
    and "found_parent (the (findFilterNode sample_query ''g'')) \<noteq> None"
    by (simp_all add: findFilterNode_def sample_query_def sample_rule_def)
  from remove_exact [OF sample_distinct this] show ?thesis by blast
qed

text \<open>Removing one condition also deletes groups that were empty before: here the user has
  added an empty group next to a condition, and removing that condition deletes the group as well.\<close>

theorem remove_drops_empty_sibling:
  "\<exists>q i e. distinct_ids q \<and> findFilterNode q e \<noteq> None \<and> e \<noteq> i \<and>
     e \<notin> set (ids_node (found_node (the (findFilterNode q i)))) \<and>
     (\<exists>r. findFilterRule q i = Some r) \<and>
     findFilterNode (removeFilterNode q i) e = None"
proof -
  let ?q = "FilterGroup ''root'' CAnd [RuleNode (sample_rule ''a''), RuleNode (sample_rule ''b''),
      GroupNode (FilterGroup ''e'' COr [])]"
  have "distinct_ids ?q" by (simp add: distinct_ids_def sample_rule_def)
  moreover have "findFilterNode ?q ''e'' \<noteq> None" "\<exists>r. findFilterRule ?q ''a'' = Some r"
      "''e'' \<notin> set (ids_node (found_node (the (findFilterNode ?q ''a''))))"
    by (simp_all add: findFilterNode_def findFilterRule_def sample_rule_def)
  moreover have "findFilterNode (removeFilterNode ?q ''a'') ''e'' = None"
    by (simp add: findFilterNode_def removeFilterNode_def remove_eq remove_out_def sample_rule_def)
  ultimately show ?thesis by (intro exI [of _ ?q] exI [of _ "''a''"] exI [of _ "''e''"]) simp
qed

section \<open>Grouping\<close>

lemma wrap_child_at:
  assumes "distinct_ids q" "findFilterNode q i = Some f" "found_parent f \<noteq> None"
  obtains p C k where "at_group q p C" "k < length (group_rules p)" "node_id (group_rules p ! k) = i"
    "wrapFilterNodeInGroup q i gid c =
      C (with_rules p ((group_rules p)[k := GroupNode (FilterGroup gid c [group_rules p ! k])]))"
  using assms(2)
proof (cases rule: find_sound)
  case root
  with assms(3) show thesis by simp
next
  case (child p C k)
  from child(5,6) have i: "node_id (group_rules p ! k) = i" by simp
  show thesis
    by (rule that [OF child(2,4) i wrap_at [OF child(2) assms(1) child(4) i]])
qed

text \<open>C22: Wrapping a node in a new group and then dissolving that group gives the query back, for a
  group id the query does not use: the node returns to its place and no id is lost.  In between, the
  ids are still distinct and the conditions are the same.\<close>

theorem wrap_unwrap_roundtrip:
  assumes "distinct_ids q" "findFilterNode q i = Some f" "found_parent f \<noteq> None" "gid \<notin> set (ids q)"
  shows "unwrapFilterGroup (wrapFilterNodeInGroup q i gid c) gid = q \<and>
    distinct_ids (wrapFilterNodeInGroup q i gid c) \<and>
    mset (flattenFilterRules (wrapFilterNodeInGroup q i gid c)) = mset (flattenFilterRules q)"
proof -
  obtain p C k where p: "at_group q p C" "k < length (group_rules p)" "node_id (group_rules p ! k) = i"
    and w: "wrapFilterNodeInGroup q i gid c =
      C (with_rules p ((group_rules p)[k := GroupNode (FilterGroup gid c [group_rules p ! k])]))"
    using assms(1-3) by (rule wrap_child_at)
  let ?w = "wrapFilterNodeInGroup q i gid c"
  let ?rs = "(group_rules p)[k := GroupNode (FilterGroup gid c [group_rules p ! k])]"
  have m: "ids_mset (GroupNode ?w) = ids_mset (GroupNode q) + {#gid#}"
    "rules_of (GroupNode ?w) = rules_of (GroupNode q)"
    using wrap_measure [OF p(1) assms(1) p(2,3)] by simp_all
  have "count (ids_mset (GroupNode q)) gid = 0"
    using assms(4) by (simp only: ids_mset_def count_mset_0_iff not_False_eq_True)
  then have d: "distinct_ids ?w" using assms(1) by (auto simp: distinct_ids_mset m)
  have "js_splice k 1 [group_rules p ! k] ?rs = group_rules p"
    using p(2) by (simp add: js_splice_def flip: id_take_nth_drop)
  moreover have "at_group ?w (with_rules p ?rs) C" unfolding w by (rule at_group_replug [OF p(1)])
  from unwrap_at [OF this d, of k "FilterGroup gid c [group_rules p ! k]"] p(2)
  have "unwrapFilterGroup ?w gid = C (with_rules p (js_splice k 1 [group_rules p ! k] ?rs))" by simp
  ultimately have "unwrapFilterGroup ?w gid = q" using at_group_plug [OF p(1)] by simp
  with d m(2) show ?thesis by (simp add: rules_of_flatten)
qed

theorem wrap_unwrap_roundtrip_witness:
  "unwrapFilterGroup (wrapFilterNodeInGroup sample_query ''c'' ''new'' CAnd) ''new'' = sample_query \<and>
   wrapFilterNodeInGroup sample_query ''c'' ''new'' CAnd \<noteq> sample_query"
proof -
  have "findFilterNode sample_query ''c'' = Some (the (findFilterNode sample_query ''c''))"
    and "found_parent (the (findFilterNode sample_query ''c'')) \<noteq> None"
    and "''new'' \<notin> set (ids sample_query)"
    by (simp_all add: findFilterNode_def sample_query_def sample_rule_def)
  from wrap_unwrap_roundtrip [OF sample_distinct this] show ?thesis
    by (simp, code_simp)
qed

lemma at_group_parent:
  "at_group q g C \<Longrightarrow> g = q \<or>
     (\<exists>p D k. at_group q p D \<and> k < length (group_rules p) \<and> group_rules p ! k = GroupNode g)"
proof (induction rule: at_group.induct)
  case (below q g C i c as bs)
  let ?q = "FilterGroup i c (as @ GroupNode q # bs)"
  from below.IH show ?case
  proof
    assume "g = q"
    then have "length as < length (group_rules ?q) \<and> group_rules ?q ! length as = GroupNode g" by simp
    with here [of ?q] show ?thesis by blast
  next
    assume "\<exists>p D k. at_group q p D \<and> k < length (group_rules p) \<and> group_rules p ! k = GroupNode g"
    then show ?thesis using at_group.below by blast
  qed
qed simp

lemma find_at_group:
  assumes "at_group q g C" "distinct_ids q"
  shows "\<exists>f. findFilterNode q (group_id g) = Some f \<and> found_node f = GroupNode g"
  using at_group_parent [OF assms(1)] find_at [OF _ assms(2)]
  by (fastforce simp: findFilterNode_def)

text \<open>Switching a group between "all of" and "any of" twice gives the query back, whatever the
  id names; switching once changes the combinator of that group and nothing else.\<close>

theorem toggle_involution:
  assumes "distinct_ids q"
  shows "toggleFilterCombinator (toggleFilterCombinator q t) t = q \<and>
    (\<forall>g C. at_group q g C \<and> group_id g = t \<longrightarrow>
       toggleFilterCombinator q t =
         C (FilterGroup t (if group_combinator g = CAnd then COr else CAnd) (group_rules g)))"
proof -
  have once: "toggleFilterCombinator q' (group_id g) =
      C (FilterGroup (group_id g) (if group_combinator g = CAnd then COr else CAnd) (group_rules g))"
    if "at_group q' g C" "distinct_ids q'" for q' g C
    using find_at_group [OF that] set_combinator_at [OF that]
    by (auto simp: toggleFilterCombinator_def)
  have "toggleFilterCombinator (toggleFilterCombinator q t) t = q"
  proof (cases "\<exists>f g. findFilterNode q t = Some f \<and> found_node f = GroupNode g")
    case True
    then obtain g C where g: "at_group q g C" "group_id g = t" using find_group_at by blast
    let ?g = "FilterGroup t (if group_combinator g = CAnd then COr else CAnd) (group_rules g)"
    have eq: "toggleFilterCombinator q t = C ?g" using once [OF g(1) assms] g(2) by simp
    have "ids_mset (GroupNode ?g) = ids_mset (GroupNode g)" using g(2) by (cases g) (simp add: ids_mset_def)
    from distinct_ids_cong [OF id_measure.mg_same [OF g(1) this]] have "distinct_ids (C ?g)"
      using assms by simp
    from once [OF at_group_replug [OF g(1)] this] have "toggleFilterCombinator (C ?g) t = C g"
      using g(2) by (cases g; cases "group_combinator g") auto
    with eq at_group_plug [OF g(1)] show ?thesis by simp
  next
    case False
    then have "toggleFilterCombinator q t = q"
      by (auto simp: toggleFilterCombinator_def split: option.splits filter_node.splits)
    then show ?thesis by simp
  qed
  with once [OF _ assms] show ?thesis by blast
qed

theorem toggle_involution_witness:
  "toggleFilterCombinator (toggleFilterCombinator sample_query ''g'') ''g'' = sample_query \<and>
   toggleFilterCombinator sample_query ''g'' \<noteq> sample_query"
proof -
  have "toggleFilterCombinator sample_query ''g'' \<noteq> sample_query" by code_simp
  with toggle_involution [OF sample_distinct, of "''g''"] show ?thesis by blast
qed

text \<open>Pruning a query drops its empty groups and its groups around a single group and nothing
  else: the result has neither, pruning again changes nothing, every condition is still there in
  its order, and the query means what it meant under every reading of its conditions.\<close>

theorem prune_sound:
  "pruned (pruneFilterQuery q) \<and> pruneFilterQuery (pruneFilterQuery q) = pruneFilterQuery q \<and>
   flattenFilterRules (pruneFilterQuery q) = flattenFilterRules q \<and>
   eval_node p (GroupNode (pruneFilterQuery q)) = eval_node p (GroupNode q)"
  using prune_query_pruned [of q] by (simp add: pruned_fixed prune_query_flatten prune_query_eval)

end
