(* ===== verification/Filter_Validation.thy ===== *)
theory Filter_Validation
  imports Filter_Props
begin

text \<open>
  Reading and checking a query: what \<^verbatim>\<open>collectFilterIssues\<close> reports, against a reference that says
  when a rule and a group can run; what \<^verbatim>\<open>flattenFilterConditions\<close> and \<^verbatim>\<open>countFilterRules\<close> see; and
  the effect of \<^verbatim>\<open>updateFilterRule\<close> on the conditions.
\<close>

section \<open>When a rule can run\<close>

text \<open>
  The reference: a rule the caller can judge has an operator; an operator with no operand needs
  nothing more; a range needs two bounds that are not the wrong way round; every other operator
  needs one value that is not blank and the field's validator must be silent.
\<close>

definition bounds_reversed :: "(string \<Rightarrow> js_num) \<Rightarrow> js_value \<Rightarrow> js_value \<Rightarrow> bool" where
  "bounds_reversed dateParse lo hi \<longleftrightarrow>
     (\<exists>a b. js_less b a \<and>
        (lo = JNum a \<and> hi = JNum b \<or> lo = JDate a \<and> hi = JDate b \<or>
         (\<exists>s t. lo = JStr s \<and> hi = JStr t \<and> dateParse s = a \<and> dateParse t = b)))"

definition rule_runs ::
  "(string \<Rightarrow> js_num) \<Rightarrow> (filter_rule \<Rightarrow> filter_arity option) \<Rightarrow> (filter_rule \<Rightarrow> string option)
   \<Rightarrow> filter_rule \<Rightarrow> bool" where
  "rule_runs dateParse arityOf validateOf r \<longleftrightarrow>
     (\<forall>arity. arityOf r = Some arity \<longrightarrow>
        rule_operator r \<noteq> [] \<and>
        (arity = ArRange \<longrightarrow>
           (\<exists>lo hi more. filter_values (rule_value r) = lo # hi # more \<and>
              \<not> isBlankFilterValue lo \<and> \<not> isBlankFilterValue hi \<and> \<not> bounds_reversed dateParse lo hi)) \<and>
        (arity = ArOne \<or> arity = ArMany \<longrightarrow>
           (\<exists>v\<in>set (filter_values (rule_value r)). \<not> isBlankFilterValue v) \<and>
           (\<forall>m. validateOf r = Some m \<longrightarrow> m = [])))"

lemma bounds_reversed_iff:
  "bounds_reversed dateParse lo hi \<longleftrightarrow>
     (case compareFilterBounds dateParse lo hi of None \<Rightarrow> False | Some order \<Rightarrow> js_positive order)"
proof -
  have nan: "js_less NaN x = False" "js_less x NaN = False" for x by (cases x; simp)+
  show ?thesis
    by (cases "(dateParse, lo, hi)" rule: compareFilterBounds.cases)
      (auto simp: bounds_reversed_def js_positive_minus nan Let_def)
qed

lemma two_values_iff:
  "(\<exists>lo hi more. xs = lo # hi # more \<and> P lo hi) \<longleftrightarrow> 2 \<le> length xs \<and> P (xs ! 0) (xs ! 1)"
  by (cases xs; cases "tl xs") auto

lemma rule_issues_empty_iff:
  "rule_issues dateParse arityOf validateOf r = [] \<longleftrightarrow> rule_runs dateParse arityOf validateOf r"
proof (cases "arityOf r")
  case None
  then show ?thesis by (simp add: rule_issues_def rule_runs_def)
next
  case (Some arity)
  show ?thesis
  proof (cases "rule_operator r = []")
    case True
    with Some show ?thesis by (simp add: rule_issues_def rule_runs_def isFilterRuleComplete_def)
  next
    case False
    show ?thesis
    proof (cases arity)
      case ArRange
      let ?vs = "filter_values (rule_value r)"
      have "rule_runs dateParse arityOf validateOf r \<longleftrightarrow> 2 \<le> length ?vs \<and> \<not> isBlankFilterValue (?vs ! 0) \<and>
          \<not> isBlankFilterValue (?vs ! 1) \<and> \<not> bounds_reversed dateParse (?vs ! 0) (?vs ! 1)"
        using Some False ArRange two_values_iff [of ?vs "\<lambda>lo hi. \<not> isBlankFilterValue lo \<and>
          \<not> isBlankFilterValue hi \<and> \<not> bounds_reversed dateParse lo hi"] by (simp add: rule_runs_def)
      with Some False ArRange show ?thesis
        by (auto simp: rule_issues_def isFilterRuleComplete_def bounds_reversed_iff Let_def
            split: option.splits)
    qed (use Some False in \<open>auto simp: rule_issues_def rule_runs_def isFilterRuleComplete_def
            list_all_iff Let_def split: option.splits\<close>)
  qed
qed

lemma rule_issues_node:
  "x \<in> set (rule_issues dateParse arityOf validateOf r) \<Longrightarrow> issue_node x = rule_id r"
  by (auto simp: rule_issues_def Let_def split: option.splits if_splits)

lemma rule_issues_short: "length (rule_issues dateParse arityOf validateOf r) \<le> 1"
  by (auto simp: rule_issues_def Let_def split: option.splits)

section \<open>Over the tree\<close>

lemma issues_visit_rec:
  "issues_visit dp ar va isRoot g =
     (if \<not> isRoot \<and> group_rules g = []
      then [\<lparr>issue_node = group_id g, issue_col = ColGroup, issue_reason = EmptyGroup, issue_message = None\<rparr>]
      else []) @
     concat (map (\<lambda>ch. case ch of GroupNode g \<Rightarrow> issues_visit dp ar va False g
                        | RuleNode r \<Rightarrow> rule_issues dp ar va r) (group_rules g))"
  by (cases g) simp

lemma issues_visit_empty_iff:
  "issues_visit dp ar va isRoot g = [] \<longleftrightarrow>
     (isRoot \<or> group_rules g \<noteq> []) \<and> no_empty_groups g \<and>
     (\<forall>r\<in>set (flattenFilterRules g). rule_runs dp ar va r)"
proof (induction g arbitrary: isRoot rule: group_induct)
  case (FilterGroup i c rs)
  have child: "(case ch of GroupNode g \<Rightarrow> issues_visit dp ar va False g
                | RuleNode r \<Rightarrow> rule_issues dp ar va r) = [] \<longleftrightarrow>
      no_empty_node ch \<and> (\<forall>r\<in>set (flatten_walk ch). rule_runs dp ar va r)" if "ch \<in> set rs" for ch
  proof (cases ch)
    case (GroupNode g)
    then show ?thesis using that FilterGroup.IH [of g False]
      by (simp add: flattenFilterRules_def no_empty_group)
  qed (simp add: rule_issues_empty_iff)
  then have "(\<forall>ch\<in>set rs. (case ch of GroupNode g \<Rightarrow> issues_visit dp ar va False g
                | RuleNode r \<Rightarrow> rule_issues dp ar va r) = []) \<longleftrightarrow>
      (\<forall>ch\<in>set rs. no_empty_node ch \<and> (\<forall>r\<in>set (flatten_walk ch). rule_runs dp ar va r))"
    by (rule ball_cong [OF refl])
  then show ?case
    by (simp add: no_empty_groups_def flattenFilterRules_def list_all_iff) blast
qed

definition child_issues where
  "child_issues dp ar va ch = (case ch of GroupNode g \<Rightarrow> issues_visit dp ar va False g
     | RuleNode r \<Rightarrow> rule_issues dp ar va r)"

lemma distinct_concat_owned:
  assumes "distinct (concat (map owner xs))"
    and "\<And>x. x \<in> set xs \<Longrightarrow> distinct (out x) \<and> set (out x) \<subseteq> set (owner x)"
  shows "distinct (concat (map out xs)) \<and> set (concat (map out xs)) \<subseteq> set (concat (map owner xs))"
  using assms
proof (induction xs)
  case (Cons x xs)
  then have "distinct (out x) \<and> set (out x) \<subseteq> set (owner x)" by simp
  moreover have "distinct (concat (map out xs)) \<and> set (concat (map out xs)) \<subseteq> set (concat (map owner xs))"
    using Cons by simp
  moreover have "set (owner x) \<inter> set (concat (map owner xs)) = {}" using Cons.prems(1) by simp
  ultimately have "set (out x) \<inter> set (concat (map out xs)) = {}" by blast
  with \<open>distinct (out x) \<and> _\<close> \<open>distinct (concat (map out xs)) \<and> _\<close> show ?case by auto
qed simp

lemma issues_visit_nodes:
  "distinct_ids g \<Longrightarrow> distinct (map issue_node (issues_visit dp ar va isRoot g)) \<and>
     set (map issue_node (issues_visit dp ar va isRoot g)) \<subseteq> set (ids g)"
proof (induction g arbitrary: isRoot rule: group_induct)
  case (FilterGroup i c rs)
  let ?out = "\<lambda>ch. map issue_node (child_issues dp ar va ch)"
  have d: "i \<notin> set (ids_of rs)" "distinct (ids_of rs)"
    using FilterGroup.prems by (simp_all add: distinct_ids_def)
  have child: "distinct (?out ch) \<and> set (?out ch) \<subseteq> set (ids_node ch)" if ch: "ch \<in> set rs" for ch
  proof (cases ch)
    case (RuleNode r)
    have "length (?out ch) \<le> 1" using rule_issues_short RuleNode by (simp add: child_issues_def)
    then have "distinct (?out ch)" by (cases "?out ch") auto
    with RuleNode show ?thesis by (auto simp: child_issues_def rule_issues_node)
  next
    case (GroupNode g)
    have "distinct_ids g" using ch d(2) GroupNode
      by (auto simp: distinct_ids_def distinct_concat_iff dest!: split_list)
    with FilterGroup.IH [of g False] ch GroupNode show ?thesis by (simp add: child_issues_def)
  qed
  have "distinct (concat (map ?out rs)) \<and> set (concat (map ?out rs)) \<subseteq> set (ids_of rs)"
    using d(2) child by (rule distinct_concat_owned)
  moreover have "map issue_node (issues_visit dp ar va isRoot (FilterGroup i c rs)) =
      (if \<not> isRoot \<and> rs = [] then [i] else []) @ concat (map ?out rs)"
    unfolding issues_visit.simps child_issues_def [abs_def] by (simp add: map_concat o_def)
  ultimately show ?case using d(1) by auto
qed


text \<open>A node carries at most one issue, and every issue points at a node of the query.\<close>

theorem issues_one_per_node:
  assumes "distinct_ids q"
  shows "distinct (map issue_node (collectFilterIssues dateParse q arityOf validateOf)) \<and>
    (\<forall>x\<in>set (collectFilterIssues dateParse q arityOf validateOf). findFilterNode q (issue_node x) \<noteq> None)"
  using issues_visit_nodes [OF assms, of dateParse arityOf validateOf True]
  by (auto simp: collectFilterIssues_def find_None_iff simp del: ids_node.simps)

theorem issues_one_per_node_witness:
  "distinct (map issue_node (collectFilterIssues (\<lambda>s. NaN) sample_query (\<lambda>r. Some ArRange) (\<lambda>r. None))) \<and>
   length (collectFilterIssues (\<lambda>s. NaN) sample_query (\<lambda>r. Some ArRange) (\<lambda>r. None)) = 4"
proof -
  have "length (collectFilterIssues (\<lambda>s. NaN) sample_query (\<lambda>r. Some ArRange) (\<lambda>r. None)) = 4"
    by code_simp
  with issues_one_per_node [OF sample_distinct, of "\<lambda>s. NaN" "\<lambda>r. Some ArRange" "\<lambda>r. None"]
  show ?thesis by blast
qed

section \<open>Updating a condition\<close>

lemma map_other_rules:
  assumes "i \<notin> set (ids_of ns)"
  shows "map (\<lambda>s. if rule_id s = i then f s else s) (concat (map flatten_walk ns)) =
    concat (map flatten_walk ns)"
proof (rule map_idI)
  fix s
  assume "s \<in> set (concat (map flatten_walk ns))"
  then have "rule_id s \<in> set (ids_of ns)" using rule_ids_flatten by auto
  with assms show "(if rule_id s = i then f s else s) = s" by metis
qed

lemma flatten_context:
  assumes "at_group q g C" "distinct_ids q"
    and "flattenFilterRules g' = map (\<lambda>s. if rule_id s = i then f s else s) (flattenFilterRules g)"
    and "i \<in> set (ids_of (group_rules g))"
  shows "flattenFilterRules (C g') = map (\<lambda>s. if rule_id s = i then f s else s) (flattenFilterRules q)"
  using assms
proof (induction rule: at_group.induct)
  case (below q g C i' c as bs)
  let ?h = "\<lambda>s. if rule_id s = i then f s else s"
  have d: "distinct_ids q" and fresh: "set (ids_of as) \<inter> set (ids q) = {}"
      "set (ids q) \<inter> set (ids_of bs) = {}"
    using below.prems(1) by (auto simp: distinct_ids_FilterGroup)
  have i: "i \<in> set (ids q)" using at_group_ids [OF below.hyps] below.prems(3) by (auto simp: ids_group)
  have "i \<notin> set (ids_of as)" "i \<notin> set (ids_of bs)" using i fresh by blast+
  from map_other_rules [OF this(1), of f] map_other_rules [OF this(2), of f]
    below.IH [OF d below.prems(2,3)] show ?case
    by (simp add: flattenFilterRules_def del: map_concat)
qed simp

text \<open>Updating a condition by id changes exactly that condition: the conditions are the old ones
  in their order with the updates applied to the one named, every node keeps its id, and a key the
  updates do not carry keeps its value.\<close>

theorem update_exact:
  assumes "distinct_ids q" "findFilterRule q i = Some r"
  shows "flattenFilterRules (updateFilterRule q i u) =
      map (\<lambda>s. if rule_id s = i then apply_updates u s else s) (flattenFilterRules q) \<and>
    ids_mset (GroupNode (updateFilterRule q i u)) = ids_mset (GroupNode q) \<and>
    findFilterRule (updateFilterRule q i u) i = Some (apply_updates u r)"
proof -
  obtain f where f: "findFilterNode q i = Some f" "found_node f = RuleNode r"
    using assms(2) by (auto simp: findFilterRule_def split: option.splits filter_node.splits)
  from f(1) show ?thesis
  proof (cases rule: find_sound)
    case root
    with f(2) show ?thesis by simp
  next
    case (child g C k)
    have k: "group_rules g ! k = RuleNode r" "rule_id r = i" using child f(2) by simp_all
    let ?rs = "(group_rules g)[k := RuleNode (apply_updates u r)]"
    have u: "updateFilterRule q i u = C (with_rules g ?rs)"
      by (rule update_at [OF child(2) assms(1) child(4) k])
    have same: "ids_mset (GroupNode (updateFilterRule q i u)) = ids_mset (GroupNode q)"
      by (rule update_measure [OF assms(1)])
    have d: "distinct_ids (updateFilterRule q i u)" using distinct_ids_cong [OF same] assms(1) by simp
    have "at_group (C (with_rules g ?rs)) (with_rules g ?rs) C" by (rule at_group_replug [OF child(2)])
    from find_at [OF this d [unfolded u], of k i] child(4) k(2)
    have found: "findFilterRule (updateFilterRule q i u) i = Some (apply_updates u r)"
      unfolding u by (simp add: findFilterRule_def apply_updates_def)
    let ?h = "\<lambda>s. if rule_id s = i then apply_updates u s else s"
    note around = distinct_ids_around [OF at_group_distinct [OF child(2) assms(1)] child(4)]
    then have "i \<notin> set (ids_of (take k (group_rules g)))" "i \<notin> set (ids_of (drop (Suc k) (group_rules g)))"
      using k by auto
    note keep = map_other_rules [OF this(1), of "apply_updates u"] map_other_rules [OF this(2), of "apply_updates u"]
    let ?fl = "\<lambda>ns. concat (map flatten_walk ns)"
    have old: "flattenFilterRules g = ?fl (take k (group_rules g)) @ r # ?fl (drop (Suc k) (group_rules g))"
      using arg_cong [OF id_take_nth_drop [OF child(4)], of ?fl] k(1)
      by (simp add: flattenFilterRules_def flatten_group)
    have "flattenFilterRules (with_rules g ?rs) =
        ?fl (take k (group_rules g)) @ apply_updates u r # ?fl (drop (Suc k) (group_rules g))"
      using child(4) by (simp add: flattenFilterRules_def upd_conv_take_nth_drop)
    then have "flattenFilterRules (with_rules g ?rs) = map ?h (flattenFilterRules g)"
      unfolding old map_append list.map keep using k(2) by simp
    moreover have "RuleNode r \<in> set (group_rules g)" using nth_mem [OF child(4)] k(1) by simp
    then have "i \<in> set (ids_of (group_rules g))" using k(2) by (auto intro!: bexI [of _ "RuleNode r"])
    ultimately show ?thesis
      using flatten_context [OF child(2) assms(1)] same found unfolding u by blast
  qed
qed

definition sample_updates :: rule_updates where
  "sample_updates = \<lparr>upd_path = None, upd_operator = Some ''is_any_of'', upd_value = Some (JArr []),
     upd_negated = None\<rparr>"

theorem update_exact_witness:
  "findFilterRule (updateFilterRule sample_query ''b'' sample_updates) ''b'' =
     Some (apply_updates sample_updates (sample_rule ''b''))"
proof -
  have "findFilterRule sample_query ''b'' = Some (sample_rule ''b'')" by code_simp
  from update_exact [OF sample_distinct this] show ?thesis by blast
qed

text \<open>The condition count the bar shows is the number of conditions at any depth, and a predicate
  built from the flattened conditions sees the complete ones only, in their order.\<close>

theorem count_and_conditions:
  "countFilterRules q = length (flattenFilterRules q) \<and>
   isFilterQueryEmpty q = (flattenFilterRules q = []) \<and>
   map cond_operator (flattenFilterConditions q) =
     filter (\<lambda>s. s \<noteq> []) (map rule_operator (flattenFilterRules q))"
proof -
  have "count_walk n = length (flatten_walk n)" for n
    by (induction n rule: node_induct) (simp_all add: length_concat o_def cong: map_cong)
  then show ?thesis
    by (simp add: countFilterRules_def isFilterQueryEmpty_def flattenFilterRules_def
        flattenFilterConditions_def isFilterRuleComplete_def [abs_def] filter_map o_def)
qed

end
