(* ===== verification/Filter_Operators.thy ===== *)
theory Filter_Operators
  imports Filter_Query
begin

text \<open>
  Fields and operators of the filter bar (\<^verbatim>\<open>filters-operators.tsx\<close>, with the field and operator
  types of \<^verbatim>\<open>filters-types.tsx\<close>): the operator catalog per value type, which operators a field
  offers, the default one, negation by the declared inverse, and the reshaping of a value when an
  operator of another arity is chosen.  A field's \<^verbatim>\<open>operators\<close> may be a function of the field; such
  a function is a handle here, and \<open>call\<close> (a parameter) says what it answers.
\<close>

section \<open>Types\<close>

record filter_operator =
  op_value :: string
  op_label :: string
  op_arity :: "filter_arity option"
  op_inverse :: "string option"
  op_hidden :: "bool option"

datatype value_type = VText | VNumber | VRange | VSelect | VMultiselect | VBoolean

datatype operators_ref = OpList "filter_operator list" | OpFun nat

datatype editor_ref = EditorName string | EditorComponent nat

record filter_option =
  opt_value :: string
  opt_label :: string
  opt_keywords :: "string list option"
  opt_disabled :: "bool option"
  opt_exclusive :: "bool option"

record field_props =
  fp_label :: string
  fp_keywords :: "string list option"
  fp_count :: "nat option"
  fp_selectable :: "bool option"
  fp_disabled :: "bool option"
  fp_type :: "value_type option"
  fp_options :: "filter_option list option"
  fp_operators :: "operators_ref option"
  fp_default_operator :: "string option"
  fp_editor :: "editor_ref option"
  fp_column :: "string option"
  fp_icon :: bool
  fp_render_value :: bool
  fp_load_options :: bool
  fp_resolve_values :: bool

text \<open>A field, or a branch with \<^verbatim>\<open>fields\<close>; the callbacks are recorded by their presence.\<close>

datatype filter_field =
  FilterField (field_id: string) (field_props: field_props) (field_fields: "filter_field list option")

definition truthy :: "bool option \<Rightarrow> bool" where
  "truthy b = (b = Some True)"

section \<open>The catalog\<close>

type_synonym catalog_entry = "string \<times> filter_arity option \<times> string option"

definition DEFAULT_FILTER_OPERATOR_LABELS :: "(string \<times> string) list" where
  "DEFAULT_FILTER_OPERATOR_LABELS =
    [(''contains'', ''contains''), (''not_contains'', ''does not contain''),
     (''starts_with'', ''starts with''), (''ends_with'', ''ends with''),
     (''is'', ''is''), (''is_not'', ''is not''), (''is_any_of'', ''is any of''),
     (''is_none_of'', ''is none of''), (''has_any_of'', ''has any of''),
     (''has_all_of'', ''has all of''), (''has_none_of'', ''has none of''),
     (''eq'', ''equals''), (''neq'', ''does not equal''), (''gt'', ''is greater than''),
     (''gte'', ''is greater than or equal to''), (''lt'', ''is less than''),
     (''lte'', ''is less than or equal to''), (''between'', ''is between''),
     (''not_between'', ''is not between''), (''is_before'', ''is before''),
     (''is_after'', ''is after''), (''is_on_or_before'', ''is on or before''),
     (''is_on_or_after'', ''is on or after''), (''empty'', ''is empty''),
     (''not_empty'', ''is not empty'')]"

definition empty_entries :: "catalog_entry list" where
  "empty_entries =
    [(''empty'', Some ArNone, Some ''not_empty''), (''not_empty'', Some ArNone, Some ''empty'')]"

definition between_entries :: "catalog_entry list" where
  "between_entries =
    [(''between'', Some ArRange, Some ''not_between''), (''not_between'', Some ArRange, Some ''between'')]"

definition is_entries :: "catalog_entry list" where
  "is_entries = [(''is'', None, Some ''is_not''), (''is_not'', None, Some ''is'')]"

fun CATALOG :: "value_type \<Rightarrow> catalog_entry list" where
  "CATALOG VText =
     [(''contains'', None, Some ''not_contains''), (''not_contains'', None, Some ''contains''),
      (''starts_with'', None, None), (''ends_with'', None, None)] @ is_entries @ empty_entries"
| "CATALOG VNumber =
     [(''eq'', None, Some ''neq''), (''neq'', None, Some ''eq''),
      (''gt'', None, Some ''lte''), (''gte'', None, Some ''lt''),
      (''lt'', None, Some ''gte''), (''lte'', None, Some ''gt'')] @ between_entries @ empty_entries"
| "CATALOG VRange = between_entries @ empty_entries"
| "CATALOG VSelect =
     is_entries @
     [(''is_any_of'', Some ArMany, Some ''is_none_of''), (''is_none_of'', Some ArMany, Some ''is_any_of'')] @
     empty_entries"
| "CATALOG VMultiselect =
     [(''has_any_of'', Some ArMany, Some ''has_none_of''), (''has_all_of'', Some ArMany, None),
      (''has_none_of'', Some ArMany, Some ''has_any_of'')] @ empty_entries"
| "CATALOG VBoolean = is_entries @ empty_entries"

definition createFilterOperators :: "(string \<times> string) list \<Rightarrow> value_type \<Rightarrow> filter_operator list" where
  "createFilterOperators labels t =
     map (\<lambda>(value, arity, opposite).
            \<lparr>op_value = value,
             op_label = (case map_of labels value of None \<Rightarrow> value | Some l \<Rightarrow> l),
             op_arity = Some (case arity of None \<Rightarrow> ArOne | Some a \<Rightarrow> a),
             op_inverse = opposite, op_hidden = None\<rparr>) (CATALOG t)"

definition DEFAULT_FILTER_OPERATORS :: "value_type \<Rightarrow> filter_operator list" where
  "DEFAULT_FILTER_OPERATORS = createFilterOperators DEFAULT_FILTER_OPERATOR_LABELS"

section \<open>Operations\<close>

definition resolveFilterOperators ::
  "(nat \<Rightarrow> filter_field \<Rightarrow> filter_operator list) \<Rightarrow> (value_type \<Rightarrow> filter_operator list)
   \<Rightarrow> filter_field \<Rightarrow> filter_operator list" where
  "resolveFilterOperators call catalog field =
     (case fp_operators (field_props field) of
        Some (OpFun h) \<Rightarrow> call h field
      | Some (OpList ops) \<Rightarrow> ops
      | None \<Rightarrow> catalog (case fp_type (field_props field) of None \<Rightarrow> VText | Some t \<Rightarrow> t))"

definition visibleFilterOperators :: "filter_operator list \<Rightarrow> filter_operator list" where
  "visibleFilterOperators ops = filter (\<lambda>p. \<not> truthy (op_hidden p)) ops"

definition getFilterOperator :: "filter_operator list \<Rightarrow> string option \<Rightarrow> filter_operator option" where
  "getFilterOperator ops value =
     (case value of
        None \<Rightarrow> None
      | Some v \<Rightarrow> if v = [] then None else List.find (\<lambda>p. op_value p = v) ops)"

definition getFilterArity :: "filter_operator option \<Rightarrow> filter_arity" where
  "getFilterArity operator =
     (case operator of
        None \<Rightarrow> ArOne
      | Some p \<Rightarrow> (case op_arity p of None \<Rightarrow> ArOne | Some a \<Rightarrow> a))"

definition operatorTakesValue :: "filter_operator option \<Rightarrow> bool" where
  "operatorTakesValue operator \<longleftrightarrow> getFilterArity operator \<noteq> ArNone"

definition getDefaultFilterOperator :: "filter_field \<Rightarrow> filter_operator list \<Rightarrow> string option" where
  "getDefaultFilterOperator field ops =
     (let first = (case visibleFilterOperators ops of
                     p # _ \<Rightarrow> Some (op_value p)
                   | [] \<Rightarrow> (case ops of p # _ \<Rightarrow> Some (op_value p) | [] \<Rightarrow> None))
      in case getFilterOperator ops (fp_default_operator (field_props field)) of
           Some named \<Rightarrow> Some (op_value named)
         | None \<Rightarrow> first)"

text \<open>\<^verbatim>\<open>operator?.inverse\<close> is truthy when it is a non-empty string; the lookup asks the same.\<close>

definition negateFilterOperator ::
  "filter_operator option \<Rightarrow> filter_operator list \<Rightarrow> bool option \<Rightarrow> string option \<times> bool" where
  "negateFilterOperator operator ops negated =
     (case getFilterOperator ops (Option.bind operator op_inverse) of
        Some opposite \<Rightarrow> (Some (op_value opposite), truthy negated)
      | None \<Rightarrow> (map_option op_value operator, \<not> truthy negated))"

text \<open>Reading an array out of range answers \<^verbatim>\<open>undefined\<close>.\<close>

definition js_nth :: "js_value list \<Rightarrow> nat \<Rightarrow> js_value" where
  "js_nth vs k = (if k < length vs then vs ! k else JUndefined)"

definition coerceFilterValue ::
  "js_value \<Rightarrow> filter_operator option \<Rightarrow> filter_operator option \<Rightarrow> js_value" where
  "coerceFilterValue value from to =
     (let nextArity = getFilterArity to in
      if nextArity = ArNone then JUndefined
      else if is_nullish value then value
      else if getFilterArity from = nextArity then value
      else let asArray = (case value of JArr vs \<Rightarrow> vs | _ \<Rightarrow> [value]) in
        case nextArity of
          ArMany \<Rightarrow> JArr asArray
        | ArOne \<Rightarrow> js_nth asArray 0
        | ArRange \<Rightarrow> JArr [js_nth asArray 0, js_nth asArray 1]
        | ArNone \<Rightarrow> value)"

section \<open>Properties\<close>

lemma getFilterOperator_Some:
  "getFilterOperator ops v = Some p \<Longrightarrow> p \<in> set ops \<and> v = Some (op_value p)"
  by (auto simp: getFilterOperator_def split: option.splits if_splits dest: find_Some_in)

lemma getFilterOperator_in:
  assumes "distinct (map op_value ops)" "p \<in> set ops" "op_value p \<noteq> []"
  shows "getFilterOperator ops (Some (op_value p)) = Some p"
proof -
  have "List.find (\<lambda>x. op_value x = op_value p) ops = Some p"
    using assms(1,2) by (induction ops) auto
  with assms(3) show ?thesis by (simp add: getFilterOperator_def)
qed

text \<open>
  What the catalog promises for each value type, by evaluation: distinct non-empty values, and an
  inverse that is an operator of the same type, of the same arity, whose inverse points back.
\<close>

definition catalog_ok :: "catalog_entry list \<Rightarrow> bool" where
  "catalog_ok es \<longleftrightarrow> distinct (map fst es) \<and> list_all (\<lambda>(v, a, i). v \<noteq> []) es \<and>
     list_all (\<lambda>(v, a, i). case i of None \<Rightarrow> True | Some w \<Rightarrow> w \<noteq> v \<and> (w, a, Some v) \<in> set es) es"

lemma catalog_ok: "catalog_ok (CATALOG t)"
  by (cases t) (simp_all add: catalog_ok_def is_entries_def empty_entries_def between_entries_def)

lemma catalog_operators:
  "map op_value (createFilterOperators labels t) = map fst (CATALOG t)"
  by (simp add: createFilterOperators_def split_def o_def)

lemma catalog_distinct: "distinct (map op_value (createFilterOperators labels t))"
  using catalog_ok [of t] by (simp add: catalog_operators catalog_ok_def)

lemma catalog_value_ne: "p \<in> set (createFilterOperators labels t) \<Longrightarrow> op_value p \<noteq> []"
  using catalog_ok [of t] by (auto simp: createFilterOperators_def catalog_ok_def list_all_iff)

lemma catalog_inverse:
  assumes "p \<in> set (createFilterOperators labels t)" "op_inverse p = Some w"
  obtains p' where "p' \<in> set (createFilterOperators labels t)" "op_value p' = w"
    "op_inverse p' = Some (op_value p)" "op_arity p' = op_arity p" "op_value p' \<noteq> op_value p"
proof -
  obtain a i where e: "(op_value p, a, i) \<in> set (CATALOG t)" "op_inverse p = i"
      "op_arity p = Some (case a of None \<Rightarrow> ArOne | Some x \<Rightarrow> x)"
    using assms(1) by (auto simp: createFilterOperators_def)
  have "w \<noteq> op_value p" "(w, a, Some (op_value p)) \<in> set (CATALOG t)"
    using catalog_ok [of t] e assms(2) by (auto simp: catalog_ok_def list_all_iff)
  moreover from imageI [OF this(2), of "\<lambda>(value, arity, opposite).
            \<lparr>op_value = value,
             op_label = (case map_of labels value of None \<Rightarrow> value | Some l \<Rightarrow> l),
             op_arity = Some (case arity of None \<Rightarrow> ArOne | Some a \<Rightarrow> a),
             op_inverse = opposite, op_hidden = None\<rparr>"]
  have "\<lparr>op_value = w, op_label = (case map_of labels w of None \<Rightarrow> w | Some l \<Rightarrow> l),
      op_arity = op_arity p, op_inverse = Some (op_value p), op_hidden = None\<rparr>
      \<in> set (createFilterOperators labels t)"
    unfolding createFilterOperators_def set_map by (simp add: e(3))
  ultimately show thesis using that by (metis filter_operator.select_convs(1,3,4))
qed

text \<open>Negating a condition twice gives it back, for every operator of the built-in catalog of
  every value type and any labels; one negation changes the operator or the flag, never both, and
  never the arity, so the value still fits.\<close>

theorem negate_involution:
  assumes "p \<in> set (createFilterOperators labels t)"
    and "negateFilterOperator (Some p) (createFilterOperators labels t) negated = (v, n)"
  shows "negateFilterOperator (getFilterOperator (createFilterOperators labels t) v)
      (createFilterOperators labels t) (Some n) = (Some (op_value p), truthy negated) \<and>
    (v \<noteq> Some (op_value p)) \<noteq> (n \<noteq> truthy negated) \<and>
    getFilterArity (getFilterOperator (createFilterOperators labels t) v) = getFilterArity (Some p)"
proof -
  let ?ops = "createFilterOperators labels t"
  note get = getFilterOperator_in [OF catalog_distinct _ catalog_value_ne]
  show ?thesis
  proof (cases "op_inverse p")
    case None
    with assms get [OF assms(1) assms(1)] show ?thesis
      by (auto simp: negateFilterOperator_def getFilterOperator_def truthy_def)
  next
    case (Some w)
    from assms(1) Some obtain p' where p': "p' \<in> set ?ops" "op_value p' = w"
      "op_inverse p' = Some (op_value p)" "op_arity p' = op_arity p" "op_value p' \<noteq> op_value p"
      by (rule catalog_inverse)
    with assms Some get [OF assms(1) assms(1)] get [OF p'(1) p'(1)] show ?thesis
      by (auto simp: negateFilterOperator_def getFilterArity_def truthy_def)
  qed
qed

theorem negate_involution_witness:
  "negateFilterOperator (getFilterOperator (DEFAULT_FILTER_OPERATORS VNumber) (Some ''lte''))
     (DEFAULT_FILTER_OPERATORS VNumber) (Some False) = (Some ''gt'', False)"
proof -
  let ?p = "the (getFilterOperator (DEFAULT_FILTER_OPERATORS VNumber) (Some ''gt''))"
  have "?p \<in> set (createFilterOperators DEFAULT_FILTER_OPERATOR_LABELS VNumber)"
    and "negateFilterOperator (Some ?p) (createFilterOperators DEFAULT_FILTER_OPERATOR_LABELS VNumber) None =
      (Some ''lte'', False)"
    and "op_value ?p = ''gt''"
    by code_simp+
  from negate_involution [OF this(1,2)] this(3) show ?thesis
    by (simp add: DEFAULT_FILTER_OPERATORS_def truthy_def)
qed

text \<open>The operator a new condition starts with is one its field offers, whatever the schema names
  as the default: the named one when it is offered, a visible one if there is any, and none only when
  the field offers no operator.\<close>

theorem default_operator_offered:
  "(getDefaultFilterOperator field ops = None) = (ops = []) \<and>
   (\<forall>v. getDefaultFilterOperator field ops = Some v \<longrightarrow> v \<in> op_value ` set ops) \<and>
   (\<forall>d\<in>op_value ` set ops. fp_default_operator (field_props field) = Some d \<and> d \<noteq> [] \<longrightarrow>
      getDefaultFilterOperator field ops = Some d) \<and>
   (fp_default_operator (field_props field) = None \<and> visibleFilterOperators ops \<noteq> [] \<longrightarrow>
      (\<exists>p\<in>set ops. \<not> truthy (op_hidden p) \<and> getDefaultFilterOperator field ops = Some (op_value p)))"
proof -
  let ?d = "getFilterOperator ops (fp_default_operator (field_props field))"
  have vis: "p \<in> set ops \<and> \<not> truthy (op_hidden p)" if "visibleFilterOperators ops = p # ps" for p ps
    using arg_cong [OF that, of set] by (auto simp: visibleFilterOperators_def)
  have 1: "(getDefaultFilterOperator field ops = None) = (ops = [])"
    by (cases ops) (auto simp: getDefaultFilterOperator_def visibleFilterOperators_def
        getFilterOperator_def split: list.splits option.splits)
  have 2: "v \<in> op_value ` set ops" if "getDefaultFilterOperator field ops = Some v" for v
    using that vis by (auto simp: getDefaultFilterOperator_def Let_def
        split: list.splits option.splits dest!: getFilterOperator_Some)
  have 3: "getDefaultFilterOperator field ops = Some d"
    if d: "d \<in> op_value ` set ops" "fp_default_operator (field_props field) = Some d" "d \<noteq> []" for d
  proof -
    have "List.find (\<lambda>p. op_value p = d) ops \<noteq> None" using d(1) by (auto simp: find_None_all)
    then obtain p where "?d = Some p" using d(2,3) by (auto simp: getFilterOperator_def)
    with getFilterOperator_Some [OF this] d(2) show ?thesis
      by (simp add: getDefaultFilterOperator_def)
  qed
  have 4: "\<exists>p\<in>set ops. \<not> truthy (op_hidden p) \<and> getDefaultFilterOperator field ops = Some (op_value p)"
    if none: "fp_default_operator (field_props field) = None" and some: "visibleFilterOperators ops \<noteq> []"
  proof -
    from some obtain p ps where "visibleFilterOperators ops = p # ps"
      by (cases "visibleFilterOperators ops") auto
    with vis [OF this] none show ?thesis
      by (auto simp: getDefaultFilterOperator_def getFilterOperator_def)
  qed
  from 1 2 3 4 show ?thesis by blast
qed

definition sample_field :: filter_field where
  "sample_field = FilterField ''status''
     \<lparr>fp_label = ''Status'', fp_keywords = None, fp_count = None, fp_selectable = None,
      fp_disabled = None, fp_type = Some VSelect, fp_options = None, fp_operators = None,
      fp_default_operator = Some ''is_any_of'', fp_editor = None, fp_column = None, fp_icon = False,
      fp_render_value = False, fp_load_options = False, fp_resolve_values = False\<rparr> None"

theorem default_operator_offered_witness:
  "getDefaultFilterOperator sample_field (DEFAULT_FILTER_OPERATORS VSelect) = Some ''is_any_of'' \<and>
   ''is_any_of'' \<in> op_value ` set (DEFAULT_FILTER_OPERATORS VSelect)"
proof -
  have "getDefaultFilterOperator sample_field (DEFAULT_FILTER_OPERATORS VSelect) = Some ''is_any_of''"
    by code_simp
  with default_operator_offered [of sample_field "DEFAULT_FILTER_OPERATORS VSelect"] show ?thesis
    by blast
qed

text \<open>
  The shape the value of a rule has under an operator's arity, and its reshaping.
\<close>

definition shape_ok :: "filter_arity \<Rightarrow> js_value \<Rightarrow> bool" where
  "shape_ok a v = (case a of
      ArNone \<Rightarrow> v = JUndefined
    | ArOne \<Rightarrow> True
    | ArMany \<Rightarrow> is_nullish v \<or> (\<exists>vs. v = JArr vs)
    | ArRange \<Rightarrow> is_nullish v \<or> (\<exists>lo hi. v = JArr [lo, hi]))"

text \<open>C40: Choosing an operator of another arity gives the value that operator's shape (an array for
  "any of", a pair for a range, nothing for "is empty"); a single value survives widening and
  narrowing again, and narrowing keeps the first pick.\<close>

theorem coerce_shape:
  assumes "shape_ok (getFilterArity from) v"
  shows "shape_ok (getFilterArity to) (coerceFilterValue v from to) \<and>
    (getFilterArity from = ArOne \<and> getFilterArity to = ArMany \<and> (\<forall>vs. v \<noteq> JArr vs) \<longrightarrow>
       coerceFilterValue (coerceFilterValue v from to) to from = v) \<and>
    (\<forall>x xs. v = JArr (x # xs) \<and> getFilterArity from = ArMany \<and> getFilterArity to = ArOne \<longrightarrow>
       coerceFilterValue v from to = x)"
  using assms
  by (cases "getFilterArity to"; cases "getFilterArity from"; cases v)
    (auto simp: coerceFilterValue_def shape_ok_def is_nullish_def js_nth_def Let_def)

theorem coerce_shape_witness:
  "shape_ok (getFilterArity (getFilterOperator (DEFAULT_FILTER_OPERATORS VSelect) (Some ''is_any_of'')))
     (coerceFilterValue (JStr ''open'')
        (getFilterOperator (DEFAULT_FILTER_OPERATORS VSelect) (Some ''is''))
        (getFilterOperator (DEFAULT_FILTER_OPERATORS VSelect) (Some ''is_any_of'')))"
proof -
  have "shape_ok (getFilterArity (getFilterOperator (DEFAULT_FILTER_OPERATORS VSelect) (Some ''is'')))
      (JStr ''open'')"
    by (simp add: shape_ok_def getFilterArity_def getFilterOperator_def DEFAULT_FILTER_OPERATORS_def
        createFilterOperators_def is_entries_def)
  from coerce_shape [OF this] show ?thesis by blast
qed

end
