(* ===== verification/Cascader_Index.thy ===== *)
theory Cascader_Index
  imports Prelude "HOL-Library.AList"
begin

text \<open>
  The tree index of the cascader (\<^verbatim>\<open>web/packages/ui/src/components/reui/cascader/cascader-lib.tsx\<close>,
  types in \<^verbatim>\<open>cascader-types.tsx\<close>), which also carries the hierarchy panels and the filter's field
  picker: building it from nested nodes or from a flat list with parents, and everything that reads
  it (children, branches, selectability, paths, search, path collapsing) or computes a selection over
  it.  A JavaScript \<^verbatim>\<open>Map\<close> is an association list in insertion order (\<open>map_of\<close> reads it,
  \<open>AList.update\<close> sets it), a \<^verbatim>\<open>Set\<close> that is returned as an array is a list without repetition.
\<close>

section \<open>Types\<close>

record cnode_props =
  cn_label :: string
  cn_has_children :: bool
  cn_count :: "nat option"
  cn_disabled :: bool
  cn_keywords :: "string list"

text \<open>A child entry is \<open>None\<close> where the data has a null.\<close>

datatype cascader_node =
  CNode (cn_value: string) (cn_props: cnode_props) (cn_children: "cascader_node option list")

record cascader_index =
  ix_byValue :: "(string \<times> cascader_node) list"
  ix_childrenOf :: "(string \<times> cascader_node list) list"
  ix_parentOf :: "(string \<times> string option) list"
  ix_depthOf :: "(string \<times> nat) list"
  ix_roots :: "cascader_node list"
  ix_all :: "cascader_node list"

definition CASCADER_ROOT_KEY :: string where
  "CASCADER_ROOT_KEY = CHR 0x00 # ''root''"

definition CASCADER_MORE_PREFIX :: string where
  "CASCADER_MORE_PREFIX = CHR 0x00 # ''more:''"

section \<open>The paging row\<close>

definition createCascaderMoreNode :: "string \<Rightarrow> nat \<Rightarrow> cascader_node" where
  "createCascaderMoreNode parentKey loadedCount =
     CNode (CASCADER_MORE_PREFIX @ parentKey)
       \<lparr>cn_label = [], cn_has_children = False, cn_count = Some loadedCount, cn_disabled = False,
        cn_keywords = []\<rparr> []"

definition isCascaderMoreNode :: "cascader_node \<Rightarrow> bool" where
  "isCascaderMoreNode node = starts_with (cn_value node) CASCADER_MORE_PREFIX"

definition getCascaderMoreParent :: "cascader_node \<Rightarrow> string option" where
  "getCascaderMoreParent node =
     (if isCascaderMoreNode node then Some (drop (length CASCADER_MORE_PREFIX) (cn_value node)) else None)"

section \<open>Ancestor walks\<close>

text \<open>\<^verbatim>\<open>parentOf.get(value) ?? null\<close>\<close>

definition parent_get :: "(string \<times> string option) list \<Rightarrow> string \<Rightarrow> string option" where
  "parent_get parents value = (case map_of parents value of None \<Rightarrow> None | Some p \<Rightarrow> p)"

text \<open>
  The loop every ancestor walk of the file shares,
  \<^verbatim>\<open>while (cursor != null && !seen.has(cursor)) { seen.add(cursor); ...; cursor = parentOf.get(cursor) ?? null }\<close>:
  the values it visits, in order.
\<close>

lemma parent_get_shrinks:
  assumes "parent_get parents c = Some p" "c \<notin> S"
  shows "card (fst ` set parents - insert c S) < card (fst ` set parents - S)"
proof -
  have "c \<in> fst ` set parents"
    using assms(1) by (auto simp: parent_get_def split: option.splits dest: map_of_SomeD intro: rev_image_eqI)
  with assms(2) show ?thesis by (intro psubset_card_mono) auto
qed

function climb :: "(string \<times> string option) list \<Rightarrow> string list \<Rightarrow> string option \<Rightarrow> string list" where
  "climb parents seen None = []"
| "climb parents seen (Some c) =
     (if c \<in> set seen then [] else c # climb parents (c # seen) (parent_get parents c))"
  by pat_completeness auto
termination
proof (relation "measure (\<lambda>(parents, seen, cursor). case cursor of None \<Rightarrow> 0
    | Some c \<Rightarrow> Suc (card (fst ` set parents - set seen)))")
  fix parents :: "(string \<times> string option) list" and seen :: "string list" and c
  assume c: "c \<notin> set seen"
  show "((parents, c # seen, parent_get parents c), parents, seen, Some c)
    \<in> measure (\<lambda>(parents, seen, cursor). case cursor of None \<Rightarrow> 0
        | Some c \<Rightarrow> Suc (card (fst ` set parents - set seen)))"
  proof (cases "parent_get parents c")
    case (Some p)
    with parent_get_shrinks [OF Some c] show ?thesis by simp
  qed simp
qed simp

section \<open>Building\<close>

definition push :: "string \<Rightarrow> cascader_node \<Rightarrow> (string \<times> cascader_node list) list \<Rightarrow> (string \<times> cascader_node list) list" where
  "push parentKey node childrenOf =
     AList.update parentKey ((case map_of childrenOf parentKey of None \<Rightarrow> [] | Some b \<Rightarrow> b) @ [node]) childrenOf"

text \<open>The first loop of the flat form: nullish entries and repeated values are skipped.\<close>

fun flat_collect :: "cascader_node option list \<Rightarrow> (string \<times> cascader_node) list \<Rightarrow> (string \<times> cascader_node) list" where
  "flat_collect [] byValue = byValue"
| "flat_collect (None # items) byValue = flat_collect items byValue"
| "flat_collect (Some n # items) byValue =
     flat_collect items (if map_of byValue (cn_value n) \<noteq> None then byValue else byValue @ [(cn_value n, n)])"

definition flat_parent ::
  "(string \<times> cascader_node) list \<Rightarrow> (cascader_node \<Rightarrow> string option) \<Rightarrow> cascader_node \<Rightarrow> string option" where
  "flat_parent byValue getParent node =
     (case getParent node of
        None \<Rightarrow> None
      | Some raw \<Rightarrow> if map_of byValue raw \<noteq> None then Some raw else None)"

definition root_or :: "string option \<Rightarrow> string" where
  "root_or parent = (case parent of None \<Rightarrow> CASCADER_ROOT_KEY | Some p \<Rightarrow> p)"

definition children_get :: "(string \<times> cascader_node list) list \<Rightarrow> string \<Rightarrow> cascader_node list" where
  "children_get childrenOf key = (case map_of childrenOf key of None \<Rightarrow> [] | Some ns \<Rightarrow> ns)"

definition build_flat :: "cascader_node option list \<Rightarrow> (cascader_node \<Rightarrow> string option) \<Rightarrow> cascader_index" where
  "build_flat items getParent =
     (let byValue = flat_collect items [];
          all = map snd byValue;
          parentOf = map (\<lambda>n. (cn_value n, flat_parent byValue getParent n)) all;
          childrenOf = fold (\<lambda>n. push (root_or (flat_parent byValue getParent n)) n) all [];
          depthOf = map (\<lambda>n. (cn_value n,
            length (climb parentOf [cn_value n] (parent_get parentOf (cn_value n))))) all
      in \<lparr>ix_byValue = byValue, ix_childrenOf = childrenOf, ix_parentOf = parentOf, ix_depthOf = depthOf,
          ix_roots = children_get childrenOf CASCADER_ROOT_KEY, ix_all = all\<rparr>)"

text \<open>The nested form, one node entered into the maps; \<open>ix_roots\<close> is filled in at the end.\<close>

definition enter_node :: "string option \<Rightarrow> nat \<Rightarrow> cascader_node \<Rightarrow> cascader_index \<Rightarrow> cascader_index" where
  "enter_node parent depth n ix =
     ix\<lparr>ix_byValue := ix_byValue ix @ [(cn_value n, n)],
        ix_parentOf := ix_parentOf ix @ [(cn_value n, parent)],
        ix_depthOf := ix_depthOf ix @ [(cn_value n, depth)],
        ix_all := ix_all ix @ [n],
        ix_childrenOf := push (root_or parent) n (ix_childrenOf ix)\<rparr>"

fun nested_walk :: "string option \<Rightarrow> nat \<Rightarrow> cascader_node option list \<Rightarrow> cascader_index \<Rightarrow> cascader_index" where
  "nested_walk parent depth [] ix = ix"
| "nested_walk parent depth (None # ns) ix = nested_walk parent depth ns ix"
| "nested_walk parent depth (Some (CNode v pr ch) # ns) ix =
     (if map_of (ix_byValue ix) v \<noteq> None then nested_walk parent depth ns ix
      else let ix' = enter_node parent depth (CNode v pr ch) ix
           in nested_walk parent depth ns
                (if ch = [] then ix' else nested_walk (Some v) (depth + 1) ch ix'))"

definition empty_index :: cascader_index where
  "empty_index = \<lparr>ix_byValue = [], ix_childrenOf = [], ix_parentOf = [], ix_depthOf = [], ix_roots = [], ix_all = []\<rparr>"

definition build_nested :: "cascader_node option list \<Rightarrow> cascader_index" where
  "build_nested items =
     (let ix = nested_walk None 0 items empty_index
      in ix\<lparr>ix_roots := children_get (ix_childrenOf ix) CASCADER_ROOT_KEY\<rparr>)"

definition buildCascaderIndex ::
  "cascader_node option list option \<Rightarrow> (cascader_node \<Rightarrow> string option) option \<Rightarrow> cascader_index" where
  "buildCascaderIndex items getParent =
     (let ns = (case items of None \<Rightarrow> [] | Some ns \<Rightarrow> ns)
      in case getParent of None \<Rightarrow> build_nested ns | Some f \<Rightarrow> build_flat ns f)"

section \<open>Reading\<close>

definition getCascaderChildren :: "cascader_index \<Rightarrow> string option \<Rightarrow> cascader_node list" where
  "getCascaderChildren ix parent = children_get (ix_childrenOf ix) (root_or parent)"

definition isCascaderBranch :: "cascader_index \<Rightarrow> cascader_node \<Rightarrow> bool" where
  "isCascaderBranch ix node \<longleftrightarrow>
     cn_has_children (cn_props node) \<or> children_get (ix_childrenOf ix) (cn_value node) \<noteq> []"

definition getCascaderCount :: "cascader_index \<Rightarrow> cascader_node \<Rightarrow> nat" where
  "getCascaderCount ix node =
     (case cn_count (cn_props node) of
        Some c \<Rightarrow> c | None \<Rightarrow> length (children_get (ix_childrenOf ix) (cn_value node)))"

datatype cascader_selectable = SelLeaf | SelAny | SelFun "cascader_node \<Rightarrow> bool"

definition disabled_at :: "cascader_index \<Rightarrow> string \<Rightarrow> bool" where
  "disabled_at ix v = (case map_of (ix_byValue ix) v of None \<Rightarrow> False | Some n \<Rightarrow> cn_disabled (cn_props n))"

definition isCascaderSelectable :: "cascader_index \<Rightarrow> cascader_node \<Rightarrow> cascader_selectable \<Rightarrow> bool" where
  "isCascaderSelectable ix node selectable =
     (if isCascaderMoreNode node then False
      else if cn_disabled (cn_props node) then False
      else if list_ex (disabled_at ix)
          (climb (ix_parentOf ix) [cn_value node] (parent_get (ix_parentOf ix) (cn_value node))) then False
      else case selectable of
             SelFun f \<Rightarrow> f node
           | SelAny \<Rightarrow> True
           | SelLeaf \<Rightarrow> \<not> isCascaderBranch ix node)"

text \<open>The walk to the root stops at a value the index does not hold; the chain is root first.\<close>

definition getCascaderPath :: "cascader_index \<Rightarrow> string option \<Rightarrow> cascader_node list" where
  "getCascaderPath ix value =
     rev (List.map_filter (map_of (ix_byValue ix))
       (takeWhile (\<lambda>v. map_of (ix_byValue ix) v \<noteq> None) (climb (ix_parentOf ix) [] value)))"

section \<open>Search\<close>

text \<open>\<open>foldText\<close> is \<^verbatim>\<open>toLocaleLowerCase\<close>, which depends on the user's locale.\<close>

definition normalizeCascaderQuery :: "(string \<Rightarrow> string) \<Rightarrow> string \<Rightarrow> string" where
  "normalizeCascaderQuery foldText query = foldText (trim query)"

definition matchesCascaderQuery :: "(string \<Rightarrow> string) \<Rightarrow> cascader_node \<Rightarrow> string \<Rightarrow> bool" where
  "matchesCascaderQuery foldText node normalized \<longleftrightarrow>
     normalized = [] \<or> str_includes (foldText (cn_label (cn_props node))) normalized \<or>
     list_ex (\<lambda>k. str_includes (foldText k) normalized) (cn_keywords (cn_props node))"

definition filterCascaderLevel ::
  "(string \<Rightarrow> string) \<Rightarrow> (cascader_node \<Rightarrow> string \<Rightarrow> bool) \<Rightarrow> cascader_node list \<Rightarrow> string \<Rightarrow> cascader_node list" where
  "filterCascaderLevel foldText matches nodes query =
     (let normalized = normalizeCascaderQuery foldText query
      in if normalized = [] then nodes else filter (\<lambda>n. matches n normalized) nodes)"

text \<open>
  The memoised ancestry test of \<^verbatim>\<open>searchCascaderDeep\<close>: the loop from \<open>cursor\<close> with the cache and the
  trail of values it entered as provisionally false.
\<close>

function within_loop ::
  "(string \<times> string option) list \<Rightarrow> string \<Rightarrow> (string \<times> bool) list \<Rightarrow> string list \<Rightarrow> string option
   \<Rightarrow> bool \<times> (string \<times> bool) list \<times> string list" where
  "within_loop parents inside cache trail None = (False, cache, trail)"
| "within_loop parents inside cache trail (Some c) =
     (if c = inside then (True, cache, trail)
      else case map_of cache c of
             Some answer \<Rightarrow> (answer, cache, trail)
           | None \<Rightarrow> within_loop parents inside (AList.update c False cache) (trail @ [c]) (parent_get parents c))"
  by pat_completeness auto
termination
proof (relation "measure (\<lambda>(parents, inside, cache, trail, cursor). case cursor of None \<Rightarrow> 0
    | Some c \<Rightarrow> Suc (card (fst ` set parents - fst ` set cache)))")
  fix parents :: "(string \<times> string option) list" and inside c trail and cache :: "(string \<times> bool) list"
  assume "map_of cache c = None"
  then have c: "c \<notin> fst ` set cache" by (simp add: map_of_eq_None_iff)
  show "((parents, inside, AList.update c False cache, trail @ [c], parent_get parents c),
      parents, inside, cache, trail, Some c)
    \<in> measure (\<lambda>(parents, inside, cache, trail, cursor). case cursor of None \<Rightarrow> 0
        | Some c \<Rightarrow> Suc (card (fst ` set parents - fst ` set cache)))"
  proof (cases "parent_get parents c")
    case (Some p)
    with parent_get_shrinks [OF Some c] show ?thesis by (simp add: update_conv' dom_map_of_conv_image_fst [symmetric])
  qed simp
qed simp

definition is_within ::
  "(string \<times> string option) list \<Rightarrow> string \<Rightarrow> (string \<times> bool) list \<Rightarrow> cascader_node
   \<Rightarrow> bool \<times> (string \<times> bool) list" where
  "is_within parents inside cache node =
     (let (answer, cache', trail) = within_loop parents inside cache [] (parent_get parents (cn_value node))
      in (answer, if answer then fold (\<lambda>v. AList.update v True) trail cache' else cache'))"

text \<open>The loop over \<^verbatim>\<open>index.all\<close>; \<open>n\<close> results may still be taken.\<close>

fun deep_loop ::
  "(string \<times> string option) list \<Rightarrow> string option \<Rightarrow> (cascader_node \<Rightarrow> bool) \<Rightarrow> nat \<Rightarrow> (string \<times> bool) list
   \<Rightarrow> cascader_node list \<Rightarrow> cascader_node list" where
  "deep_loop parents inside hit n cache [] = []"
| "deep_loop parents inside hit n cache (node # nodes) =
     (if n = 0 then []
      else if \<not> hit node then deep_loop parents inside hit n cache nodes
      else case inside of
             None \<Rightarrow> node # deep_loop parents inside hit (n - 1) cache nodes
           | Some w \<Rightarrow>
               (let (answer, cache') = is_within parents w cache node
                in if answer then node # deep_loop parents inside hit (n - 1) cache' nodes
                   else deep_loop parents inside hit n cache' nodes))"

definition searchCascaderDeep ::
  "(string \<Rightarrow> string) \<Rightarrow> (cascader_node \<Rightarrow> string \<Rightarrow> bool) \<Rightarrow> cascader_index \<Rightarrow> string \<Rightarrow> string option \<Rightarrow> nat
   \<Rightarrow> cascader_node list" where
  "searchCascaderDeep foldText matches ix query inside limit =
     (let normalized = normalizeCascaderQuery foldText query
      in if normalized = [] then []
         else deep_loop (ix_parentOf ix) inside (\<lambda>n. matches n normalized) limit [] (ix_all ix))"

end
