(* ===== verification/Cascader_Select.thy ===== *)
theory Cascader_Select
  imports Cascader_Index
begin

text \<open>
  The second half of \<^verbatim>\<open>cascader-lib.tsx\<close>: shortening a path, the loaded subtree of a node, toggling a
  cascade selection with its ancestors reconciled, the counts and the partial marks read off a
  selection, the reporting strategies, and the data checks.
\<close>

section \<open>Shortening a path\<close>

datatype cascader_collapse = CollapseMiddle | CollapseStart | CollapseNone

datatype 'n path_segment = SegNode 'n | SegEllipsis "'n list"

text \<open>\<^verbatim>\<open>maxSegments\<close> is a number the caller gives, possibly negative.\<close>

definition collapseCascaderPath :: "'n list \<Rightarrow> int \<Rightarrow> cascader_collapse \<Rightarrow> 'n path_segment list" where
  "collapseCascaderPath path maxSegments collapse =
     (if collapse = CollapseNone \<or> maxSegments \<le> 0 \<or> int (length path) \<le> maxSegments
      then map SegNode path
      else let m = nat maxSegments; len = length path in
        if collapse = CollapseStart
        then SegEllipsis (take (len - m) path) # map SegNode (drop (len - m) path)
        else let tailCount = m - 1; hidden = drop 1 (take (len - tailCount) path)
             in if hidden = [] then map SegNode path
                else map SegNode (take 1 path) @ [SegEllipsis hidden] @
                     map SegNode (drop (len - tailCount) path))"

section \<open>Selections\<close>

text \<open>
  The depth-first walk of \<^verbatim>\<open>collectCascaderSubtree\<close>, with its pending nodes as an explicit stack: a node
  is visited before its children and these before the rest.
\<close>

definition known_values :: "(string \<times> cascader_node list) list \<Rightarrow> string set" where
  "known_values childrenOf = (\<Union>(k, ns)\<in>set childrenOf. cn_value ` set ns)"

lemma children_known: "cn_value ` set (children_get childrenOf v) \<subseteq> known_values childrenOf"
proof (cases "map_of childrenOf v")
  case (Some ns)
  then have "(v, ns) \<in> set childrenOf" by (rule map_of_SomeD)
  with Some show ?thesis by (force simp: children_get_def known_values_def)
qed (simp add: children_get_def)

lemma finite_known: "finite (known_values childrenOf)"
  by (auto simp: known_values_def split: prod.splits)

function subtree_walk ::
  "(string \<times> cascader_node list) list \<Rightarrow> string list \<Rightarrow> cascader_node list \<Rightarrow> cascader_node list" where
  "subtree_walk childrenOf seen [] = []"
| "subtree_walk childrenOf seen (n # stack) =
     (if cn_value n \<in> set seen then subtree_walk childrenOf seen stack
      else n # subtree_walk childrenOf (cn_value n # seen) (children_get childrenOf (cn_value n) @ stack))"
  by pat_completeness auto
termination
proof (relation "inv_image (less_than <*lex*> less_than)
    (\<lambda>(ch, seen, stack). (card (known_values ch \<union> cn_value ` set stack - set seen), length stack))")
  fix ch :: "(string \<times> cascader_node list) list" and seen :: "string list" and n stack
  let ?U = "known_values ch \<union> cn_value ` set (n # stack)"
  have fin: "finite ?U" by (simp add: finite_known)
  show "((ch, seen, stack), ch, seen, n # stack) \<in> inv_image (less_than <*lex*> less_than)
      (\<lambda>(ch, seen, stack). (card (known_values ch \<union> cn_value ` set stack - set seen), length stack))"
  proof -
    have "card (known_values ch \<union> cn_value ` set stack - set seen) \<le> card (?U - set seen)"
      using fin by (intro card_mono) auto
    then show ?thesis by (auto simp: le_eq_less_or_eq)
  qed
  assume "cn_value n \<notin> set seen"
  then have "card (known_values ch \<union> cn_value ` set (children_get ch (cn_value n) @ stack) - set (cn_value n # seen))
      < card (?U - set seen)"
    using fin children_known [of ch "cn_value n"] by (intro psubset_card_mono) auto
  then show "((ch, cn_value n # seen, children_get ch (cn_value n) @ stack), ch, seen, n # stack)
      \<in> inv_image (less_than <*lex*> less_than)
      (\<lambda>(ch, seen, stack). (card (known_values ch \<union> cn_value ` set stack - set seen), length stack))" by simp
qed (auto intro: wf_inv_image wf_lex_prod)

definition collectCascaderSubtree :: "cascader_index \<Rightarrow> string \<Rightarrow> cascader_node list" where
  "collectCascaderSubtree ix value =
     (case map_of (ix_byValue ix) value of
        None \<Rightarrow> []
      | Some n \<Rightarrow> subtree_walk (ix_childrenOf ix) [] [n])"

text \<open>\<^verbatim>\<open>next.add\<close> and \<^verbatim>\<open>next.delete\<close> on an insertion-ordered set.\<close>

definition set_add :: "string \<Rightarrow> string list \<Rightarrow> string list" where
  "set_add v xs = (if v \<in> set xs then xs else xs @ [v])"

definition set_put :: "bool \<Rightarrow> string \<Rightarrow> string list \<Rightarrow> string list" where
  "set_put select v xs = (if select then set_add v xs else removeAll v xs)"

text \<open>One parent of the bottom-up reconciliation.\<close>

definition reconcile :: "cascader_index \<Rightarrow> (cascader_node \<Rightarrow> bool) \<Rightarrow> string \<Rightarrow> string list \<Rightarrow> string list" where
  "reconcile ix isSelectable cursor next =
     (let selectable = filter isSelectable (children_get (ix_childrenOf ix) cursor);
          full = (selectable \<noteq> [] \<and> list_all (\<lambda>ch. cn_value ch \<in> set next) selectable \<and>
                  (case map_of (ix_byValue ix) cursor of None \<Rightarrow> False | Some parent \<Rightarrow> isSelectable parent))
      in set_put full cursor next)"

definition applyCascadeSelection ::
  "cascader_index \<Rightarrow> string list \<Rightarrow> string \<Rightarrow> bool \<Rightarrow> (cascader_node \<Rightarrow> bool) \<Rightarrow> string list" where
  "applyCascadeSelection ix selected value select isSelectable =
     (let start = fold set_add selected [];
          subtree = collectCascaderSubtree ix value;
          toggled = (if subtree = [] then set_put select value start
                     else fold (\<lambda>n s. if cn_value n \<noteq> value \<and> \<not> isSelectable n then s
                                       else set_put select (cn_value n) s) subtree start)
      in fold (reconcile ix isSelectable)
           (climb (ix_parentOf ix) [value] (parent_get (ix_parentOf ix) value)) toggled)"

section \<open>Counts and reports\<close>

definition count_up :: "string \<Rightarrow> (string \<times> nat) list \<Rightarrow> (string \<times> nat) list" where
  "count_up v counts = AList.update v ((case map_of counts v of None \<Rightarrow> 0 | Some c \<Rightarrow> c) + 1) counts"

definition getCascaderSelectedDescendants :: "cascader_index \<Rightarrow> string list \<Rightarrow> (string \<times> nat) list" where
  "getCascaderSelectedDescendants ix selected =
     fold (\<lambda>value. fold count_up (climb (ix_parentOf ix) [value] (parent_get (ix_parentOf ix) value))) selected []"

definition getCascaderIndeterminateFrom :: "(string \<times> nat) list \<Rightarrow> string list \<Rightarrow> string list" where
  "getCascaderIndeterminateFrom counts selected =
     map fst (filter (\<lambda>(v, c). c > 0 \<and> v \<notin> set selected) counts)"

definition getCascaderIndeterminate :: "cascader_index \<Rightarrow> string list \<Rightarrow> string list" where
  "getCascaderIndeterminate ix selected =
     getCascaderIndeterminateFrom (getCascaderSelectedDescendants ix selected) selected"

datatype checked_strategy = CheckAll | CheckParent | CheckChild

definition getCascaderCheckedValues :: "cascader_index \<Rightarrow> string list \<Rightarrow> checked_strategy \<Rightarrow> string list" where
  "getCascaderCheckedValues ix selected strategy =
     (case strategy of
        CheckAll \<Rightarrow> selected
      | CheckParent \<Rightarrow>
          filter (\<lambda>v. case parent_get (ix_parentOf ix) v of None \<Rightarrow> True | Some p \<Rightarrow> p \<notin> set selected) selected
      | CheckChild \<Rightarrow>
          filter (\<lambda>v. \<not> list_ex (\<lambda>ch. cn_value ch \<in> set selected) (children_get (ix_childrenOf ix) v)) selected)"

text \<open>The loop of \<^verbatim>\<open>findAmbiguousCascaderLabels\<close> with the first value per label and the set so far.\<close>

fun ambiguous_loop :: "cascader_node list \<Rightarrow> (string \<times> string) list \<Rightarrow> string list \<Rightarrow> string list" where
  "ambiguous_loop [] firsts amb = amb"
| "ambiguous_loop (n # ns) firsts amb =
     (case map_of firsts (cn_label (cn_props n)) of
        None \<Rightarrow> ambiguous_loop ns (AList.update (cn_label (cn_props n)) (cn_value n) firsts) amb
      | Some first \<Rightarrow> ambiguous_loop ns firsts (set_add first (set_add (cn_value n) amb)))"

definition findAmbiguousCascaderLabels :: "cascader_node list \<Rightarrow> string list" where
  "findAmbiguousCascaderLabels nodes = ambiguous_loop nodes [] []"

section \<open>Data checks\<close>

text \<open>\<^verbatim>\<open>visit\<close>: the values seen, the repeated ones, and every node in document order.\<close>

fun issues_visit_nodes ::
  "cascader_node option list \<Rightarrow> string list \<times> string list \<times> cascader_node list
   \<Rightarrow> string list \<times> string list \<times> cascader_node list" where
  "issues_visit_nodes [] acc = acc"
| "issues_visit_nodes (None # ns) acc = issues_visit_nodes ns acc"
| "issues_visit_nodes (Some (CNode v pr ch) # ns) (seen, dups, flat) =
     (let acc = (set_add v seen, if v \<in> set seen then set_add v dups else dups, flat @ [CNode v pr ch])
      in issues_visit_nodes ns (if ch = [] then acc else issues_visit_nodes ch acc))"

text \<open>The loop that looks for a value met twice on the way up.\<close>

function on_cycle :: "(string \<times> string option) list \<Rightarrow> string list \<Rightarrow> string option \<Rightarrow> bool" where
  "on_cycle parents walked None = False"
| "on_cycle parents walked (Some c) =
     (if c \<in> set walked then True else on_cycle parents (c # walked) (parent_get parents c))"
  by pat_completeness auto
termination
proof (relation "measure (\<lambda>(parents, seen, cursor). case cursor of None \<Rightarrow> 0
    | Some c \<Rightarrow> Suc (card (fst ` set parents - set seen)))")
  fix parents :: "(string \<times> string option) list" and walked :: "string list" and c
  assume c: "c \<notin> set walked"
  show "((parents, c # walked, parent_get parents c), parents, walked, Some c)
    \<in> measure (\<lambda>(parents, seen, cursor). case cursor of None \<Rightarrow> 0
        | Some c \<Rightarrow> Suc (card (fst ` set parents - set seen)))"
  proof (cases "parent_get parents c")
    case (Some p)
    with parent_get_shrinks [OF Some c] show ?thesis by simp
  qed simp
qed simp

record cascader_issues =
  ci_duplicates :: "string list"
  ci_cycles :: "string list"

definition issue_parents ::
  "string list \<Rightarrow> cascader_node list \<Rightarrow> (cascader_node \<Rightarrow> string option) \<Rightarrow> (string \<times> string option) list" where
  "issue_parents seen flat getParent =
     fold (\<lambda>n ps. if map_of ps (cn_value n) \<noteq> None then ps
                   else ps @ [(cn_value n, case getParent n of None \<Rightarrow> None
                                | Some raw \<Rightarrow> if raw \<in> set seen then Some raw else None)]) flat []"

definition findCascaderDataIssues ::
  "cascader_node option list option \<Rightarrow> (cascader_node \<Rightarrow> string option) option \<Rightarrow> cascader_issues" where
  "findCascaderDataIssues items getParent =
     (let (seen, dups, flat) = issues_visit_nodes (case items of None \<Rightarrow> [] | Some ns \<Rightarrow> ns) ([], [], [])
      in \<lparr>ci_duplicates = dups,
          ci_cycles = (case getParent of
             None \<Rightarrow> []
           | Some f \<Rightarrow>
               (let parents = issue_parents seen flat f
                in map cn_value (filter (\<lambda>n. on_cycle parents [cn_value n] (parent_get parents (cn_value n))) flat)))\<rparr>)"

end
