(* ===== verification/Cascader_Tree.thy ===== *)
theory Cascader_Tree
  imports Cascader_Select
begin

text \<open>
  The invariant of a cascader index (\<open>tree_index\<close>): every map speaks of the same nodes, the child lists
  and the parent map are converse to each other, and no node is its own ancestor.  The index built
  from nested nodes satisfies it, and under it the ancestor walks visit exactly the ancestors and the
  subtree walk exactly the descendants.
\<close>

section \<open>The invariant\<close>

abbreviation node_at :: "cascader_index \<Rightarrow> string \<Rightarrow> cascader_node option" where
  "node_at ix v \<equiv> map_of (ix_byValue ix) v"

abbreviation parent_at :: "cascader_index \<Rightarrow> string \<Rightarrow> string option" where
  "parent_at ix v \<equiv> parent_get (ix_parentOf ix) v"

abbreviation children_at :: "cascader_index \<Rightarrow> string \<Rightarrow> cascader_node list" where
  "children_at ix v \<equiv> children_get (ix_childrenOf ix) v"

definition maps_agree :: "cascader_index \<Rightarrow> bool" where
  "maps_agree ix \<longleftrightarrow>
     (\<forall>v n. node_at ix v = Some n \<longrightarrow> cn_value n = v) \<and>
     node_at ix CASCADER_ROOT_KEY = None \<and>
     (\<forall>k c. c \<in> set (children_at ix k) \<longrightarrow> node_at ix (cn_value c) = Some c \<and>
        map_of (ix_parentOf ix) (cn_value c) = Some (if k = CASCADER_ROOT_KEY then None else Some k)) \<and>
     (\<forall>v q. map_of (ix_parentOf ix) v = Some q \<longrightarrow>
        (\<exists>n. node_at ix v = Some n \<and> n \<in> set (children_at ix (root_or q))) \<and>
        (\<forall>p. q = Some p \<longrightarrow> node_at ix p \<noteq> None))"

definition ranked :: "(string \<times> string option) list \<Rightarrow> (string \<Rightarrow> nat) \<Rightarrow> bool" where
  "ranked parents r \<longleftrightarrow> (\<forall>v p. parent_get parents v = Some p \<longrightarrow> r p < r v)"

definition tree_index :: "cascader_index \<Rightarrow> bool" where
  "tree_index ix \<longleftrightarrow> maps_agree ix \<and> (\<exists>r. ranked (ix_parentOf ix) r)"

lemma child_parent:
  assumes "maps_agree ix" "c \<in> set (children_at ix p)" "p \<noteq> CASCADER_ROOT_KEY"
  shows "parent_at ix (cn_value c) = Some p" and "node_at ix (cn_value c) = Some c"
proof -
  have "node_at ix (cn_value c) = Some c \<and>
      map_of (ix_parentOf ix) (cn_value c) = Some (if p = CASCADER_ROOT_KEY then None else Some p)"
    using assms(1,2) unfolding maps_agree_def by blast
  with assms(3) show "parent_at ix (cn_value c) = Some p" "node_at ix (cn_value c) = Some c"
    by (simp_all add: parent_get_def)
qed

lemma parent_child:
  assumes "maps_agree ix" "parent_at ix v = Some p"
  obtains n where "node_at ix v = Some n" "n \<in> set (children_at ix p)" "node_at ix p \<noteq> None"
    "p \<noteq> CASCADER_ROOT_KEY" "cn_value n = v"
proof -
  have "map_of (ix_parentOf ix) v = Some (Some p)"
    using assms(2) by (simp add: parent_get_def split: option.splits)
  then have "(\<exists>n. node_at ix v = Some n \<and> n \<in> set (children_at ix (root_or (Some p)))) \<and> node_at ix p \<noteq> None"
    using assms(1) unfolding maps_agree_def by blast
  moreover have "node_at ix CASCADER_ROOT_KEY = None" using assms(1) unfolding maps_agree_def by blast
  ultimately show thesis using that assms(1) unfolding maps_agree_def root_or_def by fastforce
qed

section \<open>Ancestors\<close>

definition up :: "(string \<times> string option) list \<Rightarrow> (string \<times> string) set" where
  "up parents = {(v, p). parent_get parents v = Some p}"

lemma up_iff [simp]: "(v, p) \<in> up parents \<longleftrightarrow> parent_get parents v = Some p"
  by (simp add: up_def)

lemma ranked_up: "(v, a) \<in> (up parents)\<^sup>* \<Longrightarrow> ranked parents r \<Longrightarrow> r a \<le> r v"
  by (induction rule: rtrancl_induct) (auto simp: ranked_def intro: order_trans [OF less_imp_le])

lemma ranked_up_strict: "(v, a) \<in> (up parents)\<^sup>+ \<Longrightarrow> ranked parents r \<Longrightarrow> r a < r v"
  by (induction rule: trancl_induct) (auto simp: ranked_def intro: less_trans)

lemma up_rtrancl_step:
  "(c, a) \<in> (up parents)\<^sup>* \<longleftrightarrow> a = c \<or> (\<exists>p. parent_get parents c = Some p \<and> (p, a) \<in> (up parents)\<^sup>*)"
proof
  assume "(c, a) \<in> (up parents)\<^sup>*"
  then show "a = c \<or> (\<exists>p. parent_get parents c = Some p \<and> (p, a) \<in> (up parents)\<^sup>*)"
    by (cases rule: converse_rtranclE) auto
next
  assume "a = c \<or> (\<exists>p. parent_get parents c = Some p \<and> (p, a) \<in> (up parents)\<^sup>*)"
  then show "(c, a) \<in> (up parents)\<^sup>*"
    using converse_rtrancl_into_rtrancl [of c _ "up parents" a] by auto
qed

text \<open>Without cycles the guard of the walk never fires.\<close>

lemma set_climb:
  "ranked parents r \<Longrightarrow> \<forall>s\<in>set seen. \<forall>c. cursor = Some c \<longrightarrow> r c < r s \<Longrightarrow>
    set (climb parents seen cursor) = {a. \<exists>c. cursor = Some c \<and> (c, a) \<in> (up parents)\<^sup>*}"
proof (induction parents seen cursor rule: climb.induct)
  case (2 parents seen c)
  have c: "c \<notin> set seen" using "2.prems"(2) by blast
  have "\<forall>s\<in>set (c # seen). \<forall>p. parent_get parents c = Some p \<longrightarrow> r p < r s"
  proof (intro ballI allI impI)
    fix s p
    assume s: "s \<in> set (c # seen)" and p: "parent_get parents c = Some p"
    have "r p < r c" using "2.prems"(1) p by (simp add: ranked_def)
    moreover have "r c \<le> r s" using s "2.prems"(2) by (auto intro: less_imp_le)
    ultimately show "r p < r s" by simp
  qed
  from "2.IH" [OF c "2.prems"(1) this] c show ?case
    by (auto simp: up_rtrancl_step [of c])
qed simp

lemma climb_ancestors:
  assumes "ranked parents r"
  shows "set (climb parents [v] (parent_get parents v)) = {a. (v, a) \<in> (up parents)\<^sup>+}"
proof -
  have "set (climb parents [v] (parent_get parents v)) =
      {a. \<exists>c. parent_get parents v = Some c \<and> (c, a) \<in> (up parents)\<^sup>*}"
    using assms by (intro set_climb [OF assms]) (auto simp: ranked_def)
  also have "\<dots> = {a. (v, a) \<in> (up parents)\<^sup>+}"
    using rtrancl_into_trancl2 [of v _ "up parents"] by (auto dest: tranclD)
  finally show ?thesis .
qed

section \<open>Descendants\<close>

definition down :: "(string \<times> cascader_node list) list \<Rightarrow> (string \<times> string) set" where
  "down childrenOf = {(p, cn_value c) | p c. c \<in> set (children_get childrenOf p)}"

abbreviation vals :: "cascader_node list \<Rightarrow> string set" where
  "vals ns \<equiv> cn_value ` set ns"

text \<open>The walk leaves no child behind: what it has seen, with what it returns, is closed under children.\<close>

lemma subtree_walk_closed:
  assumes "\<forall>s\<in>set seen. vals (children_get ch s) \<subseteq> set seen \<union> vals stack"
  shows "(\<forall>s\<in>set seen \<union> vals (subtree_walk ch seen stack).
      vals (children_get ch s) \<subseteq> set seen \<union> vals (subtree_walk ch seen stack)) \<and>
    vals stack \<subseteq> set seen \<union> vals (subtree_walk ch seen stack)"
  using assms
proof (induction ch seen stack rule: subtree_walk.induct)
  case (2 ch seen n stack)
  show ?case
  proof (cases "cn_value n \<in> set seen")
    case True
    then have "set seen \<union> vals (n # stack) = set seen \<union> vals stack" by auto
    then have "\<forall>s\<in>set seen. vals (children_get ch s) \<subseteq> set seen \<union> vals stack" using "2.prems" by simp
    with "2.IH"(1) [OF True] True show ?thesis by simp
  next
    case False
    let ?seen = "cn_value n # seen" and ?stack = "children_get ch (cn_value n) @ stack"
    have "\<forall>s\<in>set ?seen. vals (children_get ch s) \<subseteq> set ?seen \<union> vals ?stack"
      using "2.prems" by auto
    with "2.IH"(2) [OF False] False show ?thesis by auto
  qed
qed auto

lemma subtree_walk_sound:
  "x \<in> set (subtree_walk ch seen stack) \<Longrightarrow> \<exists>y\<in>set stack. (cn_value y, cn_value x) \<in> (down ch)\<^sup>*"
proof (induction ch seen stack rule: subtree_walk.induct)
  case (2 ch seen n stack)
  show ?case
  proof (cases "cn_value n \<in> set seen")
    case True
    with 2 show ?thesis by auto
  next
    case False
    show ?thesis
    proof (cases "x = n")
      case True
      then show ?thesis by auto
    next
      case xn: False
      then obtain y where y: "y \<in> set (children_get ch (cn_value n) @ stack)" "(cn_value y, cn_value x) \<in> (down ch)\<^sup>*"
        using 2 False by auto
      show ?thesis
      proof (cases "y \<in> set stack")
        case False
        then have "(cn_value n, cn_value y) \<in> down ch" using y(1) by (auto simp: down_def)
        with y(2) show ?thesis by (auto intro: converse_rtrancl_into_rtrancl)
      qed (use y in auto)
    qed
  qed
qed simp

lemma subtree_walk_nodes:
  "x \<in> set (subtree_walk ch seen stack) \<Longrightarrow> x \<in> set stack \<or> (\<exists>p. x \<in> set (children_get ch p))"
  by (induction ch seen stack rule: subtree_walk.induct) (auto split: if_splits)

lemma down_closed_rtrancl:
  assumes "\<forall>s\<in>S. vals (children_get ch s) \<subseteq> S" "a \<in> S" "(a, b) \<in> (down ch)\<^sup>*"
  shows "b \<in> S"
  using assms(3,2)
proof (induction rule: rtrancl_induct)
  case (step y z)
  then have "z \<in> vals (children_get ch y)" by (auto simp: down_def)
  with step assms(1) show ?case by blast
qed simp

lemma collect_values:
  assumes "map_of (ix_byValue ix) v = Some n" "cn_value n = v"
  shows "vals (collectCascaderSubtree ix v) = {d. (v, d) \<in> (down (ix_childrenOf ix))\<^sup>*}"
proof -
  let ?out = "subtree_walk (ix_childrenOf ix) [] [n]"
  have c: "(\<forall>s\<in>vals ?out. vals (children_at ix s) \<subseteq> vals ?out) \<and> vals [n] \<subseteq> vals ?out"
    using subtree_walk_closed [of "[]" "ix_childrenOf ix" "[n]"] by (simp del: subtree_walk.simps)
  then have "{d. (v, d) \<in> (down (ix_childrenOf ix))\<^sup>*} \<subseteq> vals ?out"
    using down_closed_rtrancl [of "vals ?out" "ix_childrenOf ix" v] assms(2)
    by (auto simp del: subtree_walk.simps)
  moreover have eq: "collectCascaderSubtree ix v = ?out"
    using assms(1) by (simp add: collectCascaderSubtree_def)
  moreover have "vals ?out \<subseteq> {d. (v, d) \<in> (down (ix_childrenOf ix))\<^sup>*}"
    using subtree_walk_sound [of _ "ix_childrenOf ix" "[]" "[n]"] assms(2)
    by (auto simp del: subtree_walk.simps)
  ultimately show ?thesis unfolding eq by (intro subset_antisym)
qed

lemma collect_nodes:
  assumes "maps_agree ix" "x \<in> set (collectCascaderSubtree ix v)"
  shows "node_at ix (cn_value x) = Some x"
proof -
  obtain n where n: "node_at ix v = Some n" "x \<in> set (subtree_walk (ix_childrenOf ix) [] [n])"
    using assms(2) by (cases "node_at ix v") (auto simp: collectCascaderSubtree_def simp del: subtree_walk.simps)
  from subtree_walk_nodes [OF n(2)] have "x = n \<or> (\<exists>p. x \<in> set (children_at ix p))" by auto
  with n(1) assms(1) show ?thesis unfolding maps_agree_def by metis
qed

text \<open>Under the invariant the two walks are converse to each other.\<close>

lemma down_up:
  assumes "maps_agree ix" "p \<noteq> CASCADER_ROOT_KEY"
  shows "(p, c) \<in> down (ix_childrenOf ix) \<longleftrightarrow> (c, p) \<in> up (ix_parentOf ix)"
proof
  assume "(p, c) \<in> down (ix_childrenOf ix)"
  with child_parent [OF assms(1) _ assms(2)] show "(c, p) \<in> up (ix_parentOf ix)"
    by (auto simp: down_def)
next
  assume "(c, p) \<in> up (ix_parentOf ix)"
  then have "parent_at ix c = Some p" by simp
  from parent_child [OF assms(1) this] obtain n where "n \<in> set (children_at ix p)" "cn_value n = c" by metis
  then show "(p, c) \<in> down (ix_childrenOf ix)" by (auto simp: down_def)
qed

lemma down_up_rtrancl:
  assumes "maps_agree ix" "v \<noteq> CASCADER_ROOT_KEY"
  shows "(v, d) \<in> (down (ix_childrenOf ix))\<^sup>* \<longleftrightarrow> (d, v) \<in> (up (ix_parentOf ix))\<^sup>*"
proof
  assume "(v, d) \<in> (down (ix_childrenOf ix))\<^sup>*"
  then have "(d, v) \<in> (up (ix_parentOf ix))\<^sup>* \<and> d \<noteq> CASCADER_ROOT_KEY"
  proof (induction rule: rtrancl_induct)
    case (step y z)
    then have "(z, y) \<in> up (ix_parentOf ix)" using down_up [OF assms(1), of y z] by blast
    moreover have "z \<noteq> CASCADER_ROOT_KEY"
    proof -
      obtain c where "c \<in> set (children_at ix y)" "z = cn_value c" using step(2) by (auto simp: down_def)
      then have "node_at ix z \<noteq> None" using assms(1) unfolding maps_agree_def by (metis option.distinct(1))
      with assms(1) show ?thesis unfolding maps_agree_def by metis
    qed
    ultimately show ?case using step.IH converse_rtrancl_into_rtrancl [of z y] by blast
  qed (use assms(2) in simp)
  then show "(d, v) \<in> (up (ix_parentOf ix))\<^sup>*" by simp
next
  assume "(d, v) \<in> (up (ix_parentOf ix))\<^sup>*"
  then show "(v, d) \<in> (down (ix_childrenOf ix))\<^sup>*"
  proof (induction rule: converse_rtrancl_induct)
    case (step y z)
    have "parent_at ix y = Some z" using step(1) by simp
    from parent_child [OF assms(1) this] have "z \<noteq> CASCADER_ROOT_KEY" by blast
    from down_up [OF assms(1) this, of y] step(1) have "(z, y) \<in> down (ix_childrenOf ix)" by blast
    with step.IH show ?case by (rule rtrancl_into_rtrancl)
  qed simp
qed

end
