(* ===== verification/Cascader_Build.thy ===== *)
theory Cascader_Build
  imports Cascader_Tree
begin

text \<open>
  The index built from nested nodes satisfies the invariant of \<open>Cascader_Tree\<close>, for any nesting with
  repeated values and null entries, as long as no value is the reserved root key.
\<close>

section \<open>Entering a node\<close>

fun item_values :: "cascader_node option list \<Rightarrow> string set" where
  "item_values [] = {}"
| "item_values (None # ns) = item_values ns"
| "item_values (Some (CNode v pr ch) # ns) = insert v (item_values ch \<union> item_values ns)"

lemma children_get_push:
  "children_get (push k n ch) k' = (if k' = k then children_get ch k @ [n] else children_get ch k')"
  by (auto simp: push_def children_get_def update_conv split: option.splits)

text \<open>The invariant while the index is being built, and what is known of the parent whose level is walked.\<close>

definition building :: "cascader_index \<Rightarrow> bool" where
  "building ix \<longleftrightarrow> maps_agree ix \<and>
     (\<forall>v. node_at ix v = None \<longleftrightarrow> map_of (ix_parentOf ix) v = None) \<and>
     (\<forall>v. node_at ix v = None \<longleftrightarrow> map_of (ix_depthOf ix) v = None) \<and>
     (\<forall>v p. parent_at ix v = Some p \<longrightarrow>
        (\<exists>d. map_of (ix_depthOf ix) p = Some d \<and> map_of (ix_depthOf ix) v = Some (Suc d))) \<and>
     map_of (ix_byValue ix) = map_of (map (\<lambda>n. (cn_value n, n)) (ix_all ix)) \<and> distinct (map cn_value (ix_all ix))"

definition level_ok :: "string option \<Rightarrow> nat \<Rightarrow> cascader_index \<Rightarrow> bool" where
  "level_ok parent depth ix \<longleftrightarrow>
     (case parent of None \<Rightarrow> depth = 0 | Some p \<Rightarrow> \<exists>d. depth = Suc d \<and> map_of (ix_depthOf ix) p = Some d)"

definition grows :: "cascader_index \<Rightarrow> cascader_index \<Rightarrow> bool" where
  "grows ix ix' \<longleftrightarrow> (\<forall>v d. map_of (ix_depthOf ix) v = Some d \<longrightarrow> map_of (ix_depthOf ix') v = Some d)"

lemma grows_refl [simp]: "grows ix ix"
  by (simp add: grows_def)

lemma grows_trans: "grows a b \<Longrightarrow> grows b c \<Longrightarrow> grows a c"
  by (simp add: grows_def)

lemma level_ok_grows: "level_ok parent depth ix \<Longrightarrow> grows ix ix' \<Longrightarrow> level_ok parent depth ix'"
  by (auto simp: level_ok_def grows_def split: option.splits)

lemma map_of_snoc: "map_of (xs @ [(k, v)]) x = (case map_of xs x of Some y \<Rightarrow> Some y | None \<Rightarrow> if x = k then Some v else None)"
  by (induction xs) (auto split: option.splits)

lemma building_known:
  assumes "building ix"
  shows "node_at ix v = None \<longleftrightarrow> map_of (ix_parentOf ix) v = None"
    and "node_at ix v = None \<longleftrightarrow> map_of (ix_depthOf ix) v = None"
  using assms unfolding building_def by metis+

lemma building_parent_known:
  assumes "building ix" "level_ok (Some p) depth ix"
  shows "node_at ix p \<noteq> None" "p \<noteq> CASCADER_ROOT_KEY"
proof -
  have d: "map_of (ix_depthOf ix) p \<noteq> None" using assms(2) by (auto simp: level_ok_def)
  then show known: "node_at ix p \<noteq> None" by (metis building_known(2) [OF assms(1)])
  have "node_at ix CASCADER_ROOT_KEY = None" using assms(1) unfolding building_def maps_agree_def by metis
  with known show "p \<noteq> CASCADER_ROOT_KEY" by metis
qed

lemma enter_maps_agree:
  assumes "building ix" "level_ok parent depth ix" "node_at ix (cn_value n) = None" "cn_value n \<noteq> CASCADER_ROOT_KEY"
  shows "maps_agree (enter_node parent depth n ix)"
proof -
  let ?ix = "enter_node parent depth n ix" and ?v = "cn_value n" and ?k = "root_or parent"
  have agree: "maps_agree ix" and par: "map_of (ix_parentOf ix) ?v = None"
    using assms(1,3) by (auto simp: building_def)
  have nodes: "node_at ?ix x = (if x = ?v then Some n else node_at ix x)" for x
    using assms(3) by (auto simp: enter_node_def map_of_snoc simp del: map_of_append split: option.splits)
  have parents: "map_of (ix_parentOf ?ix) x = (if x = ?v then Some parent else map_of (ix_parentOf ix) x)" for x
    using par by (auto simp: enter_node_def map_of_snoc simp del: map_of_append split: option.splits)
  have kids: "children_at ?ix x = (if x = ?k then children_at ix ?k @ [n] else children_at ix x)" for x
    by (simp add: enter_node_def children_get_push)
  have key: "(if ?k = CASCADER_ROOT_KEY then None else Some ?k) = parent"
    using building_parent_known [OF assms(1)] assms(2) by (cases parent) (auto simp: root_or_def)
  have old: "\<forall>k c. c \<in> set (children_at ix k) \<longrightarrow> node_at ix (cn_value c) = Some c \<and>
        map_of (ix_parentOf ix) (cn_value c) = Some (if k = CASCADER_ROOT_KEY then None else Some k)"
    using agree by (simp add: maps_agree_def)
  have 1: "\<forall>x m. node_at ?ix x = Some m \<longrightarrow> cn_value m = x"
    using agree by (auto simp: nodes maps_agree_def)
  have 2: "node_at ?ix CASCADER_ROOT_KEY = None"
    using agree assms(4) by (auto simp: nodes maps_agree_def)
  have 3: "node_at ?ix (cn_value c) = Some c \<and>
        map_of (ix_parentOf ?ix) (cn_value c) = Some (if k = CASCADER_ROOT_KEY then None else Some k)"
    if "c \<in> set (children_at ?ix k)" for k c
  proof (cases "c \<in> set (children_at ix k)")
    case True
    with old have "node_at ix (cn_value c) = Some c \<and>
        map_of (ix_parentOf ix) (cn_value c) = Some (if k = CASCADER_ROOT_KEY then None else Some k)" by blast
    moreover from this have "cn_value c \<noteq> ?v" using assms(3) by auto
    ultimately show ?thesis by (simp add: nodes parents)
  next
    case False
    with that have "k = ?k" "c = n" by (auto simp: kids split: if_splits)
    with nodes [of ?v] parents [of ?v] show ?thesis by (simp only: key) simp
  qed
  have 4: "(\<exists>m. node_at ?ix x = Some m \<and> m \<in> set (children_at ?ix (root_or q))) \<and>
        (\<forall>p. q = Some p \<longrightarrow> node_at ?ix p \<noteq> None)"
    if q: "map_of (ix_parentOf ?ix) x = Some q" for x q
  proof (cases "x = ?v")
    case True
    with q have qp: "q = parent" by (simp add: parents)
    have "node_at ?ix p \<noteq> None" if "q = Some p" for p
      using building_parent_known(1) [OF assms(1)] assms(2) that qp nodes [of p] by auto
    moreover have "node_at ?ix x = Some n" using nodes [of x] True by simp
    moreover have "n \<in> set (children_at ?ix (root_or q))" using kids [of ?k] qp by simp
    ultimately show ?thesis by blast
  next
    case False
    with q have "map_of (ix_parentOf ix) x = Some q" by (simp add: parents)
    with agree have "(\<exists>m. node_at ix x = Some m \<and> m \<in> set (children_at ix (root_or q))) \<and>
        (\<forall>p. q = Some p \<longrightarrow> node_at ix p \<noteq> None)" by (simp add: maps_agree_def)
    with False show ?thesis by (auto simp: nodes kids)
  qed
  from 1 2 3 4 show ?thesis unfolding maps_agree_def by blast
qed

lemma enter_building:
  assumes "building ix" "level_ok parent depth ix" "node_at ix (cn_value n) = None" "cn_value n \<noteq> CASCADER_ROOT_KEY"
  shows "building (enter_node parent depth n ix)" and "grows ix (enter_node parent depth n ix)"
    and "map_of (ix_depthOf (enter_node parent depth n ix)) (cn_value n) = Some depth"
proof -
  let ?ix = "enter_node parent depth n ix" and ?v = "cn_value n"
  have none: "map_of (ix_parentOf ix) ?v = None" "map_of (ix_depthOf ix) ?v = None"
    using assms(3) building_known [OF assms(1)] by simp_all
  have nodes: "node_at ?ix x = (if x = ?v then Some n else node_at ix x)" for x
    using assms(3) by (auto simp: enter_node_def map_of_snoc simp del: map_of_append split: option.splits)
  have parents: "map_of (ix_parentOf ?ix) x = (if x = ?v then Some parent else map_of (ix_parentOf ix) x)" for x
    using none(1) by (auto simp: enter_node_def map_of_snoc simp del: map_of_append split: option.splits)
  have depths: "map_of (ix_depthOf ?ix) x = (if x = ?v then Some depth else map_of (ix_depthOf ix) x)" for x
    using none(2) by (auto simp: enter_node_def map_of_snoc simp del: map_of_append split: option.splits)
  show grow: "grows ix ?ix" using none by (auto simp: grows_def depths)
  show "map_of (ix_depthOf ?ix) ?v = Some depth" by (simp add: depths)
  have "\<exists>d. map_of (ix_depthOf ?ix) p = Some d \<and> map_of (ix_depthOf ?ix) x = Some (Suc d)"
    if "parent_at ?ix x = Some p" for x p
  proof (cases "x = ?v")
    case True
    with that have "parent = Some p" by (simp add: parent_get_def parents)
    with assms(2) obtain d where d: "depth = Suc d" "map_of (ix_depthOf ix) p = Some d" by (auto simp: level_ok_def)
    moreover have "p \<noteq> ?v" using d(2) none(2) by auto
    ultimately have "map_of (ix_depthOf ?ix) p = Some d" "map_of (ix_depthOf ?ix) x = Some (Suc d)"
      using depths [of p] depths [of x] True by simp_all
    then show ?thesis by blast
  next
    case False
    with that have "parent_at ix x = Some p" by (simp add: parent_get_def parents)
    with assms(1) obtain d where "map_of (ix_depthOf ix) p = Some d" "map_of (ix_depthOf ix) x = Some (Suc d)"
      unfolding building_def by blast
    with grow show ?thesis by (auto simp: grows_def)
  qed
  moreover have "map_of (ix_byValue ?ix) = map_of (map (\<lambda>n. (cn_value n, n)) (ix_all ?ix))"
  proof
    fix x
    have "map_of (map (\<lambda>n. (cn_value n, n)) (ix_all ?ix)) x =
        (case map_of (map (\<lambda>n. (cn_value n, n)) (ix_all ix)) x of Some y \<Rightarrow> Some y
         | None \<Rightarrow> if x = ?v then Some n else None)"
      by (simp add: enter_node_def map_of_snoc del: map_of_append)
    moreover have "map_of (map (\<lambda>n. (cn_value n, n)) (ix_all ix)) = map_of (ix_byValue ix)"
      using assms(1) by (simp add: building_def)
    ultimately show "map_of (ix_byValue ?ix) x = map_of (map (\<lambda>n. (cn_value n, n)) (ix_all ?ix)) x"
      using assms(3) by (auto simp: nodes split: option.splits)
  qed
  moreover have "distinct (map cn_value (ix_all ?ix))"
  proof -
    have "map_of (map (\<lambda>n. (cn_value n, n)) (ix_all ix)) ?v = None" and d: "distinct (map cn_value (ix_all ix))"
      using assms(1,3) by (simp_all add: building_def)
    then have "?v \<notin> cn_value ` set (ix_all ix)" by (auto simp: map_of_eq_None_iff image_image)
    with d show ?thesis by (auto simp: enter_node_def)
  qed
  moreover have "\<forall>x. node_at ?ix x = None \<longleftrightarrow> map_of (ix_parentOf ?ix) x = None"
    using building_known(1) [OF assms(1)] nodes parents by simp
  moreover have "\<forall>x. node_at ?ix x = None \<longleftrightarrow> map_of (ix_depthOf ?ix) x = None"
    using building_known(2) [OF assms(1)] nodes depths by simp
  ultimately show "building ?ix"
    using enter_maps_agree [OF assms] unfolding building_def by blast
qed

section \<open>The walk\<close>

lemma nested_walk_building:
  assumes "building ix" "level_ok parent depth ix" "CASCADER_ROOT_KEY \<notin> item_values ns"
  shows "building (nested_walk parent depth ns ix) \<and> grows ix (nested_walk parent depth ns ix)"
  using assms
proof (induction parent depth ns ix rule: nested_walk.induct)
  case (3 parent depth v pr ch ns ix)
  have root: "v \<noteq> CASCADER_ROOT_KEY" "CASCADER_ROOT_KEY \<notin> item_values ch" "CASCADER_ROOT_KEY \<notin> item_values ns"
    using "3.prems"(3) by auto
  show ?case
  proof (cases "node_at ix v = None")
    case False
    with "3.IH"(1) [OF False "3.prems"(1,2) root(3)] show ?thesis by simp
  next
    case True
    let ?n = "CNode v pr ch"
    let ?ix = "enter_node parent depth ?n ix"
    have e: "building ?ix" "grows ix ?ix" "map_of (ix_depthOf ?ix) v = Some depth"
      using enter_building [OF "3.prems"(1,2), of ?n] True root(1) by auto
    define ix2 where "ix2 = (if ch = [] then ?ix else nested_walk (Some v) (depth + 1) ch ?ix)"
    have i2: "building ix2 \<and> grows ?ix ix2"
    proof (cases "ch = []")
      case False
      have "level_ok (Some v) (depth + 1) ?ix" using e(3) by (simp add: level_ok_def)
      with "3.IH"(2) [of ?ix] False True e(1) root(2) show ?thesis by (simp add: ix2_def)
    qed (use e in \<open>simp add: ix2_def\<close>)
    have "level_ok parent depth ix2"
      using "3.prems"(2) level_ok_grows grows_trans [OF e(2)] i2 by blast
    then have "building (nested_walk parent depth ns ix2) \<and> grows ix2 (nested_walk parent depth ns ix2)"
      using "3.IH"(3) [of ?ix] True i2 root(3) unfolding ix2_def by simp
    moreover have "nested_walk parent depth (Some ?n # ns) ix = nested_walk parent depth ns ix2"
      using True by (simp add: ix2_def Let_def)
    ultimately show ?thesis using grows_trans e(2) i2 by metis
  qed
qed simp_all

lemma building_empty: "building empty_index"
  by (simp add: building_def empty_index_def maps_agree_def children_get_def parent_get_def)

lemma building_tree: "building ix \<Longrightarrow> tree_index ix"
proof -
  assume b: "building ix"
  have "ranked (ix_parentOf ix) (\<lambda>v. case map_of (ix_depthOf ix) v of None \<Rightarrow> 0 | Some d \<Rightarrow> d)"
    unfolding ranked_def using b by (fastforce simp: building_def)
  with b show ?thesis unfolding tree_index_def building_def by blast
qed

lemma building_roots: "building (ix\<lparr>ix_roots := rs\<rparr>) = building ix"
  by (simp add: building_def maps_agree_def)

lemma build_nested_building: "CASCADER_ROOT_KEY \<notin> item_values items \<Longrightarrow> building (build_nested items)"
  using nested_walk_building [OF building_empty, of None 0 items]
  by (simp add: build_nested_def level_ok_def Let_def building_roots)

text \<open>The index built from nested nodes is a tree whatever the data holds: repeated values and null
  entries are dropped, every map speaks of the same nodes, a node is in the child list of its parent and
  of no other, no node is its own ancestor, and each node's depth is one more than its parent's.\<close>

theorem nested_index_is_tree:
  assumes "CASCADER_ROOT_KEY \<notin> item_values items"
  shows "tree_index (buildCascaderIndex (Some items) None) \<and>
    distinct (map cn_value (ix_all (buildCascaderIndex (Some items) None))) \<and>
    (\<forall>v p. parent_at (buildCascaderIndex (Some items) None) v = Some p \<longrightarrow>
       (\<exists>d. map_of (ix_depthOf (buildCascaderIndex (Some items) None)) p = Some d \<and>
            map_of (ix_depthOf (buildCascaderIndex (Some items) None)) v = Some (Suc d)))"
  using build_nested_building [OF assms] building_tree [OF build_nested_building [OF assms]]
  by (auto simp: buildCascaderIndex_def building_def)

definition plain_node :: "string \<Rightarrow> cascader_node option list \<Rightarrow> cascader_node" where
  "plain_node v ch = CNode v \<lparr>cn_label = v, cn_has_children = False, cn_count = None, cn_disabled = False,
     cn_keywords = []\<rparr> ch"

definition sample_items :: "cascader_node option list" where
  "sample_items = [Some (plain_node ''eu'' [Some (plain_node ''fr'' []), None, Some (plain_node ''de'' []),
     Some (plain_node ''fr'' [])]), Some (plain_node ''us'' [])]"

lemma sample_items_ok: "CASCADER_ROOT_KEY \<notin> item_values sample_items"
  by (simp add: sample_items_def plain_node_def CASCADER_ROOT_KEY_def)

theorem nested_index_is_tree_witness:
  "tree_index (buildCascaderIndex (Some sample_items) None) \<and>
   map cn_value (ix_all (buildCascaderIndex (Some sample_items) None)) = [''eu'', ''fr'', ''de'', ''us'']"
proof -
  have "map cn_value (ix_all (buildCascaderIndex (Some sample_items) None)) = [''eu'', ''fr'', ''de'', ''us'']"
    by code_simp
  with nested_index_is_tree [OF sample_items_ok] show ?thesis by blast
qed

end
