(* ===== verification/Cascader_Props.thy ===== *)
theory Cascader_Props
  imports Cascader_Build
begin

text \<open>
  What a cascade selection promises: a parent is selected exactly when all its selectable children
  are.  Toggling any node keeps that, sets exactly the subtree, and leaves everything else alone.
  The counts and partial marks read off a selection speak of exactly the selected descendants.
\<close>

section \<open>The contract\<close>

definition sel_at :: "cascader_index \<Rightarrow> (cascader_node \<Rightarrow> bool) \<Rightarrow> string \<Rightarrow> bool" where
  "sel_at ix f v = (case node_at ix v of None \<Rightarrow> False | Some n \<Rightarrow> f n)"

definition sel_children :: "cascader_index \<Rightarrow> (cascader_node \<Rightarrow> bool) \<Rightarrow> string \<Rightarrow> cascader_node list" where
  "sel_children ix f v = filter f (children_at ix v)"

definition cascade_closed :: "cascader_index \<Rightarrow> (cascader_node \<Rightarrow> bool) \<Rightarrow> string set \<Rightarrow> bool" where
  "cascade_closed ix f S \<longleftrightarrow>
     (\<forall>v. sel_at ix f v \<and> sel_children ix f v \<noteq> [] \<longrightarrow> (v \<in> S \<longleftrightarrow> vals (sel_children ix f v) \<subseteq> S))"

definition full :: "cascader_index \<Rightarrow> (cascader_node \<Rightarrow> bool) \<Rightarrow> string set \<Rightarrow> string \<Rightarrow> bool" where
  "full ix f S v \<longleftrightarrow> sel_children ix f v \<noteq> [] \<and> vals (sel_children ix f v) \<subseteq> S \<and> sel_at ix f v"

definition descendants :: "cascader_index \<Rightarrow> string \<Rightarrow> string set" where
  "descendants ix v = {d. (d, v) \<in> (up (ix_parentOf ix))\<^sup>*}"

definition ancestors :: "cascader_index \<Rightarrow> string \<Rightarrow> string set" where
  "ancestors ix v = {a. (v, a) \<in> (up (ix_parentOf ix))\<^sup>+}"

section \<open>Toggling\<close>

lemma set_set_add [simp]: "set (set_add v xs) = insert v (set xs)"
  by (auto simp: set_add_def)

lemma set_set_put: "set (set_put select v xs) = (if select then insert v (set xs) else set xs - {v})"
  by (auto simp: set_put_def)

lemma set_fold_add: "set (fold set_add xs ys) = set xs \<union> set ys"
  by (induction xs arbitrary: ys) auto

lemma set_reconcile:
  "set (reconcile ix f c xs) = (if full ix f (set xs) c then insert c (set xs) else set xs - {c})"
proof -
  have "(filter f (children_at ix c) \<noteq> [] \<and> list_all (\<lambda>ch. cn_value ch \<in> set xs) (filter f (children_at ix c)) \<and>
      (case node_at ix c of None \<Rightarrow> False | Some parent \<Rightarrow> f parent)) \<longleftrightarrow> full ix f (set xs) c"
    by (auto simp: full_def sel_children_def sel_at_def list_all_iff image_subset_iff)
  then show ?thesis by (simp only: reconcile_def Let_def set_set_put)
qed

lemma set_toggle_fold:
  "set (fold (\<lambda>n s. if cn_value n \<noteq> v \<and> \<not> f n then s else set_put select (cn_value n) s) ns start) =
   (if select then set start \<union> cn_value ` {n \<in> set ns. cn_value n = v \<or> f n}
    else set start - cn_value ` {n \<in> set ns. cn_value n = v \<or> f n})"
proof (induction ns arbitrary: start)
  case (Cons n ns)
  have "{m \<in> set (n # ns). cn_value m = v \<or> f m} =
      (if cn_value n \<noteq> v \<and> \<not> f n then {} else {n}) \<union> {m \<in> set ns. cn_value m = v \<or> f m}" by auto
  then show ?case by (auto simp: Cons.IH set_set_put)
qed auto

lemma toggled_values:
  assumes "tree_index ix" "node_at ix v \<noteq> None"
  shows "cn_value ` {n \<in> set (collectCascaderSubtree ix v). cn_value n = v \<or> f n} =
    {d \<in> descendants ix v. d = v \<or> sel_at ix f d}"
proof -
  have agree: "maps_agree ix" using assms(1) by (simp add: tree_index_def)
  obtain n where n: "node_at ix v = Some n" using assms(2) by auto
  have v: "cn_value n = v" "v \<noteq> CASCADER_ROOT_KEY" using agree n unfolding maps_agree_def by auto
  have vals: "vals (collectCascaderSubtree ix v) = descendants ix v"
    using collect_values [OF n v(1)] down_up_rtrancl [OF agree v(2)] by (simp add: descendants_def)
  have at: "node_at ix (cn_value x) = Some x" if "x \<in> set (collectCascaderSubtree ix v)" for x
    using collect_nodes [OF agree that] .
  have "sel_at ix f (cn_value x) = f x" if "x \<in> set (collectCascaderSubtree ix v)" for x
    using at [OF that] by (simp add: sel_at_def)
  then show ?thesis unfolding vals [symmetric] by auto
qed

section \<open>Reconciling the ancestors\<close>

fun bottom_up :: "cascader_index \<Rightarrow> string list \<Rightarrow> bool" where
  "bottom_up ix [] = True"
| "bottom_up ix (c # cs) \<longleftrightarrow> c \<notin> set cs \<and> vals (children_at ix c) \<inter> set (c # cs) = {} \<and> bottom_up ix cs"

lemma fold_reconcile_off: "x \<notin> set cs \<Longrightarrow> x \<in> set (fold (reconcile ix f) cs xs) \<longleftrightarrow> x \<in> set xs"
  by (induction cs arbitrary: xs) (auto simp: set_reconcile)

lemma fold_reconcile_on:
  "bottom_up ix cs \<Longrightarrow> a \<in> set cs \<Longrightarrow>
    a \<in> set (fold (reconcile ix f) cs xs) \<longleftrightarrow> full ix f (set (fold (reconcile ix f) cs xs)) a"
proof (induction cs arbitrary: xs)
  case (Cons c cs)
  show ?case
  proof (cases "a = c")
    case False
    with Cons show ?thesis by simp
  next
    case True
    let ?F = "set (fold (reconcile ix f) (c # cs) xs)"
    have "c \<in> ?F \<longleftrightarrow> full ix f (set xs) c"
      using Cons.prems(1) by (simp add: fold_reconcile_off set_reconcile)
    moreover have "y \<in> ?F \<longleftrightarrow> y \<in> set xs" if "y \<in> vals (sel_children ix f c)" for y
    proof -
      have "y \<notin> set (c # cs)" using Cons.prems(1) that by (auto simp: sel_children_def)
      then show ?thesis by (rule fold_reconcile_off)
    qed
    then have "full ix f ?F c \<longleftrightarrow> full ix f (set xs) c" unfolding full_def by blast
    ultimately show ?thesis using True by simp
  qed
qed simp

lemma bottom_up_climb:
  assumes "maps_agree ix" "ranked (ix_parentOf ix) r"
  shows "\<forall>c. cursor = Some c \<longrightarrow> c \<noteq> CASCADER_ROOT_KEY \<Longrightarrow> \<forall>s\<in>set seen. \<forall>c. cursor = Some c \<longrightarrow> r c < r s \<Longrightarrow>
    bottom_up ix (climb (ix_parentOf ix) seen cursor)"
proof (induction "ix_parentOf ix" seen cursor rule: climb.induct)
  case (2 seen c)
  let ?p = "parent_at ix c" and ?rest = "climb (ix_parentOf ix) (c # seen) (parent_at ix c)"
  have c: "c \<notin> set seen" "c \<noteq> CASCADER_ROOT_KEY" using "2.prems" by blast+
  have seen: "\<forall>s\<in>set (c # seen). \<forall>p. ?p = Some p \<longrightarrow> r p < r s"
    using "2.prems"(2) assms(2) by (fastforce simp: ranked_def)
  have root: "\<forall>p. ?p = Some p \<longrightarrow> p \<noteq> CASCADER_ROOT_KEY"
    using parent_child [OF assms(1), of c] by blast
  have "set ?rest = {a. \<exists>p. ?p = Some p \<and> (p, a) \<in> (up (ix_parentOf ix))\<^sup>*}"
    by (rule set_climb [OF assms(2) seen])
  then have low: "r a < r c" if "a \<in> set ?rest" for a
    using that ranked_up_strict [OF rtrancl_into_trancl2 assms(2), of c] by auto
  have "r c < r (cn_value ch)" if "ch \<in> set (children_at ix c)" for ch
    using child_parent(1) [OF assms(1) that c(2)] assms(2) by (simp add: ranked_def)
  then have "vals (children_at ix c) \<inter> set (c # ?rest) = {}"
    using low by (fastforce dest: less_trans)
  moreover have "c \<notin> set ?rest" using low by blast
  ultimately show ?case using "2.hyps" [OF c(1) root seen] c(1) by simp
qed simp

lemma climb_all:
  assumes "tree_index ix"
  shows "set (climb (ix_parentOf ix) [v] (parent_at ix v)) = ancestors ix v"
    and "bottom_up ix (climb (ix_parentOf ix) [v] (parent_at ix v))"
proof -
  obtain r where r: "maps_agree ix" "ranked (ix_parentOf ix) r" using assms by (auto simp: tree_index_def)
  show "set (climb (ix_parentOf ix) [v] (parent_at ix v)) = ancestors ix v"
    using climb_ancestors [OF r(2)] by (simp add: ancestors_def)
  show "bottom_up ix (climb (ix_parentOf ix) [v] (parent_at ix v))"
    using r(2) parent_child [OF r(1), of v]
    by (intro bottom_up_climb [OF r]) (auto simp: ranked_def)
qed

lemma not_both:
  assumes "tree_index ix" "a \<in> ancestors ix v"
  shows "a \<notin> descendants ix v"
proof
  assume "a \<in> descendants ix v"
  then have "(a, a) \<in> (up (ix_parentOf ix))\<^sup>+"
    using assms(2) by (auto simp: ancestors_def descendants_def intro: rtrancl_trancl_trancl)
  moreover obtain r where "ranked (ix_parentOf ix) r" using assms(1) by (auto simp: tree_index_def)
  ultimately show False using ranked_up_strict by blast
qed

section \<open>A toggle keeps the contract\<close>

lemma apply_values:
  fixes f :: "cascader_node \<Rightarrow> bool" and selected :: "string list" and select :: bool
  assumes "tree_index ix" "node_at ix v \<noteq> None"
  defines "F \<equiv> set (applyCascadeSelection ix selected v select f)"
  shows "x \<notin> ancestors ix v \<Longrightarrow>
      x \<in> F \<longleftrightarrow> (if x \<in> descendants ix v \<and> (x = v \<or> sel_at ix f x) then select else x \<in> set selected)"
    and "x \<in> ancestors ix v \<Longrightarrow> x \<in> F \<longleftrightarrow> full ix f F x"
proof -
  let ?sub = "collectCascaderSubtree ix v" and ?start = "fold set_add selected []"
  let ?cs = "climb (ix_parentOf ix) [v] (parent_at ix v)"
  define toggled where "toggled = (if ?sub = [] then set_put select v ?start
      else fold (\<lambda>n s. if cn_value n \<noteq> v \<and> \<not> f n then s else set_put select (cn_value n) s) ?sub ?start)"
  have F: "F = set (fold (reconcile ix f) ?cs toggled)"
    unfolding F_def applyCascadeSelection_def toggled_def Let_def by (rule refl)
  have "v \<in> cn_value ` {n \<in> set ?sub. cn_value n = v \<or> f n}"
    unfolding toggled_values [OF assms(1,2)] by (simp add: descendants_def)
  then have "?sub \<noteq> []" by auto
  then have toggled: "set toggled = (if select then set selected \<union> {d \<in> descendants ix v. d = v \<or> sel_at ix f d}
      else set selected - {d \<in> descendants ix v. d = v \<or> sel_at ix f d})"
    unfolding toggled_def by (simp only: if_False set_toggle_fold toggled_values [OF assms(1,2)] set_fold_add) simp
  show "x \<in> F \<longleftrightarrow> (if x \<in> descendants ix v \<and> (x = v \<or> sel_at ix f x) then select else x \<in> set selected)"
    if "x \<notin> ancestors ix v"
    using that fold_reconcile_off [of x ?cs ix f toggled]
    unfolding F climb_all(1) [OF assms(1)] toggled by auto
  show "x \<in> F \<longleftrightarrow> full ix f F x" if "x \<in> ancestors ix v"
    using that fold_reconcile_on [OF climb_all(2) [OF assms(1)]]
    unfolding F climb_all(1) [OF assms(1)] by blast
qed

lemma sel_child:
  assumes "tree_index ix" "sel_at ix f w" "c \<in> set (sel_children ix f w)"
  shows "parent_at ix (cn_value c) = Some w" "sel_at ix f (cn_value c)"
proof -
  have agree: "maps_agree ix" using assms(1) by (simp add: tree_index_def)
  have "w \<noteq> CASCADER_ROOT_KEY"
    using agree assms(2) by (auto simp: sel_at_def maps_agree_def split: option.splits)
  moreover have c: "c \<in> set (children_at ix w)" "f c" using assms(3) by (auto simp: sel_children_def)
  ultimately show "parent_at ix (cn_value c) = Some w" "sel_at ix f (cn_value c)"
    using child_parent [OF agree] by (simp_all add: sel_at_def)
qed

lemma parent_relations:
  assumes "parent_at ix c = Some w"
  shows "c \<in> ancestors ix v \<Longrightarrow> w \<in> ancestors ix v"
    and "w \<in> descendants ix v \<Longrightarrow> c \<in> descendants ix v"
    and "c \<in> descendants ix v \<Longrightarrow> w \<in> descendants ix v \<or> w \<in> ancestors ix v"
proof -
  show "w \<in> ancestors ix v" if "c \<in> ancestors ix v"
    using that assms by (auto simp: ancestors_def intro: trancl_into_trancl)
  show "c \<in> descendants ix v" if "w \<in> descendants ix v"
    using that assms by (auto simp: descendants_def intro: converse_rtrancl_into_rtrancl)
  show "w \<in> descendants ix v \<or> w \<in> ancestors ix v" if "c \<in> descendants ix v"
    using that assms up_rtrancl_step [of c v "ix_parentOf ix"]
    by (auto simp: descendants_def ancestors_def)
qed

lemma apply_closed_at:
  assumes "tree_index ix" "node_at ix v \<noteq> None" "cascade_closed ix f (set selected)"
    and w: "sel_at ix f w" "sel_children ix f w \<noteq> []"
  shows "w \<in> set (applyCascadeSelection ix selected v select f) \<longleftrightarrow>
    vals (sel_children ix f w) \<subseteq> set (applyCascadeSelection ix selected v select f)"
proof -
  let ?F = "set (applyCascadeSelection ix selected v select f)"
  note off = apply_values(1) [OF assms(1,2), where selected = selected and select = select and f = f]
  note on = apply_values(2) [OF assms(1,2), where selected = selected and select = select and f = f]
  note child = sel_child [OF assms(1) w(1)]
  consider "w \<in> ancestors ix v" | "w \<in> descendants ix v" "w \<notin> ancestors ix v"
    | "w \<notin> descendants ix v" "w \<notin> ancestors ix v" by blast
  then show ?thesis
  proof cases
    case 1
    with on w show ?thesis by (auto simp: full_def)
  next
    case 2
    have "cn_value c \<in> ?F \<longleftrightarrow> select" if c: "c \<in> set (sel_children ix f w)" for c
    proof -
      have d: "cn_value c \<in> descendants ix v" using parent_relations(2) [OF child(1) [OF c]] 2(1) by blast
      then have "cn_value c \<notin> ancestors ix v" using not_both [OF assms(1)] by blast
      with off d child(2) [OF c] show ?thesis by simp
    qed
    moreover have "w \<in> ?F \<longleftrightarrow> select" using off 2 w(1) by simp
    ultimately show ?thesis using w(2) by (cases "sel_children ix f w") auto
  next
    case 3
    have "cn_value c \<in> ?F \<longleftrightarrow> cn_value c \<in> set selected" if c: "c \<in> set (sel_children ix f w)" for c
    proof -
      have "cn_value c \<notin> descendants ix v" "cn_value c \<notin> ancestors ix v"
        using parent_relations(1,3) [OF child(1) [OF c]] 3 by blast+
      with off show ?thesis by simp
    qed
    moreover have "w \<in> ?F \<longleftrightarrow> w \<in> set selected" using off 3 by simp
    moreover have "w \<in> set selected \<longleftrightarrow> vals (sel_children ix f w) \<subseteq> set selected"
      using assms(3) w by (auto simp: cascade_closed_def)
    ultimately show ?thesis by (auto simp: image_subset_iff)
  qed
qed

text \<open>C19: Toggling a node of a cascade selection in which every selectable parent is selected exactly when
  all its selectable children are gives such a selection again; the node and every selectable
  descendant end up as asked, and a value that is neither below nor above the node keeps its state.\<close>

theorem cascade_toggle_closed:
  assumes "tree_index ix" "node_at ix v \<noteq> None" "cascade_closed ix f (set selected)"
  shows "cascade_closed ix f (set (applyCascadeSelection ix selected v select f)) \<and>
    (\<forall>d. d \<in> descendants ix v \<longrightarrow> d = v \<or> sel_at ix f d \<longrightarrow>
       (d \<in> set (applyCascadeSelection ix selected v select f) \<longleftrightarrow> select)) \<and>
    (\<forall>x. x \<notin> descendants ix v \<longrightarrow> x \<notin> ancestors ix v \<longrightarrow>
       (x \<in> set (applyCascadeSelection ix selected v select f) \<longleftrightarrow> x \<in> set selected))"
proof (intro conjI allI impI)
  show "cascade_closed ix f (set (applyCascadeSelection ix selected v select f))"
    unfolding cascade_closed_def using apply_closed_at [OF assms] by blast
next
  fix d assume d: "d \<in> descendants ix v" "d = v \<or> sel_at ix f d"
  then have "d \<notin> ancestors ix v" using not_both [OF assms(1)] by blast
  with apply_values(1) [OF assms(1,2)] d
  show "d \<in> set (applyCascadeSelection ix selected v select f) \<longleftrightarrow> select" by simp
next
  fix x assume "x \<notin> descendants ix v" "x \<notin> ancestors ix v"
  with apply_values(1) [OF assms(1,2)]
  show "x \<in> set (applyCascadeSelection ix selected v select f) \<longleftrightarrow> x \<in> set selected" by simp
qed

definition sample_index :: cascader_index where
  "sample_index = buildCascaderIndex (Some sample_items) None"

lemma sample_tree: "tree_index sample_index"
  using build_nested_building [OF sample_items_ok] by (simp add: sample_index_def buildCascaderIndex_def building_tree)

theorem cascade_toggle_closed_witness:
  "cascade_closed sample_index (\<lambda>n. True) (set (applyCascadeSelection sample_index [] ''eu'' True (\<lambda>n. True))) \<and>
   applyCascadeSelection sample_index [] ''eu'' True (\<lambda>n. True) = [''eu'', ''fr'', ''de''] \<and>
   applyCascadeSelection sample_index [''eu'', ''fr'', ''de''] ''fr'' False (\<lambda>n. True) = [''de'']"
proof -
  have "node_at sample_index ''eu'' \<noteq> None" by code_simp
  moreover have "cascade_closed sample_index (\<lambda>n. True) (set [])"
    by (auto simp: cascade_closed_def)
  moreover have "applyCascadeSelection sample_index [] ''eu'' True (\<lambda>n. True) = [''eu'', ''fr'', ''de'']"
    by code_simp
  moreover have "applyCascadeSelection sample_index [''eu'', ''fr'', ''de''] ''fr'' False (\<lambda>n. True) = [''de'']"
    by code_simp
  ultimately show ?thesis
    using cascade_toggle_closed [OF sample_tree, of "''eu''" "\<lambda>n. True" "[]" True] by blast
qed

end
