(* ===== verification/Cascader_Reads.thy ===== *)
theory Cascader_Reads
  imports Cascader_Props
begin

text \<open>
  What is read off a cascader index: the counts and partial marks of a selection, the deep search with
  its memoised ancestry test, the path of a node and its shortened form.
\<close>

section \<open>Counts and partial marks\<close>

definition count_of :: "(string \<times> nat) list \<Rightarrow> string \<Rightarrow> nat" where
  "count_of counts a = (case map_of counts a of None \<Rightarrow> 0 | Some c \<Rightarrow> c)"

lemma count_of_up: "count_of (count_up v counts) a = count_of counts a + (if a = v then 1 else 0)"
  by (auto simp: count_of_def count_up_def update_conv split: option.splits)

lemma count_of_fold_up:
  "distinct vs \<Longrightarrow> count_of (fold count_up vs counts) a = count_of counts a + (if a \<in> set vs then 1 else 0)"
  by (induction vs arbitrary: counts) (auto simp: count_of_up)

lemma bottom_up_distinct: "bottom_up ix cs \<Longrightarrow> distinct cs"
  by (induction cs) auto

lemma count_of_selected:
  assumes "tree_index ix"
  shows "count_of (fold (\<lambda>v. fold count_up (climb (ix_parentOf ix) [v] (parent_at ix v))) selected counts) a =
    count_of counts a + length (filter (\<lambda>v. a \<in> ancestors ix v) selected)"
proof (induction selected arbitrary: counts)
  case (Cons v selected)
  have "count_of (fold count_up (climb (ix_parentOf ix) [v] (parent_at ix v)) counts) a =
      count_of counts a + (if a \<in> ancestors ix v then 1 else 0)"
    using count_of_fold_up [OF bottom_up_distinct [OF climb_all(2) [OF assms]], of v counts a]
    by (simp only: climb_all(1) [OF assms])
  then show ?case by (simp add: Cons.IH)
qed simp

lemma fold_count_keys:
  "distinct (map fst counts) \<Longrightarrow>
    distinct (map fst (fold (\<lambda>v. fold count_up (h v)) selected counts))"
proof (induction selected arbitrary: counts)
  case (Cons v selected)
  have "distinct (map fst (fold count_up xs cs))" if "distinct (map fst cs)" for xs and cs :: "(string \<times> nat) list"
    using that by (induction xs arbitrary: cs) (auto simp: count_up_def distinct_update)
  with Cons show ?case by simp
qed simp

lemma indeterminate_member:
  assumes "distinct (map fst counts)"
  shows "v \<in> set (getCascaderIndeterminateFrom counts selected) \<longleftrightarrow> count_of counts v > 0 \<and> v \<notin> set selected"
proof -
  have "v \<in> set (getCascaderIndeterminateFrom counts selected) \<longleftrightarrow> (\<exists>c. (v, c) \<in> set counts \<and> 0 < c) \<and> v \<notin> set selected"
    by (force simp: getCascaderIndeterminateFrom_def)
  moreover have "(v, c) \<in> set counts \<longleftrightarrow> map_of counts v = Some c" for c
    using assms by simp
  ultimately show ?thesis by (auto simp: count_of_def split: option.splits)
qed

text \<open>C34: The number shown beside a node is how many selected values lie below it, and a node is marked as
  partly selected exactly when it is not selected itself and some value below it is.\<close>

theorem partial_marks_exact:
  assumes "tree_index ix"
  shows "count_of (getCascaderSelectedDescendants ix selected) a =
      length (filter (\<lambda>v. a \<in> ancestors ix v) selected) \<and>
    (a \<in> set (getCascaderIndeterminate ix selected) \<longleftrightarrow>
       a \<notin> set selected \<and> (\<exists>v. v \<in> set selected \<and> a \<in> ancestors ix v))"
proof -
  let ?c = "getCascaderSelectedDescendants ix selected"
  have n: "count_of ?c a = length (filter (\<lambda>v. a \<in> ancestors ix v) selected)"
    using count_of_selected [OF assms, of selected "[]" a]
    by (simp add: getCascaderSelectedDescendants_def count_of_def)
  have "distinct (map fst ?c)"
    unfolding getCascaderSelectedDescendants_def by (rule fold_count_keys) simp
  from indeterminate_member [OF this] n show ?thesis
    by (auto simp: getCascaderIndeterminate_def filter_empty_conv)
qed

theorem partial_marks_exact_witness:
  "count_of (getCascaderSelectedDescendants sample_index [''fr'', ''de'']) ''eu'' = 2 \<and>
   getCascaderIndeterminate sample_index [''fr''] = [''eu''] \<and>
   (\<exists>v. v \<in> set [''fr''] \<and> ''eu'' \<in> ancestors sample_index v)"
proof -
  have "count_of (getCascaderSelectedDescendants sample_index [''fr'', ''de'']) ''eu'' = 2" by code_simp
  moreover have i: "getCascaderIndeterminate sample_index [''fr''] = [''eu'']" by code_simp
  ultimately show ?thesis
    using partial_marks_exact [OF sample_tree, of "[''fr'']" "''eu''"] by simp
qed

section \<open>Deep search\<close>

definition reaches :: "(string \<times> string option) list \<Rightarrow> string \<Rightarrow> string option \<Rightarrow> bool" where
  "reaches parents w cursor = (\<exists>c. cursor = Some c \<and> (c, w) \<in> (up parents)\<^sup>*)"

lemma reaches_step: "reaches parents w (Some c) \<longleftrightarrow> c = w \<or> reaches parents w (parent_get parents c)"
  using up_rtrancl_step [of c w parents] by (auto simp: reaches_def)

lemma reaches_None [simp]: "\<not> reaches parents w None"
  by (simp add: reaches_def)

lemma reaches_parent: "reaches parents w (parent_get parents v) \<longleftrightarrow> (v, w) \<in> (up parents)\<^sup>+"
proof
  show "(v, w) \<in> (up parents)\<^sup>+ \<Longrightarrow> reaches parents w (parent_get parents v)"
    by (auto simp: reaches_def dest: tranclD)
  show "reaches parents w (parent_get parents v) \<Longrightarrow> (v, w) \<in> (up parents)\<^sup>+"
    using rtrancl_into_trancl2 [of v _ "up parents" w] by (auto simp: reaches_def)
qed

text \<open>What the cache says is right, except for the values of the current trail, which are entered as false.\<close>

definition cache_ok :: "(string \<times> string option) list \<Rightarrow> string \<Rightarrow> string set \<Rightarrow> (string \<times> bool) list \<Rightarrow> bool" where
  "cache_ok parents w T cache \<longleftrightarrow>
     (\<forall>c b. map_of cache c = Some b \<longrightarrow> c \<noteq> w \<and> (if c \<in> T then \<not> b else b = reaches parents w (Some c)))"

definition trail_ok :: "(string \<times> string option) list \<Rightarrow> string \<Rightarrow> string option \<Rightarrow> string set \<Rightarrow> bool" where
  "trail_ok parents w cursor T \<longleftrightarrow>
     (\<forall>t\<in>T. t \<noteq> w \<and> (reaches parents w (Some t) \<longleftrightarrow> reaches parents w cursor) \<and>
        (parent_get parents t = cursor \<or> parent_get parents t \<in> Some ` T))"

lemma trail_cycle:
  assumes "trail_ok parents w (Some c) T" "c \<in> T"
  shows "\<not> reaches parents w (Some c)"
proof
  assume "reaches parents w (Some c)"
  then have "(c, w) \<in> (up parents)\<^sup>*" by (simp add: reaches_def)
  then have "w \<in> T"
    using assms(2)
  proof (induction rule: converse_rtrancl_induct)
    case (step y z)
    then have "parent_get parents y = Some c \<or> parent_get parents y \<in> Some ` T"
      using assms(1) unfolding trail_ok_def by blast
    with step(1) assms(2) have "z \<in> T" by auto
    then show ?case by (rule step.IH)
  qed
  with assms(1) show False by (auto simp: trail_ok_def)
qed

lemma within_loop_correct:
  "cache_ok parents w (set trail) cache \<Longrightarrow> trail_ok parents w cursor (set trail) \<Longrightarrow>
   within_loop parents w cache trail cursor = (answer, cache', trail') \<Longrightarrow>
   answer = reaches parents w cursor \<and> cache_ok parents w (set trail') cache' \<and>
   (\<forall>t\<in>set trail'. t \<noteq> w \<and> reaches parents w (Some t) = answer)"
proof (induction parents w cache trail cursor rule: within_loop.induct)
  case (1 parents w cache trail)
  then show ?case by (auto simp: trail_ok_def)
next
  case (2 parents w cache trail c)
  show ?case
  proof (cases "c = w")
    case True
    then have "reaches parents w (Some c)" by (simp add: reaches_step)
    with 2 True show ?thesis by (auto simp: trail_ok_def)
  next
    case False
    show ?thesis
    proof (cases "map_of cache c")
      case (Some b)
      have "b = reaches parents w (Some c)"
      proof (cases "c \<in> set trail")
        case True
        with Some "2.prems"(1) have "\<not> b" unfolding cache_ok_def by metis
        with trail_cycle [OF "2.prems"(2) True] show ?thesis by simp
      next
        case False
        with Some "2.prems"(1) show ?thesis by (auto simp: cache_ok_def)
      qed
      with 2 Some \<open>c \<noteq> w\<close> show ?thesis by (auto simp: trail_ok_def)
    next
      case None
      have r: "reaches parents w (Some c) = reaches parents w (parent_get parents c)"
        using False by (simp add: reaches_step)
      have "cache_ok parents w (set (trail @ [c])) (AList.update c False cache)"
        using "2.prems"(1) False unfolding cache_ok_def by (auto simp: update_conv split: if_splits)
      moreover have "trail_ok parents w (parent_get parents c) (set (trail @ [c]))"
        using "2.prems"(2) False unfolding trail_ok_def by (auto simp: r)
      ultimately show ?thesis
        using "2.IH" [OF False None] "2.prems"(3) False None r by simp
    qed
  qed
qed

lemma map_of_fold_true:
  "map_of (fold (\<lambda>v. AList.update v True) ts cache) c = (if c \<in> set ts then Some True else map_of cache c)"
  by (induction ts arbitrary: cache) (auto simp: update_conv)

lemma is_within_correct:
  assumes "cache_ok parents w {} cache"
  shows "fst (is_within parents w cache x) = ((cn_value x, w) \<in> (up parents)\<^sup>+)"
    and "cache_ok parents w {} (snd (is_within parents w cache x))"
proof -
  obtain answer cache' trail where l:
    "within_loop parents w cache [] (parent_get parents (cn_value x)) = (answer, cache', trail)"
    by (cases "within_loop parents w cache [] (parent_get parents (cn_value x))") auto
  have "cache_ok parents w (set []) cache" "trail_ok parents w (parent_get parents (cn_value x)) (set [])"
    using assms by (simp_all add: trail_ok_def)
  note c = within_loop_correct [OF this l]
  then show "fst (is_within parents w cache x) = ((cn_value x, w) \<in> (up parents)\<^sup>+)"
    using l by (simp add: is_within_def reaches_parent)
  show "cache_ok parents w {} (snd (is_within parents w cache x))"
    using c l unfolding cache_ok_def is_within_def
    by (auto simp: map_of_fold_true split: if_splits)
qed

lemma deep_loop_correct:
  "(\<forall>w. inside = Some w \<longrightarrow> cache_ok parents w {} cache) \<Longrightarrow>
   deep_loop parents inside hit n cache nodes =
     take n (filter (\<lambda>x. hit x \<and> (\<forall>w. inside = Some w \<longrightarrow> (cn_value x, w) \<in> (up parents)\<^sup>+)) nodes)"
proof (induction nodes arbitrary: n cache)
  case (Cons x nodes)
  show ?case
  proof (cases "n = 0 \<or> \<not> hit x \<or> inside = None")
    case True
    with Cons show ?thesis by (cases n) auto
  next
    case False
    then obtain w m where w: "inside = Some w" "hit x" "n = Suc m" by (cases n) auto
    have "cache_ok parents w {} cache" using Cons.prems w by simp
    note r = is_within_correct [OF this, of x]
    have next_ok: "\<forall>v. inside = Some v \<longrightarrow> cache_ok parents v {} (snd (is_within parents w cache x))"
      using r(2) w by simp
    show ?thesis
      using Cons.IH [OF next_ok] r(1) w by (cases "is_within parents w cache x") auto
  qed
qed simp

text \<open>C35: A deep search returns, in the order of the data, the first so many matching nodes among those below
  the given branch (all nodes without one), whatever the parent map holds: the cache the search
  fills never changes an answer, not even when the data's parents form a cycle.\<close>

theorem deep_search_exact:
  assumes "normalizeCascaderQuery foldText query \<noteq> []"
  shows "searchCascaderDeep foldText matches ix query inside limit =
    take limit (filter (\<lambda>x. matches x (normalizeCascaderQuery foldText query) \<and>
      (case inside of None \<Rightarrow> True | Some w \<Rightarrow> w \<in> ancestors ix (cn_value x))) (ix_all ix))"
proof -
  have "\<forall>w. inside = Some w \<longrightarrow> cache_ok (ix_parentOf ix) w {} []" by (simp add: cache_ok_def)
  from deep_loop_correct [OF this] assms show ?thesis
    by (cases inside) (simp_all add: searchCascaderDeep_def Let_def ancestors_def)
qed

theorem deep_search_exact_witness:
  "map cn_value (searchCascaderDeep id (matchesCascaderQuery id) sample_index ''e'' (Some ''eu'') 5) = [''de''] \<and>
   (\<forall>inside. searchCascaderDeep id (matchesCascaderQuery id) sample_index ''e'' inside 1 =
     take 1 (filter (\<lambda>x. matchesCascaderQuery id x (normalizeCascaderQuery id ''e'') \<and>
       (case inside of None \<Rightarrow> True | Some w \<Rightarrow> w \<in> ancestors sample_index (cn_value x))) (ix_all sample_index)))"
proof -
  have "map cn_value (searchCascaderDeep id (matchesCascaderQuery id) sample_index ''e'' (Some ''eu'') 5) = [''de'']"
    by code_simp
  moreover have "normalizeCascaderQuery id ''e'' \<noteq> []" by code_simp
  ultimately show ?thesis using deep_search_exact by blast
qed

section \<open>The path of a node\<close>

lemma climb_seen:
  "ranked parents r \<Longrightarrow> \<forall>s\<in>set seen. \<forall>c. cursor = Some c \<longrightarrow> r c < r s \<Longrightarrow>
   \<forall>s\<in>set seen'. \<forall>c. cursor = Some c \<longrightarrow> r c < r s \<Longrightarrow>
   climb parents seen cursor = climb parents seen' cursor"
proof (induction parents seen cursor arbitrary: seen' rule: climb.induct)
  case (2 parents seen c)
  have c: "c \<notin> set seen" "c \<notin> set seen'" using "2.prems"(2,3) by blast+
  have "\<forall>s\<in>set (c # S). \<forall>p. parent_get parents c = Some p \<longrightarrow> r p < r s"
    if "\<forall>s\<in>set S. \<forall>d. Some c = Some d \<longrightarrow> r d < r s" for S
    using that "2.prems"(1) by (fastforce simp: ranked_def)
  from "2.IH" [OF c(1) "2.prems"(1) this [OF "2.prems"(2)] this [OF "2.prems"(3)]] c show ?case by simp
qed simp

lemma path_step:
  assumes "tree_index ix" "node_at ix v = Some n"
  shows "getCascaderPath ix (Some v) = getCascaderPath ix (parent_at ix v) @ [n]"
proof -
  obtain r where r: "ranked (ix_parentOf ix) r" using assms(1) by (auto simp: tree_index_def)
  have "climb (ix_parentOf ix) [v] (parent_at ix v) = climb (ix_parentOf ix) [] (parent_at ix v)"
    using r by (intro climb_seen [OF r]) (auto simp: ranked_def)
  then show ?thesis using assms(2) by (simp add: getCascaderPath_def map_filter_simps)
qed

text \<open>The path of a known node starts at a root, ends with the node, and each entry is the child of the
  one before it.\<close>

theorem path_is_chain:
  assumes "tree_index ix" "node_at ix v = Some n"
  shows "getCascaderPath ix (Some v) \<noteq> [] \<and> last (getCascaderPath ix (Some v)) = n \<and>
    parent_at ix (cn_value (hd (getCascaderPath ix (Some v)))) = None \<and>
    successively (\<lambda>p c. parent_at ix (cn_value c) = Some (cn_value p)) (getCascaderPath ix (Some v))"
proof -
  obtain r where r: "maps_agree ix" "ranked (ix_parentOf ix) r" using assms(1) by (auto simp: tree_index_def)
  show ?thesis
    using assms(2)
  proof (induction "r v" arbitrary: v n rule: less_induct)
    case less
    note step = path_step [OF assms(1) less.prems]
    have v: "cn_value n = v" using r(1) less.prems by (auto simp: maps_agree_def)
    show ?case
    proof (cases "parent_at ix v")
      case None
      with step v show ?thesis by (simp add: getCascaderPath_def map_filter_simps)
    next
      case (Some p)
      then have "r p < r v" using r(2) by (simp add: ranked_def)
      moreover obtain m where m: "node_at ix p = Some m" using parent_child [OF r(1) Some] by auto
      moreover have "cn_value m = p" using r(1) m by (auto simp: maps_agree_def)
      ultimately show ?thesis
        using less.hyps [of p m] step Some v by (simp add: successively_append_iff)
    qed
  qed
qed

theorem path_is_chain_witness:
  "map cn_value (getCascaderPath sample_index (Some ''de'')) = [''eu'', ''de''] \<and>
   successively (\<lambda>p c. parent_at sample_index (cn_value c) = Some (cn_value p))
     (getCascaderPath sample_index (Some ''de''))"
proof -
  have "map cn_value (getCascaderPath sample_index (Some ''de'')) = [''eu'', ''de'']" by code_simp
  moreover have "node_at sample_index ''de'' \<noteq> None" by code_simp
  ultimately show ?thesis using path_is_chain [OF sample_tree, of "''de''"] by auto
qed

section \<open>The shortened path\<close>

fun expand :: "'n path_segment list \<Rightarrow> 'n list" where
  "expand [] = []"
| "expand (SegNode n # ss) = n # expand ss"
| "expand (SegEllipsis h # ss) = h @ expand ss"

fun is_node :: "'n path_segment \<Rightarrow> bool" where
  "is_node (SegNode n) = True"
| "is_node (SegEllipsis h) = False"

lemma expand_append [simp]: "expand (xs @ ys) = expand xs @ expand ys"
  by (induction xs rule: expand.induct) auto

lemma expand_nodes [simp]: "expand (map SegNode ns) = ns"
  by (induction ns) auto

lemma filter_nodes [simp]: "filter is_node (map SegNode ns) = map SegNode ns"
  by (induction ns) auto

lemma middle_split:
  "1 \<le> k \<Longrightarrow> k \<le> length path \<Longrightarrow> take 1 path @ drop 1 (take k path) @ drop k path = path"
proof -
  assume k: "1 \<le> k"
  have "take 1 (take k path) @ drop 1 (take k path) = take k path" by (rule append_take_drop_id)
  then have "take 1 path @ drop 1 (take k path) = take k path" using k by (simp add: min_def)
  then show ?thesis by (metis append.assoc append_take_drop_id)
qed

text \<open>A shortened path loses nothing: replacing the ellipsis by the nodes it hides gives the path back.
  When it is shortened at all, exactly \<^verbatim>\<open>maxSegments\<close> nodes are shown and one ellipsis, which hides at
  least one node and has at most the root before it.\<close>

theorem collapse_expands:
  "expand (collapseCascaderPath path m c) = path \<and>
   (collapseCascaderPath path m c = map SegNode path \<or>
    (0 < m \<and> length (filter is_node (collapseCascaderPath path m c)) = nat m \<and>
     (\<exists>pre h post. collapseCascaderPath path m c = map SegNode pre @ [SegEllipsis h] @ map SegNode post \<and>
        h \<noteq> [] \<and> length pre \<le> 1)))"
proof (cases "c = CollapseNone \<or> m \<le> 0 \<or> int (length path) \<le> m")
  case True
  then have "collapseCascaderPath path m c = map SegNode path" by (simp add: collapseCascaderPath_def)
  then show ?thesis by simp
next
  case False
  then have m: "0 < m" "nat m < length path" by auto
  show ?thesis
  proof (cases "c = CollapseStart")
    case True
    let ?k = "length path - nat m"
    have eq: "collapseCascaderPath path m c = SegEllipsis (take ?k path) # map SegNode (drop ?k path)"
      using False True by (simp add: collapseCascaderPath_def Let_def)
    moreover have "take ?k path \<noteq> []" using m by auto
    moreover have "length (drop ?k path) = nat m" using m by simp
    ultimately show ?thesis using m(1)
      by (intro conjI disjI2 exI [of _ "[]"] exI [of _ "take ?k path"] exI [of _ "drop ?k path"]) simp_all
  next
    case cM: False
    define k where "k = length path - (nat m - 1)"
    define h where "h = drop 1 (take k path)"
    have k: "1 \<le> k" "k \<le> length path" "2 \<le> k" using m by (auto simp: k_def)
    have h: "h \<noteq> []" using k by (auto simp: h_def)
    have eq: "collapseCascaderPath path m c = map SegNode (take 1 path) @ [SegEllipsis h] @ map SegNode (drop k path)"
      using False cM h unfolding collapseCascaderPath_def Let_def k_def [symmetric] h_def [symmetric] by simp
    have "expand (collapseCascaderPath path m c) = path"
      using middle_split [OF k(1,2)] unfolding eq h_def by simp
    moreover have "length (filter is_node (collapseCascaderPath path m c)) = nat m"
      unfolding eq using m by (simp add: k_def)
    moreover have "length (take 1 path) \<le> 1" by simp
    ultimately show ?thesis using m(1) h eq by blast
  qed
qed

end
