(* ===== verification/Filter_Schema.thy ===== *)
theory Filter_Schema
  imports Filter_Operators Filter_Removal Cascader_Reads
begin

text \<open>
  The field schema of the filter bar (\<^verbatim>\<open>filters-lib.tsx\<close>): path keys, the signature that decides
  whether the index is rebuilt, the index itself and what reads it, search, the rule for exclusive
  options, the id factory and the schema checks.
\<close>

section \<open>Paths\<close>

definition FILTER_ROOT_KEY :: string where
  "FILTER_ROOT_KEY = CHR 0x00 # ''root''"

definition PATH_SEPARATOR :: char where
  "PATH_SEPARATOR = CHR 0x00"

definition joinFilterPath :: "string list \<Rightarrow> string" where
  "joinFilterPath path = join [PATH_SEPARATOR] path"

definition splitFilterPath :: "string \<Rightarrow> string list" where
  "splitFilterPath key = (if key = [] then [] else split_on PATH_SEPARATOR key)"

definition parentFilterKey :: "string list \<Rightarrow> string" where
  "parentFilterKey path = (if length path \<le> 1 then FILTER_ROOT_KEY else joinFilterPath (butlast path))"

section \<open>Signature\<close>

fun type_name :: "value_type \<Rightarrow> string" where
  "type_name VText = ''text''"
| "type_name VNumber = ''number''"
| "type_name VRange = ''range''"
| "type_name VSelect = ''select''"
| "type_name VMultiselect = ''multiselect''"
| "type_name VBoolean = ''boolean''"

definition or_empty :: "string option \<Rightarrow> string" where
  "or_empty s = (case s of None \<Rightarrow> [] | Some t \<Rightarrow> t)"

definition bit :: "bool \<Rightarrow> string" where
  "bit b = (if b then ''1'' else ''0'')"

definition signature_part :: "nat \<Rightarrow> string \<Rightarrow> field_props \<Rightarrow> string" where
  "signature_part depth i p =
     nat_to_dec depth @ '':'' @ i @ ''|'' @ fp_label p @ ''|'' @
     or_empty (map_option type_name (fp_type p)) @ ''|'' @
     or_empty (fp_default_operator p) @ ''|'' @ or_empty (fp_column p) @ ''|'' @
     bit (truthy (fp_selectable p)) @ bit (truthy (fp_disabled p)) @ bit (fp_icon p) @
     bit (fp_render_value p) @ bit (fp_load_options p) @ bit (fp_resolve_values p) @ ''|'' @
     (case fp_editor p of None \<Rightarrow> [] | Some (EditorName s) \<Rightarrow> s | Some (EditorComponent _) \<Rightarrow> ''fn'') @ ''|'' @
     or_empty (map_option (join '','') (fp_keywords p)) @ ''|'' @
     or_empty (map_option nat_to_dec (fp_count p)) @ ''|'' @
     or_empty (map_option (\<lambda>os. join '','' (map (\<lambda>e. opt_value e @ ''~'' @ opt_label e @
       (if truthy (opt_exclusive e) then ''~x'' else [])) os)) (fp_options p)) @ ''|'' @
     (case fp_operators p of None \<Rightarrow> [] | Some (OpList ops) \<Rightarrow> join '','' (map op_value ops)
      | Some (OpFun _) \<Rightarrow> ''fn'')"

fun signature_walk :: "nat \<Rightarrow> filter_field list \<Rightarrow> string list" where
  "signature_walk depth [] = []"
| "signature_walk depth (FilterField i p None # rest) = signature_part depth i p # signature_walk depth rest"
| "signature_walk depth (FilterField i p (Some sub) # rest) =
     signature_part depth i p # signature_walk (depth + 1) sub @ signature_walk depth rest"

definition computeFilterSchemaSignature :: "filter_field list \<Rightarrow> string" where
  "computeFilterSchemaSignature schema = join [CHR 0x0A] (signature_walk 0 schema)"

section \<open>Index\<close>

record filter_index =
  fi_byPath :: "(string \<times> filter_field) list"
  fi_childrenOf :: "(string \<times> filter_field list) list"
  fi_parentOf :: "(string \<times> string) list"
  fi_all :: "(filter_field \<times> string list) list"
  fi_roots :: "filter_field list"
  fi_signature :: string

definition EMPTY_INDEX :: filter_index where
  "EMPTY_INDEX = \<lparr>fi_byPath = [], fi_childrenOf = [], fi_parentOf = [], fi_all = [], fi_roots = [], fi_signature = []\<rparr>"

definition enter_field :: "filter_field \<Rightarrow> string list \<Rightarrow> string \<Rightarrow> filter_index \<Rightarrow> filter_index" where
  "enter_field f path parentKey ix =
     ix\<lparr>fi_byPath := fi_byPath ix @ [(joinFilterPath path, f)],
        fi_parentOf := fi_parentOf ix @ [(joinFilterPath path, if parentKey = FILTER_ROOT_KEY then [] else parentKey)],
        fi_all := fi_all ix @ [(f, path)]\<rparr>"

text \<open>\<^verbatim>\<open>field.fields\<close>, read as empty when absent.\<close>

definition sub_fields :: "filter_field \<Rightarrow> filter_field list" where
  "sub_fields f = (case field_fields f of None \<Rightarrow> [] | Some fs \<Rightarrow> fs)"

lemma size_sub_fields: "size_list size (sub_fields f) < Suc (size f + k)"
  by (cases f) (auto simp: sub_fields_def split: option.splits)

text \<open>One level: the ids met so far and the fields accepted so far are the loop's locals.\<close>

function index_walk ::
  "filter_field list \<Rightarrow> string list \<Rightarrow> string \<Rightarrow> string list \<Rightarrow> filter_field list \<Rightarrow> filter_index \<Rightarrow> filter_index" where
  "index_walk [] parentPath parentKey seen accepted ix =
     ix\<lparr>fi_childrenOf := AList.update parentKey accepted (fi_childrenOf ix),
        fi_roots := (if parentKey = FILTER_ROOT_KEY then fi_roots ix @ accepted else fi_roots ix)\<rparr>"
| "index_walk (f # rest) parentPath parentKey seen accepted ix =
     (if field_id f \<in> set seen then index_walk rest parentPath parentKey seen accepted ix
      else let path = parentPath @ [field_id f]; key = joinFilterPath path in
        if map_of (fi_byPath ix) key \<noteq> None
        then index_walk rest parentPath parentKey (field_id f # seen) accepted ix
        else index_walk rest parentPath parentKey (field_id f # seen) (accepted @ [f])
               (if sub_fields f = [] then enter_field f path parentKey ix
                else index_walk (sub_fields f) path key [] [] (enter_field f path parentKey ix)))"
  by pat_completeness auto
termination
  by (relation "measure (\<lambda>(fs, _). size_list size fs)") (auto intro: size_sub_fields)

definition buildFilterIndex :: "filter_field list \<Rightarrow> filter_index option \<Rightarrow> string option \<Rightarrow> filter_index" where
  "buildFilterIndex schema previous precomputed =
     (let signature = (case precomputed of None \<Rightarrow> computeFilterSchemaSignature schema | Some s \<Rightarrow> s);
          build = (if schema = [] then EMPTY_INDEX\<lparr>fi_signature := signature\<rparr>
                   else (index_walk schema [] FILTER_ROOT_KEY [] [] EMPTY_INDEX)\<lparr>fi_signature := signature\<rparr>)
      in case previous of
           None \<Rightarrow> build
         | Some prev \<Rightarrow> if fi_signature prev = signature then prev else build)"

section \<open>Reading the index\<close>

definition getFilterField :: "filter_index \<Rightarrow> string list \<Rightarrow> filter_field option" where
  "getFilterField ix path = map_of (fi_byPath ix) (joinFilterPath path)"

text \<open>The loop over the prefixes, the path split into the part read and the part to come.\<close>

fun chain_loop :: "filter_index \<Rightarrow> string list \<Rightarrow> string list \<Rightarrow> filter_field list" where
  "chain_loop ix done [] = []"
| "chain_loop ix done (i # todo) =
     (case map_of (fi_byPath ix) (joinFilterPath (done @ [i])) of
        None \<Rightarrow> []
      | Some f \<Rightarrow> f # chain_loop ix (done @ [i]) todo)"

definition getFilterFieldChain :: "filter_index \<Rightarrow> string list \<Rightarrow> filter_field list" where
  "getFilterFieldChain ix path = chain_loop ix [] path"

definition getFilterChildren :: "filter_index \<Rightarrow> string list \<Rightarrow> filter_field list" where
  "getFilterChildren ix path =
     (let key = (if path = [] then FILTER_ROOT_KEY else joinFilterPath path)
      in case map_of (fi_childrenOf ix) key of None \<Rightarrow> [] | Some fs \<Rightarrow> fs)"

definition isFilterBranch :: "filter_field \<Rightarrow> bool" where
  "isFilterBranch f \<longleftrightarrow> sub_fields f \<noteq> []"

definition isFilterFieldSelectable :: "filter_field \<Rightarrow> bool" where
  "isFilterFieldSelectable f =
     (if truthy (fp_disabled (field_props f)) then False
      else if isFilterBranch f then truthy (fp_selectable (field_props f)) else True)"

definition isFilterFieldPickable :: "filter_field \<Rightarrow> bool" where
  "isFilterFieldPickable f = (if truthy (fp_disabled (field_props f)) then False else \<not> isFilterBranch f)"

definition getFilterFieldCount :: "filter_field \<Rightarrow> nat" where
  "getFilterFieldCount f =
     (case fp_count (field_props f) of
        Some c \<Rightarrow> c
      | None \<Rightarrow> length (sub_fields f))"

definition formatFilterPath :: "filter_index \<Rightarrow> string list \<Rightarrow> string \<Rightarrow> string" where
  "formatFilterPath ix path separator =
     (let chain = getFilterFieldChain ix path
      in if chain = [] then join separator path
         else join separator (map (\<lambda>f. fp_label (field_props f)) chain))"

text \<open>\<^verbatim>\<open>Number(text)\<close> on the decimal numerals \<^verbatim>\<open>String(index)\<close> writes.\<close>

definition dec_to_nat :: "string \<Rightarrow> nat" where
  "dec_to_nat s = foldl (\<lambda>acc c. acc * 10 + (of_char c - 48)) 0 s"

fun map_segment :: "('a \<Rightarrow> 'b) \<Rightarrow> 'a path_segment \<Rightarrow> 'b path_segment" where
  "map_segment h (SegNode n) = SegNode (h n)"
| "map_segment h (SegEllipsis ns) = SegEllipsis (map h ns)"

text \<open>The positional adapter: a segment carries its index as text, read back to find the field.\<close>

definition collapseFilterPath ::
  "filter_field list \<Rightarrow> int option \<Rightarrow> cascader_collapse option \<Rightarrow> filter_field path_segment list" where
  "collapseFilterPath chain maxSegments collapse =
     map (map_segment (\<lambda>(value, label). chain ! dec_to_nat value))
       (collapseCascaderPath
          (map (\<lambda>(k, f). (nat_to_dec k, fp_label (field_props f))) (enumerate 0 chain))
          (case maxSegments of None \<Rightarrow> 3 | Some m \<Rightarrow> m)
          (case collapse of None \<Rightarrow> CollapseNone | Some c \<Rightarrow> c))"

section \<open>Combinator slot\<close>

datatype combinator_slot = SlotWhere | SlotToggle | SlotEcho

definition filterCombinatorSlot :: "nat \<Rightarrow> combinator_slot" where
  "filterCombinatorSlot k = (if k = 0 then SlotWhere else if k = 1 then SlotToggle else SlotEcho)"

section \<open>Matching\<close>

definition normalizeFilterQuery :: "(string \<Rightarrow> string) \<Rightarrow> string \<Rightarrow> string" where
  "normalizeFilterQuery foldText query = foldText (trim query)"

definition keyword_hit :: "(string \<Rightarrow> string) \<Rightarrow> string list option \<Rightarrow> string \<Rightarrow> bool" where
  "keyword_hit foldText keywords q =
     (case keywords of None \<Rightarrow> False | Some ks \<Rightarrow> list_ex (\<lambda>k. str_includes (foldText k) q) ks)"

definition matchesFilterQuery :: "(string \<Rightarrow> string) \<Rightarrow> filter_field \<Rightarrow> string \<Rightarrow> bool" where
  "matchesFilterQuery foldText f q \<longleftrightarrow>
     q = [] \<or> str_includes (foldText (fp_label (field_props f))) q \<or>
     keyword_hit foldText (fp_keywords (field_props f)) q"

definition filterFilterLevel :: "(string \<Rightarrow> string) \<Rightarrow> filter_field list \<Rightarrow> string \<Rightarrow> filter_field list" where
  "filterFilterLevel foldText schema q =
     (if q = [] then schema else filter (\<lambda>f. matchesFilterQuery foldText f q) schema)"

fun search_loop ::
  "(string \<Rightarrow> string) \<Rightarrow> string \<Rightarrow> nat \<Rightarrow> (filter_field \<times> string list) list \<Rightarrow> (filter_field \<times> string list) list
   \<Rightarrow> (filter_field \<times> string list) list" where
  "search_loop foldText q limit results [] = results"
| "search_loop foldText q limit results (entry # es) =
     (if length results \<ge> limit then results
      else if \<not> isFilterFieldSelectable (fst entry) then search_loop foldText q limit results es
      else search_loop foldText q limit
             (if matchesFilterQuery foldText (fst entry) q then results @ [entry] else results) es)"

definition searchFilterDeep ::
  "(string \<Rightarrow> string) \<Rightarrow> filter_index \<Rightarrow> string \<Rightarrow> nat \<Rightarrow> (filter_field \<times> string list) list" where
  "searchFilterDeep foldText ix q limit = (if q = [] then [] else search_loop foldText q limit [] (fi_all ix))"

definition filterFilterOptions :: "(string \<Rightarrow> string) \<Rightarrow> filter_option list \<Rightarrow> string \<Rightarrow> filter_option list" where
  "filterFilterOptions foldText options q =
     (if q = [] then options
      else filter (\<lambda>e. str_includes (foldText (opt_label e)) q \<or> keyword_hit foldText (opt_keywords e) q) options)"

section \<open>Exclusive options\<close>

definition applyFilterExclusiveSelection :: "string list \<Rightarrow> string list \<Rightarrow> (string \<Rightarrow> bool) \<Rightarrow> string list" where
  "applyFilterExclusiveSelection next previous isExclusive =
     (let added = filter (\<lambda>v. v \<notin> set previous) next in
      if added = [] then next
      else case fold (\<lambda>v arrived. if isExclusive v then Some v else arrived) added None of
             Some v \<Rightarrow> [v]
           | None \<Rightarrow> filter (\<lambda>v. \<not> isExclusive v) next)"

section \<open>Ids\<close>

text \<open>The closure's counter is the state that is threaded.\<close>

definition createFilterIdFactory :: "string \<Rightarrow> nat \<Rightarrow> string \<times> nat" where
  "createFilterIdFactory seed counter = (seed @ nat_to_dec (counter + 1), counter + 1)"

section \<open>Schema checks\<close>

record schema_issues =
  si_duplicatePaths :: "string list"
  si_emptyIds :: "string list"
  si_emptyBranches :: "string list"
  si_unknownDefaultOperators :: "string list"

definition field_issues ::
  "(filter_field \<Rightarrow> filter_operator list) \<Rightarrow> string \<Rightarrow> bool \<Rightarrow> filter_field \<Rightarrow> schema_issues \<Rightarrow> schema_issues" where
  "field_issues resolveOperators label repeated f is =
     (let is1 = (if field_id f = [] then is\<lparr>si_emptyIds := si_emptyIds is @ [label]\<rparr>
                 else if repeated then is\<lparr>si_duplicatePaths := si_duplicatePaths is @ [label]\<rparr> else is);
          is2 = (if truthy (fp_selectable (field_props f)) \<and> field_fields f = Some []
                 then is1\<lparr>si_emptyBranches := si_emptyBranches is1 @ [label]\<rparr> else is1)
      in case fp_default_operator (field_props f) of
           None \<Rightarrow> is2
         | Some d \<Rightarrow>
             if d \<noteq> [] \<and> \<not> list_ex (\<lambda>p. op_value p = d) (resolveOperators f)
             then is2\<lparr>si_unknownDefaultOperators := si_unknownDefaultOperators is2 @ [label @ '' -> '' @ d]\<rparr>
             else is2)"

function issues_walk ::
  "(filter_field \<Rightarrow> filter_operator list) \<Rightarrow> filter_field list \<Rightarrow> string list \<Rightarrow> string list \<Rightarrow> schema_issues
   \<Rightarrow> schema_issues" where
  "issues_walk resolveOperators [] parentPath seen is = is"
| "issues_walk resolveOperators (f # rest) parentPath seen is =
     (let path = parentPath @ [field_id f];
          is1 = field_issues resolveOperators (join ''.'' path) (field_id f \<in> set seen) f is
      in issues_walk resolveOperators rest parentPath (field_id f # seen)
           (if sub_fields f = [] then is1 else issues_walk resolveOperators (sub_fields f) path [] is1))"
  by pat_completeness auto
termination
  by (relation "measure (\<lambda>(_, fs, _). size_list size fs)") (auto intro: size_sub_fields)

definition findFilterSchemaIssues ::
  "filter_field list \<Rightarrow> (filter_field \<Rightarrow> filter_operator list) \<Rightarrow> schema_issues" where
  "findFilterSchemaIssues schema resolveOperators =
     issues_walk resolveOperators schema [] []
       \<lparr>si_duplicatePaths = [], si_emptyIds = [], si_emptyBranches = [], si_unknownDefaultOperators = []\<rparr>"

end
