(* ===== verification/Filter_Schema_Props.thy ===== *)
theory Filter_Schema_Props
  imports Filter_Schema "HOL-Library.Sublist"
begin

text \<open>
  The index of a schema agrees with the schema: every entry resolves by its path, its chain spells
  that path out, and a schema the checks find nothing wrong with is indexed completely.  Then the
  rule for exclusive options, and what the schema signature does not see.
\<close>

section \<open>Every entry of the index resolves\<close>

definition index_ok :: "filter_index \<Rightarrow> bool" where
  "index_ok ix \<longleftrightarrow> fi_byPath ix = map (\<lambda>(f, p). (joinFilterPath p, f)) (fi_all ix) \<and>
     distinct (map (\<lambda>e. joinFilterPath (snd e)) (fi_all ix)) \<and>
     (\<forall>f p. (f, p) \<in> set (fi_all ix) \<longrightarrow> p \<noteq> [] \<and> last p = field_id f \<and>
        (butlast p = [] \<or> (\<exists>g. (g, butlast p) \<in> set (fi_all ix))))"

definition placed :: "string list \<Rightarrow> filter_index \<Rightarrow> bool" where
  "placed path ix \<longleftrightarrow> path = [] \<or> (\<exists>g. (g, path) \<in> set (fi_all ix))"

lemma enter_field_ok:
  assumes "index_ok ix" "placed pp ix" "map_of (fi_byPath ix) (joinFilterPath (pp @ [field_id f])) = None"
  shows "index_ok (enter_field f (pp @ [field_id f]) key ix)"
    and "placed (pp @ [field_id f]) (enter_field f (pp @ [field_id f]) key ix)"
proof -
  let ?ix = "enter_field f (pp @ [field_id f]) key ix"
  show "placed (pp @ [field_id f]) ?ix" by (auto simp: placed_def enter_field_def)
  have "joinFilterPath (pp @ [field_id f]) \<notin> (\<lambda>e. joinFilterPath (snd e)) ` set (fi_all ix)"
    using assms(1,3) unfolding index_ok_def by (force simp: map_of_eq_None_iff)
  then have "distinct (map (\<lambda>e. joinFilterPath (snd e)) (fi_all ?ix))"
    using assms(1) by (simp add: enter_field_def index_ok_def)
  moreover have "fi_byPath ?ix = map (\<lambda>(f, p). (joinFilterPath p, f)) (fi_all ?ix)"
    using assms(1) by (simp add: index_ok_def enter_field_def)
  moreover have "p \<noteq> [] \<and> last p = field_id g \<and> (butlast p = [] \<or> (\<exists>h. (h, butlast p) \<in> set (fi_all ?ix)))"
    if "(g, p) \<in> set (fi_all ?ix)" for g p
    using assms(1,2) that unfolding index_ok_def placed_def by (auto simp: enter_field_def)
  ultimately show "index_ok ?ix" unfolding index_ok_def by blast
qed

lemma placed_mono: "placed p ix \<Longrightarrow> set (fi_all ix) \<subseteq> set (fi_all ix') \<Longrightarrow> placed p ix'"
  by (auto simp: placed_def)

lemma enter_field_all [simp]: "fi_all (enter_field f p key ix) = fi_all ix @ [(f, p)]"
  by (simp add: enter_field_def)

lemma index_walk_ok:
  "index_ok ix \<Longrightarrow> placed pp ix \<Longrightarrow>
   index_ok (index_walk fs pp key seen acc ix) \<and> set (fi_all ix) \<subseteq> set (fi_all (index_walk fs pp key seen acc ix))"
proof (induction fs pp key seen acc ix rule: index_walk.induct)
  case (1 pp key seen acc ix)
  then show ?case by (simp add: index_ok_def)
next
  case (2 f rest pp key seen acc ix)
  let ?path = "pp @ [field_id f]"
  let ?ix1 = "enter_field f ?path key ix"
  let ?ix2 = "if sub_fields f = [] then ?ix1 else index_walk (sub_fields f) ?path (joinFilterPath ?path) [] [] ?ix1"
  consider (seen) "field_id f \<in> set seen"
    | (dup) "field_id f \<notin> set seen" "map_of (fi_byPath ix) (joinFilterPath ?path) \<noteq> None"
    | (enter) "field_id f \<notin> set seen" "map_of (fi_byPath ix) (joinFilterPath ?path) = None" by blast
  then show ?case
  proof cases
    case enter
    note e = enter_field_ok [OF "2.prems" enter(2), of key]
    have i2: "index_ok ?ix2 \<and> set (fi_all ?ix1) \<subseteq> set (fi_all ?ix2)"
      using "2.IH"(3) [OF enter(1) refl refl _ _ e] enter(2) e by auto
    then have "placed pp ?ix2" using placed_mono [OF "2.prems"(2), of ?ix2] by auto
    with "2.IH"(4) [OF enter(1) refl refl] enter i2 show ?thesis by (auto simp: Let_def)
  qed (use 2 in \<open>auto simp: Let_def\<close>)
qed

lemma build_ok: "index_ok (buildFilterIndex schema None sig)"
proof -
  have "index_ok EMPTY_INDEX" by (simp add: index_ok_def EMPTY_INDEX_def)
  then have "index_ok (index_walk schema [] FILTER_ROOT_KEY [] [] EMPTY_INDEX)"
    using index_walk_ok by (simp add: placed_def)
  then show ?thesis
    using \<open>index_ok EMPTY_INDEX\<close> by (auto simp: buildFilterIndex_def Let_def index_ok_def)
qed

lemma entry_resolves: "index_ok ix \<Longrightarrow> (f, p) \<in> set (fi_all ix) \<Longrightarrow> map_of (fi_byPath ix) (joinFilterPath p) = Some f"
  by (rule map_of_is_SomeI) (force simp: index_ok_def comp_def split_def)+

lemma prefix_placed:
  "index_ok ix \<Longrightarrow> (f, p @ q) \<in> set (fi_all ix) \<Longrightarrow> placed p ix"
proof (induction q arbitrary: f rule: rev_induct)
  case Nil
  then show ?case by (auto simp: placed_def)
next
  case (snoc x q)
  then have "p @ q = [] \<or> (\<exists>g. (g, p @ q) \<in> set (fi_all ix))"
    unfolding index_ok_def by (metis append_assoc butlast_snoc)
  with snoc show ?case by (auto simp: placed_def)
qed

lemma chain_loop_spells:
  "index_ok ix \<Longrightarrow> (f, done @ todo) \<in> set (fi_all ix) \<Longrightarrow>
   map field_id (chain_loop ix done todo) = todo \<and> (todo \<noteq> [] \<longrightarrow> last (chain_loop ix done todo) = f)"
proof (induction todo arbitrary: "done")
  case (Cons i todo)
  have "placed (done @ [i]) ix" using prefix_placed [of ix f "done @ [i]" todo] Cons.prems by simp
  then obtain g where g: "(g, done @ [i]) \<in> set (fi_all ix)" by (auto simp: placed_def)
  note look = entry_resolves [OF Cons.prems(1) g]
  have "field_id g = i" using g Cons.prems(1) unfolding index_ok_def by (metis last_snoc)
  moreover have "g = f" if "todo = []"
    using that look entry_resolves [OF Cons.prems] by simp
  moreover have "map field_id (chain_loop ix (done @ [i]) todo) = todo \<and>
      (todo \<noteq> [] \<longrightarrow> last (chain_loop ix (done @ [i]) todo) = f)"
    using Cons.IH [of "done @ [i]"] Cons.prems by simp
  ultimately show ?case using look by auto
qed simp

text \<open>Every field of the index is found under its path, and the chain of a path names exactly the ids of
  that path and ends with the field, whatever the ids are (also with repeated siblings, or an id
  that contains the separator); so a path is always displayed by the labels of its own fields.\<close>

theorem indexed_path_resolves:
  assumes "(f, path) \<in> set (fi_all (buildFilterIndex schema None sig))"
  shows "getFilterField (buildFilterIndex schema None sig) path = Some f \<and>
    map field_id (getFilterFieldChain (buildFilterIndex schema None sig) path) = path \<and>
    last (getFilterFieldChain (buildFilterIndex schema None sig) path) = f \<and>
    formatFilterPath (buildFilterIndex schema None sig) path separator =
      join separator (map (fp_label \<circ> field_props) (getFilterFieldChain (buildFilterIndex schema None sig) path))"
proof -
  let ?ix = "buildFilterIndex schema None sig"
  have ne: "path \<noteq> []" using assms build_ok [of schema sig] unfolding index_ok_def by blast
  have c: "map field_id (getFilterFieldChain ?ix path) = path" "last (getFilterFieldChain ?ix path) = f"
    using chain_loop_spells [OF build_ok, of f "[]" path] assms ne by (simp_all add: getFilterFieldChain_def)
  then have "getFilterFieldChain ?ix path \<noteq> []" using ne by (metis list.map_disc_iff)
  with c entry_resolves [OF build_ok assms] show ?thesis
    by (simp add: getFilterField_def formatFilterPath_def comp_def)
qed

definition plain_props :: field_props where
  "plain_props = \<lparr>fp_label = ''L'', fp_keywords = None, fp_count = None, fp_selectable = None, fp_disabled = None,
     fp_type = None, fp_options = None, fp_operators = None, fp_default_operator = None, fp_editor = None,
     fp_column = None, fp_icon = False, fp_render_value = False, fp_load_options = False, fp_resolve_values = False\<rparr>"

definition sample_schema :: "filter_field list" where
  "sample_schema = [FilterField ''name'' plain_props (Some [FilterField ''first'' plain_props None,
     FilterField ''last'' plain_props None]), FilterField ''age'' plain_props None]"

theorem indexed_path_resolves_witness:
  "getFilterField (buildFilterIndex sample_schema None None) [''name'', ''last''] =
     Some (FilterField ''last'' plain_props None) \<and>
   formatFilterPath (buildFilterIndex sample_schema None None) [''name'', ''last''] ''>'' = ''L>L''"
proof -
  have "(FilterField ''last'' plain_props None, [''name'', ''last'']) \<in> set (fi_all (buildFilterIndex sample_schema None None))"
    by code_simp
  from indexed_path_resolves [OF this, of "''>''"] show ?thesis by code_simp
qed

section \<open>A clean schema is indexed completely\<close>

function schema_entries :: "filter_field list \<Rightarrow> string list \<Rightarrow> (filter_field \<times> string list) list" where
  "schema_entries [] pp = []"
| "schema_entries (f # rest) pp =
     (f, pp @ [field_id f]) # schema_entries (sub_fields f) (pp @ [field_id f]) @ schema_entries rest pp"
  by pat_completeness auto
termination
  by (relation "measure (\<lambda>(fs, _). size_list size fs)") (auto intro: size_sub_fields)

function clean_ids :: "filter_field list \<Rightarrow> string list \<Rightarrow> bool" where
  "clean_ids [] seen = True"
| "clean_ids (f # rest) seen \<longleftrightarrow>
     field_id f \<noteq> [] \<and> field_id f \<notin> set seen \<and> clean_ids (sub_fields f) [] \<and> clean_ids rest (field_id f # seen)"
  by pat_completeness auto
termination
  by (relation "measure (\<lambda>(fs, _). size_list size fs)") (auto intro: size_sub_fields)

function separator_free :: "filter_field list \<Rightarrow> bool" where
  "separator_free [] = True"
| "separator_free (f # rest) \<longleftrightarrow>
     PATH_SEPARATOR \<notin> set (field_id f) \<and> separator_free (sub_fields f) \<and> separator_free rest"
  by pat_completeness auto
termination
  by (relation "measure (size_list size)") (auto intro: size_sub_fields)

lemma field_issues_clean:
  "si_duplicatePaths (field_issues r l rep f is) = [] \<and> si_emptyIds (field_issues r l rep f is) = [] \<longleftrightarrow>
   si_duplicatePaths is = [] \<and> si_emptyIds is = [] \<and> field_id f \<noteq> [] \<and> \<not> rep"
  by (auto simp: field_issues_def Let_def split: option.splits)

lemma issues_walk_clean:
  "si_duplicatePaths (issues_walk r fs pp seen is) = [] \<and> si_emptyIds (issues_walk r fs pp seen is) = [] \<longleftrightarrow>
   si_duplicatePaths is = [] \<and> si_emptyIds is = [] \<and> clean_ids fs seen"
proof (induction r fs pp seen "is" rule: issues_walk.induct)
  case (2 r f rest pp seen "is")
  let ?is1 = "field_issues r (join ''.'' (pp @ [field_id f])) (field_id f \<in> set seen) f is"
  let ?is2 = "if sub_fields f = [] then ?is1 else issues_walk r (sub_fields f) (pp @ [field_id f]) [] ?is1"
  have "si_duplicatePaths ?is2 = [] \<and> si_emptyIds ?is2 = [] \<longleftrightarrow>
      si_duplicatePaths ?is1 = [] \<and> si_emptyIds ?is1 = [] \<and> clean_ids (sub_fields f) []"
    using "2.IH"(1) [OF refl refl] by (cases "sub_fields f = []") simp_all
  moreover have "si_duplicatePaths ?is1 = [] \<and> si_emptyIds ?is1 = [] \<longleftrightarrow>
      si_duplicatePaths is = [] \<and> si_emptyIds is = [] \<and> field_id f \<noteq> [] \<and> field_id f \<notin> set seen"
    by (rule field_issues_clean)
  moreover have "issues_walk r (f # rest) pp seen is = issues_walk r rest pp (field_id f # seen) ?is2"
    by (simp only: issues_walk.simps Let_def)
  ultimately show ?case unfolding clean_ids.simps using "2.IH"(2) [OF refl refl] by metis
qed simp

lemma entries_prefix: "(f, p) \<in> set (schema_entries fs pp) \<Longrightarrow> \<exists>i. i \<in> field_id ` set fs \<and> prefix (pp @ [i]) p"
proof (induction fs pp rule: schema_entries.induct)
  case (2 g rest pp)
  then consider "(f, p) = (g, pp @ [field_id g])" | "(f, p) \<in> set (schema_entries (sub_fields g) (pp @ [field_id g]))"
    | "(f, p) \<in> set (schema_entries rest pp)" by auto
  then show ?case
  proof cases
    case 2
    from "2.IH"(1) [OF this] have "prefix (pp @ [field_id g]) p" by (meson append_prefixD)
    then show ?thesis by auto
  qed (use "2.IH" in auto)
qed simp

lemma clean_disjoint: "clean_ids fs seen \<Longrightarrow> field_id ` set fs \<inter> set seen = {}"
proof (induction fs arbitrary: seen)
  case (Cons f fs)
  with Cons.IH [of "field_id f # seen"] show ?case by auto
qed simp

definition fresh_level :: "filter_field list \<Rightarrow> string list \<Rightarrow> filter_index \<Rightarrow> bool" where
  "fresh_level fs pp ix \<longleftrightarrow>
     (\<forall>f p i. (f, p) \<in> set (fi_all ix) \<longrightarrow> i \<in> field_id ` set fs \<longrightarrow> \<not> prefix (pp @ [i]) p)"

definition plain_paths :: "filter_index \<Rightarrow> bool" where
  "plain_paths ix \<longleftrightarrow> (\<forall>f p. (f, p) \<in> set (fi_all ix) \<longrightarrow> p \<noteq> [] \<and> (\<forall>i\<in>set p. PATH_SEPARATOR \<notin> set i)) \<and>
     fi_byPath ix = map (\<lambda>(f, p). (joinFilterPath p, f)) (fi_all ix)"

lemma plain_absent:
  assumes "plain_paths ix" "\<forall>i\<in>set path. PATH_SEPARATOR \<notin> set i" "path \<noteq> []"
    and "\<forall>f p. (f, p) \<in> set (fi_all ix) \<longrightarrow> p \<noteq> path"
  shows "map_of (fi_byPath ix) (joinFilterPath path) = None"
proof -
  have "joinFilterPath path \<noteq> joinFilterPath p" if "(f, p) \<in> set (fi_all ix)" for f p
  proof -
    have "p \<noteq> []" "\<forall>i\<in>set p. PATH_SEPARATOR \<notin> set i" "p \<noteq> path"
      using assms(1,4) that unfolding plain_paths_def by blast+
    then show ?thesis using join_inject [OF assms(3) _ assms(2), of p] unfolding joinFilterPath_def by metis
  qed
  then have "joinFilterPath path \<notin> fst ` set (map (\<lambda>(f, p). (joinFilterPath p, f)) (fi_all ix))"
    by (metis (no_types, lifting) imageE fst_conv list.set_map split_def prod.collapse)
  moreover have "fi_byPath ix = map (\<lambda>(f, p). (joinFilterPath p, f)) (fi_all ix)"
    using assms(1) unfolding plain_paths_def by blast
  ultimately show ?thesis by (simp only: map_of_eq_None_iff)  simp
qed

lemma index_walk_entries:
  "clean_ids fs seen \<Longrightarrow> separator_free fs \<Longrightarrow> \<forall>i\<in>set pp. PATH_SEPARATOR \<notin> set i \<Longrightarrow> plain_paths ix \<Longrightarrow>
   fresh_level fs pp ix \<Longrightarrow>
   plain_paths (index_walk fs pp key seen acc ix) \<and>
   fi_all (index_walk fs pp key seen acc ix) = fi_all ix @ schema_entries fs pp"
proof (induction fs pp key seen acc ix rule: index_walk.induct)
  case (1 pp key seen acc ix)
  then show ?case by (simp add: plain_paths_def)
next
  case (2 f rest pp key seen acc ix)
  let ?path = "pp @ [field_id f]"
  let ?ix1 = "enter_field f ?path key ix"
  let ?ix2 = "if sub_fields f = [] then ?ix1 else index_walk (sub_fields f) ?path (joinFilterPath ?path) [] [] ?ix1"
  have f: "field_id f \<notin> set seen" "clean_ids (sub_fields f) []" "clean_ids rest (field_id f # seen)"
    "separator_free (sub_fields f)" "separator_free rest" "PATH_SEPARATOR \<notin> set (field_id f)"
    using "2.prems"(1,2) by auto
  have path: "\<forall>i\<in>set ?path. PATH_SEPARATOR \<notin> set i" using "2.prems"(3) f(6) by simp
  have absent: "map_of (fi_byPath ix) (joinFilterPath ?path) = None"
    using "2.prems"(4,5) path by (intro plain_absent) (auto simp: fresh_level_def)
  have plain1: "plain_paths ?ix1"
    using "2.prems"(4) path unfolding plain_paths_def by (auto simp: enter_field_def)
  have old: "\<not> prefix ?path p" if "(g, p) \<in> set (fi_all ix)" for g p
    using "2.prems"(5) that unfolding fresh_level_def by simp
  have "fresh_level (sub_fields f) ?path ?ix1"
    unfolding fresh_level_def
  proof (intro allI impI)
    fix g p i assume "(g, p) \<in> set (fi_all ?ix1)"
    then show "\<not> prefix (?path @ [i]) p"
      using old append_prefixD [of ?path "[i]" p] prefix_length_le [of "?path @ [i]" p] by auto
  qed
  with "2.IH"(3) [OF f(1) refl refl _ _ f(2,4) path plain1] absent plain1
  have i2: "plain_paths ?ix2 \<and> fi_all ?ix2 = fi_all ix @ (f, ?path) # schema_entries (sub_fields f) ?path" by auto
  have "\<not> prefix (pp @ [i]) p" if "(g, p) \<in> set (fi_all ?ix2)" "i \<in> field_id ` set rest" for g p i
  proof (cases "(g, p) \<in> set (fi_all ix)")
    case True
    with "2.prems"(5) that(2) show ?thesis by (auto simp: fresh_level_def)
  next
    case False
    with that(1) i2 have "(g, p) = (f, ?path) \<or> (g, p) \<in> set (schema_entries (sub_fields f) ?path)" by auto
    then have "prefix ?path p" using entries_prefix append_prefixD by fastforce
    moreover have "i \<noteq> field_id f" using clean_disjoint [OF f(3)] that(2) by (metis disjoint_iff list.set_intros(1))
    ultimately show ?thesis by (auto simp: prefix_def)
  qed
  then have "fresh_level rest pp ?ix2" unfolding fresh_level_def by blast
  with "2.IH"(4) [OF f(1) refl refl _ f(3,5) "2.prems"(3)] absent f(1) i2 show ?case by (auto simp: Let_def)
qed

text \<open>When the schema checks report neither an empty nor a repeated id and no id contains the separator
  character, the index holds every field of the schema, branches and leaves, exactly once, under its
  path and in document order.\<close>

theorem clean_schema_fully_indexed:
  assumes "si_duplicatePaths (findFilterSchemaIssues schema resolveOperators) = []"
    and "si_emptyIds (findFilterSchemaIssues schema resolveOperators) = []"
    and "separator_free schema"
  shows "fi_all (buildFilterIndex schema None sig) = schema_entries schema []"
proof -
  have "clean_ids schema []"
    using assms(1,2) unfolding findFilterSchemaIssues_def by (metis issues_walk_clean)
  then have "fi_all (index_walk schema [] FILTER_ROOT_KEY [] [] EMPTY_INDEX) = fi_all EMPTY_INDEX @ schema_entries schema []"
    using index_walk_entries [of schema "[]" "[]" EMPTY_INDEX] assms(3)
    by (simp add: plain_paths_def fresh_level_def EMPTY_INDEX_def)
  then show ?thesis by (simp add: buildFilterIndex_def Let_def EMPTY_INDEX_def)
qed

theorem clean_schema_fully_indexed_witness:
  "map snd (fi_all (buildFilterIndex sample_schema None None)) = [[''name''], [''name'', ''first''], [''name'', ''last''], [''age'']] \<and>
   fi_all (buildFilterIndex sample_schema None None) = schema_entries sample_schema []"
proof -
  have "si_duplicatePaths (findFilterSchemaIssues sample_schema (\<lambda>f. [])) = []"
    "si_emptyIds (findFilterSchemaIssues sample_schema (\<lambda>f. [])) = []" "separator_free sample_schema"
    by code_simp+
  note r = clean_schema_fully_indexed [OF this, of None]
  moreover have "map snd (schema_entries sample_schema []) = [[''name''], [''name'', ''first''], [''name'', ''last''], [''age'']]"
    by code_simp
  ultimately show ?thesis by simp
qed

section \<open>Paths and search\<close>

text \<open>A path survives being joined into a key and split again, unless an id contains the separator or
  the path is the single empty id.\<close>

theorem path_key_roundtrip:
  assumes "\<forall>i\<in>set path. PATH_SEPARATOR \<notin> set i" "path \<noteq> [[]]"
  shows "splitFilterPath (joinFilterPath path) = path"
proof (cases "path = []")
  case True
  then show ?thesis by (simp add: splitFilterPath_def joinFilterPath_def)
next
  case False
  have "join [PATH_SEPARATOR] path \<noteq> []"
    using False assms(2) by (cases path rule: remdups_adj.cases) auto
  with split_on_join [OF False assms(1)] show ?thesis by (simp add: splitFilterPath_def joinFilterPath_def)
qed

theorem path_key_roundtrip_witness:
  "splitFilterPath (joinFilterPath [''name'', [], ''first'']) = [''name'', [], ''first''] \<and>
   splitFilterPath (joinFilterPath [[]]) = []"
proof -
  have "\<forall>i\<in>set [''name'', [], ''first'']. PATH_SEPARATOR \<notin> set i" "[''name'', [], ''first''] \<noteq> [[]]"
    by (simp_all add: PATH_SEPARATOR_def)
  from path_key_roundtrip [OF this] show ?thesis by (simp add: splitFilterPath_def joinFilterPath_def)
qed

lemma search_loop_take:
  "length results \<le> limit \<Longrightarrow>
   search_loop foldText q limit results es =
     results @ take (limit - length results)
       (filter (\<lambda>e. isFilterFieldSelectable (fst e) \<and> matchesFilterQuery foldText (fst e) q) es)"
proof (induction es arbitrary: results)
  case (Cons e es)
  show ?case
  proof (cases "limit = length results")
    case False
    then obtain k where k: "limit = Suc (length results + k)" using Cons.prems by (auto dest: less_imp_Suc_add simp: le_less)
    with Cons.IH [of results] Cons.IH [of "results @ [e]"] show ?thesis by auto
  qed simp
qed simp

lemma search_deep:
  "q \<noteq> [] \<Longrightarrow> searchFilterDeep foldText ix q limit =
     take limit (filter (\<lambda>e. isFilterFieldSelectable (fst e) \<and> matchesFilterQuery foldText (fst e) q) (fi_all ix))"
  by (simp add: searchFilterDeep_def search_loop_take)

section \<open>The positional adapter\<close>

lemma dec_to_nat_inverse [simp]: "dec_to_nat (nat_to_dec n) = n"
proof (induction n rule: nat_to_dec.induct)
  case (1 n)
  have d: "of_char (digit_char k) - 48 = k" if "k < 10" for k :: nat
    using that by (simp add: digit_char_def)
  show ?case
  proof (cases "n < 10")
    case True
    then have "nat_to_dec n = [digit_char n]" by (subst nat_to_dec.simps) simp
    with d True show ?thesis by (simp add: dec_to_nat_def)
  next
    case False
    then have "nat_to_dec n = nat_to_dec (n div 10) @ [digit_char (n mod 10)]" by (subst nat_to_dec.simps) simp
    with 1 False d [of "n mod 10"] show ?thesis by (simp add: dec_to_nat_def)
  qed
qed

lemma collapse_map:
  "collapseCascaderPath (map h path) m c = map (map_segment h) (collapseCascaderPath path m c)"
  by (simp add: collapseCascaderPath_def Let_def take_map drop_map comp_def)

text \<open>Shortening a chain of fields through the positional adapter (indices written as text and read back)
  is the cascader's shortening applied to the fields themselves, so it hides and shows the same
  positions, also when two fields of the chain have the same id.\<close>

theorem collapse_adapter_transparent:
  "collapseFilterPath chain m c =
   collapseCascaderPath chain (case m of None \<Rightarrow> 3 | Some n \<Rightarrow> n) (case c of None \<Rightarrow> CollapseNone | Some d \<Rightarrow> d)"
proof -
  let ?nodes = "map (\<lambda>(k, f). (nat_to_dec k, fp_label (field_props f))) (enumerate 0 chain)"
  have "map (\<lambda>(value, label). chain ! dec_to_nat value) ?nodes = chain"
    by (rule nth_equalityI) (simp_all add: nth_enumerate_eq)
  then show ?thesis unfolding collapseFilterPath_def collapse_map [symmetric] by simp
qed

section \<open>Exclusive options\<close>

lemma last_exclusive:
  "fold (\<lambda>v arrived. if P v then Some v else arrived) vs a =
     (case filter P vs of [] \<Rightarrow> a | _ \<Rightarrow> Some (last (filter P vs)))"
  by (induction vs arbitrary: a) (auto split: list.splits)

text \<open>The rule for exclusive options: when something was picked, either an exclusive option arrived and the
  last one that did is the whole selection, or none arrived and the selection is the new one with
  every exclusive value dropped and every new pick kept; a removal is taken as it is.\<close>

theorem exclusive_pick_rule:
  "applyFilterExclusiveSelection next prev isExclusive =
     (if set next \<subseteq> set prev then next
      else if \<exists>v. v \<in> set next \<and> v \<notin> set prev \<and> isExclusive v
      then [last (filter (\<lambda>v. v \<notin> set prev \<and> isExclusive v) next)]
      else filter (\<lambda>v. \<not> isExclusive v) next)"
proof -
  let ?added = "filter (\<lambda>v. v \<notin> set prev) next"
  let ?ex = "filter (\<lambda>v. v \<notin> set prev \<and> isExclusive v) next"
  have ex: "filter isExclusive ?added = ?ex" by (simp add: conj_commute)
  have none: "?added = [] \<longleftrightarrow> set next \<subseteq> set prev" by (auto simp: filter_empty_conv)
  have some: "?ex = [] \<longleftrightarrow> \<not> (\<exists>v. v \<in> set next \<and> v \<notin> set prev \<and> isExclusive v)" by (auto simp: filter_empty_conv)
  show ?thesis
    unfolding applyFilterExclusiveSelection_def Let_def last_exclusive ex none
    unfolding some [THEN arg_cong [of _ _ Not], simplified not_not, symmetric]
    by (cases ?ex) (simp_all del: filter_filter)
qed

section \<open>What the signature does not see\<close>

definition with_operators :: "filter_operator list \<Rightarrow> filter_field list" where
  "with_operators ops = [FilterField ''age'' (plain_props\<lparr>fp_operators := Some (OpList ops)\<rparr>) None]"

definition between_op :: "filter_arity \<Rightarrow> filter_operator" where
  "between_op a = \<lparr>op_value = ''between'', op_label = ''is between'', op_arity = Some a, op_inverse = None, op_hidden = None\<rparr>"

text \<open>The signature leaves out the arity of an operator: two schemas that differ in it have the same
  signature, and an index built with the earlier one as its predecessor keeps the old arity.\<close>

theorem signature_misses_arity:
  "computeFilterSchemaSignature (with_operators [between_op ArRange]) =
     computeFilterSchemaSignature (with_operators [between_op ArOne]) \<and>
   fi_all (buildFilterIndex (with_operators [between_op ArRange])
     (Some (buildFilterIndex (with_operators [between_op ArOne]) None None)) None) \<noteq>
   fi_all (buildFilterIndex (with_operators [between_op ArRange]) None None)"
proof -
  have s: "computeFilterSchemaSignature (with_operators [between_op ArRange]) =
      computeFilterSchemaSignature (with_operators [between_op ArOne])"
    by (simp add: computeFilterSchemaSignature_def with_operators_def between_op_def signature_part_def)
  have "fi_signature (buildFilterIndex (with_operators [between_op ArOne]) None None) =
      computeFilterSchemaSignature (with_operators [between_op ArOne])"
    by (simp add: buildFilterIndex_def with_operators_def)
  then have "buildFilterIndex (with_operators [between_op ArRange])
      (Some (buildFilterIndex (with_operators [between_op ArOne]) None None)) None =
      buildFilterIndex (with_operators [between_op ArOne]) None None"
    using s by (simp add: buildFilterIndex_def [of "with_operators [between_op ArRange]" "Some _"])
  moreover have "fi_all (buildFilterIndex (with_operators [between_op ArOne]) None None) \<noteq>
      fi_all (buildFilterIndex (with_operators [between_op ArRange]) None None)"
    by (simp add: buildFilterIndex_def with_operators_def between_op_def Let_def EMPTY_INDEX_def enter_field_def
        sub_fields_def plain_props_def)
  ultimately show ?thesis using s by simp
qed

section \<open>The id factory\<close>

definition issued_ids :: "string \<Rightarrow> nat \<Rightarrow> string set" where
  "issued_ids seed n = {seed @ nat_to_dec k | k. 1 \<le> k \<and> k \<le> n}"

text \<open>The factory meets the contract of an id source for every seed, and so every clone made with it has
  fresh ids.\<close>

interpretation factory: id_source "createFilterIdFactory seed" "issued_ids seed" for seed
  by unfold_locales (auto simp: createFilterIdFactory_def issued_ids_def le_Suc_eq)

lemma issued_ids_0 [simp]: "issued_ids seed 0 = {}"
  by (simp add: issued_ids_def)

end
