(* ===== verification/Filter_Draft.thy ===== *)
theory Filter_Draft
  imports Filter_Operators
begin

text \<open>
  The step machine of the filter builder (\<^verbatim>\<open>filters-draft.tsx\<close>): a draft, or \<open>None\<close> for closed, and
  the reducer over its actions.  The properties are about every action the reducer takes; those the
  shipped bar dispatches form the subset \<open>shipped\<close>.
\<close>

datatype draft_step = StepField | StepOperator | StepValue

datatype draft_status = Editing | Ready

record filter_draft =
  draft_step :: draft_step
  draft_status :: draft_status
  draft_rule :: "string option"
  draft_path :: "string list"
  draft_cascader :: "string list"
  draft_operator :: "string option"
  draft_value :: js_value
  draft_query :: string

datatype draft_action =
    OpenCreate "string list option"
  | OpenAmend string draft_step "string list" "string option" js_value "string list option"
  | Close
  | SetCascaderPath "string list"
  | SetQuery string
  | SelectField "string list" "string option"
  | SelectOperator string filter_arity js_value
  | SetValue js_value
  | Commit js_value
  | Back
  | Goto draft_step

definition createFilterDraft :: "string list \<Rightarrow> filter_draft" where
  "createFilterDraft cascaderPath =
     \<lparr>draft_step = StepField, draft_status = Editing, draft_rule = None, draft_path = [],
      draft_cascader = cascaderPath, draft_operator = None, draft_value = JUndefined, draft_query = []\<rparr>"

fun previousStep :: "draft_step \<Rightarrow> draft_step option" where
  "previousStep StepValue = Some StepOperator"
| "previousStep StepOperator = Some StepField"
| "previousStep StepField = None"

text \<open>
  The reducer on an open draft.  \<^verbatim>\<open>setCascaderPath\<close> and \<^verbatim>\<open>setQuery\<close> return the same object when
  nothing changes, which is the same value.
\<close>

fun draft_step_open :: "filter_draft \<Rightarrow> draft_action \<Rightarrow> filter_draft option" where
  "draft_step_open d (OpenCreate cp) = Some (createFilterDraft (case cp of None \<Rightarrow> [] | Some p \<Rightarrow> p))"
| "draft_step_open d (OpenAmend r st p oper v cp) =
     Some \<lparr>draft_step = st, draft_status = Editing, draft_rule = Some r, draft_path = p,
           draft_cascader = (case cp of None \<Rightarrow> butlast p | Some c \<Rightarrow> c), draft_operator = oper,
           draft_value = v, draft_query = []\<rparr>"
| "draft_step_open d Close = None"
| "draft_step_open d (SetCascaderPath p) = Some (d\<lparr>draft_cascader := p\<rparr>)"
| "draft_step_open d (SetQuery q) = Some (d\<lparr>draft_query := q\<rparr>)"
| "draft_step_open d (SelectField p dflt) =
     Some (d\<lparr>draft_path := p, draft_operator := dflt, draft_status := Ready, draft_value := JUndefined,
             draft_step := StepOperator, draft_query := []\<rparr>)"
| "draft_step_open d (SelectOperator oper arity v) =
     (if arity = ArNone
      then Some (d\<lparr>draft_operator := Some oper, draft_value := JUndefined, draft_status := Ready,
                   draft_query := []\<rparr>)
      else Some (d\<lparr>draft_operator := Some oper, draft_value := v, draft_step := StepValue,
                   draft_status := Editing, draft_query := []\<rparr>))"
| "draft_step_open d (SetValue v) = Some (d\<lparr>draft_value := v\<rparr>)"
| "draft_step_open d (Commit v) =
     Some (d\<lparr>draft_value := (if v = JUndefined then draft_value d else v), draft_status := Ready\<rparr>)"
| "draft_step_open d Back =
     (case previousStep (draft_step d) of
        None \<Rightarrow> None
      | Some st \<Rightarrow> Some (d\<lparr>draft_step := st, draft_status := Editing, draft_query := []\<rparr>))"
| "draft_step_open d (Goto st) =
     (if draft_step d = st then Some d
      else Some (d\<lparr>draft_step := st, draft_status := Editing, draft_query := []\<rparr>))"

fun opens :: "draft_action \<Rightarrow> bool" where
  "opens (OpenCreate _) = True"
| "opens (OpenAmend _ _ _ _ _ _) = True"
| "opens _ = False"

text \<open>A closed builder answers the two open actions and ignores the rest.\<close>

definition filterDraftReducer :: "filter_draft option \<Rightarrow> draft_action \<Rightarrow> filter_draft option" where
  "filterDraftReducer state action =
     (case state of
        Some d \<Rightarrow> draft_step_open d action
      | None \<Rightarrow> if opens action then draft_step_open (createFilterDraft []) action else None)"

definition isFilterDraftCommittable :: "filter_draft option \<Rightarrow> bool" where
  "isFilterDraftCommittable draft = (case draft of None \<Rightarrow> False | Some d \<Rightarrow> draft_path d \<noteq> [])"

section \<open>Properties\<close>

lemma opens_ignores_state: "opens a \<Longrightarrow> draft_step_open d a = draft_step_open d' a"
  by (cases a) auto

text \<open>How many Back presses an open draft is from closing.\<close>

fun steps_left :: "draft_step \<Rightarrow> nat" where
  "steps_left StepField = 1"
| "steps_left StepOperator = 2"
| "steps_left StepValue = 3"

lemma back_closes:
  "steps_left (draft_step d) = n \<Longrightarrow> ((\<lambda>s. filterDraftReducer s Back) ^^ n) (Some d) = None"
proof (induction n arbitrary: d)
  case 0
  then show ?case by (cases "draft_step d") auto
next
  case (Suc n)
  show ?case
  proof (cases "previousStep (draft_step d)")
    case None
    then have "n = 0" using Suc.prems by (cases "draft_step d") auto
    with None show ?thesis by (simp add: filterDraftReducer_def)
  next
    case (Some st)
    let ?d = "d\<lparr>draft_step := st, draft_status := Editing, draft_query := []\<rparr>"
    have "steps_left (draft_step ?d) = n" using Some Suc.prems by (cases "draft_step d") auto
    from Suc.IH [OF this] Some show ?thesis
      by (simp add: filterDraftReducer_def funpow_Suc_right del: funpow.simps)
  qed
qed

text \<open>Pressing Back walks the steps to the front and then closes the builder: from any open draft
  exactly the number of steps left closes it (never more than three), and no Back before that does;
  once closed, every action but the two that open keeps it closed.\<close>

theorem back_reaches_closed:
  "((\<lambda>s. filterDraftReducer s Back) ^^ steps_left (draft_step d)) (Some d) = None \<and>
   steps_left (draft_step d) \<le> 3 \<and>
   (filterDraftReducer (Some d) Back = None) = (draft_step d = StepField) \<and>
   (filterDraftReducer None a \<noteq> None) = opens a"
proof -
  have "(filterDraftReducer (Some d) Back = None) = (draft_step d = StepField)"
    by (cases "draft_step d") (simp_all add: filterDraftReducer_def)
  moreover have "(filterDraftReducer None a \<noteq> None) = opens a"
    by (cases a) (auto simp: filterDraftReducer_def)
  moreover have "steps_left (draft_step d) \<le> 3" by (cases "draft_step d") auto
  ultimately show ?thesis using back_closes [OF refl] by simp
qed

text \<open>The actions the shipped bar dispatches; a picked field has a path.\<close>

fun shipped :: "draft_action \<Rightarrow> bool" where
  "shipped (OpenCreate _) = True"
| "shipped (SetCascaderPath _) = True"
| "shipped (SetQuery _) = True"
| "shipped (SelectField p _) = (p \<noteq> [])"
| "shipped Close = True"
| "shipped _ = False"

inductive draft_reachable :: "filter_draft option \<Rightarrow> bool" where
  start: "draft_reachable None"
| step: "draft_reachable s \<Longrightarrow> shipped a \<Longrightarrow> draft_reachable (filterDraftReducer s a)"

definition draft_inv :: "filter_draft \<Rightarrow> bool" where
  "draft_inv d \<longleftrightarrow> draft_step d \<noteq> StepValue \<and> draft_rule d = None \<and> draft_value d = JUndefined \<and>
     (draft_status d = Ready \<longleftrightarrow> draft_path d \<noteq> []) \<and> (draft_step d = StepOperator \<longleftrightarrow> draft_path d \<noteq> []) \<and>
     (draft_path d = [] \<longrightarrow> draft_operator d = None)"

lemma shipped_step:
  assumes "shipped a" "pred_option draft_inv s"
  shows "pred_option draft_inv (filterDraftReducer s a)"
proof (cases s)
  case None
  with assms(1) show ?thesis
    by (cases a) (simp_all add: filterDraftReducer_def draft_inv_def createFilterDraft_def)
next
  case (Some d)
  with assms have "draft_inv d" by simp
  with assms(1) Some show ?thesis
    by (cases a) (simp_all add: filterDraftReducer_def draft_inv_def createFilterDraft_def)
qed

text \<open>In the shipped create flow a draft is ready exactly when it can be committed: from closed, by
  the bar's own actions, every draft that is marked ready has a field path and no value, and every
  draft still being edited has none, so nothing half-built is ever committed.\<close>

theorem shipped_ready_iff_committable:
  assumes "draft_reachable s"
  shows "isFilterDraftCommittable s = (\<exists>d. s = Some d \<and> draft_status d = Ready) \<and>
    (\<forall>d. s = Some d \<longrightarrow> draft_rule d = None \<and> draft_value d = JUndefined \<and> draft_step d \<noteq> StepValue)"
proof -
  have "pred_option draft_inv s"
    using assms by (induction rule: draft_reachable.induct) (simp_all add: shipped_step)
  then show ?thesis by (auto simp: isFilterDraftCommittable_def draft_inv_def split: option.splits)
qed

theorem shipped_ready_iff_committable_witness:
  "isFilterDraftCommittable (filterDraftReducer (filterDraftReducer None (OpenCreate None))
     (SelectField [''status''] (Some ''is'')))"
proof -
  let ?s = "filterDraftReducer (filterDraftReducer None (OpenCreate None)) (SelectField [''status''] (Some ''is''))"
  have "draft_reachable ?s" by (intro draft_reachable.intros) simp_all
  moreover have "\<exists>d. ?s = Some d \<and> draft_status d = Ready"
    by (simp add: filterDraftReducer_def createFilterDraft_def)
  ultimately show ?thesis using shipped_ready_iff_committable by blast
qed

end
