(* ===== verification/Filter_Bar.thy ===== *)
theory Filter_Bar
  imports Filter_Schema_Props Filter_Draft Filter_Edits_More
begin

text \<open>
  The filter bar as a state machine (\<^verbatim>\<open>filters.tsx\<close>, with the stores of \<^verbatim>\<open>filters-context.tsx\<close>): the query
  held by the bar, the id factory, the draft, the focus store, the row-state store and the live
  region, and every action the bar publishes.  All writes to the query go through \<open>emit\<close>, which asks
  the lock first and then the consumer's veto.

  \<^verbatim>\<open>next === current\<close> is reference equality.  An action that may return its argument answers \<open>None\<close>
  for "the same object" here: the functions ending in \<open>_ref\<close> say when that is.
\<close>

section \<open>Stores\<close>

datatype focus_segment =
    SegCombinator | SegField | SegOperator | SegValue | SegAdd | SegMenu | SegUngroup | SegRemove | SegDrag

record filter_focus =
  focus_id :: "string option"
  focus_segment :: "focus_segment option"
  focus_autoOpen :: bool

definition NO_FOCUS :: filter_focus where
  "NO_FOCUS = \<lparr>focus_id = None, focus_segment = None, focus_autoOpen = False\<rparr>"

text \<open>The focus store: the snapshot and how often its listeners were called.\<close>

record focus_store =
  fs_snapshot :: filter_focus
  fs_notified :: nat

definition focus_set :: "filter_focus \<Rightarrow> focus_store \<Rightarrow> focus_store" where
  "focus_set next s =
     (if next = fs_snapshot s then s else \<lparr>fs_snapshot = next, fs_notified = fs_notified s + 1\<rparr>)"

record row_store =
  rw_touched :: "string list"
  rw_pending :: "string list"
  rw_version :: nat

definition row_mark :: "string \<Rightarrow> row_store \<Rightarrow> row_store" where
  "row_mark i s = (if i \<in> set (rw_touched s) then s
     else s\<lparr>rw_touched := rw_touched s @ [i], rw_version := rw_version s + 1\<rparr>)"

definition row_unmark :: "string \<Rightarrow> row_store \<Rightarrow> row_store" where
  "row_unmark i s = (if i \<notin> set (rw_touched s) then s
     else s\<lparr>rw_touched := removeAll i (rw_touched s), rw_version := rw_version s + 1\<rparr>)"

definition row_markPending :: "string \<Rightarrow> row_store \<Rightarrow> row_store" where
  "row_markPending i s = (if i \<in> set (rw_pending s) then s
     else s\<lparr>rw_pending := rw_pending s @ [i], rw_version := rw_version s + 1\<rparr>)"

definition row_resolvePending :: "string \<Rightarrow> row_store \<Rightarrow> row_store" where
  "row_resolvePending i s = (if i \<notin> set (rw_pending s) then s
     else s\<lparr>rw_pending := removeAll i (rw_pending s), rw_version := rw_version s + 1\<rparr>)"

definition row_reset :: "row_store \<Rightarrow> row_store" where
  "row_reset s = (if rw_touched s = [] \<and> rw_pending s = [] then s
     else \<lparr>rw_touched = [], rw_pending = [], rw_version = rw_version s + 1\<rparr>)"

section \<open>What the bar is given and what it holds\<close>

record filter_labels =
  lb_count :: "nat \<Rightarrow> string"
  lb_group :: "bool \<Rightarrow> string"
  lb_groupAll :: string
  lb_groupAny :: string
  lb_filters :: string
  lb_separator :: string
  lb_move :: "string \<Rightarrow> string \<Rightarrow> int \<Rightarrow> nat \<Rightarrow> string"
  lb_reorder :: "string \<Rightarrow> int \<Rightarrow> nat \<Rightarrow> string"

datatype change_reason = RAdd | RUpdate | RRemove | RDuplicate | RNegate | RReorder | RCombinator | RClear

record change_details =
  cd_reason :: change_reason
  cd_rule :: "filter_rule option"
  cd_field :: "filter_field option"

text \<open>
  The props of one render, with the copies of the lock flags the \<^verbatim>\<open>latest\<close> ref holds, which may lag
  behind by one commit.  \<open>bp_before\<close> is the consumer's veto; a handler that returns nothing answers
  \<open>None\<close>.  \<open>bp_call\<close> evaluates operator lists given as functions.
\<close>

record bar_props =
  bp_disabled :: bool
  bp_readOnly :: bool
  bp_latest_disabled :: bool
  bp_latest_readOnly :: bool
  bp_controlled :: bool
  bp_index :: filter_index
  bp_labels :: filter_labels
  bp_catalog :: "value_type \<Rightarrow> filter_operator list"
  bp_call :: "nat \<Rightarrow> filter_field \<Rightarrow> filter_operator list"
  bp_before :: "(filter_query \<Rightarrow> change_details \<Rightarrow> bool option) option"
  bp_seed :: string

record bar_state =
  bs_query :: filter_query
  bs_internal :: filter_query
  bs_counter :: nat
  bs_draft :: "filter_draft option"
  bs_focus :: focus_store
  bs_rows :: row_store
  bs_announced :: "nat \<times> string"
  bs_changes :: "(filter_query \<times> change_details) list"

definition isFilterLocked :: "bool \<Rightarrow> bool \<Rightarrow> bool" where
  "isFilterLocked disabled readOnly \<longleftrightarrow> disabled \<or> readOnly"

definition locked :: "bar_props \<Rightarrow> bool" where
  "locked p \<longleftrightarrow> bp_disabled p \<or> bp_readOnly p \<or> isFilterLocked (bp_latest_disabled p) (bp_latest_readOnly p)"

definition setAnnouncement :: "string \<Rightarrow> bar_state \<Rightarrow> bar_state" where
  "setAnnouncement t st = st\<lparr>bs_announced := (fst (bs_announced st) + 1, t)\<rparr>"

section \<open>Writing\<close>

definition setQuery :: "bar_props \<Rightarrow> filter_query option \<Rightarrow> change_details \<Rightarrow> bar_state \<Rightarrow> bar_state" where
  "setQuery p next details st =
     (case next of
        None \<Rightarrow> st
      | Some q \<Rightarrow> st\<lparr>bs_query := q, bs_internal := (if bp_controlled p then bs_internal st else q),
                     bs_changes := bs_changes st @ [(q, details)]\<rparr>)"

definition emit ::
  "bar_props \<Rightarrow> filter_query option \<Rightarrow> change_reason \<Rightarrow> filter_rule option \<Rightarrow> bar_state \<Rightarrow> bool \<times> bar_state" where
  "emit p next reason rule st =
     (if locked p then (False, st)
      else let details = \<lparr>cd_reason = reason, cd_rule = rule,
                          cd_field = Option.bind rule (\<lambda>r. getFilterField (bp_index p) (rule_path r))\<rparr>
           in if Option.bind (bp_before p) (\<lambda>f. f (settle (bs_query st) next) details) = Some False
              then (False, st) else (True, setQuery p next details st))"

definition nextId :: "bar_props \<Rightarrow> bar_state \<Rightarrow> string \<times> bar_state" where
  "nextId p st = (let (i, c) = createFilterIdFactory (bp_seed p) (bs_counter st) in (i, st\<lparr>bs_counter := c\<rparr>))"

text \<open>Edits that grow, shrink or relabel the tree when they do anything: the same content is the same object.\<close>

definition ref :: "filter_query \<Rightarrow> filter_query \<Rightarrow> filter_query option" where
  "ref q next = (if next = q then None else Some next)"

text \<open>An update rebuilds the groups above the rule as soon as there is one, also when nothing changes.\<close>

definition update_ref :: "filter_query \<Rightarrow> string \<Rightarrow> rule_updates \<Rightarrow> filter_query option" where
  "update_ref q i u =
     (if list_ex (\<lambda>r. rule_id r = i) (flattenFilterRules q) then Some (updateFilterRule q i u) else None)"

text \<open>The guards of the two moves; past them a new tree is built, whatever its content.\<close>

definition move_ref :: "filter_query \<Rightarrow> string \<Rightarrow> int \<Rightarrow> filter_query option" where
  "move_ref q i delta =
     (case findFilterNode q i of
        None \<Rightarrow> None
      | Some f \<Rightarrow>
          (case found_parent f of
             None \<Rightarrow> None
           | Some parent \<Rightarrow>
               if found_index f + delta < 0 \<or> found_index f + delta \<ge> int (length (group_rules parent)) \<or> delta = 0
               then None else Some (moveFilterNode q i delta)))"

definition move_to_ref :: "filter_query \<Rightarrow> string \<Rightarrow> string \<Rightarrow> int \<Rightarrow> filter_query option" where
  "move_to_ref q i parentId index =
     (case findFilterNode q i of
        None \<Rightarrow> None
      | Some f \<Rightarrow>
          (case (found_parent f, findFilterNode q parentId) of
             (Some parent, Some destination) \<Rightarrow>
               if containsFilterNode (found_node f) parentId \<or> \<not> isFilterGroup (found_node destination) \<or>
                  (group_id parent = parentId \<and>
                   (if found_index f < index then index - 1 else index) = found_index f)
               then None else Some (moveFilterNodeTo q i parentId index)
           | _ \<Rightarrow> None))"

section \<open>Actions\<close>

definition addRule :: "bar_props \<Rightarrow> filter_rule \<Rightarrow> string option \<Rightarrow> bar_state \<Rightarrow> bar_state" where
  "addRule p rule parentId st =
     (if locked p then st
      else let next = ref (bs_query st) (insertFilterNode (bs_query st) (RuleNode rule) parentId None);
               (ok, st1) = emit p next RAdd (Some rule) st
           in if ok then setAnnouncement (lb_count (bp_labels p) (countFilterRules (settle (bs_query st) next))) st1
              else st1)"

definition addGroup :: "bar_props \<Rightarrow> string option \<Rightarrow> filter_combinator \<Rightarrow> bar_state \<Rightarrow> string \<times> bar_state" where
  "addGroup p parentId combinator st =
     (if locked p then ([], st)
      else let (i, st1) = nextId p st;
               next = ref (bs_query st1) (insertFilterNode (bs_query st1)
                        (GroupNode (createFilterGroup i (Some combinator) None)) parentId None);
               (ok, st2) = emit p next RAdd None st1
           in if ok then (i, setAnnouncement (lb_group (bp_labels p) True) st2) else ([], st2))"

definition updateRule :: "bar_props \<Rightarrow> string \<Rightarrow> rule_updates \<Rightarrow> bar_state \<Rightarrow> bar_state" where
  "updateRule p i updates st =
     (if locked p then st
      else case update_ref (bs_query st) i updates of
             None \<Rightarrow> st
           | Some q \<Rightarrow>
               (let st1 = st\<lparr>bs_rows := (if upd_path updates \<noteq> None then row_unmark i (bs_rows st)
                                          else if upd_value updates \<noteq> None then row_mark i (bs_rows st)
                                          else bs_rows st)\<rparr>
                in snd (emit p (Some q) RUpdate (findFilterRule q i) st1)))"

definition removeNode :: "bar_props \<Rightarrow> string \<Rightarrow> bar_state \<Rightarrow> bar_state" where
  "removeNode p i st =
     (if locked p then st
      else case ref (bs_query st) (removeFilterNode (bs_query st) i) of
             None \<Rightarrow> st
           | Some q \<Rightarrow>
               (let removed = findFilterRule (bs_query st) i; (ok, st1) = emit p (Some q) RRemove removed st
                in if ok then setAnnouncement (if removed \<noteq> None then lb_count (bp_labels p) (countFilterRules q)
                                               else lb_group (bp_labels p) False) st1
                   else st1))"

definition duplicateNode :: "bar_props \<Rightarrow> string \<Rightarrow> bar_state \<Rightarrow> bar_state" where
  "duplicateNode p i st =
     (if locked p then st
      else let (q', c) = duplicateFilterNode (bs_query st) i (createFilterIdFactory (bp_seed p)) (bs_counter st);
               st1 = st\<lparr>bs_counter := c\<rparr>
           in case ref (bs_query st) q' of
                None \<Rightarrow> st1
              | Some q \<Rightarrow>
                  (let (ok, st2) = emit p (Some q) RDuplicate (findFilterRule (bs_query st) i) st1
                   in if ok then setAnnouncement (lb_count (bp_labels p) (countFilterRules q)) st2 else st2))"

definition negateRule :: "bar_props \<Rightarrow> string \<Rightarrow> bar_state \<Rightarrow> bar_state" where
  "negateRule p i st =
     (if locked p then st
      else case findFilterRule (bs_query st) i of
             None \<Rightarrow> st
           | Some rule \<Rightarrow>
               (case getFilterField (bp_index p) (rule_path rule) of
                  None \<Rightarrow> st
                | Some field \<Rightarrow>
                    (let operators = resolveFilterOperators (bp_call p) (bp_catalog p) field;
                         (operator, negated) = negateFilterOperator
                           (getFilterOperator operators (Some (rule_operator rule))) operators (rule_negated rule);
                         next = update_ref (bs_query st) i
                           \<lparr>upd_path = None,
                            upd_operator = Some (case operator of None \<Rightarrow> rule_operator rule | Some v \<Rightarrow> v),
                            upd_value = None, upd_negated = Some (if negated then Some True else None)\<rparr>
                     in snd (emit p next RNegate (findFilterRule (settle (bs_query st) next) i) st))))"

definition group_headline :: "filter_labels \<Rightarrow> filter_combinator \<Rightarrow> string" where
  "group_headline lb c = (if c = CAnd then lb_groupAll lb else lb_groupAny lb)"

definition announceReorder :: "bar_props \<Rightarrow> filter_query \<Rightarrow> string \<Rightarrow> string option \<Rightarrow> bar_state \<Rightarrow> bar_state" where
  "announceReorder p next i fromParentId st =
     (case findFilterNode next i of
        None \<Rightarrow> st
      | Some f \<Rightarrow>
          (case found_parent f of
             None \<Rightarrow> st
           | Some parent \<Rightarrow>
               (let lb = bp_labels p;
                    label = (case found_node f of
                               RuleNode r \<Rightarrow> formatFilterPath (bp_index p) (rule_path r) (lb_separator lb)
                             | GroupNode g \<Rightarrow> group_headline lb (group_combinator g));
                    position = found_index f + 1; total = length (group_rules parent)
                in if (case fromParentId of None \<Rightarrow> False | Some fp \<Rightarrow> fp \<noteq> [] \<and> fp \<noteq> group_id parent)
                   then setAnnouncement (lb_move lb label
                          (if group_id parent = group_id next then lb_filters lb
                           else group_headline lb (group_combinator parent)) position total) st
                   else setAnnouncement (lb_reorder lb label position total) st)))"

definition moveNode :: "bar_props \<Rightarrow> string \<Rightarrow> int \<Rightarrow> bar_state \<Rightarrow> bar_state" where
  "moveNode p i delta st =
     (if locked p then st
      else case move_ref (bs_query st) i delta of
             None \<Rightarrow> st
           | Some q \<Rightarrow>
               (let (ok, st1) = emit p (Some q) RReorder (findFilterRule q i) st
                in if ok then announceReorder p q i None st1 else st1))"

definition moveNodeTo :: "bar_props \<Rightarrow> string \<Rightarrow> string \<Rightarrow> int \<Rightarrow> bar_state \<Rightarrow> bar_state" where
  "moveNodeTo p i parentId index st =
     (if locked p then st
      else let fromParentId = Option.bind (findFilterNode (bs_query st) i) (\<lambda>f. map_option group_id (found_parent f))
           in case move_to_ref (bs_query st) i parentId index of
                None \<Rightarrow> st
              | Some q \<Rightarrow>
                  (let (ok, st1) = emit p (Some q) RReorder (findFilterRule q i) st
                   in if ok then announceReorder p q i fromParentId st1 else st1))"

definition copyNodeTo :: "bar_props \<Rightarrow> string \<Rightarrow> string \<Rightarrow> int \<Rightarrow> bar_state \<Rightarrow> bar_state" where
  "copyNodeTo p i parentId index st =
     (if locked p then st
      else let (q', c) = copyFilterNodeTo (bs_query st) i parentId index (createFilterIdFactory (bp_seed p)) (bs_counter st);
               st1 = st\<lparr>bs_counter := c\<rparr>
           in case ref (bs_query st) q' of
                None \<Rightarrow> st1
              | Some q \<Rightarrow>
                  (let (ok, st2) = emit p (Some q) RDuplicate (findFilterRule (bs_query st) i) st1
                   in if ok then setAnnouncement (lb_count (bp_labels p) (countFilterRules q)) st2 else st2))"

definition wrapNodeInGroup :: "bar_props \<Rightarrow> string \<Rightarrow> filter_combinator \<Rightarrow> bar_state \<Rightarrow> bar_state" where
  "wrapNodeInGroup p i combinator st =
     (if locked p then st
      else let (gid, st1) = nextId p st
           in case ref (bs_query st1) (wrapFilterNodeInGroup (bs_query st1) i gid combinator) of
                None \<Rightarrow> st1
              | Some q \<Rightarrow>
                  (let (ok, st2) = emit p (Some q) RAdd (findFilterRule q i) st1
                   in if ok then setAnnouncement (lb_group (bp_labels p) True) st2 else st2))"

definition unwrapGroup :: "bar_props \<Rightarrow> string \<Rightarrow> bar_state \<Rightarrow> bar_state" where
  "unwrapGroup p groupId st =
     (if locked p then st
      else case ref (bs_query st) (unwrapFilterGroup (bs_query st) groupId) of
             None \<Rightarrow> st
           | Some q \<Rightarrow>
               (let (ok, st1) = emit p (Some q) RRemove None st
                in if ok then setAnnouncement (lb_group (bp_labels p) False) st1 else st1))"

definition announceCombinator :: "bar_props \<Rightarrow> filter_combinator \<Rightarrow> bar_state \<Rightarrow> bar_state" where
  "announceCombinator p c st = setAnnouncement (group_headline (bp_labels p) c) st"

definition setCombinatorAction :: "bar_props \<Rightarrow> string \<Rightarrow> filter_combinator \<Rightarrow> bar_state \<Rightarrow> bar_state" where
  "setCombinatorAction p groupId combinator st =
     (if locked p then st
      else case ref (bs_query st) (setFilterCombinator (bs_query st) groupId combinator) of
             None \<Rightarrow> st
           | Some q \<Rightarrow>
               (let (ok, st1) = emit p (Some q) RCombinator None st
                in if ok then announceCombinator p combinator st1 else st1))"

definition toggleCombinatorAction :: "bar_props \<Rightarrow> string \<Rightarrow> bar_state \<Rightarrow> bar_state" where
  "toggleCombinatorAction p groupId st =
     (if locked p then st
      else case ref (bs_query st) (toggleFilterCombinator (bs_query st) groupId) of
             None \<Rightarrow> st
           | Some q \<Rightarrow>
               (let (ok, st1) = emit p (Some q) RCombinator None st
                in if ok then (case map_option found_node (findFilterNode q groupId) of
                                 Some (GroupNode g) \<Rightarrow> announceCombinator p (group_combinator g) st1
                               | _ \<Rightarrow> st1)
                   else st1))"

definition clearQueryAction :: "bar_props \<Rightarrow> bar_state \<Rightarrow> bar_state" where
  "clearQueryAction p st =
     (if locked p then st
      else case ref (bs_query st) (clearFilterQuery (bs_query st)) of
             None \<Rightarrow> st
           | Some q \<Rightarrow>
               (let (ok, st1) = emit p (Some q) RClear None st
                in if ok then setAnnouncement (lb_count (bp_labels p) 0) st1 else st1))"

definition announce :: "string \<Rightarrow> bar_state \<Rightarrow> bar_state" where
  "announce message st = (if message = [] then st else setAnnouncement message st)"

section \<open>The draft\<close>

definition dispatchDraftRaw :: "draft_action \<Rightarrow> bar_state \<Rightarrow> bar_state" where
  "dispatchDraftRaw a st = st\<lparr>bs_draft := filterDraftReducer (bs_draft st) a\<rparr>"

definition dispatchDraft :: "bar_props \<Rightarrow> draft_action \<Rightarrow> bar_state \<Rightarrow> bar_state" where
  "dispatchDraft p a st = (if a \<noteq> Close \<and> locked p then st else dispatchDraftRaw a st)"

definition openCreate :: "bar_props \<Rightarrow> bar_state \<Rightarrow> bar_state" where
  "openCreate p st = (if locked p then st else dispatchDraftRaw (OpenCreate None) st)"

definition openAmend :: "bar_props \<Rightarrow> string \<Rightarrow> draft_step \<Rightarrow> bar_state \<Rightarrow> bar_state" where
  "openAmend p i step st =
     (if locked p then st
      else case findFilterRule (bs_query st) i of
             None \<Rightarrow> st
           | Some rule \<Rightarrow>
               dispatchDraftRaw (OpenAmend i step (rule_path rule) (Some (rule_operator rule)) (rule_value rule) None) st)"

definition closeDraft :: "bar_state \<Rightarrow> bar_state" where
  "closeDraft st = dispatchDraftRaw Close st"

section \<open>Effects\<close>

text \<open>A draft that is ready becomes a rule, or the update of one, and closes.\<close>

definition commitDraft :: "bar_props \<Rightarrow> bar_state \<Rightarrow> bar_state" where
  "commitDraft p st =
     (case bs_draft st of
        None \<Rightarrow> st
      | Some d \<Rightarrow>
          if draft_status d \<noteq> Ready \<or> \<not> isFilterDraftCommittable (Some d) then st
          else let st1 =
                 (case draft_rule d of
                    Some (c # cs) \<Rightarrow>
                      updateRule p (c # cs)
                        \<lparr>upd_path = Some (draft_path d),
                         upd_operator = Some (case draft_operator d of None \<Rightarrow> [] | Some v \<Rightarrow> v),
                         upd_value = Some (draft_value d), upd_negated = None\<rparr> st
                  | _ \<Rightarrow>
                      if locked p then st
                      else let (i, st2) = nextId p st;
                               st3 = addRule p (createFilterRule i (draft_path d) [] JUndefined None) None st2
                           in st3\<lparr>bs_focus := focus_set \<lparr>focus_id = Some i, focus_segment = Some SegOperator,
                                                          focus_autoOpen = True\<rparr> (bs_focus st3)\<rparr>)
               in dispatchDraftRaw Close st1)"

text \<open>
  After a commit of the component: the ref follows the query that was rendered (the consumer's when
  controlled), and, when that query is another one than last time, a tab stop on a node that is gone
  is dropped.
\<close>

definition repairFocus :: "filter_query \<Rightarrow> focus_store \<Rightarrow> focus_store" where
  "repairFocus q s =
     (case focus_id (fs_snapshot s) of
        None \<Rightarrow> s
      | Some i \<Rightarrow> if i = [] \<or> findFilterNode q i \<noteq> None then s else focus_set NO_FOCUS s)"

definition afterRender :: "filter_query option \<Rightarrow> filter_query \<Rightarrow> bar_state \<Rightarrow> bar_state" where
  "afterRender controlled previous st =
     (let query = (case controlled of None \<Rightarrow> bs_internal st | Some q \<Rightarrow> q)
      in st\<lparr>bs_query := query,
            bs_focus := (if query = previous then bs_focus st else repairFocus query (bs_focus st))\<rparr>)"

end
