(* ===== verification/Filter_Bar_Props.thy ===== *)
theory Filter_Bar_Props
  imports Filter_Bar
begin

text \<open>
  What holds of the filter bar over any sequence of its actions: ids stay distinct, a locked or vetoed
  bar does not change, and the consumer hears of every query exactly once.  One lemma per action says
  what it may do to the query (\<open>step_ok\<close>); the properties are consequences of it.
\<close>

section \<open>How edits change the ids\<close>

definition grows_by :: "filter_query \<Rightarrow> filter_query \<Rightarrow> string list \<Rightarrow> bool" where
  "grows_by q q' new \<longleftrightarrow> ids_mset (GroupNode q') \<subseteq># ids_mset (GroupNode q) + mset new"

lemma grows_same: "ids_mset (GroupNode q') = ids_mset (GroupNode q) \<Longrightarrow> grows_by q q' new"
  by (simp add: grows_by_def)

lemma grows_by_refl [simp]: "grows_by q q new"
  by (simp add: grows_same)

lemma grows_ids:
  assumes "grows_by q q' new"
  shows "set (ids q') \<subseteq> set (ids q) \<union> set new"
proof -
  have "set_mset (ids_mset (GroupNode q')) \<subseteq> set_mset (ids_mset (GroupNode q) + mset new)"
    using assms unfolding grows_by_def by (rule set_mset_mono)
  then show ?thesis by (simp add: ids_mset_def del: ids_node.simps)
qed

lemma grows_distinct:
  assumes "grows_by q q' new" "distinct_ids q" "distinct new" "set new \<inter> set (ids q) = {}"
  shows "distinct_ids q'"
proof -
  have "distinct (ids q @ new)" using assms(2-4) by (auto simp: distinct_ids_def simp del: ids_node.simps)
  then have "count (mset (ids q @ new)) i \<le> 1" for i by (simp add: distinct_count_atmost_1)
  moreover have "count (ids_mset (GroupNode q')) i \<le> count (mset (ids q @ new)) i" for i
    using mset_subset_eq_count [OF assms(1) [unfolded grows_by_def], of i]
    by (simp add: ids_mset_def del: ids_node.simps)
  ultimately show ?thesis unfolding distinct_ids_mset by (meson order_trans)
qed

lemma insert_grows:
  assumes "distinct_ids q"
  shows "grows_by q (insertFilterNode q n parentId index) (ids_node n)"
proof -
  let ?t = "settle (group_id q) parentId"
  show ?thesis
  proof (cases "\<exists>g C. at_group q g C \<and> group_id g = ?t")
    case True
    then obtain g C where g: "at_group q g C" "group_id g = ?t" by blast
    have "insertFilterNode q n parentId index = insertFilterNode q n (Some (group_id g)) index"
      unfolding insertFilterNode_def g(2) by simp
    with insert_measure(1) [OF g(1) assms, of n index] show ?thesis
      by (simp add: grows_by_def ids_mset_def del: ids_node.simps)
  next
    case False
    then have "rewriteGroup (\<lambda>g. group_id g = ?t)
       (\<lambda>g. Some (FilterGroup (group_id g) (group_combinator g)
          (js_splice (insert_position index (length (group_rules g))) 0 [n] (group_rules g)))) q = None"
      by (intro rewrite_none) blast
    then show ?thesis by (simp add: insertFilterNode_def)
  qed
qed

lemma combinator_grows:
  assumes "distinct_ids q"
  shows "grows_by q (setFilterCombinator q i c) []"
proof (cases "\<exists>g C. at_group q g C \<and> group_id g = i")
  case True
  then obtain g C where g: "at_group q g C" "group_id g = i" by blast
  have "ids_mset (GroupNode (FilterGroup (group_id g) c (group_rules g))) = ids_mset (GroupNode g)"
    by (cases g) (simp add: ids_mset_def)
  from id_measure.mg_same [OF g(1) this] show ?thesis
    using set_combinator_at [OF g(1) assms, of c] g(2) by (simp add: grows_same)
next
  case False
  then have "rewriteGroup (\<lambda>g. group_id g = i)
       (\<lambda>g. if group_combinator g = c then None else Some (FilterGroup (group_id g) c (group_rules g))) q = None"
    by (intro rewrite_none) blast
  then show ?thesis by (simp add: setFilterCombinator_def)
qed

lemma toggle_grows: "distinct_ids q \<Longrightarrow> grows_by q (toggleFilterCombinator q i) []"
  using combinator_grows by (auto simp: toggleFilterCombinator_def split: option.splits filter_node.splits)

lemma wrap_grows: "distinct_ids q \<Longrightarrow> grows_by q (wrapFilterNodeInGroup q i gid c) [gid]"
proof (cases "findFilterNode q i")
  case (Some f)
  assume q: "distinct_ids q"
  from Some show ?thesis
  proof (cases rule: find_sound)
    case root
    with Some show ?thesis by (simp add: wrapFilterNodeInGroup_def)
  next
    case (child p C k)
    with wrap_measure(1) [OF child(2) q child(4), of i gid c] show ?thesis by (simp add: grows_by_def)
  qed
qed (simp add: wrapFilterNodeInGroup_def)

lemma unwrap_grows:
  assumes "distinct_ids q"
  shows "grows_by q (unwrapFilterGroup q i) []"
  using assms
proof (cases rule: unwrapFilterGroup_cases [of q i])
  case (dissolved p C k d)
  let ?x = "with_rules p (js_splice k 1 (group_rules d) (group_rules p))"
  have "ids_mset (GroupNode p) = ids_mset (GroupNode ?x) + {#group_id d#}"
    using sum_list_splice_replace [OF dissolved(2), of ids_mset "group_rules d"] dissolved(3)
      ids_mset_group [of d] by (simp add: ids_mset_with_rules ids_mset_group [of p])
  from id_measure.mg_less [OF dissolved(1) this] show ?thesis
    unfolding dissolved(5) grows_by_def by simp
qed simp

lemma clear_grows: "grows_by q (clearFilterQuery q) []"
  by (cases q) (simp add: clearFilterQuery_def grows_by_def ids_mset_def)

lemma remove_grows: "grows_by q (removeFilterNode q i) []"
  using remove_ids [of q i] by (simp add: grows_by_def removeFilterNode_def)

section \<open>Fresh ids\<close>

definition future_ids :: "string \<Rightarrow> nat \<Rightarrow> string set" where
  "future_ids seed n = {seed @ nat_to_dec k | k. n < k}"

definition drawn_ids :: "string \<Rightarrow> nat \<Rightarrow> nat \<Rightarrow> string set" where
  "drawn_ids seed a b = {seed @ nat_to_dec k | k. a < k \<and> k \<le> b}"

lemma drawn_future: "drawn_ids seed a b \<subseteq> future_ids seed a"
  by (auto simp: drawn_ids_def future_ids_def)

lemma drawn_issued: "a \<le> b \<Longrightarrow> issued_ids seed b - issued_ids seed a = drawn_ids seed a b"
  by (auto simp: drawn_ids_def issued_ids_def not_le)

lemma future_after: "a \<le> b \<Longrightarrow> future_ids seed b = future_ids seed a - drawn_ids seed a b"
  by (auto simp: drawn_ids_def future_ids_def not_le)

lemma clone_counter:
  "nx = createFilterIdFactory seed \<Longrightarrow> a \<le> snd (cloneFilterNode nx n a)"
  "nx = createFilterIdFactory seed \<Longrightarrow> a \<le> snd (clone_nodes nx ns a)"
proof (induction nx n a and nx ns a rule: cloneFilterNode_clone_nodes.induct)
  case (2 nx gi c rs s)
  from "2.IH" [OF refl surjective_pairing [symmetric] "2.prems"] "2.prems" show ?case
    by (simp add: createFilterIdFactory_def Let_def split_def)
next
  case (4 nx n ns s)
  from "4.IH"(1) [OF "4.prems"] "4.IH"(2) [OF refl surjective_pairing [symmetric] "4.prems"] show ?case
    by (simp add: Let_def split_def)
qed (simp_all add: createFilterIdFactory_def Let_def)

lemma clone_drawn:
  assumes "cloneFilterNode (createFilterIdFactory seed) n a = (n', b)"
  shows "a \<le> b" "distinct (ids_node n')" "set (ids_node n') \<subseteq> drawn_ids seed a b"
proof -
  show ab: "a \<le> b" using clone_counter(1) [OF refl, of a seed n] assms by simp
  note c = factory.clone_fresh(1) [OF assms, unfolded factory.clone_ok_def]
  then show "distinct (ids_node n')" by blast
  show "set (ids_node n') \<subseteq> drawn_ids seed a b"
    using c unfolding drawn_issued [OF ab, symmetric] by blast
qed

definition fresh_growth :: "string \<Rightarrow> filter_query \<Rightarrow> nat \<Rightarrow> filter_query \<Rightarrow> nat \<Rightarrow> bool" where
  "fresh_growth seed q a q' b \<longleftrightarrow> a \<le> b \<and>
     (distinct_ids q \<longrightarrow> (\<exists>new. grows_by q q' new \<and> distinct new \<and> set new \<subseteq> drawn_ids seed a b))"

lemma fresh_growth_none: "a \<le> b \<Longrightarrow> (distinct_ids q \<Longrightarrow> grows_by q q' []) \<Longrightarrow> fresh_growth seed q a q' b"
  unfolding fresh_growth_def by (metis distinct.simps(1) empty_iff empty_set subsetI)

lemma fresh_growth_refl: "fresh_growth seed q a q a"
  by (rule fresh_growth_none) simp_all

lemma insert_clone_growth:
  "fresh_growth seed q a
     (fst (case cloneFilterNode (createFilterIdFactory seed) n a of (n', b) \<Rightarrow> (insertFilterNode q n' t k, b)))
     (snd (case cloneFilterNode (createFilterIdFactory seed) n a of (n', b) \<Rightarrow> (insertFilterNode q n' t k, b)))"
proof -
  obtain n' b where n: "cloneFilterNode (createFilterIdFactory seed) n a = (n', b)" by (rule prod.exhaust)
  with clone_drawn [OF n] insert_grows [of q n' t k] show ?thesis by (auto simp: fresh_growth_def)
qed

lemma duplicate_growth:
  "fresh_growth seed q a (fst (duplicateFilterNode q i (createFilterIdFactory seed) a))
     (snd (duplicateFilterNode q i (createFilterIdFactory seed) a))"
  unfolding duplicateFilterNode_def
  by (simp add: fresh_growth_refl insert_clone_growth split: option.split)

lemma copy_growth:
  "fresh_growth seed q a (fst (copyFilterNodeTo q i t k (createFilterIdFactory seed) a))
     (snd (copyFilterNodeTo q i t k (createFilterIdFactory seed) a))"
  unfolding copyFilterNodeTo_def
  by (simp add: fresh_growth_refl insert_clone_growth split: option.split)

end
