(* ===== verification/Filter_Bar_Run.thy ===== *)
theory Filter_Bar_Run
  imports Filter_Bar_Props
begin

text \<open>
  Runs of the filter bar: the events (every published action, the draft's commit effect and a render),
  the states reachable by them, and the properties of all of those.
\<close>

section \<open>Events\<close>

datatype bar_event =
    EvAddRule filter_rule "string option" | EvAddGroup "string option" filter_combinator
  | EvUpdate string rule_updates | EvRemove string | EvDuplicate string | EvNegate string
  | EvMove string int | EvMoveTo string string int | EvCopyTo string string int
  | EvWrap string filter_combinator | EvUnwrap string | EvSetCombinator string filter_combinator
  | EvToggleCombinator string | EvClear | EvAnnounce string
  | EvDispatch draft_action | EvOpenCreate | EvOpenAmend string draft_step | EvCloseDraft
  | EvCommitDraft | EvNextId

fun bar_step :: "bar_props \<Rightarrow> bar_event \<Rightarrow> bar_state \<Rightarrow> bar_state" where
  "bar_step p (EvAddRule r parent) st = addRule p r parent st"
| "bar_step p (EvAddGroup parent c) st = snd (addGroup p parent c st)"
| "bar_step p (EvUpdate i u) st = updateRule p i u st"
| "bar_step p (EvRemove i) st = removeNode p i st"
| "bar_step p (EvDuplicate i) st = duplicateNode p i st"
| "bar_step p (EvNegate i) st = negateRule p i st"
| "bar_step p (EvMove i d) st = moveNode p i d st"
| "bar_step p (EvMoveTo i t k) st = moveNodeTo p i t k st"
| "bar_step p (EvCopyTo i t k) st = copyNodeTo p i t k st"
| "bar_step p (EvWrap i c) st = wrapNodeInGroup p i c st"
| "bar_step p (EvUnwrap i) st = unwrapGroup p i st"
| "bar_step p (EvSetCombinator i c) st = setCombinatorAction p i c st"
| "bar_step p (EvToggleCombinator i) st = toggleCombinatorAction p i st"
| "bar_step p EvClear st = clearQueryAction p st"
| "bar_step p (EvAnnounce t) st = announce t st"
| "bar_step p (EvDispatch a) st = dispatchDraft p a st"
| "bar_step p EvOpenCreate st = openCreate p st"
| "bar_step p (EvOpenAmend i s) st = openAmend p i s st"
| "bar_step p EvCloseDraft st = closeDraft st"
| "bar_step p EvCommitDraft st = commitDraft p st"
| "bar_step p EvNextId st = snd (nextId p st)"

text \<open>The ids an event brings in from outside the factory.\<close>

fun event_ids :: "bar_event \<Rightarrow> string set" where
  "event_ids (EvAddRule r parent) = {rule_id r}"
| "event_ids _ = {}"

section \<open>What a step may do to the query\<close>

definition core :: "bar_state \<Rightarrow> filter_query \<times> filter_query \<times> nat \<times> (filter_query \<times> change_details) list" where
  "core st = (bs_query st, bs_internal st, bs_counter st, bs_changes st)"

definition new_growth :: "string set \<Rightarrow> string \<Rightarrow> filter_query \<Rightarrow> nat \<Rightarrow> filter_query \<Rightarrow> nat \<Rightarrow> bool" where
  "new_growth E seed q a q' b \<longleftrightarrow>
     (distinct_ids q \<longrightarrow> (\<exists>new. grows_by q q' new \<and> distinct new \<and> set new \<subseteq> E \<union> drawn_ids seed a b))"

definition committed :: "bar_props \<Rightarrow> string set \<Rightarrow> bar_state \<Rightarrow> bar_state \<Rightarrow> bool" where
  "committed p E st st' \<longleftrightarrow> \<not> locked p \<and>
     (\<exists>d. bs_changes st' = bs_changes st @ [(bs_query st', d)] \<and>
        (\<forall>f. bp_before p = Some f \<longrightarrow> f (bs_query st') d \<noteq> Some False)) \<and>
     bs_internal st' = (if bp_controlled p then bs_internal st else bs_query st') \<and>
     new_growth E (bp_seed p) (bs_query st) (bs_counter st) (bs_query st') (bs_counter st')"

definition step_ok :: "bar_props \<Rightarrow> string set \<Rightarrow> bar_state \<Rightarrow> bar_state \<Rightarrow> bool" where
  "step_ok p E st st' \<longleftrightarrow> bs_counter st \<le> bs_counter st' \<and>
     (bs_query st' = bs_query st \<and> bs_internal st' = bs_internal st \<and> bs_changes st' = bs_changes st \<or>
      committed p E st st')"

lemma step_core: "core st'' = core st' \<Longrightarrow> step_ok p E st st' \<Longrightarrow> step_ok p E st st''"
  unfolding core_def step_ok_def committed_def prod.inject by (elim conjE) (simp only:)

lemma step_same: "core st' = core st \<Longrightarrow> step_ok p E st st'"
  by (simp add: core_def step_ok_def)

lemma core_announcements [simp]:
  "core (setAnnouncement t st) = core st"
  "core (announceCombinator p c st) = core st"
  "core (announceReorder p q i fp st) = core st"
  "core (announce t st) = core st"
  by (simp_all add: setAnnouncement_def announceCombinator_def announce_def announceReorder_def core_def Let_def
      split: option.splits)

lemma core_draft [simp]: "core (dispatchDraftRaw a st) = core st"
  by (simp add: dispatchDraftRaw_def core_def)

lemma step_emit:
  assumes "core st1 = (bs_query st, bs_internal st, c, bs_changes st)" "bs_counter st \<le> c"
    and "\<And>q. next = Some q \<Longrightarrow> new_growth E (bp_seed p) (bs_query st) (bs_counter st) q c"
  shows "step_ok p E st (snd (emit p next reason rule st1))"
proof -
  have st1: "bs_query st1 = bs_query st" "bs_internal st1 = bs_internal st" "bs_counter st1 = c"
    "bs_changes st1 = bs_changes st" using assms(1) by (simp_all add: core_def)
  define d where "d = \<lparr>cd_reason = reason, cd_rule = rule,
      cd_field = Option.bind rule (\<lambda>r. getFilterField (bp_index p) (rule_path r))\<rparr>"
  show ?thesis
  proof (cases "locked p \<or> Option.bind (bp_before p) (\<lambda>f. f (settle (bs_query st1) next) d) = Some False")
    case True
    then have "emit p next reason rule st1 = (False, st1)" by (auto simp: emit_def d_def)
    with st1 assms(2) show ?thesis by (simp add: step_ok_def)
  next
    case False
    then have e: "snd (emit p next reason rule st1) = setQuery p next d st1" by (simp add: emit_def d_def)
    show ?thesis
    proof (cases "next")
      case None
      with st1 assms(2) e show ?thesis by (simp add: step_ok_def setQuery_def)
    next
      case (Some q)
      let ?s = "setQuery p next d st1"
      have q: "bs_query ?s = q" "bs_changes ?s = bs_changes st @ [(q, d)]" "bs_counter ?s = c"
          "bs_internal ?s = (if bp_controlled p then bs_internal st else q)"
        using Some st1 by (simp_all add: setQuery_def)
      have "f q d \<noteq> Some False" if "bp_before p = Some f" for f using False that Some by auto
      with q False assms(2,3) Some have "committed p E st ?s" unfolding committed_def by auto
      with q assms(2) e show ?thesis by (simp add: step_ok_def)
    qed
  qed
qed

lemma step_then:
  assumes "\<And>s. core (after s) = core s" "step_ok p E st (snd e)"
  shows "step_ok p E st (case e of (ok, st1) \<Rightarrow> if ok then after st1 else st1)"
  using assms step_core [OF assms(1)] by (cases e) auto

lemma growth_none: "(distinct_ids q \<Longrightarrow> grows_by q q' []) \<Longrightarrow> new_growth E seed q a q' b"
  unfolding new_growth_def by (metis distinct.simps(1) empty_iff empty_set subsetI)

lemma growth_fresh: "fresh_growth seed q a q' b \<Longrightarrow> new_growth E seed q a q' b"
  unfolding new_growth_def fresh_growth_def by blast

lemma ref_Some: "ref q next = Some q' \<longleftrightarrow> q' = next \<and> next \<noteq> q"
  by (auto simp: ref_def)

lemma update_ref_Some: "update_ref q i u = Some q' \<Longrightarrow> q' = updateFilterRule q i u"
  by (simp add: update_ref_def split: if_splits)

lemma move_ref_Some: "move_ref q i d = Some q' \<Longrightarrow> q' = moveFilterNode q i d"
  by (auto simp: move_ref_def split: option.splits if_splits)

lemma move_to_ref_Some: "move_to_ref q i t k = Some q' \<Longrightarrow> q' = moveFilterNodeTo q i t k"
  by (auto simp: move_to_ref_def split: option.splits if_splits)

lemma update_growth: "update_ref q i u = Some q' \<Longrightarrow> new_growth E seed q a q' b"
  by (auto dest!: update_ref_Some intro!: growth_none grows_same update_measure)

lemma growth_one:
  assumes "distinct_ids q \<Longrightarrow> grows_by q q' [x]" "x \<in> E \<union> drawn_ids seed a b"
  shows "new_growth E seed q a q' b"
  using assms unfolding new_growth_def
  by (metis distinct_singleton empty_set insert_subset list.simps(15) empty_subsetI)

section \<open>Every action\<close>

lemma nextId_core:
  "core (snd (nextId p st)) = (bs_query st, bs_internal st, bs_counter st + 1, bs_changes st)"
  "fst (nextId p st) \<in> drawn_ids (bp_seed p) (bs_counter st) (bs_counter st + 1)"
  by (auto simp: nextId_def createFilterIdFactory_def core_def drawn_ids_def)

lemma ids_new_group [simp]: "ids_node (GroupNode (createFilterGroup i c None)) = [i]"
  by (simp add: createFilterGroup_def)

lemma step_addRule: "step_ok p {rule_id r} st (addRule p r parent st)"
proof (cases "locked p")
  case False
  let ?next = "ref (bs_query st) (insertFilterNode (bs_query st) (RuleNode r) parent None)"
  have "step_ok p {rule_id r} st (snd (emit p ?next RAdd (Some r) st))"
    using insert_grows [of "bs_query st" "RuleNode r" parent None]
    by (intro step_emit [of _ _ "bs_counter st"]) (auto simp: core_def ref_Some intro!: growth_one [of _ _ "rule_id r"])
  from step_then [OF _ this] False show ?thesis by (simp add: addRule_def Let_def)
qed (simp add: addRule_def step_same)

lemma step_addGroup: "step_ok p {} st (snd (addGroup p parent c st))"
proof (cases "locked p")
  case False
  obtain i st1 where n: "nextId p st = (i, st1)" by (rule prod.exhaust)
  note c = nextId_core [of p st, unfolded n, simplified]
  let ?next = "ref (bs_query st1) (insertFilterNode (bs_query st1) (GroupNode (createFilterGroup i (Some c) None)) parent None)"
  have q: "bs_query st1 = bs_query st" using c(1) by (simp add: core_def)
  have "step_ok p {} st (snd (emit p ?next RAdd None st1))"
    using insert_grows [of "bs_query st" "GroupNode (createFilterGroup i (Some c) None)" parent None] c(2)
    by (intro step_emit [OF c(1)]) (auto simp: ref_Some q intro!: growth_one [of _ _ i])
  moreover have "core (snd (addGroup p parent c st)) = core (snd (emit p ?next RAdd None st1))"
    using False by (simp add: addGroup_def n Let_def split_def)
  ultimately show ?thesis by (blast intro: step_core)
qed (simp add: addGroup_def step_same)

lemma step_updateRule: "step_ok p {} st (updateRule p i u st)"
proof (cases "locked p \<or> update_ref (bs_query st) i u = None")
  case False
  then obtain q where q: "update_ref (bs_query st) i u = Some q" by auto
  define st1 where "st1 = st\<lparr>bs_rows := (if upd_path u \<noteq> None then row_unmark i (bs_rows st)
     else if upd_value u \<noteq> None then row_mark i (bs_rows st) else bs_rows st)\<rparr>"
  have "step_ok p {} st (snd (emit p (Some q) RUpdate (findFilterRule q i) st1))"
    using update_growth [OF q] by (intro step_emit [of _ _ "bs_counter st"]) (auto simp: core_def st1_def)
  with q False show ?thesis by (simp add: updateRule_def st1_def Let_def)
qed (auto simp: updateRule_def step_same)

text \<open>The actions that edit the tree and then announce.\<close>

lemma step_edit:
  assumes "\<And>q s. core (after q s) = core s" "core st1 = (bs_query st, bs_internal st, c, bs_changes st)" "bs_counter st \<le> c"
    and "\<And>q. next = Some q \<Longrightarrow> new_growth E (bp_seed p) (bs_query st) (bs_counter st) q c"
  shows "step_ok p E st (case next of None \<Rightarrow> st1
    | Some q \<Rightarrow> (let (ok, st2) = emit p (Some q) reason (rule q) st1 in if ok then after q st2 else st2))"
proof (cases "next")
  case None
  with assms(2,3) show ?thesis by (simp add: step_ok_def core_def)
next
  case (Some q)
  have "step_ok p E st (snd (emit p (Some q) reason (rule q) st1))"
    using assms(4) Some by (intro step_emit [OF assms(2,3)]) auto
  from step_then [OF _ this, of "after q"] assms(1) Some show ?thesis by simp
qed

lemma step_removeNode: "step_ok p {} st (removeNode p i st)"
proof (cases "locked p")
  case False
  have "step_ok p {} st (case ref (bs_query st) (removeFilterNode (bs_query st) i) of None \<Rightarrow> st
      | Some q \<Rightarrow> (let (ok, st1) = emit p (Some q) RRemove (findFilterRule (bs_query st) i) st
          in if ok then setAnnouncement (if findFilterRule (bs_query st) i \<noteq> None
               then lb_count (bp_labels p) (countFilterRules q) else lb_group (bp_labels p) False) st1 else st1))"
    by (rule step_edit [of _ _ _ "bs_counter st"])
      (auto simp: core_def ref_Some setAnnouncement_def intro!: growth_none remove_grows)
  with False show ?thesis unfolding removeNode_def Let_def by simp
qed (simp add: removeNode_def step_same)

lemma step_duplicateNode: "step_ok p {} st (duplicateNode p i st)"
proof (cases "locked p")
  case False
  obtain q' c where d: "duplicateFilterNode (bs_query st) i (createFilterIdFactory (bp_seed p)) (bs_counter st) = (q', c)"
    by (rule prod.exhaust)
  note g = duplicate_growth [of "bp_seed p" "bs_query st" "bs_counter st" i, unfolded d fst_conv snd_conv]
  have "step_ok p {} st (case ref (bs_query st) q' of None \<Rightarrow> st\<lparr>bs_counter := c\<rparr>
      | Some q \<Rightarrow> (let (ok, st2) = emit p (Some q) RDuplicate (findFilterRule (bs_query st) i) (st\<lparr>bs_counter := c\<rparr>)
          in if ok then setAnnouncement (lb_count (bp_labels p) (countFilterRules q)) st2 else st2))"
    using g by (intro step_edit [of _ _ _ c]) (auto simp: core_def ref_Some fresh_growth_def setAnnouncement_def intro!: growth_fresh)
  with False d show ?thesis by (simp add: duplicateNode_def Let_def)
qed (simp add: duplicateNode_def step_same)

lemma step_copyNodeTo: "step_ok p {} st (copyNodeTo p i t k st)"
proof (cases "locked p")
  case False
  obtain q' c where d: "copyFilterNodeTo (bs_query st) i t k (createFilterIdFactory (bp_seed p)) (bs_counter st) = (q', c)"
    by (rule prod.exhaust)
  note g = copy_growth [of "bp_seed p" "bs_query st" "bs_counter st" i t k, unfolded d fst_conv snd_conv]
  have "step_ok p {} st (case ref (bs_query st) q' of None \<Rightarrow> st\<lparr>bs_counter := c\<rparr>
      | Some q \<Rightarrow> (let (ok, st2) = emit p (Some q) RDuplicate (findFilterRule (bs_query st) i) (st\<lparr>bs_counter := c\<rparr>)
          in if ok then setAnnouncement (lb_count (bp_labels p) (countFilterRules q)) st2 else st2))"
    using g by (intro step_edit [of _ _ _ c]) (auto simp: core_def ref_Some fresh_growth_def setAnnouncement_def intro!: growth_fresh)
  with False d show ?thesis by (simp add: copyNodeTo_def Let_def)
qed (simp add: copyNodeTo_def step_same)

lemma step_wrap: "step_ok p {} st (wrapNodeInGroup p i c st)"
proof (cases "locked p")
  case False
  obtain gid st1 where n: "nextId p st = (gid, st1)" by (rule prod.exhaust)
  note k = nextId_core [of p st, unfolded n, simplified]
  have q: "bs_query st1 = bs_query st" using k(1) by (simp add: core_def)
  have "step_ok p {} st (case ref (bs_query st1) (wrapFilterNodeInGroup (bs_query st1) i gid c) of None \<Rightarrow> st1
      | Some q \<Rightarrow> (let (ok, st2) = emit p (Some q) RAdd (findFilterRule q i) st1
          in if ok then setAnnouncement (lb_group (bp_labels p) True) st2 else st2))"
    using k(2) wrap_grows [of "bs_query st" i gid c]
    by (intro step_edit [OF _ k(1)]) (auto simp: ref_Some q intro!: growth_one [of _ _ gid])
  with False n show ?thesis by (simp add: wrapNodeInGroup_def Let_def)
qed (simp add: wrapNodeInGroup_def step_same)

lemma step_negate: "step_ok p {} st (negateRule p i st)"
proof (cases "locked p \<or> findFilterRule (bs_query st) i = None")
  case False
  then obtain rule where r: "findFilterRule (bs_query st) i = Some rule" "\<not> locked p" by auto
  have "step_ok p {} st (snd (emit p (update_ref (bs_query st) i u) RNegate rl st))" for u rl
    by (rule step_emit [of _ _ "bs_counter st"]) (auto simp: core_def intro: update_growth)
  with r show ?thesis by (simp add: negateRule_def Let_def step_same split: option.split prod.split)
qed (auto simp: negateRule_def step_same)

lemma step_moves:
  "step_ok p {} st (moveNode p i d st)" "step_ok p {} st (moveNodeTo p i t k st)"
proof -
  have m: "new_growth {} (bp_seed p) (bs_query st) (bs_counter st) q (bs_counter st)"
    if "move_ref (bs_query st) i d = Some q" for q
    using move_ref_Some [OF that] by (auto intro!: growth_none grows_same move_measure)
  have "step_ok p {} st (case move_ref (bs_query st) i d of None \<Rightarrow> st
      | Some q \<Rightarrow> (let (ok, st1) = emit p (Some q) RReorder (findFilterRule q i) st
          in if ok then announceReorder p q i None st1 else st1))"
    by (rule step_edit [of "\<lambda>q. announceReorder p q i None", OF _ _ _ m]) (auto simp: core_def [of st])
  then show "step_ok p {} st (moveNode p i d st)" by (simp add: moveNode_def step_same)
  have mt: "new_growth {} (bp_seed p) (bs_query st) (bs_counter st) q (bs_counter st)"
    if "move_to_ref (bs_query st) i t k = Some q" for q
    using move_to_ref_Some [OF that] by (auto intro!: growth_none grows_same move_to_measure)
  have "step_ok p {} st (case move_to_ref (bs_query st) i t k of None \<Rightarrow> st
      | Some q \<Rightarrow> (let (ok, st1) = emit p (Some q) RReorder (findFilterRule q i) st
          in if ok then announceReorder p q i fp st1 else st1))" for fp
    by (rule step_edit [of "\<lambda>q. announceReorder p q i fp", OF _ _ _ mt]) (auto simp: core_def [of st])
  then show "step_ok p {} st (moveNodeTo p i t k st)" by (simp add: moveNodeTo_def step_same Let_def)
qed

lemma step_unwrap: "step_ok p {} st (unwrapGroup p i st)"
proof -
  have "step_ok p {} st (case ref (bs_query st) (unwrapFilterGroup (bs_query st) i) of None \<Rightarrow> st
      | Some q \<Rightarrow> (let (ok, st1) = emit p (Some q) RRemove None st
          in if ok then setAnnouncement (lb_group (bp_labels p) False) st1 else st1))"
    by (rule step_edit [of _ _ _ "bs_counter st"])
      (auto simp: core_def ref_Some setAnnouncement_def intro!: growth_none unwrap_grows)
  then show ?thesis by (simp add: unwrapGroup_def step_same)
qed

lemma step_set_combinator: "step_ok p {} st (setCombinatorAction p i c st)"
proof -
  have "step_ok p {} st (case ref (bs_query st) (setFilterCombinator (bs_query st) i c) of None \<Rightarrow> st
      | Some q \<Rightarrow> (let (ok, st1) = emit p (Some q) RCombinator None st
          in if ok then announceCombinator p c st1 else st1))"
    by (rule step_edit [of _ _ _ "bs_counter st"])
      (auto simp: core_def [of st] ref_Some intro!: growth_none combinator_grows)
  then show ?thesis by (simp add: setCombinatorAction_def step_same)
qed

lemma step_toggle_combinator: "step_ok p {} st (toggleCombinatorAction p i st)"
proof -
  let ?after = "\<lambda>q st1. case map_option found_node (findFilterNode q i) of
      Some (GroupNode g) \<Rightarrow> announceCombinator p (group_combinator g) st1 | _ \<Rightarrow> st1"
  have "step_ok p {} st (case ref (bs_query st) (toggleFilterCombinator (bs_query st) i) of None \<Rightarrow> st
      | Some q \<Rightarrow> (let (ok, st1) = emit p (Some q) RCombinator None st in if ok then ?after q st1 else st1))"
    by (rule step_edit [of ?after _ _ "bs_counter st"])
      (auto simp: core_def [of st] ref_Some intro!: growth_none toggle_grows split: option.split filter_node.split)
  then show ?thesis by (simp add: toggleCombinatorAction_def step_same)
qed

lemma step_clear: "step_ok p {} st (clearQueryAction p st)"
proof -
  have "step_ok p {} st (case ref (bs_query st) (clearFilterQuery (bs_query st)) of None \<Rightarrow> st
      | Some q \<Rightarrow> (let (ok, st1) = emit p (Some q) RClear None st
          in if ok then setAnnouncement (lb_count (bp_labels p) 0) st1 else st1))"
    by (rule step_edit [of _ _ _ "bs_counter st"])
      (auto simp: core_def ref_Some setAnnouncement_def intro!: growth_none clear_grows)
  then show ?thesis by (simp add: clearQueryAction_def step_same)
qed

lemma step_after_draw:
  assumes "core st1 = (bs_query st, bs_internal st, bs_counter st + 1, bs_changes st)"
    and "i \<in> drawn_ids (bp_seed p) (bs_counter st) (bs_counter st + 1)" "step_ok p {i} st1 st2"
  shows "step_ok p {} st st2"
proof -
  have c: "bs_query st1 = bs_query st" "bs_internal st1 = bs_internal st" "bs_counter st1 = bs_counter st + 1"
    "bs_changes st1 = bs_changes st" using assms(1) by (simp_all add: core_def)
  have le: "bs_counter st + 1 \<le> bs_counter st2" using assms(3) c by (simp add: step_ok_def)
  have "{i} \<union> drawn_ids (bp_seed p) (bs_counter st + 1) b \<subseteq> drawn_ids (bp_seed p) (bs_counter st) b"
    if "bs_counter st + 1 \<le> b" for b
    using assms(2) that by (auto simp: drawn_ids_def)
  from this [OF le] have "new_growth {i} (bp_seed p) (bs_query st) (bs_counter st + 1) (bs_query st2) (bs_counter st2) \<Longrightarrow>
      new_growth {} (bp_seed p) (bs_query st) (bs_counter st) (bs_query st2) (bs_counter st2)"
    unfolding new_growth_def by blast
  with assms(3) le show ?thesis unfolding step_ok_def committed_def c by auto
qed

lemma step_commitDraft: "step_ok p {} st (commitDraft p st)"
proof -
  obtain i st1 where n: "nextId p st = (i, st1)" by (rule prod.exhaust)
  note k = nextId_core [of p st, unfolded n fst_conv snd_conv]
  have add: "step_ok p {} st (addRule p (createFilterRule i path [] JUndefined None) None st1)" for path
    using step_addRule [of p "createFilterRule i path [] JUndefined None" st1 None]
    by (intro step_after_draw [OF k]) (simp add: createFilterRule_def)
  have focus: "core (s\<lparr>bs_focus := x\<rparr>) = core s" for s x by (simp add: core_def)
  show ?thesis
    unfolding commitDraft_def n Let_def
    by (auto simp: n intro!: step_same step_core [OF core_draft] step_updateRule step_core [OF focus add]
        split: option.split list.split)
qed

lemma step_event: "step_ok p (event_ids ev) st (bar_step p ev st)"
proof (cases ev)
  case EvNextId
  then show ?thesis using nextId_core(1) [of p st] by (simp add: step_ok_def core_def)
next
  case (EvDispatch a)
  then show ?thesis by (simp add: dispatchDraft_def step_same)
next
  case EvOpenCreate
  then show ?thesis by (simp add: openCreate_def step_same)
next
  case (EvOpenAmend i s)
  then show ?thesis by (simp add: openAmend_def step_same split: option.split)
next
  case EvCloseDraft
  then show ?thesis by (simp add: closeDraft_def step_same)
next
  case (EvAnnounce t)
  then show ?thesis by (simp add: step_same)
qed (simp_all add: step_addRule step_addGroup step_updateRule step_removeNode step_duplicateNode step_copyNodeTo
    step_wrap step_negate step_moves step_unwrap step_set_combinator step_toggle_combinator step_clear step_commitDraft)

section \<open>Runs\<close>

text \<open>
  The states of one bar: props may differ from step to step, the seed of the factory may not.  A rule
  added from outside brings an id that is neither in use nor one the factory will draw, and a
  consumer that controls the query supplies one with such ids.
\<close>

definition id_safe :: "string \<Rightarrow> nat \<Rightarrow> filter_query \<Rightarrow> bool" where
  "id_safe seed n q \<longleftrightarrow> distinct_ids q \<and> set (ids q) \<inter> future_ids seed n = {}"

inductive bar_run :: "string \<Rightarrow> bar_state \<Rightarrow> bool" for seed where
  mount: "id_safe seed 0 q \<Longrightarrow> bs_query st = q \<Longrightarrow> bs_internal st = q \<Longrightarrow> bs_counter st = 0 \<Longrightarrow> bar_run seed st"
| event: "bar_run seed st \<Longrightarrow> bp_seed p = seed \<Longrightarrow>
    event_ids ev \<inter> (set (ids (bs_query st)) \<union> future_ids seed (bs_counter st)) = {} \<Longrightarrow>
    bar_run seed (bar_step p ev st)"
| render: "bar_run seed st \<Longrightarrow> (\<forall>q. controlled = Some q \<longrightarrow> id_safe seed (bs_counter st) q) \<Longrightarrow>
    bar_run seed (afterRender controlled previous st)"

lemma id_safe_later: "id_safe seed a q \<Longrightarrow> a \<le> b \<Longrightarrow> id_safe seed b q"
  using future_after [of a b seed] by (auto simp: id_safe_def)

lemma id_safe_growth:
  assumes "id_safe seed a q" "new_growth E seed q a q' b" "a \<le> b"
    and "E \<inter> (set (ids q) \<union> future_ids seed a) = {}"
  shows "id_safe seed b q'"
proof -
  have q: "distinct_ids q" "set (ids q) \<inter> future_ids seed a = {}" using assms(1) by (simp_all add: id_safe_def)
  then obtain new where new: "grows_by q q' new" "distinct new" "set new \<subseteq> E \<union> drawn_ids seed a b"
    using assms(2) by (auto simp: new_growth_def)
  have "set new \<inter> set (ids q) = {}" using new(3) assms(4) q(2) drawn_future [of seed a b] by blast
  from grows_distinct [OF new(1) q(1) new(2) this] grows_ids [OF new(1)] new(3) assms(4) q(2)
    future_after [OF assms(3), of seed]
  show ?thesis unfolding id_safe_def by blast
qed

lemma bar_run_safe: "bar_run seed st \<Longrightarrow> id_safe seed (bs_counter st) (bs_query st) \<and> id_safe seed (bs_counter st) (bs_internal st)"
proof (induction rule: bar_run.induct)
  case (event st p ev)
  let ?s = "bar_step p ev st"
  from step_event [of p ev st] have le: "bs_counter st \<le> bs_counter ?s" by (simp add: step_ok_def)
  from step_event [of p ev st] consider
      "bs_query ?s = bs_query st" "bs_internal ?s = bs_internal st" | "committed p (event_ids ev) st ?s"
    by (auto simp: step_ok_def)
  then show ?case
  proof cases
    case 1
    with event.IH le show ?thesis by (auto intro: id_safe_later)
  next
    case 2
    then have "new_growth (event_ids ev) seed (bs_query st) (bs_counter st) (bs_query ?s) (bs_counter ?s)"
      "bs_internal ?s = (if bp_controlled p then bs_internal st else bs_query ?s)"
      using event.hyps(2) by (auto simp: committed_def)
    with id_safe_growth [OF _ this(1) le event.hyps(3)] event.IH le show ?thesis by (auto intro: id_safe_later)
  qed
next
  case (render st controlled previous)
  then show ?case by (cases controlled) (auto simp: afterRender_def Let_def)
qed auto

text \<open>C6: Whatever sequence of actions, draft commits and renders the bar goes through, no two nodes of its query
  share an id, provided it was mounted with a query of distinct ids none of which its own id factory
  will draw (and rules and controlled queries from outside bring such ids too).\<close>

theorem bar_ids_stay_distinct:
  assumes "bar_run seed st"
  shows "distinct_ids (bs_query st) \<and> set (ids (bs_query st)) \<inter> future_ids seed (bs_counter st) = {}"
  using bar_run_safe [OF assms] by (simp add: id_safe_def)

text \<open>Each action changes the query at most once, and then the consumer is told of exactly that query, once,
  and its veto hook had not refused it; an action that does not report leaves the query as it was.\<close>

theorem bar_reports_each_change:
  "bs_query (bar_step p ev st) = bs_query st \<and> bs_changes (bar_step p ev st) = bs_changes st \<or>
   \<not> locked p \<and>
   (\<exists>d. bs_changes (bar_step p ev st) = bs_changes st @ [(bs_query (bar_step p ev st), d)] \<and>
      Option.bind (bp_before p) (\<lambda>f. f (bs_query (bar_step p ev st)) d) \<noteq> Some False)"
  using step_event [of p ev st] by (cases "bp_before p") (auto simp: step_ok_def committed_def)

section \<open>Concrete bars\<close>

definition sample_labels :: filter_labels where
  "sample_labels = \<lparr>lb_count = nat_to_dec, lb_group = (\<lambda>b. if b then ''added'' else ''removed''), lb_groupAll = ''all'',
     lb_groupAny = ''any'', lb_filters = ''filters'', lb_separator = ''>'', lb_move = (\<lambda>l d k n. l),
     lb_reorder = (\<lambda>l k n. l)\<rparr>"

definition sample_props :: bar_props where
  "sample_props = \<lparr>bp_disabled = False, bp_readOnly = False, bp_latest_disabled = False, bp_latest_readOnly = False,
     bp_controlled = False, bp_index = buildFilterIndex sample_schema None None, bp_labels = sample_labels,
     bp_catalog = DEFAULT_FILTER_OPERATORS, bp_call = (\<lambda>h f. []), bp_before = None, bp_seed = ''r0f''\<rparr>"

definition mounted :: "filter_query \<Rightarrow> bar_state" where
  "mounted q = \<lparr>bs_query = q, bs_internal = q, bs_counter = 0, bs_draft = None,
     bs_focus = \<lparr>fs_snapshot = NO_FOCUS, fs_notified = 0\<rparr>, bs_rows = \<lparr>rw_touched = [], rw_pending = [], rw_version = 0\<rparr>,
     bs_announced = (0, []), bs_changes = []\<rparr>"

definition root_query :: filter_query where
  "root_query = FilterGroup ''root'' CAnd []"

definition after_group :: bar_state where
  "after_group = bar_step sample_props (EvAddGroup None COr) (mounted root_query)"

lemma after_group_query: "bs_query after_group = FilterGroup ''root'' CAnd [GroupNode (FilterGroup ''r0f1'' COr [])]"
  by code_simp

theorem bar_ids_stay_distinct_witness:
  "distinct_ids (bs_query after_group) \<and>
   bs_query after_group = FilterGroup ''root'' CAnd [GroupNode (FilterGroup ''r0f1'' COr [])]"
proof -
  have "id_safe ''r0f'' 0 root_query"
    by (auto simp: id_safe_def root_query_def distinct_ids_def future_ids_def)
  then have "bar_run ''r0f'' (mounted root_query)" by (rule bar_run.mount) (simp_all add: mounted_def)
  then have "bar_run ''r0f'' after_group"
    unfolding after_group_def by (rule bar_run.event) (simp_all add: sample_props_def)
  from bar_ids_stay_distinct [OF this] after_group_query show ?thesis by blast
qed

section \<open>The lock\<close>

text \<open>A locked bar (disabled or read only, by its own props or by the copy its handlers read) refuses every
  action: the query, the id sequence, the row marks, the focus and the consumer's history stay as they
  are, and a draft can at most be closed.\<close>

theorem locked_bar_refuses:
  assumes "locked p" "ev \<noteq> EvNextId"
  shows "bs_query (bar_step p ev st) = bs_query st \<and> bs_internal (bar_step p ev st) = bs_internal st \<and>
    bs_counter (bar_step p ev st) = bs_counter st \<and> bs_changes (bar_step p ev st) = bs_changes st \<and>
    bs_rows (bar_step p ev st) = bs_rows st \<and> bs_focus (bar_step p ev st) = bs_focus st \<and>
    (bs_draft (bar_step p ev st) = bs_draft st \<or> bs_draft (bar_step p ev st) = None)"
proof (cases ev)
  case (EvDispatch a)
  with assms(1) show ?thesis
    by (cases "bs_draft st") (auto simp: dispatchDraft_def dispatchDraftRaw_def filterDraftReducer_def)
next
  case EvCloseDraft
  then show ?thesis by (cases "bs_draft st") (auto simp: closeDraft_def dispatchDraftRaw_def filterDraftReducer_def)
next
  case EvCommitDraft
  have "updateRule p i u st = st" for i u using assms(1) by (simp add: updateRule_def)
  with EvCommitDraft assms(1) show ?thesis
    by (auto simp: commitDraft_def dispatchDraftRaw_def filterDraftReducer_def Let_def split: option.split list.split)
next
  case (EvAnnounce t)
  then show ?thesis by (simp add: announce_def setAnnouncement_def)
qed (use assms in \<open>simp_all add: addRule_def addGroup_def updateRule_def removeNode_def duplicateNode_def negateRule_def
    moveNode_def moveNodeTo_def copyNodeTo_def wrapNodeInGroup_def unwrapGroup_def setCombinatorAction_def
    toggleCombinatorAction_def clearQueryAction_def openCreate_def openAmend_def\<close>)

definition read_only_props :: bar_props where
  "read_only_props = sample_props\<lparr>bp_readOnly := True\<rparr>"

theorem locked_bar_refuses_witness:
  "bs_query (bar_step read_only_props (EvRemove ''r0f1'') after_group) = bs_query after_group \<and>
   bs_query (bar_step sample_props (EvRemove ''r0f1'') after_group) \<noteq> bs_query after_group"
proof -
  have "locked read_only_props" by (simp add: read_only_props_def locked_def)
  from locked_bar_refuses [OF this, of "EvRemove ''r0f1''" after_group]
  have "bs_query (bar_step read_only_props (EvRemove ''r0f1'') after_group) = bs_query after_group" by simp
  moreover have "bs_query (bar_step sample_props (EvRemove ''r0f1'') after_group) = FilterGroup ''root'' CAnd []"
    by code_simp
  ultimately show ?thesis using after_group_query by simp
qed

section \<open>Where the bar falls short\<close>

definition vetoing_props :: bar_props where
  "vetoing_props = sample_props\<lparr>bp_before := Some (\<lambda>q d. Some False)\<rparr>"

definition picked_field :: bar_state where
  "picked_field = bar_step vetoing_props (EvDispatch (SelectField [''age''] None))
     (bar_step vetoing_props EvOpenCreate (mounted root_query))"

text \<open>When the consumer vetoes a new condition, the focus store still ends up naming the id the condition
  would have had, which is no node of the query, and the next render (the query being the same) does
  not repair it.\<close>

theorem vetoed_create_strands_focus:
  "bs_query (commitDraft vetoing_props picked_field) = root_query \<and>
   focus_id (fs_snapshot (bs_focus (afterRender None root_query (commitDraft vetoing_props picked_field)))) = Some ''r0f1'' \<and>
   findFilterNode root_query ''r0f1'' = None"
proof -
  have q: "bs_query (commitDraft vetoing_props picked_field) = root_query"
    "bs_internal (commitDraft vetoing_props picked_field) = root_query"
    "focus_id (fs_snapshot (bs_focus (commitDraft vetoing_props picked_field))) = Some ''r0f1''"
    "findFilterNode root_query ''r0f1'' = None" by code_simp+
  then show ?thesis by (simp add: afterRender_def)
qed

text \<open>Adding a group under a parent that is no longer there returns an id all the same and announces an
  added group, although the query is unchanged and holds no such node.\<close>

theorem add_group_unknown_parent:
  "fst (addGroup sample_props (Some ''gone'') COr (mounted root_query)) = ''r0f1'' \<and>
   bs_query (snd (addGroup sample_props (Some ''gone'') COr (mounted root_query))) = root_query \<and>
   snd (bs_announced (snd (addGroup sample_props (Some ''gone'') COr (mounted root_query)))) = ''added'' \<and>
   findFilterNode root_query ''r0f1'' = None"
  by (intro conjI) code_simp+

definition restored_query :: filter_query where
  "restored_query = FilterGroup ''root'' CAnd [GroupNode (FilterGroup ''r0f1'' COr [])]"

text \<open>The id factory of a bar starts at one again when the bar is mounted, so a query saved by an earlier
  mount with the same seed and restored as the default query collides with it: the first group added
  gets an id that is already in use.\<close>

theorem restored_query_collides:
  "distinct_ids restored_query \<and>
   \<not> distinct_ids (bs_query (bar_step sample_props (EvAddGroup None COr) (mounted restored_query)))"
proof -
  have "bs_query (bar_step sample_props (EvAddGroup None COr) (mounted restored_query)) =
      FilterGroup ''root'' CAnd [GroupNode (FilterGroup ''r0f1'' COr []), GroupNode (FilterGroup ''r0f1'' COr [])]"
    by code_simp
  then show ?thesis by (simp add: distinct_ids_def restored_query_def)
qed

end
