(* ===== verification/Web_Url.thy ===== *)
theory Web_Url
  imports Prelude
begin

text \<open>
  Text that goes into a URL: \<^verbatim>\<open>encodeURIComponent\<close> and the form encoding of
  \<^verbatim>\<open>URLSearchParams.toString\<close>, as both front ends use them to build requests.  Characters are the
  256 code points of \<open>char\<close>; the ones from 128 on take two UTF-8 bytes.
\<close>

section \<open>Percent encoding\<close>

definition is_alnum :: "char \<Rightarrow> bool" where
  "is_alnum c \<longleftrightarrow>
     (let n = of_char c :: nat in 48 \<le> n \<and> n \<le> 57 \<or> 65 \<le> n \<and> n \<le> 90 \<or> 97 \<le> n \<and> n \<le> 122)"

definition hex_digit :: "nat \<Rightarrow> char" where
  "hex_digit d = char_of (if d < 10 then 48 + d else 55 + d)"

definition pct :: "nat \<Rightarrow> string" where
  "pct b = [CHR ''%'', hex_digit (b div 16), hex_digit (b mod 16)]"

definition utf8 :: "char \<Rightarrow> nat list" where
  "utf8 c = (let n = of_char c in if n < 128 then [n] else [192 + n div 64, 128 + n mod 64])"

definition unreserved :: "char \<Rightarrow> bool" where
  "unreserved c \<longleftrightarrow> is_alnum c \<or> c \<in> set ''-_.!~*'()''"

definition encode_char :: "char \<Rightarrow> string" where
  "encode_char c = (if unreserved c then [c] else concat (map pct (utf8 c)))"

definition encodeURIComponent :: "string \<Rightarrow> string" where
  "encodeURIComponent s = concat (map encode_char s)"

definition form_char :: "char \<Rightarrow> string" where
  "form_char c = (if is_alnum c \<or> c \<in> set ''*-._'' then [c]
     else if c = CHR '' '' then ''+'' else concat (map pct (utf8 c)))"

definition form_encode :: "string \<Rightarrow> string" where
  "form_encode s = concat (map form_char s)"

text \<open>\<^verbatim>\<open>URLSearchParams.toString\<close> on the pairs set so far.\<close>

definition search_params :: "(string \<times> string) list \<Rightarrow> string" where
  "search_params ps = join ''&'' (map (\<lambda>(k, v). form_encode k @ ''='' @ form_encode v) ps)"

section \<open>Decoding, the inverse\<close>

definition hex_value :: "char \<Rightarrow> nat" where
  "hex_value c = (let n = of_char c in if n \<le> 57 then n - 48 else n - 55)"

fun decode :: "string \<Rightarrow> string" where
  "decode [] = []"
| "decode (c # rest) =
     (if c = CHR ''%'' then
        (case rest of
           a # b # more \<Rightarrow>
             (let n = 16 * hex_value a + hex_value b in
              if n < 128 then char_of n # decode more
              else (case more of
                      p # x # y # others \<Rightarrow>
                        char_of (64 * (n - 192) + (16 * hex_value x + hex_value y - 128)) # decode others
                    | _ \<Rightarrow> []))
         | _ \<Rightarrow> [])
      else c # decode rest)"

lemma hex_value_digit: "d < 16 \<Longrightarrow> hex_value (hex_digit d) = d"
  by (auto simp: hex_value_def hex_digit_def Let_def take_bit_eq_mod)

lemma pct_value: "b < 256 \<Longrightarrow> 16 * hex_value (hex_digit (b div 16)) + hex_value (hex_digit (b mod 16)) = b"
  using hex_value_digit [of "b div 16"] hex_value_digit [of "b mod 16"] by simp

lemma unreserved_not_pct: "unreserved c \<Longrightarrow> c \<noteq> CHR ''%''"
  by (auto simp: unreserved_def is_alnum_def)

lemma char_lt_256: "of_char (c :: char) < (256 :: nat)"
  by simp

lemma decode_pct_low: "n < 128 \<Longrightarrow> decode (pct n @ rest) = char_of n # decode rest"
  using pct_value [of n] by (simp add: pct_def)

lemma decode_pct_high:
  assumes "128 \<le> n" "n < 256"
  shows "decode (pct (192 + n div 64) @ pct (128 + n mod 64) @ rest) = char_of n # decode rest"
proof -
  have hi: "192 + n div 64 < 256" and lo: "128 + n mod 64 < 256"
    using assms by (simp_all add: div_less_dividend less_mult_imp_div_less)
  have "64 * (192 + n div 64 - 192) + (128 + n mod 64 - 128) = n" by simp
  moreover have "decode (pct (192 + n div 64) @ pct (128 + n mod 64) @ rest) =
      char_of (64 * (192 + n div 64 - 192) + (128 + n mod 64 - 128)) # decode rest"
    using pct_value [OF hi] pct_value [OF lo] by (simp add: pct_def Let_def del: diff_add_inverse)
  ultimately show ?thesis by simp
qed

lemma decode_char: "decode (encode_char c @ rest) = c # decode rest"
proof (cases "unreserved c")
  case True
  then show ?thesis by (simp add: encode_char_def unreserved_not_pct)
next
  case False
  then show ?thesis
    using decode_pct_low [of "of_char c" rest] decode_pct_high [of "of_char c" rest] char_lt_256 [of c]
    by (simp add: encode_char_def utf8_def Let_def)
qed

lemma decode_encode: "decode (encodeURIComponent s) = s"
  by (induction s) (simp_all add: encodeURIComponent_def decode_char)

lemma encode_inject: "encodeURIComponent s = encodeURIComponent t \<longleftrightarrow> s = t"
  using decode_encode by metis

lemma hex_digit_alnum: "d < 16 \<Longrightarrow> is_alnum (hex_digit d)"
  by (auto simp: hex_digit_def is_alnum_def Let_def take_bit_eq_mod)

lemma pct_chars: "b < 256 \<Longrightarrow> x \<in> set (pct b) \<Longrightarrow> x = CHR ''%'' \<or> is_alnum x"
proof -
  assume "b < 256" "x \<in> set (pct b)"
  then have "b div 16 < 16" "b mod 16 < 16" "x = CHR ''%'' \<or> x = hex_digit (b div 16) \<or> x = hex_digit (b mod 16)"
    by (auto simp: pct_def less_mult_imp_div_less)
  then show ?thesis using hex_digit_alnum by blast
qed

lemma utf8_bytes: "b \<in> set (utf8 c) \<Longrightarrow> b < 256"
proof -
  assume "b \<in> set (utf8 c)"
  moreover have "of_char c div 64 < (64 :: nat)"
    using char_lt_256 [of c] by (simp only: less_mult_imp_div_less)
  moreover have "of_char c mod 64 < (64 :: nat)" by simp
  ultimately show ?thesis using char_lt_256 [of c] by (auto simp: utf8_def Let_def split: if_splits)
qed

lemma encode_chars: "x \<in> set (encodeURIComponent s) \<Longrightarrow> x = CHR ''%'' \<or> unreserved x"
  by (auto simp: encodeURIComponent_def encode_char_def unreserved_def
      dest!: pct_chars [OF utf8_bytes] split: if_splits)

lemma form_chars: "x \<in> set (form_encode s) \<Longrightarrow> x = CHR ''%'' \<or> x = CHR ''+'' \<or> is_alnum x \<or> x \<in> set ''*-._''"
  by (auto simp: form_encode_def form_char_def dest!: pct_chars [OF utf8_bytes] split: if_splits)

lemma delimiters_not_encoded:
  "c \<in> set ''/?#&=:@ '' \<Longrightarrow> c \<notin> set (encodeURIComponent s)"
  using encode_chars [of c s] by (auto simp: unreserved_def is_alnum_def)

lemma delimiters_not_form: "c \<in> set ''/?#&=:@ '' \<Longrightarrow> c \<notin> set (form_encode s)"
  using form_chars [of c s] by (auto simp: is_alnum_def)

end
