(* ===== verification/Api_Client.thy ===== *)
theory Api_Client
  imports Web_Url
begin

text \<open>
  The typed API client of the console (\<^verbatim>\<open>web/packages/api/src/client.ts\<close>): reading the server's
  error bodies, building a request's URL and headers, and the session protocol around every request.
  \<^verbatim>\<open>request\<close> is asynchronous: what runs before its first \<^verbatim>\<open>await\<close> is \<open>request_dispatch\<close>, what runs
  when the response text (or the failure) arrives is \<open>request_complete\<close>, and other requests and a
  session reset may run in between; \<open>client_step\<close> is that interleaving.  \<^verbatim>\<open>JSON.parse\<close> (\<open>None\<close>: it
  throws), \<^verbatim>\<open>Number(text)\<close> and the rendering of a number are parameters.
\<close>

section \<open>Error bodies\<close>

text \<open>\<^verbatim>\<open>typeof v === 'object' && v !== null\<close>, and a property read on such a value.\<close>

fun is_object :: "js_value \<Rightarrow> bool" where
  "is_object (JObj _) = True"
| "is_object (JArr _) = True"
| "is_object (JDate _) = True"
| "is_object _ = False"

fun js_prop :: "js_value \<Rightarrow> string \<Rightarrow> js_value" where
  "js_prop (JObj ob) k = js_field ob k"
| "js_prop _ k = JUndefined"

fun object_values :: "js_value \<Rightarrow> js_value list" where
  "object_values (JObj ob) = map snd ob"
| "object_values (JArr vs) = vs"
| "object_values _ = []"

fun is_array :: "js_value \<Rightarrow> bool" where
  "is_array (JArr _) = True"
| "is_array _ = False"

fun strings_value :: "js_value \<Rightarrow> bool" where
  "strings_value (JStr _) = True"
| "strings_value (JArr vs) = list_all is_str vs"
| "strings_value _ = False"

record api_problem =
  pb_error :: "string option"
  pb_trace :: "string option"
  pb_errors :: "js_value list option"

text \<open>
  \<^verbatim>\<open>apiProblem\<close> returns its argument seen through the three fields; \<open>pb_errors\<close> is the list of the
  values of \<^verbatim>\<open>errors\<close>, which is what the sources read of it.
\<close>

definition apiProblem :: "js_value \<Rightarrow> api_problem option" where
  "apiProblem value =
     (if \<not> is_object value then None
      else let errors = js_prop value ''errors'' in
        if js_prop value ''error'' \<noteq> JUndefined \<and> \<not> is_str (js_prop value ''error'') then None
        else if js_prop value ''traceId'' \<noteq> JUndefined \<and> \<not> is_str (js_prop value ''traceId'') then None
        else if errors \<noteq> JUndefined \<and>
            (\<not> is_object errors \<or> is_array errors \<or> \<not> list_all strings_value (object_values errors)) then None
        else Some \<lparr>pb_error = str_of (js_prop value ''error''), pb_trace = str_of (js_prop value ''traceId''),
                   pb_errors = (if errors = JUndefined then None else Some (object_values errors))\<rparr>)"

fun num_of :: "js_value \<Rightarrow> js_num option" where
  "num_of (JNum n) = Some n"
| "num_of _ = None"

record api_plan_limit =
  pl_code :: string
  pl_limit :: "js_num option"
  pl_current :: "js_num option"

definition apiPlanLimit :: "nat \<Rightarrow> js_value \<Rightarrow> api_plan_limit option" where
  "apiPlanLimit status body =
     (if status \<noteq> 402 \<or> \<not> is_object body then None
      else case str_of (js_prop body ''code'') of
             None \<Rightarrow> None
           | Some code \<Rightarrow> Some \<lparr>pl_code = code, pl_limit = num_of (js_prop body ''limit''),
                                pl_current = num_of (js_prop body ''current'')\<rparr>)"

text \<open>The strings of the validation values, flattened one level as \<^verbatim>\<open>flatMap\<close> does.\<close>

fun flat_strings :: "js_value \<Rightarrow> string list" where
  "flat_strings (JStr s) = [s]"
| "flat_strings (JArr vs) = List.map_filter str_of vs"
| "flat_strings _ = []"

definition first_validation :: "js_value list option \<Rightarrow> string option" where
  "first_validation errors =
     (case errors of None \<Rightarrow> None
      | Some vs \<Rightarrow> List.find (\<lambda>s. s \<noteq> []) (concat (map flat_strings vs)))"

definition status_message :: "nat \<Rightarrow> string" where
  "status_message status =
     (if status = 0 then ''Unable to reach the server''
      else if status = 401 then ''Sign in required''
      else if status = 403 then ''Permission denied''
      else if status = 409 then ''The request conflicts with a newer change''
      else if status = 503 then ''The server is busy. Please try again.''
      else ''API '' @ nat_to_dec status)"

definition apiErrorMessage :: "(js_num \<Rightarrow> string) \<Rightarrow> nat \<Rightarrow> js_value \<Rightarrow> string" where
  "apiErrorMessage numText status body =
     (case apiPlanLimit status body of
        Some plan \<Rightarrow>
          (case pl_limit plan of
             None \<Rightarrow> ''Your plan does not include this feature''
           | Some l \<Rightarrow> ''Plan limit reached: '' @
               numText (case pl_current plan of None \<Rightarrow> l | Some c \<Rightarrow> c) @ '' of '' @ numText l @ '' used'')
      | None \<Rightarrow>
          (let problem = apiProblem body in
           case Option.bind problem pb_error of
             Some (ch # chs) \<Rightarrow> ch # chs
           | _ \<Rightarrow>
             (case first_validation (Option.bind problem pb_errors) of
                Some m \<Rightarrow> m
              | None \<Rightarrow>
                (case str_of body of
                   Some s \<Rightarrow> if trim s \<noteq> [] then trim s else status_message status
                 | None \<Rightarrow> status_message status))))"

record api_error =
  ae_status :: nat
  ae_body :: js_value
  ae_message :: string
  ae_outcome_unknown :: bool
  ae_retry_after :: "js_num option"

definition ApiError ::
  "(js_num \<Rightarrow> string) \<Rightarrow> nat \<Rightarrow> js_value \<Rightarrow> bool \<Rightarrow> js_num option \<Rightarrow> api_error" where
  "ApiError numText status body outcomeUnknown retryAfter =
     \<lparr>ae_status = status, ae_body = body, ae_message = apiErrorMessage numText status body,
      ae_outcome_unknown = outcomeUnknown, ae_retry_after = retryAfter\<rparr>"

definition isTransient :: "api_error \<Rightarrow> bool" where
  "isTransient e \<longleftrightarrow> ae_status e = 503 \<and> ae_retry_after e \<noteq> None"

section \<open>URLs\<close>

text \<open>A path or query parameter; a number comes with its rendering.\<close>

datatype param_value = PvUndefined | PvNull | PvStr string | PvNum string | PvBool bool

fun param_text :: "param_value \<Rightarrow> string" where
  "param_text PvUndefined = ''undefined''"
| "param_text PvNull = ''null''"
| "param_text (PvStr s) = s"
| "param_text (PvNum s) = s"
| "param_text (PvBool b) = (if b then ''true'' else ''false'')"

definition is_word :: "char \<Rightarrow> bool" where
  "is_word c \<longleftrightarrow> is_alnum c \<or> c = CHR ''_''"

text \<open>
  The replacement of every match of \<^verbatim>\<open>\{(\w+)\}\<close> by the encoded parameter; \<open>Inl key\<close> is the throw for
  a parameter that is not given.
\<close>

function fill_template ::
  "(string \<Rightarrow> param_value) \<Rightarrow> string \<Rightarrow> string + string" where
  "fill_template param [] = Inr []"
| "fill_template param (c # rest) =
     (let key = takeWhile is_word rest; after = dropWhile is_word rest in
      if c = CHR ''{'' \<and> key \<noteq> [] \<and> after \<noteq> [] \<and> hd after = CHR ''}'' then
        (if param key = PvUndefined then Inl key
         else map_sum id (\<lambda>s. encodeURIComponent (param_text (param key)) @ s) (fill_template param (tl after)))
      else map_sum id (\<lambda>s. c # s) (fill_template param rest))"
  by pat_completeness auto
termination
proof (relation "measure (length \<circ> snd)")
  fix param :: "string \<Rightarrow> param_value" and c rest x after
  assume "x = takeWhile is_word rest" and after: "after = dropWhile is_word rest"
  have "length (tl after) \<le> length rest" using length_dropWhile_le [of is_word rest] after by simp
  then show "((param, tl after), param, c # rest) \<in> measure (length \<circ> snd)" by simp
qed simp_all

record request_init =
  init_path :: "(string \<times> param_value) list"
  init_query :: "(string \<times> param_value) list"
  init_signal :: bool
  init_aborted :: bool
  init_idempotency :: "string option"

definition path_param :: "(string \<times> param_value) list \<Rightarrow> string \<Rightarrow> param_value" where
  "path_param ps k = (case map_of ps k of None \<Rightarrow> PvUndefined | Some v \<Rightarrow> v)"

definition query_pairs :: "(string \<times> param_value) list \<Rightarrow> (string \<times> string) list" where
  "query_pairs qs = map (\<lambda>(k, v). (k, param_text v)) (filter (\<lambda>(k, v). v \<noteq> PvUndefined \<and> v \<noteq> PvNull) qs)"

definition url :: "string \<Rightarrow> string \<Rightarrow> request_init \<Rightarrow> string + string" where
  "url base template init =
     (case fill_template (path_param (init_path init)) template of
        Inl key \<Rightarrow> Inl key
      | Inr filled \<Rightarrow>
          (let qs = search_params (query_pairs (init_query init))
           in Inr (base @ filled @ (if qs = [] then [] else ''?'' @ qs))))"

section \<open>A request\<close>

datatype client_event = ContextChanged | ContextObserved string

text \<open>The module's two variables, and the events it has dispatched on the window, latest first.\<close>

record client =
  session_context :: "string option"
  session_generation :: nat
  client_events :: "client_event list"

definition resetSessionContext :: "client \<Rightarrow> client" where
  "resetSessionContext s = s\<lparr>session_context := None, session_generation := session_generation s + 1\<rparr>"

definition truthy_str :: "string option \<Rightarrow> bool" where
  "truthy_str v \<longleftrightarrow> v \<noteq> None \<and> v \<noteq> Some []"

record client_env =
  env_base :: string
  env_browser :: bool
  env_parse :: "string \<Rightarrow> js_value option"
  env_number :: "string \<Rightarrow> js_num"
  env_num_text :: "js_num \<Rightarrow> string"

text \<open>What goes over the wire; the body is the value that is serialised.\<close>

record sent_request =
  sent_method :: string
  sent_url :: string
  sent_headers :: "(string \<times> string) list"
  sent_body :: "js_value option"

text \<open>What a started request remembers; \<open>fl_context\<close> is the session context it was sent with.\<close>

record in_flight =
  fl_generation :: nat
  fl_method :: string
  fl_template :: string
  fl_context :: "string option"

datatype dispatched = DAborted | DFailed api_error | DSent sent_request in_flight

definition error_body :: "string \<Rightarrow> js_value" where
  "error_body m = JObj [(''error'', JStr m)]"

definition interrupted :: "client_env \<Rightarrow> string \<Rightarrow> bool \<Rightarrow> api_error" where
  "interrupted env method deadlineAborted =
     ApiError (env_num_text env) 0
       (error_body (if method \<noteq> ''GET''
          then ''Connection interrupted. This operation may have completed. Refresh before retrying.''
          else if deadlineAborted then ''Request timed out. Please try again.''
          else ''Unable to reach the server'')) (method \<noteq> ''GET'') None"

definition context_header :: "client \<Rightarrow> string \<Rightarrow> string option" where
  "context_header s template =
     (if truthy_str (session_context s) \<and> template \<noteq> ''/me'' then session_context s else None)"

definition request_headers ::
  "client \<Rightarrow> string \<Rightarrow> request_init \<Rightarrow> js_value option \<Rightarrow> (string \<times> string) list" where
  "request_headers s template init body =
     (if truthy_str (init_idempotency init) then [(''Idempotency-Key'', the (init_idempotency init))] else []) @
     (if body = None then [] else [(''Content-Type'', ''application/json'')]) @
     (case context_header s template of None \<Rightarrow> [] | Some c \<Rightarrow> [(''X-Premise-Session-Context'', c)])"

text \<open>
  \<^verbatim>\<open>request\<close> up to the \<^verbatim>\<open>await\<close>.  The URL is built inside the \<^verbatim>\<open>try\<close>, so a missing path parameter
  reaches the same handler as a lost connection.
\<close>

definition request_dispatch ::
  "client_env \<Rightarrow> string \<Rightarrow> string \<Rightarrow> request_init \<Rightarrow> js_value option \<Rightarrow> client \<Rightarrow> dispatched" where
  "request_dispatch env method template init body s =
     (if init_signal init \<and> init_aborted init then DAborted
      else case url (env_base env) template init of
             Inl key \<Rightarrow> DFailed (interrupted env method False)
           | Inr u \<Rightarrow>
               DSent \<lparr>sent_method = method, sent_url = u,
                      sent_headers = request_headers s template init body, sent_body = body\<rparr>
                     \<lparr>fl_generation = session_generation s, fl_method = method, fl_template = template,
                      fl_context = context_header s template\<rparr>)"

record response =
  rs_status :: nat
  rs_text :: string
  rs_session :: "string option"
  rs_retry :: "string option"

definition rs_ok :: "response \<Rightarrow> bool" where
  "rs_ok r \<longleftrightarrow> 200 \<le> rs_status r \<and> rs_status r \<le> 299"

text \<open>The outcome of the fetch: it throws (was the caller's signal aborted, was the deadline), or answers.\<close>

datatype net_outcome = NetFailed bool bool | NetResponse response

datatype request_result = Resolved js_value | Rejected api_error | RejectedReason

definition parse_text :: "client_env \<Rightarrow> string \<Rightarrow> js_value" where
  "parse_text env text =
     (if text = [] then JUndefined
      else case env_parse env text of Some v \<Rightarrow> v | None \<Rightarrow> JStr text)"

fun js_finite :: "js_num \<Rightarrow> bool" where
  "js_finite (Fin _) = True"
| "js_finite _ = False"

definition retry_after :: "client_env \<Rightarrow> string option \<Rightarrow> js_num option" where
  "retry_after env header =
     (let after = (case header of None \<Rightarrow> NaN | Some h \<Rightarrow> if trim h = [] then NaN else env_number env h)
      in if js_finite after \<and> \<not> js_less after (Fin 0) then Some after else None)"

definition emit :: "client_event \<Rightarrow> client \<Rightarrow> client" where
  "emit ev s = s\<lparr>client_events := ev # client_events s\<rparr>"

definition finish_response :: "client_env \<Rightarrow> response \<Rightarrow> js_value \<Rightarrow> request_result" where
  "finish_response env r parsed =
     (if \<not> rs_ok r
      then Rejected (ApiError (env_num_text env) (rs_status r) parsed False (retry_after env (rs_retry r)))
      else Resolved parsed)"

text \<open>The session protocol of the browser, then the status.\<close>

definition session_response ::
  "client_env \<Rightarrow> in_flight \<Rightarrow> response \<Rightarrow> js_value \<Rightarrow> client \<Rightarrow> request_result \<times> client" where
  "session_response env fl r parsed s =
     (let err = (\<lambda>status m. Rejected (ApiError (env_num_text env) status (error_body m) False None));
          me = (fl_template fl = ''/me'');
          observed = (if me then rs_session r else None);
          known = session_context s;
          mismatch = (rs_status r = 409 \<and> is_object parsed \<and>
                      js_prop parsed ''code'' = JStr ''session_context_changed'')
      in if fl_generation fl \<noteq> session_generation s
         then (err 409 ''This response belongs to a previous session.'', s)
         else if me \<and> rs_ok r \<and> \<not> truthy_str observed
         then (err 502 ''Session verification unavailable. Reload; if this continues, contact support.'',
               if truthy_str known then emit ContextChanged s else s)
         else if mismatch \<or> truthy_str observed \<and> truthy_str known \<and> observed \<noteq> known
         then (err 409 ''Your session changed. Please retry in the current organization.'',
               emit ContextChanged s)
         else (finish_response env r parsed,
               if truthy_str observed \<and> rs_ok r \<and> observed \<noteq> known
               then emit (ContextObserved (the observed)) (s\<lparr>session_context := observed\<rparr>) else s))"

definition request_complete ::
  "client_env \<Rightarrow> in_flight \<Rightarrow> net_outcome \<Rightarrow> client \<Rightarrow> request_result \<times> client" where
  "request_complete env fl outcome s =
     (case outcome of
        NetFailed signalAborted deadlineAborted \<Rightarrow>
          (if fl_method fl = ''GET'' \<and> signalAborted then RejectedReason
           else Rejected (interrupted env (fl_method fl) deadlineAborted), s)
      | NetResponse r \<Rightarrow>
          (let parsed = parse_text env (rs_text r) in
           if env_browser env then session_response env fl r parsed s
           else (finish_response env r parsed, s)))"

section \<open>Interleaved requests\<close>

record client_world =
  cw_client :: client
  cw_flights :: "in_flight list"

datatype client_label =
    LReset
  | LDispatch in_flight
  | LComplete in_flight net_outcome request_result

inductive client_step :: "client_env \<Rightarrow> client_world \<Rightarrow> client_label \<Rightarrow> client_world \<Rightarrow> bool" for env where
  reset: "client_step env w LReset (w\<lparr>cw_client := resetSessionContext (cw_client w)\<rparr>)"
| dispatch: "request_dispatch env method template init body (cw_client w) = DSent r fl \<Longrightarrow>
    client_step env w (LDispatch fl) (w\<lparr>cw_flights := fl # cw_flights w\<rparr>)"
| complete: "fl \<in> set (cw_flights w) \<Longrightarrow> request_complete env fl outcome (cw_client w) = (res, c) \<Longrightarrow>
    client_step env w (LComplete fl outcome res)
      (w\<lparr>cw_client := c, cw_flights := remove1 fl (cw_flights w)\<rparr>)"

inductive_cases client_step_elim: "client_step env w l w'"

definition client_start :: client_world where
  "client_start = \<lparr>cw_client = \<lparr>session_context = None, session_generation = 0, client_events = []\<rparr>,
     cw_flights = []\<rparr>"

inductive client_reachable :: "client_env \<Rightarrow> client_world \<Rightarrow> bool" for env where
  start: "client_reachable env client_start"
| step: "client_reachable env w \<Longrightarrow> client_step env w l w' \<Longrightarrow> client_reachable env w'"

section \<open>The session protocol\<close>

text \<open>
  The two ways a completion leaves the session context: as it was, or, from none, set to what an
  accepted \<^verbatim>\<open>/me\<close> response of the current generation carries.
\<close>

lemma complete_context:
  assumes "request_complete env fl outcome s = (res, s')"
  shows "session_generation s' = session_generation s"
    and "session_context s' = session_context s \<or>
      (\<not> truthy_str (session_context s) \<and>
       (\<exists>r. outcome = NetResponse r \<and> env_browser env \<and> fl_template fl = ''/me'' \<and> rs_ok r \<and>
          fl_generation fl = session_generation s \<and> session_context s' = rs_session r \<and>
          truthy_str (rs_session r)))"
proof -
  have "session_generation s' = session_generation s \<and>
     (session_context s' = session_context s \<or>
      (\<not> truthy_str (session_context s) \<and>
       (\<exists>r. outcome = NetResponse r \<and> env_browser env \<and> fl_template fl = ''/me'' \<and> rs_ok r \<and>
          fl_generation fl = session_generation s \<and> session_context s' = rs_session r \<and>
          truthy_str (rs_session r))))"
  proof (cases outcome)
    case (NetResponse r)
    with assms show ?thesis
      by (cases "env_browser env"; cases "fl_template fl = ''/me''")
        (auto simp: request_complete_def session_response_def emit_def truthy_str_def Let_def split: if_splits)
  qed (use assms in \<open>auto simp: request_complete_def\<close>)
  then show "session_generation s' = session_generation s"
    and "session_context s' = session_context s \<or>
      (\<not> truthy_str (session_context s) \<and>
       (\<exists>r. outcome = NetResponse r \<and> env_browser env \<and> fl_template fl = ''/me'' \<and> rs_ok r \<and>
          fl_generation fl = session_generation s \<and> session_context s' = rs_session r \<and>
          truthy_str (rs_session r)))" by blast+
qed

definition client_inv :: "client_world \<Rightarrow> bool" where
  "client_inv w \<longleftrightarrow> session_context (cw_client w) \<noteq> Some [] \<and>
     (\<forall>fl\<in>set (cw_flights w). fl_generation fl \<le> session_generation (cw_client w) \<and>
        (fl_generation fl = session_generation (cw_client w) \<longrightarrow>
           fl_context fl = None \<or> fl_context fl = session_context (cw_client w)))"

lemma client_inv_step:
  assumes "client_step env w l w'" "client_inv w"
  shows "client_inv w'"
  using assms
proof (induction rule: client_step.induct)
  case (reset w)
  then show ?case by (auto simp: client_inv_def resetSessionContext_def)
next
  case (dispatch verb tpl init body w r fl)
  then show ?case
    by (auto simp: client_inv_def request_dispatch_def context_header_def split: if_splits sum.splits)
next
  case (complete fl w outcome res c)
  note ctx = complete_context [OF complete.hyps(2)]
  from ctx(2) show ?case
  proof
    assume "session_context c = session_context (cw_client w)"
    with complete.prems ctx(1) show ?thesis by (auto simp: client_inv_def dest: in_set_remove1 notin_set_remove1)
  next
    assume "\<not> truthy_str (session_context (cw_client w)) \<and>
       (\<exists>r. outcome = NetResponse r \<and> env_browser env \<and> fl_template fl = ''/me'' \<and> rs_ok r \<and>
          fl_generation fl = session_generation (cw_client w) \<and> session_context c = rs_session r \<and>
          truthy_str (rs_session r))"
    then have "session_context (cw_client w) = None" "session_context c \<noteq> Some []"
      using complete.prems by (auto simp: truthy_str_def client_inv_def)
    with complete.prems ctx(1) show ?thesis
      by (auto simp: client_inv_def dest: notin_set_remove1)
  qed
qed

lemma reachable_inv: "client_reachable env w \<Longrightarrow> client_inv w"
proof (induction rule: client_reachable.induct)
  case start
  show ?case by (simp add: client_start_def client_inv_def)
next
  case (step w l w')
  from step.hyps(2) step.IH show ?case by (rule client_inv_step)
qed

lemma resolved_current:
  assumes "request_complete env fl outcome s = (Resolved v, s')" "env_browser env"
  shows "fl_generation fl = session_generation s"
  using assms
  by (cases outcome) (auto simp: request_complete_def session_response_def Let_def split: if_splits)

lemmas complete_defs = request_complete_def session_response_def finish_response_def Let_def

subsection \<open>A concrete trace\<close>

definition sample_env :: client_env where
  "sample_env = \<lparr>env_base = [], env_browser = True, env_parse = (\<lambda>s. None),
     env_number = (\<lambda>s. if s = ''2'' then Fin 2 else NaN), env_num_text = (\<lambda>n. ''?'')\<rparr>"

definition plain_init :: request_init where
  "plain_init = \<lparr>init_path = [], init_query = [], init_signal = False, init_aborted = False,
     init_idempotency = None\<rparr>"

definition me_flight :: in_flight where
  "me_flight = \<lparr>fl_generation = 0, fl_method = ''GET'', fl_template = ''/me'', fl_context = None\<rparr>"

definition me_response :: response where
  "me_response = \<lparr>rs_status = 200, rs_text = ''x'', rs_session = Some ''org1'', rs_retry = None\<rparr>"

definition sites_flight :: in_flight where
  "sites_flight = \<lparr>fl_generation = 0, fl_method = ''GET'', fl_template = ''/api/sites'',
     fl_context = Some ''org1''\<rparr>"

definition signed_in :: client_world where
  "signed_in = \<lparr>cw_client = \<lparr>session_context = Some ''org1'', session_generation = 0,
     client_events = [ContextObserved ''org1'']\<rparr>, cw_flights = []\<rparr>"

lemma me_step: "client_reachable sample_env (client_start\<lparr>cw_flights := [me_flight]\<rparr>)"
proof -
  have "request_dispatch sample_env ''GET'' ''/me'' plain_init None (cw_client client_start) =
      DSent \<lparr>sent_method = ''GET'', sent_url = ''/me'', sent_headers = [], sent_body = None\<rparr> me_flight"
    by (simp add: request_dispatch_def url_def plain_init_def client_start_def sample_env_def
        context_header_def request_headers_def me_flight_def truthy_str_def is_word_def is_alnum_def
        query_pairs_def search_params_def)
  from client_reachable.step [OF client_reachable.start client_step.dispatch [OF this]] show ?thesis
    by (simp add: client_start_def)
qed

lemma me_completes:
  "client_step sample_env (client_start\<lparr>cw_flights := [me_flight]\<rparr>)
     (LComplete me_flight (NetResponse me_response) (Resolved (JStr ''x''))) signed_in"
proof -
  have answer: "request_complete sample_env me_flight (NetResponse me_response) (cw_client client_start) =
      (Resolved (JStr ''x''), cw_client signed_in)"
    by (simp add: complete_defs sample_env_def me_flight_def me_response_def signed_in_def
        client_start_def rs_ok_def truthy_str_def parse_text_def emit_def)
  let ?w = "client_start\<lparr>cw_flights := [me_flight]\<rparr>"
  have "client_step sample_env ?w (LComplete me_flight (NetResponse me_response) (Resolved (JStr ''x'')))
      (?w\<lparr>cw_client := cw_client signed_in, cw_flights := remove1 me_flight (cw_flights ?w)\<rparr>)"
    by (rule client_step.complete) (simp_all add: answer)
  then show ?thesis by (simp add: client_start_def signed_in_def)
qed

lemma signed_in_reachable: "client_reachable sample_env signed_in"
  using client_reachable.step [OF me_step me_completes] .

lemma sites_sent: "client_step sample_env signed_in (LDispatch sites_flight) (signed_in\<lparr>cw_flights := [sites_flight]\<rparr>)"
proof -
  have "request_dispatch sample_env ''GET'' ''/api/sites'' plain_init None (cw_client signed_in) =
      DSent \<lparr>sent_method = ''GET'', sent_url = ''/api/sites'',
             sent_headers = [(''X-Premise-Session-Context'', ''org1'')], sent_body = None\<rparr> sites_flight"
    by (simp add: request_dispatch_def url_def plain_init_def signed_in_def sample_env_def
        context_header_def request_headers_def sites_flight_def truthy_str_def is_word_def is_alnum_def
        query_pairs_def search_params_def)
  from client_step.dispatch [OF this] show ?thesis by (simp add: signed_in_def)
qed

subsection \<open>Properties\<close>

text \<open>The session context is written once per generation: whatever requests are in flight and in
  whatever order they complete, once the client knows its session context no response changes it;
  only a reset, which starts a new generation, clears it, and only a successful \<^verbatim>\<open>/me\<close> response of the
  current generation sets it.\<close>

theorem context_write_once:
  assumes "client_reachable env w" "client_step env w l w'" "l \<noteq> LReset"
  shows "session_generation (cw_client w') = session_generation (cw_client w) \<and>
    (session_context (cw_client w) \<noteq> None \<longrightarrow> session_context (cw_client w') = session_context (cw_client w)) \<and>
    (session_context (cw_client w') \<noteq> session_context (cw_client w) \<longrightarrow>
       (\<exists>fl r res. l = LComplete fl (NetResponse r) res \<and> fl_template fl = ''/me'' \<and> rs_ok r \<and>
          fl_generation fl = session_generation (cw_client w) \<and>
          session_context (cw_client w') = rs_session r))"
  using assms(2,3) reachable_inv [OF assms(1)]
proof (cases rule: client_step.cases)
  case (complete fl outcome res c)
  have "session_context (cw_client w) \<noteq> Some []"
    using reachable_inv [OF assms(1)] by (simp add: client_inv_def)
  with complete complete_context [OF complete(4)] show ?thesis by (auto simp: truthy_str_def)
qed (use assms(3) in auto)

theorem context_write_once_witness:
  "session_context (cw_client signed_in) = Some ''org1'' \<and>
   session_context (cw_client (signed_in\<lparr>cw_flights := [sites_flight]\<rparr>)) = Some ''org1''"
  using context_write_once [OF signed_in_reachable sites_sent] by (simp add: signed_in_def)

text \<open>C1: No response crosses a session change in the browser: a request that resolves belongs to the
  current generation, and if it was sent with a session context then that context is still the
  current one when its data is handed to the caller.\<close>

theorem resolved_in_session:
  assumes "client_reachable env w" "env_browser env"
    and "client_step env w (LComplete fl outcome (Resolved v)) w'"
  shows "fl_generation fl = session_generation (cw_client w') \<and>
    (fl_context fl \<noteq> None \<longrightarrow> fl_context fl = session_context (cw_client w'))"
  using assms(3)
proof (cases rule: client_step.cases)
  case (complete c)
  note inv = reachable_inv [OF assms(1)]
  have gen: "fl_generation fl = session_generation (cw_client w)"
    by (rule resolved_current [OF complete(3) assms(2)])
  then have "fl_context fl = None \<or> fl_context fl = session_context (cw_client w)"
    using inv complete(2) by (auto simp: client_inv_def)
  with gen complete inv complete_context [OF complete(3)] show ?thesis
    by (auto simp: truthy_str_def client_inv_def)
qed

theorem resolved_in_session_witness:
  "fl_generation sites_flight = session_generation (cw_client signed_in) \<and>
   fl_context sites_flight = session_context (cw_client signed_in)"
proof -
  let ?r = "\<lparr>rs_status = 200, rs_text = ''x'', rs_session = None, rs_retry = None\<rparr>"
  let ?w = "signed_in\<lparr>cw_flights := [sites_flight]\<rparr>"
  have "request_complete sample_env sites_flight (NetResponse ?r) (cw_client ?w) =
      (Resolved (JStr ''x''), cw_client signed_in)"
    by (simp add: complete_defs sample_env_def sites_flight_def signed_in_def rs_ok_def truthy_str_def
        parse_text_def)
  from client_step.complete [OF _ this]
  have "client_step sample_env ?w (LComplete sites_flight (NetResponse ?r) (Resolved (JStr ''x''))) signed_in"
    by (simp add: signed_in_def)
  moreover have "env_browser sample_env" by (simp add: sample_env_def)
  moreover have "client_reachable sample_env ?w"
    by (rule client_reachable.step [OF signed_in_reachable sites_sent])
  ultimately show ?thesis using resolved_in_session by (fastforce simp: sites_flight_def)
qed



text \<open>A request is offered for an automatic repeat only when the server itself answered 503 with a
  usable Retry-After; a write whose outcome is unknown (the connection was lost) never is, and exactly
  the interrupted writes are marked so.\<close>

theorem transient_only_when_timed:
  assumes "request_complete env fl outcome s = (Rejected e, s')"
  shows "(isTransient e \<longrightarrow> \<not> ae_outcome_unknown e \<and>
      (\<exists>r h q. outcome = NetResponse r \<and> rs_status r = 503 \<and> rs_retry r = Some h \<and>
         env_number env h = Fin q \<and> 0 \<le> q \<and> ae_retry_after e = Some (Fin q))) \<and>
    (ae_outcome_unknown e \<longleftrightarrow> fl_method fl \<noteq> ''GET'' \<and> (\<exists>a d. outcome = NetFailed a d))"
proof -
  have retry: "\<exists>h q. rs_retry r = Some h \<and> env_number env h = Fin q \<and> 0 \<le> q \<and> v = Fin q"
    if "retry_after env (rs_retry r) = Some v" for r v
    using that by (auto simp: retry_after_def Let_def not_less elim!: js_finite.elims
        split: option.splits if_splits)
  show ?thesis
  proof (cases outcome)
    case (NetFailed a d)
    with assms show ?thesis
      by (auto simp: request_complete_def interrupted_def ApiError_def isTransient_def split: if_splits)
  next
    case (NetResponse r)
    with assms retry show ?thesis
      by (fastforce simp: complete_defs ApiError_def isTransient_def split: if_splits)
  qed
qed

theorem transient_only_when_timed_witness:
  "\<exists>e. request_complete sample_env (me_flight\<lparr>fl_template := ''/api/reports''\<rparr>)
     (NetResponse \<lparr>rs_status = 503, rs_text = [], rs_session = None, rs_retry = Some ''2''\<rparr>)
     (cw_client client_start) = (Rejected e, cw_client client_start) \<and> isTransient e \<and> \<not> ae_outcome_unknown e"
proof -
  let ?fl = "me_flight\<lparr>fl_template := ''/api/reports''\<rparr>"
  let ?r = "NetResponse \<lparr>rs_status = 503, rs_text = [], rs_session = None, rs_retry = Some ''2''\<rparr>"
  have "\<exists>e. request_complete sample_env ?fl ?r (cw_client client_start) = (Rejected e, cw_client client_start) \<and>
      isTransient e"
    by (simp add: complete_defs sample_env_def me_flight_def client_start_def rs_ok_def truthy_str_def
        parse_text_def ApiError_def isTransient_def retry_after_def trim_def is_ws_def)
  then obtain e where e: "request_complete sample_env ?fl ?r (cw_client client_start) = (Rejected e, cw_client client_start)"
    "isTransient e" by blast
  with transient_only_when_timed [OF e(1)] show ?thesis by blast
qed

section \<open>Messages and URLs\<close>

lemma first_validation_ne: "first_validation errors = Some m \<Longrightarrow> m \<noteq> []"
  by (auto simp: first_validation_def split: option.splits dest: find_Some_in)

lemma status_message_ne: "status_message status \<noteq> []"
  by (simp add: status_message_def)

text \<open>An API error always has a message to show: it is never empty, whatever the status and the
  body, and a body that is neither text nor a well-formed problem nor a plan limit is not quoted but
  answered by the status alone.\<close>

theorem error_message_total:
  "apiErrorMessage numText status body \<noteq> [] \<and>
   (apiPlanLimit status body = None \<and> apiProblem body = None \<and> str_of body = None \<longrightarrow>
      apiErrorMessage numText status body = status_message status)"
proof -
  have "apiErrorMessage numText status body \<noteq> []"
    using first_validation_ne status_message_ne
    by (auto simp: apiErrorMessage_def Let_def split: option.splits list.splits)
  then show ?thesis by (simp add: apiErrorMessage_def first_validation_def)
qed

theorem error_message_total_witness:
  "apiErrorMessage (\<lambda>n. ''?'') 403 (JObj [(''errors'', JObj [(''name'', JArr [JNull])])]) = ''Permission denied''"
  using error_message_total [of "\<lambda>n. ''?''" 403 "JObj [(''errors'', JObj [(''name'', JArr [JNull])])]"]
  by (simp add: apiPlanLimit_def apiProblem_def str_of_def status_message_def js_field_def is_str_def)

lemma count_encoded: "c \<in> set ''/?#&'' \<Longrightarrow> count_list (encodeURIComponent s) c = 0"
  using delimiters_not_encoded [of c s] by (auto simp: count_list_0_iff)

lemma count_word: "c \<in> set ''/?#&'' \<Longrightarrow> count_list (takeWhile is_word s) c = 0"
  by (auto simp: count_list_0_iff is_word_def is_alnum_def dest: set_takeWhileD)

lemma fill_template_count:
  "fill_template param t = Inr s \<Longrightarrow> c \<in> set ''/?#&'' \<Longrightarrow> count_list s c = count_list t c"
proof (induction param t arbitrary: s rule: fill_template.induct)
  case (2 param x rest)
  let ?key = "takeWhile is_word rest" and ?after = "dropWhile is_word rest"
  show ?case
  proof (cases "x = CHR ''{'' \<and> ?key \<noteq> [] \<and> ?after \<noteq> [] \<and> hd ?after = CHR ''}''")
    case True
    then obtain s' where s': "fill_template param (tl ?after) = Inr s'"
        "s = encodeURIComponent (param_text (param ?key)) @ s'" "param ?key \<noteq> PvUndefined"
      using "2.prems"(1) by (cases "fill_template param (tl ?after)") (auto simp: Let_def split: if_splits)
    have IH: "count_list s' c = count_list (tl ?after) c"
      using "2.IH"(1) [OF refl refl True s'(3,1) "2.prems"(2)] .
    have "rest = ?key @ CHR ''}'' # tl ?after"
      using True takeWhile_dropWhile_id [of is_word rest] by (cases ?after) auto
    from arg_cong [OF this, of "\<lambda>r. count_list r c"]
    have "count_list rest c = count_list (tl ?after) c"
      using "2.prems"(2) count_word [OF "2.prems"(2)] by auto
    then show ?thesis
      using True IH s'(2) "2.prems"(2) count_encoded [OF "2.prems"(2)] by auto
  next
    case False
    then obtain s' where s': "fill_template param rest = Inr s'" "s = x # s'"
      using "2.prems"(1) by (cases "fill_template param rest") (auto simp: Let_def split: if_splits)
    from "2.IH"(2) [OF refl refl False s'(1) "2.prems"(2)] s'(2) show ?thesis by simp
  qed
qed simp

text \<open>A path parameter stays inside its segment: filling a template adds no slash, question mark,
  hash or ampersand, whatever the parameters hold; and two parameter texts give the same encoded
  segment only when they are equal.\<close>

theorem path_parameters_contained:
  assumes "fill_template param template = Inr filled" "c \<in> set ''/?#&''"
  shows "count_list filled c = count_list template c \<and>
    (encodeURIComponent a = encodeURIComponent b \<longleftrightarrow> a = b)"
  using fill_template_count [OF assms] by (simp add: encode_inject)

theorem path_parameters_contained_witness:
  "count_list ''/api/sites/a%2Fb%3F/files'' (CHR ''/'') = count_list ''/api/sites/{id}/files'' (CHR ''/'')"
proof -
  have "fill_template (\<lambda>k. PvStr ''a/b?'') ''/api/sites/{id}/files'' = Inr ''/api/sites/a%2Fb%3F/files''"
    by code_simp
  moreover have "CHR ''/'' \<in> set ''/?#&''" by simp
  ultimately show ?thesis using path_parameters_contained by blast
qed

text \<open>A call that forgets a path parameter sends nothing, yet what the caller sees for a write is
  the message that the operation may have completed, with the outcome marked unknown: the URL is
  built inside the \<^verbatim>\<open>try\<close> whose handler reports lost connections.\<close>

theorem missing_parameter_reported_as_interrupted:
  assumes "fill_template (path_param (init_path init)) template = Inl key"
    and "\<not> (init_signal init \<and> init_aborted init)" "method \<noteq> ''GET''"
  shows "\<exists>e. request_dispatch env method template init body s = DFailed e \<and> ae_status e = 0 \<and>
    ae_outcome_unknown e \<and>
    ae_message e = ''Connection interrupted. This operation may have completed. Refresh before retrying.''"
  using assms
  by (simp add: request_dispatch_def url_def interrupted_def ApiError_def apiErrorMessage_def
      apiPlanLimit_def apiProblem_def error_body_def js_field_def str_of_def)

theorem missing_parameter_reported_as_interrupted_witness:
  "\<exists>e. request_dispatch sample_env ''POST'' ''/api/files/{id}/complete'' plain_init None (cw_client signed_in) =
     DFailed e \<and> ae_outcome_unknown e"
proof -
  have "fill_template (path_param (init_path plain_init)) ''/api/files/{id}/complete'' = Inl ''id''"
    by code_simp
  from missing_parameter_reported_as_interrupted [OF this, of "''POST''" sample_env None "cw_client signed_in"]
  show ?thesis by (auto simp: plain_init_def)
qed

end
