(* ===== verification/Console_Session.thy ===== *)
theory Console_Session
  imports Api_Client
begin

text \<open>
  Who is signed in and what they see: the console's \<^verbatim>\<open>/me\<close> parser and capability check
  (\<^verbatim>\<open>apps/console/src/session.tsx\<close>, the capability list of \<^verbatim>\<open>packages/api/src/keys.ts\<close>), the
  navigation (\<^verbatim>\<open>app/shell/nav.ts\<close>) and the session boundary that owns a change of session
  (\<^verbatim>\<open>app/session-boundary.tsx\<close>) on top of the API client.
\<close>

section \<open>Capabilities and the signed-in party\<close>

definition CAPABILITIES :: "string list" where
  "CAPABILITIES =
    [''public:read'', ''sites:read'', ''sites:manage'', ''hierarchy:manage'', ''files:read'',
     ''files:manage'', ''ingest:manage'', ''reports:generate'', ''checklists:manage'',
     ''checklists:complete'', ''overlays:read'', ''overlays:manage'', ''audit:read'', ''audit:manage'',
     ''entitlements:manage'', ''roles:manage'', ''org:manage'', ''platform:operate'']"

record org_ref =
  org_id :: string
  org_name :: string
  org_slug :: string

record user =
  user_id :: string
  user_email :: string
  user_name :: "string option"
  user_active_org :: "string option"
  user_orgs :: "org_ref list"
  user_capabilities :: "string list"
  user_impersonation :: "string option"

datatype me = Guest "string option" | Contact string string | User user

definition optional_string :: "js_value \<Rightarrow> string \<Rightarrow> string option" where
  "optional_string row key = str_of (js_prop row key)"

definition org_ok :: "js_value \<Rightarrow> bool" where
  "org_ok org \<longleftrightarrow> is_object org \<and> list_all (\<lambda>key. is_str (js_prop org key)) [''id'', ''name'', ''slug'']"

definition capability_ok :: "js_value \<Rightarrow> bool" where
  "capability_ok c = (case str_of c of None \<Rightarrow> False | Some s \<Rightarrow> s \<in> set CAPABILITIES)"

definition text_of :: "js_value \<Rightarrow> string" where
  "text_of v = (case str_of v of Some s \<Rightarrow> s | None \<Rightarrow> [])"

definition parse_org :: "js_value \<Rightarrow> org_ref" where
  "parse_org org = \<lparr>org_id = text_of (js_prop org ''id''), org_name = text_of (js_prop org ''name''),
     org_slug = text_of (js_prop org ''slug'')\<rparr>"

fun elems :: "js_value \<Rightarrow> js_value list" where
  "elems (JArr vs) = vs"
| "elems _ = []"

text \<open>\<open>None\<close> is the thrown "invalid session response".\<close>

definition parseMe :: "js_value \<Rightarrow> me option" where
  "parseMe row =
     (if \<not> is_object row then None
      else let tier = js_prop row ''tier''; orgs = js_prop row ''organizations'';
               caps = js_prop row ''capabilities'' in
        if tier = JStr ''guest'' then Some (Guest (optional_string row ''org''))
        else if tier = JStr ''contact'' \<and> is_str (js_prop row ''contactId'') \<and> is_str (js_prop row ''org'')
        then Some (Contact (text_of (js_prop row ''contactId'')) (text_of (js_prop row ''org'')))
        else if tier = JStr ''user'' \<and> is_str (js_prop row ''userId'') \<and> is_str (js_prop row ''email'') \<and>
            is_array orgs \<and> list_all org_ok (elems orgs) \<and>
            is_array caps \<and> list_all capability_ok (elems caps)
        then Some (User \<lparr>user_id = text_of (js_prop row ''userId''), user_email = text_of (js_prop row ''email''),
               user_name = optional_string row ''name'', user_active_org = optional_string row ''activeOrg'',
               user_orgs = map parse_org (elems orgs), user_capabilities = map text_of (elems caps),
               user_impersonation = optional_string row ''impersonationExpiresAt''\<rparr>)
        else None)"

definition can :: "me option \<Rightarrow> string \<Rightarrow> bool" where
  "can m capability = (case m of Some (User u) \<Rightarrow> capability \<in> set (user_capabilities u) | _ \<Rightarrow> False)"

section \<open>Navigation\<close>

record nav_item =
  nav_to :: string
  nav_label :: string
  nav_capability :: "string option"

abbreviation nav :: "string \<Rightarrow> string \<Rightarrow> string option \<Rightarrow> nav_item" where
  "nav t l c \<equiv> \<lparr>nav_to = t, nav_label = l, nav_capability = c\<rparr>"

definition NAV_GROUPS :: "(string option \<times> nav_item list) list" where
  "NAV_GROUPS =
    [(None,
       [nav ''/'' ''Dashboard'' None, nav ''/sites'' ''Sites'' (Some ''sites:read''),
        nav ''/overlays'' ''Overlays'' (Some ''overlays:read''),
        nav ''/hierarchy'' ''Hierarchy'' (Some ''hierarchy:manage''),
        nav ''/checklists'' ''Checklists'' (Some ''checklists:complete''),
        nav ''/files'' ''Files'' (Some ''files:read''), nav ''/reports'' ''Reports'' (Some ''files:read''),
        nav ''/ingest'' ''Ingest'' (Some ''ingest:manage'')]),
     (Some ''Administer'',
       [nav ''/members'' ''Members'' (Some ''roles:manage''), nav ''/roles'' ''Roles'' (Some ''roles:manage''),
        nav ''/developers'' ''Developers'' (Some ''org:manage''),
        nav ''/settings'' ''Settings'' (Some ''org:manage''), nav ''/audit'' ''Audit'' (Some ''audit:read'')]),
     (Some ''Platform'', [nav ''/operator'' ''Operator'' (Some ''platform:operate'')])]"

definition visibleGroups :: "user \<Rightarrow> (string option \<times> nav_item list) list" where
  "visibleGroups u =
     filter (\<lambda>(l, items). items \<noteq> [])
       (map (\<lambda>(l, items). (l, filter (\<lambda>n. case nav_capability n of
                                            None \<Rightarrow> True | Some c \<Rightarrow> can (Some (User u)) c) items)) NAV_GROUPS)"

definition isActive :: "string \<Rightarrow> string \<Rightarrow> bool" where
  "isActive path to = (if to = ''/'' then path = ''/'' else path = to \<or> starts_with path (to @ ''/''))"

definition SCOPED_PAGES :: "string list" where
  "SCOPED_PAGES = [''/sites'', ''/checklists'', ''/overlays'']"

definition isScopedPage :: "string \<Rightarrow> bool" where
  "isScopedPage path = list_ex (isActive path) SCOPED_PAGES"

definition pageTitle :: "string \<Rightarrow> string" where
  "pageTitle path =
     (if starts_with path ''/account'' then ''Account''
      else case List.find (\<lambda>n. isActive path (nav_to n)) (concat (map snd NAV_GROUPS)) of
             Some n \<Rightarrow> nav_label n
           | None \<Rightarrow> ''Premise'')"

section \<open>Properties of the session\<close>

text \<open>The JSON a server sends for a signed-in party, and the values it may name.\<close>

definition opt_field :: "string \<Rightarrow> string option \<Rightarrow> (string \<times> js_value) list" where
  "opt_field k v = (case v of None \<Rightarrow> [] | Some s \<Rightarrow> [(k, JStr s)])"

definition org_json :: "org_ref \<Rightarrow> js_value" where
  "org_json g = JObj [(''id'', JStr (org_id g)), (''name'', JStr (org_name g)), (''slug'', JStr (org_slug g))]"

fun me_json :: "me \<Rightarrow> js_value" where
  "me_json (Guest org) = JObj ((''tier'', JStr ''guest'') # opt_field ''org'' org)"
| "me_json (Contact c org) = JObj [(''tier'', JStr ''contact''), (''contactId'', JStr c), (''org'', JStr org)]"
| "me_json (User u) = JObj
     ([(''tier'', JStr ''user''), (''userId'', JStr (user_id u)), (''email'', JStr (user_email u)),
       (''organizations'', JArr (map org_json (user_orgs u))),
       (''capabilities'', JArr (map JStr (user_capabilities u)))] @
      opt_field ''name'' (user_name u) @ opt_field ''activeOrg'' (user_active_org u) @
      opt_field ''impersonationExpiresAt'' (user_impersonation u))"

fun me_ok :: "me \<Rightarrow> bool" where
  "me_ok (User u) = list_all (\<lambda>c. c \<in> set CAPABILITIES) (user_capabilities u)"
| "me_ok _ = True"

lemma map_of_opt_field [simp]: "map_of (opt_field k v) = (\<lambda>x. if x = k then map_option JStr v else None)"
  by (auto simp: opt_field_def split: option.splits)

lemma str_of_field: "str_of (case map_option JStr v of None \<Rightarrow> JUndefined | Some x \<Rightarrow> x) = v"
  by (cases v) (simp_all add: str_of_def)

lemma org_json_ok: "org_ok (org_json g) \<and> parse_org (org_json g) = g"
  by (simp add: org_ok_def org_json_def parse_org_def js_field_def text_of_def)

lemma parse_me_json: "me_ok m \<Longrightarrow> parseMe (me_json m) = Some m"
proof (cases m)
  case (User u)
  assume "me_ok m"
  with User have caps: "list_all capability_ok (map JStr (user_capabilities u))"
    by (simp add: list_all_iff capability_ok_def)
  have orgs: "list_all org_ok (map org_json (user_orgs u))" "map (parse_org \<circ> org_json) (user_orgs u) = user_orgs u"
    using org_json_ok by (simp_all add: list_all_iff map_idI)
  have texts: "map (text_of \<circ> JStr) (user_capabilities u) = user_capabilities u"
    by (simp add: text_of_def map_idI)
  show ?thesis
    using User caps orgs texts
    by (cases u) (simp add: parseMe_def js_field_def optional_string_def map_add_def text_of_def str_of_field
        split: option.splits)
qed (simp_all add: parseMe_def js_field_def optional_string_def text_of_def split: option.splits)

lemma parse_me_ok: "parseMe row = Some m \<Longrightarrow> me_ok m"
  by (auto simp: parseMe_def Let_def list_all_iff capability_ok_def text_of_def
      split: if_splits option.splits)

text \<open>A session response is accepted only with capabilities the build knows, and a conforming
  response for any guest, contact or user is read back exactly; nothing but a user can do anything.\<close>

theorem parse_me_sound:
  assumes "parseMe row = Some m"
  shows "me_ok m \<and> parseMe (me_json m) = Some m \<and>
    (\<forall>c. can (Some m) c \<longrightarrow> c \<in> set CAPABILITIES \<and> (\<exists>u. m = User u))"
  using parse_me_ok [OF assms] parse_me_json [of m]
  by (cases m) (auto simp: can_def list_all_iff)

theorem parse_me_sound_witness:
  "parseMe (me_json (User \<lparr>user_id = ''u'', user_email = ''e'', user_name = None, user_active_org = Some ''o'',
     user_orgs = [], user_capabilities = [''sites:read''], user_impersonation = None\<rparr>)) \<noteq> None"
proof -
  let ?row = "JObj [(''tier'', JStr ''user''), (''userId'', JStr ''u''), (''email'', JStr ''e''),
    (''organizations'', JArr []), (''capabilities'', JArr [JStr ''sites:read'']), (''activeOrg'', JStr ''o'')]"
  let ?m = "User \<lparr>user_id = ''u'', user_email = ''e'', user_name = None, user_active_org = Some ''o'',
     user_orgs = [], user_capabilities = [''sites:read''], user_impersonation = None\<rparr>"
  have "parseMe ?row = Some ?m"
    by (simp add: parseMe_def js_field_def optional_string_def text_of_def capability_ok_def
        CAPABILITIES_def str_of_def)
  from parse_me_sound [OF this] show ?thesis by simp
qed

definition nav_allowed :: "user \<Rightarrow> nav_item \<Rightarrow> bool" where
  "nav_allowed u n = (case nav_capability n of None \<Rightarrow> True | Some c \<Rightarrow> c \<in> set (user_capabilities u))"

text \<open>The navigation shows a signed-in user exactly the entries their capabilities allow, in the
  declared order, without empty groups; the dashboard is always there.\<close>

theorem navigation_exact:
  "concat (map snd (visibleGroups u)) = filter (nav_allowed u) (concat (map snd NAV_GROUPS)) \<and>
   list_all (\<lambda>g. snd g \<noteq> []) (visibleGroups u) \<and>
   nav ''/'' ''Dashboard'' None \<in> set (concat (map snd (visibleGroups u)))"
proof -
  have drop: "concat (map snd (filter (\<lambda>(l, items). items \<noteq> []) gs)) = concat (map snd gs)"
    for gs :: "(string option \<times> nav_item list) list"
    by (induction gs) auto
  have "nav_allowed u = (\<lambda>n. case nav_capability n of None \<Rightarrow> True | Some c \<Rightarrow> can (Some (User u)) c)"
    by (rule ext) (simp add: nav_allowed_def can_def split: option.splits)
  then have "concat (map snd (visibleGroups u)) = filter (nav_allowed u) (concat (map snd NAV_GROUPS))"
    unfolding visibleGroups_def drop by (simp add: filter_concat o_def split_def)
  then show ?thesis
    by (simp add: visibleGroups_def NAV_GROUPS_def nav_allowed_def list_all_iff)
qed

definition title_ok :: "nav_item \<Rightarrow> bool" where
  "title_ok n \<longleftrightarrow> nav_to n = ''/'' \<or>
     (\<forall>rest. pageTitle (nav_to n) = nav_label n \<and> pageTitle (nav_to n @ ''/'' @ rest) = nav_label n)"

lemma titles_ok: "list_all (\<lambda>g. list_all title_ok (snd g)) NAV_GROUPS"
  by (simp add: NAV_GROUPS_def title_ok_def pageTitle_def isActive_def starts_with_simps)

text \<open>Every page under a navigation entry carries that entry's title, at any depth below it.\<close>

theorem page_title_of_entry:
  assumes "n \<in> set (concat (map snd NAV_GROUPS))" "nav_to n \<noteq> ''/''"
  shows "pageTitle (nav_to n) = nav_label n \<and> pageTitle (nav_to n @ ''/'' @ rest) = nav_label n"
  using titles_ok assms by (auto simp: list_all_iff title_ok_def)

theorem page_title_of_entry_witness: "pageTitle ''/sites/42/files'' = ''Sites''"
proof -
  have "nav ''/sites'' ''Sites'' (Some ''sites:read'') \<in> set (concat (map snd NAV_GROUPS))"
    by (simp add: NAV_GROUPS_def)
  from page_title_of_entry [OF this, of "''42/files''"] show ?thesis by simp
qed

end
