(* ===== verification/Session_Boundary.thy ===== *)
theory Session_Boundary
  imports Console_Session
begin

text \<open>
  A change of session (\<^verbatim>\<open>app/session-boundary.tsx\<close>): the guarded \<^verbatim>\<open>transition\<close>, which waits for the
  pending writes, sends the change, and in every outcome starts a fresh query client, a fresh view and
  a fresh transport generation; and the listeners that start one when another tab or the transport
  reports a different session.  A transition is a sequence of steps: its synchronous start, the moment
  its \<^verbatim>\<open>finishMutations\<close> resolves and \<^verbatim>\<open>change()\<close> is called, and its \<^verbatim>\<open>finally\<close> block; other steps
  interleave.  The query client is the library's: only its mutation list and whether it holds data
  matter here.
\<close>

section \<open>State\<close>

text \<open>A failed mutation carries the API error, or none when the cause is something else.\<close>

datatype mutation_state = MPending | MDone | MFailed "api_error option"

record query_client =
  qc_data :: "(string \<times> js_value) list"
  qc_mutations :: "(nat \<times> mutation_state) list"

text \<open>Where a running transition stands; both remember the pending writes and whether to announce.\<close>

datatype phase = Idle | Draining "nat list" bool | Changing "nat list" bool

record boundary =
  bd_phase :: phase
  bd_changing :: bool
  bd_pending :: bool
  bd_error :: "string option"
  bd_view :: nat
  bd_client :: query_client
  bd_observed :: "string option"
  bd_posted :: "string list"
  bd_storage :: "string list"
  bd_api :: client

section \<open>Operations\<close>

definition isMutating :: "query_client \<Rightarrow> bool" where
  "isMutating qc = list_ex (\<lambda>(i, st). st = MPending) (qc_mutations qc)"

definition pending_writes :: "query_client \<Rightarrow> nat list" where
  "pending_writes qc = map fst (filter (\<lambda>(i, st). st = MPending) (qc_mutations qc))"

definition clearPrivateCache :: "string list \<Rightarrow> string list" where
  "clearPrivateCache keys = filter (\<lambda>k. \<not> starts_with k ''premise.cache.hierarchy.'') keys"

definition transition_begin :: "bool \<Rightarrow> boundary \<Rightarrow> boundary" where
  "transition_begin announce b =
     (if bd_changing b then b
      else b\<lparr>bd_changing := True, bd_pending := True, bd_error := None,
             bd_phase := Draining (pending_writes (bd_client b)) announce\<rparr>)"

text \<open>\<^verbatim>\<open>finishMutations\<close> resolves only when nothing is mutating; then the change is sent.\<close>

definition transition_change :: "boundary \<Rightarrow> boundary" where
  "transition_change b =
     (case bd_phase b of
        Draining writes announce \<Rightarrow>
          if isMutating (bd_client b) then b else b\<lparr>bd_phase := Changing writes announce\<rparr>
      | _ \<Rightarrow> b)"

definition uncertain_message :: "nat list \<Rightarrow> query_client \<Rightarrow> string option" where
  "uncertain_message writes qc =
     (case List.find (\<lambda>st. case st of MFailed (Some e) \<Rightarrow> ae_outcome_unknown e | _ \<Rightarrow> False)
             (List.map_filter (map_of (qc_mutations qc)) writes) of
        Some (MFailed (Some e)) \<Rightarrow> Some (ae_message e)
      | _ \<Rightarrow> None)"

definition join_errors :: "string option \<Rightarrow> string option \<Rightarrow> string option" where
  "join_errors a b =
     (let text = join '' '' (filter (\<lambda>s. s \<noteq> []) (List.map_filter (\<lambda>x. x) [a, b]))
      in if text = [] then None else Some text)"

text \<open>The \<^verbatim>\<open>finally\<close> block, with the error the \<^verbatim>\<open>try\<close> ended with, if any.\<close>

definition transition_settle :: "string option \<Rightarrow> boundary \<Rightarrow> boundary" where
  "transition_settle failure b =
     (let settle = (\<lambda>writes announce.
        b\<lparr>bd_phase := Idle, bd_changing := False, bd_pending := False,
          bd_error := join_errors failure (uncertain_message writes (bd_client b)),
          bd_view := bd_view b + 1, bd_client := \<lparr>qc_data = [], qc_mutations = []\<rparr>,
          bd_storage := clearPrivateCache (bd_storage b),
          bd_api := resetSessionContext (bd_api b),
          bd_posted := (if announce then ''changed'' # bd_posted b else bd_posted b)\<rparr>)
      in case bd_phase b of
           Idle \<Rightarrow> b
         | Draining writes announce \<Rightarrow> settle writes announce
         | Changing writes announce \<Rightarrow> settle writes announce)"

definition on_message :: "string \<Rightarrow> boundary \<Rightarrow> boundary" where
  "on_message data b = (if Some data \<noteq> bd_observed b then transition_begin False b else b)"

definition on_observed :: "string \<Rightarrow> boundary \<Rightarrow> boundary" where
  "on_observed context b = b\<lparr>bd_observed := Some context, bd_posted := context # bd_posted b\<rparr>"

definition on_context_changed :: "boundary \<Rightarrow> boundary" where
  "on_context_changed b = transition_begin False b"

section \<open>Steps\<close>

definition start_mutation :: "nat \<Rightarrow> boundary \<Rightarrow> boundary" where
  "start_mutation i b = b\<lparr>bd_client := (bd_client b)\<lparr>qc_mutations := (i, MPending) # qc_mutations (bd_client b)\<rparr>\<rparr>"

definition finish_mutation :: "nat \<Rightarrow> mutation_state \<Rightarrow> boundary \<Rightarrow> boundary" where
  "finish_mutation i st b =
     b\<lparr>bd_client := (bd_client b)\<lparr>qc_mutations :=
         map (\<lambda>(j, old). if j = i then (j, st) else (j, old)) (qc_mutations (bd_client b))\<rparr>\<rparr>"

inductive boundary_step :: "boundary \<Rightarrow> boundary \<Rightarrow> bool" where
  ask: "boundary_step b (transition_begin True b)"
| message: "boundary_step b (on_message data b)"
| observed: "boundary_step b (on_observed context b)"
| changed: "boundary_step b (on_context_changed b)"
| mutate: "i \<notin> fst ` set (qc_mutations (bd_client b)) \<Longrightarrow> boundary_step b (start_mutation i b)"
| mutated: "st \<noteq> MPending \<Longrightarrow> boundary_step b (finish_mutation i st b)"
| cached: "boundary_step b (b\<lparr>bd_client := (bd_client b)\<lparr>qc_data := d\<rparr>\<rparr>)"
| transport: "request_complete env fl outcome (bd_api b) = (res, c) \<Longrightarrow> boundary_step b (b\<lparr>bd_api := c\<rparr>)"
| change: "boundary_step b (transition_change b)"
| settle: "boundary_step b (transition_settle failure b)"

definition boundary_start :: "string list \<Rightarrow> boundary" where
  "boundary_start storage =
     \<lparr>bd_phase = Idle, bd_changing = False, bd_pending = False, bd_error = None, bd_view = 0,
      bd_client = \<lparr>qc_data = [], qc_mutations = []\<rparr>, bd_observed = None, bd_posted = [],
      bd_storage = clearPrivateCache storage, bd_api = cw_client client_start\<rparr>"

inductive boundary_reachable :: "boundary \<Rightarrow> bool" where
  start: "boundary_reachable (boundary_start storage)"
| step: "boundary_reachable b \<Longrightarrow> boundary_step b b' \<Longrightarrow> boundary_reachable b'"

section \<open>Invariant\<close>

text \<open>The writes the transition waits for: each is a known mutation, and after the change was sent none is pending.\<close>

definition boundary_inv :: "boundary \<Rightarrow> bool" where
  "boundary_inv b \<longleftrightarrow>
     (bd_changing b \<longleftrightarrow> bd_phase b \<noteq> Idle) \<and> (bd_pending b \<longleftrightarrow> bd_phase b \<noteq> Idle) \<and>
     bd_view b = session_generation (bd_api b) \<and>
     (\<forall>writes a. bd_phase b = Draining writes a \<longrightarrow>
        set writes \<subseteq> fst ` set (qc_mutations (bd_client b))) \<and>
     (\<forall>writes a. bd_phase b = Changing writes a \<longrightarrow>
        set writes \<subseteq> fst ` set (qc_mutations (bd_client b)) \<and>
        (\<forall>i\<in>set writes. (i, MPending) \<notin> set (qc_mutations (bd_client b))))"

lemma inv_begin: "boundary_inv b \<Longrightarrow> boundary_inv (transition_begin a b)"
  by (auto simp: boundary_inv_def transition_begin_def pending_writes_def)

lemma inv_change: "boundary_inv b \<Longrightarrow> boundary_inv (transition_change b)"
  by (auto simp: boundary_inv_def transition_change_def isMutating_def list_ex_iff split: phase.splits)

lemma inv_settle: "boundary_inv b \<Longrightarrow> boundary_inv (transition_settle f b)"
  by (auto simp: boundary_inv_def transition_settle_def resetSessionContext_def Let_def split: phase.splits)

lemma inv_start_mutation:
  "boundary_inv b \<Longrightarrow> i \<notin> fst ` set (qc_mutations (bd_client b)) \<Longrightarrow> boundary_inv (start_mutation i b)"
  by (auto simp: boundary_inv_def start_mutation_def)

lemma finish_mutation_keys:
  "fst ` set (qc_mutations (bd_client (finish_mutation i st b))) = fst ` set (qc_mutations (bd_client b))"
  by (force simp: finish_mutation_def image_iff split: prod.splits)

lemma finish_mutation_pending:
  "st \<noteq> MPending \<Longrightarrow> (j, MPending) \<in> set (qc_mutations (bd_client (finish_mutation i st b))) \<Longrightarrow>
     (j, MPending) \<in> set (qc_mutations (bd_client b))"
  by (auto simp: finish_mutation_def split: if_splits)

lemma inv_finish_mutation:
  assumes "boundary_inv b" "st \<noteq> MPending"
  shows "boundary_inv (finish_mutation i st b)"
proof -
  have same: "bd_phase (finish_mutation i st b) = bd_phase b" "bd_changing (finish_mutation i st b) = bd_changing b"
      "bd_pending (finish_mutation i st b) = bd_pending b" "bd_view (finish_mutation i st b) = bd_view b"
      "bd_api (finish_mutation i st b) = bd_api b"
    by (simp_all add: finish_mutation_def)
  show ?thesis
    using assms(1) finish_mutation_pending [OF assms(2), of _ i b]
    unfolding boundary_inv_def same finish_mutation_keys by blast
qed

lemma inv_step: "boundary_step b b' \<Longrightarrow> boundary_inv b \<Longrightarrow> boundary_inv b'"
proof (induction rule: boundary_step.induct)
  case (transport env fl outcome b res c)
  with complete_context(1) [OF transport.hyps] show ?case by (simp add: boundary_inv_def)
qed (simp_all add: inv_begin inv_change inv_settle inv_start_mutation inv_finish_mutation
    on_message_def on_context_changed_def, simp_all add: boundary_inv_def on_observed_def)

lemma boundary_reachable_inv: "boundary_reachable b \<Longrightarrow> boundary_inv b"
proof (induction rule: boundary_reachable.induct)
  case (start storage)
  show ?case by (simp add: boundary_inv_def boundary_start_def client_start_def)
next
  case (step b b')
  from step.hyps(2) step.IH show ?case by (rule inv_step)
qed

section \<open>Properties\<close>

text \<open>C2: In every interleaving of queries, writes, messages from other tabs and session changes, the
  view's generation is the transport's (so the component tree is replaced exactly when old responses
  become refusable), one transition runs at a time, and a session change is sent only after every
  write that was pending when it was asked for has finished.\<close>

theorem session_boundary_invariant:
  assumes "boundary_reachable b"
  shows "bd_view b = session_generation (bd_api b) \<and>
    (bd_changing b \<longrightarrow> transition_begin a b = b) \<and> (bd_changing b \<longleftrightarrow> bd_phase b \<noteq> Idle) \<and>
    (\<forall>writes ann. bd_phase b = Changing writes ann \<longrightarrow>
       (\<forall>i\<in>set writes. (i, MPending) \<notin> set (qc_mutations (bd_client b))))"
  using boundary_reachable_inv [OF assms] by (auto simp: boundary_inv_def transition_begin_def)

definition sample_boundary :: boundary where
  "sample_boundary = transition_change (finish_mutation 7 MDone (transition_begin True
     (start_mutation 7 (boundary_start []))))"

lemma sample_boundary_reachable: "boundary_reachable sample_boundary"
  unfolding sample_boundary_def
  by (intro boundary_reachable.step [OF _ boundary_step.change]
      boundary_reachable.step [OF _ boundary_step.mutated] boundary_reachable.step [OF _ boundary_step.ask]
      boundary_reachable.step [OF _ boundary_step.mutate] boundary_reachable.start)
    (simp_all add: boundary_start_def)

theorem session_boundary_invariant_witness:
  "bd_phase sample_boundary = Changing [7] True \<and> (7, MPending) \<notin> set (qc_mutations (bd_client sample_boundary))"
proof -
  have "bd_phase sample_boundary = Changing [7] True" by code_simp
  moreover from this have "\<forall>i\<in>set [7]. (i, MPending) \<notin> set (qc_mutations (bd_client sample_boundary))"
    using session_boundary_invariant [OF sample_boundary_reachable] by blast
  ultimately show ?thesis by simp
qed



end
