(* ===== verification/Console_Lib.thy ===== *)
theory Console_Lib
  imports Console_Session
begin

text \<open>
  The console's small libraries: the mutation contract (\<^verbatim>\<open>lib/mutation.ts\<close>), the upload flow
  (\<^verbatim>\<open>lib/uploads.ts\<close>), browser preferences and the tab cache (\<^verbatim>\<open>lib/preference.ts\<close>,
  \<^verbatim>\<open>app/persisted.ts\<close>), the weekly schedule rule (\<^verbatim>\<open>lib/schedule.ts\<close>), labels (\<^verbatim>\<open>lib/format.ts\<close>),
  the theme switch (\<^verbatim>\<open>app/theme.ts\<close>) and the security headers of both applications.  Storage may
  refuse every operation; \<^verbatim>\<open>JSON\<close> is a pair of parameters.
\<close>

section \<open>Mutations\<close>

text \<open>The message a toast shows; \<open>None\<close> stands for an error that is not an \<^verbatim>\<open>ApiError\<close>.\<close>

definition apiError :: "api_error option \<Rightarrow> string \<Rightarrow> string" where
  "apiError error fallback =
     (case error of
        None \<Rightarrow> fallback
      | Some e \<Rightarrow>
          (let message = (if starts_with (ae_message e) ''API '' then fallback else ae_message e)
           in case Option.bind (apiProblem (ae_body e)) pb_trace of
                Some (c # cs) \<Rightarrow> message @ '' (trace '' @ (c # cs) @ '')''
              | _ \<Rightarrow> message))"

definition mutation_retry :: "nat \<Rightarrow> api_error option \<Rightarrow> bool" where
  "mutation_retry failureCount error \<longleftrightarrow>
     failureCount < 1 \<and> (case error of None \<Rightarrow> False | Some e \<Rightarrow> isTransient e)"

text \<open>Milliseconds before the repeat.\<close>

definition mutation_delay :: "api_error option \<Rightarrow> js_num" where
  "mutation_delay error =
     (case Option.bind error ae_retry_after of
        Some (Fin s) \<Rightarrow> Fin (s * 1000) | Some n \<Rightarrow> n | None \<Rightarrow> Fin 1000)"

record mutation_options =
  mo_invalidate :: "string list list"
  mo_success :: "string option"
  mo_fallback :: "string option"

datatype toast = ToastError string | ToastSuccess string

text \<open>
  A mutation from its first attempt to its end.  \<open>attempt k\<close> is what the k-th call answers; the query
  library calls again while \<^verbatim>\<open>retry\<close> says so.  The result is how many attempts ran, the outcome, the
  keys invalidated and the toasts.
\<close>

function mutation_attempts ::
  "(nat \<Rightarrow> api_error option + 'd) \<Rightarrow> nat \<Rightarrow> nat \<times> (api_error option + 'd)" where
  "mutation_attempts attempt k =
     (case attempt k of
        Inr d \<Rightarrow> (k + 1, Inr d)
      | Inl e \<Rightarrow> if mutation_retry k e then mutation_attempts attempt (k + 1) else (k + 1, Inl e))"
  by pat_completeness auto
termination
  by (relation "measure (\<lambda>(attempt, k). 2 - k)") (auto simp: mutation_retry_def)

declare mutation_attempts.simps [simp del]

definition useApiMutation ::
  "mutation_options \<Rightarrow> (nat \<Rightarrow> api_error option + 'd) \<Rightarrow>
   nat \<times> (api_error option + 'd) \<times> string list list \<times> toast list" where
  "useApiMutation opts attempt =
     (let (n, out) = mutation_attempts attempt 0
      in case out of
           Inr d \<Rightarrow> (n, out, mo_invalidate opts,
             (case mo_success opts of Some (c # cs) \<Rightarrow> [ToastSuccess (c # cs)] | _ \<Rightarrow> []))
         | Inl e \<Rightarrow> (n, out, [],
             [ToastError (apiError e (case mo_fallback opts of None \<Rightarrow> ''Request failed'' | Some f \<Rightarrow> f))]))"

text \<open>A write goes out at most twice, and a second time only when the server refused the first with
  a 503 that names a delay.  A failure toasts exactly one error and invalidates nothing; a success is
  the last attempt's answer and invalidates the declared keys.\<close>

theorem mutation_at_most_twice:
  assumes "useApiMutation opts attempt = (n, out, keys, toasts)"
  shows "n \<le> 2 \<and> 0 < n \<and>
    (n = 2 \<longrightarrow> (\<exists>e. attempt 0 = Inl (Some e) \<and> ae_status e = 503 \<and> ae_retry_after e \<noteq> None)) \<and>
    (\<forall>e. out = Inl e \<longrightarrow> keys = [] \<and> length toasts = 1) \<and>
    (\<forall>d. out = Inr d \<longrightarrow> keys = mo_invalidate opts \<and> attempt (n - 1) = Inr d)"
proof -
  obtain out' where m: "mutation_attempts attempt 0 = (n, out')" and o: "out = out'"
    using assms by (auto simp: useApiMutation_def Let_def split: prod.splits sum.splits)
  have last: "mutation_attempts attempt 1 = (2, attempt 1)"
    by (subst mutation_attempts.simps) (auto simp: mutation_retry_def split: sum.splits)
  have "n \<le> 2 \<and> 0 < n \<and> attempt (n - 1) = out' \<and>
      (n = 2 \<longrightarrow> (\<exists>e. attempt 0 = Inl (Some e) \<and> ae_status e = 503 \<and> ae_retry_after e \<noteq> None))"
    using m last unfolding mutation_attempts.simps [of attempt 0]
    by (auto simp: mutation_retry_def isTransient_def split: sum.splits if_splits option.splits)
  then show ?thesis
    using assms m o by (auto simp: useApiMutation_def split: sum.splits)
qed

definition busy_error :: api_error where
  "busy_error = \<lparr>ae_status = 503, ae_body = JUndefined, ae_message = ''busy'', ae_outcome_unknown = False,
     ae_retry_after = Some (Fin 2)\<rparr>"

theorem mutation_at_most_twice_witness:
  "\<exists>e. (if (0 :: nat) = 0 then Inl (Some busy_error) else Inr ()) = Inl (Some e) \<and> ae_status e = 503"
proof -
  let ?opts = "\<lparr>mo_invalidate = [[''reports'']], mo_success = None, mo_fallback = None\<rparr>"
  let ?attempt = "\<lambda>k :: nat. if k = 0 then Inl (Some busy_error) else Inr ()"
  have "useApiMutation ?opts ?attempt = (2, Inr (), [[''reports'']], [])"
    by (simp add: useApiMutation_def mutation_attempts.simps mutation_retry_def isTransient_def busy_error_def)
  from mutation_at_most_twice [OF this] show ?thesis by blast
qed

section \<open>Uploads\<close>

datatype upload_phase = PhaseTicket | PhaseUploading | PhaseScanning

datatype upload_error =
    UploadApi api_error
  | UploadInterrupted
  | UploadRefused nat
  | UploadQuarantined
  | UploadScanTimeout

text \<open>
  What the environment answers: the ticket call, the direct PUT (\<open>None\<close>: it throws), the completion
  call, and the scan status at each poll.
\<close>

record upload_env =
  up_create :: "api_error + string"
  up_put :: "nat option"
  up_complete :: "api_error option"
  up_poll :: "nat \<Rightarrow> api_error + string"

text \<open>The polling loop from attempt \<open>k\<close> with \<open>n\<close> attempts left.\<close>

fun poll_scan :: "upload_env \<Rightarrow> string \<Rightarrow> nat \<Rightarrow> nat \<Rightarrow> upload_error + string" where
  "poll_scan env fileId 0 k = Inl UploadScanTimeout"
| "poll_scan env fileId (Suc n) k =
     (case up_poll env k of
        Inl e \<Rightarrow> Inl (UploadApi e)
      | Inr status \<Rightarrow>
          if status = ''Clean'' then Inr fileId
          else if status = ''Quarantined'' then Inl UploadQuarantined
          else poll_scan env fileId n (Suc k))"

definition uploadFile :: "upload_env \<Rightarrow> upload_phase list \<times> (upload_error + string)" where
  "uploadFile env =
     (case up_create env of
        Inl e \<Rightarrow> ([PhaseTicket], Inl (UploadApi e))
      | Inr fileId \<Rightarrow>
          (case up_put env of
             None \<Rightarrow> ([PhaseTicket, PhaseUploading], Inl UploadInterrupted)
           | Some status \<Rightarrow>
               if \<not> (200 \<le> status \<and> status \<le> 299)
               then ([PhaseTicket, PhaseUploading], Inl (UploadRefused status))
               else (case up_complete env of
                       Some e \<Rightarrow> ([PhaseTicket, PhaseUploading], Inl (UploadApi e))
                     | None \<Rightarrow> ([PhaseTicket, PhaseUploading, PhaseScanning], poll_scan env fileId 60 0))))"

lemma poll_scan_Inr:
  "poll_scan env fileId n k = Inr f \<Longrightarrow> f = fileId \<and>
     (\<exists>j<n. up_poll env (k + j) = Inr ''Clean'' \<and>
        (\<forall>i<j. \<exists>st. up_poll env (k + i) = Inr st \<and> st \<noteq> ''Clean'' \<and> st \<noteq> ''Quarantined''))"
proof (induction n arbitrary: k)
  case (Suc n)
  show ?case
  proof (cases "up_poll env k = Inr ''Clean''")
    case True
    with Suc.prems show ?thesis by (auto intro!: exI [of _ 0])
  next
    case False
    then obtain st where st: "up_poll env k = Inr st" "st \<noteq> ''Clean''" "st \<noteq> ''Quarantined''"
        "poll_scan env fileId n (Suc k) = Inr f"
      using Suc.prems by (auto split: sum.splits if_splits)
    from Suc.IH [OF st(4)] obtain j where j: "f = fileId" "j < n" "up_poll env (Suc k + j) = Inr ''Clean''"
        "\<forall>i<j. \<exists>st. up_poll env (Suc k + i) = Inr st \<and> st \<noteq> ''Clean'' \<and> st \<noteq> ''Quarantined''" by blast
    have "\<exists>st. up_poll env (k + i) = Inr st \<and> st \<noteq> ''Clean'' \<and> st \<noteq> ''Quarantined''" if "i < Suc j" for i
      using that j(4) st by (cases i) auto
    with j show ?thesis by (auto intro!: exI [of _ "Suc j"])
  qed
qed simp

text \<open>The upload hands out a file id only after storage accepted the bytes, the API confirmed the
  completion and the scanner called the file clean within sixty polls, with no error and no quarantine
  reported before that poll.\<close>

theorem upload_only_clean:
  assumes "uploadFile env = (phases, Inr f)"
  shows "up_create env = Inr f \<and> up_complete env = None \<and>
    (\<exists>st. up_put env = Some st \<and> 200 \<le> st \<and> st \<le> 299) \<and>
    (\<exists>j<60. up_poll env j = Inr ''Clean'' \<and>
       (\<forall>i<j. \<exists>s. up_poll env i = Inr s \<and> s \<noteq> ''Clean'' \<and> s \<noteq> ''Quarantined'')) \<and>
    phases = [PhaseTicket, PhaseUploading, PhaseScanning]"
  using assms poll_scan_Inr [of env _ 60 0 f]
  by (auto simp: uploadFile_def split: sum.splits option.splits if_splits)

theorem upload_only_clean_witness:
  "\<exists>j<60. (if (j :: nat) < 3 then Inr ''Pending'' else Inr ''Clean'') = (Inr ''Clean'' :: api_error + string)"
proof -
  let ?env = "\<lparr>up_create = Inr ''f1'', up_put = Some 200, up_complete = None,
    up_poll = (\<lambda>k. if k < 3 then Inr ''Pending'' else Inr ''Clean'')\<rparr>"
  have "uploadFile ?env = ([PhaseTicket, PhaseUploading, PhaseScanning], Inr ''f1'')" by code_simp
  from upload_only_clean [OF this] show ?thesis by auto
qed

section \<open>Preferences and the tab cache\<close>

text \<open>Storage: a map of texts, or \<open>None\<close> when the browser refuses it (every call throws).\<close>

type_synonym storage = "(string \<rightharpoonup> string) option"

definition readPreference :: "(string \<Rightarrow> js_value option) \<Rightarrow> storage \<Rightarrow> string \<Rightarrow> js_value \<Rightarrow> js_value" where
  "readPreference parse st key fallback =
     (case st of
        None \<Rightarrow> fallback
      | Some m \<Rightarrow>
          (case m (''premise.'' @ key) of
             None \<Rightarrow> fallback
           | Some raw \<Rightarrow> (case parse raw of None \<Rightarrow> fallback | Some v \<Rightarrow> v)))"

definition writePreference :: "(js_value \<Rightarrow> string) \<Rightarrow> string \<Rightarrow> js_value \<Rightarrow> storage \<Rightarrow> storage" where
  "writePreference stringify key value st =
     (case st of
        None \<Rightarrow> None
      | Some m \<Rightarrow>
          Some (if is_nullish value then m(''premise.'' @ key := None)
                else m(''premise.'' @ key \<mapsto> stringify value)))"

definition MAX_BYTES :: nat where
  "MAX_BYTES = 256 * 1024"

definition persisted_key :: "string \<Rightarrow> string" where
  "persisted_key key = ''premise.cache.'' @ key"

definition persisted_read :: "(string \<Rightarrow> js_value option) \<Rightarrow> storage \<Rightarrow> string \<Rightarrow> js_value option" where
  "persisted_read parse st key =
     (case st of
        None \<Rightarrow> None
      | Some m \<Rightarrow>
          (case m (persisted_key key) of
             Some (c # cs) \<Rightarrow>
               (case parse (c # cs) of
                  Some v \<Rightarrow> (case js_prop v ''at'' of JNum n \<Rightarrow> Some v | _ \<Rightarrow> None)
                | None \<Rightarrow> None)
           | _ \<Rightarrow> None))"

definition persisted_write ::
  "(js_value \<Rightarrow> string) \<Rightarrow> js_num \<Rightarrow> string \<Rightarrow> js_value \<Rightarrow> storage \<Rightarrow> storage" where
  "persisted_write stringify now key data st =
     (let json = stringify (JObj [(''data'', data), (''at'', JNum now)])
      in case st of
           None \<Rightarrow> None
         | Some m \<Rightarrow> Some (if length json > MAX_BYTES then m(persisted_key key := None)
                           else m(persisted_key key \<mapsto> json)))"

text \<open>A preference reads back what was written, whatever else is stored, where JSON reads back what
  it wrote; null resets it to the fallback, other keys are untouched, and a browser that refuses
  storage answers the fallback.\<close>

theorem preference_roundtrip:
  assumes "parse (stringify v) = Some v"
  shows "readPreference parse (writePreference stringify key v (Some m)) key fb =
      (if is_nullish v then fb else v) \<and>
    (key' \<noteq> key \<longrightarrow> readPreference parse (writePreference stringify key v (Some m)) key' fb =
       readPreference parse (Some m) key' fb) \<and>
    readPreference parse (writePreference stringify key v None) key fb = fb"
  using assms by (simp add: readPreference_def writePreference_def)

theorem preference_roundtrip_witness:
  "readPreference (\<lambda>s. Some (JStr s)) (writePreference text_of ''scope.o1'' (JStr ''node7'') (Some (\<lambda>k. None)))
     ''scope.o1'' JNull = JStr ''node7''"
proof -
  have "(\<lambda>s. Some (JStr s)) (text_of (JStr ''node7'')) = Some (JStr ''node7'')" by (simp add: text_of_def)
  from preference_roundtrip [of "\<lambda>s. Some (JStr s)" text_of, OF this, of "''scope.o1''" "\<lambda>k. None" JNull]
  show ?thesis by (simp add: is_nullish_def)
qed

section \<open>Weekly schedules\<close>

datatype day_code = MO | TU | WE | TH | FR | SA | SU

fun day_text :: "day_code \<Rightarrow> string" where
  "day_text MO = ''MO''" | "day_text TU = ''TU''" | "day_text WE = ''WE''" | "day_text TH = ''TH''"
| "day_text FR = ''FR''" | "day_text SA = ''SA''" | "day_text SU = ''SU''"

definition DAY_ORDER :: "day_code list" where
  "DAY_ORDER = [MO, TU, WE, TH, FR, SA, SU]"

fun index_of :: "'a list \<Rightarrow> 'a \<Rightarrow> nat" where
  "index_of [] x = 0"
| "index_of (y # ys) x = (if y = x then 0 else Suc (index_of ys x))"

instantiation day_code :: linorder
begin

definition less_eq_day_code :: "day_code \<Rightarrow> day_code \<Rightarrow> bool" where
  "less_eq_day_code a b \<longleftrightarrow> index_of DAY_ORDER a \<le> index_of DAY_ORDER b"

definition less_day_code :: "day_code \<Rightarrow> day_code \<Rightarrow> bool" where
  "less_day_code a b \<longleftrightarrow> index_of DAY_ORDER a < index_of DAY_ORDER b"

instance
proof
  fix a b :: day_code
  show "a \<le> b \<Longrightarrow> b \<le> a \<Longrightarrow> a = b"
    by (cases a; cases b; simp add: less_eq_day_code_def DAY_ORDER_def)
qed (auto simp: less_eq_day_code_def less_day_code_def)

end

record weekly_schedule =
  ws_rule :: string
  ws_anchor :: string

text \<open>
  The days sorted by the week; the anchor is the UTC date of the instant a week before \<open>now\<close>
  (\<open>isoDate\<close> renders the date of a millisecond instant).
\<close>

definition weeklySchedule :: "(int \<Rightarrow> string) \<Rightarrow> day_code list \<Rightarrow> int \<Rightarrow> weekly_schedule" where
  "weeklySchedule isoDate days now =
     \<lparr>ws_rule = ''FREQ=WEEKLY;BYDAY='' @ join '','' (map day_text (sort_key (index_of DAY_ORDER) days)),
      ws_anchor = isoDate (now - 7 * 86400000)\<rparr>"

lemma sort_days: "sort_key (index_of DAY_ORDER) days = sort days"
proof -
  have eq: "sorted (map (index_of DAY_ORDER) ds) = sorted ds" for ds :: "day_code list"
    by (induction ds) (auto simp: less_eq_day_code_def)
  have "sorted (sort_key (index_of DAY_ORDER) days)"
    using sorted_sort_key [of "index_of DAY_ORDER" days] by (simp only: eq)
  then show ?thesis by (metis mset_sort properties_for_sort)
qed

lemma day_text_inject: "day_text a = day_text b \<longleftrightarrow> a = b"
  by (cases a; cases b; simp)

lemma day_text_no_comma: "CHR '','' \<notin> set (day_text d)"
  by (cases d) simp_all

text \<open>The recurrence rule of weekly hours depends only on which days are chosen, not on the order
  they were ticked in, and determines them: two different choices give two different rules.\<close>

theorem weekly_rule_canonical:
  assumes "days \<noteq> []" "days' \<noteq> []"
  shows "ws_rule (weeklySchedule isoDate days now) = ws_rule (weeklySchedule isoDate days' now') \<longleftrightarrow>
    mset days = mset days'"
proof -
  have "map day_text (sort days) \<noteq> []" "map day_text (sort days') \<noteq> []"
    using assms by (metis Nil_is_map_conv set_empty set_sort)+
  then have "join '','' (map day_text (sort days)) = join '','' (map day_text (sort days')) \<longleftrightarrow>
      map day_text (sort days) = map day_text (sort days')"
    using join_inject [of "map day_text (sort days)" "map day_text (sort days')" "CHR '',''"]
      day_text_no_comma by auto
  also have "\<dots> \<longleftrightarrow> sort days = sort days'"
    by (simp add: inj_map_eq_map inj_def day_text_inject)
  also have "\<dots> \<longleftrightarrow> mset days = mset days'"
    by (metis mset_sort properties_for_sort sorted_sort)
  finally show ?thesis by (simp add: weeklySchedule_def sort_days)
qed

theorem weekly_rule_canonical_witness:
  "ws_rule (weeklySchedule (\<lambda>n. []) [FR, MO] 0) = ws_rule (weeklySchedule (\<lambda>n. []) [MO, FR] 1)"
  using weekly_rule_canonical [of "[FR, MO]" "[MO, FR]" "\<lambda>n. []" 0 1] by simp

section \<open>Labels and headers\<close>

definition ENTITLEMENT_LABELS :: "(string \<times> string) list" where
  "ENTITLEMENT_LABELS =
    [(''audit.read_logging'', ''Read-access logging''), (''audit.retention_days'', ''Audit retention (days)''),
     (''contact_links.enabled'', ''Contact links''), (''contact_links.monthly'', ''Contact links / month''),
     (''hierarchy.depth'', ''Hierarchy depth''), (''reports.enabled'', ''Report generation''),
     (''reports.monthly'', ''PDF reports / UTC month''), (''sites.max'', ''Site limit''),
     (''sso.enabled'', ''Single sign-on'')]"

definition entitlementLabel :: "string \<Rightarrow> string" where
  "entitlementLabel code = (case map_of ENTITLEMENT_LABELS code of None \<Rightarrow> code | Some l \<Rightarrow> l)"

text \<open>A source keyword of a content security policy stands in single quotes.\<close>

definition kw :: "string \<Rightarrow> string" where
  "kw s = [CHR 0x27] @ s @ [CHR 0x27]"

definition console_csp :: "bool \<Rightarrow> string list" where
  "console_csp development =
    [''default-src '' @ kw ''self'',
     ''script-src '' @ kw ''self'' @ (if development then '' '' @ kw ''unsafe-inline'' else []),
     ''style-src '' @ kw ''self'' @ '' '' @ kw ''unsafe-inline'',
     ''img-src '' @ kw ''self'' @ '' https: data: blob:'',
     ''connect-src '' @ kw ''self'' @ '' https:'' @ (if development then '' ws: wss:'' else []),
     ''worker-src '' @ kw ''self'' @ '' blob:'', ''object-src '' @ kw ''none'', ''base-uri '' @ kw ''none'',
     ''form-action '' @ kw ''self'', ''frame-ancestors '' @ kw ''none'']"

definition consoleSecurityHeaders :: "bool \<Rightarrow> (string \<times> string) list" where
  "consoleSecurityHeaders development =
    [(''Content-Security-Policy'', join ''; '' (console_csp development)),
     (''X-Content-Type-Options'', ''nosniff''), (''X-Frame-Options'', ''DENY''),
     (''Referrer-Policy'', ''no-referrer''),
     (''Permissions-Policy'', ''camera=(), microphone=(), geolocation=(self)'')]"

text \<open>The public site's headers; only the embed page may be framed.\<close>

definition public_csp :: "string \<Rightarrow> string \<Rightarrow> bool \<Rightarrow> string list" where
  "public_csp pathname nonce development =
    [''default-src '' @ kw ''self'',
     ''script-src '' @ kw ''self'' @ '' '' @ kw (''nonce-'' @ nonce),
     ''style-src '' @ kw ''self'' @ '' '' @ kw ''unsafe-inline'',
     ''img-src '' @ kw ''self'' @ '' https: data: blob:'',
     ''connect-src '' @ kw ''self'' @ (if development then '' ws: wss:'' else []),
     ''object-src '' @ kw ''none'', ''base-uri '' @ kw ''none'', ''form-action '' @ kw ''self'',
     ''frame-ancestors '' @ (if pathname = ''/embed'' then ''https: http:'' else kw ''none'')]"

definition publicSecurityHeaders :: "string \<Rightarrow> string \<Rightarrow> bool \<Rightarrow> (string \<times> string) list" where
  "publicSecurityHeaders pathname nonce development =
    [(''Content-Security-Policy'', join ''; '' (public_csp pathname nonce development)),
     (''X-Content-Type-Options'', ''nosniff''), (''Referrer-Policy'', ''no-referrer''),
     (''Permissions-Policy'', ''camera=(), microphone=(), geolocation=(self)''),
     (''Cache-Control'', ''no-store'')]"

section \<open>Theme\<close>

datatype theme = Dark | Light

fun theme_text :: "theme \<Rightarrow> string" where
  "theme_text Dark = ''dark''"
| "theme_text Light = ''light''"

text \<open>The document's class and the stored choice.\<close>

record theme_state =
  th_dark :: bool
  th_store :: storage

definition currentTheme :: "theme_state \<Rightarrow> theme" where
  "currentTheme s = (if th_dark s then Dark else Light)"

definition applyStoredTheme :: "theme_state \<Rightarrow> theme_state" where
  "applyStoredTheme s =
     (case Option.bind (th_store s) (\<lambda>m. m ''premise.theme'') of
        Some t \<Rightarrow> s\<lparr>th_dark := (if t = ''light'' then False else if t = ''dark'' then True else th_dark s)\<rparr>
      | None \<Rightarrow> s)"

definition toggleTheme :: "theme_state \<Rightarrow> theme \<times> theme_state" where
  "toggleTheme s =
     (let t = (if currentTheme s = Dark then Light else Dark)
      in (t, s\<lparr>th_dark := (t = Dark),
               th_store := map_option (\<lambda>m. m(''premise.theme'' \<mapsto> theme_text t)) (th_store s)\<rparr>))"

lemma theme_after_toggle:
  "th_store s = Some m \<Longrightarrow> currentTheme (applyStoredTheme ((snd (toggleTheme s))\<lparr>th_dark := d\<rparr>)) = fst (toggleTheme s)"
  by (simp add: toggleTheme_def applyStoredTheme_def currentTheme_def)

end
