(* ===== verification/Public_Api.thy ===== *)
theory Public_Api
  imports Web_Url
begin

text \<open>
  The public site's server side (\<^verbatim>\<open>apps/public/src/api.ts\<close>, \<^verbatim>\<open>upstream.ts\<close>, \<^verbatim>\<open>security-headers.ts\<close>
  and the sitemap route): the relay of session cookies, the redemption of contact links, the degrading
  reads, the bounded walk over all sites and the sitemap built from it.  The upstream API is an
  argument: what each call answers.
\<close>

section \<open>Cookie relay\<close>

definition lower_char :: "char \<Rightarrow> char" where
  "lower_char c = (let n = of_char c :: nat in if 65 \<le> n \<and> n \<le> 90 then char_of (n + 32) else c)"

text \<open>\<^verbatim>\<open>/^premise_session(?:C\d+)?=/\<close>\<close>

definition is_session_cookie :: "string \<Rightarrow> bool" where
  "is_session_cookie raw \<longleftrightarrow>
     starts_with raw ''premise_session'' \<and>
     (let rest = drop (length ''premise_session'') raw in
      starts_with rest ''='' \<or>
      starts_with rest ''C'' \<and> takeWhile is_digit (tl rest) \<noteq> [] \<and>
        starts_with (dropWhile is_digit (tl rest)) ''='')"

text \<open>
  \<^verbatim>\<open>/;\s*Domain=[^;]*/gi\<close> from just after the semicolon: \<open>Some rest\<close> is what follows the match.
\<close>

definition match_domain :: "string \<Rightarrow> string option" where
  "match_domain r =
     (let w = dropWhile is_ws r in
      if map lower_char (take 7 w) = ''domain='' then Some (dropWhile (\<lambda>c. c \<noteq> CHR '';'') (drop 7 w)) else None)"

lemma match_domain_length: "match_domain r = Some rest \<Longrightarrow> length rest \<le> length r"
  using length_dropWhile_le [of is_ws r]
    length_dropWhile_le [of "\<lambda>c. c \<noteq> CHR '';''" "drop 7 (dropWhile is_ws r)"]
  by (auto simp: match_domain_def Let_def split: if_splits)

function strip_domain :: "string \<Rightarrow> string" where
  "strip_domain [] = []"
| "strip_domain (c # rest) =
     (if c = CHR '';'' then
        (case match_domain rest of Some r \<Rightarrow> strip_domain r | None \<Rightarrow> c # strip_domain rest)
      else c # strip_domain rest)"
  by pat_completeness auto
termination
  by (relation "measure length") (auto dest: match_domain_length simp: less_Suc_eq_le)

text \<open>\<^verbatim>\<open>/;\s*Secure(?:;|$)/i.test(raw)\<close>\<close>

fun has_secure :: "string \<Rightarrow> bool" where
  "has_secure [] = False"
| "has_secure (c # rest) =
     ((c = CHR '';'' \<and>
       (let w = dropWhile is_ws rest in
        map lower_char (take 6 w) = ''secure'' \<and> (drop 6 w = [] \<or> hd (drop 6 w) = CHR '';''))) \<or>
      has_secure rest)"

definition relay_cookie :: "bool \<Rightarrow> string \<Rightarrow> string" where
  "relay_cookie production raw =
     (let hostOnly = strip_domain raw
      in if production \<and> \<not> has_secure hostOnly then hostOnly @ ''; Secure'' else hostOnly)"

text \<open>\<open>None\<close> is the thrown "Session cookie missing".\<close>

definition relaySessionCookies :: "bool \<Rightarrow> string list \<Rightarrow> string list option" where
  "relaySessionCookies production setCookies =
     (let cookies = filter is_session_cookie setCookies
      in if list_ex (\<lambda>raw. starts_with raw ''premise_session='') cookies
         then Some (map (relay_cookie production) cookies) else None)"

section \<open>Upstream reads\<close>

text \<open>A call's outcome: it throws (no connection, aborted, over the size limit), or answers with a status,
  its Set-Cookie headers and the parsed body (\<open>None\<close>: not JSON).\<close>

datatype 'a upstream = UpThrows | UpResponse nat "string list" "'a option"

text \<open>
  The visitor's request as far as the relay forwards it, and the request that goes upstream; headers
  that are absent or empty are left out.
\<close>

record visitor =
  v_host :: "string option"
  v_cookie :: "string option"

record up_request =
  up_method :: string
  up_path :: string
  up_headers :: "(string \<times> string) list"

definition given :: "string option \<Rightarrow> string option" where
  "given s = (if s = Some [] then None else s)"

definition host_header :: "visitor \<Rightarrow> (string \<times> string) list" where
  "host_header v = (case given (v_host v) of None \<Rightarrow> [] | Some h \<Rightarrow> [(''Host'', h)])"

definition cookie_header :: "visitor \<Rightarrow> (string \<times> string) list" where
  "cookie_header v = (case given (v_cookie v) of None \<Rightarrow> [] | Some c \<Rightarrow> [(''cookie'', c)])"

definition publicApiMaybe :: "(up_request \<Rightarrow> 'a upstream) \<Rightarrow> visitor \<Rightarrow> string \<Rightarrow> 'a option" where
  "publicApiMaybe call v path =
     (case call \<lparr>up_method = ''GET'', up_path = path, up_headers = host_header v @ cookie_header v\<rparr> of
        UpThrows \<Rightarrow> None
      | UpResponse status cookies body \<Rightarrow> if 200 \<le> status \<and> status \<le> 299 then body else None)"

definition publicApi :: "(up_request \<Rightarrow> 'a upstream) \<Rightarrow> visitor \<Rightarrow> string \<Rightarrow> 'a \<Rightarrow> 'a" where
  "publicApi call v path fallback = (case publicApiMaybe call v path of None \<Rightarrow> fallback | Some x \<Rightarrow> x)"

datatype relay_result = RelayOk "string list" | RelayInvalid | RelayUnavailable

definition publicSignOut :: "bool \<Rightarrow> (up_request \<Rightarrow> 'a upstream) \<Rightarrow> visitor \<Rightarrow> relay_result" where
  "publicSignOut production call v =
     (case call \<lparr>up_method = ''POST'', up_path = ''/auth/logout'', up_headers = host_header v @ cookie_header v\<rparr> of
        UpThrows \<Rightarrow> RelayUnavailable
      | UpResponse status cookies body \<Rightarrow>
          if status \<noteq> 204 then RelayUnavailable
          else (case relaySessionCookies production cookies of
                  None \<Rightarrow> RelayUnavailable | Some out \<Rightarrow> RelayOk out))"

definition redeem_token_ok :: "js_value \<Rightarrow> bool" where
  "redeem_token_ok token =
     (case str_of token of None \<Rightarrow> False | Some s \<Rightarrow> s \<noteq> [] \<and> length s \<le> 8192)"

text \<open>The visitor's own cookie is not forwarded when a link is redeemed.\<close>

definition publicRedeem :: "bool \<Rightarrow> (up_request \<Rightarrow> 'a upstream) \<Rightarrow> visitor \<Rightarrow> js_value \<Rightarrow> relay_result" where
  "publicRedeem production call v token =
     (if \<not> redeem_token_ok token then RelayInvalid
      else case call \<lparr>up_method = ''GET'',
                     up_path = ''/contact/redeem?token='' @ encodeURIComponent (the (str_of token)),
                     up_headers = host_header v\<rparr> of
             UpThrows \<Rightarrow> RelayUnavailable
           | UpResponse status cookies body \<Rightarrow>
               if status \<noteq> 302 then RelayInvalid
               else (case relaySessionCookies production cookies of
                       None \<Rightarrow> RelayUnavailable | Some out \<Rightarrow> RelayOk out))"

text \<open>\<^verbatim>\<open>/^[0-9a-f]{8}(?:-[0-9a-f]{4}){3}-[0-9a-f]{12}$/i\<close>\<close>

definition is_hex :: "char \<Rightarrow> bool" where
  "is_hex c \<longleftrightarrow> is_digit c \<or> lower_char c \<in> set ''abcdef''"

definition is_site_id :: "string \<Rightarrow> bool" where
  "is_site_id s \<longleftrightarrow> length s = 36 \<and>
     (\<forall>k\<in>set [0..<36]. if k \<in> {8, 13, 18, 23} then s ! k = CHR ''-'' else is_hex (s ! k))"

text \<open>\<open>None\<close> is the thrown \<^verbatim>\<open>TypeError\<close>; a site the API does not answer for is \<open>Some None\<close>.\<close>

definition publicSite :: "(up_request \<Rightarrow> 'a upstream) \<Rightarrow> visitor \<Rightarrow> js_value \<Rightarrow> 'a option option" where
  "publicSite call v siteId =
     (case str_of siteId of
        None \<Rightarrow> None
      | Some s \<Rightarrow> if is_site_id s then Some (publicApiMaybe call v (''/public/sites/'' @ encodeURIComponent s))
                  else None)"

section \<open>All sites\<close>

record public_site =
  ps_id :: string
  ps_name :: string

text \<open>A page as it arrives; \<open>pg_items\<close> is \<open>None\<close> when \<^verbatim>\<open>items\<close> is not an array.\<close>

record site_page =
  pg_items :: "public_site list option"
  pg_next :: "string option"

definition locatorPath :: "string option \<Rightarrow> string option \<Rightarrow> string" where
  "locatorPath near after =
     (let text = search_params
        ((case given near of None \<Rightarrow> [] | Some n \<Rightarrow> [(''near'', n)]) @
         (case given after of None \<Rightarrow> [] | Some a \<Rightarrow> [(''after'', a)]))
      in if text = [] then ''/public/sites'' else ''/public/sites?'' @ text)"

definition page_path :: "string option \<Rightarrow> string" where
  "page_path after = locatorPath None after @ (if given after = None then ''?'' else ''&'') @ ''limit=200''"

datatype sitemap_error = Aborted | Unavailable | RepeatedCursor | BudgetExceeded

text \<open>The loop of \<^verbatim>\<open>publicSitesAll\<close> with \<open>n\<close> pages left; \<open>k\<close> numbers the upstream call.\<close>

fun sites_loop ::
  "(nat \<Rightarrow> bool) \<Rightarrow> (nat \<Rightarrow> up_request \<Rightarrow> site_page upstream) \<Rightarrow> visitor \<Rightarrow> nat \<Rightarrow> nat \<Rightarrow> string option \<Rightarrow> string list
   \<Rightarrow> public_site list \<Rightarrow> sitemap_error + public_site list" where
  "sites_loop aborted call v 0 k after seen all = Inl BudgetExceeded"
| "sites_loop aborted call v (Suc n) k after seen all =
     (if aborted k then Inl Aborted
      else case publicApiMaybe (call k) v (page_path after) of
             None \<Rightarrow> Inl Unavailable
           | Some page \<Rightarrow>
               (case pg_items page of
                  None \<Rightarrow> Inl Unavailable
                | Some items \<Rightarrow>
                    if length items > 200 then Inl Unavailable
                    else (case given (pg_next page) of
                            None \<Rightarrow> Inr (all @ items)
                          | Some next \<Rightarrow>
                              if next \<in> set seen then Inl RepeatedCursor
                              else sites_loop aborted call v n (Suc k) (Some next) (next # seen) (all @ items))))"

definition publicSitesAll ::
  "(nat \<Rightarrow> bool) \<Rightarrow> (nat \<Rightarrow> up_request \<Rightarrow> site_page upstream) \<Rightarrow> visitor \<Rightarrow> sitemap_error + public_site list" where
  "publicSitesAll aborted call v = sites_loop aborted call v 250 0 None [] []"

record 'm locator =
  loc_sites :: "public_site list option"
  loc_next :: "string option"
  loc_me :: 'm

text \<open>The two reads of \<^verbatim>\<open>publicLocator\<close> are independent; a page that is away leaves its sites undefined.\<close>

definition publicLocator ::
  "(up_request \<Rightarrow> site_page upstream) \<Rightarrow> (up_request \<Rightarrow> 'm upstream) \<Rightarrow> visitor \<Rightarrow> 'm \<Rightarrow> string option \<Rightarrow> 'm locator" where
  "publicLocator call callMe v guest near =
     (let page = publicApiMaybe call v (locatorPath near None)
      in \<lparr>loc_sites = Option.bind page pg_items, loc_next = Option.bind page pg_next,
          loc_me = publicApi callMe v ''/me'' guest\<rparr>)"

definition publicLocatorPage :: "(up_request \<Rightarrow> site_page upstream) \<Rightarrow> visitor \<Rightarrow> string \<Rightarrow> site_page" where
  "publicLocatorPage call v after =
     publicApi call v (locatorPath None (Some after)) \<lparr>pg_items = Some [], pg_next = None\<rparr>"

section \<open>The sitemap\<close>

definition xml_escape :: "string \<Rightarrow> string" where
  "xml_escape u = replace_char (CHR ''>'') ''&gt;'' (replace_char (CHR ''<'') ''&lt;''
     (replace_char (CHR ''&'') ''&amp;'' u))"

definition sitemap_urls :: "string \<Rightarrow> public_site list \<Rightarrow> string list" where
  "sitemap_urls host sites =
     (''https://'' @ host @ ''/'') # map (\<lambda>s. ''https://'' @ host @ ''/sites/'' @ ps_id s) (take 49999 sites)"

datatype sitemap_response = SitemapUnavailable | SitemapXml string

definition newline :: string where
  "newline = [CHR 0x0A]"

definition sitemap_xml :: "string list \<Rightarrow> string" where
  "sitemap_xml urls =
     ''<?xml version=\"1.0\" encoding=\"UTF-8\"?>'' @ newline @
     ''<urlset xmlns=\"http://www.sitemaps.org/schemas/sitemap/0.9\">'' @ newline @
     join newline (map (\<lambda>u. ''  <url><loc>'' @ xml_escape u @ ''</loc></url>'') urls) @
     newline @ ''</urlset>'' @ newline"

definition sitemap_get ::
  "(nat \<Rightarrow> bool) \<Rightarrow> (nat \<Rightarrow> up_request \<Rightarrow> site_page upstream) \<Rightarrow> visitor \<Rightarrow> sitemap_response" where
  "sitemap_get aborted call v =
     (case publicSitesAll aborted call v of
        Inl _ \<Rightarrow> SitemapUnavailable
      | Inr sites \<Rightarrow> SitemapXml (sitemap_xml (sitemap_urls (case v_host v of None \<Rightarrow> ''localhost'' | Some h \<Rightarrow> h) sites)))"

section \<open>The size limit\<close>

text \<open>
  The transform of \<^verbatim>\<open>fetchWithHost\<close>: chunks pass until their total exceeds 4 MiB, then the stream
  errors and nothing more is delivered.  A chunk is its byte list.
\<close>

fun limit_body :: "nat \<Rightarrow> 'b list list \<Rightarrow> 'b list list \<times> bool" where
  "limit_body bytes [] = ([], True)"
| "limit_body bytes (chunk # chunks) =
     (let total = bytes + length chunk in
      if total > 4 * 1024 * 1024 then ([], False)
      else let (out, ok) = limit_body total chunks in (chunk # out, ok))"

end
