(* ===== verification/Public_Props.thy ===== *)
theory Public_Props
  imports Public_Api
begin

text \<open>
  What the public site's server promises: relayed cookies are host-only and secure, the walk over all
  sites is complete or fails, within its page budget, the sitemap stays within the protocol's limits
  and its text is escaped, and no more than 4 MiB of an upstream body is ever delivered.
\<close>

section \<open>Cookies\<close>

abbreviation until_semi :: "string \<Rightarrow> string" where
  "until_semi s \<equiv> takeWhile (\<lambda>c. c \<noteq> CHR '';'') s"

fun has_domain :: "string \<Rightarrow> bool" where
  "has_domain [] = False"
| "has_domain (c # rest) = (c = CHR '';'' \<and> match_domain rest \<noteq> None \<or> has_domain rest)"

lemma lower_char_semi: "lower_char c = CHR '';'' \<longleftrightarrow> c = CHR '';''"
proof (cases "65 \<le> (of_char c :: nat) \<and> of_char c \<le> (90 :: nat)")
  case True
  then have "of_char (lower_char c) = (of_char c + 32 :: nat)"
    by (simp add: lower_char_def take_bit_eq_mod)
  then have "lower_char c \<noteq> CHR '';''" using True by auto
  moreover have "c \<noteq> CHR '';''" using True by auto
  ultimately show ?thesis by simp
qed (auto simp: lower_char_def Let_def)

lemma is_ws_semi [simp]: "\<not> is_ws (CHR '';'')"
  by (simp add: is_ws_def)

lemma dropWhile_until_semi: "dropWhile is_ws (until_semi r) = until_semi (dropWhile is_ws r)"
proof (induction r)
  case (Cons c r)
  then show ?case by (cases "c = CHR '';''") auto
qed simp

lemma take_until_semi: "CHR '';'' \<notin> set (take n w) \<Longrightarrow> take n (until_semi w) = take n w"
proof (induction n arbitrary: w)
  case (Suc n)
  then show ?case by (cases w) auto
qed simp

lemma lower_key_no_semi: "map lower_char xs = key \<Longrightarrow> CHR '';'' \<notin> set key \<Longrightarrow> CHR '';'' \<notin> set xs"
proof -
  assume key: "map lower_char xs = key" "CHR '';'' \<notin> set key"
  show "CHR '';'' \<notin> set xs"
  proof
    assume "CHR '';'' \<in> set xs"
    then have "lower_char (CHR '';'') \<in> set key" unfolding key(1) [symmetric] set_map by (rule imageI)
    with key(2) lower_char_semi [of "CHR '';''"] show False by simp
  qed
qed

text \<open>A match depends on nothing past the next semicolon.\<close>

lemma match_domain_until:
  "match_domain r \<noteq> None \<longleftrightarrow> map lower_char (take 7 (dropWhile is_ws (until_semi r))) = ''domain=''"
proof -
  let ?w = "dropWhile is_ws r"
  have "map lower_char (take 7 ?w) = ''domain='' \<longleftrightarrow> map lower_char (take 7 (until_semi ?w)) = ''domain=''"
  proof
    assume "map lower_char (take 7 ?w) = ''domain=''"
    with take_until_semi [OF lower_key_no_semi [OF this]]
    show "map lower_char (take 7 (until_semi ?w)) = ''domain=''" by simp
  next
    assume *: "map lower_char (take 7 (until_semi ?w)) = ''domain=''"
    from arg_cong [OF this, of length] have "7 \<le> length (until_semi ?w)" by simp
    moreover have "take 7 ?w = take 7 (until_semi ?w @ dropWhile (\<lambda>c. c \<noteq> CHR '';'') ?w)" by simp
    ultimately have "take 7 ?w = take 7 (until_semi ?w)"
      by (simp only: take_append diff_is_0_eq' take_0 append_Nil2)
    with * show "map lower_char (take 7 ?w) = ''domain=''" by simp
  qed
  then show ?thesis by (simp add: match_domain_def dropWhile_until_semi Let_def)
qed

lemma match_domain_rest: "match_domain r = Some rest \<Longrightarrow> until_semi rest = []"
  by (auto simp: match_domain_def Let_def takeWhile_eq_Nil_iff split: if_splits dest: hd_dropWhile)

lemma until_semi_strip: "until_semi (strip_domain s) = until_semi s"
proof (induction s rule: strip_domain.induct)
  case (2 c rest)
  then show ?case
    by (cases "match_domain rest") (auto dest: match_domain_rest)
qed simp

lemma strip_no_domain: "\<not> has_domain (strip_domain s)"
proof (induction s rule: strip_domain.induct)
  case (2 c rest)
  show ?case
  proof (cases "c = CHR '';''")
    case True
    show ?thesis
    proof (cases "match_domain rest")
      case None
      then have "match_domain (strip_domain rest) = None"
        using match_domain_until [of rest] match_domain_until [of "strip_domain rest"]
        by (simp add: until_semi_strip)
      with 2 True None show ?thesis by simp
    qed (use 2 True in simp)
  qed (use 2 in simp)
qed simp

lemma until_semi_append: "until_semi (s @ CHR '';'' # t) = until_semi s"
  by (induction s) auto

lemma has_domain_append: "has_domain (s @ CHR '';'' # t) \<longleftrightarrow> has_domain s \<or> has_domain (CHR '';'' # t)"
proof (induction s)
  case (Cons c s)
  have "match_domain (s @ CHR '';'' # t) \<noteq> None \<longleftrightarrow> match_domain s \<noteq> None"
    by (simp only: match_domain_until until_semi_append)
  with Cons show ?case by simp
qed simp

lemma has_secure_append: "has_secure t \<Longrightarrow> has_secure (s @ t)"
  by (induction s) auto



section \<open>The walk over all sites\<close>

text \<open>
  The reference: a chain of pages, each answered for the cursor of the one before, the last without a
  cursor.
\<close>

fun page_chain ::
  "(nat \<Rightarrow> up_request \<Rightarrow> site_page upstream) \<Rightarrow> visitor \<Rightarrow> nat \<Rightarrow> string option \<Rightarrow> (public_site list \<times> string option) list \<Rightarrow> bool"
where
  "page_chain call v k after [] = False"
| "page_chain call v k after ((items, next) # pages) =
     ((\<exists>page. publicApiMaybe (call k) v (page_path after) = Some page \<and> pg_items page = Some items \<and>
         given (pg_next page) = next) \<and>
      length items \<le> 200 \<and>
      (case next of None \<Rightarrow> pages = [] | Some c \<Rightarrow> page_chain call v (Suc k) (Some c) pages))"

abbreviation cursors :: "(public_site list \<times> string option) list \<Rightarrow> string list" where
  "cursors pages \<equiv> List.map_filter snd pages"

lemma map_filter_Cons: "List.map_filter f (x # xs) = (case f x of None \<Rightarrow> [] | Some y \<Rightarrow> [y]) @ List.map_filter f xs"
  by (simp add: map_filter_simps split: option.splits)

lemma page_chain_short: "page_chain call v k after pages \<Longrightarrow> p \<in> set pages \<Longrightarrow> length (fst p) \<le> 200"
proof (induction pages arbitrary: k after)
  case (Cons x pages)
  then show ?case by (cases x) (auto split: option.splits)
qed simp

lemma sites_loop_sound:
  "sites_loop aborted call v n k after seen all = Inr res \<Longrightarrow>
     \<exists>pages. page_chain call v k after pages \<and> res = all @ concat (map fst pages) \<and>
       length pages \<le> n \<and> distinct (cursors pages) \<and> set (cursors pages) \<inter> set seen = {} \<and>
       (\<forall>j<length pages. \<not> aborted (k + j))"
proof (induction n arbitrary: k after seen all)
  case (Suc n)
  obtain page items where page: "\<not> aborted k" "publicApiMaybe (call k) v (page_path after) = Some page"
      "pg_items page = Some items" "length items \<le> 200"
    using Suc.prems by (auto split: if_splits option.splits)
  show ?case
  proof (cases "given (pg_next page)")
    case None
    then have "res = all @ items" using Suc.prems page by simp
    with None page show ?thesis
      by (intro exI [of _ "[(items, None)]"]) (auto simp: map_filter_Cons map_filter_simps)
  next
    case (Some c)
    then have c: "c \<notin> set seen" "sites_loop aborted call v n (Suc k) (Some c) (c # seen) (all @ items) = Inr res"
      using Suc.prems page by (auto split: if_splits)
    from Suc.IH [OF c(2)] obtain pages where
        pages: "page_chain call v (Suc k) (Some c) pages" "res = (all @ items) @ concat (map fst pages)"
          "length pages \<le> n" "distinct (cursors pages)" "set (cursors pages) \<inter> set (c # seen) = {}"
          "\<forall>j<length pages. \<not> aborted (Suc k + j)" by blast
    have "\<not> aborted (k + j)" if "j < length ((items, Some c) # pages)" for j
      using that pages(6) page(1) by (cases j) auto
    with Some page c(1) pages show ?thesis
      by (intro exI [of _ "(items, Some c) # pages"]) (auto simp: map_filter_Cons)
  qed
qed simp

lemma sites_loop_complete:
  "page_chain call v k after pages \<Longrightarrow> length pages \<le> n \<Longrightarrow> distinct (cursors pages) \<Longrightarrow>
   set (cursors pages) \<inter> set seen = {} \<Longrightarrow> (\<forall>j<length pages. \<not> aborted (k + j)) \<Longrightarrow>
   sites_loop aborted call v n k after seen all = Inr (all @ concat (map fst pages))"
proof (induction n arbitrary: k after seen all pages)
  case 0
  then show ?case by (cases pages) auto
next
  case (Suc n)
  obtain items "next" rest where p: "pages = (items, next) # rest" using Suc.prems(1) by (cases pages) auto
  have ab: "\<not> aborted k" using Suc.prems(5) p by force
  show ?case
  proof (cases "next")
    case None
    with Suc.prems(1) p ab show ?thesis by auto
  next
    case (Some c)
    have "\<forall>j<length rest. \<not> aborted (Suc k + j)" using Suc.prems(5) p by force
    with Suc.IH [of "Suc k" "Some c" rest "c # seen" "all @ items"] Some Suc.prems p ab show ?thesis
      by (auto simp: map_filter_Cons)
  qed
qed

text \<open>C20: The walk over all sites answers exactly when the upstream serves a complete chain of at most
  250 pages of at most 200 sites, without a repeated cursor and before the deadline; the answer is then
  every site of every page in order.  Otherwise it throws: there is never a partial list, and never
  more than 250 upstream calls or 50000 sites.\<close>

theorem sites_all_complete:
  "(publicSitesAll aborted call v = Inr sites) =
     (\<exists>pages. page_chain call v 0 None pages \<and> length pages \<le> 250 \<and> distinct (cursors pages) \<and>
        (\<forall>j<length pages. \<not> aborted j) \<and> sites = concat (map fst pages) \<and> length sites \<le> 50000)"
proof
  assume "publicSitesAll aborted call v = Inr sites"
  from sites_loop_sound [OF this [unfolded publicSitesAll_def]]
  obtain pages where pages: "page_chain call v 0 None pages" "sites = concat (map fst pages)"
      "length pages \<le> 250" "distinct (cursors pages)" "\<forall>j<length pages. \<not> aborted j" by auto
  have "\<forall>p\<in>set pages. length (fst p) \<le> 200" using page_chain_short [OF pages(1)] by blast
  then have "length (concat (map fst pages)) \<le> 200 * length pages"
    by (induction pages) auto
  with pages show "\<exists>pages. page_chain call v 0 None pages \<and> length pages \<le> 250 \<and> distinct (cursors pages) \<and>
      (\<forall>j<length pages. \<not> aborted j) \<and> sites = concat (map fst pages) \<and> length sites \<le> 50000" by fastforce
next
  assume "\<exists>pages. page_chain call v 0 None pages \<and> length pages \<le> 250 \<and> distinct (cursors pages) \<and>
      (\<forall>j<length pages. \<not> aborted j) \<and> sites = concat (map fst pages) \<and> length sites \<le> 50000"
  then show "publicSitesAll aborted call v = Inr sites"
    using sites_loop_complete [of call v 0 None _ 250 "[]" aborted "[]"] by (auto simp: publicSitesAll_def)
qed

definition sample_visitor :: visitor where
  "sample_visitor = \<lparr>v_host = Some ''acme.example'', v_cookie = None\<rparr>"

definition sample_calls :: "nat \<Rightarrow> up_request \<Rightarrow> site_page upstream" where
  "sample_calls k r =
     (if up_path r = ''/public/sites?limit=200''
      then UpResponse 200 [] (Some \<lparr>pg_items = Some [\<lparr>ps_id = ''a'', ps_name = ''A''\<rparr>], pg_next = Some ''c1''\<rparr>)
      else if up_path r = ''/public/sites?after=c1&limit=200''
      then UpResponse 200 [] (Some \<lparr>pg_items = Some [\<lparr>ps_id = ''b'', ps_name = ''B''\<rparr>], pg_next = None\<rparr>)
      else UpThrows)"

theorem sites_all_complete_witness:
  "\<exists>pages. page_chain sample_calls sample_visitor 0 None pages \<and> length pages \<le> 250 \<and>
     map ps_id (concat (map fst pages)) = [''a'', ''b'']"
proof -
  let ?sites = "[\<lparr>ps_id = ''a'', ps_name = ''A''\<rparr>, \<lparr>ps_id = ''b'', ps_name = ''B''\<rparr>]"
  have "publicSitesAll (\<lambda>k. False) sample_calls sample_visitor = Inr ?sites" by code_simp
  then have "\<exists>pages. page_chain sample_calls sample_visitor 0 None pages \<and> length pages \<le> 250 \<and> distinct (cursors pages) \<and>
        (\<forall>j<length pages. \<not> False) \<and> ?sites = concat (map fst pages) \<and> length ?sites \<le> 50000"
    unfolding sites_all_complete .
  then obtain pages where p: "page_chain sample_calls sample_visitor 0 None pages" "length pages \<le> 250"
    "concat (map fst pages) = ?sites" by metis
  show ?thesis by (rule exI [of _ pages]) (simp add: p)
qed

section \<open>The sitemap\<close>

definition xml_char :: "char \<Rightarrow> string" where
  "xml_char c = (if c = CHR ''&'' then ''&amp;'' else if c = CHR ''<'' then ''&lt;''
     else if c = CHR ''>'' then ''&gt;'' else [c])"

lemma xml_escape_chars: "xml_escape u = concat (map xml_char u)"
  by (induction u) (auto simp: xml_escape_def xml_char_def)

fun xml_unescape :: "string \<Rightarrow> string" where
  "xml_unescape [] = []"
| "xml_unescape (c # rest) =
     (if starts_with (c # rest) ''&amp;'' then CHR ''&'' # xml_unescape (drop 4 rest)
      else if starts_with (c # rest) ''&lt;'' then CHR ''<'' # xml_unescape (drop 3 rest)
      else if starts_with (c # rest) ''&gt;'' then CHR ''>'' # xml_unescape (drop 3 rest)
      else c # xml_unescape rest)"

lemma unescape_char: "xml_unescape (xml_char c @ rest) = c # xml_unescape rest"
  by (simp add: xml_char_def starts_with_simps)

lemma unescape_escape: "xml_unescape (xml_escape u) = u"
  by (induction u) (simp_all add: xml_escape_chars unescape_char)

text \<open>A sitemap that is served lists at most 50000 addresses, the home page first and then the sites
  of the complete walk in order; every address is escaped so that it cannot close its element, and
  unescaping gives the address back.  When the walk fails the answer is 503, never a shorter sitemap.\<close>

theorem sitemap_within_limits:
  "(case sitemap_get aborted call v of
      SitemapUnavailable \<Rightarrow> (\<exists>e. publicSitesAll aborted call v = Inl e)
    | SitemapXml x \<Rightarrow> (\<exists>sites urls. publicSitesAll aborted call v = Inr sites \<and>
        urls = sitemap_urls (case v_host v of None \<Rightarrow> ''localhost'' | Some h \<Rightarrow> h) sites \<and> x = sitemap_xml urls \<and>
        length urls = min 50000 (1 + length sites) \<and>
        list_all (\<lambda>u. CHR ''<'' \<notin> set (xml_escape u) \<and> CHR ''>'' \<notin> set (xml_escape u) \<and>
                      xml_unescape (xml_escape u) = u) urls))"
proof -
  have "CHR ''<'' \<notin> set (xml_escape u) \<and> CHR ''>'' \<notin> set (xml_escape u)" for u
    by (auto simp: xml_escape_chars xml_char_def split: if_splits)
  then show ?thesis
    by (cases "publicSitesAll aborted call v")
      (simp_all add: sitemap_get_def list_all_iff unescape_escape sitemap_urls_def)
qed

section \<open>The size limit\<close>

text \<open>At most 4 MiB of an upstream body is delivered, always a prefix of it in whole chunks; a body
  within the limit is delivered whole, and a longer one ends in an error, never in a silent cut.\<close>

theorem body_within_limit:
  "length (concat (fst (limit_body 0 chunks))) \<le> 4194304 \<and>
   (\<exists>rest. chunks = fst (limit_body 0 chunks) @ rest) \<and>
   snd (limit_body 0 chunks) = (length (concat chunks) \<le> 4194304) \<and>
   (snd (limit_body 0 chunks) = (fst (limit_body 0 chunks) = chunks))"
proof -
  have "bytes \<le> 4194304 \<Longrightarrow>
      bytes + length (concat (fst (limit_body bytes chunks))) \<le> 4194304 \<and>
      (\<exists>rest. chunks = fst (limit_body bytes chunks) @ rest) \<and>
      snd (limit_body bytes chunks) = (bytes + length (concat chunks) \<le> 4194304) \<and>
      (snd (limit_body bytes chunks) = (fst (limit_body bytes chunks) = chunks))" for bytes
  proof (induction bytes chunks rule: limit_body.induct)
    case (2 bytes chunk chunks)
    then show ?case
      by (cases "limit_body (bytes + length chunk) chunks") (auto simp: Let_def)
  qed simp
  from this [OF zero_le, unfolded add_0] show ?thesis .
qed

end
