(* ===== verification/Cascader_Loader.thy ===== *)
theory Cascader_Loader
  imports Cascader_Select
begin

text \<open>
  The loader of the cascader (\<^verbatim>\<open>cascader-async.tsx\<close>): the store of loaded pages with its copy-on-write
  transitions, and the hook's request machinery (one abort controller per key, request ids, an epoch,
  in-flight signatures and the paging latch) as operations on a state.  \<open>ld_store\<close> is the store with
  every queued update applied; \<open>ld_latest\<close> is the one the callbacks read through \<^verbatim>\<open>latest.current\<close>,
  brought up to date by a commit.  A request waits in \<open>ld_pending\<close> until its promise settles; a
  controller is a number, and its signal's aborted flag is a field of the request.  Template strings
  used as signatures are pairs, which compare alike.
\<close>

section \<open>Types\<close>

record load_state =
  st_loading :: bool
  st_error :: bool
  st_hasMore :: bool
  st_cursor :: "string option"

record loader_store =
  pages :: "(string \<times> cascader_node list) list"
  states :: "(string \<times> load_state) list"
  detached :: "(string \<times> cascader_node) list"

datatype load_reason = ReasonLevel | ReasonMore | ReasonPrefetch | ReasonRetry | ReasonResolve

text \<open>What a promise settles with: a bare array, a page with its cursor and \<^verbatim>\<open>hasMore\<close>, or a rejection.\<close>

datatype load_response =
    Bare "cascader_node option list"
  | Paged "cascader_node option list" "string option" "bool option"
  | Rejection

datatype request_kind = LoadLevel bool "string option" load_reason | SearchFor string | ResolveOf string

record request =
  rq_token :: nat
  rq_key :: string
  rq_kind :: request_kind
  rq_id :: nat
  rq_epoch :: nat
  rq_aborted :: bool

record search_slice =
  ss_query :: string
  ss_results :: "cascader_node list"
  ss_loading :: bool
  ss_error :: bool

record loader_props =
  lp_base :: cascader_index
  lp_getChildren :: bool
  lp_onSearch :: bool
  lp_resolveValue :: bool
  lp_prefetch :: bool

record loader =
  ld_store :: loader_store
  ld_latest :: loader_store
  ld_search :: "search_slice option"
  ld_controllers :: "(string \<times> nat) list"
  ld_requestIds :: "(string \<times> nat) list"
  ld_inflight :: "(string \<times> (bool \<times> string)) list"
  ld_moreLatch :: "(string \<times> (nat \<times> string)) list"
  ld_attempted :: "string list"
  ld_known :: "(string \<times> cascader_node) list"
  ld_timer :: "string option"
  ld_epoch :: nat
  ld_pending :: "request list"
  ld_tokens :: nat
  ld_errors :: "(string option \<times> request_kind) list"

definition SEARCH_KEY :: string where
  "SEARCH_KEY = CHR 0x00 # ''search''"

definition RESOLVE_PREFIX :: string where
  "RESOLVE_PREFIX = CHR 0x00 # ''resolve:''"

definition NO_STATE :: load_state where
  "NO_STATE = \<lparr>st_loading = False, st_error = False, st_hasMore = False, st_cursor = None\<rparr>"

definition createStore :: loader_store where
  "createStore = \<lparr>pages = [], states = [], detached = []\<rparr>"

definition or_empty :: "string option \<Rightarrow> string" where
  "or_empty cursor = (case cursor of None \<Rightarrow> [] | Some c \<Rightarrow> c)"

section \<open>Store transitions\<close>

definition withLoadState :: "string \<Rightarrow> (load_state \<Rightarrow> load_state) \<Rightarrow> loader_store \<Rightarrow> loader_store" where
  "withLoadState key update s =
     (let current = (case map_of (states s) key of None \<Rightarrow> NO_STATE | Some st \<Rightarrow> st)
      in if map_of (states s) key \<noteq> None \<and> update current = current then s
         else s\<lparr>states := AList.update key (update current) (states s)\<rparr>)"

fun merge_page :: "string list \<Rightarrow> cascader_node list \<Rightarrow> cascader_node list" where
  "merge_page seen [] = []"
| "merge_page seen (n # ns) =
     (if cn_value n \<in> set seen then merge_page seen ns else n # merge_page (cn_value n # seen) ns)"

definition page_of :: "loader_store \<Rightarrow> string \<Rightarrow> cascader_node list" where
  "page_of s key = (case map_of (pages s) key of None \<Rightarrow> [] | Some ns \<Rightarrow> ns)"

definition withPage :: "string \<Rightarrow> cascader_node list \<Rightarrow> bool \<Rightarrow> bool \<Rightarrow> string option \<Rightarrow> loader_store \<Rightarrow> loader_store" where
  "withPage key items appending hasMore cursor s =
     (let previous = (if appending then page_of s key else [])
      in s\<lparr>pages := AList.update key (previous @ merge_page (map cn_value previous) items) (pages s),
           states := AList.update key \<lparr>st_loading = False, st_error = False, st_hasMore = hasMore, st_cursor = cursor\<rparr>
             (states s)\<rparr>)"

definition withDetached :: "cascader_node list \<Rightarrow> loader_store \<Rightarrow> loader_store" where
  "withDetached items s =
     s\<lparr>detached := fold (\<lambda>n d. if map_of d (cn_value n) = Some n then d else AList.update (cn_value n) n d) items (detached s)\<rparr>"

fun chain_pages :: "string \<Rightarrow> cascader_node list \<Rightarrow> (string \<times> cascader_node list) list \<Rightarrow> (string \<times> cascader_node list) list" where
  "chain_pages parentKey [] pgs = pgs"
| "chain_pages parentKey (n # ns) pgs =
     chain_pages (cn_value n) ns
       (case map_of pgs parentKey of
          None \<Rightarrow> AList.update parentKey [n] pgs
        | Some bucket \<Rightarrow>
            if list_ex (\<lambda>x. cn_value x = cn_value n) bucket then pgs else AList.update parentKey (bucket @ [n]) pgs)"

definition withChain :: "cascader_node list \<Rightarrow> loader_store \<Rightarrow> loader_store" where
  "withChain chain s =
     (if chain = [] then s
      else s\<lparr>pages := chain_pages CASCADER_ROOT_KEY chain (pages s),
             detached := fold (\<lambda>n. AList.update (cn_value n) n) chain (detached s)\<rparr>)"

section \<open>Requests\<close>

text \<open>Remembering nodes reads \<^verbatim>\<open>node.value\<close>, which throws on a null entry; what was remembered before stays.\<close>

fun remember :: "cascader_node option list \<Rightarrow> (string \<times> cascader_node) list \<Rightarrow> bool \<times> (string \<times> cascader_node) list" where
  "remember [] m = (True, m)"
| "remember (None # ns) m = (False, m)"
| "remember (Some (CNode v pr ch) # ns) m =
     (let m' = AList.update v (CNode v pr ch) m
      in if ch = [] then remember ns m'
         else case remember ch m' of
                (True, m'') \<Rightarrow> remember ns m''
              | (False, m'') \<Rightarrow> (False, m''))"

definition abort_tokens :: "nat set \<Rightarrow> request list \<Rightarrow> request list" where
  "abort_tokens toks rs = map (\<lambda>r. if rq_token r \<in> toks then r\<lparr>rq_aborted := True\<rparr> else r) rs"

definition abortKey :: "string \<Rightarrow> loader \<Rightarrow> loader" where
  "abortKey key s =
     (case map_of (ld_controllers s) key of
        None \<Rightarrow> s
      | Some tok \<Rightarrow>
          s\<lparr>ld_controllers := AList.delete key (ld_controllers s), ld_inflight := AList.delete key (ld_inflight s),
            ld_pending := abort_tokens {tok} (ld_pending s)\<rparr>)"

definition next_id :: "loader \<Rightarrow> string \<Rightarrow> nat" where
  "next_id s key = (case map_of (ld_requestIds s) key of None \<Rightarrow> 0 | Some i \<Rightarrow> i) + 1"

text \<open>A new controller for a key and the request it belongs to.\<close>

definition issue :: "string \<Rightarrow> request_kind \<Rightarrow> nat \<Rightarrow> loader \<Rightarrow> loader" where
  "issue key kind i s =
     s\<lparr>ld_controllers := AList.update key (ld_tokens s) (ld_controllers s),
       ld_pending := ld_pending s @ [\<lparr>rq_token = ld_tokens s, rq_key = key, rq_kind = kind, rq_id = i,
         rq_epoch = ld_epoch s, rq_aborted = False\<rparr>],
       ld_tokens := ld_tokens s + 1\<rparr>"

definition runLoad :: "loader_props \<Rightarrow> string \<Rightarrow> load_reason \<Rightarrow> string option \<Rightarrow> bool \<Rightarrow> loader \<Rightarrow> loader" where
  "runLoad p key reason cursor appending s =
     (if \<not> lp_getChildren p then s
      else if map_of (ld_inflight s) key = Some (appending, or_empty cursor) then s
      else let s1 = abortKey key s;
               i = next_id s1 key;
               s2 = issue key (LoadLevel appending cursor reason) i s1
           in s2\<lparr>ld_inflight := AList.update key (appending, or_empty cursor) (ld_inflight s2),
                 ld_requestIds := AList.update key i (ld_requestIds s2),
                 ld_store := withLoadState key (\<lambda>st. st\<lparr>st_loading := True, st_error := False\<rparr>) (ld_store s2)\<rparr>)"

definition ensureLevel :: "loader_props \<Rightarrow> string \<Rightarrow> load_reason \<Rightarrow> loader \<Rightarrow> loader" where
  "ensureLevel p key reason s =
     (if \<not> lp_getChildren p then s
      else if map_of (states (ld_latest s)) key \<noteq> None then s
      else if map_of (ix_childrenOf (lp_base p)) key \<noteq> None then s
      else runLoad p key reason None False s)"

definition loadMore :: "loader_props \<Rightarrow> string \<Rightarrow> loader \<Rightarrow> loader" where
  "loadMore p key s =
     (if \<not> lp_getChildren p then s
      else case map_of (states (ld_latest s)) key of
        None \<Rightarrow> s
      | Some st \<Rightarrow>
          if st_loading st \<or> \<not> st_hasMore st then s
          else let signature = (length (page_of (ld_latest s) key), or_empty (st_cursor st))
               in if map_of (ld_moreLatch s) key = Some signature then s
                  else runLoad p key ReasonMore (st_cursor st) True
                         (s\<lparr>ld_moreLatch := AList.update key signature (ld_moreLatch s)\<rparr>))"

definition retryLevel :: "loader_props \<Rightarrow> string \<Rightarrow> loader \<Rightarrow> loader" where
  "retryLevel p key s =
     (if \<not> lp_getChildren p then s
      else case map_of (states (ld_latest s)) key of
        None \<Rightarrow> s
      | Some st \<Rightarrow>
          if \<not> st_error st then s
          else let loaded = (page_of (ld_latest s) key \<noteq> [])
               in runLoad p key ReasonRetry (if loaded then st_cursor st else None) loaded
                    (s\<lparr>ld_moreLatch := AList.delete key (ld_moreLatch s)\<rparr>))"

definition invalidateLevel :: "string option \<Rightarrow> loader \<Rightarrow> loader" where
  "invalidateLevel v s =
     (let key = (case v of None \<Rightarrow> CASCADER_ROOT_KEY | Some k \<Rightarrow> k);
          s1 = abortKey key s
      in s1\<lparr>ld_requestIds := AList.update key (next_id s1 key) (ld_requestIds s1),
            ld_moreLatch := AList.delete key (ld_moreLatch s1),
            ld_store := (ld_store s1)\<lparr>states := AList.delete key (states (ld_store s1)),
                                      pages := AList.delete key (pages (ld_store s1))\<rparr>\<rparr>)"

definition prefetchNode :: "loader_props \<Rightarrow> cascader_node option \<Rightarrow> loader \<Rightarrow> loader" where
  "prefetchNode p node s =
     (case node of
        None \<Rightarrow> s
      | Some n \<Rightarrow>
          if \<not> lp_prefetch p \<or> \<not> lp_getChildren p \<or> isCascaderMoreNode n \<or> \<not> cn_has_children (cn_props n) \<or>
             map_of (states (ld_latest s)) (cn_value n) \<noteq> None
          then s else s\<lparr>ld_timer := Some (cn_value n)\<rparr>)"

definition prefetchFire :: "loader_props \<Rightarrow> loader \<Rightarrow> loader" where
  "prefetchFire p s =
     (case ld_timer s of None \<Rightarrow> s | Some v \<Rightarrow> ensureLevel p v ReasonPrefetch (s\<lparr>ld_timer := None\<rparr>))"

definition runSearch :: "loader_props \<Rightarrow> string \<Rightarrow> loader \<Rightarrow> loader" where
  "runSearch p query s =
     (if \<not> lp_onSearch p then s
      else let s1 = abortKey SEARCH_KEY s;
               i = next_id s1 SEARCH_KEY;
               s2 = issue SEARCH_KEY (SearchFor query) i s1
           in s2\<lparr>ld_requestIds := AList.update SEARCH_KEY i (ld_requestIds s2),
                 ld_search := Some \<lparr>ss_query = query,
                   ss_results = (case ld_search s of None \<Rightarrow> [] | Some sl \<Rightarrow> ss_results sl),
                   ss_loading = True, ss_error = False\<rparr>\<rparr>)"

text \<open>The cleanup of the search effect, and the effect itself when the query is empty or the panel closed.\<close>

definition searchCleanup :: "loader \<Rightarrow> loader" where
  "searchCleanup s = abortKey SEARCH_KEY s"

definition searchIdle :: "loader \<Rightarrow> loader" where
  "searchIdle s = (abortKey SEARCH_KEY s)\<lparr>ld_search := None\<rparr>"

definition runResolve :: "loader_props \<Rightarrow> string \<Rightarrow> loader \<Rightarrow> loader" where
  "runResolve p value s =
     (if \<not> lp_resolveValue p then s
      else issue (RESOLVE_PREFIX @ value) (ResolveOf value) 0 (abortKey (RESOLVE_PREFIX @ value) s))"

definition resolveValues :: "loader_props \<Rightarrow> string list \<Rightarrow> loader \<Rightarrow> loader" where
  "resolveValues p values s =
     (if \<not> lp_resolveValue p then s
      else fold (\<lambda>v s. if v = [] \<or> v \<in> set (ld_attempted s) \<or> map_of (ix_byValue (lp_base p)) v \<noteq> None \<or>
                     map_of (ld_known s) v \<noteq> None
                  then s else runResolve p v (s\<lparr>ld_attempted := v # ld_attempted s\<rparr>)) values s)"

section \<open>Responses\<close>

definition stale :: "request \<Rightarrow> loader \<Rightarrow> bool" where
  "stale r s \<longleftrightarrow> rq_aborted r \<or> rq_epoch r \<noteq> ld_epoch s \<or> map_of (ld_requestIds s) (rq_key r) \<noteq> Some (rq_id r)"

text \<open>
  The bookkeeping of \<^verbatim>\<open>settle\<close>: the in-flight signature when it is this request's, the controller when it
  is its own.  The promise itself leaves the pending ones.
\<close>

definition settle_controller :: "request \<Rightarrow> loader \<Rightarrow> loader" where
  "settle_controller r s =
     s\<lparr>ld_pending := filter (\<lambda>q. rq_token q \<noteq> rq_token r) (ld_pending s),
       ld_controllers := (if map_of (ld_controllers s) (rq_key r) = Some (rq_token r)
                          then AList.delete (rq_key r) (ld_controllers s) else ld_controllers s)\<rparr>"

definition settle_inflight :: "request \<Rightarrow> bool \<times> string \<Rightarrow> loader \<Rightarrow> loader" where
  "settle_inflight r signature s =
     (if map_of (ld_inflight s) (rq_key r) = Some signature
      then s\<lparr>ld_inflight := AList.delete (rq_key r) (ld_inflight s)\<rparr> else s)"

definition response_items :: "load_response \<Rightarrow> cascader_node option list" where
  "response_items resp = (case resp of Bare ns \<Rightarrow> ns | Paged ns c h \<Rightarrow> ns | Rejection \<Rightarrow> [])"

definition response_cursor :: "load_response \<Rightarrow> string option" where
  "response_cursor resp = (case resp of Paged ns c h \<Rightarrow> c | _ \<Rightarrow> None)"

definition response_hasMore :: "load_response \<Rightarrow> bool" where
  "response_hasMore resp =
     (case resp of Paged ns c h \<Rightarrow> (case h of None \<Rightarrow> c \<noteq> None | Some b \<Rightarrow> b) | _ \<Rightarrow> False)"

definition nodes_of :: "cascader_node option list \<Rightarrow> cascader_node list" where
  "nodes_of ns = List.map_filter (\<lambda>x. x) ns"

definition parent_of_key :: "string \<Rightarrow> string option" where
  "parent_of_key key = (if key = CASCADER_ROOT_KEY then None else Some key)"

definition levelFailed :: "request \<Rightarrow> loader \<Rightarrow> loader" where
  "levelFailed r s =
     (if stale r s then s
      else s\<lparr>ld_store := withLoadState (rq_key r) (\<lambda>st. st\<lparr>st_loading := False, st_error := True\<rparr>) (ld_store s),
             ld_errors := ld_errors s @ [(parent_of_key (rq_key r), rq_kind r)]\<rparr>)"

definition levelDone :: "request \<Rightarrow> bool \<Rightarrow> string option \<Rightarrow> load_response \<Rightarrow> loader \<Rightarrow> loader" where
  "levelDone r appending cursor resp s =
     (let s1 = settle_inflight r (appending, or_empty cursor) (settle_controller r s) in
      if resp = Rejection then levelFailed r s1
      else if stale r s1 then s1
      else let s2 = (if appending then s1 else s1\<lparr>ld_moreLatch := AList.delete (rq_key r) (ld_moreLatch s1)\<rparr>);
               (ok, known) = remember (response_items resp) (ld_known s2);
               s3 = s2\<lparr>ld_known := known\<rparr>
           in if \<not> ok then levelFailed r s3
              else s3\<lparr>ld_store := withPage (rq_key r) (nodes_of (response_items resp)) appending (response_hasMore resp)
                       (response_cursor resp) (ld_store s3)\<rparr>)"

definition searchFailed :: "request \<Rightarrow> string \<Rightarrow> loader \<Rightarrow> loader" where
  "searchFailed r query s =
     (if stale r s then s
      else s\<lparr>ld_search := Some \<lparr>ss_query = query, ss_results = (case ld_search s of None \<Rightarrow> [] | Some sl \<Rightarrow> ss_results sl),
               ss_loading = False, ss_error = True\<rparr>,
             ld_errors := ld_errors s @ [(None, rq_kind r)]\<rparr>)"

definition searchDone :: "request \<Rightarrow> string \<Rightarrow> load_response \<Rightarrow> loader \<Rightarrow> loader" where
  "searchDone r query resp s =
     (let s1 = settle_controller r s in
      if resp = Rejection then searchFailed r query s1
      else if stale r s1 then s1
      else let (ok, known) = remember (response_items resp) (ld_known s1); s2 = s1\<lparr>ld_known := known\<rparr>
           in if \<not> ok then searchFailed r query s2
              else s2\<lparr>ld_store := withDetached (nodes_of (response_items resp)) (ld_store s2),
                      ld_search := Some \<lparr>ss_query = query, ss_results = nodes_of (response_items resp),
                        ss_loading = False, ss_error = False\<rparr>\<rparr>)"

definition resolveFailed :: "request \<Rightarrow> string \<Rightarrow> loader \<Rightarrow> loader" where
  "resolveFailed r value s =
     (let s1 = s\<lparr>ld_attempted := removeAll value (ld_attempted s)\<rparr>
      in if rq_aborted r \<or> rq_epoch r \<noteq> ld_epoch s1 then s1
         else s1\<lparr>ld_errors := ld_errors s1 @ [(None, rq_kind r)]\<rparr>)"

definition resolveDone :: "request \<Rightarrow> string \<Rightarrow> load_response \<Rightarrow> loader \<Rightarrow> loader" where
  "resolveDone r value resp s =
     (let s1 = settle_controller r s in
      if resp = Rejection then resolveFailed r value s1
      else if rq_aborted r \<or> rq_epoch r \<noteq> ld_epoch s1 then s1
      else if response_items resp = [] then s1
      else let (ok, known) = remember (response_items resp) (ld_known s1); s2 = s1\<lparr>ld_known := known\<rparr>
           in if \<not> ok then resolveFailed r value s2
              else s2\<lparr>ld_store := withChain (nodes_of (response_items resp)) (ld_store s2)\<rparr>)"

definition respond :: "request \<Rightarrow> load_response \<Rightarrow> loader \<Rightarrow> loader" where
  "respond r resp s =
     (case rq_kind r of
        LoadLevel appending cursor reason \<Rightarrow> levelDone r appending cursor resp s
      | SearchFor query \<Rightarrow> searchDone r query resp s
      | ResolveOf value \<Rightarrow> resolveDone r value resp s)"

section \<open>Resets\<close>

definition abort_all :: "loader \<Rightarrow> loader" where
  "abort_all s =
     s\<lparr>ld_pending := abort_tokens (snd ` set (ld_controllers s)) (ld_pending s), ld_controllers := [], ld_inflight := [],
       ld_timer := None\<rparr>"

definition cancel_state :: "loader_store \<Rightarrow> string \<Rightarrow> (string \<times> load_state) list \<Rightarrow> (string \<times> load_state) list" where
  "cancel_state prev key sts =
     (case map_of (states prev) key of
        None \<Rightarrow> sts
      | Some st \<Rightarrow>
          if \<not> st_loading st then sts
          else if page_of prev key \<noteq> [] then AList.update key (st\<lparr>st_loading := False\<rparr>) sts
          else AList.delete key sts)"

definition cancelAll :: "loader \<Rightarrow> loader" where
  "cancelAll s =
     (let keys = map fst (ld_controllers s); s1 = abort_all s
      in if keys = [] then s1
         else s1\<lparr>ld_store := (ld_store s1)\<lparr>states := fold (cancel_state (ld_store s1)) keys (states (ld_store s1))\<rparr>,
                 ld_search := map_option (\<lambda>sl. sl\<lparr>ss_loading := False\<rparr>) (ld_search s1)\<rparr>)"

text \<open>The effect that closes the panel, and the one a new \<^verbatim>\<open>loadKey\<close> runs.\<close>

definition onClose :: "loader \<Rightarrow> loader" where
  "onClose s = (if ld_controllers s = [] then s else cancelAll s)"

definition onLoadKey :: "loader \<Rightarrow> loader" where
  "onLoadKey s =
     (abort_all (s\<lparr>ld_epoch := ld_epoch s + 1\<rparr>))\<lparr>ld_moreLatch := [], ld_attempted := [], ld_known := [],
        ld_store := createStore, ld_search := None\<rparr>"

definition commit :: "loader \<Rightarrow> loader" where
  "commit s = s\<lparr>ld_latest := ld_store s\<rparr>"

section \<open>What the panel reads\<close>

definition searchResults :: "bool \<Rightarrow> string \<Rightarrow> search_slice option \<Rightarrow> cascader_node list option" where
  "searchResults hasSearch trimmed search =
     (if \<not> hasSearch \<or> trimmed = [] then None
      else case search of
             None \<Rightarrow> Some []
           | Some sl \<Rightarrow> if ss_query sl \<noteq> trimmed then Some [] else Some (ss_results sl))"

definition searchState :: "bool \<Rightarrow> string \<Rightarrow> search_slice option \<Rightarrow> load_state option" where
  "searchState hasSearch trimmed search =
     (if \<not> hasSearch \<or> trimmed = [] then None
      else let settled = (map_option ss_query search = Some trimmed)
           in Some \<lparr>st_loading = (\<not> settled \<or> (case search of None \<Rightarrow> False | Some sl \<Rightarrow> ss_loading sl)),
                    st_error = (settled \<and> (case search of None \<Rightarrow> False | Some sl \<Rightarrow> ss_error sl)),
                    st_hasMore = False, st_cursor = None\<rparr>)"

definition loader_start :: loader where
  "loader_start = \<lparr>ld_store = createStore, ld_latest = createStore, ld_search = None, ld_controllers = [],
     ld_requestIds = [], ld_inflight = [], ld_moreLatch = [], ld_attempted = [], ld_known = [], ld_timer = None,
     ld_epoch = 0, ld_pending = [], ld_tokens = 0, ld_errors = []\<rparr>"

end
