(* ===== verification/Cascader_Loader_Inv.thy ===== *)
theory Cascader_Loader_Inv
  imports Cascader_Loader
begin

text \<open>
  The loader as a step relation, whatever the order in which requests are asked for and answered, and
  the invariant of its reachable states: a key has one live request at most, the guards are about that
  request, and a level shows as loading only while it has one.
\<close>

section \<open>Steps\<close>

text \<open>A level's key is the root key or a node's value, which never is one of the two reserved request keys.\<close>

definition level_key :: "string \<Rightarrow> bool" where
  "level_key k \<longleftrightarrow> k \<noteq> SEARCH_KEY \<and> \<not> starts_with k RESOLVE_PREFIX"

inductive loader_step :: "loader \<Rightarrow> loader \<Rightarrow> bool" where
  ensure: "level_key k \<Longrightarrow> loader_step s (ensureLevel p k reason s)"
| more: "level_key k \<Longrightarrow> loader_step s (loadMore p k s)"
| retry: "level_key k \<Longrightarrow> loader_step s (retryLevel p k s)"
| invalidate: "level_key (case v of None \<Rightarrow> CASCADER_ROOT_KEY | Some k \<Rightarrow> k) \<Longrightarrow> loader_step s (invalidateLevel v s)"
| prefetch: "(case node of None \<Rightarrow> True | Some n \<Rightarrow> level_key (cn_value n)) \<Longrightarrow> loader_step s (prefetchNode p node s)"
| fire: "loader_step s (prefetchFire p s)"
| search: "loader_step s (runSearch p query s)"
| cleanup: "loader_step s (searchCleanup s)"
| idle: "loader_step s (searchIdle s)"
| resolve: "loader_step s (resolveValues p values s)"
| response: "r \<in> set (ld_pending s) \<Longrightarrow> loader_step s (respond r resp s)"
| close: "loader_step s (onClose s)"
| load_key: "loader_step s (onLoadKey s)"
| committed: "loader_step s (commit s)"

inductive loader_reachable :: "loader \<Rightarrow> bool" where
  start: "loader_reachable loader_start"
| step: "loader_reachable s \<Longrightarrow> loader_step s s' \<Longrightarrow> loader_reachable s'"

section \<open>The invariant of the requests\<close>

definition live :: "loader \<Rightarrow> request \<Rightarrow> bool" where
  "live s r \<longleftrightarrow> r \<in> set (ld_pending s) \<and> \<not> rq_aborted r \<and> rq_epoch r = ld_epoch s"

fun kind_key :: "string \<Rightarrow> request_kind \<Rightarrow> bool" where
  "kind_key k (LoadLevel a c reason) = level_key k"
| "kind_key k (SearchFor query) = (k = SEARCH_KEY)"
| "kind_key k (ResolveOf value) = (k = RESOLVE_PREFIX @ value)"

fun kind_signature :: "request_kind \<Rightarrow> (bool \<times> string) option" where
  "kind_signature (LoadLevel a c reason) = Some (a, or_empty c)"
| "kind_signature (SearchFor query) = None"
| "kind_signature (ResolveOf value) = None"

fun is_resolve :: "request_kind \<Rightarrow> bool" where
  "is_resolve (ResolveOf value) = True"
| "is_resolve (LoadLevel a c reason) = False"
| "is_resolve (SearchFor query) = False"

definition req_inv :: "loader \<Rightarrow> bool" where
  "req_inv s \<longleftrightarrow>
     inj_on rq_token (set (ld_pending s)) \<and>
     (\<forall>r\<in>set (ld_pending s). rq_token r < ld_tokens s \<and> rq_epoch r \<le> ld_epoch s \<and> kind_key (rq_key r) (rq_kind r)) \<and>
     (\<forall>k tok. map_of (ld_controllers s) k = Some tok \<longrightarrow> (\<exists>r. live s r \<and> rq_token r = tok \<and> rq_key r = k)) \<and>
     (\<forall>r. live s r \<longrightarrow> map_of (ld_controllers s) (rq_key r) = Some (rq_token r) \<and>
        (is_resolve (rq_kind r) \<or> map_of (ld_requestIds s) (rq_key r) = Some (rq_id r))) \<and>
     (\<forall>k sg. map_of (ld_inflight s) k = Some sg \<longrightarrow> (\<exists>r. live s r \<and> rq_key r = k \<and> kind_signature (rq_kind r) = Some sg))"

lemma req_invI:
  assumes "inj_on rq_token (set (ld_pending s))"
    and "\<And>r. r \<in> set (ld_pending s) \<Longrightarrow> rq_token r < ld_tokens s \<and> rq_epoch r \<le> ld_epoch s \<and> kind_key (rq_key r) (rq_kind r)"
    and "\<And>k tok. map_of (ld_controllers s) k = Some tok \<Longrightarrow> \<exists>r. live s r \<and> rq_token r = tok \<and> rq_key r = k"
    and "\<And>r. live s r \<Longrightarrow> map_of (ld_controllers s) (rq_key r) = Some (rq_token r)"
    and "\<And>r. live s r \<Longrightarrow> is_resolve (rq_kind r) \<or> map_of (ld_requestIds s) (rq_key r) = Some (rq_id r)"
    and "\<And>k sg. map_of (ld_inflight s) k = Some sg \<Longrightarrow> \<exists>r. live s r \<and> rq_key r = k \<and> kind_signature (rq_kind r) = Some sg"
  shows "req_inv s"
  using assms unfolding req_inv_def by simp

lemma req_invD:
  assumes "req_inv s"
  shows "inj_on rq_token (set (ld_pending s))"
    and "r \<in> set (ld_pending s) \<Longrightarrow> rq_token r < ld_tokens s \<and> rq_epoch r \<le> ld_epoch s \<and> kind_key (rq_key r) (rq_kind r)"
    and "map_of (ld_controllers s) k = Some tok \<Longrightarrow> \<exists>r. live s r \<and> rq_token r = tok \<and> rq_key r = k"
    and "live s r \<Longrightarrow> map_of (ld_controllers s) (rq_key r) = Some (rq_token r)"
    and "live s r \<Longrightarrow> is_resolve (rq_kind r) \<or> map_of (ld_requestIds s) (rq_key r) = Some (rq_id r)"
    and "map_of (ld_inflight s) k = Some sg \<Longrightarrow> \<exists>r. live s r \<and> rq_key r = k \<and> kind_signature (rq_kind r) = Some sg"
  using assms unfolding req_inv_def by blast+

lemma live_update [simp]:
  "live (s\<lparr>ld_store := st\<rparr>) = live s" "live (s\<lparr>ld_latest := st\<rparr>) = live s" "live (s\<lparr>ld_search := sl\<rparr>) = live s"
  "live (s\<lparr>ld_moreLatch := ml\<rparr>) = live s" "live (s\<lparr>ld_attempted := tried\<rparr>) = live s" "live (s\<lparr>ld_known := kn\<rparr>) = live s"
  "live (s\<lparr>ld_timer := tm\<rparr>) = live s" "live (s\<lparr>ld_errors := er\<rparr>) = live s" "live (s\<lparr>ld_inflight := fl\<rparr>) = live s"
  "live (s\<lparr>ld_requestIds := ids\<rparr>) = live s" "live (s\<lparr>ld_controllers := ct\<rparr>) = live s"
  by (simp_all add: live_def fun_eq_iff)

lemma req_inv_update [simp]:
  "req_inv (s\<lparr>ld_store := st\<rparr>) = req_inv s" "req_inv (s\<lparr>ld_latest := st\<rparr>) = req_inv s"
  "req_inv (s\<lparr>ld_search := sl\<rparr>) = req_inv s" "req_inv (s\<lparr>ld_moreLatch := ml\<rparr>) = req_inv s"
  "req_inv (s\<lparr>ld_attempted := tried\<rparr>) = req_inv s" "req_inv (s\<lparr>ld_known := kn\<rparr>) = req_inv s"
  "req_inv (s\<lparr>ld_timer := tm\<rparr>) = req_inv s" "req_inv (s\<lparr>ld_errors := er\<rparr>) = req_inv s"
  by (simp_all add: req_inv_def)

lemma live_unique: "req_inv s \<Longrightarrow> live s r \<Longrightarrow> live s r' \<Longrightarrow> rq_key r = rq_key r' \<Longrightarrow> r = r'"
  unfolding req_inv_def by (metis inj_onD live_def option.inject)

lemma controllers_live: "req_inv s \<Longrightarrow> map_of (ld_controllers s) k \<noteq> None \<longleftrightarrow> (\<exists>r. live s r \<and> rq_key r = k)"
  unfolding req_inv_def by (metis not_None_eq option.distinct(1))

lemma in_abort_tokens:
  "r \<in> set (abort_tokens T rs) \<and> \<not> rq_aborted r \<longleftrightarrow> r \<in> set rs \<and> \<not> rq_aborted r \<and> rq_token r \<notin> T"
  by (force simp: abort_tokens_def)

lemma abort_tokens_inj: "inj_on rq_token (set rs) \<Longrightarrow> inj_on rq_token (set (abort_tokens T rs))"
proof (rule inj_onI)
  fix x y
  assume inj: "inj_on rq_token (set rs)" and "x \<in> set (abort_tokens T rs)" "y \<in> set (abort_tokens T rs)" "rq_token x = rq_token y"
  then obtain r q where "r \<in> set rs" "q \<in> set rs" and xy: "x = (if rq_token r \<in> T then r\<lparr>rq_aborted := True\<rparr> else r)"
    "y = (if rq_token q \<in> T then q\<lparr>rq_aborted := True\<rparr> else q)" by (auto simp: abort_tokens_def)
  moreover from this \<open>rq_token x = rq_token y\<close> have "rq_token r = rq_token q" by (simp split: if_splits)
  ultimately have "r = q" using inj by (simp add: inj_on_def)
  with xy show "x = y" by simp
qed

lemma abort_tokens_kept:
  "(\<forall>r\<in>set rs. rq_token r < n \<and> rq_epoch r \<le> e \<and> kind_key (rq_key r) (rq_kind r)) \<Longrightarrow>
   (\<forall>r\<in>set (abort_tokens T rs). rq_token r < n \<and> rq_epoch r \<le> e \<and> kind_key (rq_key r) (rq_kind r))"
  by (auto simp: abort_tokens_def)

lemma live_abortKey:
  assumes "req_inv s"
  shows "live (abortKey k s) r \<longleftrightarrow> live s r \<and> rq_key r \<noteq> k"
proof (cases "map_of (ld_controllers s) k")
  case None
  with controllers_live [OF assms, of k] show ?thesis by (auto simp: abortKey_def)
next
  case (Some tok)
  then obtain q where q: "live s q" "rq_token q = tok" "rq_key q = k" using assms unfolding req_inv_def by blast
  have "live (abortKey k s) r \<longleftrightarrow> live s r \<and> rq_token r \<noteq> tok"
    using in_abort_tokens [of r "{tok}" "ld_pending s"] Some by (auto simp: abortKey_def live_def)
  moreover have "rq_token r = tok \<longleftrightarrow> rq_key r = k" if r: "live s r"
  proof
    assume "rq_token r = tok"
    moreover have "inj_on rq_token (set (ld_pending s))" using assms by (simp add: req_inv_def)
    ultimately have "r = q" using q r by (simp add: inj_on_def live_def)
    with q show "rq_key r = k" by simp
  qed (use live_unique [OF assms r q(1)] q in auto)
  ultimately show ?thesis by blast
qed

lemma req_inv_abortKey:
  assumes "req_inv s"
  shows "req_inv (abortKey k s)"
proof (cases "map_of (ld_controllers s) k")
  case (Some tok)
  note live = live_abortKey [OF assms, of k]
  have "ld_pending (abortKey k s) = abort_tokens {tok} (ld_pending s)" "ld_tokens (abortKey k s) = ld_tokens s"
    "ld_epoch (abortKey k s) = ld_epoch s" "ld_requestIds (abortKey k s) = ld_requestIds s"
    "ld_controllers (abortKey k s) = AList.delete k (ld_controllers s)"
    "ld_inflight (abortKey k s) = AList.delete k (ld_inflight s)"
    using Some by (simp_all add: abortKey_def)
  note fields = this
  show ?thesis
  proof (rule req_invI, unfold live fields)
    show "inj_on rq_token (set (abort_tokens {tok} (ld_pending s)))" using req_invD(1) [OF assms] by (rule abort_tokens_inj)
  next
    fix r assume "r \<in> set (abort_tokens {tok} (ld_pending s))"
    then show "rq_token r < ld_tokens s \<and> rq_epoch r \<le> ld_epoch s \<and> kind_key (rq_key r) (rq_kind r)"
      using abort_tokens_kept [of "ld_pending s" "ld_tokens s" "ld_epoch s" "{tok}"] req_invD(2) [OF assms] by blast
  next
    fix j t assume "map_of (AList.delete k (ld_controllers s)) j = Some t"
    then show "\<exists>r. (live s r \<and> rq_key r \<noteq> k) \<and> rq_token r = t \<and> rq_key r = j"
      using req_invD(3) [OF assms, of j t] by (auto simp: delete_conv' split: if_splits)
  next
    fix j sg assume "map_of (AList.delete k (ld_inflight s)) j = Some sg"
    then show "\<exists>r. (live s r \<and> rq_key r \<noteq> k) \<and> rq_key r = j \<and> kind_signature (rq_kind r) = Some sg"
      using req_invD(6) [OF assms, of j sg] by (auto simp: delete_conv' split: if_splits)
  qed (use req_invD(4,5) [OF assms] in \<open>auto simp: delete_conv'\<close>)
qed (use assms in \<open>simp add: abortKey_def\<close>)

lemma live_issue:
  "live ((issue k kind i s)\<lparr>ld_requestIds := ids, ld_inflight := fl\<rparr>) r \<longleftrightarrow>
   live s r \<or> r = \<lparr>rq_token = ld_tokens s, rq_key = k, rq_kind = kind, rq_id = i, rq_epoch = ld_epoch s, rq_aborted = False\<rparr>"
  by (auto simp: issue_def live_def)

text \<open>A request is issued where its key has no live one.\<close>

lemma req_inv_issue:
  assumes "req_inv s" "\<And>r. live s r \<Longrightarrow> rq_key r \<noteq> k" "kind_key k kind"
    and ids: "\<And>j. j \<noteq> k \<Longrightarrow> map_of ids j = map_of (ld_requestIds s) j" "is_resolve kind \<or> map_of ids k = Some i"
    and fl: "\<And>j. j \<noteq> k \<Longrightarrow> map_of fl j = map_of (ld_inflight s) j" "map_of fl k = kind_signature kind"
  shows "req_inv ((issue k kind i s)\<lparr>ld_requestIds := ids, ld_inflight := fl\<rparr>)"
proof (rule req_invI, unfold live_issue)
  let ?s = "(issue k kind i s)\<lparr>ld_requestIds := ids, ld_inflight := fl\<rparr>"
  let ?q = "\<lparr>rq_token = ld_tokens s, rq_key = k, rq_kind = kind, rq_id = i, rq_epoch = ld_epoch s, rq_aborted = False\<rparr>"
  have pending: "set (ld_pending ?s) = insert ?q (set (ld_pending s))" by (simp add: issue_def)
  have less: "rq_token r < ld_tokens s" if "r \<in> set (ld_pending s)" for r using req_invD(2) [OF assms(1)] that by blast
  show "inj_on rq_token (set (ld_pending ?s))"
    unfolding pending inj_on_insert using req_invD(1) [OF assms(1)] less by fastforce
  show "rq_token r < ld_tokens ?s \<and> rq_epoch r \<le> ld_epoch ?s \<and> kind_key (rq_key r) (rq_kind r)"
    if "r \<in> set (ld_pending ?s)" for r
    using that less [of r] req_invD(2) [OF assms(1), of r] assms(3) unfolding pending by (auto simp: issue_def)
  show "\<exists>r. (live s r \<or> r = ?q) \<and> rq_token r = tok \<and> rq_key r = j" if "map_of (ld_controllers ?s) j = Some tok" for j tok
  proof (cases "j = k")
    case True
    with that have "tok = ld_tokens s" by (simp add: issue_def update_conv')
    with True show ?thesis by force
  next
    case False
    with that req_invD(3) [OF assms(1), of j tok] show ?thesis by (auto simp: issue_def update_conv')
  qed
  show "map_of (ld_controllers ?s) (rq_key r) = Some (rq_token r)" if "live s r \<or> r = ?q" for r
    using that req_invD(4) [OF assms(1), of r] assms(2) [of r] by (auto simp: issue_def update_conv')
  show "is_resolve (rq_kind r) \<or> map_of (ld_requestIds ?s) (rq_key r) = Some (rq_id r)" if "live s r \<or> r = ?q" for r
    using that req_invD(5) [OF assms(1), of r] assms(2) [of r] ids by (auto simp: issue_def)
  show "\<exists>r. (live s r \<or> r = ?q) \<and> rq_key r = j \<and> kind_signature (rq_kind r) = Some sg"
    if "map_of (ld_inflight ?s) j = Some sg" for j sg
  proof (cases "j = k")
    case True
    with that fl(2) have "kind_signature kind = Some sg" by simp
    with True show ?thesis by force
  next
    case False
    with that fl(1) req_invD(6) [OF assms(1), of j sg] show ?thesis by auto
  qed
qed

text \<open>A settled request leaves; every other live request stays with its guards.\<close>

lemma live_settle:
  "live (settle_controller r s) q \<longleftrightarrow> live s q \<and> rq_token q \<noteq> rq_token r"
  "live (settle_inflight r sg (settle_controller r s)) q \<longleftrightarrow> live s q \<and> rq_token q \<noteq> rq_token r"
  by (auto simp: settle_controller_def settle_inflight_def live_def)

lemma settle_controller_fields [simp]:
  "ld_tokens (settle_controller r s) = ld_tokens s" "ld_epoch (settle_controller r s) = ld_epoch s"
  "ld_requestIds (settle_controller r s) = ld_requestIds s" "ld_inflight (settle_controller r s) = ld_inflight s"
  "ld_store (settle_controller r s) = ld_store s" "ld_timer (settle_controller r s) = ld_timer s"
  "ld_tokens (settle_inflight r sg s) = ld_tokens s" "ld_epoch (settle_inflight r sg s) = ld_epoch s"
  "ld_requestIds (settle_inflight r sg s) = ld_requestIds s" "ld_controllers (settle_inflight r sg s) = ld_controllers s"
  "ld_pending (settle_inflight r sg s) = ld_pending s" "ld_store (settle_inflight r sg s) = ld_store s"
  "ld_timer (settle_inflight r sg s) = ld_timer s" "ld_known (settle_inflight r sg s) = ld_known s"
  by (simp_all add: settle_controller_def settle_inflight_def)

lemma settle_controllers:
  assumes "req_inv s" "r \<in> set (ld_pending s)"
  shows "map_of (ld_controllers (settle_controller r s)) k =
    (if \<exists>q. live s q \<and> rq_key q = k \<and> rq_token q \<noteq> rq_token r then map_of (ld_controllers s) k else None)"
proof (cases "\<exists>q. live s q \<and> rq_key q = k")
  case True
  then obtain q where q: "live s q" "rq_key q = k" by blast
  then have ctl: "map_of (ld_controllers s) k = Some (rq_token q)" using req_invD(4) [OF assms(1)] by blast
  have only: "q' = q" if "live s q'" "rq_key q' = k" for q' using live_unique [OF assms(1)] q that by metis
  show ?thesis
  proof (cases "rq_token q = rq_token r")
    case True
    then have "q = r" using req_invD(1) [OF assms(1)] assms(2) q by (simp add: inj_on_def live_def)
    then have "map_of (ld_controllers (settle_controller r s)) k = None"
      using ctl q by (simp add: settle_controller_def delete_conv')
    moreover have "\<not> (\<exists>q'. live s q' \<and> rq_key q' = k \<and> rq_token q' \<noteq> rq_token r)" using only True by blast
    ultimately show ?thesis by auto
  next
    case False
    then have "map_of (ld_controllers (settle_controller r s)) k = map_of (ld_controllers s) k"
      using ctl by (auto simp: settle_controller_def delete_conv')
    with False q show ?thesis by auto
  qed
next
  case False
  then have "map_of (ld_controllers s) k = None" using controllers_live [OF assms(1), of k] by blast
  then show ?thesis using False by (auto simp: settle_controller_def delete_conv')
qed

lemma req_inv_settle_core:
  assumes inv: "req_inv s" and r: "r \<in> set (ld_pending s)"
    and s': "ld_pending s' = filter (\<lambda>q. rq_token q \<noteq> rq_token r) (ld_pending s)" "ld_tokens s' = ld_tokens s"
      "ld_epoch s' = ld_epoch s" "ld_requestIds s' = ld_requestIds s" "ld_controllers s' = ld_controllers (settle_controller r s)"
    and fl: "\<And>k sg. map_of (ld_inflight s') k = Some sg \<Longrightarrow> \<exists>q. live s' q \<and> rq_key q = k \<and> kind_signature (rq_kind q) = Some sg"
  shows "req_inv s'"
proof (rule req_invI)
  have live: "live s' q \<longleftrightarrow> live s q \<and> rq_token q \<noteq> rq_token r" for q using s' by (auto simp: live_def)
  show "inj_on rq_token (set (ld_pending s'))" using req_invD(1) [OF inv] by (auto simp: s' inj_on_def)
  show "rq_token q < ld_tokens s' \<and> rq_epoch q \<le> ld_epoch s' \<and> kind_key (rq_key q) (rq_kind q)" if "q \<in> set (ld_pending s')" for q
    using that req_invD(2) [OF inv, of q] by (simp add: s')
  show "\<exists>q. live s' q \<and> rq_token q = tok \<and> rq_key q = k" if "map_of (ld_controllers s') k = Some tok" for k tok
  proof -
    from that obtain q where "live s q" "rq_key q = k" "rq_token q \<noteq> rq_token r" "map_of (ld_controllers s) k = Some tok"
      unfolding s' settle_controllers [OF inv r] by (auto split: if_splits)
    with req_invD(4) [OF inv, of q] show ?thesis unfolding live by auto
  qed
  show "map_of (ld_controllers s') (rq_key q) = Some (rq_token q)" if "live s' q" for q
    using that req_invD(4) [OF inv, of q] unfolding live s' settle_controllers [OF inv r] by auto
  show "is_resolve (rq_kind q) \<or> map_of (ld_requestIds s') (rq_key q) = Some (rq_id q)" if "live s' q" for q
    using that req_invD(5) [OF inv, of q] unfolding live s' by auto
qed (rule fl)

lemma req_inv_settle_controller:
  assumes inv: "req_inv s" and r: "r \<in> set (ld_pending s)" and kind: "kind_signature (rq_kind r) = None"
  shows "req_inv (settle_controller r s)"
proof (rule req_inv_settle_core [OF inv r])
  fix k sg assume "map_of (ld_inflight (settle_controller r s)) k = Some sg"
  then obtain q where q: "live s q" "rq_key q = k" "kind_signature (rq_kind q) = Some sg"
    using req_invD(6) [OF inv, of k sg] by auto
  have "rq_token q \<noteq> rq_token r"
  proof
    assume "rq_token q = rq_token r"
    then have "q = r" using req_invD(1) [OF inv] q(1) r by (simp add: inj_on_def live_def)
    with q kind show False by simp
  qed
  with q show "\<exists>q. live (settle_controller r s) q \<and> rq_key q = k \<and> kind_signature (rq_kind q) = Some sg"
    unfolding live_settle by blast
qed (simp_all add: settle_controller_def)

lemma req_inv_settle:
  assumes inv: "req_inv s" and r: "r \<in> set (ld_pending s)" and kind: "kind_signature (rq_kind r) = Some sg"
  shows "req_inv (settle_inflight r sg (settle_controller r s))"
proof (rule req_inv_settle_core [OF inv r])
  fix k sg' assume fl: "map_of (ld_inflight (settle_inflight r sg (settle_controller r s))) k = Some sg'"
  then have old: "map_of (ld_inflight s) k = Some sg'" by (auto simp: settle_inflight_def delete_conv' split: if_splits)
  then obtain q where q: "live s q" "rq_key q = k" "kind_signature (rq_kind q) = Some sg'"
    using req_invD(6) [OF inv, of k sg'] by auto
  have "rq_token q \<noteq> rq_token r"
  proof
    assume "rq_token q = rq_token r"
    then have "q = r" using req_invD(1) [OF inv] q(1) r by (simp add: inj_on_def live_def)
    with q kind old fl show False by (auto simp: settle_inflight_def delete_conv')
  qed
  with q show "\<exists>q. live (settle_inflight r sg (settle_controller r s)) q \<and> rq_key q = k \<and> kind_signature (rq_kind q) = Some sg'"
    unfolding live_settle by blast
qed (simp_all, simp_all add: settle_controller_def)

lemma abort_all_fields [simp]:
  "ld_store (abort_all s) = ld_store s" "ld_controllers (abort_all s) = []" "ld_timer (abort_all s) = None"
  "ld_epoch (abort_all s) = ld_epoch s"
  by (simp_all add: abort_all_def)

text \<open>Aborting every controller leaves nothing live, and so does a new epoch.\<close>

lemma req_inv_abort_all:
  assumes inv: "req_inv s" and e: "e = ld_epoch s \<or> e = ld_epoch s + 1"
  shows "req_inv (abort_all (s\<lparr>ld_epoch := e\<rparr>)) \<and> \<not> live (abort_all (s\<lparr>ld_epoch := e\<rparr>)) r"
proof
  let ?s = "abort_all (s\<lparr>ld_epoch := e\<rparr>)"
  have none: "\<not> live ?s q" for q
  proof
    assume "live ?s q"
    then have q: "q \<in> set (abort_tokens (snd ` set (ld_controllers s)) (ld_pending s)) \<and> \<not> rq_aborted q" "rq_epoch q = e"
      by (auto simp: live_def abort_all_def)
    then have "q \<in> set (ld_pending s)" "\<not> rq_aborted q" "rq_token q \<notin> snd ` set (ld_controllers s)"
      unfolding in_abort_tokens by blast+
    moreover from this req_invD(2) [OF inv] q(2) e have "rq_epoch q = ld_epoch s" by fastforce
    ultimately have "live s q" "rq_token q \<notin> snd ` set (ld_controllers s)" by (simp_all add: live_def)
    with req_invD(4) [OF inv, of q] show False by (force dest: map_of_SomeD)
  qed
  show "\<not> live ?s r" by (rule none)
  show "req_inv ?s"
  proof (rule req_invI)
    show "inj_on rq_token (set (ld_pending ?s))" using abort_tokens_inj [OF req_invD(1) [OF inv]] by (simp add: abort_all_def)
    show "rq_token q < ld_tokens ?s \<and> rq_epoch q \<le> ld_epoch ?s \<and> kind_key (rq_key q) (rq_kind q)" if "q \<in> set (ld_pending ?s)" for q
    proof -
      have "\<forall>q\<in>set (ld_pending s). rq_token q < ld_tokens s \<and> rq_epoch q \<le> e \<and> kind_key (rq_key q) (rq_kind q)"
        using req_invD(2) [OF inv] e by fastforce
      from abort_tokens_kept [OF this] that show ?thesis by (simp add: abort_all_def)
    qed
  qed (use none in \<open>simp_all add: abort_all_def\<close>)
qed

section \<open>The invariant of the store\<close>

definition loading :: "loader_store \<Rightarrow> string \<Rightarrow> bool" where
  "loading st k \<longleftrightarrow> (\<exists>x. map_of (states st) k = Some x \<and> st_loading x)"

lemma loading_code [code]: "loading st k = (case map_of (states st) k of None \<Rightarrow> False | Some x \<Rightarrow> st_loading x)"
  by (simp add: loading_def split: option.split)

definition pages_ok :: "loader_store \<Rightarrow> bool" where
  "pages_ok st \<longleftrightarrow> (\<forall>k. distinct (map cn_value (page_of st k)))"

definition store_inv :: "loader \<Rightarrow> bool" where
  "store_inv s \<longleftrightarrow>
     (\<forall>k. loading (ld_store s) k \<longrightarrow> level_key k \<and> (\<exists>r. live s r \<and> rq_key r = k)) \<and>
     pages_ok (ld_store s) \<and> (\<forall>v. ld_timer s = Some v \<longrightarrow> level_key v)"

lemma store_invI:
  assumes "\<And>k. loading (ld_store s) k \<Longrightarrow> level_key k \<and> (\<exists>r. live s r \<and> rq_key r = k)" "pages_ok (ld_store s)"
    "\<And>v. ld_timer s = Some v \<Longrightarrow> level_key v"
  shows "store_inv s"
  using assms by (simp add: store_inv_def)

lemma store_invD:
  assumes "store_inv s"
  shows "loading (ld_store s) k \<Longrightarrow> level_key k" "loading (ld_store s) k \<Longrightarrow> \<exists>r. live s r \<and> rq_key r = k"
    "pages_ok (ld_store s)" "ld_timer s = Some v \<Longrightarrow> level_key v"
  using assms by (simp_all add: store_inv_def)

lemma loading_withLoadState [simp]:
  "loading (withLoadState key upd st) k \<longleftrightarrow>
   (if k = key then st_loading (upd (case map_of (states st) key of None \<Rightarrow> NO_STATE | Some x \<Rightarrow> x)) else loading st k)"
  by (auto simp: withLoadState_def loading_def Let_def update_conv' split: option.splits)

lemma page_of_withLoadState [simp]: "page_of (withLoadState key upd st) k = page_of st k"
  by (simp add: withLoadState_def page_of_def Let_def)

lemma loading_withPage [simp]: "loading (withPage key items appending hm cursor st) k \<longleftrightarrow> k \<noteq> key \<and> loading st k"
  by (auto simp: withPage_def loading_def Let_def update_conv')

lemma merge_page_distinct:
  "distinct (map cn_value (merge_page seen ns)) \<and> set (map cn_value (merge_page seen ns)) \<inter> set seen = {}"
  by (induction seen ns rule: merge_page.induct) auto

lemma page_of_withPage:
  "page_of (withPage key items appending hm cursor st) k =
   (if k = key then (if appending then page_of st key else []) @
      merge_page (map cn_value (if appending then page_of st key else [])) items else page_of st k)"
  by (simp add: withPage_def page_of_def Let_def update_conv')

lemma pages_withPage:
  assumes "pages_ok st"
  shows "pages_ok (withPage key items appending hm cursor st)"
proof -
  let ?prev = "if appending then page_of st key else []"
  have "distinct (map cn_value ?prev)" using assms by (simp add: pages_ok_def)
  moreover note merge_page_distinct [of "map cn_value ?prev" items]
  ultimately have "distinct (map cn_value (?prev @ merge_page (map cn_value ?prev) items))"
    unfolding map_append distinct_append by (simp only: Int_commute)
  then show ?thesis
    using assms by (cases appending) (simp_all add: pages_ok_def page_of_withPage del: map_append distinct_append)
qed

lemma withDetached_same [simp]:
  "loading (withDetached items st) k = loading st k" "pages_ok (withDetached items st) = pages_ok st"
  by (simp_all add: withDetached_def loading_def pages_ok_def page_of_def)

definition buckets_ok :: "(string \<times> cascader_node list) list \<Rightarrow> bool" where
  "buckets_ok pgs \<longleftrightarrow> (\<forall>k b. map_of pgs k = Some b \<longrightarrow> distinct (map cn_value b))"

lemma pages_ok_buckets: "pages_ok st \<longleftrightarrow> buckets_ok (pages st)"
  by (auto simp: pages_ok_def buckets_ok_def page_of_def split: option.splits)

lemma chain_pages_ok: "buckets_ok pgs \<Longrightarrow> buckets_ok (chain_pages key chain pgs)"
proof (induction key chain pgs rule: chain_pages.induct)
  case (2 key n ns pgs)
  show ?case
  proof (cases "map_of pgs key")
    case None
    then have "buckets_ok (AList.update key [n] pgs)" using "2.prems" by (simp add: buckets_ok_def update_conv')
    with 2 None show ?thesis by simp
  next
    case (Some b)
    then have "distinct (map cn_value b)" using "2.prems" by (simp add: buckets_ok_def)
    then have "\<not> list_ex (\<lambda>x. cn_value x = cn_value n) b \<Longrightarrow> buckets_ok (AList.update key (b @ [n]) pgs)"
      using "2.prems" by (auto simp: buckets_ok_def update_conv' list_ex_iff)
    with 2 Some show ?thesis by (cases "list_ex (\<lambda>x. cn_value x = cn_value n) b") simp_all
  qed
qed simp

lemma withChain_same [simp]: "loading (withChain chain st) k = loading st k"
  by (simp add: withChain_def loading_def)

lemma pages_withChain: "pages_ok st \<Longrightarrow> pages_ok (withChain chain st)"
  by (simp add: withChain_def pages_ok_buckets chain_pages_ok)

section \<open>Preservation\<close>

definition loader_inv :: "loader \<Rightarrow> bool" where
  "loader_inv s \<longleftrightarrow> req_inv s \<and> store_inv s"

lemma abortKey_fields [simp]:
  "ld_store (abortKey k s) = ld_store s" "ld_timer (abortKey k s) = ld_timer s" "ld_requestIds (abortKey k s) = ld_requestIds s"
  "ld_latest (abortKey k s) = ld_latest s"
  by (simp_all add: abortKey_def split: option.split)

lemma issue_fields [simp]:
  "ld_store (issue k kind i s) = ld_store s" "ld_timer (issue k kind i s) = ld_timer s"
  "ld_requestIds (issue k kind i s) = ld_requestIds s" "ld_inflight (issue k kind i s) = ld_inflight s"
  by (simp_all add: issue_def)

lemma abortKey_inflight:
  assumes "req_inv s"
  shows "map_of (ld_inflight (abortKey k s)) k = None" "j \<noteq> k \<Longrightarrow> map_of (ld_inflight (abortKey k s)) j = map_of (ld_inflight s) j"
proof -
  have "map_of (ld_inflight s) k = None" if "map_of (ld_controllers s) k = None"
    using that req_invD(6) [OF assms, of k] controllers_live [OF assms, of k] by (cases "map_of (ld_inflight s) k") auto
  then show "map_of (ld_inflight (abortKey k s)) k = None" by (auto simp: abortKey_def delete_conv' split: option.split)
qed (auto simp: abortKey_def delete_conv' split: option.split)

text \<open>A fresh request for a key after the old one was aborted: what is live, and that the guards hold.\<close>

lemma reissue:
  assumes "req_inv s" "kind_key k kind" "is_resolve kind \<or> map_of ids k = Some i"
    and "\<And>j. j \<noteq> k \<Longrightarrow> map_of ids j = map_of (ld_requestIds s) j"
    and "\<And>j. j \<noteq> k \<Longrightarrow> map_of fl j = map_of (ld_inflight (abortKey k s)) j" "map_of fl k = kind_signature kind"
  shows "req_inv ((issue k kind i (abortKey k s))\<lparr>ld_requestIds := ids, ld_inflight := fl\<rparr>)"
    and "\<exists>q. rq_key q = k \<and> (\<forall>r. live ((issue k kind i (abortKey k s))\<lparr>ld_requestIds := ids, ld_inflight := fl\<rparr>) r \<longleftrightarrow>
      live s r \<and> rq_key r \<noteq> k \<or> r = q)"
proof -
  show "req_inv ((issue k kind i (abortKey k s))\<lparr>ld_requestIds := ids, ld_inflight := fl\<rparr>)"
    using assms live_abortKey [OF assms(1), of k] by (intro req_inv_issue req_inv_abortKey) auto
  show "\<exists>q. rq_key q = k \<and> (\<forall>r. live ((issue k kind i (abortKey k s))\<lparr>ld_requestIds := ids, ld_inflight := fl\<rparr>) r \<longleftrightarrow>
      live s r \<and> rq_key r \<noteq> k \<or> r = q)"
    unfolding live_issue live_abortKey [OF assms(1)]
    by (rule exI [of _ "\<lparr>rq_token = ld_tokens (abortKey k s), rq_key = k, rq_kind = kind, rq_id = i,
        rq_epoch = ld_epoch (abortKey k s), rq_aborted = False\<rparr>"]) simp
qed

lemma runLoad_inv:
  assumes "loader_inv s" "level_key k"
  shows "loader_inv (runLoad p k reason cursor appending s)"
proof (cases "lp_getChildren p \<and> map_of (ld_inflight s) k \<noteq> Some (appending, or_empty cursor)")
  case True
  have inv: "req_inv s" "store_inv s" using assms(1) by (simp_all add: loader_inv_def)
  define i where "i = next_id (abortKey k s) k"
  define ids where "ids = AList.update k i (ld_requestIds s)"
  define fl where "fl = AList.update k (appending, or_empty cursor) (ld_inflight (abortKey k s))"
  define s2 where "s2 = (issue k (LoadLevel appending cursor reason) i (abortKey k s))\<lparr>ld_requestIds := ids, ld_inflight := fl\<rparr>"
  have eq: "runLoad p k reason cursor appending s =
      s2\<lparr>ld_store := withLoadState k (\<lambda>st. st\<lparr>st_loading := True, st_error := False\<rparr>) (ld_store s)\<rparr>"
    using True by (simp add: runLoad_def Let_def s2_def i_def ids_def fl_def)
  have side: "kind_key k (LoadLevel appending cursor reason)" "is_resolve (LoadLevel appending cursor reason) \<or> map_of ids k = Some i"
    "\<And>j. j \<noteq> k \<Longrightarrow> map_of ids j = map_of (ld_requestIds s) j"
    "\<And>j. j \<noteq> k \<Longrightarrow> map_of fl j = map_of (ld_inflight (abortKey k s)) j"
    "map_of fl k = kind_signature (LoadLevel appending cursor reason)"
    using assms(2) by (simp_all add: ids_def fl_def update_conv')
  note re = reissue [OF inv(1) side, folded s2_def]
  obtain q where q: "rq_key q = k" "\<And>r. live s2 r \<longleftrightarrow> live s r \<and> rq_key r \<noteq> k \<or> r = q" using re(2) by blast
  have "ld_timer s2 = ld_timer s" by (simp add: s2_def)
  then have "store_inv (runLoad p k reason cursor appending s)"
    unfolding eq using store_invD [OF inv(2)] assms(2) q
    by (intro store_invI) (auto simp: pages_ok_def split: if_splits)
  with re(1) show ?thesis unfolding loader_inv_def eq by simp
qed (use assms(1) in \<open>auto simp: runLoad_def\<close>)

lemma loader_inv_update [simp]:
  "loader_inv (s\<lparr>ld_moreLatch := ml\<rparr>) = loader_inv s" "loader_inv (s\<lparr>ld_attempted := tried\<rparr>) = loader_inv s"
  "loader_inv (s\<lparr>ld_known := kn\<rparr>) = loader_inv s" "loader_inv (s\<lparr>ld_search := sl\<rparr>) = loader_inv s"
  "loader_inv (s\<lparr>ld_errors := er\<rparr>) = loader_inv s" "loader_inv (s\<lparr>ld_latest := lt\<rparr>) = loader_inv s"
  by (simp_all add: loader_inv_def store_inv_def)

lemma ensureLevel_inv: "loader_inv s \<Longrightarrow> level_key k \<Longrightarrow> loader_inv (ensureLevel p k reason s)"
  by (simp add: ensureLevel_def runLoad_inv)

lemma loadMore_inv: "loader_inv s \<Longrightarrow> level_key k \<Longrightarrow> loader_inv (loadMore p k s)"
  by (simp add: loadMore_def Let_def runLoad_inv split: option.split)

lemma retryLevel_inv: "loader_inv s \<Longrightarrow> level_key k \<Longrightarrow> loader_inv (retryLevel p k s)"
  by (simp add: retryLevel_def Let_def runLoad_inv split: option.split)

lemma abortKey_store_inv:
  assumes "loader_inv s" "\<not> level_key k"
  shows "loader_inv (abortKey k s)"
proof -
  have inv: "req_inv s" "store_inv s" using assms(1) by (simp_all add: loader_inv_def)
  have "store_inv (abortKey k s)"
  proof (rule store_invI, unfold live_abortKey [OF inv(1)])
    fix j assume "loading (ld_store (abortKey k s)) j"
    then have "level_key j" "\<exists>r. live s r \<and> rq_key r = j" using store_invD(1,2) [OF inv(2), of j] by auto
    with assms(2) show "level_key j \<and> (\<exists>r. (live s r \<and> rq_key r \<noteq> k) \<and> rq_key r = j)" by auto
  qed (use store_invD(3,4) [OF inv(2)] in auto)
  with req_inv_abortKey [OF inv(1)] show ?thesis by (simp add: loader_inv_def)
qed

lemma not_level_keys [simp]: "\<not> level_key SEARCH_KEY" "\<not> level_key (RESOLVE_PREFIX @ v)"
  by (simp_all add: level_key_def)

lemma reissue_inv:
  assumes "loader_inv s" "\<not> level_key k" "kind_key k kind" "kind_signature kind = None"
    and "is_resolve kind \<or> map_of ids k = Some i" "\<And>j. j \<noteq> k \<Longrightarrow> map_of ids j = map_of (ld_requestIds s) j"
  shows "loader_inv ((issue k kind i (abortKey k s))\<lparr>ld_requestIds := ids\<rparr>)"
proof -
  have inv: "req_inv s" "store_inv s" using assms(1) by (simp_all add: loader_inv_def)
  let ?s = "(issue k kind i (abortKey k s))\<lparr>ld_requestIds := ids, ld_inflight := ld_inflight (abortKey k s)\<rparr>"
  have same: "(issue k kind i (abortKey k s))\<lparr>ld_requestIds := ids\<rparr> = ?s" by (simp add: issue_def)
  have sig: "map_of (ld_inflight (abortKey k s)) k = kind_signature kind"
    using abortKey_inflight(1) [OF inv(1)] assms(4) by simp
  have re: "req_inv ?s" "\<exists>q. rq_key q = k \<and> (\<forall>r. live ?s r \<longleftrightarrow> live s r \<and> rq_key r \<noteq> k \<or> r = q)"
    by (rule reissue; use assms inv sig in simp)+
  have "store_inv ?s"
  proof (rule store_invI)
    fix j assume "loading (ld_store ?s) j"
    then have "level_key j" and "\<exists>r. live s r \<and> rq_key r = j" using store_invD(1,2) [OF inv(2), of j] by auto
    moreover from this assms(2) have "j \<noteq> k" by auto
    ultimately show "level_key j \<and> (\<exists>r. live ?s r \<and> rq_key r = j)" using re(2) by blast
  qed (use store_invD(3,4) [OF inv(2)] in auto)
  with re(1) have "loader_inv ?s" by (simp add: loader_inv_def)
  then show ?thesis by (simp only: same [symmetric])
qed

lemma runSearch_inv:
  assumes "loader_inv s"
  shows "loader_inv (runSearch p query s)"
proof -
  have "loader_inv ((issue SEARCH_KEY (SearchFor query) (next_id (abortKey SEARCH_KEY s) SEARCH_KEY) (abortKey SEARCH_KEY s))
      \<lparr>ld_requestIds := AList.update SEARCH_KEY (next_id (abortKey SEARCH_KEY s) SEARCH_KEY) (ld_requestIds s)\<rparr>)"
    using assms by (intro reissue_inv) (simp_all add: update_conv')
  then show ?thesis using assms by (simp add: runSearch_def Let_def)
qed

lemma runResolve_inv:
  assumes "loader_inv s"
  shows "loader_inv (runResolve p v s)"
proof -
  have "loader_inv ((issue (RESOLVE_PREFIX @ v) (ResolveOf v) 0 (abortKey (RESOLVE_PREFIX @ v) s))
      \<lparr>ld_requestIds := ld_requestIds s\<rparr>)"
    using assms by (intro reissue_inv) simp_all
  moreover have "(issue (RESOLVE_PREFIX @ v) (ResolveOf v) 0 (abortKey (RESOLVE_PREFIX @ v) s))\<lparr>ld_requestIds := ld_requestIds s\<rparr> =
      issue (RESOLVE_PREFIX @ v) (ResolveOf v) 0 (abortKey (RESOLVE_PREFIX @ v) s)" by (simp add: issue_def)
  ultimately show ?thesis using assms by (simp add: runResolve_def)
qed

lemma resolveValues_inv:
  assumes "loader_inv s"
  shows "loader_inv (resolveValues p vs s)"
proof -
  have "loader_inv (fold (\<lambda>v s. if v = [] \<or> v \<in> set (ld_attempted s) \<or> map_of (ix_byValue (lp_base p)) v \<noteq> None \<or>
      map_of (ld_known s) v \<noteq> None then s else runResolve p v (s\<lparr>ld_attempted := v # ld_attempted s\<rparr>)) vs s)"
    using assms by (induction vs arbitrary: s) (simp_all add: runResolve_inv)
  with assms show ?thesis by (simp add: resolveValues_def)
qed

lemma invalidateLevel_inv:
  assumes "loader_inv s" "level_key (case v of None \<Rightarrow> CASCADER_ROOT_KEY | Some k \<Rightarrow> k)"
  shows "loader_inv (invalidateLevel v s)"
proof -
  define k where "k = (case v of None \<Rightarrow> CASCADER_ROOT_KEY | Some k \<Rightarrow> k)"
  have inv: "req_inv s" "store_inv s" using assms(1) by (simp_all add: loader_inv_def)
  let ?s = "abortKey k s"
  note live = live_abortKey [OF inv(1), of k]
  have "req_inv (?s\<lparr>ld_requestIds := ids\<rparr>)" if "\<And>j. j \<noteq> k \<Longrightarrow> map_of ids j = map_of (ld_requestIds s) j" for ids
  proof (rule req_invI, unfold live_update live)
    show "is_resolve (rq_kind r) \<or> map_of (ld_requestIds (?s\<lparr>ld_requestIds := ids\<rparr>)) (rq_key r) = Some (rq_id r)"
      if "live s r \<and> rq_key r \<noteq> k" for r
      using that req_invD(5) [OF inv(1), of r] \<open>\<And>j. j \<noteq> k \<Longrightarrow> map_of ids j = map_of (ld_requestIds s) j\<close> by auto
  qed (use req_invD [OF req_inv_abortKey [OF inv(1), of k]] in \<open>simp_all add: live\<close>)
  then have "req_inv (invalidateLevel v s)"
    by (simp add: invalidateLevel_def Let_def update_conv' flip: k_def)
  moreover have "store_inv (invalidateLevel v s)"
  proof (rule store_invI)
    fix j assume "loading (ld_store (invalidateLevel v s)) j"
    then have "j \<noteq> k \<and> loading (ld_store s) j"
      by (auto simp: invalidateLevel_def Let_def loading_def delete_conv' split: if_splits simp flip: k_def)
    then show "level_key j \<and> (\<exists>r. live (invalidateLevel v s) r \<and> rq_key r = j)"
      using store_invD(1,2) [OF inv(2), of j] live by (auto simp: invalidateLevel_def Let_def simp flip: k_def)
  next
    show "pages_ok (ld_store (invalidateLevel v s))"
      using store_invD(3) [OF inv(2)]
      by (auto simp: invalidateLevel_def Let_def pages_ok_def page_of_def delete_conv' simp flip: k_def)
  qed (use store_invD(4) [OF inv(2)] in \<open>simp add: invalidateLevel_def Let_def\<close>)
  ultimately show ?thesis by (simp add: loader_inv_def)
qed

section \<open>Responses and resets keep the invariant\<close>

text \<open>What still shows as loading has a live request other than the one that settles.\<close>

lemma loading_survives:
  assumes "loader_inv s" "r \<in> set (ld_pending s)" "loading (ld_store s) k" "rq_key r \<noteq> k \<or> \<not> live s r"
  shows "level_key k \<and> (\<exists>q. (live s q \<and> rq_token q \<noteq> rq_token r) \<and> rq_key q = k)"
proof -
  have inv: "req_inv s" "store_inv s" using assms(1) by (simp_all add: loader_inv_def)
  from store_invD(1,2) [OF inv(2) assms(3)] obtain q where q: "level_key k" "live s q" "rq_key q = k" by blast
  have "rq_token q \<noteq> rq_token r"
  proof
    assume "rq_token q = rq_token r"
    then have "q = r" using req_invD(1) [OF inv(1)] q(2) assms(2) by (simp add: inj_on_def live_def)
    with q assms(4) show False by simp
  qed
  with q show ?thesis by blast
qed

lemma not_stale_live:
  assumes "req_inv s" "r \<in> set (ld_pending s)" "kind_signature (rq_kind r) \<noteq> None"
    and "ld_epoch s' = ld_epoch s" "ld_requestIds s' = ld_requestIds s"
  shows "stale r s' \<Longrightarrow> \<not> live s r"
  using req_invD(5) [OF assms(1), of r] assms by (cases "rq_kind r") (auto simp: stale_def live_def)

text \<open>
  A settled request with the store it leaves: if the store has nothing more loading than before, and
  the request's own level does not while the request was live, the invariant holds again.
\<close>

lemma settled_inv:
  assumes inv: "loader_inv s" and r: "r \<in> set (ld_pending s)"
    and s': "req_inv s'" "\<And>q. live s' q \<longleftrightarrow> live s q \<and> rq_token q \<noteq> rq_token r" "ld_timer s' = ld_timer s" "pages_ok (ld_store s')"
    and loads: "\<And>k. loading (ld_store s') k \<Longrightarrow> loading (ld_store s) k \<and> (rq_key r \<noteq> k \<or> \<not> live s r)"
  shows "loader_inv s'"
proof -
  have "store_inv s'"
    using loading_survives [OF inv r] loads s'(3,4) store_invD(4) [of s] inv
    by (intro store_invI) (simp_all add: s'(2) loader_inv_def)
  with s'(1) show ?thesis by (simp add: loader_inv_def)
qed

lemma levelFailed_update:
  "levelFailed r s = s \<or> \<not> stale r s \<and>
   (\<exists>er. levelFailed r s = s\<lparr>ld_store := withLoadState (rq_key r) (\<lambda>st. st\<lparr>st_loading := False, st_error := True\<rparr>) (ld_store s), ld_errors := er\<rparr>)"
  by (auto simp: levelFailed_def)

lemma levelDone_cases:
  assumes "s1 = settle_inflight r (appending, or_empty cursor) (settle_controller r s)"
  obtains (same) ml kn where "levelDone r appending cursor resp s = s1\<lparr>ld_moreLatch := ml, ld_known := kn\<rparr>" "stale r s1"
  | (failed) ml kn er where "\<not> stale r s1" "levelDone r appending cursor resp s = s1\<lparr>ld_moreLatch := ml, ld_known := kn,
      ld_store := withLoadState (rq_key r) (\<lambda>st. st\<lparr>st_loading := False, st_error := True\<rparr>) (ld_store s1), ld_errors := er\<rparr>"
  | (page) ml kn items hm c where "\<not> stale r s1" "resp \<noteq> Rejection" "levelDone r appending cursor resp s = s1\<lparr>ld_moreLatch := ml, ld_known := kn,
      ld_store := withPage (rq_key r) items appending hm c (ld_store s1)\<rparr>"
proof -
  let ?s2 = "if appending then s1 else s1\<lparr>ld_moreLatch := AList.delete (rq_key r) (ld_moreLatch s1)\<rparr>"
  obtain ok kn where rem: "remember (response_items resp) (ld_known ?s2) = (ok, kn)" by fastforce
  have ml: "?s2 = s1\<lparr>ld_moreLatch := ld_moreLatch ?s2\<rparr>" by simp
  show thesis
  proof (cases "stale r s1")
    case True
    then have "levelDone r appending cursor resp s = s1\<lparr>ld_moreLatch := ld_moreLatch s1, ld_known := ld_known s1\<rparr>"
      by (simp add: levelDone_def levelFailed_def flip: assms)
    with True show ?thesis by (rule same [rotated])
  next
    case False
    note fresh = False
    show ?thesis
    proof (cases "resp = Rejection")
      case True
      then have "levelDone r appending cursor resp s = s1\<lparr>ld_moreLatch := ld_moreLatch s1, ld_known := ld_known s1,
          ld_store := withLoadState (rq_key r) (\<lambda>st. st\<lparr>st_loading := False, st_error := True\<rparr>) (ld_store s1),
          ld_errors := ld_errors s1 @ [(parent_of_key (rq_key r), rq_kind r)]\<rparr>"
        using fresh by (simp add: levelDone_def levelFailed_def flip: assms)
      with fresh show ?thesis by (rule failed)
    next
      case False
      have st: "stale r (?s2\<lparr>ld_known := kn\<rparr>) = stale r s1" by (simp add: stale_def)
      show ?thesis
      proof (cases ok)
        case True
        then have "levelDone r appending cursor resp s = s1\<lparr>ld_moreLatch := ld_moreLatch ?s2, ld_known := kn,
            ld_store := withPage (rq_key r) (nodes_of (response_items resp)) appending (response_hasMore resp)
              (response_cursor resp) (ld_store s1)\<rparr>"
          using fresh False rem by (simp add: levelDone_def Let_def flip: assms)
        with fresh False show ?thesis by (rule page)
      next
        case not_ok: False
        then have "levelDone r appending cursor resp s = levelFailed r (?s2\<lparr>ld_known := kn\<rparr>)"
          using fresh False rem by (simp add: levelDone_def Let_def flip: assms)
        also have "\<dots> = s1\<lparr>ld_moreLatch := ld_moreLatch ?s2, ld_known := kn,
            ld_store := withLoadState (rq_key r) (\<lambda>st. st\<lparr>st_loading := False, st_error := True\<rparr>) (ld_store s1),
            ld_errors := ld_errors s1 @ [(parent_of_key (rq_key r), rq_kind r)]\<rparr>"
          using fresh st by (simp add: levelFailed_def)
        finally show ?thesis using fresh by (rule failed [rotated])
      qed
    qed
  qed
qed

end
