(* ===== verification/Cascader_Merge.thy ===== *)
theory Cascader_Merge
  imports Cascader_Reads "HOL-Library.Sublist"
begin

text \<open>
  Folding loaded pages into an index (\<^verbatim>\<open>mergeCascaderIndex\<close> of \<^verbatim>\<open>cascader-lib.tsx\<close>).  The static nodes win, a page
  may come before the page that holds its parent, and the list of all nodes keeps document order.  The maps are copied,
  bucket by bucket, before they are written: the base index, a value here, stays as it was.
\<close>

section \<open>The function\<close>

text \<open>One node that is not in the index yet, entered under \<open>key\<close>.\<close>

definition insert_node :: "string \<Rightarrow> cascader_node \<Rightarrow> cascader_index \<Rightarrow> cascader_index" where
  "insert_node key n ix =
     ix\<lparr>ix_byValue := ix_byValue ix @ [(cn_value n, n)],
        ix_parentOf := AList.update (cn_value n) (if key = CASCADER_ROOT_KEY then None else Some key) (ix_parentOf ix),
        ix_childrenOf := push key n (ix_childrenOf ix)\<rparr>"

text \<open>\<^verbatim>\<open>insert\<close> reads \<^verbatim>\<open>node.value\<close> of every entry, which throws on a null child (\<open>None\<close>).\<close>

fun merge_insert :: "string \<Rightarrow> cascader_node option list \<Rightarrow> cascader_index \<Rightarrow> cascader_index option" where
  "merge_insert key [] ix = Some ix"
| "merge_insert key (None # ns) ix = None"
| "merge_insert key (Some (CNode v pr ch) # ns) ix =
     (if map_of (ix_byValue ix) v \<noteq> None then merge_insert key ns ix
      else let ix' = insert_node key (CNode v pr ch) ix
           in case (if ch = [] then Some ix' else merge_insert v ch ix') of
                None \<Rightarrow> None
              | Some ix'' \<Rightarrow> merge_insert key ns ix'')"

fun merge_pages :: "(string \<times> cascader_node list) list \<Rightarrow> cascader_index \<Rightarrow> cascader_index option" where
  "merge_pages [] ix = Some ix"
| "merge_pages ((key, ns) # pgs) ix =
     (case merge_insert key (map Some ns) ix of None \<Rightarrow> None | Some ix' \<Rightarrow> merge_pages pgs ix')"

definition fill_depths :: "cascader_index \<Rightarrow> cascader_index" where
  "fill_depths ix =
     ix\<lparr>ix_depthOf := fold (\<lambda>v ds. if map_of ds v \<noteq> None then ds
         else AList.update v (length (climb (ix_parentOf ix) [v] (parent_get (ix_parentOf ix) v))) ds)
       (map fst (ix_byValue ix)) (ix_depthOf ix)\<rparr>"

text \<open>The walk over the merged tree, then what it did not reach.\<close>

definition document_order :: "cascader_index \<Rightarrow> cascader_node list" where
  "document_order ix =
     (let walked = subtree_walk (ix_childrenOf ix) [] (children_get (ix_childrenOf ix) CASCADER_ROOT_KEY)
      in walked @ map snd (filter (\<lambda>(v, n). v \<notin> cn_value ` set walked) (ix_byValue ix)))"

definition mergeCascaderIndex ::
  "cascader_index \<Rightarrow> (string \<times> cascader_node list) list \<Rightarrow> (string \<times> cascader_node) list \<Rightarrow> cascader_index option" where
  "mergeCascaderIndex base pgs detachedNodes =
     (if pgs = [] \<and> detachedNodes = [] then Some base
      else case merge_pages pgs base of
        None \<Rightarrow> None
      | Some ix \<Rightarrow>
          let ix' = fill_depths ix
          in Some (ix'\<lparr>ix_roots := children_get (ix_childrenOf ix') CASCADER_ROOT_KEY, ix_all := document_order ix',
               ix_byValue := fold (\<lambda>(v, n) m. if map_of m v \<noteq> None then m else m @ [(v, n)]) detachedNodes (ix_byValue ix')\<rparr>))"

section \<open>What inserting keeps\<close>

text \<open>The invariant of an index with pages whose parent has not arrived: all of \<open>maps_agree\<close> but that parents are there.\<close>

definition loose_index :: "cascader_index \<Rightarrow> bool" where
  "loose_index ix \<longleftrightarrow>
     (\<forall>v n. node_at ix v = Some n \<longrightarrow> cn_value n = v) \<and>
     node_at ix CASCADER_ROOT_KEY = None \<and>
     (\<forall>v. node_at ix v = None \<longleftrightarrow> map_of (ix_parentOf ix) v = None) \<and>
     (\<forall>k c. c \<in> set (children_at ix k) \<longrightarrow> node_at ix (cn_value c) = Some c \<and>
        map_of (ix_parentOf ix) (cn_value c) = Some (if k = CASCADER_ROOT_KEY then None else Some k)) \<and>
     (\<forall>v q. map_of (ix_parentOf ix) v = Some q \<longrightarrow> v \<in> vals (children_at ix (root_or q)))"

definition parents_known :: "cascader_index \<Rightarrow> bool" where
  "parents_known ix \<longleftrightarrow> (\<forall>v p. parent_at ix v = Some p \<longrightarrow> node_at ix p \<noteq> None)"

lemma loose_maps_agree:
  assumes "loose_index ix" "parents_known ix"
  shows "maps_agree ix"
proof -
  have "\<exists>n. node_at ix v = Some n \<and> n \<in> set (children_at ix (root_or q))" if "map_of (ix_parentOf ix) v = Some q" for v q
    using assms(1) that unfolding loose_index_def by blast
  moreover have "node_at ix p \<noteq> None" if "map_of (ix_parentOf ix) v = Some (Some p)" for v p
    using assms(2) that unfolding parents_known_def by (metis parent_get_def option.simps(5))
  ultimately show ?thesis using assms(1) unfolding loose_index_def maps_agree_def by blast
qed

lemma insert_node_reads:
  assumes "node_at ix (cn_value n) = None"
  shows "node_at (insert_node key n ix) v = (if v = cn_value n then Some n else node_at ix v)"
    and "map_of (ix_parentOf (insert_node key n ix)) v =
      (if v = cn_value n then Some (if key = CASCADER_ROOT_KEY then None else Some key) else map_of (ix_parentOf ix) v)"
    and "children_at (insert_node key n ix) k = (if k = key then children_at ix k @ [n] else children_at ix k)"
  using assms by (auto simp: insert_node_def map_of_snoc update_conv' children_get_push simp del: map_of_append split: option.splits)

lemma insert_node_loose:
  assumes "loose_index ix" "node_at ix (cn_value n) = None" "cn_value n \<noteq> CASCADER_ROOT_KEY"
  shows "loose_index (insert_node key n ix)"
proof -
  note reads = insert_node_reads [OF assms(2)]
  have fresh: "c \<in> set (children_at ix k) \<Longrightarrow> cn_value c \<noteq> cn_value n" for c k
    using assms(1,2) unfolding loose_index_def by (metis option.distinct(1))
  have key: "root_or (if key = CASCADER_ROOT_KEY then None else Some key) = key" by (simp add: root_or_def)
  have old: "map_of (ix_parentOf ix) v = Some q \<Longrightarrow> v \<in> vals (children_at ix (root_or q))" for v q
    using assms(1) unfolding loose_index_def by blast
  have 1: "v \<in> vals (children_at (insert_node key n ix) (root_or q))"
    if "map_of (ix_parentOf (insert_node key n ix)) v = Some q" for v q
  proof (cases "v = cn_value n")
    case True
    with that key show ?thesis by (simp add: reads)
  next
    case False
    with that old [of v q] show ?thesis by (auto simp: reads)
  qed
  have 2: "node_at (insert_node key n ix) (cn_value c) = Some c \<and> map_of (ix_parentOf (insert_node key n ix)) (cn_value c) =
      Some (if k = CASCADER_ROOT_KEY then None else Some k)" if "c \<in> set (children_at (insert_node key n ix) k)" for c k
  proof (cases "c \<in> set (children_at ix k)")
    case True
    with fresh assms(1) show ?thesis unfolding loose_index_def by (simp add: reads)
  next
    case False
    then have "k = key" "c = n" using that by (auto simp: reads(3) split: if_splits)
    then show ?thesis by (simp add: reads)
  qed
  have 3: "node_at (insert_node key n ix) v = None \<longleftrightarrow> map_of (ix_parentOf (insert_node key n ix)) v = None" for v
    using assms(1) by (simp add: reads loose_index_def)
  have 4: "node_at (insert_node key n ix) v = Some m \<Longrightarrow> cn_value m = v" for v m
    using assms(1) by (simp add: reads loose_index_def split: if_splits)
  have "node_at (insert_node key n ix) CASCADER_ROOT_KEY = None"
    using assms(1,3) by (simp add: reads loose_index_def)
  with 1 2 3 4 show ?thesis unfolding loose_index_def by blast
qed

lemma insert_node_ranked:
  assumes "ranked (ix_parentOf ix) r" "key \<noteq> CASCADER_ROOT_KEY \<Longrightarrow> r key < r (cn_value n)"
    "node_at ix (cn_value n) = None"
  shows "ranked (ix_parentOf (insert_node key n ix)) r"
  using assms(1,2) unfolding ranked_def parent_get_def insert_node_reads(2) [OF assms(3)] by (auto split: if_splits)

section \<open>Whatever one insertion keeps, merging keeps\<close>

text \<open>The pairs of a key and a value that the items of a page would enter under it.\<close>

fun item_edges :: "string \<Rightarrow> cascader_node option list \<Rightarrow> (string \<times> string) set" where
  "item_edges key [] = {}"
| "item_edges key (None # ns) = item_edges key ns"
| "item_edges key (Some (CNode v pr ch) # ns) = insert (key, v) (item_edges v ch \<union> item_edges key ns)"

definition page_edges :: "(string \<times> cascader_node list) list \<Rightarrow> (string \<times> string) set" where
  "page_edges pgs = (\<Union>(k, ns)\<in>set pgs. item_edges k (map Some ns))"

lemma page_edges_simps [simp]:
  "page_edges [] = {}" "page_edges ((k, ns) # pgs) = item_edges k (map Some ns) \<union> page_edges pgs"
  by (simp_all add: page_edges_def)

locale merge_kept =
  fixes P :: "cascader_index \<Rightarrow> bool" and admits :: "string \<Rightarrow> string \<Rightarrow> bool"
  assumes kept: "P ix \<Longrightarrow> node_at ix (cn_value n) = None \<Longrightarrow> admits key (cn_value n) \<Longrightarrow> P (insert_node key n ix)"
begin

lemma by_insert:
  "merge_insert key ns ix = Some ix' \<Longrightarrow> P ix \<Longrightarrow> \<forall>(k, v)\<in>item_edges key ns. admits k v \<Longrightarrow> P ix'"
proof (induction key ns ix arbitrary: ix' rule: merge_insert.induct)
  case (3 key v pr ch ns ix)
  show ?case
  proof (cases "node_at ix v = None")
    case False
    with 3 show ?thesis by simp
  next
    case True
    let ?ix = "insert_node key (CNode v pr ch) ix"
    have one: "P ?ix" using kept [of ix "CNode v pr ch" key] "3.prems" True by simp
    obtain ix2 where two: "(if ch = [] then Some ?ix else merge_insert v ch ?ix) = Some ix2" "merge_insert key ns ix2 = Some ix'"
      using "3.prems"(1) True by (auto simp: Let_def split: option.splits)
    have "P ix2" using two(1) one "3.IH"(2) [of ?ix ix2] True "3.prems"(3) by (auto split: if_splits)
    with "3.IH"(3) [of ?ix ix2 ix'] True two "3.prems"(3) show ?thesis by simp
  qed
qed simp_all

lemma by_pages:
  "merge_pages pgs ix = Some ix' \<Longrightarrow> P ix \<Longrightarrow> \<forall>(k, v)\<in>page_edges pgs. admits k v \<Longrightarrow> P ix'"
proof (induction pgs ix rule: merge_pages.induct)
  case (2 key ns pgs ix)
  then obtain ix2 where ix2: "merge_insert key (map Some ns) ix = Some ix2" "merge_pages pgs ix2 = Some ix'"
    by (auto split: option.splits)
  with "2.prems" by_insert [OF ix2(1)] "2.IH" [OF ix2] show ?case by auto
qed simp

end

text \<open>The invariant, a ranking of the values, what the base index says, and where a new node comes from.\<close>

definition extends_index :: "cascader_index \<Rightarrow> cascader_index \<Rightarrow> bool" where
  "extends_index base ix \<longleftrightarrow>
     (\<forall>v n. node_at base v = Some n \<longrightarrow> node_at ix v = Some n) \<and>
     (\<forall>v q. map_of (ix_parentOf base) v = Some q \<longrightarrow> map_of (ix_parentOf ix) v = Some q) \<and>
     (\<forall>k. prefix (children_at base k) (children_at ix k)) \<and> ix_depthOf ix = ix_depthOf base"

definition arrived :: "cascader_index \<Rightarrow> (string \<times> string) set \<Rightarrow> cascader_index \<Rightarrow> bool" where
  "arrived base edges ix \<longleftrightarrow>
     (\<forall>v. node_at ix v \<noteq> None \<longrightarrow> node_at base v \<noteq> None \<or>
        (\<exists>k. (k, v) \<in> edges \<and> map_of (ix_parentOf ix) v = Some (if k = CASCADER_ROOT_KEY then None else Some k)))"

interpretation loose: merge_kept loose_index "\<lambda>k v. v \<noteq> CASCADER_ROOT_KEY"
  by unfold_locales (rule insert_node_loose)

interpretation acyclic: merge_kept "\<lambda>ix. ranked (ix_parentOf ix) r" "\<lambda>k v. k \<noteq> CASCADER_ROOT_KEY \<longrightarrow> r k < r v" for r
  by unfold_locales (rule insert_node_ranked, simp_all)

interpretation distinct_keys: merge_kept "\<lambda>ix. distinct (map fst (ix_byValue ix))" "\<lambda>k v. True"
  by unfold_locales (auto simp: insert_node_def map_of_eq_None_iff)

interpretation base_stays: merge_kept "\<lambda>ix. loose_index ix \<and> extends_index base ix" "\<lambda>k v. v \<noteq> CASCADER_ROOT_KEY" for base
proof
  fix ix n key
  assume ix: "loose_index ix \<and> extends_index base ix" and n: "node_at ix (cn_value n) = None" "cn_value n \<noteq> CASCADER_ROOT_KEY"
  have "map_of (ix_parentOf ix) (cn_value n) = None" using ix n(1) by (simp add: loose_index_def)
  with ix n have "extends_index base (insert_node key n ix)"
    unfolding extends_index_def insert_node_reads [OF n(1)] by (auto simp: insert_node_def)
  with ix n show "loose_index (insert_node key n ix) \<and> extends_index base (insert_node key n ix)"
    using insert_node_loose by blast
qed

interpretation siblings: merge_kept "\<lambda>ix. loose_index ix \<and> (\<forall>k. distinct (map cn_value (children_at ix k)))"
  "\<lambda>k v. v \<noteq> CASCADER_ROOT_KEY"
proof
  fix ix n key
  assume ix: "loose_index ix \<and> (\<forall>k. distinct (map cn_value (children_at ix k)))"
    and n: "node_at ix (cn_value n) = None" "cn_value n \<noteq> CASCADER_ROOT_KEY"
  have "cn_value n \<notin> vals (children_at ix key)" using ix n(1) unfolding loose_index_def by force
  with ix n show "loose_index (insert_node key n ix) \<and> (\<forall>k. distinct (map cn_value (children_at (insert_node key n ix) k)))"
    using insert_node_loose by (auto simp: insert_node_reads(3))
qed

interpretation from_pages: merge_kept "arrived base edges" "\<lambda>k v. (k, v) \<in> edges" for base edges
  by unfold_locales (auto simp: arrived_def insert_node_reads split: if_splits)

section \<open>The merged index\<close>

lemma fill_depths_reads [simp]:
  "ix_byValue (fill_depths ix) = ix_byValue ix" "ix_childrenOf (fill_depths ix) = ix_childrenOf ix"
  "ix_parentOf (fill_depths ix) = ix_parentOf ix"
  by (simp_all add: fill_depths_def)

abbreviation ancestor_count :: "cascader_index \<Rightarrow> string \<Rightarrow> nat" where
  "ancestor_count ix v \<equiv> length (climb (ix_parentOf ix) [v] (parent_at ix v))"

lemma fill_depths_value:
  "map_of (ix_depthOf (fill_depths ix)) v =
     (case map_of (ix_depthOf ix) v of Some d \<Rightarrow> Some d
      | None \<Rightarrow> if node_at ix v = None then None else Some (ancestor_count ix v))"
proof -
  have "map_of (fold (\<lambda>v ds. if map_of ds v \<noteq> None then ds else AList.update v (f v) ds) vs ds) v =
      (case map_of ds v of Some d \<Rightarrow> Some d | None \<Rightarrow> if v \<in> set vs then Some (f v) else None)" for f :: "string \<Rightarrow> nat" and vs ds
    by (induction vs arbitrary: ds) (auto simp: update_conv' split: option.splits)
  note this [of "\<lambda>v. ancestor_count ix v"]
  then show ?thesis by (auto simp: fill_depths_def map_of_eq_None_iff split: option.splits)
qed

lemma add_detached:
  "map_of (fold (\<lambda>(v, n) m. if map_of m v \<noteq> None then m else m @ [(v, n)]) ds m) v =
     (case map_of m v of Some n \<Rightarrow> Some n | None \<Rightarrow> map_of ds v)"
proof (induction ds arbitrary: m)
  case (Cons d ds)
  then show ?case by (cases d) (auto simp: map_of_snoc simp del: map_of_append split: option.splits)
qed (simp split: option.splits)

text \<open>The result of merging, in terms of the index after the pages went in.\<close>

lemma merge_result:
  assumes "mergeCascaderIndex base pgs det = Some m" "pgs \<noteq> [] \<or> det \<noteq> []"
  obtains ix where "merge_pages pgs base = Some ix" "ix_childrenOf m = ix_childrenOf ix" "ix_parentOf m = ix_parentOf ix"
    "\<And>v. node_at m v = (case node_at ix v of Some n \<Rightarrow> Some n | None \<Rightarrow> map_of det v)"
    "ix_depthOf m = ix_depthOf (fill_depths ix)" "ix_all m = document_order ix" "ix_roots m = children_at m CASCADER_ROOT_KEY"
proof -
  obtain ix where ix: "merge_pages pgs base = Some ix" using assms by (auto simp: mergeCascaderIndex_def split: option.splits if_splits)
  have order: "document_order (fill_depths ix) = document_order ix" by (simp add: document_order_def)
  have "\<not> (pgs = [] \<and> det = [])" using assms(2) by blast
  then have m: "m = (fill_depths ix)\<lparr>ix_roots := children_get (ix_childrenOf ix) CASCADER_ROOT_KEY, ix_all := document_order ix,
      ix_byValue := fold (\<lambda>(v, n) m. if map_of m v \<noteq> None then m else m @ [(v, n)]) det (ix_byValue ix)\<rparr>"
    using assms(1) by (simp only: mergeCascaderIndex_def ix if_False option.simps Let_def order fill_depths_reads)
  show thesis
    by (rule that [OF ix]) (simp_all add: m add_detached [simplified])
qed

section \<open>The order of all nodes\<close>

lemma subtree_walk_distinct:
  "distinct (map cn_value (subtree_walk ch seen stack)) \<and> vals (subtree_walk ch seen stack) \<inter> set seen = {}"
  by (induction ch seen stack rule: subtree_walk.induct) auto

text \<open>Every node once, whether its parent arrived or not.\<close>

lemma document_order_exact:
  assumes "loose_index ix" "distinct (map fst (ix_byValue ix))"
  shows "distinct (map cn_value (document_order ix))" "n \<in> set (document_order ix) \<longleftrightarrow> node_at ix (cn_value n) = Some n"
proof -
  define walked where "walked = subtree_walk (ix_childrenOf ix) [] (children_at ix CASCADER_ROOT_KEY)"
  let ?rest = "filter (\<lambda>(v, n). v \<notin> vals walked) (ix_byValue ix)"
  have order: "document_order ix = walked @ map snd ?rest" by (simp add: document_order_def walked_def Let_def)
  have keyed: "cn_value n = v" if "(v, n) \<in> set (ix_byValue ix)" for v n
    using that assms by (simp add: loose_index_def)
  have fst_rest: "map cn_value (map snd ?rest) = map fst ?rest"
    using keyed by (auto intro!: map_cong)
  have walk: "node_at ix (cn_value x) = Some x" if "x \<in> set walked" for x
    using subtree_walk_nodes [OF that [unfolded walked_def]] assms(1) unfolding loose_index_def by blast
  have "distinct (map cn_value walked)" unfolding walked_def using subtree_walk_distinct by blast
  moreover have "distinct (map fst ?rest)" using assms(2) by (simp add: distinct_map_filter)
  ultimately show "distinct (map cn_value (document_order ix))"
    unfolding order map_append fst_rest by auto
  have in_rest: "n \<in> snd ` set ?rest \<longleftrightarrow> node_at ix (cn_value n) = Some n \<and> cn_value n \<notin> vals walked"
  proof
    assume "n \<in> snd ` set ?rest"
    then obtain v where "(v, n) \<in> set (ix_byValue ix)" "v \<notin> vals walked" by auto
    with keyed [of v n] assms(2) show "node_at ix (cn_value n) = Some n \<and> cn_value n \<notin> vals walked" by simp
  next
    assume "node_at ix (cn_value n) = Some n \<and> cn_value n \<notin> vals walked"
    then have "(cn_value n, n) \<in> set ?rest" by (auto dest: map_of_SomeD)
    then show "n \<in> snd ` set ?rest" by (rule rev_image_eqI) simp
  qed
  show "n \<in> set (document_order ix) \<longleftrightarrow> node_at ix (cn_value n) = Some n"
  proof (cases "cn_value n \<in> vals walked")
    case True
    then obtain x where x: "x \<in> set walked" "cn_value x = cn_value n" by auto
    then show ?thesis using walk [of x] in_rest walk [of n] unfolding order by auto
  next
    case False
    then show ?thesis using in_rest unfolding order by auto
  qed
qed

text \<open>When every parent is there, the walk from the roots reaches everything.\<close>

lemma document_order_walk:
  assumes "loose_index ix" "parents_known ix" "ranked (ix_parentOf ix) r"
  shows "document_order ix = subtree_walk (ix_childrenOf ix) [] (children_at ix CASCADER_ROOT_KEY)"
proof -
  define walked where "walked = subtree_walk (ix_childrenOf ix) [] (children_at ix CASCADER_ROOT_KEY)"
  have closed: "\<forall>s\<in>vals walked. vals (children_at ix s) \<subseteq> vals walked" "vals (children_at ix CASCADER_ROOT_KEY) \<subseteq> vals walked"
    using subtree_walk_closed [of "[]" "ix_childrenOf ix" "children_at ix CASCADER_ROOT_KEY"] unfolding walked_def by auto
  have "v \<in> vals walked" if "node_at ix v \<noteq> None" for v
    using that
  proof (induction "r v" arbitrary: v rule: less_induct)
    case less
    obtain q where q: "map_of (ix_parentOf ix) v = Some q" using less(2) assms(1) unfolding loose_index_def by (metis option.exhaust)
    have child: "v \<in> vals (children_at ix (root_or q))" using q assms(1) unfolding loose_index_def by blast
    show ?case
    proof (cases q)
      case None
      with child closed(2) show ?thesis by (auto simp: root_or_def)
    next
      case (Some p)
      then have p: "parent_at ix v = Some p" using q by (simp add: parent_get_def)
      then have "p \<in> vals walked" using less(1) assms(2,3) unfolding ranked_def parents_known_def by blast
      with child Some closed(1) show ?thesis by (auto simp: root_or_def)
    qed
  qed
  then have "v \<in> vals walked" if "(v, n) \<in> set (ix_byValue ix)" for v n
    using that by (metis map_of_eq_None_iff fst_conv imageI)
  then have "filter (\<lambda>(v, n). v \<notin> vals walked) (ix_byValue ix) = []" by (auto simp: filter_empty_conv)
  then show ?thesis by (simp add: document_order_def walked_def Let_def)
qed

text \<open>An index the views can draw: a tree, no child twice, and all its nodes listed in document order.\<close>

definition ordered_index :: "cascader_index \<Rightarrow> bool" where
  "ordered_index ix \<longleftrightarrow> tree_index ix \<and> (\<forall>k. distinct (map cn_value (children_at ix k))) \<and>
     ix_roots ix = children_at ix CASCADER_ROOT_KEY \<and> ix_all ix = subtree_walk (ix_childrenOf ix) [] (ix_roots ix)"

text \<open>Nodes that are known without a place do no harm.\<close>

lemma maps_agree_more:
  assumes "maps_agree ix" "ix_childrenOf m = ix_childrenOf ix" "ix_parentOf m = ix_parentOf ix"
    "\<And>v n. node_at ix v = Some n \<Longrightarrow> node_at m v = Some n" "\<And>v n. node_at m v = Some n \<Longrightarrow> cn_value n = v"
    "node_at m CASCADER_ROOT_KEY = None"
  shows "maps_agree m"
proof -
  have "node_at m p \<noteq> None" if "node_at ix p \<noteq> None" for p using that assms(4) by blast
  with assms(1,4-6) show ?thesis unfolding maps_agree_def assms(2,3) by blast
qed

section \<open>Properties\<close>

lemma top_values: "item_edges key (map Some ns) \<supseteq> {(key, cn_value n) | n. n \<in> set ns}"
proof (induction ns)
  case (Cons n ns)
  then show ?case by (cases n) auto
qed simp

interpretation known: merge_kept "\<lambda>ix. node_at ix v \<noteq> None" "\<lambda>k v. True" for v
  by unfold_locales (simp add: insert_node_reads)

lemma merge_insert_top:
  "merge_insert key ns ix = Some ix' \<Longrightarrow> Some n \<in> set ns \<Longrightarrow> node_at ix' (cn_value n) \<noteq> None"
proof (induction key ns ix arbitrary: ix' rule: merge_insert.induct)
  case (3 key v pr ch ns ix)
  let ?ix = "insert_node key (CNode v pr ch) ix"
  show ?case
  proof (cases "node_at ix v = None")
    case False
    then have rest: "merge_insert key ns ix = Some ix'" using "3.prems"(1) by simp
    show ?thesis
      using "3.prems"(2) "3.IH"(1) [OF False rest] known.by_insert [OF rest False] by auto
  next
    case True
    obtain ix2 where two: "(if ch = [] then Some ?ix else merge_insert v ch ?ix) = Some ix2" "merge_insert key ns ix2 = Some ix'"
      using "3.prems"(1) True by (auto simp: Let_def split: option.splits)
    have "node_at ?ix v \<noteq> None" using True by (simp add: insert_node_reads)
    then have "node_at ix2 v \<noteq> None" using two(1) known.by_insert [of v ch ?ix ix2 v] by (auto split: if_splits)
    then have "node_at ix' v \<noteq> None" using known.by_insert [OF two(2)] by auto
    then show ?thesis using "3.prems"(2) "3.IH"(3) [of ?ix ix2 ix'] True two by auto
  qed
qed simp_all

lemma merge_pages_top:
  "merge_pages pgs ix = Some ix' \<Longrightarrow> (key, ns) \<in> set pgs \<Longrightarrow> n \<in> set ns \<Longrightarrow> node_at ix' (cn_value n) \<noteq> None"
proof (induction pgs ix rule: merge_pages.induct)
  case (2 k ms pgs ix)
  then obtain ix2 where ix2: "merge_insert k (map Some ms) ix = Some ix2" "merge_pages pgs ix2 = Some ix'"
    by (auto split: option.splits)
  show ?case
  proof (cases "(key, ns) \<in> set pgs")
    case True
    with "2.IH" ix2 "2.prems"(3) show ?thesis by blast
  next
    case False
    with "2.prems" have "Some n \<in> set (map Some ms)" by auto
    with merge_insert_top [OF ix2(1)] known.by_pages [OF ix2(2)] show ?thesis by blast
  qed
qed simp

lemma building_loose:
  assumes "building ix"
  shows "loose_index ix" "parents_known ix"
proof -
  have agree: "maps_agree ix" using assms by (simp add: building_def)
  have "v \<in> vals (children_at ix (root_or q))" if "map_of (ix_parentOf ix) v = Some q" for v q
    using agree that unfolding maps_agree_def by (metis imageI)
  then show "loose_index ix" using agree building_known(1) [OF assms] unfolding loose_index_def maps_agree_def by blast
  show "parents_known ix" using parent_child [OF agree] unfolding parents_known_def by metis
qed

text \<open>A base index and two pages, the deeper one first.\<close>

definition sample_pages :: "(string \<times> cascader_node list) list" where
  "sample_pages = [(''ny'', [plain_node ''nyc'' []]), (''us'', [plain_node ''ny'' [], plain_node ''fr'' []])]"

definition sample_merged :: cascader_index where
  "sample_merged = the (mergeCascaderIndex (build_nested sample_items) sample_pages [])"

definition sample_rank :: "string \<Rightarrow> nat" where
  "sample_rank v = (if v \<in> {''eu'', ''us''} then 0 else if v \<in> {''fr'', ''de'', ''ny''} then 1 else 2)"

lemma sample_merge: "mergeCascaderIndex (build_nested sample_items) sample_pages [] = Some sample_merged"
proof -
  have "mergeCascaderIndex (build_nested sample_items) sample_pages [] \<noteq> None" by code_simp
  then show ?thesis by (auto simp: sample_merged_def)
qed

lemma sample_edges: "page_edges sample_pages = {(''ny'', ''nyc''), (''us'', ''ny''), (''us'', ''fr'')}"
  by (auto simp: sample_pages_def plain_node_def)

lemma sample_base:
  "loose_index (build_nested sample_items)" "parents_known (build_nested sample_items)"
  "distinct (map fst (ix_byValue (build_nested sample_items)))" "ranked (ix_parentOf (build_nested sample_items)) sample_rank"
  "\<forall>k. distinct (map cn_value (children_at (build_nested sample_items) k))"
proof -
  show "loose_index (build_nested sample_items)" "parents_known (build_nested sample_items)"
    using building_loose build_nested_building [OF sample_items_ok] by blast+
  show "distinct (map fst (ix_byValue (build_nested sample_items)))" by code_simp
  have "list_all (\<lambda>(k, ns). distinct (map cn_value ns)) (ix_childrenOf (build_nested sample_items))" by code_simp
  then show "\<forall>k. distinct (map cn_value (children_at (build_nested sample_items) k))"
    by (auto simp: children_get_def list_all_iff dest: map_of_SomeD split: option.split)
  have "ix_parentOf (build_nested sample_items) = [(''eu'', None), (''fr'', Some ''eu''), (''de'', Some ''eu''), (''us'', None)]"
    by code_simp
  then show "ranked (ix_parentOf (build_nested sample_items)) sample_rank"
    by (auto simp: ranked_def parent_get_def sample_rank_def split: if_splits)
qed

lemma merge_ordered:
  assumes "loose_index base" "parents_known base" "distinct (map fst (ix_byValue base))" "ranked (ix_parentOf base) r"
    "\<forall>k. distinct (map cn_value (children_at base k))"
    "\<forall>(k, v)\<in>page_edges pgs. v \<noteq> CASCADER_ROOT_KEY \<and> (k \<noteq> CASCADER_ROOT_KEY \<longrightarrow> r k < r v)"
    "\<forall>(v, n)\<in>set det. cn_value n = v \<and> v \<noteq> CASCADER_ROOT_KEY"
    "mergeCascaderIndex base pgs det = Some m" "pgs \<noteq> []"
    "\<forall>(k, v)\<in>page_edges pgs. k = CASCADER_ROOT_KEY \<or> k \<in> vals (ix_all m)"
  shows "ordered_index m"
proof -
  obtain ix where ix: "merge_pages pgs base = Some ix" "ix_childrenOf m = ix_childrenOf ix" "ix_parentOf m = ix_parentOf ix"
    "\<And>v. node_at m v = (case node_at ix v of Some n \<Rightarrow> Some n | None \<Rightarrow> map_of det v)"
    "ix_all m = document_order ix" "ix_roots m = children_at m CASCADER_ROOT_KEY"
    using merge_result [OF assms(8)] assms(9) by metis
  have base: "loose_index base \<and> extends_index base base" using assms(1) by (simp add: extends_index_def)
  have ext: "loose_index ix" "extends_index base ix" using base_stays.by_pages [OF ix(1) base] assms(6) by auto
  have dist: "distinct (map fst (ix_byValue ix))" using distinct_keys.by_pages [OF ix(1)] assms(3) by auto
  have rank: "ranked (ix_parentOf ix) r" using acyclic.by_pages [OF ix(1) assms(4)] assms(6) by auto
  have arr: "arrived base (page_edges pgs) ix" using from_pages.by_pages [OF ix(1)] by (auto simp: arrived_def)
  have "node_at ix p \<noteq> None" if p: "parent_at ix v = Some p" for v p
  proof (cases "node_at base v = None")
    case True
    have up: "map_of (ix_parentOf ix) v = Some (Some p)" using p by (simp add: parent_get_def split: option.splits)
    then have "node_at ix v \<noteq> None" using ext(1) unfolding loose_index_def by (metis option.distinct(1))
    then obtain k where "(k, v) \<in> page_edges pgs" "map_of (ix_parentOf ix) v = Some (if k = CASCADER_ROOT_KEY then None else Some k)"
      using arr True unfolding arrived_def by blast
    with up have "(p, v) \<in> page_edges pgs" "p \<noteq> CASCADER_ROOT_KEY" by (auto split: if_splits)
    then have "p \<in> vals (ix_all m)" using assms(10) by blast
    then show ?thesis using document_order_exact(2) [OF ext(1) dist] by (auto simp: ix(5))
  next
    case False
    then have "map_of (ix_parentOf base) v \<noteq> None" using assms(1) unfolding loose_index_def by metis
    then have "parent_at base v = Some p" using ext(2) p unfolding extends_index_def by (fastforce simp: parent_get_def)
    then have "node_at base p \<noteq> None" using assms(2) by (simp add: parents_known_def)
    then show ?thesis using ext(2) unfolding extends_index_def by blast
  qed
  then have known: "parents_known ix" by (simp add: parents_known_def)
  have agree: "maps_agree m"
  proof -
    have "maps_agree ix" by (rule loose_maps_agree [OF ext(1) known])
    moreover have "\<And>v n. map_of det v = Some n \<Longrightarrow> cn_value n = v \<and> v \<noteq> CASCADER_ROOT_KEY"
      using assms(7) by (auto dest: map_of_SomeD)
    moreover from this have "map_of det CASCADER_ROOT_KEY = None" by (cases "map_of det CASCADER_ROOT_KEY") auto
    moreover have "cn_value n = v" if "node_at ix v = Some n" for v n using that ext(1) unfolding loose_index_def by blast
    moreover have "node_at ix CASCADER_ROOT_KEY = None" using ext(1) unfolding loose_index_def by blast
    ultimately show ?thesis
      by (intro maps_agree_more [OF _ ix(2,3)]) (auto simp: ix(4) split: option.splits)
  qed
  then show ?thesis
    using rank document_order_walk [OF ext(1) known rank] siblings.by_pages [OF ix(1)] assms(1,5,6)
    by (auto simp: ordered_index_def tree_index_def ix(2,3,5,6))
qed

lemma sample_pages_hang:
  "\<forall>(k, v)\<in>page_edges sample_pages. v \<noteq> CASCADER_ROOT_KEY \<and> (k \<noteq> CASCADER_ROOT_KEY \<longrightarrow> sample_rank k < sample_rank v)"
  "\<forall>(v, n)\<in>set ([] :: (string \<times> cascader_node) list). cn_value n = v \<and> v \<noteq> CASCADER_ROOT_KEY"
  "sample_pages \<noteq> []" "\<forall>(k, v)\<in>page_edges sample_pages. k = CASCADER_ROOT_KEY \<or> k \<in> vals (ix_all sample_merged)"
proof -
  have "map cn_value (ix_all sample_merged) = [''eu'', ''fr'', ''de'', ''us'', ''ny'', ''nyc'']" by code_simp
  then have "vals (ix_all sample_merged) = {''eu'', ''fr'', ''de'', ''us'', ''ny'', ''nyc''}" by (metis list.set_map list.simps(15) list.set(1))
  then show "\<forall>(k, v)\<in>page_edges sample_pages. k = CASCADER_ROOT_KEY \<or> k \<in> vals (ix_all sample_merged)" by (simp add: sample_edges)
  show "sample_pages \<noteq> []" by (simp add: sample_pages_def)
qed (simp_all add: sample_edges CASCADER_ROOT_KEY_def sample_rank_def)

lemma sample_ordered: "ordered_index sample_merged"
  by (rule merge_ordered [OF sample_base sample_pages_hang(1,2) sample_merge sample_pages_hang(3,4)])

text \<open>Merging loaded pages only adds.  Whatever pages arrived, in whatever order: a node of the base index stays what it
  is, with its parent, its depth and its place among its siblings; every node of every page is found; the list of all
  nodes holds each of them exactly once, even those whose parent has not arrived; and a new node's depth is the number
  of its ancestors.\<close>

theorem merge_only_adds:
  assumes "loose_index base" "distinct (map fst (ix_byValue base))" "\<forall>(k, v)\<in>page_edges pgs. v \<noteq> CASCADER_ROOT_KEY"
    "mergeCascaderIndex base pgs det = Some m" "pgs \<noteq> [] \<or> det \<noteq> []"
  shows "(node_at base v = Some n \<longrightarrow> node_at m v = Some n \<and> map_of (ix_parentOf m) v = map_of (ix_parentOf base) v) \<and>
    (map_of (ix_depthOf base) v = Some d \<longrightarrow> map_of (ix_depthOf m) v = Some d) \<and>
    (map_of (ix_depthOf base) v = None \<and> v \<in> vals (ix_all m) \<longrightarrow> map_of (ix_depthOf m) v = Some (ancestor_count m v)) \<and>
    prefix (children_at base k) (children_at m k) \<and>
    ((k, ns) \<in> set pgs \<and> x \<in> set ns \<longrightarrow> node_at m (cn_value x) \<noteq> None \<and> cn_value x \<in> vals (ix_all m)) \<and>
    distinct (map cn_value (ix_all m)) \<and> (node_at m v \<noteq> None \<longleftrightarrow> v \<in> vals (ix_all m) \<or> map_of det v \<noteq> None)"
proof -
  obtain ix where ix: "merge_pages pgs base = Some ix" "ix_childrenOf m = ix_childrenOf ix" "ix_parentOf m = ix_parentOf ix"
    "\<And>v. node_at m v = (case node_at ix v of Some n \<Rightarrow> Some n | None \<Rightarrow> map_of det v)"
    "ix_depthOf m = ix_depthOf (fill_depths ix)" "ix_all m = document_order ix"
    using merge_result [OF assms(4,5)] by metis
  have base: "loose_index base \<and> extends_index base base" using assms(1) by (simp add: extends_index_def)
  have ext: "loose_index ix" "extends_index base ix" using base_stays.by_pages [OF ix(1) base] assms(3) by auto
  have dist: "distinct (map fst (ix_byValue ix))" using distinct_keys.by_pages [OF ix(1)] assms(2) by auto
  note order = document_order_exact [OF ext(1) dist]
  have all: "v \<in> vals (ix_all m) \<longleftrightarrow> node_at ix v \<noteq> None" for v
  proof
    assume "node_at ix v \<noteq> None"
    then obtain x where "node_at ix v = Some x" "cn_value x = v" using ext(1) unfolding loose_index_def by blast
    with order(2) [of x] show "v \<in> vals (ix_all m)" unfolding ix(6) by auto
  qed (use order(2) in \<open>auto simp: ix(6)\<close>)
  have parent: "map_of (ix_parentOf m) v = map_of (ix_parentOf base) v" if "node_at base v = Some n"
  proof -
    have "map_of (ix_parentOf base) v \<noteq> None" using that assms(1) unfolding loose_index_def by (metis option.distinct(1))
    then show ?thesis using ext(2) unfolding extends_index_def ix(3) by fastforce
  qed
  have depth: "map_of (ix_depthOf m) v = (case map_of (ix_depthOf base) v of Some d \<Rightarrow> Some d
      | None \<Rightarrow> if node_at ix v = None then None else Some (ancestor_count m v))"
    using ext(2) by (simp add: ix(3,5) fill_depths_value extends_index_def split: option.split)
  have page: "node_at ix (cn_value x) \<noteq> None" if "(k, ns) \<in> set pgs" "x \<in> set ns"
    using merge_pages_top [OF ix(1) that] .
  have "node_at base v = Some n \<Longrightarrow> node_at m v = Some n" using ext(2) by (simp add: extends_index_def ix(4))
  moreover have "prefix (children_at base k) (children_at m k)" using ext(2) by (simp add: extends_index_def ix(2))
  moreover have "node_at m v \<noteq> None \<longleftrightarrow> v \<in> vals (ix_all m) \<or> map_of det v \<noteq> None"
    by (simp add: ix(4) all split: option.split)
  moreover have "node_at m (cn_value x) \<noteq> None \<and> cn_value x \<in> vals (ix_all m)" if "(k, ns) \<in> set pgs \<and> x \<in> set ns"
    using page that all [of "cn_value x"] by (auto simp: ix(4) split: option.split)
  moreover have "map_of (ix_depthOf base) v = None \<and> v \<in> vals (ix_all m) \<longrightarrow> map_of (ix_depthOf m) v = Some (ancestor_count m v)"
    using all depth by simp
  moreover have "map_of (ix_depthOf base) v = Some d \<longrightarrow> map_of (ix_depthOf m) v = Some d" using depth by simp
  moreover have "distinct (map cn_value (ix_all m))" using order(1) by (simp add: ix(6))
  ultimately show ?thesis using parent by blast
qed

theorem merge_only_adds_witness:
  "map cn_value (ix_all sample_merged) = [''eu'', ''fr'', ''de'', ''us'', ''ny'', ''nyc''] \<and>
   node_at sample_merged ''nyc'' \<noteq> None \<and> prefix (children_at (build_nested sample_items) ''eu'') (children_at sample_merged ''eu'')"
proof -
  have "map cn_value (ix_all sample_merged) = [''eu'', ''fr'', ''de'', ''us'', ''ny'', ''nyc'']" by code_simp
  moreover have "\<forall>(k, v)\<in>page_edges sample_pages. v \<noteq> CASCADER_ROOT_KEY" by (simp add: sample_edges CASCADER_ROOT_KEY_def)
  moreover have "sample_pages \<noteq> []" "(''ny'', [plain_node ''nyc'' []]) \<in> set sample_pages" "cn_value (plain_node ''nyc'' []) = ''nyc''"
    by (simp_all add: sample_pages_def plain_node_def)
  ultimately show ?thesis
    using merge_only_adds [OF sample_base(1,3) _ sample_merge] by (metis list.set_intros(1))
qed

text \<open>C27: A page may come before the page that holds its parent, and the result is a tree all the same.  If the base index is a
  tree, lists no child twice, no page puts a value below itself (some ranking decreases towards the root), and every page hangs off a node
  that is there in the end, then merging gives such an index again: a tree without repeated children, its roots the children of the root key,
  its list of all nodes the walk of the whole tree in document order.\<close>

theorem merge_is_tree:
  assumes "loose_index base" "parents_known base" "distinct (map fst (ix_byValue base))" "ranked (ix_parentOf base) r"
    "\<forall>k. distinct (map cn_value (children_at base k))"
    "\<forall>(k, v)\<in>page_edges pgs. v \<noteq> CASCADER_ROOT_KEY \<and> (k \<noteq> CASCADER_ROOT_KEY \<longrightarrow> r k < r v)"
    "\<forall>(v, n)\<in>set det. cn_value n = v \<and> v \<noteq> CASCADER_ROOT_KEY"
    "mergeCascaderIndex base pgs det = Some m" "pgs \<noteq> []"
    "\<forall>(k, v)\<in>page_edges pgs. k = CASCADER_ROOT_KEY \<or> k \<in> vals (ix_all m)"
  shows "ordered_index m"
  by (rule merge_ordered [OF assms])

theorem merge_is_tree_witness:
  "ordered_index sample_merged \<and> sample_pages = [(''ny'', [plain_node ''nyc'' []]), (''us'', [plain_node ''ny'' [], plain_node ''fr'' []])]"
  using merge_is_tree [OF sample_base sample_pages_hang(1,2) sample_merge sample_pages_hang(3,4)] by (simp add: sample_pages_def)

end
