(* ===== verification/Cascader_Flatten.thy ===== *)
theory Cascader_Flatten
  imports Cascader_Merge
begin

text \<open>
  The rows of tree mode (\<^verbatim>\<open>flattenCascaderTree\<close> of \<^verbatim>\<open>cascader-lib.tsx\<close>).  The walk has no guard against cycles, so not
  returning is a value of the model (\<open>None\<close>); on an index that is a tree it returns, and the rows are the nodes whose
  ancestors are all expanded, in document order.
\<close>

section \<open>The function\<close>

record flat_node =
  fn_node :: cascader_node
  fn_depth :: nat
  fn_branch :: bool
  fn_expanded :: bool
  fn_setSize :: nat
  fn_posInSet :: nat

text \<open>The rest of a level from its entry \<open>i\<close> on; \<open>len\<close> is the length of the whole level.\<close>

partial_function (option) flat_walk ::
  "cascader_index \<Rightarrow> string list \<Rightarrow> string list \<Rightarrow> string \<Rightarrow> nat \<Rightarrow> nat \<Rightarrow> nat \<Rightarrow> cascader_node list \<Rightarrow> flat_node list option" where
  "flat_walk ix expanded sentinels parentKey depth len i nodes =
     (let sentinel = (parentKey \<in> set sentinels); setSize = len + (if sentinel then 1 else 0) in
      case nodes of
        [] \<Rightarrow> Some (if sentinel then [\<lparr>fn_node = createCascaderMoreNode parentKey len, fn_depth = depth, fn_branch = False,
                      fn_expanded = False, fn_setSize = setSize, fn_posInSet = setSize\<rparr>] else [])
      | n # ns \<Rightarrow>
          (let branch = isCascaderBranch ix n; isExpanded = (branch \<and> cn_value n \<in> set expanded);
               children = children_get (ix_childrenOf ix) (cn_value n)
           in Option.bind
                (if isExpanded then flat_walk ix expanded sentinels (cn_value n) (depth + 1) (length children) 0 children
                 else Some [])
                (\<lambda>below. Option.bind (flat_walk ix expanded sentinels parentKey depth len (i + 1) ns)
                  (\<lambda>rest. Some (\<lparr>fn_node = n, fn_depth = depth, fn_branch = branch, fn_expanded = isExpanded,
                     fn_setSize = setSize, fn_posInSet = i + 1\<rparr> # below @ rest)))))"

declare flat_walk.simps [code]

definition flattenCascaderTree :: "cascader_index \<Rightarrow> string list \<Rightarrow> string list \<Rightarrow> flat_node list option" where
  "flattenCascaderTree ix expanded sentinels =
     flat_walk ix expanded sentinels CASCADER_ROOT_KEY 0 (length (ix_roots ix)) 0 (ix_roots ix)"

definition more_row :: "string \<Rightarrow> nat \<Rightarrow> nat \<Rightarrow> flat_node" where
  "more_row parentKey len depth =
     \<lparr>fn_node = createCascaderMoreNode parentKey len, fn_depth = depth, fn_branch = False, fn_expanded = False,
      fn_setSize = len + 1, fn_posInSet = len + 1\<rparr>"

definition node_row :: "cascader_index \<Rightarrow> string list \<Rightarrow> string list \<Rightarrow> string \<Rightarrow> nat \<Rightarrow> nat \<Rightarrow> nat \<Rightarrow> cascader_node \<Rightarrow> flat_node" where
  "node_row ix expanded sentinels parentKey depth len i n =
     \<lparr>fn_node = n, fn_depth = depth, fn_branch = isCascaderBranch ix n,
      fn_expanded = (isCascaderBranch ix n \<and> cn_value n \<in> set expanded),
      fn_setSize = len + (if parentKey \<in> set sentinels then 1 else 0), fn_posInSet = i + 1\<rparr>"

lemma flat_walk_Nil:
  "flat_walk ix expanded sentinels key depth len i [] =
     Some (if key \<in> set sentinels then [more_row key len depth] else [])"
  by (subst flat_walk.simps) (simp add: more_row_def)

lemma flat_walk_Cons:
  assumes "fn_expanded (node_row ix expanded sentinels key depth len i n) \<Longrightarrow>
      flat_walk ix expanded sentinels (cn_value n) (depth + 1) (length (children_at ix (cn_value n))) 0 (children_at ix (cn_value n))
        = Some below"
    "\<not> fn_expanded (node_row ix expanded sentinels key depth len i n) \<Longrightarrow> below = []"
    "flat_walk ix expanded sentinels key depth len (i + 1) ns = Some rest"
  shows "flat_walk ix expanded sentinels key depth len i (n # ns) =
    Some (node_row ix expanded sentinels key depth len i n # below @ rest)"
  using assms by (subst flat_walk.simps) (auto simp: node_row_def Let_def)

section \<open>Walks over a tree\<close>

definition reach :: "(string \<times> cascader_node list) list \<Rightarrow> cascader_node list \<Rightarrow> string set" where
  "reach ch ns = {d. \<exists>n\<in>set ns. (cn_value n, d) \<in> (down ch)\<^sup>*}"

lemma reach_simps [simp]: "reach ch [] = {}" "reach ch (xs @ ys) = reach ch xs \<union> reach ch ys"
  by (auto simp: reach_def)

lemma reach_Cons: "reach ch (n # ns) = insert (cn_value n) (reach ch (children_get ch (cn_value n))) \<union> reach ch ns"
proof -
  have "(cn_value n, d) \<in> (down ch)\<^sup>* \<longleftrightarrow> d = cn_value n \<or> d \<in> reach ch (children_get ch (cn_value n))" for d
  proof
    assume "(cn_value n, d) \<in> (down ch)\<^sup>*"
    then show "d = cn_value n \<or> d \<in> reach ch (children_get ch (cn_value n))"
      by (cases rule: converse_rtranclE) (auto simp: reach_def down_def)
  next
    assume "d = cn_value n \<or> d \<in> reach ch (children_get ch (cn_value n))"
    then show "(cn_value n, d) \<in> (down ch)\<^sup>*"
      by (auto simp: reach_def down_def intro: converse_rtrancl_into_rtrancl)
  qed
  then show ?thesis by (auto simp: reach_def)
qed

lemma reach_finite: "finite (reach ch ns)"
proof -
  have step: "d \<in> known_values ch" if "(y, d) \<in> down ch" for y d
    using that children_known [of ch y] by (auto simp: down_def)
  have "d \<in> vals ns \<union> known_values ch" if "(v, d) \<in> (down ch)\<^sup>*" "v \<in> vals ns" for v d
    using that by (cases rule: rtranclE) (use step in auto)
  then have "reach ch ns \<subseteq> vals ns \<union> known_values ch" by (auto simp: reach_def)
  then show ?thesis by (rule finite_subset) (simp add: finite_known)
qed

lemma walk_reach: "vals (subtree_walk ch seen stack) \<subseteq> reach ch stack"
  using subtree_walk_sound [of _ ch seen stack] by (auto simp: reach_def)

text \<open>What was seen outside the reach of the stack does not matter.\<close>

lemma walk_seen:
  "\<forall>v\<in>reach ch stack. v \<in> set seen \<longleftrightarrow> v \<in> set seen' \<Longrightarrow> subtree_walk ch seen stack = subtree_walk ch seen' stack"
proof (induction ch seen stack arbitrary: seen' rule: subtree_walk.induct)
  case (2 ch seen n stack)
  have n: "cn_value n \<in> set seen \<longleftrightarrow> cn_value n \<in> set seen'" using "2.prems" by (simp add: reach_Cons)
  show ?case
  proof (cases "cn_value n \<in> set seen")
    case True
    have "\<forall>v\<in>reach ch stack. v \<in> set seen \<longleftrightarrow> v \<in> set seen'" using "2.prems" by (simp add: reach_Cons)
    with "2.IH"(1) [OF True] n True show ?thesis by simp
  next
    case False
    have "\<forall>v\<in>reach ch (children_get ch (cn_value n) @ stack). v \<in> set (cn_value n # seen) \<longleftrightarrow> v \<in> set (cn_value n # seen')"
      using "2.prems" by (simp add: reach_Cons)
    with "2.IH"(2) [OF False] n False show ?thesis by simp
  qed
qed simp

lemma walk_append:
  "subtree_walk ch seen (xs @ ys) =
     subtree_walk ch seen xs @ subtree_walk ch (map cn_value (subtree_walk ch seen xs) @ seen) ys"
proof (induction ch seen xs rule: subtree_walk.induct)
  case (2 ch seen n stack)
  show ?case
  proof (cases "cn_value n \<in> set seen")
    case False
    have "subtree_walk ch (w @ cn_value n # seen) ys = subtree_walk ch (cn_value n # w @ seen) ys" for w
      by (rule walk_seen) auto
    with "2.IH"(2) [OF False] False show ?thesis by simp
  qed (use 2 in simp)
qed simp

lemma walk_Cons_tree:
  assumes "cn_value n \<notin> reach ch (children_get ch (cn_value n))" "reach ch [n] \<inter> reach ch ns = {}"
  shows "subtree_walk ch [] (n # ns) = n # subtree_walk ch [] (children_get ch (cn_value n)) @ subtree_walk ch [] ns"
proof -
  let ?kids = "children_get ch (cn_value n)"
  have kids: "subtree_walk ch [cn_value n] ?kids = subtree_walk ch [] ?kids"
    by (rule walk_seen) (use assms(1) in auto)
  have "subtree_walk ch (map cn_value (subtree_walk ch [] ?kids) @ [cn_value n]) ns = subtree_walk ch [] ns"
    by (rule walk_seen) (use assms(2) walk_reach [of ch "[]" ?kids] in \<open>auto simp: reach_Cons\<close>)
  with kids show ?thesis by (simp add: walk_append)
qed

text \<open>In a tree the children of a node reach disjoint parts, and a node is not below itself.\<close>

fun forest :: "(string \<times> cascader_node list) list \<Rightarrow> cascader_node list \<Rightarrow> bool" where
  "forest ch [] = True"
| "forest ch (n # ns) \<longleftrightarrow> cn_value n \<notin> reach ch (children_get ch (cn_value n)) \<and> reach ch [n] \<inter> reach ch ns = {} \<and> forest ch ns"

lemma reach_up:
  assumes "maps_agree ix" "c \<in> set (children_at ix k)"
  shows "d \<in> reach (ix_childrenOf ix) [c] \<longleftrightarrow> (d, cn_value c) \<in> (up (ix_parentOf ix))\<^sup>*"
proof -
  have "cn_value c \<noteq> CASCADER_ROOT_KEY" using assms unfolding maps_agree_def by (metis option.distinct(1))
  then show ?thesis using down_up_rtrancl [OF assms(1)] by (simp add: reach_def)
qed

lemma siblings_apart:
  assumes "maps_agree ix" "ranked (ix_parentOf ix) r" "c \<in> set (children_at ix k)" "c' \<in> set (children_at ix k)"
    "(cn_value c, cn_value c') \<in> (up (ix_parentOf ix))\<^sup>*"
  shows "cn_value c = cn_value c'"
  using assms(5)
proof (cases rule: converse_rtranclE)
  case (step y)
  have up: "map_of (ix_parentOf ix) (cn_value x) = Some (if k = CASCADER_ROOT_KEY then None else Some k)"
    if "x \<in> set (children_at ix k)" for x
    using assms(1) that unfolding maps_agree_def by blast
  have y: "parent_at ix (cn_value c) = Some y" using step(1) by simp
  then have "y = k" "k \<noteq> CASCADER_ROOT_KEY" using up [OF assms(3)] by (auto simp: parent_get_def split: if_splits)
  then have "r k < r (cn_value c')" using up [OF assms(4)] assms(2) by (simp add: ranked_def parent_get_def)
  moreover have "r (cn_value c') \<le> r k" using ranked_up [OF _ assms(2)] step(2) \<open>y = k\<close> by simp
  ultimately show ?thesis by simp
qed

lemma up_linear:
  assumes "(d, a) \<in> (up ps)\<^sup>*" "(d, b) \<in> (up ps)\<^sup>*"
  shows "(a, b) \<in> (up ps)\<^sup>* \<or> (b, a) \<in> (up ps)\<^sup>*"
  using assms
proof (induction rule: rtrancl_induct)
  case (step y z)
  from step.IH [OF step.prems] show ?case
  proof
    assume "(y, b) \<in> (up ps)\<^sup>*"
    then show ?thesis
    proof (cases rule: converse_rtranclE)
      case base
      then show ?thesis using step(2) by auto
    next
      case (step x)
      then show ?thesis using \<open>(y, z) \<in> up ps\<close> by auto
    qed
  next
    assume "(b, y) \<in> (up ps)\<^sup>*"
    with step(2) show ?thesis by (auto intro: rtrancl_into_rtrancl)
  qed
qed simp

lemma children_forest:
  assumes "maps_agree ix" "ranked (ix_parentOf ix) r"
  shows "set ns \<subseteq> set (children_at ix k) \<Longrightarrow> distinct (map cn_value ns) \<Longrightarrow> forest (ix_childrenOf ix) ns"
proof (induction ns)
  case (Cons n ns)
  have n: "n \<in> set (children_at ix k)" using Cons.prems by simp
  have "cn_value n \<notin> reach (ix_childrenOf ix) (children_at ix (cn_value n))"
  proof
    assume "cn_value n \<in> reach (ix_childrenOf ix) (children_at ix (cn_value n))"
    then obtain c where c: "c \<in> set (children_at ix (cn_value n))" "cn_value n \<in> reach (ix_childrenOf ix) [c]"
      by (auto simp: reach_def)
    have "(cn_value n, cn_value c) \<in> (up (ix_parentOf ix))\<^sup>*" using reach_up [OF assms(1) c(1)] c(2) by blast
    then have "r (cn_value c) \<le> r (cn_value n)" by (rule ranked_up [OF _ assms(2)])
    moreover have "cn_value n \<noteq> CASCADER_ROOT_KEY" using n assms(1) unfolding maps_agree_def by (metis option.distinct(1))
    then have "r (cn_value n) < r (cn_value c)" using child_parent(1) [OF assms(1) c(1)] assms(2) by (simp add: ranked_def)
    ultimately show False by simp
  qed
  moreover have "reach (ix_childrenOf ix) [n] \<inter> reach (ix_childrenOf ix) ns = {}"
  proof (rule ccontr)
    assume "reach (ix_childrenOf ix) [n] \<inter> reach (ix_childrenOf ix) ns \<noteq> {}"
    then obtain d c where d: "d \<in> reach (ix_childrenOf ix) [n]" "c \<in> set ns" "d \<in> reach (ix_childrenOf ix) [c]"
      by (auto simp: reach_def)
    have c: "c \<in> set (children_at ix k)" using d(2) Cons.prems by auto
    have "(d, cn_value n) \<in> (up (ix_parentOf ix))\<^sup>*" "(d, cn_value c) \<in> (up (ix_parentOf ix))\<^sup>*"
      using d reach_up [OF assms(1) n] reach_up [OF assms(1) c] by blast+
    from up_linear [OF this] have "cn_value n = cn_value c"
      using siblings_apart [OF assms n c] siblings_apart [OF assms c n] by metis
    with d(2) Cons.prems(2) show False by auto
  qed
  ultimately show ?case using Cons by simp
qed simp

section \<open>The rows of a tree\<close>

definition row_shown :: "cascader_index \<Rightarrow> string list \<Rightarrow> cascader_node \<Rightarrow> bool" where
  "row_shown ix expanded n \<longleftrightarrow> ancestors ix (cn_value n) \<subseteq> set expanded"

text \<open>A row says its place: the level it is on with the level's size, and below how many ancestors it is.\<close>

definition row_at :: "cascader_index \<Rightarrow> string list \<Rightarrow> flat_node \<Rightarrow> string \<Rightarrow> bool" where
  "row_at ix sentinels row k \<longleftrightarrow>
     fn_setSize row = length (children_at ix k) + (if k \<in> set sentinels then 1 else 0) \<and>
     0 < fn_posInSet row \<and> fn_posInSet row \<le> fn_setSize row \<and>
     (if fn_posInSet row \<le> length (children_at ix k)
      then fn_node row = children_at ix k ! (fn_posInSet row - 1) \<and> fn_depth row = ancestor_count ix (cn_value (fn_node row))
      else fn_node row = createCascaderMoreNode k (length (children_at ix k)))"

lemma ancestor_count_child:
  assumes "maps_agree ix" "ranked (ix_parentOf ix) r" "c \<in> set (children_at ix k)"
  shows "ancestor_count ix (cn_value c) = (if k = CASCADER_ROOT_KEY then 0 else ancestor_count ix k + 1)"
proof (cases "k = CASCADER_ROOT_KEY")
  case True
  then have "parent_at ix (cn_value c) = None" using assms(1,3) unfolding maps_agree_def by (simp add: parent_get_def)
  with True show ?thesis by simp
next
  case False
  have c: "parent_at ix (cn_value c) = Some k" by (rule child_parent(1) [OF assms(1,3) False])
  then have less: "r k < r (cn_value c)" using assms(2) by (simp add: ranked_def)
  have "climb (ix_parentOf ix) [k, cn_value c] (parent_at ix k) = climb (ix_parentOf ix) [k] (parent_at ix k)"
    using assms(2) less by (intro climb_seen [OF assms(2)]) (fastforce simp: ranked_def)+
  with c less False show ?thesis by auto
qed

lemma row_shown_child:
  assumes "maps_agree ix" "c \<in> set (children_at ix k)"
  shows "row_shown ix expanded c \<longleftrightarrow> k = CASCADER_ROOT_KEY \<or> k \<in> set expanded \<and> ancestors ix k \<subseteq> set expanded"
proof (cases "k = CASCADER_ROOT_KEY")
  case True
  then have "parent_at ix (cn_value c) = None" using assms unfolding maps_agree_def by (simp add: parent_get_def)
  then have "ancestors ix (cn_value c) = {}" by (auto simp: ancestors_def dest: tranclD)
  with True show ?thesis by (simp add: row_shown_def)
next
  case False
  let ?up = "up (ix_parentOf ix)"
  have up: "parent_at ix (cn_value c) = Some k" by (rule child_parent(1) [OF assms False])
  have "(cn_value c, a) \<in> ?up\<^sup>+ \<longleftrightarrow> (k, a) \<in> ?up\<^sup>*" for a
    using up rtrancl_into_trancl2 [of "cn_value c" k ?up a] by (auto dest: tranclD)
  then have "ancestors ix (cn_value c) = insert k (ancestors ix k)"
    by (auto simp: ancestors_def rtrancl_eq_or_trancl)
  with False show ?thesis by (auto simp: row_shown_def)
qed

lemma walk_hidden:
  assumes "maps_agree ix" "k \<notin> set expanded" "k \<noteq> CASCADER_ROOT_KEY"
  shows "filter (row_shown ix expanded) (subtree_walk (ix_childrenOf ix) [] (children_at ix k)) = []"
proof -
  have "\<not> row_shown ix expanded x" if x: "x \<in> set (subtree_walk (ix_childrenOf ix) [] (children_at ix k))" for x
  proof -
    obtain c where c: "c \<in> set (children_at ix k)" "(cn_value c, cn_value x) \<in> (down (ix_childrenOf ix))\<^sup>*"
      using subtree_walk_sound [OF x] by blast
    have "(cn_value x, cn_value c) \<in> (up (ix_parentOf ix))\<^sup>*" using reach_up [OF assms(1) c(1)] c(2) by (simp add: reach_def)
    moreover have "(cn_value c, k) \<in> up (ix_parentOf ix)" using child_parent(1) [OF assms(1) c(1) assms(3)] by simp
    ultimately have "k \<in> ancestors ix (cn_value x)" unfolding ancestors_def by (auto intro: rtrancl_into_trancl1)
    with assms(2) show ?thesis by (auto simp: row_shown_def)
  qed
  then show ?thesis by (simp add: filter_empty_conv)
qed

definition draws :: "cascader_index \<Rightarrow> string list \<Rightarrow> string list \<Rightarrow> cascader_node list \<Rightarrow> flat_node list \<Rightarrow> bool" where
  "draws ix expanded sentinels nodes rows \<longleftrightarrow>
     map fn_node (filter (\<lambda>row. \<not> isCascaderMoreNode (fn_node row)) rows) =
       filter (row_shown ix expanded) (subtree_walk (ix_childrenOf ix) [] nodes) \<and>
     (\<forall>row\<in>set rows. \<exists>k. row_at ix sentinels row k)"

lemma more_row_draws:
  "draws ix expanded sentinels [] (if k \<in> set sentinels then [more_row k (length (children_at ix k)) depth] else [])"
proof -
  have "isCascaderMoreNode (createCascaderMoreNode k len)" for len
    by (simp add: isCascaderMoreNode_def createCascaderMoreNode_def starts_with_def)
  moreover have "k \<in> set sentinels \<Longrightarrow> row_at ix sentinels (more_row k (length (children_at ix k)) depth) k"
    by (simp add: row_at_def more_row_def)
  ultimately show ?thesis by (auto simp: draws_def more_row_def)
qed

lemma flat_walk_Nil_draws:
  "\<exists>rows. flat_walk ix expanded sentinels k depth (length (children_at ix k)) i [] = Some rows \<and> draws ix expanded sentinels [] rows"
proof (intro exI conjI)
  show "flat_walk ix expanded sentinels k depth (length (children_at ix k)) i [] =
      Some (if k \<in> set sentinels then [more_row k (length (children_at ix k)) depth] else [])" by (rule flat_walk_Nil)
qed (rule more_row_draws)

lemma row_draws:
  assumes agree: "maps_agree ix" and rank: "ranked (ix_parentOf ix) r"
    and n: "children_at ix k = pre @ n # ns" "\<not> isCascaderMoreNode n" "row_shown ix expanded n"
    and forest: "forest (ix_childrenOf ix) (n # ns)"
    and below: "fn_expanded row \<Longrightarrow> draws ix expanded sentinels (children_at ix (cn_value n)) below" "\<not> fn_expanded row \<Longrightarrow> below = []"
    and rest: "draws ix expanded sentinels ns rest"
    and row: "row = node_row ix expanded sentinels k depth (length (children_at ix k)) (length pre) n" "depth = ancestor_count ix (cn_value n)"
  shows "draws ix expanded sentinels (n # ns) (row # below @ rest)"
proof -
  have walk: "subtree_walk (ix_childrenOf ix) [] (n # ns) =
      n # subtree_walk (ix_childrenOf ix) [] (children_at ix (cn_value n)) @ subtree_walk (ix_childrenOf ix) [] ns"
    by (rule walk_Cons_tree) (use forest in simp_all)
  have root: "cn_value n \<noteq> CASCADER_ROOT_KEY" using n(1) agree unfolding maps_agree_def by (metis in_set_conv_decomp option.distinct(1))
  have row_ok: "row_at ix sentinels row k" using n(1) by (simp add: row row_at_def node_row_def nth_append)
  have kids: "draws ix expanded sentinels (children_at ix (cn_value n)) below"
  proof (cases "fn_expanded row")
    case False
    then have "children_at ix (cn_value n) = [] \<or> cn_value n \<notin> set expanded" by (auto simp: row node_row_def isCascaderBranch_def)
    then show ?thesis using below(2) [OF False] walk_hidden [OF agree _ root] by (auto simp: draws_def)
  qed (rule below(1))
  then show ?thesis
    using rest row_ok n(2,3) unfolding draws_def walk by (auto simp: row node_row_def)
qed

lemma flat_walk_draws:
  assumes agree: "maps_agree ix" and rank: "ranked (ix_parentOf ix) r"
    and dist: "\<And>k. distinct (map cn_value (children_at ix k))"
    and more: "\<And>k c. c \<in> set (children_at ix k) \<Longrightarrow> \<not> isCascaderMoreNode c"
  shows "card (reach (ix_childrenOf ix) nodes) \<le> bound \<Longrightarrow> children_at ix k = pre @ nodes \<Longrightarrow>
    depth = (if k = CASCADER_ROOT_KEY then 0 else ancestor_count ix k + 1) \<Longrightarrow>
    k = CASCADER_ROOT_KEY \<or> k \<in> set expanded \<and> ancestors ix k \<subseteq> set expanded \<Longrightarrow>
    \<exists>rows. flat_walk ix expanded sentinels k depth (length (children_at ix k)) (length pre) nodes = Some rows \<and>
      draws ix expanded sentinels nodes rows"
proof (induction bound arbitrary: k pre depth nodes)
  case (0 k pre depth nodes)
  then have "nodes = []" using reach_finite by (cases nodes) (auto simp: reach_Cons)
  then show ?case using flat_walk_Nil_draws by simp
next
  case (Suc bound k pre depth nodes)
  then show ?case
  proof (induction nodes arbitrary: pre)
    case Nil
    show ?case by (rule flat_walk_Nil_draws)
  next
    case (Cons n ns)
    let ?row = "node_row ix expanded sentinels k depth (length (children_at ix k)) (length pre) n"
    let ?kids = "children_at ix (cn_value n)"
    have in_k: "n \<in> set (children_at ix k)" using Cons.prems(3) by simp
    have fst: "forest (ix_childrenOf ix) (n # ns)"
      using dist [of k] Cons.prems(3) by (intro children_forest [OF agree rank, of _ k]) auto
    have "card (reach (ix_childrenOf ix) ns) \<le> Suc bound"
      by (rule order_trans [OF card_mono [OF reach_finite] Cons.prems(2)]) (auto simp: reach_Cons)
    with Cons.IH [of "pre @ [n]"] Cons.prems obtain rest where
      rest: "flat_walk ix expanded sentinels k depth (length (children_at ix k)) (length pre + 1) ns = Some rest" "draws ix expanded sentinels ns rest"
      by auto
    have smaller: "card (reach (ix_childrenOf ix) ?kids) \<le> bound"
    proof -
      have "card (reach (ix_childrenOf ix) ?kids) < card (reach (ix_childrenOf ix) (n # ns))"
        using fst by (intro psubset_card_mono reach_finite) (auto simp: reach_Cons)
      with Cons.prems(2) show ?thesis by simp
    qed
    have depth: "depth = ancestor_count ix (cn_value n)" using ancestor_count_child [OF agree rank in_k] Cons.prems(4) by simp
    have root: "cn_value n \<noteq> CASCADER_ROOT_KEY" using in_k agree unfolding maps_agree_def by (metis option.distinct(1))
    have row_shown: "row_shown ix expanded n" using row_shown_child [OF agree in_k] Cons.prems(5) by simp
    have "\<exists>below. (fn_expanded ?row \<longrightarrow> flat_walk ix expanded sentinels (cn_value n) (depth + 1) (length ?kids) 0 ?kids = Some below \<and>
        draws ix expanded sentinels ?kids below) \<and> (\<not> fn_expanded ?row \<longrightarrow> below = [])"
    proof (cases "fn_expanded ?row")
      case True
      then have "cn_value n \<in> set expanded" by (simp add: node_row_def)
      with Cons.prems(1) [OF smaller, of "cn_value n" "[]" "depth + 1"] depth root row_shown True show ?thesis by (auto simp: row_shown_def)
    qed simp
    then obtain below where below: "fn_expanded ?row \<Longrightarrow> flat_walk ix expanded sentinels (cn_value n) (depth + 1) (length ?kids) 0 ?kids = Some below"
      "fn_expanded ?row \<Longrightarrow> draws ix expanded sentinels ?kids below" "\<not> fn_expanded ?row \<Longrightarrow> below = []" by blast
    have "draws ix expanded sentinels (n # ns) (?row # below @ rest)"
      using row_draws [OF agree rank Cons.prems(3) more [OF in_k] row_shown fst below(2,3) rest(2) refl depth] by blast
    with flat_walk_Cons [OF below(1,3) rest(1)] show ?case by blast
  qed
qed

lemma flatten_rows:
  assumes "ordered_index ix" "\<forall>(v, n)\<in>set (ix_byValue ix). \<not> isCascaderMoreNode n"
  shows "\<exists>rows. flattenCascaderTree ix expanded sentinels = Some rows \<and>
    map fn_node (filter (\<lambda>row. \<not> isCascaderMoreNode (fn_node row)) rows) = filter (row_shown ix expanded) (ix_all ix) \<and>
    (\<forall>row\<in>set rows. \<exists>k. row_at ix sentinels row k)"
proof -
  obtain r where tree: "maps_agree ix" "ranked (ix_parentOf ix) r" and dist: "\<And>k. distinct (map cn_value (children_at ix k))"
    and roots: "ix_roots ix = children_at ix CASCADER_ROOT_KEY" and all: "ix_all ix = subtree_walk (ix_childrenOf ix) [] (ix_roots ix)"
    using assms(1) unfolding ordered_index_def tree_index_def by blast
  have "node_at ix (cn_value c) = Some c" if "c \<in> set (children_at ix k)" for k c
    using tree(1) that unfolding maps_agree_def by blast
  then have "\<not> isCascaderMoreNode c" if "c \<in> set (children_at ix k)" for k c using assms(2) map_of_SomeD that by fast
  from flat_walk_draws [OF tree dist this order_refl, where k = CASCADER_ROOT_KEY and pre = "[]" and depth = 0]
  show ?thesis by (simp add: roots all flattenCascaderTree_def draws_def)
qed



end
