(* ===== verification/Cascader_Async_Merge.thy ===== *)
theory Cascader_Async_Merge
  imports Cascader_Loader_Inv Cascader_Flatten
begin

text \<open>
  The loader and the index together: what the cascader draws is the base index with the loader's pages merged in
  (\<^verbatim>\<open>cascader.tsx\<close>), and whatever a data source answers, that merge does not throw.
\<close>

section \<open>Pages without null entries\<close>

fun null_free :: "cascader_node option list \<Rightarrow> bool" where
  "null_free [] = True"
| "null_free (None # ns) = False"
| "null_free (Some (CNode v pr ch) # ns) = (null_free ch \<and> null_free ns)"

lemma merge_insert_total: "null_free ns \<Longrightarrow> merge_insert key ns ix \<noteq> None"
proof (induction key ns ix rule: merge_insert.induct)
  case (3 key v pr ch ns ix)
  let ?ix = "insert_node key (CNode v pr ch) ix"
  show ?case
  proof (cases "node_at ix v = None")
    case True
    have "(if ch = [] then Some ?ix else merge_insert v ch ?ix) \<noteq> None" using 3 True by auto
    then obtain ix2 where two: "(if ch = [] then Some ?ix else merge_insert v ch ?ix) = Some ix2" by blast
    with "3.IH"(3) [of ?ix ix2] True "3.prems" show ?thesis by (simp add: Let_def)
  qed (use 3 in simp)
qed simp_all

definition clean :: "cascader_node \<Rightarrow> bool" where
  "clean n \<longleftrightarrow> null_free (cn_children n)"

definition clean_pages :: "(string \<times> cascader_node list) list \<Rightarrow> bool" where
  "clean_pages pgs \<longleftrightarrow> (\<forall>(k, ns)\<in>set pgs. \<forall>n\<in>set ns. clean n)"

lemma null_free_map: "null_free (map Some ns) \<longleftrightarrow> (\<forall>n\<in>set ns. clean n)"
proof (induction ns)
  case (Cons n ns)
  then show ?case by (cases n) (simp add: clean_def)
qed simp

lemma merge_pages_total: "clean_pages pgs \<Longrightarrow> merge_pages pgs ix \<noteq> None"
proof (induction pgs ix rule: merge_pages.induct)
  case (2 key ns pgs ix)
  then have "merge_insert key (map Some ns) ix \<noteq> None"
    by (intro merge_insert_total) (simp add: null_free_map clean_pages_def)
  with 2 show ?case by (auto simp: clean_pages_def)
qed simp

lemma remember_clean: "remember ns m = (True, m') \<Longrightarrow> n \<in> set (nodes_of ns) \<Longrightarrow> clean n"
proof -
  have "remember ns m = (True, m') \<Longrightarrow> null_free ns" for ns m m'
    by (induction ns m arbitrary: m' rule: remember.induct) (auto simp: Let_def split: if_splits prod.splits bool.splits)
  moreover have "null_free ns \<Longrightarrow> n \<in> set (nodes_of ns) \<Longrightarrow> clean n" for ns
    by (induction ns rule: null_free.induct) (auto simp: nodes_of_def map_filter_simps clean_def)
  ultimately show "remember ns m = (True, m') \<Longrightarrow> n \<in> set (nodes_of ns) \<Longrightarrow> clean n" by blast
qed

section \<open>The loader keeps its pages so\<close>

lemma clean_update: "clean_pages pgs \<Longrightarrow> \<forall>n\<in>set ns. clean n \<Longrightarrow> clean_pages (AList.update k ns pgs)"
  by (induction pgs) (auto simp: clean_pages_def)

lemma clean_delete: "clean_pages pgs \<Longrightarrow> clean_pages (AList.delete k pgs)"
  by (auto simp: clean_pages_def AList.delete_eq)

lemma clean_bucket: "clean_pages pgs \<Longrightarrow> map_of pgs k = Some ns \<Longrightarrow> n \<in> set ns \<Longrightarrow> clean n"
  by (auto simp: clean_pages_def dest: map_of_SomeD)

lemma clean_withPage:
  assumes "clean_pages (pages st)" "\<forall>n\<in>set items. clean n"
  shows "clean_pages (pages (withPage key items appending hm cursor st))"
proof -
  have sub: "n \<in> set (merge_page seen items) \<Longrightarrow> n \<in> set items" for n seen
    by (induction seen items rule: merge_page.induct) (auto split: if_splits)
  moreover have "\<forall>n\<in>set (page_of st key). clean n"
    using clean_bucket [OF assms(1), of key] by (cases "map_of (pages st) key") (simp_all add: page_of_def)
  ultimately show ?thesis using assms by (auto simp: withPage_def Let_def intro!: clean_update dest: sub)
qed

lemma clean_withChain:
  assumes "clean_pages (pages st)" "\<forall>n\<in>set chain. clean n"
  shows "clean_pages (pages (withChain chain st))"
proof -
  have "clean_pages pgs \<Longrightarrow> \<forall>n\<in>set chain. clean n \<Longrightarrow> clean_pages (chain_pages key chain pgs)" for key chain pgs
  proof (induction key chain pgs rule: chain_pages.induct)
    case (2 key n ns pgs)
    have "clean_pages (case map_of pgs key of None \<Rightarrow> AList.update key [n] pgs
        | Some bucket \<Rightarrow> if list_ex (\<lambda>x. cn_value x = cn_value n) bucket then pgs else AList.update key (bucket @ [n]) pgs)"
      using "2.prems" clean_bucket [OF "2.prems"(1), of key] by (auto intro!: clean_update split: option.split)
    from "2.IH" [OF this] "2.prems"(2) show ?case by simp
  qed simp
  with assms show ?thesis by (simp add: withChain_def)
qed

lemma runLoad_pages [simp]: "pages (ld_store (runLoad p k reason c a s)) = pages (ld_store s)"
  by (simp add: runLoad_def Let_def issue_def abortKey_def withLoadState_def split: option.split)

lemma abortKey_store_same [simp]: "ld_store (abortKey k s) = ld_store s"
  by (simp add: abortKey_def split: option.split)

lemma resolveValues_pages [simp]: "ld_store (resolveValues p vs s) = ld_store s"
proof -
  have one: "ld_store (runResolve p v s) = ld_store s" for v s by (simp add: runResolve_def issue_def)
  have "ld_store (fold f vs s) = ld_store s" if "\<And>v s. ld_store (f v s) = ld_store s" for f vs s
    using that by (induction vs arbitrary: s) simp_all
  note kept = this
  show ?thesis unfolding resolveValues_def by (simp add: kept one)
qed

lemma respond_clean:
  assumes "clean_pages (pages (ld_store s))"
  shows "clean_pages (pages (ld_store (respond r resp s)))"
proof -
  obtain ok kn where rem: "remember (response_items resp) (ld_known s) = (ok, kn)" by fastforce
  have new: "\<forall>n\<in>set (nodes_of (response_items resp)). clean n" if ok using rem that remember_clean by simp
  show ?thesis
    using assms rem new
    by (cases "rq_kind r")
       (auto simp: respond_def levelDone_def levelFailed_def searchDone_def searchFailed_def resolveDone_def resolveFailed_def
          Let_def settle_controller_def settle_inflight_def withLoadState_def withDetached_def
          intro!: clean_withPage clean_withChain split: prod.splits)
qed

lemma step_clean:
  assumes "loader_step s s'" "clean_pages (pages (ld_store s))"
  shows "clean_pages (pages (ld_store s'))"
  using assms
proof (induction rule: loader_step.induct)
  case (response r s resp)
  then show ?case using respond_clean by blast
qed (auto simp: ensureLevel_def loadMore_def retryLevel_def invalidateLevel_def prefetchNode_def prefetchFire_def runSearch_def
      issue_def searchCleanup_def searchIdle_def onClose_def cancelAll_def abort_all_def onLoadKey_def createStore_def commit_def
      Let_def clean_delete clean_pages_def [of "[]"] split: option.splits)

lemma reachable_clean: "loader_reachable s \<Longrightarrow> clean_pages (pages (ld_store s))"
proof (induction rule: loader_reachable.induct)
  case (step s s')
  then show ?case using step_clean by blast
qed (simp add: loader_start_def createStore_def clean_pages_def)

section \<open>What is loaded is found\<close>

text \<open>C28: What the loader holds can be drawn.  In every reachable state of the loader, whatever the data source answered and
  in whatever order, merging the pages into any base index does not throw, and every node of every loaded page is in the
  merged index.\<close>

theorem loaded_is_indexed:
  assumes "loader_reachable s"
  shows "\<exists>m. mergeCascaderIndex base (pages (ld_store s)) (detached (ld_store s)) = Some m \<and>
    (\<forall>k. \<forall>n\<in>set (page_of (ld_store s) k). node_at m (cn_value n) \<noteq> None)"
proof (cases "pages (ld_store s) = [] \<and> detached (ld_store s) = []")
  case True
  then show ?thesis by (simp add: mergeCascaderIndex_def page_of_def)
next
  case False
  have "merge_pages (pages (ld_store s)) base \<noteq> None" by (rule merge_pages_total [OF reachable_clean [OF assms]])
  with False obtain m where m: "mergeCascaderIndex base (pages (ld_store s)) (detached (ld_store s)) = Some m"
    by (auto simp: mergeCascaderIndex_def Let_def)
  then obtain ix where ix: "merge_pages (pages (ld_store s)) base = Some ix"
    "\<And>v. node_at m v = (case node_at ix v of Some n \<Rightarrow> Some n | None \<Rightarrow> map_of (detached (ld_store s)) v)"
    using merge_result [OF m] False by metis
  have "node_at m (cn_value n) \<noteq> None" if "n \<in> set (page_of (ld_store s) k)" for n k
  proof -
    obtain ns where "(k, ns) \<in> set (pages (ld_store s))" "n \<in> set ns"
      using \<open>n \<in> set (page_of (ld_store s) k)\<close> by (cases "map_of (pages (ld_store s)) k") (auto simp: page_of_def dest: map_of_SomeD)
    from merge_pages_top [OF ix(1) this] show ?thesis by (auto simp: ix(2))
  qed
  with m show ?thesis by blast
qed

definition loaded_props :: loader_props where
  "loaded_props = \<lparr>lp_base = empty_index, lp_getChildren = True, lp_onSearch = False, lp_resolveValue = False, lp_prefetch = False\<rparr>"

definition loaded_once :: loader where
  "loaded_once = respond (hd (ld_pending (ensureLevel loaded_props CASCADER_ROOT_KEY ReasonLevel loader_start)))
     (Bare [Some (plain_node ''eu'' [Some (plain_node ''fr'' [])])]) (ensureLevel loaded_props CASCADER_ROOT_KEY ReasonLevel loader_start)"

lemma loaded_once_reachable: "loader_reachable loaded_once"
proof -
  have "level_key CASCADER_ROOT_KEY" by code_simp
  moreover have "ld_pending (ensureLevel loaded_props CASCADER_ROOT_KEY ReasonLevel loader_start) \<noteq> []" by code_simp
  ultimately show ?thesis unfolding loaded_once_def
    by (intro loader_reachable.step [OF _ response] loader_reachable.step [OF start] ensure hd_in_set)
qed

theorem loaded_is_indexed_witness:
  "\<exists>m. mergeCascaderIndex empty_index (pages (ld_store loaded_once)) (detached (ld_store loaded_once)) = Some m \<and>
    map cn_value (page_of (ld_store loaded_once) CASCADER_ROOT_KEY) = [''eu''] \<and>
    (\<forall>k. \<forall>n\<in>set (page_of (ld_store loaded_once) k). node_at m (cn_value n) \<noteq> None)"
proof -
  have page: "map cn_value (page_of (ld_store loaded_once) CASCADER_ROOT_KEY) = [''eu'']" by code_simp
  obtain m where "mergeCascaderIndex empty_index (pages (ld_store loaded_once)) (detached (ld_store loaded_once)) = Some m"
    "\<forall>k. \<forall>n\<in>set (page_of (ld_store loaded_once) k). node_at m (cn_value n) \<noteq> None"
    using loaded_is_indexed [OF loaded_once_reachable, of empty_index] by blast
  with page show ?thesis by (intro exI conjI)
qed

end
