(* ===== verification/Cascader_Control.thy ===== *)
theory Cascader_Control
  imports Prelude
begin

text \<open>
  The controlled or uncontrolled state of the cascader's root (\<^verbatim>\<open>useControllable\<close> of \<^verbatim>\<open>cascader.tsx\<close>): a value a parent may
  own, its last committed reading, the advance within a batch of updates, and the reports to the parent.
\<close>

section \<open>The hook\<close>

text \<open>
  \<open>ct_prop\<close> is the prop of the current render and \<open>ct_state\<close> the value kept inside; the other fields are the two refs.
  \<open>ct_advanced\<close> says that the reading is not the committed one any more, so that an array that is handed back unchanged
  is not the last prop either.  A report carries the reason the caller wrote to its ref.
\<close>

record 'v control =
  ct_prop :: "'v option"
  ct_state :: 'v
  ct_value :: 'v
  ct_controlled :: bool
  ct_lastProp :: "'v option"
  ct_advanced :: bool
  ct_reports :: "('v \<times> string) list"

definition control_reading :: "'v control \<Rightarrow> 'v" where
  "control_reading c = (case ct_prop c of Some v \<Rightarrow> v | None \<Rightarrow> ct_state c)"

text \<open>The two effects that run after every commit.\<close>

definition control_commit :: "'v control \<Rightarrow> 'v control" where
  "control_commit c =
     c\<lparr>ct_value := control_reading c, ct_controlled := (ct_prop c \<noteq> None), ct_lastProp := ct_prop c, ct_advanced := False\<rparr>"

definition control_init :: "'v option \<Rightarrow> 'v \<Rightarrow> 'v control" where
  "control_init prop defaultValue =
     control_commit \<lparr>ct_prop = prop, ct_state = defaultValue, ct_value = defaultValue, ct_controlled = False, ct_lastProp = prop,
       ct_advanced = False, ct_reports = []\<rparr>"

definition control_advance :: "string \<Rightarrow> 'v \<Rightarrow> 'v control \<Rightarrow> 'v control" where
  "control_advance reason v c =
     c\<lparr>ct_value := v, ct_advanced := True, ct_state := (if ct_controlled c then ct_state c else v),
       ct_reports := ct_reports c @ [(v, reason)]\<rparr>"

text \<open>\<^verbatim>\<open>set\<close> on a primitive, which \<^verbatim>\<open>Object.is\<close> compares by value.\<close>

definition set_value :: "string \<Rightarrow> 'v \<Rightarrow> 'v control \<Rightarrow> 'v control" where
  "set_value reason v c =
     (if v = ct_value c \<and> (\<not> ct_controlled c \<or> ct_lastProp c = Some v) then c else control_advance reason v c)"

text \<open>\<^verbatim>\<open>set\<close> on an array, compared by reference: the update returns \<open>None\<close> when it hands back the array it was given.\<close>

definition set_array :: "string \<Rightarrow> ('v \<Rightarrow> 'v option) \<Rightarrow> 'v control \<Rightarrow> 'v control" where
  "set_array reason update c =
     (case update (ct_value c) of
        Some v \<Rightarrow> control_advance reason v c
      | None \<Rightarrow> if \<not> ct_controlled c \<or> \<not> ct_advanced c then c else control_advance reason (ct_value c) c)"

text \<open>A render with the prop the parent passes now.\<close>

definition control_render :: "'v option \<Rightarrow> 'v control \<Rightarrow> 'v control" where
  "control_render prop c = c\<lparr>ct_prop := prop\<rparr>"

section \<open>What it promises\<close>

definition uncontrolled :: "'v control \<Rightarrow> bool" where
  "uncontrolled c \<longleftrightarrow> \<not> ct_controlled c \<and> ct_prop c = None \<and> ct_value c = ct_state c"

lemma uncontrolled_set [simp]:
  "uncontrolled c \<Longrightarrow> uncontrolled (control_advance reason v c)"
  "uncontrolled c \<Longrightarrow> uncontrolled (set_value reason v c)"
  "uncontrolled c \<Longrightarrow> uncontrolled (set_array reason f c)"
  "uncontrolled c \<Longrightarrow> uncontrolled (control_commit c)"
  by (auto simp: uncontrolled_def control_advance_def set_value_def set_array_def control_commit_def control_reading_def split: option.split)

lemma control_init_uncontrolled [simp]: "uncontrolled (control_init None v)"
  by (simp add: uncontrolled_def control_init_def control_commit_def control_reading_def)

lemma set_value_reading: "uncontrolled c \<Longrightarrow> control_reading (set_value reason v c) = v"
  by (simp add: uncontrolled_def control_reading_def set_value_def control_advance_def)

lemma set_array_reading:
  "uncontrolled c \<Longrightarrow> control_reading (set_array reason f c) = (case f (control_reading c) of Some v \<Rightarrow> v | None \<Rightarrow> control_reading c)"
  by (simp add: uncontrolled_def control_reading_def set_array_def control_advance_def split: option.split)

text \<open>A parent that declines a change hears of it every time.  Under a parent that owns the value and keeps passing the
  same prop, asking for anything else is reported as often as it is asked, and the value shown stays the parent's; asking
  back for the parent's own value after that is reported once more, while at rest it is not.\<close>

theorem declined_change_repeats:
  assumes "ct_controlled c" "ct_prop c = Some p" "ct_lastProp c = Some p" "v \<noteq> p"
  shows "ct_reports ((set_value reason v ^^ n) c) = ct_reports c @ replicate n (v, reason) \<and>
    control_reading ((set_value reason v ^^ n) c) = p \<and>
    ct_reports (set_value back p ((set_value reason v ^^ Suc n) c)) = ct_reports c @ replicate (Suc n) (v, reason) @ [(p, back)] \<and>
    (ct_value c = p \<longrightarrow> set_value back p c = c)"
proof -
  have keep: "ct_controlled ((set_value reason v ^^ n) c) \<and> ct_prop ((set_value reason v ^^ n) c) = Some p \<and>
      ct_lastProp ((set_value reason v ^^ n) c) = Some p" for n
    using assms by (induction n) (auto simp: set_value_def control_advance_def)
  have advance: "set_value reason v ((set_value reason v ^^ n) c) = control_advance reason v ((set_value reason v ^^ n) c)" for n
    using keep [of n] assms(4) by (simp add: set_value_def)
  have log: "ct_reports ((set_value reason v ^^ n) c) = ct_reports c @ replicate n (v, reason)" for n
  proof (induction n)
    case (Suc n)
    then show ?case using advance [of n] by (simp add: control_advance_def replicate_append_same)
  qed simp
  have "ct_value ((set_value reason v ^^ Suc n) c) = v" using advance [of n] by (simp add: control_advance_def)
  then have "set_value back p ((set_value reason v ^^ Suc n) c) = control_advance back p ((set_value reason v ^^ Suc n) c)"
    using assms(4) by (simp only: set_value_def) simp
  then have "ct_reports (set_value back p ((set_value reason v ^^ Suc n) c)) =
      ct_reports ((set_value reason v ^^ Suc n) c) @ [(p, back)]" by (simp add: control_advance_def)
  moreover have "ct_value c = p \<longrightarrow> set_value back p c = c" using assms by (simp add: set_value_def)
  moreover have "control_reading ((set_value reason v ^^ n) c) = p" using keep [of n] by (simp add: control_reading_def)
  ultimately show ?thesis using log [of n] log [of "Suc n"] by simp
qed

theorem declined_change_repeats_witness:
  "ct_reports ((set_value ''escape-key'' False ^^ 2) (control_init (Some True) False)) =
     [(False, ''escape-key''), (False, ''escape-key'')]"
proof -
  let ?c = "control_init (Some True) False"
  have "ct_controlled ?c" "ct_prop ?c = Some True" "ct_lastProp ?c = Some True" "ct_reports ?c = []" "False \<noteq> True"
    by (simp_all add: control_init_def control_commit_def)
  from declined_change_repeats [where n = 2 and reason = "''escape-key''", OF this(1,2,3,5)] this(4) show ?thesis by (simp add: numeral_2_eq_2)
qed

end
