(* ===== verification/Cascader_Root.thy ===== *)
theory Cascader_Root
  imports Cascader_Async_Merge Cascader_Control
begin

text \<open>
  The root of the cascader (\<^verbatim>\<open>cascader.tsx\<close>): the five controllable values, the loader, the held navigation and the
  announcements as one state; what a render derives from it; and the navigation and selection handlers.  A handler
  reads the last committed render, \<open>cs_latest\<close>, through \<^verbatim>\<open>latest.current\<close> or through the closure of that render.  Base
  UI's combobox is outside: it calls the handlers with the items and reasons it chose.
\<close>

section \<open>Types\<close>

datatype cascader_mode = ModeDrill | ModeColumns | ModeTree

datatype search_scope = ScopeLevel | ScopeDeep

datatype select_reason = ReasonSelect | ReasonDeselect | ReasonClear

text \<open>A value is a string, or an array under \<^verbatim>\<open>multiple\<close>.\<close>

datatype selection_value = OneValue string | ManyValues "string list"

definition toArray :: "selection_value \<Rightarrow> string list" where
  "toArray v = (case v of ManyValues vs \<Rightarrow> filter (\<lambda>e. e \<noteq> []) vs | OneValue x \<Rightarrow> if x = [] then [] else [x])"

text \<open>The labels the announcements use; the others are only drawn.\<close>

record cascader_labels =
  lb_loading :: string
  lb_loadingMore :: string
  lb_error :: string
  lb_empty :: string
  lb_searching :: string
  lb_root :: "nat \<Rightarrow> string"
  lb_expanded :: "string \<Rightarrow> nat \<Rightarrow> string"
  lb_collapsed :: "string \<Rightarrow> string"
  lb_level :: "string \<Rightarrow> nat \<Rightarrow> nat \<Rightarrow> string"
  lb_results :: "nat \<Rightarrow> string"
  lb_maxReached :: "int \<Rightarrow> string"
  lb_cascade :: "string \<Rightarrow> nat \<Rightarrow> bool \<Rightarrow> string"

record cascader_props =
  cp_items :: "cascader_node option list"
  cp_getParent :: "(cascader_node \<Rightarrow> string option) option"
  cp_getChildren :: bool
  cp_onSearch :: bool
  cp_resolveValue :: bool
  cp_prefetch :: bool
  cp_listens :: bool
  cp_multiple :: bool
  cp_cascade :: bool
  cp_max :: "int option"
  cp_selectable :: cascader_selectable
  cp_mode :: cascader_mode
  cp_closeOnSelect :: bool
  cp_searchScope :: search_scope
  cp_filter :: "(cascader_node \<Rightarrow> string \<Rightarrow> bool) option"
  cp_revealSelected :: bool
  cp_inline :: bool
  cp_labels :: cascader_labels
  cp_foldText :: "string \<Rightarrow> string"

record announce_signal =
  as_seq :: nat
  as_toggled :: "string option"
  as_notice :: "string option"

datatype pending_kind = PendPush | PendAt nat | PendExpand

record pending_navigation =
  pn_value :: string
  pn_kind :: pending_kind

text \<open>What \<^verbatim>\<open>onValueChange\<close> is called with.\<close>

record selection_change =
  sc_value :: selection_value
  sc_node :: "cascader_node option"
  sc_path :: "cascader_node list"
  sc_nodes :: "cascader_node list"
  sc_reason :: select_reason

text \<open>What a committed render leaves for the handlers.\<close>

record cascader_view =
  vw_props :: cascader_props
  vw_base :: cascader_index
  vw_index :: cascader_index
  vw_states :: "(string \<times> load_state) list"
  vw_selected :: "string list"
  vw_path :: "string list"
  vw_expanded :: "string list"
  vw_open :: bool
  vw_query :: string
  vw_deepResults :: "cascader_node list option"
  vw_levelItems :: "cascader_node list"
  vw_levelRendered :: "cascader_node list"
  vw_treeRows :: "flat_node list"

record cascader_state =
  cs_value :: "selection_value control"
  cs_path :: "string list control"
  cs_expanded :: "string list control"
  cs_open :: "bool control"
  cs_query :: "string control"
  cs_loader :: loader
  cs_signal :: announce_signal
  cs_pending :: "pending_navigation option"
  cs_cache :: "(string \<times> cascader_node) list"
  cs_flyouts :: "string list"
  cs_changes :: "selection_change list"
  cs_latest :: cascader_view

section \<open>What a render derives\<close>

definition base_index :: "cascader_props \<Rightarrow> cascader_index" where
  "base_index p = buildCascaderIndex (Some (cp_items p)) (cp_getParent p)"

definition matcher :: "cascader_props \<Rightarrow> cascader_node \<Rightarrow> string \<Rightarrow> bool" where
  "matcher p = (case cp_filter p of Some f \<Rightarrow> f | None \<Rightarrow> matchesCascaderQuery (cp_foldText p))"

definition last_value :: "string list \<Rightarrow> string option" where
  "last_value path = (if path = [] then None else Some (last path))"

text \<open>The levels on screen, which the loader's effect asks for.\<close>

definition screen_levels :: "cascader_mode \<Rightarrow> string list \<Rightarrow> string list \<Rightarrow> string list" where
  "screen_levels mode path expandedList =
     (case mode of
        ModeTree \<Rightarrow> CASCADER_ROOT_KEY # expandedList
      | ModeColumns \<Rightarrow> CASCADER_ROOT_KEY # path
      | ModeDrill \<Rightarrow> [root_or (last_value path)])"

definition loader_props_of :: "cascader_props \<Rightarrow> loader_props" where
  "loader_props_of p =
     \<lparr>lp_base = base_index p, lp_getChildren = cp_getChildren p, lp_onSearch = (cp_mode p \<noteq> ModeTree \<and> cp_onSearch p),
      lp_resolveValue = cp_resolveValue p, lp_prefetch = cp_prefetch p\<rparr>"

definition needsMoreRow :: "cascader_mode \<Rightarrow> (string \<times> load_state) list \<Rightarrow> string \<Rightarrow> nat \<Rightarrow> bool" where
  "needsMoreRow mode loadStates key childCount =
     (case map_of loadStates key of
        None \<Rightarrow> False
      | Some st \<Rightarrow>
          if childCount > 0 then st_hasMore st \<or> st_loading st \<or> st_error st
          else mode = ModeTree \<and> (st_loading st \<or> st_error st))"

definition with_more_row :: "cascader_mode \<Rightarrow> (string \<times> load_state) list \<Rightarrow> string \<Rightarrow> cascader_node list \<Rightarrow> cascader_node list" where
  "with_more_row mode loadStates key items =
     (if needsMoreRow mode loadStates key (length items) then items @ [createCascaderMoreNode key (length items)] else items)"

definition deep_results :: "cascader_props \<Rightarrow> cascader_index \<Rightarrow> search_slice option \<Rightarrow> string \<Rightarrow> string list \<Rightarrow> cascader_node list option" where
  "deep_results p ix search query path =
     (case searchResults (lp_onSearch (loader_props_of p)) (trim query) search of
        Some ns \<Rightarrow> Some ns
      | None \<Rightarrow>
          if cp_searchScope p = ScopeDeep \<and> trim query \<noteq> [] \<and> cp_mode p \<noteq> ModeTree
          then Some (searchCascaderDeep (cp_foldText p) (matcher p) ix query (last_value path) 200) else None)"

definition level_items :: "cascader_props \<Rightarrow> cascader_index \<Rightarrow> string list \<Rightarrow> string \<Rightarrow> cascader_node list" where
  "level_items p ix path query =
     filterCascaderLevel (cp_foldText p) (matcher p) (getCascaderChildren ix (last_value path)) query"

definition level_rendered ::
  "cascader_mode \<Rightarrow> (string \<times> load_state) list \<Rightarrow> string list \<Rightarrow> cascader_node list \<Rightarrow> cascader_node list option \<Rightarrow> cascader_node list" where
  "level_rendered mode loadStates path items deep =
     (case deep of Some ns \<Rightarrow> ns | None \<Rightarrow> with_more_row mode loadStates (root_or (last_value path)) items)"

text \<open>The empty string is no node.\<close>

definition node_of :: "string option \<Rightarrow> cascader_index \<Rightarrow> cascader_node option" where
  "node_of v ix = (case v of None \<Rightarrow> None | Some x \<Rightarrow> if x = [] then None else map_of (ix_byValue ix) x)"

record cascader_column =
  cc_parent :: "cascader_node option"
  cc_depth :: nat
  cc_activeValue :: "string option"
  cc_active :: bool
  cc_items :: "cascader_node list"

definition columns_of ::
  "cascader_mode \<Rightarrow> (string \<times> load_state) list \<Rightarrow> cascader_index \<Rightarrow> string list \<Rightarrow> cascader_node list \<Rightarrow> cascader_column list" where
  "columns_of mode loadStates ix path rendered =
     (if mode \<noteq> ModeColumns then []
      else map (\<lambda>depth.
        let parentValue = (if depth = 0 then None else Some (path ! (depth - 1)));
            active = (depth = length path);
            key = root_or parentValue
        in \<lparr>cc_parent = node_of parentValue ix, cc_depth = depth,
            cc_activeValue = (if depth < length path then Some (path ! depth) else None), cc_active = active,
            cc_items = (if active then rendered
                        else with_more_row mode loadStates key (getCascaderChildren ix parentValue))\<rparr>)
        [0..<Suc (length path)])"

definition tree_sentinels :: "(string \<times> load_state) list \<Rightarrow> cascader_index \<Rightarrow> string list \<Rightarrow> string list" where
  "tree_sentinels loadStates ix expanded =
     filter (\<lambda>key. needsMoreRow ModeTree loadStates key (length (children_get (ix_childrenOf ix) key)))
       (CASCADER_ROOT_KEY # expanded)"

text \<open>The values a tree query keeps: the matches and everything above them.\<close>

definition query_keep :: "cascader_props \<Rightarrow> cascader_index \<Rightarrow> string \<Rightarrow> string list" where
  "query_keep p ix normalized =
     concat (map (\<lambda>n. map cn_value (getCascaderPath ix (Some (cn_value n)))) (filter (\<lambda>n. matcher p n normalized) (ix_all ix)))"

definition tree_rows ::
  "cascader_props \<Rightarrow> (string \<times> load_state) list \<Rightarrow> cascader_index \<Rightarrow> string list \<Rightarrow> string \<Rightarrow> flat_node list option" where
  "tree_rows p loadStates ix expanded query =
     (if cp_mode p \<noteq> ModeTree then Some []
      else let normalized = normalizeCascaderQuery (cp_foldText p) query
           in if normalized = [] then flattenCascaderTree ix expanded (tree_sentinels loadStates ix expanded)
              else let keep = query_keep p ix normalized
                   in map_option (filter (\<lambda>row. cn_value (fn_node row) \<in> set keep))
                        (flattenCascaderTree ix (expanded @ keep) []))"

text \<open>A render, \<open>None\<close> when it throws.\<close>

definition render_view :: "cascader_props \<Rightarrow> cascader_state \<Rightarrow> cascader_view option" where
  "render_view p s =
     (let l = cs_loader s; path = control_reading (cs_path s); expanded = control_reading (cs_expanded s);
          query = control_reading (cs_query s); loadStates = states (ld_store l)
      in case mergeCascaderIndex (base_index p) (pages (ld_store l)) (detached (ld_store l)) of
           None \<Rightarrow> None
         | Some ix \<Rightarrow>
             (case tree_rows p loadStates ix expanded query of
                None \<Rightarrow> None
              | Some rows \<Rightarrow>
                  let deep = deep_results p ix (ld_search l) query path; items = level_items p ix path query
                  in Some \<lparr>vw_props = p, vw_base = base_index p, vw_index = ix, vw_states = loadStates,
                       vw_selected = toArray (control_reading (cs_value s)), vw_path = path, vw_expanded = expanded,
                       vw_open = control_reading (cs_open s), vw_query = query, vw_deepResults = deep, vw_levelItems = items,
                       vw_levelRendered = level_rendered (cp_mode p) loadStates path items deep, vw_treeRows = rows\<rparr>))"

definition rendered_items :: "cascader_view \<Rightarrow> cascader_node list" where
  "rendered_items v = (if cp_mode (vw_props v) = ModeTree then map fn_node (vw_treeRows v) else vw_levelRendered v)"

section \<open>Announcements\<close>

text \<open>The word joiner, three bytes of UTF-8.\<close>

definition ANNOUNCE_MARKER :: string where
  "ANNOUNCE_MARKER = [CHR 0xE2, CHR 0x81, CHR 0xA0]"

definition bumpAnnouncement :: "string option \<Rightarrow> cascader_state \<Rightarrow> cascader_state" where
  "bumpAnnouncement toggled s = s\<lparr>cs_signal := \<lparr>as_seq = as_seq (cs_signal s) + 1, as_toggled = toggled, as_notice = None\<rparr>\<rparr>"

definition announceNotice :: "string \<Rightarrow> cascader_state \<Rightarrow> cascader_state" where
  "announceNotice notice s = s\<lparr>cs_signal := \<lparr>as_seq = as_seq (cs_signal s) + 1, as_toggled = None, as_notice = Some notice\<rparr>\<rparr>"

definition announced_matches :: "cascader_view \<Rightarrow> nat" where
  "announced_matches v =
     (case vw_deepResults v of
        Some ns \<Rightarrow> length ns
      | None \<Rightarrow>
          let normalized = normalizeCascaderQuery (cp_foldText (vw_props v)) (vw_query v)
          in if normalized = [] then 0
             else length (filter (\<lambda>n. \<not> isCascaderMoreNode n \<and> matcher (vw_props v) n normalized) (rendered_items v)))"

definition load_flag :: "(load_state \<Rightarrow> bool) \<Rightarrow> load_state option \<Rightarrow> bool" where
  "load_flag f st = (case st of None \<Rightarrow> False | Some x \<Rightarrow> f x)"

text \<open>The text below the notice, and whether it may wait for the next keystroke.\<close>

definition announcement_text :: "cascader_view \<Rightarrow> load_state option \<Rightarrow> string option \<Rightarrow> pending_navigation option \<Rightarrow> string \<times> bool" where
  "announcement_text v searchLoadState toggledValue pend =
     (let p = vw_props v; lb = cp_labels p; ix = vw_index v; total = length (rendered_items v);
          searching = (trim (vw_query v) \<noteq> []);
          toggled = (if cp_mode p = ModeTree then node_of toggledValue ix else None);
          pendingState = Option.bind pend (\<lambda>n. map_of (vw_states v) (pn_value n));
          levelState = (if searching then searchLoadState else map_of (vw_states v) (root_or (last_value (vw_path v))));
          currentParent = node_of (last_value (vw_path v)) ix
      in if load_flag st_error pendingState then (lb_error lb, False)
         else if pend \<noteq> None then (lb_loading lb, False)
         else if load_flag st_error levelState then (lb_error lb, False)
         else if load_flag st_loading levelState
              then (if searching then lb_searching lb else if total > 0 then lb_loadingMore lb else lb_loading lb, False)
         else if searching
              then (if announced_matches v = 0 then lb_empty lb else lb_results lb (announced_matches v), True)
         else case toggled of
                Some n \<Rightarrow> (if cn_value n \<in> set (vw_expanded v) then lb_expanded lb (cn_label (cn_props n)) (getCascaderCount ix n)
                           else lb_collapsed lb (cn_label (cn_props n)), False)
              | None \<Rightarrow>
                  (case currentParent of
                     Some n \<Rightarrow> (lb_level lb (cn_label (cn_props n)) (length (vw_path v) + 1) total, False)
                   | None \<Rightarrow> (lb_root lb total, False)))"

definition announcementTarget :: "cascader_view \<Rightarrow> load_state option \<Rightarrow> announce_signal \<Rightarrow> pending_navigation option \<Rightarrow> string \<times> bool" where
  "announcementTarget v searchLoadState signal pend =
     (if \<not> vw_open v \<and> \<not> cp_inline (vw_props v) then ([], False)
      else let marker = (if as_seq signal mod 2 = 1 then ANNOUNCE_MARKER else [])
           in case as_notice signal of
                Some notice \<Rightarrow>
                  if notice \<noteq> [] then (notice @ marker, False)
                  else (let (txt', wait) = announcement_text v searchLoadState (as_toggled signal) pend in (txt' @ marker, wait))
              | None \<Rightarrow> (let (txt', wait) = announcement_text v searchLoadState (as_toggled signal) pend in (txt' @ marker, wait)))"

section \<open>Navigation\<close>

text \<open>The state setters, with the reasons the callbacks report.\<close>

definition setPathWithReason :: "string \<Rightarrow> (string list \<Rightarrow> string list option) \<Rightarrow> cascader_state \<Rightarrow> cascader_state" where
  "setPathWithReason reason update s = s\<lparr>cs_path := set_array reason update (cs_path s)\<rparr>"

definition setQuery :: "string \<Rightarrow> cascader_state \<Rightarrow> cascader_state" where
  "setQuery q s = s\<lparr>cs_query := set_value [] q (cs_query s)\<rparr>"

definition setOpen :: "string \<Rightarrow> bool \<Rightarrow> cascader_state \<Rightarrow> cascader_state" where
  "setOpen reason b s = s\<lparr>cs_open := set_value reason b (cs_open s)\<rparr>"

definition setPending :: "pending_navigation option \<Rightarrow> cascader_state \<Rightarrow> cascader_state" where
  "setPending n s = s\<lparr>cs_pending := n\<rparr>"

definition needsChildren :: "cascader_view \<Rightarrow> cascader_node \<Rightarrow> bool" where
  "needsChildren v node =
     (if \<not> cp_getChildren (vw_props v) then False
      else case map_of (vw_states v) (cn_value node) of
             Some st \<Rightarrow> st_loading st \<or> st_error st
           | None \<Rightarrow> map_of (ix_childrenOf (vw_base v)) (cn_value node) = None)"

definition requestChildren :: "cascader_node \<Rightarrow> pending_kind \<Rightarrow> cascader_state \<Rightarrow> cascader_state" where
  "requestChildren node kind s =
     (let p = loader_props_of (vw_props (cs_latest s)); k = cn_value node;
          s1 = setPending (Some \<lparr>pn_value = k, pn_kind = kind\<rparr>) s
      in bumpAnnouncement None (s1\<lparr>cs_loader := ensureLevel p k ReasonLevel (retryLevel p k (cs_loader s1))\<rparr>))"

definition pushLevel :: "string \<Rightarrow> cascader_state \<Rightarrow> cascader_state" where
  "pushLevel v s = bumpAnnouncement None (setQuery [] (setPathWithReason ''drill'' (\<lambda>prev. Some (prev @ [v])) s))"

definition popLevel :: "cascader_state \<Rightarrow> cascader_state" where
  "popLevel s =
     bumpAnnouncement None (setPending None (setQuery []
       (setPathWithReason ''back'' (\<lambda>prev. if prev = [] then None else Some (butlast prev)) s)))"

definition goToDepth :: "int \<Rightarrow> cascader_state \<Rightarrow> cascader_state" where
  "goToDepth depth s =
     bumpAnnouncement None (setPending None (setQuery []
       (setPathWithReason ''breadcrumb'' (\<lambda>prev. Some (take (nat depth) prev)) s)))"

definition toggleExpanded :: "string \<Rightarrow> cascader_state \<Rightarrow> cascader_state" where
  "toggleExpanded v s =
     bumpAnnouncement (Some v) (s\<lparr>cs_expanded := set_array []
       (\<lambda>prev. Some (if v \<in> set prev then removeAll v prev else prev @ [v])) (cs_expanded s)\<rparr>)"

definition goToLevelAt :: "string \<Rightarrow> nat \<Rightarrow> cascader_state \<Rightarrow> cascader_state" where
  "goToLevelAt v depth s =
     bumpAnnouncement None (setQuery [] (setPathWithReason ''drill'' (\<lambda>prev. Some (take depth prev @ [v])) s))"

definition navigateAt :: "cascader_node \<Rightarrow> nat \<Rightarrow> cascader_state \<Rightarrow> cascader_state" where
  "navigateAt node depth s =
     (if cp_mode (vw_props (cs_latest s)) = ModeTree then toggleExpanded (cn_value node) s
      else if needsChildren (cs_latest s) node then requestChildren node (PendAt depth) s
      else goToLevelAt (cn_value node) depth s)"

definition navigate :: "cascader_node \<Rightarrow> cascader_state \<Rightarrow> cascader_state" where
  "navigate node s =
     (let v = cs_latest s in
      if cp_mode (vw_props v) = ModeTree
      then (if cn_value node \<notin> set (vw_expanded v) \<and> needsChildren v node then requestChildren node PendExpand s
            else toggleExpanded (cn_value node) s)
      else if vw_deepResults v \<noteq> None
      then (let trail = getCascaderPath (vw_index v) (Some (cn_value node))
            in if needsChildren v node then requestChildren node (PendAt (length trail - 1)) s
               else bumpAnnouncement None (setQuery [] (setPathWithReason ''drill'' (\<lambda>_. Some (map cn_value trail)) s)))
      else if needsChildren v node then requestChildren node PendPush s
      else pushLevel (cn_value node) s)"

text \<open>The effect that lets a held navigation happen once its level has loaded.\<close>

definition settlePending :: "cascader_state \<Rightarrow> cascader_state" where
  "settlePending s =
     (case cs_pending s of
        None \<Rightarrow> s
      | Some pend \<Rightarrow>
          (case map_of (vw_states (cs_latest s)) (pn_value pend) of
             None \<Rightarrow> s
           | Some st \<Rightarrow>
               if st_loading st \<or> st_error st then s
               else let s1 = setPending None s
                    in case pn_kind pend of
                         PendExpand \<Rightarrow> toggleExpanded (pn_value pend) s1
                       | PendAt depth \<Rightarrow> goToLevelAt (pn_value pend) depth s1
                       | PendPush \<Rightarrow> pushLevel (pn_value pend) s1))"

definition panel_live :: "cascader_view \<Rightarrow> bool" where
  "panel_live v \<longleftrightarrow> vw_open v \<or> cp_inline (vw_props v)"

text \<open>The effect that runs when the panel closes; \<open>before\<close> is the render before.\<close>

definition closeDropsPending :: "cascader_view \<Rightarrow> cascader_state \<Rightarrow> cascader_state" where
  "closeDropsPending before s =
     (if panel_live before \<and> \<not> panel_live (cs_latest s) then setPending None s else s)"

section \<open>Selection\<close>

definition bare_node :: "string \<Rightarrow> cascader_node" where
  "bare_node v = CNode v \<lparr>cn_label = v, cn_has_children = False, cn_count = None, cn_disabled = False, cn_keywords = []\<rparr> []"

definition resolveNode :: "cascader_state \<Rightarrow> string \<Rightarrow> cascader_node" where
  "resolveNode s v =
     (case map_of (ix_byValue (vw_index (cs_latest s))) v of
        Some n \<Rightarrow> n
      | None \<Rightarrow> (case map_of (cs_cache s) v of Some n \<Rightarrow> n | None \<Rightarrow> bare_node v))"

definition can_select :: "cascader_view \<Rightarrow> cascader_node \<Rightarrow> bool" where
  "can_select v node = isCascaderSelectable (vw_index v) node (cp_selectable (vw_props v))"

text \<open>The one place where the selection changes.\<close>

definition emitSelection :: "string list \<Rightarrow> cascader_node option \<Rightarrow> select_reason \<Rightarrow> cascader_state \<Rightarrow> cascader_state" where
  "emitSelection nextValues node reason s =
     (let v = cs_latest s in
      if nextValues = vw_selected v then s
      else let next = (if cp_multiple (vw_props v) then ManyValues nextValues
                       else OneValue (case nextValues of [] \<Rightarrow> [] | x # xs \<Rightarrow> x));
               s1 = s\<lparr>cs_value := (if cp_multiple (vw_props v) then set_array [] (\<lambda>_. Some next) (cs_value s)
                                   else set_value [] next (cs_value s))\<rparr>
           in if \<not> cp_listens (vw_props v) then s1
              else let chain = (case node of None \<Rightarrow> [] | Some n \<Rightarrow> getCascaderPath (vw_index v) (Some (cn_value n)))
                   in s1\<lparr>cs_changes := cs_changes s1 @ [\<lparr>sc_value = next, sc_node = node,
                         sc_path = (case node of None \<Rightarrow> [] | Some n \<Rightarrow> if chain \<noteq> [] then chain else [n]),
                         sc_nodes = map (resolveNode s) nextValues, sc_reason = reason\<rparr>]\<rparr>)"

text \<open>\<^verbatim>\<open>find\<close> gives a string, and the branches below test it for truth: an empty one counts as none.\<close>

definition find_value :: "(string \<Rightarrow> bool) \<Rightarrow> string list \<Rightarrow> string option" where
  "find_value P vs = (case List.find P vs of None \<Rightarrow> None | Some v \<Rightarrow> if v = [] then None else Some v)"

definition setSelection :: "string list \<Rightarrow> select_reason option \<Rightarrow> cascader_state \<Rightarrow> cascader_state" where
  "setSelection values reason s =
     (let current = vw_selected (cs_latest s);
          added = find_value (\<lambda>e. e \<notin> set current) values;
          removed = find_value (\<lambda>e. e \<notin> set values) current;
          or = (\<lambda>r. case reason of Some x \<Rightarrow> x | None \<Rightarrow> r)
      in if reason = Some ReasonClear then emitSelection values None ReasonClear s
         else case added of
                Some a \<Rightarrow> emitSelection values (Some (resolveNode s a)) (or ReasonSelect) s
              | None \<Rightarrow>
                  (case removed of
                     Some r \<Rightarrow> emitSelection values (Some (resolveNode s r)) (or ReasonDeselect) s
                   | None \<Rightarrow> emitSelection values None (or ReasonSelect) s))"

text \<open>How many values went along with the one pressed.\<close>

definition swept :: "bool \<Rightarrow> string list \<Rightarrow> string list \<Rightarrow> string \<Rightarrow> nat" where
  "swept selecting current next pressed =
     (if selecting then length (filter (\<lambda>e. e \<noteq> pressed \<and> e \<notin> set current) next)
      else length (filter (\<lambda>e. e \<noteq> pressed \<and> e \<notin> set next) current))"

definition exceeds :: "string list \<Rightarrow> int option \<Rightarrow> bool" where
  "exceeds vs limit = (case limit of None \<Rightarrow> False | Some m \<Rightarrow> int (length vs) > m)"

definition refuse :: "cascader_state \<Rightarrow> cascader_state" where
  "refuse s = (case cp_max (vw_props (cs_latest s)) of None \<Rightarrow> s
     | Some m \<Rightarrow> announceNotice (lb_maxReached (cp_labels (vw_props (cs_latest s))) m) s)"

definition commitSingle :: "cascader_node \<Rightarrow> cascader_state \<Rightarrow> cascader_state" where
  "commitSingle node s =
     (let s1 = emitSelection [cn_value node] (Some node) ReasonSelect s
      in if cp_closeOnSelect (vw_props (cs_latest s)) then setOpen ''item-press'' False s1 else setQuery [] s1)"

definition commitCascade :: "cascader_node \<Rightarrow> cascader_state \<Rightarrow> cascader_state" where
  "commitCascade node s =
     (let v = cs_latest s; current = vw_selected v; selecting = (cn_value node \<notin> set current);
          next = applyCascadeSelection (vw_index v) current (cn_value node) selecting (can_select v)
      in if selecting \<and> exceeds next (cp_max (vw_props v)) \<and> length next > length current then refuse s
         else let s1 = emitSelection next (Some node) (if selecting then ReasonSelect else ReasonDeselect) s;
                  n = swept selecting current next (cn_value node)
              in setQuery [] (if n > 0
                   then announceNotice (lb_cascade (cp_labels (vw_props v)) (cn_label (cn_props node)) n selecting) s1 else s1))"

definition commitMultiple :: "cascader_node \<Rightarrow> cascader_state \<Rightarrow> cascader_state" where
  "commitMultiple node s =
     (let v = cs_latest s; current = vw_selected v
      in setQuery [] (
           if cn_value node \<in> set current then emitSelection (removeAll (cn_value node) current) (Some node) ReasonDeselect s
           else if \<not> exceeds (current @ [cn_value node]) (cp_max (vw_props v))
                then emitSelection (current @ [cn_value node]) (Some node) ReasonSelect s
           else refuse s))"

definition commitNode :: "cascader_node \<Rightarrow> cascader_state \<Rightarrow> cascader_state" where
  "commitNode node s =
     (let p = vw_props (cs_latest s)
      in if \<not> cp_multiple p then commitSingle node s
         else if cp_cascade p then commitCascade node s
         else commitMultiple node s)"

text \<open>
  Base UI reports the whole selection it would have; the second component of the result says whether its event was
  cancelled, which also suppresses its own closing.
\<close>

definition handleSingleChange :: "cascader_node option \<Rightarrow> cascader_state \<Rightarrow> cascader_state \<times> bool" where
  "handleSingleChange next s =
     (let v = cs_latest s
      in case next of
           None \<Rightarrow> (s, False)
         | Some node \<Rightarrow>
             if isCascaderMoreNode node then (s, True)
             else if \<not> can_select v node \<and> isCascaderBranch (vw_index v) node then (navigate node s, True)
             else (commitNode node s, \<not> cp_closeOnSelect (vw_props v)))"

definition handleMultipleChange :: "cascader_node list \<Rightarrow> cascader_state \<Rightarrow> cascader_state \<times> bool" where
  "handleMultipleChange nextNodes s =
     (let v = cs_latest s; p = vw_props v; current = vw_selected v;
          added = List.find (\<lambda>n. cn_value n \<notin> set current) nextNodes
      in case added of
           Some n \<Rightarrow>
             if isCascaderMoreNode n then (s, True)
             else if \<not> can_select v n \<and> isCascaderBranch (vw_index v) n then (navigate n s, True)
             else if cp_cascade p then (commitNode n s, False)
             else if length nextNodes > length current \<and> exceeds (map cn_value nextNodes) (cp_max p) then (refuse s, True)
             else (setQuery [] (setSelection (map cn_value nextNodes) None s), False)
         | None \<Rightarrow>
             if cp_cascade p
             then (case List.find (\<lambda>e. e \<notin> cn_value ` set nextNodes) current of
                     None \<Rightarrow> (s, False)
                   | Some removed \<Rightarrow> (commitNode (resolveNode s removed) s, False))
             else if length nextNodes > length current \<and> exceeds (map cn_value nextNodes) (cp_max p) then (refuse s, True)
             else (setQuery [] (setSelection (map cn_value nextNodes) None s), False))"

definition handleComboboxValueChange :: "cascader_node list \<Rightarrow> cascader_state \<Rightarrow> cascader_state \<times> bool" where
  "handleComboboxValueChange next s =
     (if \<not> cp_multiple (vw_props (cs_latest s))
      then handleSingleChange (case next of [] \<Rightarrow> None | n # ns \<Rightarrow> Some n) s
      else handleMultipleChange next s)"

section \<open>Opening and closing\<close>

definition setFlyoutOpen :: "string \<Rightarrow> bool \<Rightarrow> cascader_state \<Rightarrow> cascader_state" where
  "setFlyoutOpen key b s = s\<lparr>cs_flyouts := set_put b key (cs_flyouts s)\<rparr>"

definition reveal_path :: "cascader_view \<Rightarrow> string list" where
  "reveal_path v = (case vw_selected v of [] \<Rightarrow> [] | first # rest \<Rightarrow>
     map cn_value (butlast (getCascaderPath (vw_index v) (Some first))))"

definition handleOpenChange :: "bool \<Rightarrow> string \<Rightarrow> bool \<Rightarrow> cascader_state \<Rightarrow> cascader_state \<times> bool" where
  "handleOpenChange nextOpen reason cancelled s =
     (if cancelled then (s, cancelled)
      else if \<not> nextOpen \<and> reason = ''escape-key'' \<and> cs_flyouts s \<noteq> [] then (s, True)
      else let s1 = setOpen reason nextOpen s
           in if \<not> nextOpen then (setQuery [] s1, False)
              else if cp_revealSelected (vw_props (cs_latest s))
              then (setPathWithReason ''reveal'' (\<lambda>_. Some (reveal_path (cs_latest s))) (setQuery [] s1), False)
              else (s1, False))"

section \<open>The headless selection\<close>

definition selectionRemove :: "string \<Rightarrow> cascader_state \<Rightarrow> cascader_state" where
  "selectionRemove v s = setSelection (removeAll v (vw_selected (cs_latest s))) None s"

definition selectionClear :: "cascader_state \<Rightarrow> cascader_state" where
  "selectionClear s = setSelection [] (Some ReasonClear) s"

section \<open>Rendering and committing\<close>

text \<open>The props of the five controllable values a parent passes.\<close>

record cascader_controls =
  ps_value :: "selection_value option"
  ps_path :: "string list option"
  ps_expanded :: "string list option"
  ps_open :: "bool option"
  ps_query :: "string option"

definition with_props :: "cascader_controls \<Rightarrow> cascader_state \<Rightarrow> cascader_state" where
  "with_props c s =
     s\<lparr>cs_value := control_render (ps_value c) (cs_value s), cs_path := control_render (ps_path c) (cs_path s),
       cs_expanded := control_render (ps_expanded c) (cs_expanded s), cs_open := control_render (ps_open c) (cs_open s),
       cs_query := control_render (ps_query c) (cs_query s)\<rparr>"

definition cache_selected :: "cascader_index \<Rightarrow> string list \<Rightarrow> (string \<times> cascader_node) list \<Rightarrow> (string \<times> cascader_node) list" where
  "cache_selected ix =
     fold (\<lambda>v c. case map_of (ix_byValue ix) v of None \<Rightarrow> c | Some n \<Rightarrow> AList.update v n c)"

text \<open>The loader's own level effect, on the levels of the render.\<close>

definition levelEffect :: "cascader_view \<Rightarrow> loader \<Rightarrow> loader" where
  "levelEffect v l =
     (if panel_live v \<and> cp_getChildren (vw_props v)
      then fold (\<lambda>k. ensureLevel (loader_props_of (vw_props v)) k ReasonLevel)
             (screen_levels (cp_mode (vw_props v)) (vw_path v) (vw_expanded v)) l
      else l)"

text \<open>
  A render with new props, its commit, and the effects: those of the controllable values, the loader's, which bring its
  ref up to date, cancel when the panel closed and ask for the levels on screen, the one that writes \<^verbatim>\<open>latest\<close>, and those
  of the held navigation.  The searches and resolutions of the loader are steps of its own.
\<close>

definition rerender :: "cascader_props \<Rightarrow> cascader_controls \<Rightarrow> cascader_state \<Rightarrow> cascader_state option" where
  "rerender p c s =
     (let s0 = with_props c s
      in case render_view p s0 of
           None \<Rightarrow> None
         | Some v \<Rightarrow>
             let l0 = commit (cs_loader s0);
                 l1 = (if panel_live (cs_latest s) \<and> \<not> panel_live v then onClose l0 else l0);
                 s1 = s0\<lparr>cs_cache := cache_selected (vw_index v) (vw_selected v) (cs_cache s0), cs_loader := levelEffect v l1,
                         cs_value := control_commit (cs_value s0), cs_path := control_commit (cs_path s0),
                         cs_expanded := control_commit (cs_expanded s0), cs_open := control_commit (cs_open s0),
                         cs_query := control_commit (cs_query s0), cs_latest := v\<rparr>
             in Some (closeDropsPending (cs_latest s) (settlePending s1)))"

end
