(* ===== verification/Cascader_Loader_Props.thy ===== *)
theory Cascader_Loader_Props
  imports Cascader_Loader_Inv
begin

text \<open>
  What the loader guarantees in every reachable state: no level is stuck loading, the newest request
  for a key wins, pages hold no value twice, and an answer that comes too late changes nothing.  The
  last section shows a trace on which the paging latch outlives a cancelled request.
\<close>

section \<open>Every step keeps the invariant\<close>

lemma settle_fields_live:
  assumes "s1 = settle_inflight r sg (settle_controller r s)"
  shows "live s1 q \<longleftrightarrow> live s q \<and> rq_token q \<noteq> rq_token r" "ld_store s1 = ld_store s" "ld_timer s1 = ld_timer s"
    "ld_epoch s1 = ld_epoch s" "ld_requestIds s1 = ld_requestIds s"
  using assms by (simp_all add: live_settle)

lemma levelDone_inv:
  assumes inv: "loader_inv s" and r: "r \<in> set (ld_pending s)" and kind: "rq_kind r = LoadLevel appending cursor reason"
  shows "loader_inv (levelDone r appending cursor resp s)"
proof -
  define s1 where "s1 = settle_inflight r (appending, or_empty cursor) (settle_controller r s)"
  have req: "req_inv s" and pages: "pages_ok (ld_store s)" using inv by (simp_all add: loader_inv_def store_inv_def)
  have req1: "req_inv s1" unfolding s1_def using req_inv_settle [OF req r, of "(appending, or_empty cursor)"] kind by simp
  note f = settle_fields_live [OF s1_def]
  from s1_def show ?thesis
  proof (cases rule: levelDone_cases [of s1 r appending cursor s resp, consumes 1])
    case (same ml kn)
    have "\<not> live s r" using not_stale_live [OF req r _ f(4,5)] same(2) kind by simp
    then show ?thesis unfolding same(1)
      by (intro settled_inv [OF inv r]) (use req1 f pages in simp_all)
  next
    case (failed ml kn er)
    show ?thesis unfolding failed(2)
      by (intro settled_inv [OF inv r]) (use req1 f pages in \<open>simp_all add: pages_ok_def split: if_splits\<close>)
  next
    case (page ml kn items hm c)
    show ?thesis unfolding page(3)
      by (intro settled_inv [OF inv r]) (use req1 f pages in \<open>auto simp: pages_withPage\<close>)
  qed
qed

text \<open>The same for a request that is not for a level, with a store that has the same levels loading.\<close>

lemma settled_other_inv:
  assumes inv: "loader_inv s" and r: "r \<in> set (ld_pending s)"
    and kind: "kind_signature (rq_kind r) = None" "\<not> level_key (rq_key r)"
    and st: "\<And>k. loading st k = loading (ld_store s) k" "pages_ok st"
  shows "loader_inv ((settle_controller r s)\<lparr>ld_store := st\<rparr>)"
proof (rule settled_inv [OF inv r])
  fix k assume "loading (ld_store ((settle_controller r s)\<lparr>ld_store := st\<rparr>)) k"
  then have "loading (ld_store s) k" using st(1) by simp
  moreover from this have "level_key k" using inv store_invD(1) by (auto simp: loader_inv_def)
  ultimately show "loading (ld_store s) k \<and> (rq_key r \<noteq> k \<or> \<not> live s r)" using kind(2) by auto
next
  show "req_inv ((settle_controller r s)\<lparr>ld_store := st\<rparr>)"
    using req_inv_settle_controller [OF _ r kind(1)] inv by (simp add: loader_inv_def)
qed (simp_all add: live_settle st(2))

lemma settled_other_base:
  assumes inv: "loader_inv s" and r: "r \<in> set (ld_pending s)"
    and kind: "kind_signature (rq_kind r) = None" "\<not> level_key (rq_key r)"
  shows "loader_inv (settle_controller r s)"
proof -
  have "pages_ok (ld_store s)" using inv by (simp add: loader_inv_def store_inv_def)
  then have "loader_inv ((settle_controller r s)\<lparr>ld_store := ld_store (settle_controller r s)\<rparr>)"
    by (intro settled_other_inv [OF assms]) simp_all
  then show ?thesis by (simp del: settle_controller_fields)
qed

lemma request_key:
  assumes "loader_inv s" "r \<in> set (ld_pending s)"
  shows "kind_key (rq_key r) (rq_kind r)"
  using assms req_invD(2) by (auto simp: loader_inv_def)

lemma searchDone_inv:
  assumes inv: "loader_inv s" and r: "r \<in> set (ld_pending s)" and kind: "rq_kind r = SearchFor query"
  shows "loader_inv (searchDone r query resp s)"
proof -
  define s1 where "s1 = settle_controller r s"
  have other: "kind_signature (rq_kind r) = None" "\<not> level_key (rq_key r)" using request_key [OF inv r] kind by auto
  have pages: "pages_ok (ld_store s)" using inv by (simp add: loader_inv_def store_inv_def)
  have base: "loader_inv s1" unfolding s1_def by (rule settled_other_base [OF inv r other])
  have hit: "loader_inv (s1\<lparr>ld_store := withDetached items (ld_store s1)\<rparr>)" for items
    unfolding s1_def by (rule settled_other_inv [OF inv r other]) (simp_all add: pages)
  have failed: "loader_inv (searchFailed r query s2)" if "loader_inv s2" for s2 using that by (simp add: searchFailed_def)
  obtain ok kn where rem: "remember (response_items resp) (ld_known s1) = (ok, kn)" by fastforce
  have store: "loader_inv (s1\<lparr>ld_known := kn, ld_store := st\<rparr>) = loader_inv (s1\<lparr>ld_store := st\<rparr>)" for st
    by (simp add: loader_inv_def store_inv_def)
  show ?thesis
    using base failed [of s1] failed [of "s1\<lparr>ld_known := kn\<rparr>"] hit rem
    by (simp add: searchDone_def Let_def store flip: s1_def)
qed

lemma resolveDone_inv:
  assumes inv: "loader_inv s" and r: "r \<in> set (ld_pending s)" and kind: "rq_kind r = ResolveOf value"
  shows "loader_inv (resolveDone r value resp s)"
proof -
  define s1 where "s1 = settle_controller r s"
  have other: "kind_signature (rq_kind r) = None" "\<not> level_key (rq_key r)" using request_key [OF inv r] kind by auto
  have pages: "pages_ok (ld_store s)" using inv by (simp add: loader_inv_def store_inv_def)
  have base: "loader_inv s1" unfolding s1_def by (rule settled_other_base [OF inv r other])
  have chain: "loader_inv (s1\<lparr>ld_store := withChain items (ld_store s1)\<rparr>)" for items
    unfolding s1_def by (rule settled_other_inv [OF inv r other]) (simp_all add: pages pages_withChain)
  have failed: "loader_inv (resolveFailed r value s2)" if "loader_inv s2" for s2 using that by (simp add: resolveFailed_def Let_def)
  obtain ok kn where rem: "remember (response_items resp) (ld_known s1) = (ok, kn)" by fastforce
  have store: "loader_inv (s1\<lparr>ld_known := kn, ld_store := st\<rparr>) = loader_inv (s1\<lparr>ld_store := st\<rparr>)" for st
    by (simp add: loader_inv_def store_inv_def)
  show ?thesis
    using base failed [of s1] failed [of "s1\<lparr>ld_known := kn\<rparr>"] chain rem
    by (simp add: resolveDone_def Let_def store flip: s1_def)
qed

lemma respond_inv:
  assumes "loader_inv s" "r \<in> set (ld_pending s)"
  shows "loader_inv (respond r resp s)"
  using assms levelDone_inv searchDone_inv resolveDone_inv by (cases "rq_kind r") (simp_all add: respond_def)

text \<open>Cancelling: nothing is live and nothing loads any more.\<close>

lemma cancel_state_other: "k \<noteq> key \<Longrightarrow> map_of (cancel_state prev key sts) k = map_of sts k"
  by (auto simp: cancel_state_def update_conv' delete_conv' split: option.split)

definition quiet :: "(string \<times> load_state) list \<Rightarrow> string \<Rightarrow> bool" where
  "quiet sts k \<longleftrightarrow> (\<forall>x. map_of sts k = Some x \<longrightarrow> \<not> st_loading x)"

lemma cancel_state_quiet:
  "map_of sts key = map_of (states prev) key \<or> quiet sts key \<Longrightarrow> quiet (cancel_state prev key sts) key"
  by (auto simp: cancel_state_def quiet_def update_conv' delete_conv' split: option.split)

lemma cancel_states:
  assumes "\<And>k. map_of sts k = map_of (states prev) k \<or> quiet sts k"
  shows "quiet (fold (cancel_state prev) keys sts) k \<or> k \<notin> set keys \<and> map_of (fold (cancel_state prev) keys sts) k = map_of (states prev) k"
  using assms
proof (induction keys arbitrary: sts)
  case (Cons key keys)
  let ?sts = "cancel_state prev key sts"
  have "map_of ?sts j = map_of (states prev) j \<or> quiet ?sts j" for j
  proof (cases "j = key")
    case True
    then show ?thesis using Cons.prems [of key] cancel_state_quiet [of sts key prev] by blast
  next
    case False
    with cancel_state_other [of j key prev sts] have "map_of ?sts j = map_of sts j" "quiet ?sts j = quiet sts j"
      by (simp_all add: quiet_def)
    then show ?thesis using Cons.prems [of j] by simp
  qed
  note IH = Cons.IH [OF this]
  show ?case
  proof (cases "k = key \<and> k \<notin> set keys")
    case True
    have "quiet ?sts key" using Cons.prems [of key] cancel_state_quiet by blast
    moreover have "map_of (fold (cancel_state prev) ks s') key = map_of s' key" if "key \<notin> set ks" for ks s'
      using that by (induction ks arbitrary: s') (simp_all add: cancel_state_other)
    ultimately show ?thesis using True by (auto simp: quiet_def)
  next
    case False
    with IH show ?thesis by auto
  qed
qed (use assms in auto)

lemma cancelAll_inv:
  assumes "loader_inv s"
  shows "loader_inv (cancelAll s) \<and> \<not> live (cancelAll s) r \<and> \<not> loading (ld_store (cancelAll s)) k"
proof -
  have inv: "req_inv s" "store_inv s" using assms by (simp_all add: loader_inv_def)
  have same: "s\<lparr>ld_epoch := ld_epoch s\<rparr> = s" by simp
  note none = req_inv_abort_all [OF inv(1), of "ld_epoch s", unfolded same, simplified]
  have fold_pages: "page_of ((ld_store s)\<lparr>states := x\<rparr>) = page_of (ld_store s)" for x by (simp add: page_of_def fun_eq_iff)
  have quiet_all: "\<not> loading (ld_store (cancelAll s)) j" for j
  proof -
    have keys: "j \<in> set (map fst (ld_controllers s))" if "loading (ld_store s) j"
      using store_invD(2) [OF inv(2) that] req_invD(4) [OF inv(1)] by (force dest: map_of_SomeD)
    have "quiet (fold (cancel_state (ld_store s)) (map fst (ld_controllers s)) (states (ld_store s))) j"
      using cancel_states [of "states (ld_store s)" "ld_store s" "map fst (ld_controllers s)" j] keys
      by (auto simp: quiet_def loading_def)
    moreover have "\<not> loading (ld_store s) j" if "ld_controllers s = []" using keys that by auto
    ultimately show ?thesis by (auto simp: cancelAll_def Let_def loading_def quiet_def)
  qed
  have live: "\<not> live (cancelAll s) q" for q using none by (simp add: cancelAll_def Let_def)
  have timer: "ld_timer (cancelAll s) = None" by (simp add: cancelAll_def Let_def)
  have "req_inv (cancelAll s)" using none by (simp add: cancelAll_def Let_def)
  moreover have "store_inv (cancelAll s)"
  proof (rule store_invI)
    show "pages_ok (ld_store (cancelAll s))"
      using store_invD(3) [OF inv(2)] by (simp add: cancelAll_def Let_def pages_ok_def fold_pages)
  qed (use quiet_all timer in simp_all)
  ultimately show ?thesis using live quiet_all by (simp add: loader_inv_def)
qed

lemma onLoadKey_inv:
  assumes "loader_inv s"
  shows "loader_inv (onLoadKey s)"
proof -
  have "req_inv (abort_all (s\<lparr>ld_epoch := ld_epoch s + 1\<rparr>))"
    using req_inv_abort_all [of s "ld_epoch s + 1"] assms by (simp add: loader_inv_def)
  then show ?thesis
    by (simp add: loader_inv_def onLoadKey_def store_inv_def loading_def pages_ok_def page_of_def createStore_def)
qed

lemma prefetch_inv:
  assumes "loader_inv s"
  shows "(case node of None \<Rightarrow> True | Some n \<Rightarrow> level_key (cn_value n)) \<Longrightarrow> loader_inv (prefetchNode p node s)"
    and "loader_inv (prefetchFire p s)"
proof -
  have timer: "loader_inv (s\<lparr>ld_timer := t\<rparr>)" if "\<And>v. t = Some v \<Longrightarrow> level_key v" for t
    using assms that by (simp add: loader_inv_def store_inv_def)
  then show "(case node of None \<Rightarrow> True | Some n \<Rightarrow> level_key (cn_value n)) \<Longrightarrow> loader_inv (prefetchNode p node s)"
    using assms by (auto simp: prefetchNode_def split: option.splits)
  show "loader_inv (prefetchFire p s)"
    using assms timer [of None] by (auto simp: prefetchFire_def loader_inv_def store_inv_def intro!: ensureLevel_inv [unfolded loader_inv_def store_inv_def] split: option.splits)
qed

lemma loader_step_inv:
  assumes "loader_step s s'" "loader_inv s"
  shows "loader_inv s'"
  using assms
proof (induction rule: loader_step.induct)
  case (close s)
  then show ?case using cancelAll_inv by (simp add: onClose_def)
next
  case (cleanup s)
  then show ?case by (simp add: searchCleanup_def abortKey_store_inv)
next
  case (idle s)
  then show ?case by (simp add: searchIdle_def abortKey_store_inv)
qed (simp_all add: ensureLevel_inv loadMore_inv retryLevel_inv invalidateLevel_inv prefetch_inv runSearch_inv
       resolveValues_inv respond_inv onLoadKey_inv commit_def)

lemma loader_reachable_inv: "loader_reachable s \<Longrightarrow> loader_inv s"
proof (induction rule: loader_reachable.induct)
  case start
  show ?case
    by (simp add: loader_start_def loader_inv_def req_inv_def live_def store_inv_def loading_def pages_ok_def page_of_def createStore_def)
qed (rule loader_step_inv)

section \<open>What holds in every reachable state\<close>

text \<open>C24: No level is stuck loading, and a level never holds a value twice.  However loads, pages, retries,
  invalidations, searches, resolutions, answers, closing and reloading interleave: a level that shows as loading has
  exactly one live request, neither aborted nor from before a reload, whose answer will be taken (it passes the
  staleness test); and every loaded level has distinct values.\<close>

theorem loader_single_flight:
  assumes "loader_reachable s"
  shows "(\<forall>k. loading (ld_store s) k \<longrightarrow> (\<exists>!r. live s r \<and> rq_key r = k) \<and> (\<forall>r. live s r \<and> rq_key r = k \<longrightarrow> \<not> stale r s)) \<and>
    (\<forall>k. distinct (map cn_value (page_of (ld_store s) k)))"
proof -
  have inv: "req_inv s" "store_inv s" using loader_reachable_inv [OF assms] by (simp_all add: loader_inv_def)
  have "\<not> stale r s" if "loading (ld_store s) k" "live s r" "rq_key r = k" for k r
  proof -
    have "\<not> is_resolve (rq_kind r)"
      using req_invD(2) [OF inv(1), of r] that store_invD(1) [OF inv(2) that(1)] by (cases "rq_kind r") (auto simp: live_def)
    with req_invD(5) [OF inv(1) that(2)] that(2) show ?thesis by (simp add: stale_def live_def)
  qed
  moreover have "\<exists>!r. live s r \<and> rq_key r = k" if "loading (ld_store s) k" for k
    using store_invD(2) [OF inv(2) that] live_unique [OF inv(1)] by blast
  moreover have "\<forall>k. distinct (map cn_value (page_of (ld_store s) k))" using store_invD(3) [OF inv(2)] by (simp add: pages_ok_def)
  ultimately show ?thesis by blast
qed

definition leaf :: "string \<Rightarrow> cascader_node" where
  "leaf v = CNode v \<lparr>cn_label = v, cn_has_children = False, cn_count = None, cn_disabled = False, cn_keywords = []\<rparr> []"

definition async_props :: loader_props where
  "async_props = \<lparr>lp_base = empty_index, lp_getChildren = True, lp_onSearch = False, lp_resolveValue = False, lp_prefetch = False\<rparr>"

definition asked :: loader where
  "asked = commit (ensureLevel async_props CASCADER_ROOT_KEY ReasonLevel loader_start)"

lemma asked_reachable: "loader_reachable asked"
proof -
  have "level_key CASCADER_ROOT_KEY" by code_simp
  then show ?thesis unfolding asked_def by (intro loader_reachable.step [OF _ committed] loader_reachable.step [OF start] ensure)
qed

theorem loader_single_flight_witness:
  "loading (ld_store asked) CASCADER_ROOT_KEY \<and> (\<exists>!r. live asked r \<and> rq_key r = CASCADER_ROOT_KEY)"
proof
  show "loading (ld_store asked) CASCADER_ROOT_KEY" by code_simp
  with loader_single_flight [OF asked_reachable] show "\<exists>!r. live asked r \<and> rq_key r = CASCADER_ROOT_KEY" by blast
qed

text \<open>C25: A late answer changes nothing the user sees.  When a request that was aborted or belongs
  to an earlier load key settles, with whatever result, the loaded pages, their states, the search and the reported
  errors all stay as they are.\<close>

theorem late_answer_ignored:
  assumes "r \<in> set (ld_pending s)" "\<not> live s r"
  shows "ld_store (respond r resp s) = ld_store s \<and> ld_search (respond r resp s) = ld_search s \<and>
    ld_errors (respond r resp s) = ld_errors s \<and> ld_controllers (respond r resp s) =
      (if map_of (ld_controllers s) (rq_key r) = Some (rq_token r) then AList.delete (rq_key r) (ld_controllers s)
       else ld_controllers s)"
proof -
  have gone: "rq_aborted r \<or> rq_epoch r \<noteq> ld_epoch s" using assms by (auto simp: live_def)
  then have "stale r (settle_controller r s)" "stale r (settle_inflight r sg (settle_controller r s))" for sg
    by (auto simp: stale_def)
  note old = this
  show ?thesis
  proof (cases "rq_kind r")
    case (LoadLevel appending cursor reason)
    then have "respond r resp s = settle_inflight r (appending, or_empty cursor) (settle_controller r s)"
      using old(2) by (simp add: respond_def levelDone_def levelFailed_def Let_def)
    then show ?thesis by (simp add: settle_inflight_def settle_controller_def)
  next
    case (SearchFor query)
    then have "respond r resp s = settle_controller r s"
      using old(1) by (simp add: respond_def searchDone_def searchFailed_def Let_def)
    then show ?thesis by (simp add: settle_controller_def)
  next
    case (ResolveOf v)
    then have "respond r resp s = settle_controller r s \<or>
        respond r resp s = (settle_controller r s)\<lparr>ld_attempted := removeAll v (ld_attempted (settle_controller r s))\<rparr>"
      using gone by (auto simp: respond_def resolveDone_def resolveFailed_def Let_def)
    then show ?thesis by (auto simp: settle_controller_def)
  qed
qed

definition closed_early :: loader where
  "closed_early = onClose asked"

theorem late_answer_ignored_witness:
  "ld_store (respond (hd (ld_pending closed_early)) (Bare [Some (leaf ''x'')]) closed_early) = ld_store closed_early \<and>
   ld_pending closed_early \<noteq> []"
proof -
  have "ld_pending closed_early \<noteq> [] \<and> rq_aborted (hd (ld_pending closed_early))" by code_simp
  then have "hd (ld_pending closed_early) \<in> set (ld_pending closed_early)" "\<not> live closed_early (hd (ld_pending closed_early))"
    "ld_pending closed_early \<noteq> []" by (auto simp: live_def)
  with late_answer_ignored [OF this(1,2), of "Bare [Some (leaf ''x'')]"] show ?thesis by blast
qed

text \<open>Closing the panel settles everything and forgets nothing.  In a reachable state, after the panel closed no level
  is loading and no request is live, while every loaded page is still there and no level that was not loading lost
  its state.\<close>

theorem close_keeps_cache:
  assumes "loader_reachable s"
  shows "\<not> loading (ld_store (onClose s)) k \<and> \<not> live (onClose s) r \<and>
    page_of (ld_store (onClose s)) k = page_of (ld_store s) k \<and> detached (ld_store (onClose s)) = detached (ld_store s) \<and>
    (\<not> loading (ld_store s) k \<longrightarrow> map_of (states (ld_store (onClose s))) k = map_of (states (ld_store s)) k)"
proof -
  have inv: "loader_inv s" by (rule loader_reachable_inv [OF assms])
  have none: "\<not> loading (ld_store (onClose s)) k \<and> \<not> live (onClose s) r"
  proof (cases "ld_controllers s = []")
    case True
    then show ?thesis
      using inv controllers_live [of s] store_invD(2) [of s k] by (auto simp: onClose_def loader_inv_def)
  qed (use cancelAll_inv [OF inv] in \<open>simp add: onClose_def\<close>)
  have keep: "map_of (fold (cancel_state st) keys sts) k = map_of sts k" if "\<not> loading st k" for st keys sts
    using that
  proof (induction keys arbitrary: sts)
    case (Cons key keys)
    have "map_of (cancel_state st key sts) k = map_of sts k"
    proof (cases "k = key")
      case True
      with Cons.prems show ?thesis by (simp add: cancel_state_def loading_def split: option.split)
    qed (simp add: cancel_state_other)
    with Cons show ?case by simp
  qed simp
  then show ?thesis using none by (auto simp: onClose_def cancelAll_def Let_def page_of_def)
qed

theorem close_keeps_cache_witness:
  "\<not> loading (ld_store (onClose asked)) CASCADER_ROOT_KEY \<and> loading (ld_store asked) CASCADER_ROOT_KEY"
proof
  show "\<not> loading (ld_store (onClose asked)) CASCADER_ROOT_KEY" using close_keeps_cache [OF asked_reachable] by blast
  show "loading (ld_store asked) CASCADER_ROOT_KEY" by code_simp
qed

section \<open>The paging latch outlives a cancelled request\<close>

definition first_page :: loader where
  "first_page = commit (respond (hd (ld_pending asked)) (Paged [Some (leaf ''a'')] (Some ''next'') None) asked)"

definition reopened :: loader where
  "reopened = commit (onClose (commit (loadMore async_props CASCADER_ROOT_KEY first_page)))"

text \<open>Closing the panel while the next page loads blocks that level's paging for good.  After one page with a cursor,
  a request for the next page that closing the panel cancels leaves the level with more to load, not loading and
  without an error; but asking for the next page again does nothing, since the latch still holds the signature of the
  cancelled request, and a retry does nothing either.\<close>

theorem close_blocks_paging:
  "loadMore async_props CASCADER_ROOT_KEY first_page \<noteq> first_page \<and>
   map_of (states (ld_store reopened)) CASCADER_ROOT_KEY =
     Some \<lparr>st_loading = False, st_error = False, st_hasMore = True, st_cursor = Some ''next''\<rparr> \<and>
   list_all rq_aborted (ld_pending reopened) \<and>
   loadMore async_props CASCADER_ROOT_KEY reopened = reopened \<and>
   retryLevel async_props CASCADER_ROOT_KEY reopened = reopened \<and>
   ensureLevel async_props CASCADER_ROOT_KEY ReasonLevel reopened = reopened"
proof -
  have "length (ld_pending (loadMore async_props CASCADER_ROOT_KEY first_page)) \<noteq> length (ld_pending first_page)" by code_simp
  then have "loadMore async_props CASCADER_ROOT_KEY first_page \<noteq> first_page" by auto
  moreover have st: "map_of (states (ld_latest reopened)) CASCADER_ROOT_KEY =
     Some \<lparr>st_loading = False, st_error = False, st_hasMore = True, st_cursor = Some ''next''\<rparr>" by code_simp
  moreover have "map_of (states (ld_store reopened)) CASCADER_ROOT_KEY =
     Some \<lparr>st_loading = False, st_error = False, st_hasMore = True, st_cursor = Some ''next''\<rparr>" by code_simp
  moreover have "list_all rq_aborted (ld_pending reopened)" by code_simp
  moreover have "map_of (ld_moreLatch reopened) CASCADER_ROOT_KEY = Some (1, ''next'')"
    "length (page_of (ld_latest reopened) CASCADER_ROOT_KEY) = 1" by code_simp+
  ultimately show ?thesis by (simp add: loadMore_def retryLevel_def ensureLevel_def or_empty_def)
qed

end
