(* ===== verification/Cascader_Root_Run.thy ===== *)
theory Cascader_Root_Run
  imports Cascader_Root Cascader_Loader_Props
begin

text \<open>
  Runs of the cascader: any interleaving of presses, navigation, selection, opening, typing, steps of the loader and
  renders, and what holds in all of them.
\<close>

section \<open>Mounting and steps\<close>

definition blank_view :: "cascader_props \<Rightarrow> cascader_view" where
  "blank_view p =
     \<lparr>vw_props = p\<lparr>cp_inline := False\<rparr>, vw_base = base_index p, vw_index = empty_index, vw_states = [], vw_selected = [],
      vw_path = [], vw_expanded = [], vw_open = False, vw_query = [], vw_deepResults = None, vw_levelItems = [],
      vw_levelRendered = [], vw_treeRows = []\<rparr>"

text \<open>The state before the first render, with the defaults the parent gives.\<close>

definition unmounted :: "cascader_props \<Rightarrow> cascader_controls \<Rightarrow> cascader_controls \<Rightarrow> cascader_state" where
  "unmounted p c defaults =
     \<lparr>cs_value = control_init (ps_value c) (case ps_value defaults of Some v \<Rightarrow> v
         | None \<Rightarrow> if cp_multiple p then ManyValues [] else OneValue []),
      cs_path = control_init (ps_path c) (case ps_path defaults of Some v \<Rightarrow> v | None \<Rightarrow> []),
      cs_expanded = control_init (ps_expanded c) (case ps_expanded defaults of Some v \<Rightarrow> v | None \<Rightarrow> []),
      cs_open = control_init (ps_open c) (case ps_open defaults of Some v \<Rightarrow> v | None \<Rightarrow> False),
      cs_query = control_init (ps_query c) (case ps_query defaults of Some v \<Rightarrow> v | None \<Rightarrow> []),
      cs_loader = loader_start, cs_signal = \<lparr>as_seq = 0, as_toggled = None, as_notice = None\<rparr>, cs_pending = None,
      cs_cache = [], cs_flyouts = [], cs_changes = [], cs_latest = blank_view p\<rparr>"

text \<open>A level on screen is the root or the level of a node, whose value is no reserved request key.\<close>

definition levels_ok :: "cascader_view \<Rightarrow> bool" where
  "levels_ok v \<longleftrightarrow> list_all level_key (screen_levels (cp_mode (vw_props v)) (vw_path v) (vw_expanded v))"

text \<open>What happens between two renders: a handler is called, or the loader takes a step.\<close>

inductive handler_step :: "cascader_state \<Rightarrow> cascader_state \<Rightarrow> bool" where
  press: "level_key (cn_value n) \<Longrightarrow> handler_step s (navigate n s)"
| press_at: "level_key (cn_value n) \<Longrightarrow> handler_step s (navigateAt n d s)"
| back_up: "handler_step s (popLevel s)"
| crumb: "handler_step s (goToDepth d s)"
| toggle: "handler_step s (toggleExpanded v s)"
| pick: "handler_step s (commitNode n s)"
| combobox: "\<forall>n\<in>set ns. level_key (cn_value n) \<Longrightarrow> handler_step s (fst (handleComboboxValueChange ns s))"
| open_change: "handler_step s (fst (handleOpenChange b reason cancelled s))"
| set_sel: "handler_step s (setSelection vs reason s)"
| remove: "handler_step s (selectionRemove v s)"
| clear: "handler_step s (selectionClear s)"
| typing: "handler_step s (setQuery q s)"
| flyout: "handler_step s (setFlyoutOpen k b s)"
| set_path: "handler_step s (setPathWithReason ''external'' f s)"
| loading: "loader_step (cs_loader s) l \<Longrightarrow> ld_latest l = ld_latest (cs_loader s) \<Longrightarrow> handler_step s (s\<lparr>cs_loader := l\<rparr>)"

inductive cascader_step :: "cascader_state \<Rightarrow> cascader_state \<Rightarrow> bool" where
  handler: "handler_step s s' \<Longrightarrow> cascader_step s s'"
| render: "rerender p c s = Some s' \<Longrightarrow> levels_ok (cs_latest s') \<Longrightarrow> cascader_step s s'"

inductive cascader_run :: "cascader_state \<Rightarrow> bool" where
  mount: "cascader_run (unmounted p c d)"
| step: "cascader_run s \<Longrightarrow> cascader_step s s' \<Longrightarrow> cascader_run s'"

section \<open>What every step keeps\<close>

text \<open>The fields the setters of the handlers leave alone.\<close>

lemma setter_fields [simp]:
  "cs_latest (bumpAnnouncement t s) = cs_latest s" "cs_loader (bumpAnnouncement t s) = cs_loader s"
  "cs_latest (announceNotice m s) = cs_latest s" "cs_loader (announceNotice m s) = cs_loader s"
  "cs_latest (setPathWithReason r f s) = cs_latest s" "cs_loader (setPathWithReason r f s) = cs_loader s"
  "cs_latest (setQuery q s) = cs_latest s" "cs_loader (setQuery q s) = cs_loader s"
  "cs_latest (setOpen r b s) = cs_latest s" "cs_loader (setOpen r b s) = cs_loader s"
  "cs_latest (setPending n s) = cs_latest s" "cs_loader (setPending n s) = cs_loader s"
  "cs_latest (refuse s) = cs_latest s" "cs_loader (refuse s) = cs_loader s"
  "cs_latest (emitSelection vs node cr s) = cs_latest s" "cs_loader (emitSelection vs node cr s) = cs_loader s"
  by (simp_all add: bumpAnnouncement_def announceNotice_def setPathWithReason_def setQuery_def setOpen_def setPending_def refuse_def
      emitSelection_def Let_def split: option.split)

lemma mover_fields [simp]:
  "cs_latest (pushLevel v s) = cs_latest s" "cs_loader (pushLevel v s) = cs_loader s"
  "cs_latest (popLevel s) = cs_latest s" "cs_loader (popLevel s) = cs_loader s"
  "cs_latest (goToDepth d s) = cs_latest s" "cs_loader (goToDepth d s) = cs_loader s"
  "cs_latest (goToLevelAt v j s) = cs_latest s" "cs_loader (goToLevelAt v j s) = cs_loader s"
  "cs_latest (toggleExpanded v s) = cs_latest s" "cs_loader (toggleExpanded v s) = cs_loader s"
  "cs_latest (setSelection vs cr s) = cs_latest s" "cs_loader (setSelection vs cr s) = cs_loader s"
  "cs_latest (commitNode n s) = cs_latest s" "cs_loader (commitNode n s) = cs_loader s"
  by (simp_all add: pushLevel_def popLevel_def goToDepth_def goToLevelAt_def toggleExpanded_def setSelection_def commitNode_def
      commitSingle_def commitCascade_def commitMultiple_def Let_def split: option.split)

text \<open>What a handler may do to the loader: nothing, or ask for one level.\<close>

definition asks :: "string \<Rightarrow> cascader_state \<Rightarrow> cascader_state \<Rightarrow> bool" where
  "asks k s s' \<longleftrightarrow> cs_latest s' = cs_latest s \<and>
     (cs_loader s' = cs_loader s \<or>
      (let p = loader_props_of (vw_props (cs_latest s)) in cs_loader s' = ensureLevel p k ReasonLevel (retryLevel p k (cs_loader s))))"

lemma asks_request: "asks (cn_value n) s (requestChildren n kind s)"
  by (simp add: asks_def requestChildren_def Let_def)

lemma asks_keep: "cs_latest s' = cs_latest s \<Longrightarrow> cs_loader s' = cs_loader s \<Longrightarrow> asks k s s'"
  by (simp add: asks_def)

lemma asks_navigate: "asks (cn_value n) s (navigate n s)" "asks (cn_value n) s (navigateAt n d s)"
  by (simp_all add: navigate_def navigateAt_def Let_def asks_request asks_keep)

lemma asks_combobox:
  "\<exists>k. (k = CASCADER_ROOT_KEY \<or> k \<in> vals ns) \<and> asks k s (fst (handleComboboxValueChange ns s))"
proof -
  have single: "\<exists>k. (k = CASCADER_ROOT_KEY \<or> k \<in> vals ns) \<and> asks k s (fst (handleSingleChange (case ns of [] \<Rightarrow> None | n # ms \<Rightarrow> Some n) s))"
    using asks_navigate(1) by (cases ns) (auto simp: handleSingleChange_def Let_def asks_keep)
  have "\<exists>k. (k = CASCADER_ROOT_KEY \<or> k \<in> vals ns) \<and> asks k s (fst (handleMultipleChange ns s))"
  proof (cases "List.find (\<lambda>n. cn_value n \<notin> set (vw_selected (cs_latest s))) ns")
    case None
    then show ?thesis by (auto simp: handleMultipleChange_def Let_def asks_keep split: option.splits)
  next
    case (Some n)
    then have "n \<in> set ns" using find_Some_in by fast
    with Some asks_navigate(1) [of n s] show ?thesis by (auto simp: handleMultipleChange_def Let_def asks_keep)
  qed
  with single show ?thesis by (simp add: handleComboboxValueChange_def)
qed

text \<open>The invariant: the loader is in a reachable state, and the handlers see the states its callbacks see.\<close>

definition in_step :: "cascader_state \<Rightarrow> bool" where
  "in_step s \<longleftrightarrow> loader_reachable (cs_loader s) \<and> vw_states (cs_latest s) = states (ld_latest (cs_loader s)) \<and>
     vw_base (cs_latest s) = base_index (vw_props (cs_latest s))"

lemma latest_asked [simp]:
  "ld_latest (runLoad p k reason c a l) = ld_latest l" "ld_latest (ensureLevel p k reason l) = ld_latest l"
  "ld_latest (retryLevel p k l) = ld_latest l" "ld_latest (onClose l) = ld_latest l"
  by (simp_all add: ensureLevel_def retryLevel_def runLoad_def issue_def abortKey_def onClose_def cancelAll_def abort_all_def Let_def
      split: option.split)

lemma reachable_asked:
  "loader_reachable l \<Longrightarrow> level_key k \<Longrightarrow> loader_reachable (ensureLevel p k reason (retryLevel p k l))"
  by (meson loader_reachable.step loader_step.ensure loader_step.retry)

lemma in_step_asks: "in_step s \<Longrightarrow> level_key k \<Longrightarrow> asks k s s' \<Longrightarrow> in_step s'"
  by (auto simp: in_step_def asks_def Let_def reachable_asked)

lemma levelEffect_reachable: "loader_reachable l \<Longrightarrow> levels_ok v \<Longrightarrow> loader_reachable (levelEffect v l) \<and> ld_latest (levelEffect v l) = ld_latest l"
proof -
  have "loader_reachable l \<Longrightarrow> list_all level_key ks \<Longrightarrow>
      loader_reachable (fold (\<lambda>k. ensureLevel p k ReasonLevel) ks l)" for p ks
    by (induction ks arbitrary: l) (auto intro: loader_reachable.step loader_step.ensure)
  moreover have "ld_latest (fold (\<lambda>k. ensureLevel p k ReasonLevel) ks l) = ld_latest l" for p ks
    by (induction ks arbitrary: l) simp_all
  ultimately show "loader_reachable l \<Longrightarrow> levels_ok v \<Longrightarrow> loader_reachable (levelEffect v l) \<and> ld_latest (levelEffect v l) = ld_latest l"
    by (simp add: levelEffect_def levels_ok_def)
qed

lemma settlePending_fields [simp]:
  "cs_latest (settlePending s) = cs_latest s" "cs_loader (settlePending s) = cs_loader s"
  "cs_latest (closeDropsPending v s) = cs_latest s" "cs_loader (closeDropsPending v s) = cs_loader s"
  by (simp_all add: settlePending_def closeDropsPending_def Let_def split: option.split pending_kind.split)

lemma render_view_fields:
  assumes "render_view p s = Some v"
  shows "vw_props v = p" "vw_base v = base_index p" "vw_states v = states (ld_store (cs_loader s))"
    "vw_path v = control_reading (cs_path s)" "vw_expanded v = control_reading (cs_expanded s)"
    "vw_open v = control_reading (cs_open s)" "vw_selected v = toArray (control_reading (cs_value s))"
    "vw_query v = control_reading (cs_query s)"
  using assms by (auto simp: render_view_def Let_def split: option.splits)

lemma rerender_result:
  assumes "rerender p c s = Some s'"
  obtains v where "render_view p (with_props c s) = Some v" "cs_latest s' = v"
    "cs_loader s' = levelEffect v (if panel_live (cs_latest s) \<and> \<not> panel_live v then onClose (commit (cs_loader s)) else commit (cs_loader s))"
  using assms by (auto simp: rerender_def Let_def with_props_def split: option.splits)

lemma rerender_in_step:
  assumes "in_step s" "rerender p c s = Some s'" "levels_ok (cs_latest s')"
  shows "in_step s'"
proof -
  obtain v where v: "render_view p (with_props c s) = Some v" "cs_latest s' = v"
    "cs_loader s' = levelEffect v (if panel_live (cs_latest s) \<and> \<not> panel_live v then onClose (commit (cs_loader s)) else commit (cs_loader s))"
    using rerender_result [OF assms(2)] by metis
  let ?l = "if panel_live (cs_latest s) \<and> \<not> panel_live v then onClose (commit (cs_loader s)) else commit (cs_loader s)"
  have "loader_reachable (cs_loader s)" using assms(1) by (simp add: in_step_def)
  then have "loader_reachable ?l" by (auto intro: loader_reachable.step loader_step.close loader_step.committed)
  moreover have "ld_latest ?l = ld_store (cs_loader s)" by (simp add: commit_def)
  moreover have "vw_states v = states (ld_store (cs_loader s))" "vw_base v = base_index (vw_props v)"
    using render_view_fields [OF v(1)] by (simp_all add: with_props_def)
  ultimately show ?thesis using levelEffect_reachable [of ?l v] assms(3) v(2,3) by (simp add: in_step_def)
qed

lemma root_is_level: "level_key CASCADER_ROOT_KEY"
  by code_simp

lemma handler_in_step: "handler_step s s' \<Longrightarrow> in_step s \<Longrightarrow> in_step s'"
proof (induction rule: handler_step.induct)
  case (press n s)
  then show ?case using in_step_asks asks_navigate(1) by blast
next
  case (press_at n s d)
  then show ?case using in_step_asks asks_navigate(2) by blast
next
  case (combobox ns s)
  obtain k where "k = CASCADER_ROOT_KEY \<or> k \<in> vals ns" "asks k s (fst (handleComboboxValueChange ns s))"
    using asks_combobox by blast
  with combobox root_is_level show ?case using in_step_asks by blast
next
  case (loading s l)
  then show ?case by (auto simp: in_step_def intro: loader_reachable.step)
qed (auto simp: in_step_def handleOpenChange_def Let_def selectionRemove_def selectionClear_def setFlyoutOpen_def)

lemma step_in_step: "cascader_step s s' \<Longrightarrow> in_step s \<Longrightarrow> in_step s'"
  by (auto simp: cascader_step.simps dest: handler_in_step rerender_in_step)

lemma run_in_step: "cascader_run s \<Longrightarrow> in_step s"
proof (induction rule: cascader_run.induct)
  case (mount p c d)
  have "base_index (p\<lparr>cp_inline := b\<rparr>) = base_index p" for b by (simp add: base_index_def)
  then show ?case by (simp add: in_step_def unmounted_def blank_view_def loader_start_def [unfolded createStore_def] loader_reachable.start [unfolded loader_start_def createStore_def])
qed (rule step_in_step)

section \<open>Load before you move\<close>

lemma runLoad_live:
  assumes "loader_inv l" "lp_getChildren p" "level_key k"
  shows "\<exists>r. live (runLoad p k reason c a l) r \<and> rq_key r = k"
proof (cases "map_of (ld_inflight l) k = Some (a, or_empty c)")
  case True
  then show ?thesis using assms(1) req_invD(6) by (fastforce simp: runLoad_def loader_inv_def)
next
  case False
  then have "loading (ld_store (runLoad p k reason c a l)) k" using assms(2) by (simp add: runLoad_def Let_def)
  moreover have "loader_inv (runLoad p k reason c a l)" using runLoad_inv [OF assms(1,3)] .
  ultimately show ?thesis using store_invD(2) by (auto simp: loader_inv_def)
qed

text \<open>Whatever the press finds, the level is being fetched afterwards.\<close>

lemma asked_is_live:
  assumes inv: "loader_inv l" and p: "lp_getChildren p" "level_key k" and st: "states (ld_store l) = states (ld_latest l)"
    and needs: "case map_of (states (ld_latest l)) k of Some x \<Rightarrow> st_loading x \<or> st_error x
      | None \<Rightarrow> map_of (ix_childrenOf (lp_base p)) k = None"
  shows "\<exists>r. live (ensureLevel p k reason (retryLevel p k l)) r \<and> rq_key r = k"
proof (cases "map_of (states (ld_latest l)) k")
  case None
  then have "retryLevel p k l = l" by (simp add: retryLevel_def)
  moreover have "ensureLevel p k reason l = runLoad p k reason None False l" using None needs p by (simp add: ensureLevel_def)
  ultimately show ?thesis using runLoad_live [OF inv p] by simp
next
  case (Some x)
  then have ensure: "ensureLevel p k reason (retryLevel p k l) = retryLevel p k l" by (simp add: ensureLevel_def)
  show ?thesis
  proof (cases "st_error x")
    case True
    then show ?thesis using inv p Some unfolding ensure by (simp add: retryLevel_def Let_def runLoad_live)
  next
    case False
    then have "retryLevel p k l = l" "loading (ld_store l) k" using Some needs st by (simp_all add: retryLevel_def loading_def)
    then show ?thesis using store_invD(2) inv unfolding ensure by (auto simp: loader_inv_def)
  qed
qed

lemma request_fields:
  "cs_path (requestChildren n kind s) = cs_path s" "cs_expanded (requestChildren n kind s) = cs_expanded s"
  "cs_query (requestChildren n kind s) = cs_query s" "cs_value (requestChildren n kind s) = cs_value s"
  "cs_pending (requestChildren n kind s) = Some \<lparr>pn_value = cn_value n, pn_kind = kind\<rparr>"
  by (simp_all add: requestChildren_def bumpAnnouncement_def setPending_def Let_def)

lemma request_live:
  assumes "in_step s" "level_key (cn_value n)" "needsChildren (cs_latest s) n"
    "states (ld_store (cs_loader s)) = states (ld_latest (cs_loader s))"
  shows "\<exists>r. live (cs_loader (requestChildren n kind s)) r \<and> rq_key r = cn_value n"
proof -
  have l: "cs_loader (requestChildren n kind s) =
      (let p = loader_props_of (vw_props (cs_latest s)) in ensureLevel p (cn_value n) ReasonLevel (retryLevel p (cn_value n) (cs_loader s)))"
    by (simp add: requestChildren_def Let_def)
  have "loader_inv (cs_loader s)" using assms(1) loader_reachable_inv by (simp add: in_step_def)
  then show ?thesis unfolding l Let_def
    by (rule asked_is_live)
       (use assms in \<open>auto simp: in_step_def needsChildren_def loader_props_of_def split: if_splits option.splits\<close>)
qed

lemma navigate_parks:
  assumes "needsChildren (cs_latest s) n"
    "cp_mode (vw_props (cs_latest s)) = ModeTree \<longrightarrow> cn_value n \<notin> set (vw_expanded (cs_latest s))"
  shows "\<exists>kind. navigate n s = requestChildren n kind s"
proof (cases "cp_mode (vw_props (cs_latest s)) = ModeTree")
  case True
  with assms show ?thesis by (auto simp: navigate_def)
next
  case False
  with assms(1) show ?thesis by (cases "vw_deepResults (cs_latest s)") (auto simp: navigate_def Let_def)
qed


section \<open>A sample cascader\<close>

definition english :: cascader_labels where
  "english =
     \<lparr>lb_loading = ''Loading...'', lb_loadingMore = ''Loading more...'', lb_error = ''Could not load items.'',
      lb_empty = ''No results found.'', lb_searching = ''Searching...'', lb_root = (\<lambda>n. ''Top level''),
      lb_expanded = (\<lambda>l n. l @ '' expanded''), lb_collapsed = (\<lambda>l. l @ '' collapsed''), lb_level = (\<lambda>l d n. l),
      lb_results = (\<lambda>n. nat_to_dec n @ '' results''), lb_maxReached = (\<lambda>m. ''Selection limit reached''),
      lb_cascade = (\<lambda>l n b. l @ '' followed'')\<rparr>"

definition branch_node :: "string \<Rightarrow> cascader_node option list \<Rightarrow> cascader_node" where
  "branch_node v ch = CNode v \<lparr>cn_label = v, cn_has_children = True, cn_count = None, cn_disabled = False, cn_keywords = []\<rparr> ch"

definition drill_props :: cascader_props where
  "drill_props =
     \<lparr>cp_items = [Some (branch_node ''eu'' [Some (branch_node ''fr'' [Some (branch_node ''paris'' [])])])], cp_getParent = None,
      cp_getChildren = True, cp_onSearch = False, cp_resolveValue = False, cp_prefetch = False, cp_listens = True,
      cp_multiple = False, cp_cascade = False, cp_max = None, cp_selectable = SelLeaf, cp_mode = ModeDrill,
      cp_closeOnSelect = True, cp_searchScope = ScopeDeep, cp_filter = None, cp_revealSelected = True, cp_inline = True,
      cp_labels = english, cp_foldText = id\<rparr>"

definition no_props :: cascader_controls where
  "no_props = \<lparr>ps_value = None, ps_path = None, ps_expanded = None, ps_open = None, ps_query = None\<rparr>"

definition drawn :: "cascader_state \<Rightarrow> cascader_state" where
  "drawn s = the (rerender drill_props no_props s)"

definition sample_cascader :: cascader_state where
  "sample_cascader = drawn (unmounted drill_props no_props no_props)"

lemma drawn_run:
  assumes "cascader_run s" "rerender drill_props no_props s \<noteq> None" "levels_ok (cs_latest (drawn s))"
  shows "cascader_run (drawn s)"
  using assms by (auto simp: drawn_def) (blast intro: cascader_run.step cascader_step.render)

lemma sample_run: "cascader_run sample_cascader"
proof -
  have "rerender drill_props no_props (unmounted drill_props no_props no_props) \<noteq> None" by code_simp
  moreover have "levels_ok (cs_latest (drawn (unmounted drill_props no_props no_props)))" by code_simp
  ultimately show ?thesis unfolding sample_cascader_def using drawn_run mount by blast
qed


section \<open>Two held navigations that go wrong\<close>

definition answered :: "load_response \<Rightarrow> cascader_state \<Rightarrow> cascader_state" where
  "answered resp s = s\<lparr>cs_loader := respond (last (ld_pending (cs_loader s))) resp (cs_loader s)\<rparr>"

definition searched :: cascader_state where
  "searched = drawn (setQuery ''paris'' sample_cascader)"

definition entered_late :: cascader_state where
  "entered_late = drawn (answered (Bare [Some (plain_node ''louvre'' [])]) (navigate (branch_node ''paris'' []) searched))"

text \<open>A search hit whose children must be fetched first is entered on the wrong trail.  In a search from the root, the hit
  \<open>paris\<close> lies below \<open>eu\<close> and \<open>fr\<close>, the trail that is taken when its children are there; when they arrive after the
  press, the trail becomes \<open>paris\<close> alone.\<close>

theorem held_hit_loses_trail:
  "map (map cn_value) (case vw_deepResults (cs_latest searched) of None \<Rightarrow> [] | Some ns \<Rightarrow> [ns]) = [[''paris'']] \<and>
   map cn_value (getCascaderPath (vw_index (cs_latest searched)) (Some ''paris'')) = [''eu'', ''fr'', ''paris''] \<and>
   control_reading (cs_path entered_late) = [''paris''] \<and> cs_pending entered_late = None"
proof (intro conjI)
  show "map (map cn_value) (case vw_deepResults (cs_latest searched) of None \<Rightarrow> [] | Some ns \<Rightarrow> [ns]) = [[''paris'']]" by code_simp
  show "map cn_value (getCascaderPath (vw_index (cs_latest searched)) (Some ''paris'')) = [''eu'', ''fr'', ''paris'']" by code_simp
  show "control_reading (cs_path entered_late) = [''paris'']" by code_simp
  show "cs_pending entered_late = None" by code_simp
qed

definition waiting :: cascader_state where
  "waiting = drawn (navigate (branch_node ''paris'' []) sample_cascader)"

definition reloaded :: cascader_state where
  "reloaded = drawn (waiting\<lparr>cs_loader := onLoadKey (cs_loader waiting)\<rparr>)"

text \<open>Changing the load key under a held navigation leaves it waiting for nothing.  The reload aborts the request and drops its
  state, the branch is on no level on screen, so nothing asks for it again, yet the navigation is still held and the
  panel still says that it is loading, however often it is drawn.\<close>

theorem reload_strands_navigation:
  "cs_pending reloaded \<noteq> None \<and> list_all rq_aborted (ld_pending (cs_loader reloaded)) \<and>
   map_of (states (ld_store (cs_loader reloaded))) ''paris'' = None \<and>
   announcementTarget (cs_latest reloaded) None (cs_signal reloaded) (cs_pending reloaded) = (''Loading...'' @ ANNOUNCE_MARKER, False) \<and>
   cs_pending (drawn reloaded) = cs_pending reloaded \<and> list_all rq_aborted (ld_pending (cs_loader (drawn reloaded)))"
proof (intro conjI)
  show "cs_pending reloaded \<noteq> None" by code_simp
  show "list_all rq_aborted (ld_pending (cs_loader reloaded))" by code_simp
  show "map_of (states (ld_store (cs_loader reloaded))) ''paris'' = None" by code_simp
  show "announcementTarget (cs_latest reloaded) None (cs_signal reloaded) (cs_pending reloaded) = (''Loading...'' @ ANNOUNCE_MARKER, False)" by code_simp
  show "cs_pending (drawn reloaded) = cs_pending reloaded" by code_simp
  show "list_all rq_aborted (ld_pending (cs_loader (drawn reloaded)))" by code_simp
qed

end
