(* ===== verification/Cascader_Root_Props.thy ===== *)
theory Cascader_Root_Props
  imports Cascader_Root_Run
begin

text \<open>
  What the views and the selection of the cascader promise: a tree query shows the matches with everything above them,
  opening shows the level of the selection, a press never runs over the limit, and the consumer has heard what is selected.
\<close>

section \<open>Paths in a tree\<close>

lemma path_values:
  assumes "tree_index ix" "node_at ix v \<noteq> None"
  shows "cn_value ` set (getCascaderPath ix (Some v)) = {a. (v, a) \<in> (up (ix_parentOf ix))\<^sup>*}"
proof -
  obtain r where r: "maps_agree ix" "ranked (ix_parentOf ix) r" using assms(1) by (auto simp: tree_index_def)
  have walk: "set (climb (ix_parentOf ix) [] (Some v)) = {a. (v, a) \<in> (up (ix_parentOf ix))\<^sup>*}"
    using set_climb [OF r(2), of "[]" "Some v"] by simp
  have known: "node_at ix a \<noteq> None" if "(v, a) \<in> (up (ix_parentOf ix))\<^sup>*" for a
    using that assms(2)
  proof (induction rule: rtrancl_induct)
    case (step y z)
    then show ?case using parent_child [OF r(1), of y z] by auto
  qed simp
  have own: "cn_value n = a" if "node_at ix a = Some n" for a n using r(1) that unfolding maps_agree_def by blast
  have on_way: "\<forall>a\<in>set (climb (ix_parentOf ix) [] (Some v)). node_at ix a \<noteq> None" unfolding walk using known by blast
  have all: "takeWhile (\<lambda>a. node_at ix a \<noteq> None) (climb (ix_parentOf ix) [] (Some v)) = climb (ix_parentOf ix) [] (Some v)"
    unfolding takeWhile_eq_all_conv by (rule on_way)
  have "cn_value ` set (List.map_filter (node_at ix) xs) = set xs" if "\<forall>a\<in>set xs. node_at ix a \<noteq> None" for xs
    using that own by (force simp: map_filter_def image_iff)
  from this [OF on_way] show ?thesis unfolding getCascaderPath_def all set_rev walk .
qed

section \<open>A query in tree mode\<close>

text \<open>Without sentinels no row is a paging row.\<close>

lemma plain_rows:
  assumes "\<forall>(v, n)\<in>set (ix_byValue ix). \<not> isCascaderMoreNode n" "maps_agree ix" "row_at ix [] row k"
  shows "\<not> isCascaderMoreNode (fn_node row)"
proof -
  have "fn_node row \<in> set (children_at ix k)" using assms(3) by (auto simp: row_at_def nth_mem)
  then have "node_at ix (cn_value (fn_node row)) = Some (fn_node row)" using assms(2) unfolding maps_agree_def by blast
  then show ?thesis using assms(1) by (auto dest: map_of_SomeD)
qed

definition kept :: "cascader_props \<Rightarrow> cascader_index \<Rightarrow> string \<Rightarrow> cascader_node \<Rightarrow> bool" where
  "kept p ix normalized n \<longleftrightarrow>
     (\<exists>m\<in>set (ix_all ix). matcher p m normalized \<and> (cn_value n = cn_value m \<or> cn_value n \<in> ancestors ix (cn_value m)))"

lemma keep_values:
  assumes "tree_index ix" "\<forall>m\<in>set (ix_all ix). node_at ix (cn_value m) \<noteq> None"
  shows "cn_value n \<in> set (query_keep p ix normalized) \<longleftrightarrow> kept p ix normalized n"
    and "a \<in> ancestors ix (cn_value n) \<Longrightarrow> cn_value n \<in> set (query_keep p ix normalized) \<Longrightarrow> a \<in> set (query_keep p ix normalized)"
proof -
  let ?up = "up (ix_parentOf ix)"
  have keep: "v \<in> set (query_keep p ix normalized) \<longleftrightarrow> (\<exists>m\<in>set (ix_all ix). matcher p m normalized \<and> (cn_value m, v) \<in> ?up\<^sup>*)" for v
  proof -
    have "v \<in> cn_value ` set (getCascaderPath ix (Some (cn_value m))) \<longleftrightarrow> (cn_value m, v) \<in> ?up\<^sup>*" if "m \<in> set (ix_all ix)" for m
      using path_values [OF assms(1), of "cn_value m"] assms(2) that by simp
    then show ?thesis by (auto simp: query_keep_def)
  qed
  show "cn_value n \<in> set (query_keep p ix normalized) \<longleftrightarrow> kept p ix normalized n"
    unfolding keep by (auto simp: kept_def ancestors_def rtrancl_eq_or_trancl)
  show "a \<in> set (query_keep p ix normalized)" if "a \<in> ancestors ix (cn_value n)" "cn_value n \<in> set (query_keep p ix normalized)"
    using that unfolding keep by (auto simp: ancestors_def dest: trancl_into_rtrancl intro: rtrancl_trans)
qed


definition tree_props :: cascader_props where
  "tree_props = drill_props\<lparr>cp_mode := ModeTree\<rparr>"


section \<open>Opening onto the selection\<close>

lemma last_path:
  assumes "tree_index ix" "node_at ix p = Some n"
  shows "last_value (map cn_value (getCascaderPath ix (Some p))) = Some p"
proof -
  have "cn_value n = p" using assms unfolding tree_index_def maps_agree_def by blast
  then show ?thesis by (simp add: path_step [OF assms] last_value_def)
qed

text \<open>Opening the panel shows the selection.  With \<^verbatim>\<open>revealSelected\<close> and no parent that owns path or query: opening sets the
  path to the level that holds the first selected node and clears the query, so that the level then drawn has that node
  among its rows.\<close>

theorem open_shows_selection:
  assumes "tree_index (vw_index (cs_latest s))" "vw_selected (cs_latest s) = v # vs" "node_at (vw_index (cs_latest s)) v = Some n"
    "map_of (ix_parentOf (vw_index (cs_latest s))) v \<noteq> None" "cp_revealSelected (vw_props (cs_latest s))"
    "uncontrolled (cs_path s)" "uncontrolled (cs_query s)" "cp_foldText p [] = []"
  shows "n \<in> set (level_items p (vw_index (cs_latest s))
      (control_reading (cs_path (fst (handleOpenChange True reason False s))))
      (control_reading (cs_query (fst (handleOpenChange True reason False s)))))"
proof -
  let ?ix = "vw_index (cs_latest s)" and ?s = "fst (handleOpenChange True reason False s)"
  have agree: "maps_agree ?ix" using assms(1) by (simp add: tree_index_def)
  have s: "?s = setPathWithReason ''reveal'' (\<lambda>_. Some (reveal_path (cs_latest s))) (setQuery [] (setOpen reason True s))"
    using assms(5) by (simp add: handleOpenChange_def Let_def)
  have query: "control_reading (cs_query ?s) = []"
    using set_value_reading [OF assms(7)] by (simp add: s setPathWithReason_def setQuery_def setOpen_def)
  have path: "control_reading (cs_path ?s) = reveal_path (cs_latest s)"
    using set_array_reading [OF assms(6)] by (simp add: s setPathWithReason_def setQuery_def setOpen_def)
  have reveal: "reveal_path (cs_latest s) = map cn_value (getCascaderPath ?ix (parent_at ?ix v))"
    using path_step [OF assms(1,3)] assms(2) by (simp add: reveal_path_def)
  have "n \<in> set (getCascaderChildren ?ix (last_value (reveal_path (cs_latest s))))"
  proof (cases "parent_at ?ix v")
    case None
    then have top: "map_of (ix_parentOf ?ix) v = Some None" using assms(4) by (auto simp: parent_get_def split: option.splits)
    then have "\<exists>m. node_at ?ix v = Some m \<and> m \<in> set (children_at ?ix (root_or None))"
      using agree unfolding maps_agree_def by blast
    moreover have "reveal_path (cs_latest s) = []" by (simp add: reveal None getCascaderPath_def)
    ultimately show ?thesis using assms(3) by (simp add: getCascaderChildren_def last_value_def)
  next
    case (Some q)
    obtain m where "node_at ?ix v = Some m" "m \<in> set (children_at ?ix q)" "node_at ?ix q \<noteq> None"
      by (rule parent_child [OF agree Some])
    moreover from this obtain k where "node_at ?ix q = Some k" by blast
    ultimately show ?thesis using assms(3) last_path [OF assms(1), of q k] by (simp add: reveal Some getCascaderChildren_def root_or_def)
  qed
  moreover have "trim [] = []" by (simp add: trim_def)
  ultimately show ?thesis using assms(8)
    by (simp add: level_items_def path query filterCascaderLevel_def normalizeCascaderQuery_def Let_def)
qed

definition chosen_cascader :: cascader_state where
  "chosen_cascader = drawn (unmounted drill_props no_props (no_props\<lparr>ps_value := Some (OneValue ''fr'')\<rparr>))"

theorem open_shows_selection_witness:
  "\<exists>n. cn_value n = ''fr'' \<and> n \<in> set (level_items drill_props (vw_index (cs_latest chosen_cascader))
      (control_reading (cs_path (fst (handleOpenChange True ''trigger-press'' False chosen_cascader))))
      (control_reading (cs_query (fst (handleOpenChange True ''trigger-press'' False chosen_cascader)))))"
proof -
  let ?ix = "vw_index (cs_latest chosen_cascader)" and ?n = "branch_node ''fr'' [Some (branch_node ''paris'' [])]"
  have "?ix = build_nested (cp_items drill_props)" by code_simp
  moreover have "CASCADER_ROOT_KEY \<notin> item_values (cp_items drill_props)"
    by (simp add: drill_props_def branch_node_def CASCADER_ROOT_KEY_def)
  ultimately have "tree_index ?ix" using building_tree build_nested_building by simp
  moreover have "vw_selected (cs_latest chosen_cascader) = [''fr'']" "node_at ?ix ''fr'' = Some ?n"
    "map_of (ix_parentOf ?ix) ''fr'' \<noteq> None" "cp_revealSelected (vw_props (cs_latest chosen_cascader))"
    "cp_foldText drill_props [] = []" "cn_value ?n = ''fr''" by code_simp+
  moreover have "uncontrolled (cs_path chosen_cascader)" "uncontrolled (cs_query chosen_cascader)"
    unfolding uncontrolled_def by code_simp+
  ultimately show ?thesis using open_shows_selection [of chosen_cascader "''fr''" "[]" ?n drill_props] by blast
qed

section \<open>The limit on selections\<close>

text \<open>A step left the value alone, or set it to a selection within the limit or no larger than before.\<close>

definition in_limit :: "int \<Rightarrow> cascader_state \<Rightarrow> cascader_state \<Rightarrow> bool" where
  "in_limit m s s' \<longleftrightarrow> cs_value s' = cs_value s \<or>
     (\<exists>vs. ct_value (cs_value s') = ManyValues vs \<and> (int (length vs) \<le> m \<or> length vs \<le> length (vw_selected (cs_latest s))))"

lemma value_kept [simp]:
  "cs_value (bumpAnnouncement t s) = cs_value s" "cs_value (announceNotice msg s) = cs_value s" "cs_value (setQuery q s) = cs_value s"
  "cs_value (refuse s) = cs_value s" "cs_value (setPathWithReason r f s) = cs_value s" "cs_value (setPending n s) = cs_value s"
  by (simp_all add: bumpAnnouncement_def announceNotice_def setQuery_def refuse_def setPathWithReason_def setPending_def split: option.split)

lemma value_navigate [simp]: "cs_value (navigate n s) = cs_value s"
  by (simp add: navigate_def Let_def request_fields toggleExpanded_def pushLevel_def)

lemma in_limit_emit:
  assumes "cp_multiple (vw_props (cs_latest s))" "int (length vs) \<le> m \<or> length vs \<le> length (vw_selected (cs_latest s))"
  shows "in_limit m s (emitSelection vs node r s)"
  using assms by (simp add: in_limit_def emitSelection_def Let_def set_array_def control_advance_def)

lemma in_limit_query [simp]:
  "in_limit m s (setQuery q s') = in_limit m s s'" "in_limit m s (announceNotice msg s') = in_limit m s s'"
  by (simp_all add: in_limit_def)

lemma in_limit_refl [simp]: "in_limit m s s" "in_limit m s (refuse s)" "in_limit m s (navigate n s)"
  by (simp_all add: in_limit_def)

lemma commit_within:
  assumes "cp_multiple (vw_props (cs_latest s))" "cp_max (vw_props (cs_latest s)) = Some m"
    "cn_value node \<notin> set (vw_selected (cs_latest s))"
  shows "in_limit m s (commitNode node s)"
proof (cases "cp_cascade (vw_props (cs_latest s))")
  case True
  then show ?thesis using assms
    by (auto simp: commitNode_def commitCascade_def Let_def exceeds_def intro!: in_limit_emit)
next
  case False
  then show ?thesis using assms by (auto simp: commitNode_def commitMultiple_def Let_def exceeds_def intro!: in_limit_emit)
qed

lemma setSelection_within:
  assumes "cp_multiple (vw_props (cs_latest s))" "int (length vs) \<le> m \<or> length vs \<le> length (vw_selected (cs_latest s))"
  shows "in_limit m s (setSelection vs r s)"
  unfolding setSelection_def Let_def by (auto intro!: in_limit_emit [OF assms] split: option.split)


definition limit_props :: cascader_props where
  "limit_props = drill_props\<lparr>cp_multiple := True, cp_max := Some 1, cp_selectable := SelAny, cp_getChildren := False\<rparr>"

definition full_cascader :: cascader_state where
  "full_cascader = the (rerender limit_props no_props
     (unmounted limit_props no_props (no_props\<lparr>ps_value := Some (ManyValues [''fr''])\<rparr>)))"


section \<open>The consumer has heard what is selected\<close>

definition heard :: "cascader_state \<Rightarrow> bool" where
  "heard s \<longleftrightarrow> uncontrolled (cs_value s) \<and> (cs_changes s \<noteq> [] \<longrightarrow> control_reading (cs_value s) = sc_value (last (cs_changes s)))"

lemma changes_kept [simp]:
  "cs_changes (bumpAnnouncement t s) = cs_changes s" "cs_changes (announceNotice msg s) = cs_changes s" "cs_changes (setQuery q s) = cs_changes s"
  "cs_changes (refuse s) = cs_changes s" "cs_changes (setPathWithReason r f s) = cs_changes s" "cs_changes (setPending n s) = cs_changes s"
  "cs_changes (setOpen r b s) = cs_changes s" "cs_value (setOpen r b s) = cs_value s"
  by (simp_all add: bumpAnnouncement_def announceNotice_def setQuery_def refuse_def setPathWithReason_def setPending_def setOpen_def split: option.split)

lemma heard_same: "heard s \<Longrightarrow> cs_value s' = cs_value s \<Longrightarrow> cs_changes s' = cs_changes s \<Longrightarrow> heard s'"
  by (simp add: heard_def)

lemma heard_emit: "heard s \<Longrightarrow> cp_listens (vw_props (cs_latest s)) \<Longrightarrow> heard (emitSelection vs node r s)"
  by (simp add: heard_def emitSelection_def Let_def set_array_reading set_value_reading)

lemma heard_wrapped [simp]:
  "heard (setQuery q s) = heard s" "heard (announceNotice msg s) = heard s" "heard (setOpen r b s) = heard s" "heard (refuse s) = heard s"
  by (simp_all add: heard_def)

lemma heard_select:
  assumes "heard s" "cp_listens (vw_props (cs_latest s))"
  shows "heard (setSelection vs r s)" "heard (commitNode n s)"
  using heard_emit [OF assms] assms(1)
  by (auto simp: setSelection_def commitNode_def commitSingle_def commitCascade_def commitMultiple_def Let_def split: option.split)

lemma heard_navigate [simp]: "heard (navigate n s) = heard s" "heard (navigateAt n d s) = heard s"
  by (simp_all add: heard_def navigate_def navigateAt_def Let_def requestChildren_def toggleExpanded_def pushLevel_def goToLevelAt_def)

lemma heard_combobox:
  assumes "heard s" "cp_listens (vw_props (cs_latest s))"
  shows "heard (fst (handleComboboxValueChange ns s))"
  using heard_select [OF assms] assms(1)
  by (auto simp: handleComboboxValueChange_def handleSingleChange_def handleMultipleChange_def Let_def split: option.split list.split)

lemma heard_rerender:
  assumes "heard s" "rerender p c s = Some s'" "ps_value c = None"
  shows "heard s'"
proof -
  have settle: "heard (closeDropsPending v (settlePending t)) = heard t" for v t
    by (simp add: heard_def closeDropsPending_def settlePending_def Let_def toggleExpanded_def goToLevelAt_def pushLevel_def
        split: option.split pending_kind.split)
  obtain t where t: "s' = closeDropsPending (cs_latest s) (settlePending t)" "cs_changes t = cs_changes s"
    "cs_value t = control_commit (control_render None (cs_value s))"
    using assms(2,3) by (auto simp: rerender_def Let_def with_props_def split: option.splits)
  have "control_render None (cs_value s) = cs_value s"
    using assms(1) by (simp add: heard_def control_render_def uncontrolled_def)
  moreover have "control_reading (control_commit c0) = control_reading c0" for c0 :: "selection_value control"
    by (simp add: control_reading_def control_commit_def split: option.split)
  ultimately have "heard t" using assms(1) t(2,3) by (simp add: heard_def)
  then show ?thesis by (simp add: t(1) settle)
qed

text \<open>The runs in which a parent listens and does not own the value.\<close>

inductive free_run :: "cascader_state \<Rightarrow> bool" where
  free_mount: "ps_value c = None \<Longrightarrow> cp_listens p \<Longrightarrow> free_run (unmounted p c d)"
| free_handler: "free_run s \<Longrightarrow> handler_step s s' \<Longrightarrow> free_run s'"
| free_render: "free_run s \<Longrightarrow> rerender p c s = Some s' \<Longrightarrow> ps_value c = None \<Longrightarrow> cp_listens p \<Longrightarrow> free_run s'"

lemma handler_latest: "handler_step s s' \<Longrightarrow> cs_latest s' = cs_latest s"
proof (induction rule: handler_step.induct)
  case (combobox ns s)
  then show ?case using asks_combobox [of ns s] by (auto simp: asks_def)
next
  case (press n s)
  then show ?case using asks_navigate(1) by (simp add: asks_def)
next
  case (press_at n s d)
  then show ?case using asks_navigate(2) by (simp add: asks_def)
qed (simp_all add: handleOpenChange_def Let_def selectionRemove_def selectionClear_def setFlyoutOpen_def)

lemma heard_handler:
  assumes "handler_step s s'" "heard s" "cp_listens (vw_props (cs_latest s))"
  shows "heard s'"
  using assms
proof (induction rule: handler_step.induct)
  case (combobox ns s)
  then show ?case using heard_combobox by blast
qed (auto simp: heard_select selectionRemove_def selectionClear_def handleOpenChange_def Let_def
      popLevel_def goToDepth_def toggleExpanded_def setFlyoutOpen_def elim!: heard_same)

text \<open>C30: The consumer has heard what is selected.  In every run in which a parent listens and does not own the value, whatever the
  handlers, the loader and the renders do: no step changes the selection silently or reports one that is not then the
  selection, so what was reported last is what is selected.\<close>

theorem heard_is_selected:
  assumes "free_run s" "cs_changes s \<noteq> []"
  shows "control_reading (cs_value s) = sc_value (last (cs_changes s))"
proof -
  have "heard s \<and> cp_listens (vw_props (cs_latest s))" using assms(1)
  proof (induction rule: free_run.induct)
    case (free_mount c p d)
    then show ?case by (simp add: heard_def unmounted_def blank_view_def)
  next
    case (free_handler s s')
    then show ?case using heard_handler handler_latest by simp
  next
    case (free_render s p c s')
    have "vw_props (cs_latest s') = p" using rerender_result [OF free_render(2)] render_view_fields(1) by metis
    moreover have "heard s'" using heard_rerender [OF _ free_render(2,3)] free_render(5) by blast
    ultimately show ?case using free_render(4) by simp
  qed
  with assms(2) show ?thesis by (simp add: heard_def)
qed

definition picked :: cascader_state where
  "picked = commitNode (plain_node ''x'' []) sample_cascader"

theorem heard_is_selected_witness:
  "control_reading (cs_value picked) = sc_value (last (cs_changes picked)) \<and> control_reading (cs_value picked) = OneValue ''x''"
proof -
  have "free_run (unmounted drill_props no_props no_props)" by (rule free_mount) (simp_all add: no_props_def drill_props_def)
  moreover have "rerender drill_props no_props (unmounted drill_props no_props no_props) = Some sample_cascader"
  proof -
    have "rerender drill_props no_props (unmounted drill_props no_props no_props) \<noteq> None" by code_simp
    then show ?thesis by (auto simp: sample_cascader_def drawn_def)
  qed
  ultimately have "free_run sample_cascader" by (rule free_render) (simp_all add: no_props_def drill_props_def)
  then have "free_run picked" unfolding picked_def by (rule free_handler) (rule pick)
  moreover have "cs_changes picked \<noteq> []" "control_reading (cs_value picked) = OneValue ''x''" by code_simp+
  ultimately show ?thesis using heard_is_selected by blast
qed

end
