(* ===== verification/Cascader_Nav.thy ===== *)
theory Cascader_Nav
  imports Cascader_Root_Props
begin

text \<open>
  The navigation parts of the cascader (\<^verbatim>\<open>reui/cascader/cascader-nav.tsx\<close>): the back button, the breadcrumb, the keyboard of the
  search field in its three modes, and the text of the trigger.  The list navigation of the combobox primitive is a parameter: what is
  highlighted after an arrow press; so are the direction of the text and the number of stops in the footer, which the
  source reads from the DOM.  Everything else works on the root of \<open>Cascader_Root\<close>.
\<close>

section \<open>Back button and breadcrumb\<close>

definition CascaderBack_hidden :: "cascader_state \<Rightarrow> bool" where
  "CascaderBack_hidden s \<longleftrightarrow> cp_mode (vw_props (cs_latest s)) \<noteq> ModeDrill \<or> vw_path (cs_latest s) = []"

definition crumb_nodes :: "cascader_state \<Rightarrow> cascader_node list" where
  "crumb_nodes s = List.map_filter (\<lambda>v. map_of (ix_byValue (vw_index (cs_latest s))) v) (vw_path (cs_latest s))"

datatype crumb = CrumbGap "string list" | CrumbButton cascader_node | CrumbText cascader_node bool

definition CascaderBreadcrumb :: "int \<Rightarrow> cascader_collapse \<Rightarrow> bool \<Rightarrow> cascader_state \<Rightarrow> crumb list" where
  "CascaderBreadcrumb maxSegments collapse interactive s =
     (let nodes = crumb_nodes s; segments = collapseCascaderPath nodes maxSegments collapse;
          currentValue = (if nodes \<noteq> [] then Some (cn_value (last nodes)) else None)
      in if cp_mode (vw_props (cs_latest s)) \<noteq> ModeDrill \<or> nodes = [] then []
         else map (\<lambda>seg. case seg of
                SegEllipsis hidden \<Rightarrow> CrumbGap (map (\<lambda>n. cn_label (cn_props n)) hidden)
              | SegNode n \<Rightarrow> if interactive \<and> Some (cn_value n) \<noteq> currentValue then CrumbButton n
                             else CrumbText n (Some (cn_value n) = currentValue)) segments)"

definition breadcrumb_goTo :: "cascader_node \<Rightarrow> cascader_state \<Rightarrow> cascader_state" where
  "breadcrumb_goTo node s =
     (let path = vw_path (cs_latest s) in
      if cn_value node \<notin> set path then s else goToDepth (int (length (takeWhile (\<lambda>v. v \<noteq> cn_value node) path)) + 1) s)"

section \<open>The keyboard\<close>

record nav_env =
  ne_rtl :: bool
  ne_footerStops :: nat
  ne_arrow :: "bool \<Rightarrow> cascader_node list \<Rightarrow> cascader_node option \<Rightarrow> cascader_node option"

record nav_event =
  ke_key :: string
  ke_alt :: bool
  ke_selectionStart :: nat
  ke_selectionEnd :: nat

text \<open>The root, the highlighted row, whether the event was prevented, and whether the footer got the focus.\<close>

record nav_state =
  nv_root :: cascader_state
  nv_highlight :: "cascader_node option"
  nv_prevented :: bool
  nv_onFooter :: bool

abbreviation nv_view :: "nav_state \<Rightarrow> cascader_view" where
  "nv_view st \<equiv> cs_latest (nv_root st)"

fun value_index :: "string \<Rightarrow> flat_node list \<Rightarrow> nat option" where
  "value_index v [] = None"
| "value_index v (row # rows) = (if cn_value (fn_node row) = v then Some 0 else map_option Suc (value_index v rows))"

definition highlighted_row :: "nav_state \<Rightarrow> nat option" where
  "highlighted_row st =
     (case nv_highlight st of None \<Rightarrow> None | Some n \<Rightarrow> value_index (cn_value n) (vw_treeRows (nv_view st)))"

text \<open>The first thing a press of the down arrow does: at the end of the list it hands the focus to the footer.\<close>

definition at_end :: "nav_state \<Rightarrow> bool" where
  "at_end st \<longleftrightarrow>
     (let items = (if cp_mode (vw_props (nv_view st)) = ModeTree then map fn_node (vw_treeRows (nv_view st)) else rendered_items (nv_view st))
      in items = [] \<or> (case nv_highlight st of None \<Rightarrow> False | Some h \<Rightarrow> cn_value h = cn_value (last items)))"

definition footer_handoff :: "nav_env \<Rightarrow> nav_state \<Rightarrow> nav_state option" where
  "footer_handoff e st =
     (if at_end st \<and> 0 < ne_footerStops e then Some (st\<lparr>nv_prevented := True, nv_onFooter := True\<rparr>) else None)"

text \<open>An arrow key sent to the field: the handler below sees it first, for which only the hand-off matters, and then the list moves.\<close>

definition dispatch_arrow :: "nav_env \<Rightarrow> bool \<Rightarrow> nav_state \<Rightarrow> nav_state" where
  "dispatch_arrow e isUp st =
     (let onFooter = (\<not> isUp \<and> footer_handoff e st \<noteq> None)
      in st\<lparr>nv_onFooter := (nv_onFooter st \<or> onFooter),
            nv_highlight := ne_arrow e isUp (rendered_items (nv_view st)) (nv_highlight st)\<rparr>)"

fun move_loop :: "nav_env \<Rightarrow> nat \<Rightarrow> nat \<Rightarrow> nat option \<Rightarrow> nav_state \<Rightarrow> nav_state" where
  "move_loop e 0 target current st = st"
| "move_loop e (Suc steps) target current st =
     (case current of
        None \<Rightarrow> st
      | Some c \<Rightarrow>
          if c = target then st
          else (let isUp = (c > target); st1 = dispatch_arrow e isUp st
                in case highlighted_row st1 of
                     None \<Rightarrow> st1
                   | Some n \<Rightarrow>
                       if (if isUp then n < c \<and> n \<ge> target else n > c \<and> n \<le> target)
                       then move_loop e steps target (Some n) st1 else st1))"

definition moveHighlightTo :: "nav_env \<Rightarrow> nat \<Rightarrow> nav_state \<Rightarrow> nav_state" where
  "moveHighlightTo e target st = move_loop e (length (vw_treeRows (nv_view st))) target (highlighted_row st) st"

definition caret_at_start :: "nav_event \<Rightarrow> bool" where
  "caret_at_start k \<longleftrightarrow> ke_selectionStart k = 0 \<and> ke_selectionEnd k = 0"

definition caret_at_end :: "nav_event \<Rightarrow> nav_state \<Rightarrow> bool" where
  "caret_at_end k st \<longleftrightarrow>
     ke_selectionStart k = length (vw_query (nv_view st)) \<and> ke_selectionEnd k = length (vw_query (nv_view st))"

definition forward_key :: "nav_env \<Rightarrow> string" where
  "forward_key e = (if ne_rtl e then ''ArrowLeft'' else ''ArrowRight'')"

definition back_key :: "nav_env \<Rightarrow> string" where
  "back_key e = (if ne_rtl e then ''ArrowRight'' else ''ArrowLeft'')"

definition handleTreeKeyDown :: "nav_env \<Rightarrow> nav_event \<Rightarrow> nav_state \<Rightarrow> nav_state" where
  "handleTreeKeyDown e k st =
     (let forward = (ke_key k = forward_key e) in
      if \<not> forward \<and> ke_key k \<noteq> back_key e then st
      else if (if forward then \<not> caret_at_end k st else \<not> caret_at_start k) then st
      else case highlighted_row st of
             None \<Rightarrow> st
           | Some i \<Rightarrow>
               (let rows = vw_treeRows (nv_view st); row = rows ! i; st1 = st\<lparr>nv_prevented := True\<rparr>
                in if forward
                   then (if \<not> fn_branch row then st
                         else if \<not> fn_expanded row then st1\<lparr>nv_root := navigate (fn_node row) (nv_root st)\<rparr>
                         else if i + 1 < length rows \<and> fn_depth (rows ! (i + 1)) = fn_depth row + 1
                         then moveHighlightTo e (i + 1) st1
                         else st1)
                   else if fn_branch row \<and> fn_expanded row
                   then st1\<lparr>nv_root := toggleExpanded (cn_value (fn_node row)) (nv_root st)\<rparr>
                   else case parent_at (vw_index (nv_view st)) (cn_value (fn_node row)) of
                          None \<Rightarrow> st
                        | Some p \<Rightarrow>
                            if p = [] then st
                            else (case value_index p rows of
                                    None \<Rightarrow> st
                                  | Some j \<Rightarrow> moveHighlightTo e j st1)))"

definition input_handleKeyDown :: "nav_env \<Rightarrow> nav_event \<Rightarrow> nav_state \<Rightarrow> nav_state" where
  "input_handleKeyDown e k st =
     (let v = nv_view st in
      if nv_prevented st then st
      else case (if ke_key k = ''ArrowDown'' \<and> \<not> ke_alt k then footer_handoff e st else None) of
             Some st1 \<Rightarrow> st1
           | None \<Rightarrow>
               if cp_mode (vw_props v) = ModeTree then handleTreeKeyDown e k st
               else case (if ke_key k = forward_key e \<and> caret_at_end k st then nv_highlight st else None) of
                      Some h \<Rightarrow>
                        if isCascaderBranch (vw_index v) h
                        then st\<lparr>nv_prevented := True, nv_root := navigate h (nv_root st)\<rparr>
                        else st
                    | None \<Rightarrow>
                        if ((ke_key k = back_key e \<and> caret_at_start k) \<or> (ke_key k = ''Backspace'' \<and> vw_query v = [])) \<and> vw_path v \<noteq> []
                        then st\<lparr>nv_prevented := True, nv_root := popLevel (nv_root st)\<rparr>
                        else st)"

section \<open>The highlight lands\<close>

lemma value_index_nth:
  "distinct (map (\<lambda>row. cn_value (fn_node row)) rows) \<Longrightarrow> i < length rows \<Longrightarrow> value_index (cn_value (fn_node (rows ! i))) rows = Some i"
proof (induction rows arbitrary: i)
  case (Cons row rows)
  then show ?case by (cases i) (force simp: image_iff)+
qed simp

lemma value_index_Some: "value_index v rows = Some i \<Longrightarrow> i < length rows \<and> cn_value (fn_node (rows ! i)) = v"
  by (induction rows arbitrary: i) (auto split: if_splits)

text \<open>What the combobox primitive documents of its list: an arrow moves the highlight to the neighbouring row, if there is one.\<close>

definition moves_by_one :: "nav_env \<Rightarrow> bool" where
  "moves_by_one e \<longleftrightarrow>
     (\<forall>ns i. distinct (map cn_value ns) \<longrightarrow> Suc i < length ns \<longrightarrow>
        ne_arrow e False ns (Some (ns ! i)) = Some (ns ! Suc i) \<and> ne_arrow e True ns (Some (ns ! Suc i)) = Some (ns ! i))"

definition tree_screen :: "nav_state \<Rightarrow> bool" where
  "tree_screen st \<longleftrightarrow>
     cp_mode (vw_props (nv_view st)) = ModeTree \<and> distinct (map (\<lambda>row. cn_value (fn_node row)) (vw_treeRows (nv_view st)))"

definition on_row :: "nat \<Rightarrow> nav_state \<Rightarrow> bool" where
  "on_row i st \<longleftrightarrow> i < length (vw_treeRows (nv_view st)) \<and> nv_highlight st = Some (fn_node (vw_treeRows (nv_view st) ! i))"

lemma on_row_index: "tree_screen st \<Longrightarrow> on_row i st \<Longrightarrow> highlighted_row st = Some i"
  by (simp add: tree_screen_def on_row_def highlighted_row_def value_index_nth)

lemma dispatch_keeps: "nv_root (dispatch_arrow e isUp st) = nv_root st" "nv_prevented (dispatch_arrow e isUp st) = nv_prevented st"
  by (simp_all add: dispatch_arrow_def Let_def)

lemma arrow_moves:
  assumes "moves_by_one e" "tree_screen st" "on_row i st" "if isUp then 0 < i \<and> j = i - 1 else Suc i < length (vw_treeRows (nv_view st)) \<and> j = Suc i"
  shows "on_row j (dispatch_arrow e isUp st)" "nv_onFooter (dispatch_arrow e isUp st) = nv_onFooter st"
proof -
  let ?rows = "vw_treeRows (nv_view st)" and ?ns = "map fn_node (vw_treeRows (nv_view st))"
  have items: "rendered_items (nv_view st) = ?ns" using assms(2) by (simp add: tree_screen_def rendered_items_def)
  have dist: "distinct (map cn_value ?ns)" using assms(2) by (simp add: tree_screen_def comp_def)
  have i: "i < length ?rows" "nv_highlight st = Some (?ns ! i)" using assms(3) by (auto simp: on_row_def)
  have step: "ne_arrow e False ?ns (Some (?ns ! m)) = Some (?ns ! Suc m) \<and> ne_arrow e True ?ns (Some (?ns ! Suc m)) = Some (?ns ! m)"
    if "Suc m < length ?ns" for m
    using assms(1) dist that unfolding moves_by_one_def by blast
  have "ne_arrow e isUp ?ns (Some (?ns ! i)) = Some (?ns ! j)"
    using step [of i] step [of "i - 1"] assms(4) i(1) by (cases isUp) auto
  then show "on_row j (dispatch_arrow e isUp st)"
    using assms(4) i items by (auto simp: on_row_def dispatch_arrow_def Let_def split: if_splits)
  have "\<not> at_end st" if "\<not> isUp"
  proof -
    have "Suc i < length ?rows" using assms(4) that by simp
    moreover from this have "?ns \<noteq> []" by auto
    ultimately have "last ?ns = ?ns ! (length ?rows - 1)" "length ?rows - 1 \<noteq> i" "length ?rows - 1 < length ?rows"
      using last_conv_nth [of ?ns] by auto
    moreover have "map cn_value ?ns ! i \<noteq> map cn_value ?ns ! (length ?rows - 1)"
      using nth_eq_iff_index_eq [OF dist, of i "length ?rows - 1"] i(1) calculation by auto
    ultimately show ?thesis using assms(2) i by (auto simp: at_end_def tree_screen_def Let_def)
  qed
  then show "nv_onFooter (dispatch_arrow e isUp st) = nv_onFooter st"
    by (auto simp: dispatch_arrow_def footer_handoff_def Let_def)
qed

lemma move_lands:
  assumes "moves_by_one e" "tree_screen st" "on_row c st" "target < length (vw_treeRows (nv_view st))"
    and "(if target < c then c - target else target - c) \<le> steps"
  shows "on_row target (move_loop e steps target (Some c) st) \<and> nv_root (move_loop e steps target (Some c) st) = nv_root st \<and>
    nv_onFooter (move_loop e steps target (Some c) st) = nv_onFooter st \<and> nv_prevented (move_loop e steps target (Some c) st) = nv_prevented st"
  using assms(2-5)
proof (induction steps arbitrary: c st)
  case 0
  then show ?case by (auto split: if_splits)
next
  case (Suc steps)
  show ?case
  proof (cases "c = target")
    case True
    with Suc.prems show ?thesis by simp
  next
    case False
    let ?up = "c > target" and ?j = "if c > target then c - 1 else Suc c"
    let ?st = "dispatch_arrow e ?up st"
    have ok: "if ?up then 0 < c \<and> ?j = c - 1 else Suc c < length (vw_treeRows (nv_view st)) \<and> ?j = Suc c"
      using False Suc.prems(3) by auto
    note moved = arrow_moves [OF assms(1) Suc.prems(1,2) ok]
    have screen: "tree_screen ?st" using Suc.prems(1) by (simp add: tree_screen_def dispatch_keeps)
    have row: "highlighted_row ?st = Some ?j" by (rule on_row_index [OF screen moved(1)])
    have near: "(if target < ?j then ?j - target else target - ?j) \<le> steps" using False Suc.prems(4) by (auto split: if_splits)
    have "move_loop e (Suc steps) target (Some c) st = move_loop e steps target (Some ?j) ?st"
      using False row by (auto simp: Let_def)
    with Suc.IH [OF screen moved(1) _ near] moved(2) Suc.prems(3) show ?thesis by (simp add: dispatch_keeps)
  qed
qed

lemma highlight_moved:
  assumes "moves_by_one e" "tree_screen st" "on_row c st" "target < length (vw_treeRows (nv_view st))"
  shows "on_row target (moveHighlightTo e target st) \<and> nv_root (moveHighlightTo e target st) = nv_root st \<and>
    nv_onFooter (moveHighlightTo e target st) = nv_onFooter st \<and> nv_prevented (moveHighlightTo e target st) = nv_prevented st"
proof -
  have "(if target < c then c - target else target - c) \<le> length (vw_treeRows (nv_view st))"
    using assms(3,4) by (auto simp: on_row_def)
  from move_lands [OF assms this] show ?thesis unfolding moveHighlightTo_def on_row_index [OF assms(2,3)] .
qed


section \<open>The tree keys\<close>

lemma reach_listed:
  assumes "(c, v) \<in> (down (ix_childrenOf ix))\<^sup>*" "c \<in> vals (ix_roots ix)" "ix_all ix = subtree_walk (ix_childrenOf ix) [] (ix_roots ix)"
  shows "v \<in> vals (ix_all ix)"
  using assms(1)
proof (induction rule: rtrancl_induct)
  case base
  then show ?case using subtree_walk_closed [of "[]" "ix_childrenOf ix" "ix_roots ix"] assms(2,3) by auto
next
  case (step y z)
  then show ?case using subtree_walk_closed [of "[]" "ix_childrenOf ix" "ix_roots ix"] assms(3) by (auto simp: down_def)
qed

lemma parent_listed:
  assumes "ordered_index ix" "n \<in> set (ix_all ix)" "parent_at ix (cn_value n) = Some p"
  shows "p \<in> vals (ix_all ix)"
proof -
  have agree: "maps_agree ix" and roots: "ix_roots ix = children_at ix CASCADER_ROOT_KEY"
    and all: "ix_all ix = subtree_walk (ix_childrenOf ix) [] (ix_roots ix)"
    using assms(1) by (auto simp: ordered_index_def tree_index_def)
  have top: "parent_at ix (cn_value c) = None" if "c \<in> set (children_at ix CASCADER_ROOT_KEY)" for c
    using agree that unfolding maps_agree_def by (simp add: parent_get_def)
  obtain c where c: "c \<in> set (ix_roots ix)" "(cn_value c, cn_value n) \<in> (down (ix_childrenOf ix))\<^sup>*"
    using subtree_walk_sound assms(2) all by metis
  from c(2) show ?thesis
  proof (cases rule: rtranclE)
    case base
    with top [of c] c(1) roots assms(3) show ?thesis by simp
  next
    case (step y)
    then obtain m where m: "m \<in> set (children_at ix y)" "cn_value m = cn_value n" by (auto simp: down_def)
    have "y \<noteq> CASCADER_ROOT_KEY" using top [of m] m assms(3) by auto
    then have "y = p" using child_parent(1) [OF agree m(1)] m(2) assms(3) by simp
    with reach_listed [OF step(1) _ all] c(1) show ?thesis by blast
  qed
qed

lemma parent_row:
  assumes "ordered_index ix" "\<forall>(v, n)\<in>set (ix_byValue ix). \<not> isCascaderMoreNode n" "flattenCascaderTree ix expanded sentinels = Some rows"
    and "row \<in> set rows" "parent_at ix (cn_value (fn_node row)) = Some p"
  shows "\<exists>row' \<in> set rows. cn_value (fn_node row') = p"
proof -
  have agree: "maps_agree ix" using assms(1) by (simp add: ordered_index_def tree_index_def)
  have rows: "map fn_node (filter (\<lambda>row. \<not> isCascaderMoreNode (fn_node row)) rows) = filter (row_shown ix expanded) (ix_all ix)"
    using flatten_rows [OF assms(1,2), of expanded sentinels] assms(3) by auto
  obtain n where n: "node_at ix (cn_value (fn_node row)) = Some n" "cn_value n = cn_value (fn_node row)"
    using parent_child [OF agree assms(5)] by metis
  then have "\<not> isCascaderMoreNode (fn_node row)" using assms(2) by (auto simp: isCascaderMoreNode_def dest!: map_of_SomeD)
  then have "fn_node row \<in> set (map fn_node (filter (\<lambda>row. \<not> isCascaderMoreNode (fn_node row)) rows))" using assms(4) by auto
  then have "fn_node row \<in> set (filter (row_shown ix expanded) (ix_all ix))" unfolding rows .
  then have shown: "fn_node row \<in> set (ix_all ix)" "ancestors ix (cn_value (fn_node row)) \<subseteq> set expanded" by (auto simp: row_shown_def)
  obtain m where m: "m \<in> set (ix_all ix)" "cn_value m = p" using parent_listed [OF assms(1) shown(1) assms(5)] by auto
  have "ancestors ix p \<subseteq> ancestors ix (cn_value (fn_node row))"
    using assms(5) by (auto simp: ancestors_def intro: trancl_into_trancl2)
  then have "m \<in> set (filter (row_shown ix expanded) (ix_all ix))" using shown(2) m by (auto simp: row_shown_def)
  then show ?thesis using m(2) unfolding rows [symmetric] by auto
qed

text \<open>A press of a level key that reaches the tree's handler.\<close>

definition tree_press :: "nav_env \<Rightarrow> nav_event \<Rightarrow> nav_state \<Rightarrow> bool" where
  "tree_press e k st \<longleftrightarrow>
     \<not> nv_prevented st \<and>
     (ke_key k = forward_key e \<and> caret_at_end k st \<or> ke_key k = back_key e \<and> caret_at_start k)"

lemma level_keys: "forward_key e \<noteq> back_key e" "forward_key e \<noteq> ''ArrowDown''" "back_key e \<noteq> ''ArrowDown''"
  by (simp_all add: forward_key_def back_key_def)

lemma tree_press_handled:
  assumes "tree_screen st" "tree_press e k st"
  shows "input_handleKeyDown e k st = handleTreeKeyDown e k st"
  using assms level_keys [of e] by (auto simp: input_handleKeyDown_def tree_press_def tree_screen_def Let_def)

text \<open>The forward key opens a closed branch the way a press on it does, and enters an open one at its first row.\<close>

theorem forward_key_enters:
  assumes "moves_by_one e" "tree_screen st" "on_row i st" "tree_press e k st" "ke_key k = forward_key e"
    and "rows = vw_treeRows (nv_view st)" "fn_branch (rows ! i)"
  shows "\<not> fn_expanded (rows ! i) \<Longrightarrow> nv_root (input_handleKeyDown e k st) = navigate (fn_node (rows ! i)) (nv_root st)"
    and "fn_expanded (rows ! i) \<Longrightarrow> Suc i < length rows \<Longrightarrow> fn_depth (rows ! Suc i) = fn_depth (rows ! i) + 1 \<Longrightarrow>
      on_row (Suc i) (input_handleKeyDown e k st) \<and> nv_root (input_handleKeyDown e k st) = nv_root st"
proof -
  let ?st = "st\<lparr>nv_prevented := True\<rparr>"
  note handled = tree_press_handled [OF assms(2,4)] and row = on_row_index [OF assms(2,3)]
  have caret: "caret_at_end k st" using assms(4,5) level_keys [of e] by (auto simp: tree_press_def)
  show "nv_root (input_handleKeyDown e k st) = navigate (fn_node (rows ! i)) (nv_root st)" if "\<not> fn_expanded (rows ! i)"
    unfolding handled handleTreeKeyDown_def using row caret assms(5-7) that by (simp add: Let_def)
  assume next_row: "fn_expanded (rows ! i)" "Suc i < length rows" "fn_depth (rows ! Suc i) = fn_depth (rows ! i) + 1"
  have "input_handleKeyDown e k st = moveHighlightTo e (Suc i) ?st"
    unfolding handled handleTreeKeyDown_def using row caret assms(5-7) next_row by (simp add: Let_def)
  moreover have "tree_screen ?st" "on_row i ?st" using assms(2,3) by (simp_all add: tree_screen_def on_row_def)
  ultimately show "on_row (Suc i) (input_handleKeyDown e k st) \<and> nv_root (input_handleKeyDown e k st) = nv_root st"
    using highlight_moved [OF assms(1), of ?st i "Suc i"] next_row(2) assms(6) by simp
qed



section \<open>Breadcrumb and trigger\<close>

text \<open>A press on a crumb cuts the path behind it, and drops the query and any navigation that waits.\<close>

theorem crumb_returns:
  assumes "distinct (vw_path (cs_latest s))" "ct_value (cs_path s) = vw_path (cs_latest s)" "k < length (vw_path (cs_latest s))"
    and "cn_value node = vw_path (cs_latest s) ! k"
  shows "ct_value (cs_path (breadcrumb_goTo node s)) = take (Suc k) (vw_path (cs_latest s))"
    and "cs_pending (breadcrumb_goTo node s) = None"
proof -
  let ?path = "vw_path (cs_latest s)"
  have "takeWhile (\<lambda>v. v \<noteq> ?path ! k) ?path = take k ?path"
  proof (rule takeWhile_eq_take_P_nth)
    show "?path ! i \<noteq> ?path ! k" if "i < k" "i < length ?path" for i
      using that assms(1,3) nth_eq_iff_index_eq [of ?path i k] by simp
  qed simp
  then have "breadcrumb_goTo node s = goToDepth (int k + 1) s" using assms(3,4) by (simp add: breadcrumb_goTo_def)
  then show "ct_value (cs_path (breadcrumb_goTo node s)) = take (Suc k) ?path" "cs_pending (breadcrumb_goTo node s) = None"
    using assms(2)
    by (simp_all add: goToDepth_def setPathWithReason_def set_array_def setQuery_def setPending_def bumpAnnouncement_def
        control_advance_def nat_add_distrib)
qed

datatype trigger_display = ShowPath | ShowLeaf | ShowCount

datatype trigger_content = TriggerPlaceholder | TriggerCount nat | TriggerTrail "cascader_node path_segment list"

definition trigger_path :: "cascader_state \<Rightarrow> cascader_node list" where
  "trigger_path s =
     (let selectedValues = vw_selected (cs_latest s); selected = map (resolveNode s) selectedValues;
          resolvedPath = (case selectedValues of [v] \<Rightarrow> getCascaderPath (vw_index (cs_latest s)) (Some v) | _ \<Rightarrow> [])
      in if resolvedPath \<noteq> [] then resolvedPath else if length selected = 1 then selected else [])"

definition CascaderValue :: "trigger_display \<Rightarrow> int \<Rightarrow> cascader_collapse \<Rightarrow> cascader_state \<Rightarrow> trigger_content" where
  "CascaderValue display maxSegments collapse s =
     (let selectedValues = vw_selected (cs_latest s); path = trigger_path s
      in if selectedValues = [] then TriggerPlaceholder
         else if display = ShowCount \<or> cp_multiple (vw_props (cs_latest s)) \<and> length selectedValues > 1 then TriggerCount (length selectedValues)
         else (let leaf = (if path \<noteq> [] then last path else resolveNode s (hd selectedValues))
               in TriggerTrail (if display = ShowLeaf then [SegNode leaf] else collapseCascaderPath path maxSegments collapse)))"

text \<open>The trigger names what is selected: with one value selected the trail it shows ends in the node of that value, whether the index knows
  it, it was remembered, or only its text is left.\<close>

theorem trigger_names_selection:
  assumes "tree_index (vw_index (cs_latest s))" "vw_selected (cs_latest s) = [v]" "display \<noteq> ShowCount"
  shows "\<exists>segments. CascaderValue display m c s = TriggerTrail segments \<and> expand segments \<noteq> [] \<and> last (expand segments) = resolveNode s v"
proof -
  let ?ix = "vw_index (cs_latest s)"
  have "trigger_path s \<noteq> [] \<and> last (trigger_path s) = resolveNode s v"
  proof (cases "node_at ?ix v")
    case None
    then have "getCascaderPath ?ix (Some v) = []" by (simp add: getCascaderPath_def climb.simps List.map_filter_def)
    with assms(2) show ?thesis by (simp add: trigger_path_def)
  next
    case (Some n)
    then have "getCascaderPath ?ix (Some v) \<noteq> [] \<and> last (getCascaderPath ?ix (Some v)) = n"
      using path_is_chain [OF assms(1) Some] by blast
    with Some assms(2) show ?thesis by (simp add: trigger_path_def resolveNode_def)
  qed
  moreover have "expand (collapseCascaderPath (trigger_path s) m c) = trigger_path s" by (rule collapse_expands [THEN conjunct1])
  ultimately show ?thesis using assms(2,3) by (auto simp: CascaderValue_def Let_def)
qed


section \<open>On a sample\<close>

text \<open>A list that moves by one row and has no row beyond its ends.\<close>

fun node_after :: "string \<Rightarrow> cascader_node list \<Rightarrow> cascader_node option" where
  "node_after v [] = None"
| "node_after v (n # ns) = (if cn_value n = v then (case ns of [] \<Rightarrow> None | m # _ \<Rightarrow> Some m) else node_after v ns)"

definition sample_nav :: nav_env where
  "sample_nav =
     \<lparr>ne_rtl = False, ne_footerStops = 1,
      ne_arrow = (\<lambda>isUp ns h. case h of None \<Rightarrow> None | Some n \<Rightarrow> node_after (cn_value n) (if isUp then rev ns else ns))\<rparr>"

lemma node_after_nth: "distinct (map cn_value ns) \<Longrightarrow> Suc i < length ns \<Longrightarrow> node_after (cn_value (ns ! i)) ns = Some (ns ! Suc i)"
proof (induction ns arbitrary: i)
  case (Cons n ns)
  show ?case
  proof (cases i)
    case 0
    with Cons.prems(2) show ?thesis by (cases ns) simp_all
  next
    case (Suc j)
    with Cons.prems have "cn_value n \<noteq> cn_value (ns ! j)" by auto
    with Cons Suc show ?thesis by simp
  qed
qed simp

lemma sample_moves: "moves_by_one sample_nav"
  unfolding moves_by_one_def
proof (intro allI impI conjI)
  fix ns :: "cascader_node list" and i
  assume d: "distinct (map cn_value ns)" and i: "Suc i < length ns"
  show "ne_arrow sample_nav False ns (Some (ns ! i)) = Some (ns ! Suc i)" using node_after_nth [OF d i] by (simp add: sample_nav_def)
  let ?k = "length ns - Suc (Suc i)"
  have "Suc ?k < length (rev ns)" "rev ns ! ?k = ns ! Suc i" "rev ns ! Suc ?k = ns ! i"
    using i by (simp_all add: rev_nth Suc_diff_Suc)
  moreover have "distinct (map cn_value (rev ns))" using d by (simp add: rev_map [symmetric])
  ultimately show "ne_arrow sample_nav True ns (Some (ns ! Suc i)) = Some (ns ! i)"
    using node_after_nth [of "rev ns" ?k] by (simp add: sample_nav_def)
qed

definition sample_tree :: "string list \<Rightarrow> string \<Rightarrow> nat \<Rightarrow> nav_state" where
  "sample_tree expanded query i =
     (let rows = the (tree_rows tree_props [] sample_merged expanded query)
      in \<lparr>nv_root = sample_cascader\<lparr>cs_latest := (cs_latest sample_cascader)
             \<lparr>vw_props := tree_props, vw_index := sample_merged, vw_expanded := expanded, vw_query := query, vw_treeRows := rows\<rparr>\<rparr>,
          nv_highlight = Some (fn_node (rows ! i)), nv_prevented = False, nv_onFooter = False\<rparr>)"

definition key_at_start :: "string \<Rightarrow> nav_event" where
  "key_at_start key = \<lparr>ke_key = key, ke_alt = False, ke_selectionStart = 0, ke_selectionEnd = 0\<rparr>"


text \<open>With a query the rows above a match are drawn open although they are not in the list of expanded values, so that the key that should close
  such a row adds it to the list instead: the row stays open, and is open when the query is gone.\<close>

theorem closing_in_query_expands:
  "(let st = sample_tree [] ''nyc'' 0; st' = input_handleKeyDown sample_nav (key_at_start ''ArrowLeft'') st
    in fn_expanded (vw_treeRows (nv_view st) ! 0) \<and> ct_value (cs_expanded (nv_root st)) = [] \<and>
       ct_value (cs_expanded (nv_root st')) = [''us''])"
  by code_simp

end
