(* ===== verification/Grid_Clipboard.thy ===== *)
theory Grid_Clipboard
  imports Prelude
begin

text \<open>
  The clipboard text of the data grid (\<^verbatim>\<open>data-grid-cell-selection.tsx\<close>, first part): tab separated values
  with quoting in the style of spreadsheets, the scanner that reads them back, tiling of a block, and
  the HTML flavour.  Copying and pasting gives the same grid back, except when the last of several
  rows is one empty field.
\<close>

section \<open>Text\<close>

definition DQ :: char where "DQ = CHR 0x22"
definition TAB :: char where "TAB = CHR 0x09"
definition LF :: char where "LF = CHR 0x0A"
definition CR :: char where "CR = CHR 0x0D"

lemma chars_distinct [simp]:
  "DQ \<noteq> TAB" "DQ \<noteq> LF" "DQ \<noteq> CR" "TAB \<noteq> DQ" "LF \<noteq> DQ" "CR \<noteq> DQ" "TAB \<noteq> CR" "TAB \<noteq> LF" "CR \<noteq> TAB"
  "LF \<noteq> TAB" "CR \<noteq> LF" "LF \<noteq> CR"
  by (simp_all add: DQ_def TAB_def LF_def CR_def)

definition serializeDataGridClipboardField :: "string \<Rightarrow> string" where
  "serializeDataGridClipboardField field =
     (if list_ex (\<lambda>c. c \<in> {TAB, LF, CR, DQ}) field then [DQ] @ replace_char DQ [DQ, DQ] field @ [DQ] else field)"

definition serializeDataGridClipboardText :: "string list list \<Rightarrow> string" where
  "serializeDataGridClipboardText grid =
     join [CR, LF] (map (\<lambda>line. join [TAB] (map serializeDataGridClipboardField line)) grid)"

text \<open>The scan: inside quotes or not, the field, the row and the rows so far, and the text still to read.\<close>

function parse_loop :: "bool \<Rightarrow> string \<Rightarrow> string list \<Rightarrow> string list list \<Rightarrow> string \<Rightarrow> string list list" where
  "parse_loop quoted field row rows [] = rows @ [row @ [field]]"
| "parse_loop True field row rows (ch # rest) =
     (if ch = DQ
      then if rest \<noteq> [] \<and> hd rest = DQ then parse_loop True (field @ [DQ]) row rows (tl rest)
           else parse_loop False field row rows rest
      else parse_loop True (field @ [ch]) row rows rest)"
| "parse_loop False field row rows (ch # rest) =
     (if ch = DQ \<and> field = [] then parse_loop True field row rows rest
      else if ch = TAB then parse_loop False [] (row @ [field]) rows rest
      else if ch = CR \<or> ch = LF
      then parse_loop False [] [] (rows @ [row @ [field]])
             (if ch = CR \<and> rest \<noteq> [] \<and> hd rest = LF then tl rest else rest)
      else parse_loop False (field @ [ch]) row rows rest)"
  by pat_completeness auto
termination
  by (relation "measure (\<lambda>(_, _, _, _, text). length text)") auto

definition parseDataGridClipboardText :: "string \<Rightarrow> string list list" where
  "parseDataGridClipboardText text =
     (let rows = parse_loop False [] [] [] text
      in if length rows > 1 \<and> last rows = [[]] then butlast rows else rows)"

text \<open>Out of range, \<^verbatim>\<open>block[r % block.length] ?? []\<close> and \<^verbatim>\<open>source[c % (source.length || 1)] ?? ""\<close>.\<close>

definition nth_opt :: "'a list \<Rightarrow> nat \<Rightarrow> 'a option" where
  "nth_opt xs k = (if k < length xs then Some (xs ! k) else None)"

definition tile_cell :: "string list list \<Rightarrow> nat \<Rightarrow> nat \<Rightarrow> string" where
  "tile_cell block r c =
     (let source = (case nth_opt block (r mod length block) of None \<Rightarrow> [] | Some line \<Rightarrow> line)
      in case nth_opt source (c mod (if source = [] then 1 else length source)) of None \<Rightarrow> [] | Some f \<Rightarrow> f)"

definition tileDataGridClipboardBlock :: "string list list \<Rightarrow> nat \<Rightarrow> nat \<Rightarrow> string list list" where
  "tileDataGridClipboardBlock block rowCount columnCount =
     map (\<lambda>r. map (tile_cell block r) [0..<columnCount]) [0..<rowCount]"

section \<open>HTML\<close>

definition escapeDataGridClipboardHtml :: "string \<Rightarrow> string" where
  "escapeDataGridClipboardHtml value =
     replace_char (CHR ''>'') ''&gt;'' (replace_char (CHR ''<'') ''&lt;'' (replace_char (CHR ''&'') ''&amp;'' value))"

fun break_lines :: "string \<Rightarrow> string" where
  "break_lines [] = []"
| "break_lines (c # rest) =
     (if c = CR \<and> rest \<noteq> [] \<and> hd rest = LF then ''<br>'' @ break_lines (tl rest)
      else if c = CR \<or> c = LF then ''<br>'' @ break_lines rest
      else c # break_lines rest)"

definition renderDataGridClipboardHtml :: "string list list \<Rightarrow> string" where
  "renderDataGridClipboardHtml grid =
     ''<table><tbody>'' @
     concat (map (\<lambda>line. ''<tr>'' @
       concat (map (\<lambda>field. ''<td>'' @ break_lines (escapeDataGridClipboardHtml field) @ ''</td>'') line) @
       ''</tr>'') grid) @
     ''</tbody></table>''"

section \<open>The round trip\<close>

definition stops :: "string \<Rightarrow> bool" where
  "stops rest \<longleftrightarrow> rest = [] \<or> hd rest \<in> {TAB, CR, LF}"

lemma parse_plain:
  "list_all (\<lambda>c. c \<notin> {TAB, LF, CR, DQ}) f \<Longrightarrow>
   parse_loop False g row rows (f @ rest) = parse_loop False (g @ f) row rows rest"
  by (induction f arbitrary: g) auto

lemma parse_quoted:
  "stops rest \<Longrightarrow>
   parse_loop True g row rows (replace_char DQ [DQ, DQ] f @ DQ # rest) = parse_loop False (g @ f) row rows rest"
proof (induction f arbitrary: g)
  case Nil
  then have "\<not> (rest \<noteq> [] \<and> hd rest = DQ)" by (auto simp: stops_def)
  then show ?case by (cases rest) auto
qed auto

lemma parse_field:
  assumes "stops rest"
  shows "parse_loop False [] row rows (serializeDataGridClipboardField f @ rest) = parse_loop False f row rows rest"
proof (cases "list_ex (\<lambda>c. c \<in> {TAB, LF, CR, DQ}) f")
  case True
  with parse_quoted [OF assms, of "[]" row rows f] show ?thesis by (simp add: serializeDataGridClipboardField_def)
next
  case False
  then have "list_all (\<lambda>c. c \<notin> {TAB, LF, CR, DQ}) f" by (auto simp: list_ex_iff list_all_iff)
  from parse_plain [OF this, of "[]"] False show ?thesis by (simp add: serializeDataGridClipboardField_def)
qed

lemma parse_line:
  assumes "fs \<noteq> []" "stops rest"
  shows "parse_loop False [] row rows (join [TAB] (map serializeDataGridClipboardField fs) @ rest) =
    parse_loop False (last fs) (row @ butlast fs) rows rest"
  using assms(1)
proof (induction fs arbitrary: row rule: list_nonempty_induct)
  case (single f)
  with parse_field [OF assms(2)] show ?case by simp
next
  case (cons f fs)
  have "stops (TAB # join [TAB] (map serializeDataGridClipboardField fs) @ rest)" by (simp add: stops_def)
  from parse_field [OF this, of row rows f] cons show ?case by (cases fs) simp_all
qed

lemma parse_grid:
  "grid \<noteq> [] \<Longrightarrow> [] \<notin> set grid \<Longrightarrow>
   parse_loop False [] [] rows (serializeDataGridClipboardText grid) = rows @ grid"
proof (induction grid arbitrary: rows rule: list_nonempty_induct)
  case (single line)
  then show ?case
    using parse_line [of line "[]" "[]" rows] by (simp add: serializeDataGridClipboardText_def stops_def)
next
  case (cons line grid)
  have "line \<noteq> []" using cons.prems by auto
  moreover have "stops ([CR, LF] @ serializeDataGridClipboardText grid)" by (simp add: stops_def)
  moreover have "serializeDataGridClipboardText (line # grid) =
      join [TAB] (map serializeDataGridClipboardField line) @ [CR, LF] @ serializeDataGridClipboardText grid"
    using cons.hyps by (cases grid) (simp_all add: serializeDataGridClipboardText_def)
  ultimately show ?case
    using parse_line [of line "[CR, LF] @ serializeDataGridClipboardText grid" "[]" rows] cons by simp
qed

lemma serialize_parse:
  assumes "grid \<noteq> []" "[] \<notin> set grid" "length grid = 1 \<or> last grid \<noteq> [[]]"
  shows "parseDataGridClipboardText (serializeDataGridClipboardText grid) = grid"
  using parse_grid [OF assms(1,2), of "[]"] assms(3) by (auto simp: parseDataGridClipboardText_def)

text \<open>Copied cells paste as they were: reading back the clipboard text of a grid gives the same rows and
  fields, whatever tabs, quotes and line breaks they contain, unless the last of several rows is a
  single empty field.\<close>

theorem clipboard_roundtrip:
  assumes "grid \<noteq> []" "[] \<notin> set grid" "length grid = 1 \<or> last grid \<noteq> [[]]"
  shows "parseDataGridClipboardText (serializeDataGridClipboardText grid) = grid"
  using assms by (rule serialize_parse)

theorem clipboard_roundtrip_witness:
  "parseDataGridClipboardText (serializeDataGridClipboardText [[''a'', [DQ, TAB]], [[CR, LF], []]]) =
     [[''a'', [DQ, TAB]], [[CR, LF], []]] \<and>
   serializeDataGridClipboardText [[''a''], [[DQ]]] = ''a'' @ [CR, LF, DQ, DQ, DQ, DQ]"
proof -
  have "parseDataGridClipboardText (serializeDataGridClipboardText [[''a'', [DQ, TAB]], [[CR, LF], []]]) =
     [[''a'', [DQ, TAB]], [[CR, LF], []]]"
    by (rule clipboard_roundtrip) simp_all
  moreover have "serializeDataGridClipboardText [[''a''], [[DQ]]] = ''a'' @ [CR, LF, DQ, DQ, DQ, DQ]"
    by code_simp
  ultimately show ?thesis by simp
qed

text \<open>Copying a column whose last cell is empty and pasting it drops that cell: the scanner takes it for the
  newline a spreadsheet ends its text with, which this grid's own text does not have.\<close>

theorem clipboard_drops_last_empty_cell:
  "parseDataGridClipboardText (serializeDataGridClipboardText [[''a''], [[]]]) = [[''a'']]"
  by code_simp

section \<open>Tiling and HTML\<close>

lemma tile_self:
  assumes "block \<noteq> []" "\<forall>line\<in>set block. length line = n" "0 < n"
  shows "tileDataGridClipboardBlock block (length block) n = block"
proof (rule nth_equalityI)
  show "length (tileDataGridClipboardBlock block (length block) n) = length block"
    by (simp add: tileDataGridClipboardBlock_def)
  fix r assume "r < length (tileDataGridClipboardBlock block (length block) n)"
  then have r: "r < length block" by (simp add: tileDataGridClipboardBlock_def)
  then have len: "length (block ! r) = n" using assms(2) by simp
  have "map (tile_cell block r) [0..<n] = block ! r"
    by (rule nth_equalityI) (use len r assms(3) in \<open>auto simp: tile_cell_def nth_opt_def Let_def\<close>)
  with r show "tileDataGridClipboardBlock block (length block) n ! r = block ! r"
    by (simp add: tileDataGridClipboardBlock_def)
qed

definition entity :: "char \<Rightarrow> string" where
  "entity c = (if c = CHR ''&'' then ''&amp;'' else if c = CHR ''<'' then ''&lt;'' else if c = CHR ''>'' then ''&gt;'' else [c])"

text \<open>The three replacements in sequence escape each character on its own (no entity is escaped twice), and
  the result holds neither angle bracket, so a copied cell cannot add markup to the HTML flavour.\<close>

theorem html_escape_per_character:
  "escapeDataGridClipboardHtml cell = concat (map entity cell) \<and>
   CHR ''<'' \<notin> set (escapeDataGridClipboardHtml cell) \<and> CHR ''>'' \<notin> set (escapeDataGridClipboardHtml cell)"
proof -
  have "escapeDataGridClipboardHtml cell = concat (map entity cell)"
  proof (induction cell)
    case (Cons c cell)
    then show ?case by (auto simp: escapeDataGridClipboardHtml_def entity_def)
  qed (simp add: escapeDataGridClipboardHtml_def)
  moreover have "CHR ''<'' \<notin> set (entity c)" "CHR ''>'' \<notin> set (entity c)" for c by (auto simp: entity_def)
  ultimately show ?thesis by auto
qed

end
