(* ===== verification/Grid_Batch.thy ===== *)
theory Grid_Batch
  imports Grid_Clipboard
begin

text \<open>
  The batches of the data grid's cell selection (\<^verbatim>\<open>data-grid-cell-selection.tsx\<close>, second part, with the
  change types of \<^verbatim>\<open>data-grid.tsx\<close>): the selected cells the view shows, copying, clearing, pasting,
  filling, and the inverse of a batch.  The table library is a parameter: \<open>grid_table\<close> records the
  answers the code reads from it (rows in display order, the rows of the page, the visible columns,
  the selection bounds, the focused cell), and the viewport is the list of row ids in the DOM.
  \<open>toText\<close> is \<^verbatim>\<open>String(value)\<close>.
\<close>

section \<open>Types\<close>

datatype cell_editable = EditableDefault | EditableFlag bool | EditableFun "js_value \<Rightarrow> bool"

record cell_edit =
  ce_editable :: cell_editable
  ce_parse :: "(string \<Rightarrow> js_value \<Rightarrow> js_value) option"
  ce_format :: "(js_value \<Rightarrow> js_value \<Rightarrow> string) option"
  ce_clearValue :: js_value
  ce_control :: "string option"

record grid_column =
  gc_id :: string
  gc_header :: "string option"
  gc_headerTitle :: "string option"
  gc_selectable :: bool
  gc_edit :: "cell_edit option"

record grid_row =
  gr_id :: string
  gr_original :: js_value
  gr_values :: "(string \<times> js_value) list"

record grid_bound =
  minRowIndex :: nat
  maxRowIndex :: nat
  minColumnIndex :: nat
  maxColumnIndex :: nat

record grid_focus =
  gf_row :: grid_row
  gf_rowIndex :: nat
  gf_column :: grid_column

record grid_table =
  gt_rows :: "grid_row list"
  gt_page :: "string list"
  gt_start :: "grid_column list"
  gt_center :: "grid_column list"
  gt_end :: "grid_column list"
  gt_bounds :: "grid_bound list"
  gt_focused :: "grid_focus option"

datatype reject_reason = RejectReadonly | RejectInvalid

record cell_rejection =
  rj_rowId :: string
  rj_columnId :: string
  rj_raw :: string
  rj_reason :: reject_reason

record cell_change =
  cc_rowId :: string
  cc_columnId :: string
  cc_row :: js_value
  cc_previousValue :: js_value
  cc_value :: js_value

datatype change_source = SourcePaste | SourceCut | SourceClear | SourceFill | SourceEdit

record change_batch =
  cb_source :: change_source
  cb_changes :: "cell_change list"
  cb_rejected :: "cell_rejection list"

section \<open>Selection geometry\<close>

definition getDataGridDisplayOrderedColumns :: "grid_table \<Rightarrow> grid_column list" where
  "getDataGridDisplayOrderedColumns t = gt_start t @ gt_center t @ gt_end t"

definition cell_value :: "grid_row \<Rightarrow> string \<Rightarrow> js_value" where
  "cell_value row columnId = (case map_of (gr_values row) columnId of None \<Rightarrow> JUndefined | Some v \<Rightarrow> v)"

text \<open>\<open>row\<close> is the row a write targets, absent for the coarse check of the fill preview.\<close>

definition getDataGridWritableCellEdit :: "grid_column \<Rightarrow> js_value option \<Rightarrow> cell_edit option" where
  "getDataGridWritableCellEdit column row =
     (case gc_edit column of
        None \<Rightarrow> None
      | Some e \<Rightarrow>
          (case ce_editable e of
             EditableFlag False \<Rightarrow> None
           | EditableFun f \<Rightarrow> (case row of None \<Rightarrow> Some e | Some r \<Rightarrow> if f r then Some e else None)
           | _ \<Rightarrow> Some e))"

definition getDataGridRenderedRowIds :: "grid_table \<Rightarrow> string list option \<Rightarrow> string list option" where
  "getDataGridRenderedRowIds t viewport =
     (case viewport of
        None \<Rightarrow> None
      | Some domIds \<Rightarrow> if length (gt_page t) = length (gt_rows t) then None
                     else Some (gt_page t @ filter (\<lambda>i. i \<noteq> []) domIds))"

definition shown :: "string list option \<Rightarrow> grid_row \<Rightarrow> bool" where
  "shown rendered row = (case rendered of None \<Rightarrow> True | Some ids \<Rightarrow> gr_id row \<in> set ids)"

text \<open>The rows from one index on that the view can show, with their display index.\<close>

definition shown_from :: "grid_table \<Rightarrow> string list option \<Rightarrow> nat \<Rightarrow> (grid_row \<times> nat) list" where
  "shown_from t rendered start =
     filter (\<lambda>(row, k). shown rendered row) (drop start (zip (gt_rows t) [0..<length (gt_rows t)]))"

definition region_rows :: "grid_table \<Rightarrow> string list option \<Rightarrow> grid_bound \<Rightarrow> grid_row list" where
  "region_rows t rendered b =
     filter (shown rendered) (take (Suc (maxRowIndex b) - minRowIndex b) (drop (minRowIndex b) (gt_rows t)))"

definition region_columns :: "grid_table \<Rightarrow> grid_bound \<Rightarrow> grid_column list" where
  "region_columns t b =
     filter gc_selectable (take (Suc (maxColumnIndex b) - minColumnIndex b)
       (drop (minColumnIndex b) (getDataGridDisplayOrderedColumns t)))"

definition getDataGridVisibleSelectedCellCount :: "grid_table \<Rightarrow> string list option \<Rightarrow> nat" where
  "getDataGridVisibleSelectedCellCount t viewport =
     (\<Sum>b\<leftarrow>gt_bounds t. length (region_rows t (getDataGridRenderedRowIds t viewport) b) * length (region_columns t b))"

text \<open>\<^verbatim>\<open>xs.findIndex(P)\<close>, with \<open>None\<close> for -1.\<close>

primrec index_of :: "('a \<Rightarrow> bool) \<Rightarrow> 'a list \<Rightarrow> nat option" where
  "index_of P [] = None"
| "index_of P (x # xs) = (if P x then Some 0 else map_option Suc (index_of P xs))"

definition in_bound :: "nat \<Rightarrow> nat option \<Rightarrow> grid_bound \<Rightarrow> bool" where
  "in_bound r c b \<longleftrightarrow> minRowIndex b \<le> r \<and> r \<le> maxRowIndex b \<and>
     (case c of None \<Rightarrow> False | Some k \<Rightarrow> minColumnIndex b \<le> k \<and> k \<le> maxColumnIndex b)"

definition getDataGridActiveBound :: "grid_table \<Rightarrow> grid_bound option" where
  "getDataGridActiveBound t =
     (if gt_bounds t = [] then None
      else case Option.bind (gt_focused t) (\<lambda>f.
                  List.find (in_bound (gf_rowIndex f)
                    (index_of (\<lambda>c. gc_id c = gc_id (gf_column f)) (getDataGridDisplayOrderedColumns t))) (gt_bounds t)) of
             Some b \<Rightarrow> Some b
           | None \<Rightarrow> Some (last (gt_bounds t)))"

datatype direction = DirUp | DirDown | DirLeft | DirRight

datatype step_target = StepTo string string | StepEdge

definition neighbour :: "bool \<Rightarrow> nat \<Rightarrow> 'a list \<Rightarrow> 'a option" where
  "neighbour forward k xs = (if forward then nth_opt xs (k + 1) else if k = 0 then None else nth_opt xs (k - 1))"

text \<open>\<open>renderedIds\<close> are the \<^verbatim>\<open>data-row-id\<close> attributes of the rows in the viewport, in order.\<close>

definition getDataGridStepTarget ::
  "grid_table \<Rightarrow> string list \<Rightarrow> string \<times> string \<Rightarrow> direction \<Rightarrow> step_target option" where
  "getDataGridStepTarget t renderedIds from direction =
     (let (rowId, columnId) = from in
      if direction = DirLeft \<or> direction = DirRight
      then let selectable = filter gc_selectable (getDataGridDisplayOrderedColumns t)
           in case index_of (\<lambda>c. gc_id c = columnId) selectable of
                None \<Rightarrow> None
              | Some k \<Rightarrow> Some (case neighbour (direction = DirRight) k selectable of
                                   None \<Rightarrow> StepEdge | Some c \<Rightarrow> StepTo rowId (gc_id c))
      else case index_of (\<lambda>i. i = rowId) renderedIds of
             None \<Rightarrow> None
           | Some k \<Rightarrow> Some (case neighbour (direction = DirDown) k renderedIds of
                                None \<Rightarrow> StepEdge
                              | Some i \<Rightarrow> if i = [] then StepEdge else StepTo i columnId))"

section \<open>Copying and clearing\<close>

definition formatted :: "(js_value \<Rightarrow> string) \<Rightarrow> grid_row \<Rightarrow> grid_column \<Rightarrow> string" where
  "formatted toText row column =
     (let v = cell_value row (gc_id column) in
      case Option.bind (gc_edit column) ce_format of
        Some format \<Rightarrow> format v (gr_original row)
      | None \<Rightarrow> if is_nullish v then toText (JStr []) else toText v)"

definition getDataGridActiveRegionGrid ::
  "(js_value \<Rightarrow> string) \<Rightarrow> grid_table \<Rightarrow> string list option \<Rightarrow> string list list option" where
  "getDataGridActiveRegionGrid toText t viewport =
     (case getDataGridActiveBound t of
        None \<Rightarrow> None
      | Some b \<Rightarrow>
          (let grid = map (\<lambda>row. map (formatted toText row) (region_columns t b))
                        (region_rows t (getDataGridRenderedRowIds t viewport) b)
           in if grid = [] then None else Some grid))"

definition clear_change :: "grid_row \<Rightarrow> grid_column \<Rightarrow> cell_change option" where
  "clear_change row column =
     (case getDataGridWritableCellEdit column (Some (gr_original row)) of
        None \<Rightarrow> None
      | Some e \<Rightarrow> Some \<lparr>cc_rowId = gr_id row, cc_columnId = gc_id column, cc_row = gr_original row,
                        cc_previousValue = cell_value row (gc_id column),
                        cc_value = (if is_nullish (ce_clearValue e) then JNull else ce_clearValue e)\<rparr>)"

definition buildDataGridClearDetails ::
  "grid_table \<Rightarrow> change_source \<Rightarrow> bool \<Rightarrow> string list option \<Rightarrow> change_batch option" where
  "buildDataGridClearDetails t source activeRegionOnly viewport =
     (let bounds = (if activeRegionOnly then (case getDataGridActiveBound t of None \<Rightarrow> [] | Some b \<Rightarrow> [b]) else gt_bounds t);
          rendered = getDataGridRenderedRowIds t viewport;
          changes = concat (map (\<lambda>b. concat (map (\<lambda>row. List.map_filter (clear_change row) (region_columns t b))
                      (region_rows t rendered b))) bounds)
      in if bounds = [] \<or> changes = [] then None
         else Some \<lparr>cb_source = source, cb_changes = changes, cb_rejected = []\<rparr>)"

section \<open>Pasting\<close>

definition paste_cell :: "grid_row \<Rightarrow> grid_column \<Rightarrow> string \<Rightarrow> cell_rejection + cell_change" where
  "paste_cell row column raw =
     (case getDataGridWritableCellEdit column (Some (gr_original row)) of
        None \<Rightarrow> Inl \<lparr>rj_rowId = gr_id row, rj_columnId = gc_id column, rj_raw = raw, rj_reason = RejectReadonly\<rparr>
      | Some e \<Rightarrow>
          (let v = (case ce_parse e of None \<Rightarrow> JStr raw | Some parse \<Rightarrow> parse raw (gr_original row)) in
           if v = JUndefined
           then Inl \<lparr>rj_rowId = gr_id row, rj_columnId = gc_id column, rj_raw = raw, rj_reason = RejectInvalid\<rparr>
           else Inr \<lparr>cc_rowId = gr_id row, cc_columnId = gc_id column, cc_row = gr_original row,
                     cc_previousValue = cell_value row (gc_id column), cc_value = v\<rparr>))"

definition changes_of :: "(cell_rejection + cell_change) list \<Rightarrow> cell_change list" where
  "changes_of xs = List.map_filter (\<lambda>x. case x of Inl _ \<Rightarrow> None | Inr c \<Rightarrow> Some c) xs"

definition rejected_of :: "(cell_rejection + cell_change) list \<Rightarrow> cell_rejection list" where
  "rejected_of xs = List.map_filter (\<lambda>x. case x of Inl r \<Rightarrow> Some r | Inr _ \<Rightarrow> None) xs"

text \<open>The selectable columns from the region's left edge on, with their display index.\<close>

definition target_columns :: "grid_table \<Rightarrow> grid_bound \<Rightarrow> (grid_column \<times> nat) list" where
  "target_columns t b =
     (let columns = getDataGridDisplayOrderedColumns t
      in filter (\<lambda>(c, k). gc_selectable c) (drop (minColumnIndex b) (zip columns [0..<length columns])))"

definition block_columns :: "string list list \<Rightarrow> nat" where
  "block_columns block = foldl (\<lambda>m line. max m (length line)) 1 block"

definition paste_size :: "string list list \<Rightarrow> nat \<Rightarrow> nat \<Rightarrow> nat \<times> nat" where
  "paste_size block regionRows regionColumns =
     (let blockRows = length block; blockColumns = block_columns block in
      if blockRows = 1 \<and> blockColumns = 1 then (regionRows, regionColumns)
      else if regionRows mod blockRows = 0 \<and> regionColumns mod blockColumns = 0 then (regionRows, regionColumns)
      else (blockRows, blockColumns))"

record paste_target =
  pt_startRow :: nat
  pt_endRow :: nat
  pt_rowCount :: nat
  pt_startColumn :: nat
  pt_endColumn :: nat

definition paste_outcomes ::
  "string list list \<Rightarrow> (grid_row \<times> nat) list \<Rightarrow> (grid_column \<times> nat) list \<Rightarrow> nat \<Rightarrow> (cell_rejection + cell_change) list" where
  "paste_outcomes tiled targetRows targetColumns columnCount =
     concat (map (\<lambda>((row, _), r). map (\<lambda>((column, _), c).
         paste_cell row column (case Option.bind (nth_opt tiled r) (\<lambda>line. nth_opt line c) of None \<Rightarrow> [] | Some f \<Rightarrow> f))
       (zip (take columnCount targetColumns) [0..<columnCount])) (zip targetRows [0..<length targetRows]))"

definition buildDataGridPasteDetails ::
  "grid_table \<Rightarrow> string list list \<Rightarrow> string list option \<Rightarrow> (change_batch \<times> paste_target) option" where
  "buildDataGridPasteDetails t block viewport =
     (if block = [] then None
      else case getDataGridActiveBound t of
        None \<Rightarrow> None
      | Some b \<Rightarrow>
          (let targetColumns = target_columns t b;
               regionColumns = length (filter (\<lambda>(c, k). k \<le> maxColumnIndex b) targetColumns)
           in if regionColumns = 0 then None
              else let (rowCount, columnCount) = paste_size block (maxRowIndex b - minRowIndex b + 1) regionColumns;
                       tiled = tileDataGridClipboardBlock block rowCount columnCount;
                       targetRows = take rowCount (shown_from t (getDataGridRenderedRowIds t viewport) (minRowIndex b));
                       outcomes = paste_outcomes tiled targetRows targetColumns columnCount
                   in if outcomes = [] then None
                      else Some (\<lparr>cb_source = SourcePaste, cb_changes = changes_of outcomes, cb_rejected = rejected_of outcomes\<rparr>,
                        \<lparr>pt_startRow = minRowIndex b,
                         pt_endRow = (if targetRows = [] then minRowIndex b else snd (last targetRows)),
                         pt_rowCount = length targetRows, pt_startColumn = snd (hd targetColumns),
                         pt_endColumn = snd (targetColumns ! (min columnCount (length targetColumns) - 1))\<rparr>)))"

definition invertDataGridCellsChange :: "change_batch \<Rightarrow> change_batch" where
  "invertDataGridCellsChange details =
     \<lparr>cb_source = cb_source details,
      cb_changes = map (\<lambda>c. c\<lparr>cc_value := cc_previousValue c, cc_previousValue := cc_value c\<rparr>) (cb_changes details),
      cb_rejected = []\<rparr>"

text \<open>The range handed to \<^verbatim>\<open>selectCellRange\<close>: anchor row and column, focus row and column.\<close>

definition selectDataGridRegion :: "grid_table \<Rightarrow> nat \<Rightarrow> nat \<Rightarrow> nat \<Rightarrow> nat \<Rightarrow> (string \<times> string \<times> string \<times> string) option" where
  "selectDataGridRegion t startRow endRow startColumn endColumn =
     (let rows = gt_rows t; columns = getDataGridDisplayOrderedColumns t in
      case (nth_opt rows startRow, nth_opt columns startColumn,
            if rows = [] then None else nth_opt rows (min endRow (length rows - 1)), nth_opt columns endColumn) of
        (Some ar, Some ac, Some fr, Some fc) \<Rightarrow> Some (gr_id ar, gc_id ac, gr_id fr, gc_id fc)
      | _ \<Rightarrow> None)"

end
