(* ===== verification/Grid_Session.thy ===== *)
theory Grid_Session
  imports Grid_Batch
begin

text \<open>
  The gestures of the data grid's cell selection that keep state or walk the table
  (\<^verbatim>\<open>data-grid-cell-selection.tsx\<close>): the fill handle's drag from its start to its batch, growing the
  selection, jumping to an edge, and the built-in editor from the request that opens it to the batch
  it commits.  \<open>domIds\<close> are the \<^verbatim>\<open>data-row-id\<close> attributes of the rows in the viewport; the table's own
  \<^verbatim>\<open>extendCellSelection\<close> is a parameter.  Pixels, scrolling and focus of DOM elements are left out.
\<close>

section \<open>Filling\<close>

datatype fill_axis = FillRow | FillColumn

record fill_session =
  fill_bound :: grid_bound
  fill_columns :: "grid_column list"
  fill_visible :: "(grid_row \<times> nat) list"
  fill_sources :: "(grid_row \<times> nat) list"
  fill_sourceEnd :: nat
  fill_extension :: "(fill_axis \<times> nat) option"

text \<open>\<^verbatim>\<open>new Map(xs.map((x, index) => [key(x), index]))\<close>: a later key overrides an earlier one.\<close>

definition position_map :: "('a \<Rightarrow> string) \<Rightarrow> 'a list \<Rightarrow> (string \<times> nat) list" where
  "position_map key xs = rev (zip (map key xs) [0..<length xs])"

definition visible_rows :: "grid_table \<Rightarrow> string list \<Rightarrow> (grid_row \<times> nat) list" where
  "visible_rows t domIds =
     filter (\<lambda>(row, k). gr_id row \<in> set (filter (\<lambda>i. i \<noteq> []) domIds)) (zip (gt_rows t) [0..<length (gt_rows t)])"

definition startDataGridFillSession :: "grid_table \<Rightarrow> string list \<Rightarrow> fill_session option" where
  "startDataGridFillSession t domIds =
     (if length (gt_bounds t) > 1 then None
      else case getDataGridActiveBound t of
        None \<Rightarrow> None
      | Some b \<Rightarrow>
          (let visible = visible_rows t domIds;
               sources = filter (\<lambda>(row, k). minRowIndex b \<le> k \<and> k \<le> maxRowIndex b) visible
           in if sources = [] then None
              else case map_of (position_map (gr_id \<circ> fst) visible) (gr_id (fst (last sources))) of
                     None \<Rightarrow> None
                   | Some k \<Rightarrow>
                       Some \<lparr>fill_bound = b, fill_columns = getDataGridDisplayOrderedColumns t, fill_visible = visible,
                             fill_sources = sources, fill_sourceEnd = k, fill_extension = None\<rparr>))"

definition isFillableColumn :: "grid_column \<Rightarrow> bool" where
  "isFillableColumn column \<longleftrightarrow> gc_selectable column \<and> getDataGridWritableCellEdit column None \<noteq> None"

definition js_slice :: "nat \<Rightarrow> nat \<Rightarrow> 'a list \<Rightarrow> 'a list" where
  "js_slice i j xs = take (j - i) (drop i xs)"

definition getExtensionTargets ::
  "fill_session \<Rightarrow> ((grid_row \<times> nat) list \<times> (grid_column \<times> nat) list) option" where
  "getExtensionTargets s =
     (let columnEntries = zip (fill_columns s) [0..<length (fill_columns s)];
          b = fill_bound s
      in case fill_extension s of
           None \<Rightarrow> None
         | Some (FillRow, many) \<Rightarrow>
             Some (js_slice (fill_sourceEnd s + 1) (fill_sourceEnd s + 1 + many) (fill_visible s),
                   filter (\<lambda>(c, k). isFillableColumn c) (js_slice (minColumnIndex b) (maxColumnIndex b + 1) columnEntries))
         | Some (FillColumn, many) \<Rightarrow>
             Some (fill_sources s,
                   filter (\<lambda>(c, k). isFillableColumn c)
                     (js_slice (maxColumnIndex b + 1) (maxColumnIndex b + 1 + many) columnEntries)))"

text \<open>The pointer over the cell with these attributes, or over nothing the table shows.\<close>

definition fill_handleMove :: "(string \<times> string) option \<Rightarrow> fill_session \<Rightarrow> fill_session" where
  "fill_handleMove over s =
     (case over of
        None \<Rightarrow> s
      | Some (rowId, columnId) \<Rightarrow>
          (case (map_of (position_map (gr_id \<circ> fst) (fill_visible s)) rowId,
                 map_of (position_map gc_id (fill_columns s)) columnId) of
             (Some rowVisible, Some columnIndex) \<Rightarrow>
               (let rowsDelta = rowVisible - fill_sourceEnd s;
                    columnsDelta = columnIndex - maxColumnIndex (fill_bound s)
                in s\<lparr>fill_extension :=
                       (if rowsDelta = 0 \<and> columnsDelta = 0 then None
                        else if rowsDelta \<ge> columnsDelta then Some (FillRow, rowsDelta)
                        else Some (FillColumn, columnsDelta))\<rparr>)
           | _ \<Rightarrow> s))"

text \<open>The cells the preview tints.\<close>

definition applyPreview :: "fill_session \<Rightarrow> (string \<times> string) list" where
  "applyPreview s =
     (case getExtensionTargets s of
        None \<Rightarrow> []
      | Some (rowEntries, columnEntries) \<Rightarrow>
          concat (map (\<lambda>(row, _). map (\<lambda>(column, _). (gr_id row, gc_id column))
            (filter (\<lambda>(column, _). getDataGridWritableCellEdit column (Some (gr_original row)) \<noteq> None) columnEntries))
            rowEntries))"

definition fill_down_row :: "grid_row \<Rightarrow> grid_row \<Rightarrow> (grid_column \<times> nat) list \<Rightarrow> cell_change list" where
  "fill_down_row source row columnEntries =
     List.map_filter (\<lambda>(column, _).
       if getDataGridWritableCellEdit column (Some (gr_original row)) = None then None
       else Some \<lparr>cc_rowId = gr_id row, cc_columnId = gc_id column, cc_row = gr_original row,
                  cc_previousValue = cell_value row (gc_id column),
                  cc_value = cell_value source (gc_id column)\<rparr>) columnEntries"

definition fill_right_cell ::
  "(js_value \<Rightarrow> string) \<Rightarrow> fill_session \<Rightarrow> grid_row \<Rightarrow> grid_column \<times> nat \<Rightarrow> (cell_rejection + cell_change) option" where
  "fill_right_cell toText s row target =
     (let (column, displayIndex) = target;
          b = fill_bound s;
          offset = displayIndex - (maxColumnIndex b + 1);
          regionColumns = maxColumnIndex b - minColumnIndex b + 1
      in case nth_opt (fill_columns s) (minColumnIndex b + offset mod regionColumns) of
           None \<Rightarrow> None
         | Some source \<Rightarrow>
             (case getDataGridWritableCellEdit column (Some (gr_original row)) of
                None \<Rightarrow> None
              | Some e \<Rightarrow>
                  (let change = (\<lambda>v. \<lparr>cc_rowId = gr_id row, cc_columnId = gc_id column, cc_row = gr_original row,
                                   cc_previousValue = cell_value row (gc_id column), cc_value = v\<rparr>)
                   in case (if gc_id column = gc_id source then None else ce_parse e) of
                        None \<Rightarrow> Some (Inr (change (cell_value row (gc_id source))))
                      | Some parse \<Rightarrow>
                          (let raw = formatted toText row source; parsed = parse raw (gr_original row)
                           in Some (if parsed = JUndefined
                                    then Inl \<lparr>rj_rowId = gr_id row, rj_columnId = gc_id column, rj_raw = raw,
                                              rj_reason = RejectInvalid\<rparr>
                                    else Inr (change parsed))))))"

definition fill_outcomes ::
  "(js_value \<Rightarrow> string) \<Rightarrow> fill_session \<Rightarrow> fill_axis \<Rightarrow> (grid_row \<times> nat) list \<Rightarrow> (grid_column \<times> nat) list
   \<Rightarrow> (cell_rejection + cell_change) list" where
  "fill_outcomes toText s axis rowEntries columnEntries =
     (case axis of
        FillRow \<Rightarrow>
          concat (map (\<lambda>((row, _), offset).
              map Inr (fill_down_row (fst (fill_sources s ! (offset mod length (fill_sources s)))) row columnEntries))
            (zip rowEntries [0..<length rowEntries]))
      | FillColumn \<Rightarrow>
          concat (map (\<lambda>(row, _). List.map_filter (fill_right_cell toText s row) columnEntries) rowEntries))"

text \<open>
  Releasing the pointer, or cancelling: the batch handed to \<^verbatim>\<open>onCellsChange\<close> and the corners the
  selection grows to, in display indexes.  \<open>writes\<close> tells whether the grid has an \<^verbatim>\<open>onCellsChange\<close>.
\<close>

definition fill_finish ::
  "(js_value \<Rightarrow> string) \<Rightarrow> bool \<Rightarrow> bool \<Rightarrow> fill_session
   \<Rightarrow> change_batch option \<times> (nat \<times> nat \<times> nat \<times> nat) option" where
  "fill_finish toText commit writes s =
     (case (fill_extension s, getExtensionTargets s) of
        (Some (axis, many), Some (rowEntries, columnEntries)) \<Rightarrow>
          if \<not> commit \<or> \<not> writes \<or> rowEntries = [] then (None, None)
          else let b = fill_bound s;
                   outcomes = fill_outcomes toText s axis rowEntries columnEntries
               in (if outcomes = [] then None
                   else Some \<lparr>cb_source = SourceFill, cb_changes = changes_of outcomes, cb_rejected = rejected_of outcomes\<rparr>,
                   Some (minRowIndex b, if axis = FillRow then snd (last rowEntries) else maxRowIndex b,
                         minColumnIndex b, maxColumnIndex b + (if axis = FillColumn then many else 0)))
      | _ \<Rightarrow> (None, None))"

section \<open>Growing the selection and jumping\<close>

text \<open>The range handed to \<^verbatim>\<open>selectCellRange\<close>: anchor row and column, then focus row and column.\<close>

type_synonym cell_range = "(string \<times> string) \<times> (string \<times> string)"

definition opposite_row :: "grid_table \<Rightarrow> grid_bound \<Rightarrow> grid_focus \<Rightarrow> string" where
  "opposite_row t b f =
     (case nth_opt (gt_rows t) (if gf_rowIndex f = minRowIndex b then maxRowIndex b else minRowIndex b) of
        Some row \<Rightarrow> gr_id row | None \<Rightarrow> gr_id (gf_row f))"

text \<open>A focused column that is not shown has index -1, which is no bound's first column.\<close>

definition opposite_column :: "grid_table \<Rightarrow> grid_bound \<Rightarrow> grid_focus \<Rightarrow> string" where
  "opposite_column t b f =
     (let columns = getDataGridDisplayOrderedColumns t in
      case nth_opt columns
             (if index_of (\<lambda>c. gc_id c = gc_id (gf_column f)) columns = Some (minColumnIndex b)
              then maxColumnIndex b else minColumnIndex b) of
        Some column \<Rightarrow> gc_id column | None \<Rightarrow> gc_id (gf_column f))"

definition activeCorner :: "grid_table \<Rightarrow> (string \<times> string) option" where
  "activeCorner t =
     (case (gt_focused t, getDataGridActiveBound t) of
        (Some f, Some b) \<Rightarrow> Some (opposite_row t b f, opposite_column t b f)
      | _ \<Rightarrow> None)"

definition boundKey :: "grid_table \<Rightarrow> (nat \<times> grid_bound) option" where
  "boundKey t = (if gt_bounds t = [] then None else Some (length (gt_bounds t), last (gt_bounds t)))"

text \<open>
  The table after its own \<^verbatim>\<open>extendCellSelection\<close>, the corner for the view to follow, and the range
  selected when that changed nothing.
\<close>

definition extendDataGridSelection ::
  "(direction \<Rightarrow> grid_table \<Rightarrow> grid_table) \<Rightarrow> grid_table \<Rightarrow> string list \<Rightarrow> direction
   \<Rightarrow> grid_table \<times> (string \<times> string) option \<times> cell_range option" where
  "extendDataGridSelection grow t domIds direction =
     (let t' = grow direction t in
      if boundKey t' \<noteq> boundKey t then (t', activeCorner t', None)
      else case gt_focused t' of
        None \<Rightarrow> (t', None, None)
      | Some f \<Rightarrow>
          (let here = (gr_id (gf_row f), gc_id (gf_column f));
               active = (case activeCorner t' of Some c \<Rightarrow> c | None \<Rightarrow> here)
           in case getDataGridStepTarget t' domIds active direction of
                Some (StepTo r c) \<Rightarrow> (t', Some (r, c), Some (here, (r, c)))
              | _ \<Rightarrow> (t', None, None)))"

datatype row_target = RowFirst | RowLast | RowSame | RowDelta int

datatype column_target = ColumnFirst | ColumnLast | ColumnSame

datatype jump = JumpSelect cell_range | JumpFocus string string

text \<open>
  Walking the target row back towards the focused one until the view can show it: the loop of
  \<^verbatim>\<open>jumpFocus\<close>, one step towards \<open>rowIndex\<close> at a time.
\<close>

function clamp_row :: "grid_row list \<Rightarrow> string set \<Rightarrow> nat \<Rightarrow> nat \<Rightarrow> nat" where
  "clamp_row rows rendered rowIndex k =
     (if k \<noteq> rowIndex \<and> k < length rows \<and> gr_id (rows ! k) \<notin> rendered
      then clamp_row rows rendered rowIndex (if rowIndex < k then k - 1 else k + 1)
      else k)"
  by pat_completeness auto
termination
  by (relation "measure (\<lambda>(_, _, rowIndex, k). if rowIndex < k then k - rowIndex else rowIndex - k)") auto

declare clamp_row.simps [simp del]

definition jump_row :: "grid_table \<Rightarrow> nat \<Rightarrow> row_target \<Rightarrow> nat" where
  "jump_row t rowIndex target =
     (case target of
        RowFirst \<Rightarrow> 0
      | RowLast \<Rightarrow> length (gt_rows t) - 1
      | RowSame \<Rightarrow> rowIndex
      | RowDelta d \<Rightarrow> nat (min (int (length (gt_rows t)) - 1) (max 0 (int rowIndex + d))))"

definition jumpFocus ::
  "grid_table \<Rightarrow> string list \<Rightarrow> row_target \<Rightarrow> column_target \<Rightarrow> bool \<Rightarrow> jump option" where
  "jumpFocus t domIds rowTarget columnTarget grow =
     (case gt_focused t of
        None \<Rightarrow> None
      | Some f \<Rightarrow>
          (let rows = gt_rows t;
               selectable = filter gc_selectable (getDataGridDisplayOrderedColumns t)
           in if rows = [] \<or> selectable = [] then None
              else let wanted = jump_row t (gf_rowIndex f) rowTarget;
                       clamped = (if length (gt_page t) \<noteq> length rows
                                  then clamp_row rows (set (gt_page t) \<union> set domIds) (gf_rowIndex f) wanted else wanted);
                       column = (case columnTarget of ColumnFirst \<Rightarrow> hd selectable | ColumnLast \<Rightarrow> last selectable
                                                    | ColumnSame \<Rightarrow> gf_column f)
                   in case nth_opt rows clamped of
                        None \<Rightarrow> None
                      | Some row \<Rightarrow>
                          Some (if grow
                                then JumpSelect ((case getDataGridActiveBound t of
                                                    None \<Rightarrow> (gr_id (gf_row f), gc_id (gf_column f))
                                                  | Some b \<Rightarrow> (opposite_row t b f, opposite_column t b f)),
                                                 (gr_id row, gc_id column))
                                else JumpFocus (gr_id row) (gc_id column))))"

section \<open>The built-in editor\<close>

record editor_session =
  es_rowId :: string
  es_columnId :: string
  es_control :: string
  es_initialValue :: string
  es_baseline :: string
  es_label :: string

datatype edit_request = OpenEditor editor_session | AskConsumer string string js_value js_value "string option" | ActivateControl | NoEdit

text \<open>
  \<open>asks\<close>: the grid has an \<^verbatim>\<open>onCellEditRequest\<close>; \<open>control\<close>: the focused cell holds a control to click.
\<close>

definition requestCellEdit ::
  "(js_value \<Rightarrow> string) \<Rightarrow> grid_table \<Rightarrow> bool \<Rightarrow> bool \<Rightarrow> string option \<Rightarrow> edit_request" where
  "requestCellEdit toText t asks control initialText =
     (case gt_focused t of
        None \<Rightarrow> NoEdit
      | Some f \<Rightarrow>
          (let row = gf_row f; column = gf_column f; edit = getDataGridWritableCellEdit column (Some (gr_original row));
               v = cell_value row (gc_id column)
           in case Option.bind edit ce_control of
                Some ctl \<Rightarrow>
                  (let baseline = formatted toText row column
                   in OpenEditor \<lparr>es_rowId = gr_id row, es_columnId = gc_id column, es_control = ctl,
                        es_initialValue = (case initialText of None \<Rightarrow> baseline | Some i \<Rightarrow> i), es_baseline = baseline,
                        es_label = (case gc_headerTitle column of Some h \<Rightarrow> h
                                    | None \<Rightarrow> (case gc_header column of Some h \<Rightarrow> h | None \<Rightarrow> gc_id column))\<rparr>)
              | None \<Rightarrow>
                  if edit \<noteq> None \<and> asks
                  then AskConsumer (gr_id row) (gc_id column) (gr_original row) v initialText
                  else if initialText = None \<and> control then ActivateControl else NoEdit))"

text \<open>
  A commit of the text \<open>raw\<close>.  \<open>columns\<close> are all columns of the table, shown or not, as
  \<^verbatim>\<open>table.getColumn\<close> finds them.
\<close>

definition commitEditorSession ::
  "grid_table \<Rightarrow> grid_column list \<Rightarrow> bool \<Rightarrow> editor_session option \<Rightarrow> string \<Rightarrow> change_batch option" where
  "commitEditorSession t columns writes session raw =
     (case session of
        None \<Rightarrow> None
      | Some s \<Rightarrow>
          if \<not> writes \<or> raw = es_baseline s then None
          else (case (List.find (\<lambda>r. gr_id r = es_rowId s) (gt_rows t), List.find (\<lambda>c. gc_id c = es_columnId s) columns) of
                  (Some row, Some column) \<Rightarrow>
                    (case getDataGridWritableCellEdit column (Some (gr_original row)) of
                       None \<Rightarrow> None
                     | Some e \<Rightarrow>
                         (let v = (case ce_parse e of None \<Rightarrow> JStr raw | Some parse \<Rightarrow> parse raw (gr_original row)) in
                          if v = JUndefined
                          then Some \<lparr>cb_source = SourceEdit, cb_changes = [],
                                     cb_rejected = [\<lparr>rj_rowId = es_rowId s, rj_columnId = es_columnId s, rj_raw = raw,
                                                      rj_reason = RejectInvalid\<rparr>]\<rparr>
                          else Some \<lparr>cb_source = SourceEdit,
                                     cb_changes = [\<lparr>cc_rowId = es_rowId s, cc_columnId = es_columnId s,
                                       cc_row = gr_original row, cc_previousValue = cell_value row (gc_id column),
                                       cc_value = v\<rparr>], cb_rejected = []\<rparr>))
                | _ \<Rightarrow> None))"

text \<open>The overlay: what a key or a blur makes of the session, and the flag that it is finished.\<close>

datatype overlay_event = KeyEscape | KeyTab bool | KeyEnter bool bool | Blur | RowsChanged

datatype overlay_outcome = Commit string "direction option" bool | Cancel

definition overlay_finish :: "overlay_outcome \<Rightarrow> bool \<Rightarrow> overlay_outcome list \<times> bool" where
  "overlay_finish out finished = (if finished then ([], True) else ([out], True))"

text \<open>The keys carry shift, and shift with alt; \<open>typed\<close> is the text in the field.\<close>

fun overlay_step :: "string \<Rightarrow> bool \<Rightarrow> string \<Rightarrow> overlay_event \<Rightarrow> bool \<Rightarrow> overlay_outcome list \<times> bool" where
  "overlay_step control enterAdvance typed KeyEscape finished = overlay_finish Cancel finished"
| "overlay_step control enterAdvance typed (KeyTab shift) finished =
     overlay_finish (Commit typed (Some (if shift then DirLeft else DirRight)) True) finished"
| "overlay_step control enterAdvance typed (KeyEnter shift alt) finished =
     (if control = ''textarea'' \<and> (shift \<or> alt) then ([], finished)
      else overlay_finish (Commit typed (if enterAdvance then Some (if shift then DirUp else DirDown) else None) True) finished)"
| "overlay_step control enterAdvance typed Blur finished = overlay_finish (Commit typed None False) finished"
| "overlay_step control enterAdvance typed RowsChanged finished = (if finished then ([], finished) else ([Cancel], finished))"

end
