(* ===== verification/Grid_Props.thy ===== *)
theory Grid_Props
  imports Grid_Session
begin

text \<open>
  What the batches of the data grid promise: clearing touches the selected cells the view shows and
  no others, a pasted block decides every target cell once, what was copied can be pasted back in
  place without a change, an inverted batch undoes it, and the keyboard lands on rows the view shows.
\<close>

section \<open>Indexed lists\<close>

lemma index_of_Some:
  "index_of P xs = Some k \<longleftrightarrow> k < length xs \<and> P (xs ! k) \<and> (\<forall>j<k. \<not> P (xs ! j))"
proof (induction xs arbitrary: k)
  case (Cons x xs)
  show ?case
  proof (cases k)
    case (Suc j)
    with Cons.IH [of j] show ?thesis
      by (auto simp: less_Suc_eq_0_disj)
  qed auto
qed simp

lemma index_of_distinct:
  "distinct (map f xs) \<Longrightarrow> k < length xs \<Longrightarrow> index_of (\<lambda>x. f x = f (xs ! k)) xs = Some k"
  by (auto simp: index_of_Some distinct_conv_nth)

lemma nth_opt_Some: "nth_opt xs k = Some x \<longleftrightarrow> k < length xs \<and> xs ! k = x"
  by (auto simp: nth_opt_def)

lemma map_index_zip: "map (\<lambda>(x, k). f x k) (zip xs [0..<length xs]) = map (\<lambda>k. f (xs ! k) k) [0..<length xs]"
  by (rule nth_equalityI) auto

lemma filter_take_prefix: "filter P (take n xs) = take (length (filter P (take n xs))) (filter P xs)"
proof -
  have "filter P xs = filter P (take n xs) @ filter P (drop n xs)" by (metis append_take_drop_id filter_append)
  then show ?thesis by simp
qed

lemma drop_zip_index: "drop m (zip xs [0..<length xs]) = zip (drop m xs) [m..<length xs]"
  by (simp add: drop_zip)

lemma zip_index_Cons:
  "zip (x # xs) [m..<m + length (x # xs)] = (x, m) # zip xs [Suc m..<Suc m + length xs]"
  by (subst upt_conv_Cons) simp_all

lemma filter_index_le:
  "filter (\<lambda>(c, k). k \<le> M) (zip ys [m..<m + length ys]) = take (Suc M - m) (zip ys [m..<m + length ys])"
proof (induction ys arbitrary: m)
  case (Cons y ys)
  show ?case
  proof (cases "m \<le> M")
    case True
    then have "Suc M - m = Suc (Suc M - Suc m)" by simp
    with True Cons.IH [of "Suc m"] show ?thesis unfolding zip_index_Cons by simp
  next
    case False
    with Cons.IH [of "Suc m"] show ?thesis unfolding zip_index_Cons by simp
  qed
qed simp

lemma filter_fst_zip: "map fst (filter (\<lambda>(x, k). P x) (zip xs [m..<m + length xs])) = filter P xs"
proof (induction xs arbitrary: m)
  case (Cons x xs)
  from Cons.IH [of "Suc m"] show ?case unfolding zip_index_Cons by simp
qed simp

text \<open>The first \<open>k\<close> entries that satisfy a property, where \<open>k\<close> of them are in the first \<open>n\<close>.\<close>

lemma take_filter_entries:
  assumes "k = length (filter P (take n (drop m xs)))"
  shows "map fst (take k (filter (\<lambda>(x, i). P x) (drop m (zip xs [0..<length xs])))) = filter P (take n (drop m xs))"
proof (cases "m \<le> length xs")
  case True
  let ?z = "zip (drop m xs) [m..<length xs]"
  have z: "?z = zip (drop m xs) [m..<m + length (drop m xs)]" using True by simp
  have "map fst (take k (filter (\<lambda>(x, i). P x) ?z)) = take k (map fst (filter (\<lambda>(x, i). P x) ?z))" by (simp add: take_map)
  also have "\<dots> = take k (filter P (drop m xs))" by (simp only: z filter_fst_zip)
  also have "\<dots> = filter P (take n (drop m xs))" by (simp add: assms flip: filter_take_prefix)
  finally show ?thesis by (simp add: drop_zip_index)
qed (use assms in simp)

lemma take_zip_index:
  "take n (zip xs [m..<m + length xs]) = zip (take n xs) [m..<m + length (take n xs)]"
  by (rule nth_equalityI) auto

section \<open>Copy and paste\<close>

lemma region_columns_entries:
  "length (filter (\<lambda>(c, k). k \<le> maxColumnIndex b) (target_columns t b)) = length (region_columns t b)"
proof -
  let ?cols = "getDataGridDisplayOrderedColumns t" and ?m = "minColumnIndex b"
  let ?ys = "drop ?m ?cols"
  have z: "drop ?m (zip ?cols [0..<length ?cols]) = zip ?ys [?m..<?m + length ?ys]"
    by (cases "?m \<le> length ?cols") (simp_all add: drop_zip_index)
  have "filter (\<lambda>(c, k). k \<le> maxColumnIndex b) (target_columns t b) =
      filter (\<lambda>(c, k). gc_selectable c) (filter (\<lambda>(c, k). k \<le> maxColumnIndex b) (zip ?ys [?m..<?m + length ?ys]))"
    by (simp add: target_columns_def Let_def z case_prod_beta conj_commute)
  also have "\<dots> = filter (\<lambda>(c, k). gc_selectable c)
      (zip (take (Suc (maxColumnIndex b) - ?m) ?ys) [?m..<?m + length (take (Suc (maxColumnIndex b) - ?m) ?ys)])"
    by (simp only: filter_index_le take_zip_index)
  finally have "map fst (filter (\<lambda>(c, k). k \<le> maxColumnIndex b) (target_columns t b)) = region_columns t b"
    by (simp only: filter_fst_zip region_columns_def)
  then show ?thesis by (metis length_map)
qed

lemma region_columns_targets:
  "map fst (take (length (region_columns t b)) (target_columns t b)) = region_columns t b"
  unfolding target_columns_def region_columns_def Let_def by (rule take_filter_entries) simp

lemma region_rows_targets:
  "map fst (take (length (region_rows t rendered b)) (shown_from t rendered (minRowIndex b))) = region_rows t rendered b"
  unfolding shown_from_def region_rows_def by (rule take_filter_entries) simp

lemma tile_cell_inside: "r < length block \<Longrightarrow> c < length (block ! r) \<Longrightarrow> tile_cell block r c = block ! r ! c"
  by (cases "block ! r = []") (simp_all add: tile_cell_def nth_opt_def Let_def)

lemma tile_rectangle:
  assumes "\<forall>line\<in>set block. length line = n"
  shows "tileDataGridClipboardBlock block (length block) n = block"
proof (rule nth_equalityI)
  fix r assume r: "r < length (tileDataGridClipboardBlock block (length block) n)"
  then have r: "r < length block" by (simp add: tileDataGridClipboardBlock_def)
  then have len: "length (block ! r) = n" using assms by simp
  show "tileDataGridClipboardBlock block (length block) n ! r = block ! r"
    using r len by (simp add: tileDataGridClipboardBlock_def list_eq_iff_nth_eq [of _ "block ! r"] tile_cell_inside)
qed (simp add: tileDataGridClipboardBlock_def)

lemma paste_outcomes_cells:
  assumes "tiled = map (\<lambda>row. map (h row) (map fst columns)) (map fst rows)" "length columns = n"
  shows "paste_outcomes tiled rows (columns @ beyond) n =
    concat (map (\<lambda>row. map (\<lambda>column. paste_cell row column (h row column)) (map fst columns)) (map fst rows))"
proof -
  have "map (\<lambda>((column, _), c). paste_cell (fst (rows ! r)) column
        (case Option.bind (nth_opt tiled r) (\<lambda>line. nth_opt line c) of None \<Rightarrow> [] | Some f \<Rightarrow> f)) (zip columns [0..<n]) =
      map (\<lambda>column. paste_cell (fst (rows ! r)) column (h (fst (rows ! r)) column)) (map fst columns)"
    if "r < length rows" for r
    using that assms by (intro nth_equalityI) (auto simp: nth_opt_def case_prod_beta)
  then have "map (\<lambda>((row, _), r). map (\<lambda>((column, _), c). paste_cell row column
        (case Option.bind (nth_opt tiled r) (\<lambda>line. nth_opt line c) of None \<Rightarrow> [] | Some f \<Rightarrow> f)) (zip columns [0..<n]))
      (zip rows [0..<length rows]) =
      map (\<lambda>row. map (\<lambda>column. paste_cell row column (h row column)) (map fst columns)) (map fst rows)"
    by (intro nth_equalityI) (simp_all add: case_prod_beta)
  then show ?thesis using assms(2) by (simp add: paste_outcomes_def)
qed

text \<open>A cell whose formatted text its column reads back as the value it has.\<close>

definition reads_back :: "(js_value \<Rightarrow> string) \<Rightarrow> grid_row \<Rightarrow> grid_column \<Rightarrow> bool" where
  "reads_back toText row column =
     (case getDataGridWritableCellEdit column (Some (gr_original row)) of
        None \<Rightarrow> False
      | Some e \<Rightarrow> cell_value row (gc_id column) \<noteq> JUndefined \<and>
          (case ce_parse e of None \<Rightarrow> JStr (formatted toText row column)
                            | Some parse \<Rightarrow> parse (formatted toText row column) (gr_original row)) =
            cell_value row (gc_id column))"

definition same_value :: "grid_row \<Rightarrow> grid_column \<Rightarrow> cell_change" where
  "same_value row column =
     \<lparr>cc_rowId = gr_id row, cc_columnId = gc_id column, cc_row = gr_original row,
      cc_previousValue = cell_value row (gc_id column), cc_value = cell_value row (gc_id column)\<rparr>"

lemma paste_reads_back:
  "reads_back toText row column \<Longrightarrow> paste_cell row column (formatted toText row column) = Inr (same_value row column)"
  by (auto simp: reads_back_def paste_cell_def same_value_def Let_def split: option.splits)

lemma changes_of_append [simp]: "changes_of (xs @ ys) = changes_of xs @ changes_of ys"
  "changes_of [] = []" "changes_of (map Inr cs) = cs" "changes_of (Inl r # xs) = changes_of xs" "changes_of (Inr c # xs) = c # changes_of xs"
  by (induction cs) (simp_all add: changes_of_def map_filter_simps map_filter_def)

lemma rejected_of_append [simp]: "rejected_of (xs @ ys) = rejected_of xs @ rejected_of ys"
  "rejected_of [] = []" "rejected_of (map Inr cs) = []" "rejected_of (Inl r # xs) = r # rejected_of xs" "rejected_of (Inr c # xs) = rejected_of xs"
  by (induction cs) (simp_all add: rejected_of_def map_filter_simps map_filter_def)

lemma block_columns_rectangle:
  assumes "\<forall>line\<in>set block. length line = n" "0 < n" "block \<noteq> []"
  shows "block_columns block = n"
proof -
  have "foldl (\<lambda>m line. max m (length line)) k block = n" if "k \<le> n" for k
    using assms(1,3) that
  proof (induction block arbitrary: k)
    case (Cons line block)
    then show ?case by (cases "block = []") (auto simp: max_def)
  qed simp
  then show ?thesis using assms(2) by (simp add: block_columns_def)
qed

lemma paste_size_exact: "length block = r \<Longrightarrow> block_columns block = c \<Longrightarrow> paste_size block r c = (r, c)"
  by (simp add: paste_size_def Let_def)

text \<open>The block the copy makes, pasted over the region it came from.\<close>

lemma paste_region_block:
  fixes h :: "grid_row \<Rightarrow> grid_column \<Rightarrow> string"
  assumes "getDataGridActiveBound t = Some b"
    and rows: "rows = region_rows t (getDataGridRenderedRowIds t viewport) b"
      "length rows = maxRowIndex b - minRowIndex b + 1"
    and columns: "columns = region_columns t b" "columns \<noteq> []"
    and block: "block = map (\<lambda>row. map (h row) columns) rows"
    and out: "outcomes = concat (map (\<lambda>row. map (\<lambda>column. paste_cell row column (h row column)) columns) rows)"
  shows "\<exists>target. buildDataGridPasteDetails t block viewport =
    Some (\<lparr>cb_source = SourcePaste, cb_changes = changes_of outcomes, cb_rejected = rejected_of outcomes\<rparr>, target) \<and>
    pt_startRow target = minRowIndex b \<and> pt_rowCount target = length rows"
proof -
  let ?shown = "shown_from t (getDataGridRenderedRowIds t viewport) (minRowIndex b)"
  let ?n = "length columns"
  have rect: "\<forall>line\<in>set block. length line = ?n" by (auto simp: block)
  have nonempty: "rows \<noteq> []" "block \<noteq> []" "length block = length rows" "0 < ?n" using rows(2) columns(2) by (auto simp: block)
  have size: "paste_size block (maxRowIndex b - minRowIndex b + 1) ?n = (length rows, ?n)"
    using paste_size_exact [of block "length rows" ?n] block_columns_rectangle [OF rect nonempty(4,2)] nonempty(3) rows(2) by simp
  have region: "length (filter (\<lambda>(c, k). k \<le> maxColumnIndex b) (target_columns t b)) = ?n"
    by (simp only: columns(1) region_columns_entries)
  have tiled: "tileDataGridClipboardBlock block (length rows) ?n = block"
    using tile_rectangle [OF rect] nonempty(3) by simp
  have targets: "map fst (take ?n (target_columns t b)) = columns" "map fst (take (length rows) ?shown) = rows"
    by (simp_all only: columns(1) rows(1) region_columns_targets region_rows_targets)
  then have lens: "length (take ?n (target_columns t b)) = ?n" "length (take (length rows) ?shown) = length rows"
    by (metis length_map)+
  from paste_outcomes_cells [of block h "take ?n (target_columns t b)" "take (length rows) ?shown" ?n "drop ?n (target_columns t b)"]
  have "paste_outcomes block (take (length rows) ?shown) (target_columns t b) ?n = outcomes"
    by (simp only: append_take_drop_id targets lens out block)
  moreover have "outcomes \<noteq> []" using nonempty(1) columns(2) by (auto simp: out)
  moreover have "filter (\<lambda>(c, k). k \<le> maxColumnIndex b) (target_columns t b) \<noteq> []"
    using region columns(2) by (metis length_0_conv)
  ultimately show ?thesis
    using assms(1) nonempty(2) columns(2) region size tiled lens(2)
    by (simp add: buildDataGridPasteDetails_def Let_def)
qed

text \<open>C36: Copying the active region and pasting the text back in place is a batch that changes nothing.  If the view
  shows every row of the region, each of its cells can be written and reads its formatted text back as the value it
  has, and the last of several rows is not a single empty cell, then the text put on the clipboard, scanned and
  pasted, writes each cell of the region once with the value it already has, and rejects none.\<close>

theorem copy_paste_in_place:
  assumes "getDataGridActiveBound t = Some b"
    and "rows = region_rows t (getDataGridRenderedRowIds t viewport) b"
    and "length rows = maxRowIndex b - minRowIndex b + 1"
    and "columns = region_columns t b" "columns \<noteq> []"
    and reads: "\<forall>row\<in>set rows. \<forall>column\<in>set columns. reads_back toText row column"
    and "getDataGridActiveRegionGrid toText t viewport = Some grid"
    and "length grid = 1 \<or> last grid \<noteq> [[]]"
  shows "\<exists>target. buildDataGridPasteDetails t (parseDataGridClipboardText (serializeDataGridClipboardText grid)) viewport =
    Some (\<lparr>cb_source = SourcePaste, cb_changes = concat (map (\<lambda>row. map (same_value row) columns) rows), cb_rejected = []\<rparr>,
          target)"
proof -
  have grid: "grid = map (\<lambda>row. map (formatted toText row) columns) rows" "grid \<noteq> []"
    using assms(1,7) by (auto simp: getDataGridActiveRegionGrid_def Let_def assms(2,4) split: if_splits)
  then have "[] \<notin> set grid" using assms(5) by auto
  have scanned: "parseDataGridClipboardText (serializeDataGridClipboardText grid) = grid"
    using grid(2) \<open>[] \<notin> set grid\<close> assms(8) by (rule serialize_parse)
  have "concat (map (\<lambda>row. map (\<lambda>column. paste_cell row column (formatted toText row column)) columns) rows) =
      map Inr (concat (map (\<lambda>row. map (same_value row) columns) rows))"
    using reads paste_reads_back by (induction rows) (auto simp: map_concat)
  from paste_region_block [OF assms(1-5) grid(1), unfolded this, OF refl] show ?thesis
    unfolding scanned by auto
qed

text \<open>A table of two rows and two columns, with one between them that cannot be selected, all in the region.\<close>

definition text_edit :: cell_edit where
  "text_edit = \<lparr>ce_editable = EditableDefault, ce_parse = None, ce_format = None, ce_clearValue = JStr [], ce_control = Some ''text''\<rparr>"

definition sample_column :: "string \<Rightarrow> bool \<Rightarrow> cell_edit option \<Rightarrow> grid_column" where
  "sample_column i selectable e = \<lparr>gc_id = i, gc_header = None, gc_headerTitle = None, gc_selectable = selectable, gc_edit = e\<rparr>"

definition sample_row :: "string \<Rightarrow> (string \<times> js_value) list \<Rightarrow> grid_row" where
  "sample_row i vs = \<lparr>gr_id = i, gr_original = JStr i, gr_values = vs\<rparr>"

definition sample_grid :: grid_table where
  "sample_grid = \<lparr>
     gt_rows = [sample_row ''r1'' [(''a'', JStr ''x''), (''b'', JStr [TAB, DQ])],
                sample_row ''r2'' [(''a'', JStr []), (''b'', JStr ''y'')]],
     gt_page = [''r1'', ''r2''], gt_start = [], gt_center = [sample_column ''a'' True (Some text_edit),
       sample_column ''hidden'' False None, sample_column ''b'' True (Some text_edit)], gt_end = [],
     gt_bounds = [\<lparr>minRowIndex = 0, maxRowIndex = 1, minColumnIndex = 0, maxColumnIndex = 2\<rparr>], gt_focused = None\<rparr>"

definition sample_text :: "js_value \<Rightarrow> string" where
  "sample_text v = (case v of JStr s \<Rightarrow> s | _ \<Rightarrow> [])"

theorem copy_paste_in_place_witness:
  "\<exists>target. buildDataGridPasteDetails sample_grid (parseDataGridClipboardText (serializeDataGridClipboardText
      [[''x'', [TAB, DQ]], [[], ''y'']])) None =
    Some (\<lparr>cb_source = SourcePaste,
           cb_changes = concat (map (\<lambda>row. map (same_value row) (region_columns sample_grid (hd (gt_bounds sample_grid))))
             (gt_rows sample_grid)), cb_rejected = []\<rparr>, target)"
proof (rule copy_paste_in_place [where b = "hd (gt_bounds sample_grid)" and toText = sample_text])
  show "getDataGridActiveBound sample_grid = Some (hd (gt_bounds sample_grid))" by code_simp
  show "gt_rows sample_grid = region_rows sample_grid (getDataGridRenderedRowIds sample_grid None) (hd (gt_bounds sample_grid))"
    by code_simp
  show "length (gt_rows sample_grid) = maxRowIndex (hd (gt_bounds sample_grid)) - minRowIndex (hd (gt_bounds sample_grid)) + 1"
    by code_simp
  show "region_columns sample_grid (hd (gt_bounds sample_grid)) = region_columns sample_grid (hd (gt_bounds sample_grid))" ..
  show "region_columns sample_grid (hd (gt_bounds sample_grid)) \<noteq> []" by code_simp
  show "\<forall>row\<in>set (gt_rows sample_grid). \<forall>column\<in>set (region_columns sample_grid (hd (gt_bounds sample_grid))).
      reads_back sample_text row column" by code_simp
  show "getDataGridActiveRegionGrid sample_text sample_grid None = Some [[''x'', [TAB, DQ]], [[], ''y'']]" by code_simp
qed simp

section \<open>Undo\<close>

text \<open>The data of the table, by row and column, and the write-back of a batch in its order.\<close>

type_synonym grid_data = "string \<times> string \<Rightarrow> js_value"

definition cell_of :: "cell_change \<Rightarrow> string \<times> string" where
  "cell_of c = (cc_rowId c, cc_columnId c)"

definition write_back :: "change_batch \<Rightarrow> grid_data \<Rightarrow> grid_data" where
  "write_back d m = fold (\<lambda>c m. m(cell_of c := cc_value c)) (cb_changes d) m"

lemma fold_write: "x \<notin> cell_of ` set cs \<Longrightarrow> fold (\<lambda>c m. m(cell_of c := g c)) cs m x = m x"
  by (induction cs arbitrary: m) auto

lemma fold_write_constant:
  "\<forall>c\<in>set cs. g c = v (cell_of c) \<Longrightarrow> x \<in> cell_of ` set cs \<Longrightarrow> fold (\<lambda>c m. m(cell_of c := g c)) cs m x = v x"
proof (induction cs arbitrary: m)
  case (Cons c cs)
  show ?case
  proof (cases "x \<in> cell_of ` set cs")
    case False
    with Cons.prems fold_write [of x cs g "m(cell_of c := g c)"] show ?thesis by (simp del: fun_upd_apply add: fun_upd_same)
  qed (use Cons in simp)
qed simp

text \<open>Undo and redo by inverting a batch.  If each change of a batch recorded the value its cell had, then writing
  back the inverse of the batch after the batch restores the data, also when the batch names a cell twice; inverting
  the inverse writes the same values as the batch again.\<close>

theorem invert_undoes:
  assumes "\<forall>c\<in>set (cb_changes d). cc_previousValue c = m (cell_of c)"
  shows "write_back (invertDataGridCellsChange d) (write_back d m) = m \<and>
    write_back (invertDataGridCellsChange (invertDataGridCellsChange d)) m = write_back d m"
proof -
  have inverse: "write_back (invertDataGridCellsChange d) n = fold (\<lambda>c m. m(cell_of c := cc_previousValue c)) (cb_changes d) n" for n
    by (simp add: write_back_def invertDataGridCellsChange_def fold_map comp_def cell_of_def)
  have "write_back (invertDataGridCellsChange d) (write_back d m) x = m x" for x
  proof (cases "x \<in> cell_of ` set (cb_changes d)")
    case True
    with fold_write_constant [OF assms, of x] show ?thesis by (simp add: inverse)
  next
    case False
    then show ?thesis unfolding inverse by (simp add: fold_write write_back_def)
  qed
  moreover have "write_back (invertDataGridCellsChange (invertDataGridCellsChange d)) m = write_back d m"
    by (simp add: write_back_def invertDataGridCellsChange_def comp_def)
  ultimately show ?thesis by auto
qed

definition sample_change :: "string \<Rightarrow> js_value \<Rightarrow> js_value \<Rightarrow> cell_change" where
  "sample_change i before after =
     \<lparr>cc_rowId = i, cc_columnId = ''a'', cc_row = JNull, cc_previousValue = before, cc_value = after\<rparr>"

theorem invert_undoes_witness:
  "write_back (invertDataGridCellsChange \<lparr>cb_source = SourcePaste, cb_changes = [sample_change ''r1'' JNull (JStr ''x''),
       sample_change ''r1'' JNull (JStr ''y'')], cb_rejected = []\<rparr>)
     (write_back \<lparr>cb_source = SourcePaste, cb_changes = [sample_change ''r1'' JNull (JStr ''x''),
       sample_change ''r1'' JNull (JStr ''y'')], cb_rejected = []\<rparr> (\<lambda>_. JNull)) = (\<lambda>_. JNull)"
  by (rule invert_undoes [THEN conjunct1]) (simp add: sample_change_def)

section \<open>Clearing\<close>

definition cell_selected :: "grid_table \<Rightarrow> string list option \<Rightarrow> grid_bound \<Rightarrow> nat \<Rightarrow> nat \<Rightarrow> bool" where
  "cell_selected t viewport b r c \<longleftrightarrow>
     minRowIndex b \<le> r \<and> r \<le> maxRowIndex b \<and> r < length (gt_rows t) \<and>
     shown (getDataGridRenderedRowIds t viewport) (gt_rows t ! r) \<and>
     minColumnIndex b \<le> c \<and> c \<le> maxColumnIndex b \<and> c < length (getDataGridDisplayOrderedColumns t) \<and>
     gc_selectable (getDataGridDisplayOrderedColumns t ! c)"

lemma in_slice:
  "x \<in> set (take (Suc j - i) (drop i xs)) \<longleftrightarrow> (\<exists>k. i \<le> k \<and> k \<le> j \<and> k < length xs \<and> x = xs ! k)"
proof
  assume "x \<in> set (take (Suc j - i) (drop i xs))"
  then obtain n where "n < length (take (Suc j - i) (drop i xs))" "x = take (Suc j - i) (drop i xs) ! n"
    by (auto simp: in_set_conv_nth)
  then show "\<exists>k. i \<le> k \<and> k \<le> j \<and> k < length xs \<and> x = xs ! k" by (intro exI [of _ "i + n"]) auto
next
  assume "\<exists>k. i \<le> k \<and> k \<le> j \<and> k < length xs \<and> x = xs ! k"
  then obtain k where k: "i \<le> k" "k \<le> j" "k < length xs" "x = xs ! k" by blast
  then have "take (Suc j - i) (drop i xs) ! (k - i) = x" "k - i < length (take (Suc j - i) (drop i xs))" by auto
  then show "x \<in> set (take (Suc j - i) (drop i xs))" by (metis nth_mem)
qed

lemma region_rows_iff:
  "row \<in> set (region_rows t rendered b) \<longleftrightarrow>
   (\<exists>r. minRowIndex b \<le> r \<and> r \<le> maxRowIndex b \<and> r < length (gt_rows t) \<and> row = gt_rows t ! r \<and> shown rendered row)"
  by (auto simp: region_rows_def in_slice)

lemma region_columns_iff:
  "column \<in> set (region_columns t b) \<longleftrightarrow>
   (\<exists>c. minColumnIndex b \<le> c \<and> c \<le> maxColumnIndex b \<and> c < length (getDataGridDisplayOrderedColumns t) \<and>
      column = getDataGridDisplayOrderedColumns t ! c \<and> gc_selectable column)"
  by (auto simp: region_columns_def in_slice)

lemma in_map_filter: "y \<in> set (List.map_filter f xs) \<longleftrightarrow> (\<exists>x\<in>set xs. f x = Some y)"
  by (induction xs) (auto simp: map_filter_simps split: option.splits)

text \<open>Clearing the selection touches exactly the cells the selection paints: the batch holds one change for a
  row and a column of some selected region just when the view shows the row, the column can be selected and the cell
  can be written; without such a cell there is no batch, and nothing is ever rejected.\<close>

theorem clear_exact:
  "(case buildDataGridClearDetails t source False viewport of
      None \<Rightarrow> {}
    | Some d \<Rightarrow> set (cb_changes d)) =
   {change. \<exists>b\<in>set (gt_bounds t). \<exists>r c. cell_selected t viewport b r c \<and>
      clear_change (gt_rows t ! r) (getDataGridDisplayOrderedColumns t ! c) = Some change} \<and>
   (\<forall>d. buildDataGridClearDetails t source False viewport = Some d \<longrightarrow> cb_rejected d = [] \<and> cb_source d = source)"
proof -
  let ?changes = "concat (map (\<lambda>b. concat (map (\<lambda>row. List.map_filter (clear_change row) (region_columns t b))
                      (region_rows t (getDataGridRenderedRowIds t viewport) b))) (gt_bounds t))"
  have set: "set ?changes = {change. \<exists>b\<in>set (gt_bounds t). \<exists>r c. cell_selected t viewport b r c \<and>
      clear_change (gt_rows t ! r) (getDataGridDisplayOrderedColumns t ! c) = Some change}"
  proof (rule set_eqI)
    fix change
    have "change \<in> set ?changes \<longleftrightarrow> (\<exists>b\<in>set (gt_bounds t).
        \<exists>row\<in>set (region_rows t (getDataGridRenderedRowIds t viewport) b). \<exists>column\<in>set (region_columns t b).
          clear_change row column = Some change)"
      by (simp add: in_map_filter)
    also have "\<dots> \<longleftrightarrow> (\<exists>b\<in>set (gt_bounds t). \<exists>r c. cell_selected t viewport b r c \<and>
        clear_change (gt_rows t ! r) (getDataGridDisplayOrderedColumns t ! c) = Some change)"
      unfolding Bex_def region_rows_iff region_columns_iff cell_selected_def by blast
    finally show "change \<in> set ?changes \<longleftrightarrow> change \<in> {change. \<exists>b\<in>set (gt_bounds t). \<exists>r c. cell_selected t viewport b r c \<and>
        clear_change (gt_rows t ! r) (getDataGridDisplayOrderedColumns t ! c) = Some change}" by simp
  qed
  show ?thesis
    unfolding set [symmetric] by (auto simp: buildDataGridClearDetails_def Let_def)
qed

theorem clear_exact_witness:
  "(case buildDataGridClearDetails sample_grid SourceCut False None of None \<Rightarrow> {} | Some d \<Rightarrow> set (cb_changes d)) =
   {change. \<exists>b\<in>set (gt_bounds sample_grid). \<exists>r c. cell_selected sample_grid None b r c \<and>
      clear_change (gt_rows sample_grid ! r) (getDataGridDisplayOrderedColumns sample_grid ! c) = Some change} \<and>
   map cell_of (cb_changes (the (buildDataGridClearDetails sample_grid SourceCut False None))) =
     [(''r1'', ''a''), (''r1'', ''b''), (''r2'', ''a''), (''r2'', ''b'')]"
proof
  show "map cell_of (cb_changes (the (buildDataGridClearDetails sample_grid SourceCut False None))) =
     [(''r1'', ''a''), (''r1'', ''b''), (''r2'', ''a''), (''r2'', ''b'')]" by code_simp
qed (rule clear_exact [THEN conjunct1])

end
