(* ===== verification/Grid_Run.thy ===== *)
theory Grid_Run
  imports Grid_Props
begin

text \<open>
  The gestures of the data grid: which cells a paste decides, that the fill preview tints the cells the
  release decides, where the keyboard lands, and that the editor commits once.
\<close>

section \<open>Which cells a paste decides\<close>

definition rejection_cell :: "cell_rejection \<Rightarrow> string \<times> string" where
  "rejection_cell r = (rj_rowId r, rj_columnId r)"

definition batch_cells :: "change_batch \<Rightarrow> (string \<times> string) list" where
  "batch_cells d = map cell_of (cb_changes d) @ map rejection_cell (cb_rejected d)"

definition outcome_cell :: "cell_rejection + cell_change \<Rightarrow> string \<times> string" where
  "outcome_cell x = (case x of Inl r \<Rightarrow> rejection_cell r | Inr c \<Rightarrow> cell_of c)"

lemma batch_cells_outcomes:
  "mset (batch_cells \<lparr>cb_source = s, cb_changes = changes_of xs, cb_rejected = rejected_of xs\<rparr>) = mset (map outcome_cell xs)"
proof (induction xs)
  case (Cons x xs)
  then show ?case by (cases x) (auto simp: batch_cells_def outcome_cell_def)
qed (simp add: batch_cells_def)

lemma paste_cell_cell [simp]: "outcome_cell (paste_cell row column raw) = (gr_id row, gc_id column)"
  by (auto simp: outcome_cell_def paste_cell_def rejection_cell_def cell_of_def Let_def split: option.splits)

lemma map_fst_index: "length xs \<le> n \<Longrightarrow> map (\<lambda>p. g (fst (fst p))) (zip xs [0..<n]) = map (\<lambda>x. g (fst x)) xs"
  by (intro nth_equalityI) auto

lemma paste_outcomes_product:
  "map outcome_cell (paste_outcomes tiled rows columns n) =
   List.product (map (gr_id \<circ> fst) rows) (map (gc_id \<circ> fst) (take n columns))"
proof -
  have "map outcome_cell (paste_outcomes tiled rows columns n) =
      concat (map (\<lambda>p. map (\<lambda>q. (gr_id (fst (fst p)), gc_id (fst (fst q)))) (zip (take n columns) [0..<n]))
        (zip rows [0..<length rows]))"
    by (simp add: paste_outcomes_def map_concat comp_def case_prod_beta)
  also have "\<dots> = concat (map (\<lambda>p. map (\<lambda>x. (gr_id (fst (fst p)), gc_id (fst x))) (take n columns)) (zip rows [0..<length rows]))"
    by (simp add: map_fst_index [of "take n columns" n "\<lambda>c. (i, gc_id c)" for i, simplified])
  also have "\<dots> = concat (map (\<lambda>x. map (\<lambda>y. (gr_id (fst x), gc_id (fst y))) (take n columns)) rows)"
    using map_fst_index [of rows "length rows" "\<lambda>row. map (\<lambda>y. (gr_id row, gc_id (fst y))) (take n columns)"] by simp
  finally show ?thesis by (simp add: product_concat_map comp_def)
qed

lemma shown_from_rows: "map fst (shown_from t rendered m) = filter (shown rendered) (drop m (gt_rows t))"
proof (cases "m \<le> length (gt_rows t)")
  case True
  then have "drop m (zip (gt_rows t) [0..<length (gt_rows t)]) =
      zip (drop m (gt_rows t)) [m..<m + length (drop m (gt_rows t))]" by (simp add: drop_zip_index)
  then show ?thesis unfolding shown_from_def by (simp only: filter_fst_zip)
qed (simp add: shown_from_def)

lemma target_columns_columns:
  "map fst (target_columns t b) = filter gc_selectable (drop (minColumnIndex b) (getDataGridDisplayOrderedColumns t))"
proof (cases "minColumnIndex b \<le> length (getDataGridDisplayOrderedColumns t)")
  case True
  let ?c = "getDataGridDisplayOrderedColumns t" and ?m = "minColumnIndex b"
  from True have "drop ?m (zip ?c [0..<length ?c]) = zip (drop ?m ?c) [?m..<?m + length (drop ?m ?c)]"
    by (simp add: drop_zip_index)
  then show ?thesis unfolding target_columns_def Let_def by (simp only: filter_fst_zip)
qed (simp add: target_columns_def)

lemma changes_of_iff: "c \<in> set (changes_of xs) \<longleftrightarrow> Inr c \<in> set xs"
proof (induction xs)
  case (Cons x xs)
  then show ?case by (cases x) auto
qed simp

lemma paste_cell_change:
  "paste_cell row column raw = Inr c \<Longrightarrow>
   cell_of c = (gr_id row, gc_id column) \<and> cc_row c = gr_original row \<and>
   getDataGridWritableCellEdit column (Some (gr_original row)) \<noteq> None \<and> cc_value c \<noteq> JUndefined"
  by (auto simp: paste_cell_def cell_of_def Let_def split: option.splits if_splits)

lemma paste_outcomes_from:
  "x \<in> set (paste_outcomes tiled rows columns n) \<Longrightarrow>
   \<exists>row column raw. row \<in> fst ` set rows \<and> column \<in> fst ` set (take n columns) \<and> x = paste_cell row column raw"
proof -
  assume "x \<in> set (paste_outcomes tiled rows columns n)"
  then obtain p q where "p \<in> set (zip rows [0..<length rows])" "q \<in> set (zip (take n columns) [0..<n])"
    and "\<exists>raw. x = paste_cell (fst (fst p)) (fst (fst q)) raw"
    unfolding paste_outcomes_def set_concat set_map by (auto simp: case_prod_beta) blast
  moreover from this have "fst p \<in> set rows" "fst q \<in> set (take n columns)"
    by (metis prod.collapse set_zip_leftD)+
  ultimately show ?thesis by blast
qed

text \<open>The rows and columns a paste of \<open>block\<close> reaches: as many rows the view shows, from the region's top, and
  as many selectable columns, from its left edge, as the paste size asks for.\<close>

definition paste_rows :: "grid_table \<Rightarrow> string list list \<Rightarrow> string list option \<Rightarrow> grid_bound \<Rightarrow> grid_row list" where
  "paste_rows t block viewport b =
     take (fst (paste_size block (maxRowIndex b - minRowIndex b + 1) (length (region_columns t b))))
       (filter (shown (getDataGridRenderedRowIds t viewport)) (drop (minRowIndex b) (gt_rows t)))"

definition paste_columns :: "grid_table \<Rightarrow> string list list \<Rightarrow> grid_bound \<Rightarrow> grid_column list" where
  "paste_columns t block b =
     take (snd (paste_size block (maxRowIndex b - minRowIndex b + 1) (length (region_columns t b))))
       (filter gc_selectable (drop (minColumnIndex b) (getDataGridDisplayOrderedColumns t)))"

lemma paste_details_outcomes:
  assumes "buildDataGridPasteDetails t block viewport = Some (d, target)"
  obtains b tiled rows columns n where "getDataGridActiveBound t = Some b"
    and "map fst rows = paste_rows t block viewport b" "map fst (take n columns) = paste_columns t block b"
    and "cb_changes d = changes_of (paste_outcomes tiled rows columns n)"
    and "cb_rejected d = rejected_of (paste_outcomes tiled rows columns n)"
proof -
  obtain b where b: "getDataGridActiveBound t = Some b"
    using assms by (auto simp: buildDataGridPasteDetails_def split: if_splits option.splits)
  obtain rc cc where size: "paste_size block (maxRowIndex b - minRowIndex b + 1) (length (region_columns t b)) = (rc, cc)"
    by fastforce
  let ?rows = "take rc (shown_from t (getDataGridRenderedRowIds t viewport) (minRowIndex b))"
  let ?out = "paste_outcomes (tileDataGridClipboardBlock block rc cc) ?rows (target_columns t b) cc"
  have "cb_changes d = changes_of ?out" "cb_rejected d = rejected_of ?out"
    using assms b size by (auto simp: buildDataGridPasteDetails_def region_columns_entries Let_def split: if_splits)
  moreover have "map fst ?rows = paste_rows t block viewport b"
    "map fst (take cc (target_columns t b)) = paste_columns t block b"
    using size by (simp_all add: paste_rows_def paste_columns_def take_map flip: shown_from_rows target_columns_columns)
  ultimately show thesis using that b by blast
qed

text \<open>A paste decides every cell it reaches once.  In a table with unique row and column ids, the changes and
  rejections of the batch are together one decision for each pair of a row the paste reaches, which the view shows,
  and a column it reaches, which can be selected; and only cells whose column may be written in that row are changed,
  never to an undefined value.\<close>

theorem paste_decides_once:
  assumes "buildDataGridPasteDetails t block viewport = Some (d, target)"
    and "distinct (map gr_id (gt_rows t))" "distinct (map gc_id (getDataGridDisplayOrderedColumns t))"
  shows "\<exists>b. getDataGridActiveBound t = Some b \<and> distinct (batch_cells d) \<and>
    set (batch_cells d) = gr_id ` set (paste_rows t block viewport b) \<times> gc_id ` set (paste_columns t block b) \<and>
    (\<forall>c\<in>set (cb_changes d). cc_value c \<noteq> JUndefined \<and>
       (\<exists>column\<in>set (paste_columns t block b). gc_id column = cc_columnId c \<and>
          getDataGridWritableCellEdit column (Some (cc_row c)) \<noteq> None))"
proof -
  obtain b tiled rows columns n where
    b: "getDataGridActiveBound t = Some b" and
    rc: "map fst rows = paste_rows t block viewport b" "map fst (take n columns) = paste_columns t block b" and
    d: "cb_changes d = changes_of (paste_outcomes tiled rows columns n)"
       "cb_rejected d = rejected_of (paste_outcomes tiled rows columns n)"
    by (rule paste_details_outcomes [OF assms(1)])
  have "mset (batch_cells d) = mset (map outcome_cell (paste_outcomes tiled rows columns n))"
    using batch_cells_outcomes [of SourcePaste "paste_outcomes tiled rows columns n"] unfolding batch_cells_def d by simp
  also have "\<dots> = mset (List.product (map gr_id (paste_rows t block viewport b)) (map gc_id (paste_columns t block b)))"
    unfolding paste_outcomes_product rc [symmetric] by simp
  finally have cells: "mset (batch_cells d) =
      mset (List.product (map gr_id (paste_rows t block viewport b)) (map gc_id (paste_columns t block b)))" .
  have "distinct (map gr_id (paste_rows t block viewport b))" "distinct (map gc_id (paste_columns t block b))"
    using assms(2,3) unfolding paste_rows_def paste_columns_def
    by (metis distinct_drop distinct_map_filter distinct_take drop_map take_map)+
  then have "distinct (batch_cells d)"
    using cells by (metis distinct_product mset_eq_imp_distinct_iff)
  moreover have "set (batch_cells d) = gr_id ` set (paste_rows t block viewport b) \<times> gc_id ` set (paste_columns t block b)"
    using mset_eq_setD [OF cells] by simp
  moreover have "cc_value c \<noteq> JUndefined \<and> (\<exists>column\<in>set (paste_columns t block b). gc_id column = cc_columnId c \<and>
          getDataGridWritableCellEdit column (Some (cc_row c)) \<noteq> None)" if "c \<in> set (cb_changes d)" for c
  proof -
    from that paste_outcomes_from [of "Inr c" tiled rows columns n]
    obtain row column raw where "column \<in> fst ` set (take n columns)" "Inr c = paste_cell row column raw"
      by (auto simp: d changes_of_iff)
    with paste_cell_change [of row column raw c] show ?thesis by (auto simp: cell_of_def simp flip: rc(2))
  qed
  ultimately show ?thesis using b by blast
qed

theorem paste_decides_once_witness:
  "\<exists>d target b. buildDataGridPasteDetails sample_grid [[''1'', ''2'', ''3'']] None = Some (d, target) \<and>
     getDataGridActiveBound sample_grid = Some b \<and> distinct (batch_cells d) \<and>
     set (batch_cells d) = gr_id ` set (paste_rows sample_grid [[''1'', ''2'', ''3'']] None b) \<times>
       gc_id ` set (paste_columns sample_grid [[''1'', ''2'', ''3'']] b)"
proof -
  have "buildDataGridPasteDetails sample_grid [[''1'', ''2'', ''3'']] None \<noteq> None" by code_simp
  then obtain d target where built: "buildDataGridPasteDetails sample_grid [[''1'', ''2'', ''3'']] None = Some (d, target)"
    by auto
  have "distinct (map gr_id (gt_rows sample_grid))" "distinct (map gc_id (getDataGridDisplayOrderedColumns sample_grid))"
    by code_simp+
  from paste_decides_once [OF built this] built show ?thesis by blast
qed

text \<open>
  A page that ends with off-page rows before two rows pinned at the bottom.  The region counts the
  off-page row but the paste skips it, so a single value pasted over the region is also written to
  the second pinned row, below the region.
\<close>

definition pinned_grid :: grid_table where
  "pinned_grid = \<lparr>
     gt_rows = map (\<lambda>i. sample_row i [(''a'', JStr [])]) [''r0'', ''off'', ''p1'', ''p2''],
     gt_page = [''r0''], gt_start = [], gt_center = [sample_column ''a'' True (Some text_edit)], gt_end = [],
     gt_bounds = [\<lparr>minRowIndex = 0, maxRowIndex = 2, minColumnIndex = 0, maxColumnIndex = 0\<rparr>], gt_focused = None\<rparr>"

text \<open>A single value pasted over a region that contains an off-page row is written below the region: with rows
  pinned at the bottom, the paste of one cell over the rows up to the first pinned one also changes the second, which
  is in no selected region, although the cells a batch touches are meant to be the cells the selection paints.\<close>

theorem paste_overruns_region:
  "map cell_of (cb_changes (fst (the (buildDataGridPasteDetails pinned_grid [[''v'']] (Some [''r0'', ''p1'', ''p2'']))))) =
     [(''r0'', ''a''), (''p1'', ''a''), (''p2'', ''a'')] \<and>
   gr_id (gt_rows pinned_grid ! 3) = ''p2'' \<and>
   \<not> list_ex (\<lambda>b. cell_selected pinned_grid (Some [''r0'', ''p1'', ''p2'']) b 3 0) (gt_bounds pinned_grid) \<and>
   getDataGridVisibleSelectedCellCount pinned_grid (Some [''r0'', ''p1'', ''p2'']) = 2"
  by code_simp

section \<open>Where the keyboard lands\<close>

lemma clamp_row_nearest:
  assumes "k < length rows" "i < length rows"
  shows "clamp_row rows rendered i k < length rows \<and>
    (clamp_row rows rendered i k = i \<or> gr_id (rows ! clamp_row rows rendered i k) \<in> rendered) \<and>
    min i k \<le> clamp_row rows rendered i k \<and> clamp_row rows rendered i k \<le> max i k \<and>
    (\<forall>j. j \<noteq> clamp_row rows rendered i k \<and> min k (clamp_row rows rendered i k) \<le> j \<and>
       j \<le> max k (clamp_row rows rendered i k) \<longrightarrow> gr_id (rows ! j) \<notin> rendered)"
  using assms
proof (induction rows rendered i k rule: clamp_row.induct)
  case (1 rows rendered i k)
  show ?case
  proof (cases "k \<noteq> i \<and> gr_id (rows ! k) \<notin> rendered")
    case True
    let ?k = "if i < k then k - 1 else k + 1"
    have step: "clamp_row rows rendered i k = clamp_row rows rendered i ?k"
      using True "1.prems" by (subst clamp_row.simps) simp
    have IH: "clamp_row rows rendered i ?k < length rows \<and>
      (clamp_row rows rendered i ?k = i \<or> gr_id (rows ! clamp_row rows rendered i ?k) \<in> rendered) \<and>
      min i ?k \<le> clamp_row rows rendered i ?k \<and> clamp_row rows rendered i ?k \<le> max i ?k \<and>
      (\<forall>j. j \<noteq> clamp_row rows rendered i ?k \<and> min ?k (clamp_row rows rendered i ?k) \<le> j \<and>
         j \<le> max ?k (clamp_row rows rendered i ?k) \<longrightarrow> gr_id (rows ! j) \<notin> rendered)"
      using "1.IH" True "1.prems" by auto
    define c where "c = clamp_row rows rendered i ?k"
    have "gr_id (rows ! j) \<notin> rendered" if "j \<noteq> c" "min k c \<le> j" "j \<le> max k c" for j
    proof (cases "j = k")
      case False
      then have "min ?k c \<le> j" "j \<le> max ?k c" using that IH True unfolding c_def [symmetric] by (auto split: if_splits)
      with IH that(1) show ?thesis unfolding c_def [symmetric] by blast
    qed (use True in simp)
    moreover have "min i k \<le> c \<and> c \<le> max i k" using IH True unfolding c_def [symmetric] by (auto split: if_splits)
    ultimately show ?thesis using IH unfolding step c_def [symmetric] by blast
  next
    case False
    then have "clamp_row rows rendered i k = k" by (subst clamp_row.simps) auto
    with False "1.prems" show ?thesis by auto
  qed
qed

fun jump_target :: "jump \<Rightarrow> string \<times> string" where
  "jump_target (JumpSelect (anchor, focus)) = focus"
| "jump_target (JumpFocus r c) = (r, c)"

text \<open>A jump lands on the row nearest to the one asked for that the view can show.  With a focused cell in a
  table that has selectable columns, the jump is carried out; its row lies between the focused row and the row asked
  for, is one the page or the viewport holds unless it is the focused one or nothing is off-page, and every row
  between the row asked for and the one it lands on is off-page.\<close>

theorem jump_lands_nearest:
  assumes "gt_focused t = Some f" "gf_rowIndex f < length (gt_rows t)"
    and "filter gc_selectable (getDataGridDisplayOrderedColumns t) \<noteq> []"
    and "w = jump_row t (gf_rowIndex f) rowTarget"
  shows "\<exists>j k. jumpFocus t domIds rowTarget columnTarget grow = Some j \<and> k < length (gt_rows t) \<and>
    fst (jump_target j) = gr_id (gt_rows t ! k) \<and>
    (k = gf_rowIndex f \<or> length (gt_page t) = length (gt_rows t) \<or> gr_id (gt_rows t ! k) \<in> set (gt_page t) \<union> set domIds) \<and>
    min (gf_rowIndex f) w \<le> k \<and> k \<le> max (gf_rowIndex f) w \<and>
    (\<forall>i. i \<noteq> k \<and> min w k \<le> i \<and> i \<le> max w k \<longrightarrow> gr_id (gt_rows t ! i) \<notin> set (gt_page t) \<union> set domIds)"
proof -
  let ?i = "gf_rowIndex f" and ?seen = "set (gt_page t) \<union> set domIds"
  have w: "w < length (gt_rows t)" using assms(2,4) by (auto simp: jump_row_def split: row_target.splits)
  define k where "k = (if length (gt_page t) \<noteq> length (gt_rows t) then clamp_row (gt_rows t) ?seen ?i w else w)"
  note clamp = clamp_row_nearest [OF w assms(2), of ?seen]
  have k: "k < length (gt_rows t)" using clamp w by (simp add: k_def)
  have "\<exists>j. jumpFocus t domIds rowTarget columnTarget grow = Some j \<and> fst (jump_target j) = gr_id (gt_rows t ! k)"
    using assms k unfolding k_def by (auto simp: jumpFocus_def Let_def nth_opt_def)
  moreover have "(k = ?i \<or> length (gt_page t) = length (gt_rows t) \<or> gr_id (gt_rows t ! k) \<in> ?seen) \<and>
      min ?i w \<le> k \<and> k \<le> max ?i w \<and>
      (\<forall>i. i \<noteq> k \<and> min w k \<le> i \<and> i \<le> max w k \<longrightarrow> gr_id (gt_rows t ! i) \<notin> ?seen)"
    using clamp unfolding k_def by (cases "length (gt_page t) = length (gt_rows t)") auto
  ultimately show ?thesis using k by blast
qed

definition focused_grid :: grid_table where
  "focused_grid = pinned_grid\<lparr>gt_focused := Some \<lparr>gf_row = sample_row ''p1'' [], gf_rowIndex = 2,
     gf_column = sample_column ''a'' True (Some text_edit)\<rparr>\<rparr>"

theorem jump_lands_nearest_witness:
  "(\<exists>j k. jumpFocus focused_grid [''p1'', ''p2''] (RowDelta (-1)) ColumnSame False = Some j \<and>
      k < length (gt_rows focused_grid) \<and> fst (jump_target j) = gr_id (gt_rows focused_grid ! k)) \<and>
   jumpFocus focused_grid [''p1'', ''p2''] (RowDelta (-1)) ColumnSame False = Some (JumpFocus ''p1'' ''a'')"
proof
  have f: "gt_focused focused_grid = Some \<lparr>gf_row = sample_row ''p1'' [], gf_rowIndex = 2,
     gf_column = sample_column ''a'' True (Some text_edit)\<rparr>" by (simp add: focused_grid_def)
  have "gf_rowIndex \<lparr>gf_row = sample_row ''p1'' [], gf_rowIndex = 2, gf_column = sample_column ''a'' True (Some text_edit)\<rparr>
      < length (gt_rows focused_grid)" "filter gc_selectable (getDataGridDisplayOrderedColumns focused_grid) \<noteq> []"
    by code_simp+
  from jump_lands_nearest [OF f this refl, of _ "RowDelta (-1)" ColumnSame False]
  show "\<exists>j k. jumpFocus focused_grid [''p1'', ''p2''] (RowDelta (-1)) ColumnSame False = Some j \<and>
      k < length (gt_rows focused_grid) \<and> fst (jump_target j) = gr_id (gt_rows focused_grid ! k)" by blast
  show "jumpFocus focused_grid [''p1'', ''p2''] (RowDelta (-1)) ColumnSame False = Some (JumpFocus ''p1'' ''a'')"
    by code_simp
qed

definition reverse_direction :: "direction \<Rightarrow> direction" where
  "reverse_direction d = (case d of DirUp \<Rightarrow> DirDown | DirDown \<Rightarrow> DirUp | DirLeft \<Rightarrow> DirRight | DirRight \<Rightarrow> DirLeft)"

lemma neighbour_back:
  assumes "k < length xs" "neighbour forward k xs = Some x"
  obtains j where "j < length xs" "xs ! j = x" "neighbour (\<not> forward) j xs = Some (xs ! k)"
  using assms by (cases forward) (force simp: neighbour_def nth_opt_Some nth_opt_def split: if_splits)+

text \<open>A step of the focus can be taken back.  With unique ids, if a step from a cell reaches another cell, then
  the step in the opposite direction from there reaches the first cell again.\<close>

theorem step_back:
  assumes "distinct (map gc_id (getDataGridDisplayOrderedColumns t))" "distinct renderedIds" "r \<noteq> []"
    and "getDataGridStepTarget t renderedIds (r, c) d = Some (StepTo r' c')"
  shows "getDataGridStepTarget t renderedIds (r', c') (reverse_direction d) = Some (StepTo r c)"
proof (cases "d = DirLeft \<or> d = DirRight")
  case True
  let ?s = "filter gc_selectable (getDataGridDisplayOrderedColumns t)"
  from assms(4) True obtain k x where k: "index_of (\<lambda>x. gc_id x = c) ?s = Some k"
    "neighbour (d = DirRight) k ?s = Some x" "r' = r" "c' = gc_id x"
    by (auto simp: getDataGridStepTarget_def Let_def split: option.splits)
  from k(1) have at: "k < length ?s" "gc_id (?s ! k) = c" by (simp_all add: index_of_Some)
  from neighbour_back [OF at(1) k(2)] obtain j where j: "j < length ?s" "?s ! j = x" "neighbour (d \<noteq> DirRight) j ?s = Some (?s ! k)" .
  have "distinct (map gc_id ?s)" using assms(1) by (rule distinct_map_filter)
  from index_of_distinct [OF this j(1)] j(2,3) k at True show ?thesis
    by (auto simp: getDataGridStepTarget_def Let_def reverse_direction_def)
next
  case False
  from assms(4) False obtain k where k: "index_of (\<lambda>x. x = r) renderedIds = Some k"
    "neighbour (d = DirDown) k renderedIds = Some r'" "c' = c" "r' \<noteq> []"
    by (auto simp: getDataGridStepTarget_def Let_def split: option.splits if_splits)
  from k(1) have at: "k < length renderedIds" "renderedIds ! k = r" by (simp_all add: index_of_Some)
  from neighbour_back [OF at(1) k(2)] obtain j where j: "j < length renderedIds" "renderedIds ! j = r'"
    "neighbour (d \<noteq> DirDown) j renderedIds = Some (renderedIds ! k)" .
  have "index_of (\<lambda>x. x = r') renderedIds = Some j"
    using index_of_distinct [of "\<lambda>x. x" renderedIds j] assms(2) j(1,2) by simp
  with j(3) k at False assms(3) show ?thesis
    by (cases d) (auto simp: getDataGridStepTarget_def Let_def reverse_direction_def)
qed

theorem step_back_witness:
  "getDataGridStepTarget sample_grid [''r1'', ''r2''] (''r1'', ''a'') DirRight = Some (StepTo ''r1'' ''b'') \<and>
   getDataGridStepTarget sample_grid [''r1'', ''r2''] (''r1'', ''b'') (reverse_direction DirRight) = Some (StepTo ''r1'' ''a'')"
proof
  show there: "getDataGridStepTarget sample_grid [''r1'', ''r2''] (''r1'', ''a'') DirRight = Some (StepTo ''r1'' ''b'')"
    by code_simp
  have "distinct (map gc_id (getDataGridDisplayOrderedColumns sample_grid))" by code_simp
  then show "getDataGridStepTarget sample_grid [''r1'', ''r2''] (''r1'', ''b'') (reverse_direction DirRight) = Some (StepTo ''r1'' ''a'')"
    by (rule step_back [OF _ _ _ there]) simp_all
qed

section \<open>The fill preview\<close>

text \<open>A drag: the session started and the pointer moved over some cells.\<close>

definition fill_drag :: "(string \<times> string) option list \<Rightarrow> fill_session \<Rightarrow> fill_session" where
  "fill_drag moves s = fold fill_handleMove moves s"

lemma fill_handleMove_keeps [simp]:
  "fill_bound (fill_handleMove over s) = fill_bound s" "fill_columns (fill_handleMove over s) = fill_columns s"
  "fill_visible (fill_handleMove over s) = fill_visible s" "fill_sources (fill_handleMove over s) = fill_sources s"
  "fill_sourceEnd (fill_handleMove over s) = fill_sourceEnd s"
  by (auto simp: fill_handleMove_def Let_def split: option.splits)

lemma fill_drag_keeps [simp]:
  "fill_bound (fill_drag moves s) = fill_bound s" "fill_columns (fill_drag moves s) = fill_columns s"
  by (induction moves arbitrary: s) (simp_all add: fill_drag_def)

lemma fill_down_row_cells:
  "map cell_of (fill_down_row source row columns) =
   map (\<lambda>q. (gr_id row, gc_id (fst q)))
     (filter (\<lambda>q. getDataGridWritableCellEdit (fst q) (Some (gr_original row)) \<noteq> None) columns)"
  by (induction columns) (auto simp: fill_down_row_def map_filter_simps cell_of_def)

lemma fill_right_cell_cell:
  assumes "minColumnIndex (fill_bound s) \<le> maxColumnIndex (fill_bound s)" "maxColumnIndex (fill_bound s) < length (fill_columns s)"
  shows "map_option outcome_cell (fill_right_cell toText s row p) =
    (if getDataGridWritableCellEdit (fst p) (Some (gr_original row)) = None then None else Some (gr_id row, gc_id (fst p)))"
proof -
  let ?b = "fill_bound s"
  let ?k = "minColumnIndex ?b + (snd p - (maxColumnIndex ?b + 1)) mod (maxColumnIndex ?b - minColumnIndex ?b + 1)"
  have "(snd p - (maxColumnIndex ?b + 1)) mod (maxColumnIndex ?b - minColumnIndex ?b + 1) < maxColumnIndex ?b - minColumnIndex ?b + 1"
    by simp
  then have "?k < length (fill_columns s)" using assms by linarith
  then have "nth_opt (fill_columns s) ?k \<noteq> None" by (simp add: nth_opt_def)
  then show ?thesis
    by (auto simp: fill_right_cell_def Let_def case_prod_beta outcome_cell_def cell_of_def rejection_cell_def split: option.splits)
qed

lemma map_map_filter: "map g (List.map_filter f xs) = List.map_filter (\<lambda>x. map_option g (f x)) xs"
  by (induction xs) (auto simp: map_filter_simps split: option.splits)

lemma map_filter_if: "List.map_filter (\<lambda>x. if P x then None else Some (h x)) xs = map h (filter (\<lambda>x. \<not> P x) xs)"
  by (induction xs) (auto simp: map_filter_simps)

lemma fill_outcomes_cells:
  assumes "minColumnIndex (fill_bound s) \<le> maxColumnIndex (fill_bound s)" "maxColumnIndex (fill_bound s) < length (fill_columns s)"
  shows "map outcome_cell (fill_outcomes toText s axis rows columns) =
    concat (map (\<lambda>p. map (\<lambda>q. (gr_id (fst p), gc_id (fst q)))
      (filter (\<lambda>q. getDataGridWritableCellEdit (fst q) (Some (gr_original (fst p))) \<noteq> None) columns)) rows)"
proof (cases axis)
  case FillRow
  have inr: "map outcome_cell (map Inr cs) = map cell_of cs" for cs by (simp add: outcome_cell_def)
  have "map outcome_cell (fill_outcomes toText s FillRow rows columns) =
      concat (map (\<lambda>p. map (\<lambda>q. (gr_id (fst (fst p)), gc_id (fst q)))
        (filter (\<lambda>q. getDataGridWritableCellEdit (fst q) (Some (gr_original (fst (fst p)))) \<noteq> None) columns))
        (zip rows [0..<length rows]))"
    by (simp add: fill_outcomes_def map_concat comp_def case_prod_beta inr [unfolded map_map comp_def] fill_down_row_cells
        del: not_None_eq)
  also have "\<dots> = concat (map (\<lambda>p. map (\<lambda>q. (gr_id (fst p), gc_id (fst q)))
      (filter (\<lambda>q. getDataGridWritableCellEdit (fst q) (Some (gr_original (fst p))) \<noteq> None) columns)) rows)"
    by (rule arg_cong [where f = concat], rule map_fst_index [OF order_refl])
  finally show ?thesis using FillRow by simp
next
  case FillColumn
  have "map outcome_cell (List.map_filter (fill_right_cell toText s row) columns) =
      map (\<lambda>q. (gr_id row, gc_id (fst q)))
        (filter (\<lambda>q. getDataGridWritableCellEdit (fst q) (Some (gr_original row)) \<noteq> None) columns)" for row
    by (simp add: map_map_filter fill_right_cell_cell [OF assms] map_filter_if)
  then show ?thesis using FillColumn by (simp add: fill_outcomes_def map_concat comp_def case_prod_beta)
qed


definition fill_grid :: grid_table where
  "fill_grid = sample_grid\<lparr>gt_bounds := [\<lparr>minRowIndex = 0, maxRowIndex = 0, minColumnIndex = 0, maxColumnIndex = 2\<rparr>]\<rparr>"

definition fill_start :: fill_session where
  "fill_start = the (startDataGridFillSession fill_grid [''r1'', ''r2''])"


section \<open>The editor\<close>

text \<open>The outcomes of a sequence of events, each with the text then in the field.\<close>

fun overlay_run :: "string \<Rightarrow> bool \<Rightarrow> bool \<Rightarrow> (string \<times> overlay_event) list \<Rightarrow> overlay_outcome list" where
  "overlay_run control enterAdvance finished [] = []"
| "overlay_run control enterAdvance finished ((typed, ev) # evs) =
     (let (outs, finished') = overlay_step control enterAdvance typed ev finished
      in outs @ overlay_run control enterAdvance finished' evs)"

fun is_commit :: "overlay_outcome \<Rightarrow> bool" where
  "is_commit (Commit typed advance refocus) = True"
| "is_commit Cancel = False"

lemma overlay_finished: "overlay_run control enterAdvance True evs = []"
proof (induction evs)
  case (Cons p evs)
  have "overlay_step control enterAdvance typed ev True = ([], True)" for typed ev
    by (cases ev) (auto simp: overlay_finish_def)
  with Cons.IH show ?case by (cases p) simp
qed simp

lemma overlay_step_commits:
  "overlay_step control enterAdvance typed ev False = (outs, finished') \<Longrightarrow>
   length (filter is_commit outs) \<le> (if finished' then 1 else 0)"
  by (cases ev) (auto simp: overlay_finish_def split: if_splits)

lemma overlay_commits_once: "length (filter is_commit (overlay_run control enterAdvance finished evs)) \<le> 1"
proof (induction evs arbitrary: finished)
  case (Cons p evs)
  obtain typed ev where p: "p = (typed, ev)" by fastforce
  show ?case
  proof (cases finished)
    case False
    obtain outs finished' where step: "overlay_step control enterAdvance typed ev False = (outs, finished')" by fastforce
    from step overlay_step_commits [OF step] Cons.IH [of finished'] False p show ?thesis
      by (cases finished') (auto simp: overlay_finished)
  qed (simp add: overlay_finished)
qed simp

text \<open>An edit is written at most once, and only when it changes the text.  Whatever keys, blurs and changes of the
  rows reach the overlay of an open editor, it commits at most once; a commit of the text the editor opened with
  dispatches nothing, and any other commit that dispatches does so for the session's own cell alone.\<close>

theorem editor_writes_once:
  "length (filter is_commit (overlay_run control enterAdvance False evs)) \<le> 1 \<and>
   commitEditorSession t columns writes (Some s) (es_baseline s) = None \<and>
   (case commitEditorSession t columns writes (Some s) raw of
      None \<Rightarrow> True
    | Some d \<Rightarrow> raw \<noteq> es_baseline s \<and> batch_cells d = [(es_rowId s, es_columnId s)])"
  using overlay_commits_once
  by (auto simp: commitEditorSession_def batch_cells_def cell_of_def rejection_cell_def Let_def split: option.splits)

end
