(* ===== verification/Grid_Keys.thy ===== *)
theory Grid_Keys
  imports Grid_Run
begin

text \<open>
  The keyboard and clipboard handlers of the data grid (\<^verbatim>\<open>data-grid-cell-selection.tsx\<close>,
  \<^verbatim>\<open>handleKeyDown\<close>, \<^verbatim>\<open>handleCopy\<close>, \<^verbatim>\<open>handleCut\<close>, \<^verbatim>\<open>handlePaste\<close>): each is a function from an event and
  what the handler reads to the list of effects it has, in order.  The operations of the table
  library that move the focus are parameters of the environment; scrolling and the attributes for
  assistive technology are left out.
\<close>

section \<open>Events and effects\<close>

text \<open>
  Where a key lands: in a row without id, with its position among the appended rows if it is one; in
  a control, which may be inside a cell; or on the grid.
\<close>

datatype key_target = InAppended "nat option" | InControl bool | OnGrid

record key_event =
  ev_key :: string
  ev_code :: string
  ev_meta :: bool
  ev_ctrl :: bool
  ev_shift :: bool
  ev_alt :: bool
  ev_prevented :: bool
  ev_target :: key_target

text \<open>
  What the handler reads: the flags of the grid's props, the viewport's row ids, which appended rows
  take the focus, what the focused cell holds, the size of a page, and the operations of the table.
\<close>

record key_env =
  ke_toText :: "js_value \<Rightarrow> string"
  ke_rtl :: bool
  ke_ranges :: bool
  ke_clipboard :: bool
  ke_writes :: bool
  ke_asks :: bool
  ke_control :: bool
  ke_checkbox :: bool
  ke_domIds :: "string list"
  ke_appended :: "bool list"
  ke_pageSize :: nat
  ke_extendLib :: "direction \<Rightarrow> grid_table \<Rightarrow> grid_table"
  ke_moveLib :: "direction \<Rightarrow> grid_table \<Rightarrow> grid_table"
  ke_focusLib :: "string \<Rightarrow> string \<Rightarrow> grid_table \<Rightarrow> grid_table"

datatype key_effect =
    EPrevent | EStop | EFocusGrid | EFocusAppended nat | ESetFocus string string | EMove direction
  | EExtend direction | ESelectRange cell_range | ESelectAll | EResetSelection | ECells change_batch
  | EEdit edit_request | EClickCheckbox | EWriteClipboard bool

definition focusFirstIn :: "key_env \<Rightarrow> nat \<Rightarrow> bool" where
  "focusFirstIn e k = (nth_opt (ke_appended e) k = Some True)"

definition focused_cell :: "grid_table \<Rightarrow> (string \<times> string) option" where
  "focused_cell t = map_option (\<lambda>f. (gr_id (gf_row f), gc_id (gf_column f))) (gt_focused t)"

definition step_from_focus :: "key_env \<Rightarrow> grid_table \<Rightarrow> direction \<Rightarrow> step_target option" where
  "step_from_focus e t d = Option.bind (focused_cell t) (\<lambda>from. getDataGridStepTarget t (ke_domIds e) from d)"

definition moveFocusVisual :: "key_env \<Rightarrow> grid_table \<Rightarrow> direction \<Rightarrow> key_effect list \<times> grid_table" where
  "moveFocusVisual e t d =
     (case step_from_focus e t d of
        Some StepEdge \<Rightarrow> ([], t)
      | Some (StepTo r c) \<Rightarrow> ([ESetFocus r c], ke_focusLib e r c t)
      | None \<Rightarrow> ([EMove d], ke_moveLib e d t))"

definition jump_effects :: "key_env \<Rightarrow> key_event \<Rightarrow> grid_table \<Rightarrow> row_target \<Rightarrow> column_target \<Rightarrow> key_effect list" where
  "jump_effects e ev t rowTarget columnTarget =
     (case jumpFocus t (ke_domIds e) rowTarget columnTarget (ev_shift ev \<and> ke_ranges e) of
        None \<Rightarrow> []
      | Some (JumpSelect area) \<Rightarrow> [ESelectRange area, EPrevent]
      | Some (JumpFocus r c) \<Rightarrow> [ESetFocus r c, EPrevent])"

definition appended_keys :: "key_env \<Rightarrow> key_event \<Rightarrow> nat option \<Rightarrow> key_effect list" where
  "appended_keys e ev index =
     (case index of
        None \<Rightarrow> []
      | Some k \<Rightarrow>
          if ev_key ev = ''ArrowDown''
          then if focusFirstIn e (k + 1) then [EFocusAppended (k + 1), EPrevent] else []
          else if ev_key ev = ''ArrowUp''
          then if 0 < k \<and> focusFirstIn e (k - 1) then [EFocusAppended (k - 1), EPrevent] else [EFocusGrid, EPrevent]
          else [])"

text \<open>The arrow keys, with the direction already mirrored for right-to-left text.\<close>

definition arrow_keys :: "key_env \<Rightarrow> key_event \<Rightarrow> grid_table \<Rightarrow> direction \<Rightarrow> key_effect list" where
  "arrow_keys e ev t d =
     (if ev_meta ev \<or> ev_ctrl ev
      then (case d of
              DirUp \<Rightarrow> jump_effects e ev t RowFirst ColumnSame
            | DirDown \<Rightarrow> jump_effects e ev t RowLast ColumnSame
            | DirLeft \<Rightarrow> jump_effects e ev t RowSame ColumnFirst
            | DirRight \<Rightarrow> jump_effects e ev t RowSame ColumnLast)
      else if d = DirDown \<and> \<not> ev_shift ev \<and> ke_domIds e \<noteq> [] \<and> last (ke_domIds e) \<noteq> [] \<and>
              map_option fst (focused_cell t) = Some (last (ke_domIds e)) \<and> focusFirstIn e 0
      then [EFocusAppended 0, EPrevent]
      else if ev_shift ev \<and> ke_ranges e
      then (case snd (snd (extendDataGridSelection (ke_extendLib e) t (ke_domIds e) d)) of
              None \<Rightarrow> [EExtend d, EPrevent]
            | Some area \<Rightarrow> [EExtend d, ESelectRange area, EPrevent])
      else (case step_from_focus e t d of
              Some StepEdge \<Rightarrow> [EPrevent]
            | Some (StepTo r c) \<Rightarrow> [ESetFocus r c, EPrevent]
            | None \<Rightarrow> [EMove d, EPrevent]))"

definition edit_effects :: "key_env \<Rightarrow> grid_table \<Rightarrow> string option \<Rightarrow> key_effect list option" where
  "edit_effects e t initialText =
     (case requestCellEdit (ke_toText e) t (ke_asks e) (ke_control e) initialText of
        NoEdit \<Rightarrow> None
      | r \<Rightarrow> Some [EEdit r, EPrevent])"

section \<open>The keyboard\<close>

definition arrow_direction :: "bool \<Rightarrow> string \<Rightarrow> direction option" where
  "arrow_direction rtl key =
     (if key = ''ArrowUp'' then Some DirUp
      else if key = ''ArrowDown'' then Some DirDown
      else if key = ''ArrowLeft'' then Some (if rtl then DirRight else DirLeft)
      else if key = ''ArrowRight'' then Some (if rtl then DirLeft else DirRight)
      else None)"

text \<open>The cases of the switch over the key; \<open>None\<close> where it has none and falls through.\<close>

definition switch_keys :: "key_env \<Rightarrow> key_event \<Rightarrow> grid_table \<Rightarrow> key_effect list option" where
  "switch_keys e ev t =
     (let key = ev_key ev in
      case arrow_direction (ke_rtl e) key of
        Some d \<Rightarrow> Some (arrow_keys e ev t d)
      | None \<Rightarrow>
          if key = ''Home'' \<or> key = ''End''
          then Some (jump_effects e ev t
                 (if ev_meta ev \<or> ev_ctrl ev then if key = ''Home'' then RowFirst else RowLast else RowSame)
                 (if key = ''Home'' then ColumnFirst else ColumnLast))
          else if key = ''PageUp'' \<or> key = ''PageDown''
          then Some (jump_effects e ev t (RowDelta ((if key = ''PageUp'' then -1 else 1) * int (ke_pageSize e))) ColumnSame)
          else if key = ''Enter''
          then Some (case (if ev_shift ev then None else edit_effects e t None) of
                       Some effects \<Rightarrow> effects
                     | None \<Rightarrow> fst (moveFocusVisual e t (if ev_shift ev then DirUp else DirDown)) @ [EPrevent])
          else if key = ''F2'' then Some (case edit_effects e t None of Some effects \<Rightarrow> effects | None \<Rightarrow> [])
          else if key = ''Tab''
          then Some (let (effects, t') = moveFocusVisual e t (if ev_shift ev then DirLeft else DirRight)
                     in effects @ (if focused_cell t' \<noteq> None \<and> focused_cell t' \<noteq> focused_cell t then [EPrevent] else []))
          else if key = ''Delete'' \<or> key = ''Backspace''
          then Some (if \<not> ke_writes e then []
                     else (case buildDataGridClearDetails t SourceClear False (Some (ke_domIds e)) of
                             None \<Rightarrow> [] | Some d \<Rightarrow> [ECells d]) @ [EPrevent])
          else if key = ''Escape''
          then Some (if gt_bounds t \<noteq> [] then [EResetSelection, EPrevent, EStop] else [])
          else None)"

definition is_chord :: "key_event \<Rightarrow> string \<Rightarrow> string \<Rightarrow> string \<Rightarrow> bool" where
  "is_chord ev lower upper code \<longleftrightarrow> ev_key ev = lower \<or> ev_key ev = upper \<or> ev_code ev = code"

definition handleKeyDown :: "key_env \<Rightarrow> key_event \<Rightarrow> grid_table \<Rightarrow> key_effect list" where
  "handleKeyDown e ev t =
     (if ev_prevented ev then []
      else case ev_target ev of
        InAppended index \<Rightarrow> appended_keys e ev index
      | InControl inCell \<Rightarrow> (if ev_key ev = ''Escape'' \<and> inCell then [EPrevent, EStop, EFocusGrid] else [])
      | OnGrid \<Rightarrow>
          (let chord = ev_meta ev \<or> ev_ctrl ev in
           if is_chord ev ''a'' ''A'' ''KeyA'' \<and> chord \<and> \<not> ev_alt ev
           then (if ke_ranges e then [ESelectAll] else []) @ [EPrevent]
           else if chord \<and> \<not> ev_alt ev \<and> ke_clipboard e \<and>
                   (is_chord ev ''c'' ''C'' ''KeyC'' \<or> is_chord ev ''x'' ''X'' ''KeyX'')
           then [EPrevent, EWriteClipboard (is_chord ev ''x'' ''X'' ''KeyX'')]
           else case switch_keys e ev t of
             Some effects \<Rightarrow> effects
           | None \<Rightarrow>
               if ev_key ev = '' '' \<and> ke_checkbox e then [EClickCheckbox, EPrevent]
               else case (if length (ev_key ev) = 1 \<and> \<not> ev_meta ev \<and> \<not> (ev_ctrl ev \<and> \<not> ev_alt ev)
                          then edit_effects e t (Some (ev_key ev)) else None) of
                      Some effects \<Rightarrow> effects
                    | None \<Rightarrow> if ev_key ev = '' '' \<and> gt_focused t \<noteq> None then [EPrevent] else []))"

section \<open>The clipboard\<close>

text \<open>
  After a chord wrote the clipboard: \<open>written\<close> is what reached it.  A cut then clears the active region
  of the table as it is at that time.
\<close>

definition after_write :: "key_env \<Rightarrow> bool \<Rightarrow> string list list option \<Rightarrow> grid_table \<Rightarrow> key_effect list" where
  "after_write e isCut written t =
     (if written = None \<or> \<not> isCut \<or> \<not> ke_writes e then []
      else case buildDataGridClearDetails t SourceCut True (Some (ke_domIds e)) of None \<Rightarrow> [] | Some d \<Rightarrow> [ECells d])"

text \<open>The native events: the text and HTML put on the clipboard, and the effects.\<close>

definition copySelection :: "key_env \<Rightarrow> grid_table \<Rightarrow> bool \<Rightarrow> (string \<times> string) option" where
  "copySelection e t clipboardData =
     (case getDataGridActiveRegionGrid (ke_toText e) t (Some (ke_domIds e)) of
        None \<Rightarrow> None
      | Some grid \<Rightarrow> if clipboardData then Some (serializeDataGridClipboardText grid, renderDataGridClipboardHtml grid)
                      else None)"

definition handleCopy :: "key_env \<Rightarrow> bool \<Rightarrow> bool \<Rightarrow> grid_table \<Rightarrow> (string \<times> string) option \<times> key_effect list" where
  "handleCopy e editable clipboardData t =
     (if editable then (None, [])
      else case copySelection e t clipboardData of None \<Rightarrow> (None, []) | Some c \<Rightarrow> (Some c, [EPrevent]))"

definition handleCut :: "key_env \<Rightarrow> bool \<Rightarrow> bool \<Rightarrow> grid_table \<Rightarrow> (string \<times> string) option \<times> key_effect list" where
  "handleCut e editable clipboardData t =
     (if editable then (None, [])
      else case copySelection e t clipboardData of
             None \<Rightarrow> (None, [])
           | Some c \<Rightarrow>
               (Some c, EPrevent #
                 (if ke_writes e
                  then case buildDataGridClearDetails t SourceCut True (Some (ke_domIds e)) of None \<Rightarrow> [] | Some d \<Rightarrow> [ECells d]
                  else [])))"

definition handlePaste :: "key_env \<Rightarrow> bool \<Rightarrow> string option \<Rightarrow> grid_table \<Rightarrow> key_effect list" where
  "handlePaste e editable clipboard t =
     (if editable \<or> \<not> ke_writes e then []
      else case clipboard of
        None \<Rightarrow> []
      | Some typed \<Rightarrow>
          if typed = [] then []
          else EPrevent #
            (case buildDataGridPasteDetails t (parseDataGridClipboardText typed) (Some (ke_domIds e)) of
               None \<Rightarrow> []
             | Some (d, target) \<Rightarrow>
                 ECells d #
                 (if ke_ranges e
                  then case selectDataGridRegion t (pt_startRow target) (pt_endRow target) (pt_startColumn target) (pt_endColumn target) of
                         None \<Rightarrow> [] | Some (ar, ac, fr, fc) \<Rightarrow> [ESelectRange ((ar, ac), (fr, fc))]
                  else [])))"

section \<open>What the handlers keep to\<close>

lemma moveFocusVisual_effects:
  "x \<in> set (fst (moveFocusVisual e t d)) \<Longrightarrow> \<exists>r c. x = ESetFocus r c \<or> x = EMove d"
  by (auto simp: moveFocusVisual_def split: option.splits step_target.splits)

lemma jump_effects_safe [simp]:
  "ECells b \<notin> set (jump_effects e ev t r c)"
  "jump_effects e ev t r c \<noteq> [] \<Longrightarrow> EPrevent \<in> set (jump_effects e ev t r c)"
  by (auto simp: jump_effects_def split: option.splits jump.splits)

lemma arrow_keys_plain:
  "\<not> (ev_meta ev \<or> ev_ctrl ev) \<Longrightarrow> EPrevent \<in> set (arrow_keys e ev t d) \<and> ECells b \<notin> set (arrow_keys e ev t d)"
  unfolding arrow_keys_def by (simp split: option.split step_target.split)

lemma arrow_keys_jump:
  "ev_meta ev \<or> ev_ctrl ev \<Longrightarrow> \<exists>r c. arrow_keys e ev t d = jump_effects e ev t r c"
  unfolding arrow_keys_def by (cases d) auto

lemma arrow_keys_safe [simp]:
  "ECells b \<notin> set (arrow_keys e ev t d)"
  "arrow_keys e ev t d \<noteq> [] \<Longrightarrow> EPrevent \<in> set (arrow_keys e ev t d)"
  using arrow_keys_plain arrow_keys_jump jump_effects_safe by metis+

lemma edit_effects_cases: "edit_effects e t i = Some effects \<Longrightarrow> \<exists>r. effects = [EEdit r, EPrevent]"
  by (auto simp: edit_effects_def split: edit_request.splits)

lemma moveFocusVisual_safe [simp]: "ECells b \<notin> set (fst (moveFocusVisual e t d))"
  using moveFocusVisual_effects by blast

lemma edit_effects_safe [simp]: "edit_effects e t i = Some effects \<Longrightarrow> ECells b \<notin> set effects \<and> EPrevent \<in> set effects"
  using edit_effects_cases by fastforce

lemma switch_keys_writes:
  assumes "switch_keys e ev t = Some effects" "ECells b \<in> set effects"
  shows "(ev_key ev = ''Delete'' \<or> ev_key ev = ''Backspace'') \<and> ke_writes e \<and>
    buildDataGridClearDetails t SourceClear False (Some (ke_domIds e)) = Some b"
  using assms unfolding switch_keys_def Let_def
  by (auto simp: case_prod_beta split: option.splits if_splits)

lemma switch_keys_consumes:
  assumes "switch_keys e ev t = Some effects" "effects \<noteq> []" "ev_key ev \<noteq> ''Tab''"
  shows "EPrevent \<in> set effects"
  using assms unfolding switch_keys_def Let_def
  by (auto split: option.splits if_splits)

text \<open>The keyboard writes only what clearing would.  A key dispatches a batch only when it is Delete or Backspace
  pressed on the grid itself with a handler for changes wired, and the batch is then the one that clears the selected
  cells the view shows; a key pressed in a control or already handled writes nothing.  Every key the grid acts on is
  kept from the browser, except a Tab that leaves the focus where it is.\<close>

theorem keys_write_only_clear:
  "(ECells b \<in> set (handleKeyDown e ev t) \<longrightarrow>
      ev_target ev = OnGrid \<and> \<not> ev_prevented ev \<and> (ev_key ev = ''Delete'' \<or> ev_key ev = ''Backspace'') \<and> ke_writes e \<and>
      buildDataGridClearDetails t SourceClear False (Some (ke_domIds e)) = Some b) \<and>
   (handleKeyDown e ev t \<noteq> [] \<and> ev_key ev \<noteq> ''Tab'' \<longrightarrow> EPrevent \<in> set (handleKeyDown e ev t))"
proof (cases "ev_prevented ev")
  case False
  note unprevented = False
  show ?thesis
  proof (cases "ev_target ev")
    case OnGrid
    show ?thesis
    proof (cases "switch_keys e ev t")
      case None
      then show ?thesis
        using unprevented OnGrid edit_effects_safe by (auto simp: handleKeyDown_def Let_def split: option.splits if_splits)
    next
      case (Some effects)
      with switch_keys_writes [OF Some, of b] switch_keys_consumes [OF Some] unprevented OnGrid show ?thesis
        by (auto simp: handleKeyDown_def Let_def)
    qed
  qed (use unprevented in \<open>auto simp: handleKeyDown_def appended_keys_def split: option.splits\<close>)
qed (simp add: handleKeyDown_def)

definition sample_env :: key_env where
  "sample_env = \<lparr>ke_toText = sample_text, ke_rtl = False, ke_ranges = True, ke_clipboard = True, ke_writes = True,
     ke_asks = False, ke_control = False, ke_checkbox = False, ke_domIds = [''r1'', ''r2''], ke_appended = [],
     ke_pageSize = 10, ke_extendLib = (\<lambda>d t. t), ke_moveLib = (\<lambda>d t. t), ke_focusLib = (\<lambda>r c t. t)\<rparr>"

definition key_press :: "string \<Rightarrow> key_event" where
  "key_press k = \<lparr>ev_key = k, ev_code = k, ev_meta = False, ev_ctrl = False, ev_shift = False, ev_alt = False,
     ev_prevented = False, ev_target = OnGrid\<rparr>"

theorem keys_write_only_clear_witness:
  "\<exists>b. handleKeyDown sample_env (key_press ''Delete'') sample_grid = [ECells b, EPrevent] \<and>
     buildDataGridClearDetails sample_grid SourceClear False (Some [''r1'', ''r2'']) = Some b"
proof -
  have "length (handleKeyDown sample_env (key_press ''Delete'') sample_grid) = 2 \<and>
      (case handleKeyDown sample_env (key_press ''Delete'') sample_grid of [ECells b, EPrevent] \<Rightarrow> True | _ \<Rightarrow> False)"
    by code_simp
  then obtain b where b: "handleKeyDown sample_env (key_press ''Delete'') sample_grid = [ECells b, EPrevent]"
    by (auto split: list.splits key_effect.splits)
  with keys_write_only_clear [of b sample_env "key_press ''Delete''" sample_grid] show ?thesis
    by (simp add: sample_env_def)
qed

end
