(* ===== verification/Filter_Drag.thy ===== *)
theory Filter_Drag
  imports Filter_Bar Filter_Props
begin

text \<open>
  Dragging a row of the advanced builder (\<^verbatim>\<open>reui/filters/filters-dnd.tsx\<close>): which box a pointer resolves to,
  when a drop is a no-op, and the gesture itself as a state with one function per listener.  The marks
  the panel of \<^verbatim>\<open>filters-advanced.tsx\<close> puts on its rows and drop zones are drawn from the query; where the browser lays
  them out is a parameter.  Pixel coordinates are rationals.
\<close>

section \<open>Boxes and their resolution\<close>

record drop_box =
  bx_top :: rat
  bx_bottom :: rat
  bx_left :: rat
  bx_right :: rat
  bx_parentId :: string
  bx_index :: int
  bx_depth :: nat

datatype drop_edge = EdgeBefore | EdgeAfter

record 'a drop_resolution =
  rs_target :: "'a drop_box_scheme"
  rs_edge :: "drop_edge option"

definition contains :: "'a drop_box_scheme \<Rightarrow> rat \<Rightarrow> rat \<Rightarrow> rat \<Rightarrow> bool" where
  "contains box x y grow \<longleftrightarrow>
     x \<ge> bx_left box \<and> x \<le> bx_right box \<and> y \<ge> bx_top box - grow \<and> y \<le> bx_bottom box + grow"

definition FILTER_ROW_SEAM_PX :: rat where
  "FILTER_ROW_SEAM_PX = 6"

text \<open>The two loops of \<^verbatim>\<open>resolveFilterDrop\<close> differ only in how far a box reaches.\<close>

fun deepest :: "rat \<Rightarrow> rat \<Rightarrow> rat \<Rightarrow> 'a drop_box_scheme option \<Rightarrow> 'a drop_box_scheme list \<Rightarrow> 'a drop_box_scheme option" where
  "deepest x y grow best [] = best"
| "deepest x y grow best (candidate # cs) =
     (if \<not> contains candidate x y grow then deepest x y grow best cs
      else case best of
             None \<Rightarrow> deepest x y grow (Some candidate) cs
           | Some b \<Rightarrow> deepest x y grow (if bx_depth candidate > bx_depth b then Some candidate else best) cs)"

definition resolveFilterDrop ::
  "'a drop_box_scheme list \<Rightarrow> 'a drop_box_scheme list \<Rightarrow> rat \<Rightarrow> rat \<Rightarrow> rat \<Rightarrow> 'a drop_resolution option" where
  "resolveFilterDrop zones rows x y seam =
     (case deepest x y 0 None zones of
        Some zone \<Rightarrow> Some \<lparr>rs_target = zone, rs_edge = None\<rparr>
      | None \<Rightarrow>
          (case deepest x y seam None rows of
             None \<Rightarrow> None
           | Some row \<Rightarrow>
               (let after = y > bx_top row + (bx_bottom row - bx_top row) / 2
                in Some \<lparr>rs_target = row\<lparr>bx_index := bx_index row + (if after then 1 else 0)\<rparr>,
                         rs_edge = Some (if after then EdgeAfter else EdgeBefore)\<rparr>)))"

record drop_origin =
  og_parentId :: string
  og_index :: int

definition isFilterDropNoop :: "'a drop_resolution option \<Rightarrow> drop_origin option \<Rightarrow> bool \<Rightarrow> bool" where
  "isFilterDropNoop resolution origin copy =
     (case (resolution, origin) of
        (Some r, Some o') \<Rightarrow>
          \<not> copy \<and> bx_parentId (rs_target r) = og_parentId o' \<and>
          (bx_index (rs_target r) = og_index o' \<or> bx_index (rs_target r) = og_index o' + 1)
      | _ \<Rightarrow> False)"

section \<open>What the panel draws\<close>

text \<open>A row per node, and for a group its header, its footer and, when it holds nothing, its placeholder; the panel's footer
  is the zone of the top level.  A mark carries the attributes of its element: the group a drop writes into, the slot,
  the rows that enclose it (innermost first) and the card it lights.\<close>

datatype panel_element = RowEl string | HeaderEl string | EmptyEl string | FooterEl string | PanelFooterEl

record panel_mark =
  pm_el :: panel_element
  pm_parent :: string
  pm_index :: nat
  pm_above :: "string list"
  pm_card :: "string option"

fun is_row :: "panel_element \<Rightarrow> bool" where
  "is_row (RowEl i) = True"
| "is_row _ = False"

definition mark_row :: "string list \<Rightarrow> string \<Rightarrow> nat \<Rightarrow> string \<Rightarrow> panel_mark" where
  "mark_row outer parent k i = \<lparr>pm_el = RowEl i, pm_parent = parent, pm_index = k, pm_above = outer, pm_card = None\<rparr>"

definition mark_zone :: "string list \<Rightarrow> panel_element \<Rightarrow> string \<Rightarrow> nat \<Rightarrow> panel_mark" where
  "mark_zone outer el g k = \<lparr>pm_el = el, pm_parent = g, pm_index = k, pm_above = outer, pm_card = Some g\<rparr>"

fun draw_node :: "string list \<Rightarrow> string \<Rightarrow> nat \<Rightarrow> filter_node \<Rightarrow> panel_mark list"
and draw_nodes :: "string list \<Rightarrow> string \<Rightarrow> nat \<Rightarrow> filter_node list \<Rightarrow> panel_mark list" where
  "draw_node outer parent k (RuleNode r) = [mark_row outer parent k (rule_id r)]"
| "draw_node outer parent k (GroupNode (FilterGroup g c rs)) =
     mark_row outer parent k g # mark_zone (g # outer) (HeaderEl g) g 0 #
     (if rs = [] then [mark_zone (g # outer) (EmptyEl g) g 0] else draw_nodes (g # outer) g 0 rs) @
     [mark_zone (g # outer) (FooterEl g) g (length rs)]"
| "draw_nodes outer parent k [] = []"
| "draw_nodes outer parent k (n # ns) = draw_node outer parent k n @ draw_nodes outer parent (Suc k) ns"

definition panel_marks :: "filter_query \<Rightarrow> panel_mark list" where
  "panel_marks q = draw_nodes [] (group_id q) 0 (group_rules q) @
     [\<lparr>pm_el = PanelFooterEl, pm_parent = group_id q, pm_index = length (group_rules q), pm_above = [], pm_card = None\<rparr>]"

section \<open>Measuring\<close>

record rect =
  rc_top :: rat
  rc_bottom :: rat
  rc_left :: rat
  rc_right :: rat

record measured_box = drop_box +
  mb_el :: panel_element
  mb_card :: "string option"

type_synonym measured_resolution = "\<lparr>mb_el :: panel_element, mb_card :: string option\<rparr> drop_resolution"

text \<open>The scroller around the panel: where it is on screen and how far it scrolls.\<close>

record viewport =
  vp_top :: rat
  vp_bottom :: rat
  vp_extent :: rat

record surface =
  sf_zones :: "measured_box list"
  sf_rows :: "measured_box list"
  sf_startScrollTop :: rat

definition rowDepth :: "panel_mark \<Rightarrow> nat" where
  "rowDepth m = length (pm_above m)"

definition measure_box :: "(panel_element \<Rightarrow> rect) \<Rightarrow> panel_mark \<Rightarrow> measured_box" where
  "measure_box layout m =
     (let r = layout (pm_el m)
      in \<lparr>bx_top = rc_top r, bx_bottom = rc_bottom r, bx_left = rc_left r, bx_right = rc_right r,
          bx_parentId = pm_parent m, bx_index = int (pm_index m), bx_depth = rowDepth m,
          mb_el = pm_el m, mb_card = pm_card m\<rparr>)"

definition collect_zones :: "filter_query \<Rightarrow> (panel_element \<Rightarrow> rect) \<Rightarrow> string \<Rightarrow> measured_box list" where
  "collect_zones q layout dragged =
     map (measure_box layout) (filter (\<lambda>m. \<not> is_row (pm_el m) \<and> dragged \<notin> set (pm_above m) \<and> pm_parent m \<noteq> []) (panel_marks q))"

definition collect_rows :: "filter_query \<Rightarrow> (panel_element \<Rightarrow> rect) \<Rightarrow> string \<Rightarrow> measured_box list" where
  "collect_rows q layout dragged =
     map (measure_box layout) (filter (\<lambda>m. is_row (pm_el m) \<and> dragged \<notin> set (pm_above m) \<and> pm_parent m \<noteq> []) (panel_marks q))"

definition collectSurface :: "filter_query \<Rightarrow> (panel_element \<Rightarrow> rect) \<Rightarrow> rat option \<Rightarrow> string \<Rightarrow> surface" where
  "collectSurface q layout scrollTop dragged =
     \<lparr>sf_zones = collect_zones q layout dragged, sf_rows = collect_rows q layout dragged,
      sf_startScrollTop = (case scrollTop of None \<Rightarrow> 0 | Some t \<Rightarrow> t)\<rparr>"

text \<open>The attributes of the row that is dragged.\<close>

definition drag_origin :: "filter_query \<Rightarrow> string \<Rightarrow> drop_origin option" where
  "drag_origin q i =
     (case find (\<lambda>m. pm_el m = RowEl i) (panel_marks q) of
        None \<Rightarrow> None
      | Some m \<Rightarrow> if pm_parent m = [] then None else Some \<lparr>og_parentId = pm_parent m, og_index = int (pm_index m)\<rparr>)"

section \<open>A pointer resolves to the deepest box\<close>

lemma deepest_sound:
  assumes "deepest x y grow best cs = Some b"
  shows "best = Some b \<or> b \<in> set cs \<and> contains b x y grow"
  using assms by (induction cs arbitrary: best) (auto split: if_splits option.splits)

lemma deepest_Some:
  "\<exists>b'. deepest x y grow (Some b) cs = Some b' \<and> bx_depth b \<le> bx_depth b' \<and>
    (\<forall>c\<in>set cs. contains c x y grow \<longrightarrow> bx_depth c \<le> bx_depth b')"
proof (induction cs arbitrary: b)
  case (Cons d ds)
  let ?b = "if contains d x y grow \<and> bx_depth d > bx_depth b then d else b"
  have "deepest x y grow (Some b) (d # ds) = deepest x y grow (Some ?b) ds" by simp
  with Cons.IH [of ?b] show ?case by (auto split: if_splits)
qed simp

lemma deepest_None:
  "case deepest x y grow None cs of
     None \<Rightarrow> \<forall>c\<in>set cs. \<not> contains c x y grow
   | Some b \<Rightarrow> b \<in> set cs \<and> contains b x y grow \<and> (\<forall>c\<in>set cs. contains c x y grow \<longrightarrow> bx_depth c \<le> bx_depth b)"
proof (induction cs)
  case (Cons d ds)
  show ?case
  proof (cases "contains d x y grow")
    case True
    obtain b where b: "deepest x y grow (Some d) ds = Some b" "bx_depth d \<le> bx_depth b"
        "\<forall>c\<in>set ds. contains c x y grow \<longrightarrow> bx_depth c \<le> bx_depth b"
      using deepest_Some by blast
    with True deepest_sound [OF b(1)] show ?thesis by auto
  qed (use Cons in \<open>auto split: option.splits\<close>)
qed simp

lemma resolve_sound:
  assumes "resolveFilterDrop zones rows x y seam = Some r"
  obtains (zone) "rs_target r \<in> set zones" "rs_edge r = None"
  | (row) row where "row \<in> set rows"
      "rs_target r = row\<lparr>bx_index := bx_index row + (if rs_edge r = Some EdgeAfter then 1 else 0)\<rparr>" "rs_edge r \<noteq> None"
proof (cases "deepest x y 0 None zones")
  case None
  then obtain row where "deepest x y seam None rows = Some row"
    using assms by (auto simp: resolveFilterDrop_def split: option.splits)
  with None assms deepest_None [where x = x and y = y and grow = seam and cs = rows] show ?thesis
    by (intro row [of row]) (auto simp: resolveFilterDrop_def Let_def)
next
  case (Some z)
  with assms deepest_None [where x = x and y = y and grow = 0 and cs = zones] show ?thesis by (intro zone) (auto simp: resolveFilterDrop_def)
qed

text \<open>Half the gap on each side makes sibling rows tile: between two rows at most twice the seam apart, one of them answers.\<close>

lemma seam_tiles:
  assumes "bx_top lower - bx_bottom upper \<le> 2 * seam" "bx_top upper \<le> bx_bottom upper" "bx_top lower \<le> bx_bottom lower" "0 \<le> seam"
    and "bx_left upper \<le> x" "x \<le> bx_right upper" "bx_left lower \<le> x" "x \<le> bx_right lower"
    and "bx_top upper \<le> y" "y \<le> bx_bottom lower"
  shows "contains upper x y seam \<or> contains lower x y seam"
  using assms by (simp add: contains_def) linarith

section \<open>The marks of a query\<close>

lemma draw_nodes_append:
  "draw_nodes outer p k (xs @ ys) = draw_nodes outer p k xs @ draw_nodes outer p (k + length xs) ys"
  by (induction xs arbitrary: k) auto

lemma in_draw_nodes:
  "m \<in> set (draw_nodes outer p k ns) \<longleftrightarrow> (\<exists>j<length ns. m \<in> set (draw_node outer p (k + j) (ns ! j)))"
proof (induction ns arbitrary: k)
  case (Cons n ns)
  show ?case using Cons [of "Suc k"] by (auto simp: less_Suc_eq_0_disj)
qed simp

text \<open>A mark of a group's row is the row itself, or it belongs to the group and what it holds.\<close>

lemma in_draw_group:
  "m \<in> set (draw_node outer p k (GroupNode g)) \<longleftrightarrow>
     m = mark_row outer p k (group_id g) \<or> m = mark_zone (group_id g # outer) (HeaderEl (group_id g)) (group_id g) 0 \<or>
     (group_rules g = [] \<and> m = mark_zone (group_id g # outer) (EmptyEl (group_id g)) (group_id g) 0) \<or>
     m \<in> set (draw_nodes (group_id g # outer) (group_id g) 0 (group_rules g)) \<or>
     m = mark_zone (group_id g # outer) (FooterEl (group_id g)) (group_id g) (length (group_rules g))"
  by (cases g) auto

lemma draw_group_cases:
  assumes "m \<in> set (draw_node outer p k (GroupNode g))"
  shows "m = mark_row outer p k (group_id g) \<or>
    (\<exists>el k. m = mark_zone (group_id g # outer) el (group_id g) k \<and> k \<le> length (group_rules g) \<and> \<not> is_row el) \<or>
    m \<in> set (draw_nodes (group_id g # outer) (group_id g) 0 (group_rules g))"
proof -
  have zone: "\<exists>el k. m = mark_zone (group_id g # outer) el (group_id g) k \<and> k \<le> length (group_rules g) \<and> \<not> is_row el"
    if "m = mark_zone (group_id g # outer) el (group_id g) k" "k \<le> length (group_rules g)" "\<not> is_row el" for el k
    using that by blast
  from assms show ?thesis unfolding in_draw_group
  proof (elim disjE conjE)
    assume "m = mark_zone (group_id g # outer) (HeaderEl (group_id g)) (group_id g) 0"
    from zone [OF this] show ?thesis by simp
  next
    assume "m = mark_zone (group_id g # outer) (EmptyEl (group_id g)) (group_id g) 0"
    from zone [OF this] show ?thesis by simp
  next
    assume "m = mark_zone (group_id g # outer) (FooterEl (group_id g)) (group_id g) (length (group_rules g))"
    from zone [OF this] show ?thesis by simp
  qed simp_all
qed

lemma draw_outer:
  "m \<in> set (draw_node outer p k n) \<Longrightarrow> set outer \<subseteq> set (pm_above m) \<and> (pm_parent m = p \<or> pm_parent m \<in> set (ids_node n))"
  "m \<in> set (draw_nodes outer p k ns) \<Longrightarrow> set outer \<subseteq> set (pm_above m) \<and> (pm_parent m = p \<or> pm_parent m \<in> set (ids_of ns))"
  by (induction outer p k n and outer p k ns rule: draw_node_draw_nodes.induct)
    (auto simp: mark_row_def mark_zone_def split: if_splits)

text \<open>A mark names a group of the query and a slot of it; a row's slot holds the row's node.\<close>

definition mark_placed :: "filter_query \<Rightarrow> panel_mark \<Rightarrow> bool" where
  "mark_placed q m \<longleftrightarrow> (\<exists>g C. at_group q g C \<and> group_id g = pm_parent m \<and> pm_index m \<le> length (group_rules g) \<and>
     (\<forall>j. pm_el m = RowEl j \<longrightarrow> pm_index m < length (group_rules g) \<and> node_id (group_rules g ! pm_index m) = j))"

lemma placed_here:
  "pm_parent m = group_id q \<Longrightarrow> pm_index m \<le> length (group_rules q) \<Longrightarrow>
   (\<And>j. pm_el m = RowEl j \<Longrightarrow> pm_index m < length (group_rules q) \<and> node_id (group_rules q ! pm_index m) = j) \<Longrightarrow> mark_placed q m"
  using here [of q] by (auto simp: mark_placed_def)

lemma placed_below:
  assumes "mark_placed g m" and "GroupNode g \<in> set (group_rules q)"
  shows "mark_placed q m"
proof -
  obtain as bs where "group_rules q = as @ GroupNode g # bs" using assms(2) by (auto dest: split_list)
  then have "q = FilterGroup (group_id q) (group_combinator q) (as @ GroupNode g # bs)" by (cases q) simp
  then have "at_group g g' C \<Longrightarrow> \<exists>C'. at_group q g' C'" for g' C using below by metis
  with assms(1) show ?thesis by (fastforce simp: mark_placed_def)
qed

lemma draw_placed: "m \<in> set (draw_nodes outer (group_id q) 0 (group_rules q)) \<Longrightarrow> mark_placed q m"
proof (induction q arbitrary: outer rule: group_induct)
  case (FilterGroup i c rs)
  let ?q = "FilterGroup i c rs"
  from FilterGroup.prems obtain j where j: "j < length rs" "m \<in> set (draw_node outer i j (rs ! j))"
    unfolding in_draw_nodes by auto
  show ?case
  proof (cases "rs ! j")
    case (RuleNode r)
    with j show ?thesis by (intro placed_here) (simp_all add: mark_row_def)
  next
    case (GroupNode g)
    with j have g: "GroupNode g \<in> set rs" by (metis nth_mem)
    have "m = mark_row outer i j (group_id g) \<or>
        (\<exists>el k. m = mark_zone (group_id g # outer) el (group_id g) k \<and> k \<le> length (group_rules g) \<and> \<not> is_row el) \<or>
        m \<in> set (draw_nodes (group_id g # outer) (group_id g) 0 (group_rules g))"
      using j(2) unfolding GroupNode by (rule draw_group_cases)
    then consider (row) "m = mark_row outer i j (group_id g)"
      | (zone) el k where "m = mark_zone (group_id g # outer) el (group_id g) k" "k \<le> length (group_rules g)" "\<not> is_row el"
      | (inner) "m \<in> set (draw_nodes (group_id g # outer) (group_id g) 0 (group_rules g))" by blast
    then show ?thesis
    proof cases
      case row
      with j(1) GroupNode show ?thesis by (intro placed_here) (simp_all add: mark_row_def)
    next
      case zone
      then have "mark_placed g m" by (intro placed_here) (auto simp: mark_zone_def)
      from placed_below [OF this] g show ?thesis by simp
    next
      case inner
      from placed_below [OF FilterGroup.IH [OF g inner]] g show ?thesis by simp
    qed
  qed
qed

lemma panel_placed: "m \<in> set (panel_marks q) \<Longrightarrow> mark_placed q m"
  by (auto simp: panel_marks_def intro: draw_placed placed_here)

text \<open>What lies inside a row knows that it does: a mark whose group is the node of a row, or is held by it, is below that row.\<close>

lemma draw_disjoint:
  assumes "distinct_ids (FilterGroup i c (as @ n # bs))" "m \<in> set (draw_nodes outer i k as) \<or> m \<in> set (draw_nodes outer i k' bs)"
  shows "pm_parent m \<notin> set (ids_node n)"
proof -
  have "pm_parent m = i \<or> pm_parent m \<in> set (ids_of as) \<or> pm_parent m \<in> set (ids_of bs)"
    using assms(2) draw_outer(2) [of m outer i k as] draw_outer(2) [of m outer i k' bs] by blast
  moreover have "set (ids_of as) \<inter> set (ids_node n) = {}" "set (ids_of bs) \<inter> set (ids_node n) = {}" "i \<notin> set (ids_node n)"
    using assms(1) unfolding distinct_ids_def by auto
  ultimately show ?thesis by blast
qed

lemma mark_inside:
  assumes "at_group q p C" "n \<in> set (group_rules p)" "distinct_ids q"
    and "m \<in> set (draw_nodes outer (group_id q) 0 (group_rules q))" "pm_parent m \<in> set (ids_node n)"
  shows "node_id n \<in> set (pm_above m)"
  using assms
proof (induction arbitrary: outer rule: at_group.induct)
  case (here g)
  obtain i c where g: "g = FilterGroup i c (group_rules g)" by (cases g) auto
  obtain as bs where split: "group_rules g = as @ n # bs" using here(1) by (auto dest: split_list)
  have d: "distinct_ids (FilterGroup i c (as @ n # bs))" using here(2) g split by metis
  have gi: "group_id g = i" using g by (metis filter_group.sel(1))
  have "m \<in> set (draw_node outer i (length as) n)"
    using here(3,4) draw_disjoint [OF d, of m outer] by (auto simp: split draw_nodes_append gi)
  moreover have "i \<notin> set (ids_node n)" using d by (auto simp: distinct_ids_def)
  ultimately show ?case
    using here(4) draw_outer(2)
    by (cases n) (fastforce simp: in_draw_group mark_row_def mark_zone_def simp del: draw_node.simps(2))+
next
  case (below q g C i c as bs)
  note d = below.prems(2)
  have ids: "set (ids_node n) \<subseteq> set (ids_of (group_rules q))" by (rule at_group_child_ids [OF below.hyps below.prems(1)])
  then have sub: "set (ids_node n) \<subseteq> set (ids q)" by (auto simp: ids_group)
  have dq: "distinct_ids q" using d by (simp add: distinct_ids_FilterGroup)
  have "m \<in> set (draw_node outer i (length as) (GroupNode q))"
    using below.prems(3,4) draw_disjoint [OF d, of m outer] sub by (auto simp: draw_nodes_append)
  moreover have "i \<notin> set (ids_node n)" using d sub by (auto simp: distinct_ids_FilterGroup)
  moreover have "group_id q \<notin> set (ids_node n)" using dq ids by (auto simp: distinct_ids_def ids_group)
  ultimately have "m \<in> set (draw_nodes (group_id q # outer) (group_id q) 0 (group_rules q))"
    using below.prems(4) by (auto simp: in_draw_group mark_row_def mark_zone_def simp del: draw_node.simps(2))
  then show ?case by (rule below.IH [OF below.prems(1) dq _ below.prems(4)])
qed

lemma panel_inside:
  assumes "at_group q p C" "n \<in> set (group_rules p)" "distinct_ids q"
    and "m \<in> set (panel_marks q)" "pm_parent m \<in> set (ids_node n)"
  shows "node_id n \<in> set (pm_above m)"
proof -
  have "group_id q \<notin> set (ids_node n)"
    using at_group_child_ids [OF assms(1,2)] assms(3) by (auto simp: distinct_ids_def ids_group)
  with assms show ?thesis by (auto simp: panel_marks_def intro: mark_inside)
qed

section \<open>A drop is marked a no-op exactly when the move does nothing\<close>

lemma row_drawn:
  assumes "at_group q p C" "n \<in> set (group_rules p)"
  shows "\<exists>m\<in>set (draw_nodes outer (group_id q) k (group_rules q)). pm_el m = RowEl (node_id n)"
  using assms
proof (induction arbitrary: outer k rule: at_group.induct)
  case (here g)
  then obtain j where j: "j < length (group_rules g)" "group_rules g ! j = n" by (auto simp: in_set_conv_nth)
  have "mark_row outer (group_id g) (k + j) (node_id n) \<in> set (draw_node outer (group_id g) (k + j) n)"
    by (cases n) (auto simp: in_draw_group)
  with j have "mark_row outer (group_id g) (k + j) (node_id n) \<in> set (draw_nodes outer (group_id g) k (group_rules g))"
    unfolding in_draw_nodes by blast
  then show ?case by (rule bexI [rotated]) (simp add: mark_row_def)
next
  case (below q g C i c as bs)
  from below.IH [OF below.prems] show ?case by (fastforce simp: draw_nodes_append in_draw_group)
qed

lemma same_place:
  assumes "distinct_ids q" "at_group q p C" "k < length (group_rules p)" "node_id (group_rules p ! k) = i"
    and "at_group q p' C'" "k' < length (group_rules p')" "node_id (group_rules p' ! k') = i"
  shows "p' = p \<and> k' = k"
  using find_at [OF assms(2,1,3,4)] find_at [OF assms(5,1,6,7)] by simp

lemma find_ex: "\<exists>x\<in>set xs. P x \<Longrightarrow> \<exists>x. find P xs = Some x \<and> x \<in> set xs \<and> P x"
  by (induction xs) auto

lemma drag_origin_eq:
  assumes "distinct_ids q" "at_group q p C" "k < length (group_rules p)" "node_id (group_rules p ! k) = i"
  shows "drag_origin q i = (if group_id p = [] then None else Some \<lparr>og_parentId = group_id p, og_index = int k\<rparr>)"
proof -
  have "\<exists>m\<in>set (panel_marks q). pm_el m = RowEl i"
    using row_drawn [OF assms(2) nth_mem [OF assms(3)], of "[]" 0] assms(4) by (auto simp: panel_marks_def)
  then obtain m where m: "find (\<lambda>m. pm_el m = RowEl i) (panel_marks q) = Some m" "m \<in> set (panel_marks q)" "pm_el m = RowEl i"
    using find_ex [of "panel_marks q"] by meson
  from panel_placed [OF m(2)] m(3) obtain g C' where
      g: "at_group q g C'" "group_id g = pm_parent m" "pm_index m < length (group_rules g)" "node_id (group_rules g ! pm_index m) = i"
    by (auto simp: mark_placed_def)
  from same_place [OF assms g(1,3,4)] g(2) m(1) show ?thesis by (auto simp: drag_origin_def)
qed

lemma move_refused_iff:
  assumes "distinct_ids q" "at_group q p C" "k < length (group_rules p)" "node_id (group_rules p ! k) = i"
    and "m \<in> set (panel_marks q)" "i \<notin> set (pm_above m)"
  shows "move_to_ref q i (pm_parent m) index = None \<longleftrightarrow> group_id p = pm_parent m \<and> (index = int k \<or> index = int k + 1)"
proof -
  obtain g D where g: "at_group q g D" "group_id g = pm_parent m" using panel_placed [OF assms(5)] by (auto simp: mark_placed_def)
  then obtain d where d: "findFilterNode q (pm_parent m) = Some d" "found_node d = GroupNode g"
    using find_at_group [OF g(1) assms(1)] by auto
  have "pm_parent m \<notin> set (ids_node (group_rules p ! k))"
    using panel_inside [OF assms(2) nth_mem [OF assms(3)] assms(1,5)] assms(4,6) by auto
  then show ?thesis
    by (auto simp: move_to_ref_def find_at [OF assms(2,1,3,4)] d contains_iff split: if_splits)
qed

text \<open>A resolved box is a mark of the panel outside the dragged row, at the mark's slot or just after it.\<close>

lemma resolved_mark:
  assumes "resolveFilterDrop (collect_zones q layout i) (collect_rows q layout i) x y seam = Some r"
  obtains m where "m \<in> set (panel_marks q)" "i \<notin> set (pm_above m)" "pm_parent m \<noteq> []"
    "bx_parentId (rs_target r) = pm_parent m"
    "bx_index (rs_target r) = int (pm_index m) \<or> is_row (pm_el m) \<and> bx_index (rs_target r) = int (pm_index m) + 1"
  using assms
proof (cases rule: resolve_sound)
  case zone
  then show ?thesis using that by (auto simp: collect_zones_def measure_box_def Let_def)
next
  case (row row)
  then show ?thesis using that by (auto simp: collect_rows_def measure_box_def Let_def)
qed

lemma noop_iff_refused:
  assumes "distinct_ids q" "findFilterNode q i = Some f" "found_parent f \<noteq> None"
    and "resolveFilterDrop (collect_zones q layout i) (collect_rows q layout i) x y seam = Some r"
  shows "isFilterDropNoop (Some r) (drag_origin q i) False \<longleftrightarrow>
    move_to_ref q i (bx_parentId (rs_target r)) (bx_index (rs_target r)) = None"
  using assms(2)
proof (cases rule: find_sound)
  case (child p C k)
  obtain m where m: "m \<in> set (panel_marks q)" "i \<notin> set (pm_above m)" "pm_parent m \<noteq> []"
      "bx_parentId (rs_target r) = pm_parent m"
    using resolved_mark [OF assms(4)] .
  have k: "node_id (group_rules p ! k) = i" using child(5,6) by simp
  show ?thesis
    using move_refused_iff [OF assms(1) child(2,4) k m(1,2)] drag_origin_eq [OF assms(1) child(2,4) k] m(3,4)
    by (auto simp: isFilterDropNoop_def)
qed (use assms(3) in simp)

text \<open>C7: The builder's promise about a drag.  On the panel drawn for a query whose ids are distinct, with any layout of it, a row
  of it held over any point is marked as staying where it is exactly when moving it there would change nothing: the
  move is then the same query, by reference, and in every other case where a box answers it is a new one.\<close>

theorem drop_marked_noop_iff:
  assumes "distinct_ids q" "findFilterNode q i = Some f" "found_parent f \<noteq> None"
    and "resolveFilterDrop (collect_zones q layout i) (collect_rows q layout i) x y seam = Some r"
  shows "isFilterDropNoop (Some r) (drag_origin q i) False \<longleftrightarrow>
    move_to_ref q i (bx_parentId (rs_target r)) (bx_index (rs_target r)) = None"
  using assms by (rule noop_iff_refused)

definition band :: "rat \<Rightarrow> rat \<Rightarrow> rect" where
  "band a b = \<lparr>rc_top = a, rc_bottom = b, rc_left = 0, rc_right = 100\<rparr>"

definition sample_layout :: "panel_element \<Rightarrow> rect" where
  "sample_layout el =
     (if el = RowEl ''a'' then band 0 20 else if el = RowEl ''g'' then band 32 140
      else if el = HeaderEl ''g'' then band 32 40 else if el = RowEl ''b'' then band 40 60
      else if el = RowEl ''c'' then band 72 92 else if el = FooterEl ''g'' then band 104 140
      else if el = RowEl ''d'' then band 152 172 else band 172 220)"

theorem drop_marked_noop_iff_witness:
  "isFilterDropNoop (resolveFilterDrop (collect_zones sample_query sample_layout ''d'') (collect_rows sample_query sample_layout ''d'') 50 78 FILTER_ROW_SEAM_PX)
     (drag_origin sample_query ''d'') False = False \<and>
   move_to_ref sample_query ''d'' ''g'' 1 \<noteq> None"
proof -
  let ?r = "resolveFilterDrop (collect_zones sample_query sample_layout ''d'') (collect_rows sample_query sample_layout ''d'') 50 78 FILTER_ROW_SEAM_PX"
  have r: "?r = Some (the ?r)" "bx_parentId (rs_target (the ?r)) = ''g''" "bx_index (rs_target (the ?r)) = 1"
      "\<not> isFilterDropNoop (Some (the ?r)) (drag_origin sample_query ''d'') False"
    by code_simp+
  have "findFilterNode sample_query ''d'' = Some (the (findFilterNode sample_query ''d''))"
      "found_parent (the (findFilterNode sample_query ''d'')) \<noteq> None"
    by code_simp+
  from drop_marked_noop_iff [OF sample_distinct this r(1)] r show ?thesis by simp
qed

end
