(* ===== verification/Filter_Gesture.thy ===== *)
theory Filter_Gesture
  imports Filter_Drag Filter_Bar_Run
begin

text \<open>
  The gesture of \<^verbatim>\<open>startDrag\<close> in \<^verbatim>\<open>reui/filters/filters-dnd.tsx\<close>: the variables its listeners share, the marks it leaves on
  the document and what it reports, with one function per listener.  An event reaches a listener only while the
  listener is attached.  The copy of the row that follows the pointer is its position, its badge and its invalid mark.
\<close>

section \<open>State\<close>

definition moveDistancePx :: rat where "moveDistancePx = 5"
definition touchTolerancePx :: rat where "touchTolerancePx = 5"
definition autoScrollEdgePx :: rat where "autoScrollEdgePx = 40"
definition autoScrollMaxStepPx :: rat where "autoScrollMaxStepPx = 12"
definition carryPointerOffsetPx :: rat where "carryPointerOffsetPx = 12"

record drop_details =
  dd_parentId :: string
  dd_index :: int
  dd_copy :: bool

datatype drop_state = DropOk | DropNoop | DropNone

record carry =
  ca_x :: rat
  ca_y :: rat
  ca_badge :: bool
  ca_invalid :: bool

text \<open>What a gesture is given: the query on the panel and its layout, the row, the pointer and where it went down, the scroller
  and the pixel ratio of the screen.\<close>

record drag_env =
  de_query :: filter_query
  de_layout :: "panel_element \<Rightarrow> rect"
  de_node :: string
  de_pointer :: nat
  de_touch :: bool
  de_startX :: rat
  de_startY :: rat
  de_viewport :: "viewport option"
  de_dpr :: rat

record gesture =
  gs_active :: bool
  gs_finished :: bool
  gs_surface :: "surface option"
  gs_hit :: "measured_resolution option"
  gs_copy :: bool
  gs_last :: "(rat \<times> rat) option"
  gs_timer :: bool
  gs_frame :: "rat option"
  gs_dropState :: drop_state
  gs_carry :: "carry option"
  gs_grab :: "rat \<times> rat"
  gs_listening :: bool
  gs_blurListening :: bool
  gs_scrollListening :: bool
  gs_registered :: bool
  gs_dragMark :: bool
  gs_noopMark :: bool
  gs_painted :: "measured_resolution option"
  gs_cursor :: string
  gs_userSelect :: string
  gs_scrollTop :: rat
  gs_endedAt :: rat
  gs_suppressing :: bool
  gs_swallowed :: nat
  gs_drops :: "drop_details list"

section \<open>The listeners\<close>

definition wasRecentFilterDrag :: "rat \<Rightarrow> gesture \<Rightarrow> bool" where
  "wasRecentFilterDrag now g \<longleftrightarrow> now - gs_endedAt g < 250"

definition suppressTrailingClick :: "rat \<Rightarrow> gesture \<Rightarrow> gesture" where
  "suppressTrailingClick now g =
     g\<lparr>gs_suppressing := False, gs_swallowed := gs_swallowed g + (if wasRecentFilterDrag now g then 1 else 0)\<rparr>"

definition snapToPixel :: "rat \<Rightarrow> rat \<Rightarrow> rat" where
  "snapToPixel dpr v = (let d = (if dpr = 0 then 1 else dpr) in of_int \<lfloor>v * d + 1 / 2\<rfloor> / d)"

definition paint :: "measured_resolution option \<Rightarrow> gesture \<Rightarrow> gesture" where
  "paint hit g = g\<lparr>gs_painted := hit\<rparr>"

definition positionCarry :: "drag_env \<Rightarrow> rat \<Rightarrow> rat \<Rightarrow> gesture \<Rightarrow> gesture" where
  "positionCarry e x y g =
     (case gs_carry g of
        None \<Rightarrow> g
      | Some c \<Rightarrow> g\<lparr>gs_carry := Some (c\<lparr>ca_x := snapToPixel (de_dpr e) (x - fst (gs_grab g)),
                                       ca_y := snapToPixel (de_dpr e) (y - snd (gs_grab g))\<rparr>)\<rparr>)"

definition createCarry :: "drag_env \<Rightarrow> gesture \<Rightarrow> gesture" where
  "createCarry e g =
     (let r = de_layout e (RowEl (de_node e))
      in positionCarry e (de_startX e) (de_startY e)
           (g\<lparr>gs_grab := (de_startX e - rc_left r, de_startY e - rc_top r),
              gs_carry := Some \<lparr>ca_x = 0, ca_y = 0, ca_badge = gs_copy g, ca_invalid = False\<rparr>\<rparr>))"

definition paintCursor :: "gesture \<Rightarrow> gesture" where
  "paintCursor g =
     (if \<not> gs_active g then g
      else g\<lparr>gs_cursor := (if gs_dropState g = DropNone then ''no-drop'' else if gs_copy g then ''copy'' else ''grabbing'')\<rparr>)"

definition setDropState :: "drop_state \<Rightarrow> gesture \<Rightarrow> gesture" where
  "setDropState s g =
     paintCursor (g\<lparr>gs_dropState := s, gs_noopMark := (s = DropNoop),
       gs_carry := map_option (\<lambda>c. c\<lparr>ca_invalid := (s = DropNone)\<rparr>) (gs_carry g)\<rparr>)"

definition hitTest :: "drag_env \<Rightarrow> rat \<Rightarrow> rat \<Rightarrow> gesture \<Rightarrow> gesture" where
  "hitTest e x y g =
     (case gs_surface g of
        None \<Rightarrow> g
      | Some s \<Rightarrow>
          (let scrolled = (if de_viewport e = None then sf_startScrollTop s else gs_scrollTop g);
               drift = scrolled - sf_startScrollTop s;
               resolved = resolveFilterDrop (sf_zones s) (sf_rows s) x (y + drift) FILTER_ROW_SEAM_PX;
               noop = isFilterDropNoop resolved (drag_origin (de_query e) (de_node e)) (gs_copy g);
               hit = (if noop then None else resolved)
           in setDropState (if noop then DropNoop else if hit \<noteq> None then DropOk else DropNone)
                (paint hit (g\<lparr>gs_hit := hit\<rparr>))))"

text \<open>Hit testing at the last position of the pointer, if it has moved.\<close>

definition hitTestLast :: "drag_env \<Rightarrow> gesture \<Rightarrow> gesture" where
  "hitTestLast e g = (case gs_last g of None \<Rightarrow> g | Some (x, y) \<Rightarrow> hitTest e x y g)"

definition setCopy :: "drag_env \<Rightarrow> bool \<Rightarrow> gesture \<Rightarrow> gesture" where
  "setCopy e b g =
     (if gs_copy g = b then g
      else hitTestLast e (paintCursor (g\<lparr>gs_copy := b, gs_carry := map_option (\<lambda>c. c\<lparr>ca_badge := b\<rparr>) (gs_carry g)\<rparr>)))"

definition scroll_delta :: "viewport \<Rightarrow> rat \<Rightarrow> rat" where
  "scroll_delta v y =
     (if y \<ge> vp_top v \<and> y < vp_top v + autoScrollEdgePx
      then - autoScrollMaxStepPx * ((vp_top v + autoScrollEdgePx - y) / autoScrollEdgePx)
      else if y \<le> vp_bottom v \<and> y > vp_bottom v - autoScrollEdgePx
      then autoScrollMaxStepPx * min 1 ((y - (vp_bottom v - autoScrollEdgePx)) / autoScrollEdgePx)
      else 0)"

definition autoScroll :: "drag_env \<Rightarrow> rat \<Rightarrow> gesture \<Rightarrow> gesture" where
  "autoScroll e y g =
     (case (gs_surface g, de_viewport e) of
        (Some s, Some v) \<Rightarrow> g\<lparr>gs_frame := (if scroll_delta v y = 0 then None else Some (scroll_delta v y))\<rparr>
      | _ \<Rightarrow> g\<lparr>gs_frame := None\<rparr>)"

text \<open>A frame of the automatic scroll; the browser keeps the offset within the extent of the scroller.\<close>

definition clamp_scroll :: "viewport \<Rightarrow> rat \<Rightarrow> rat" where
  "clamp_scroll v t = max 0 (min t (vp_extent v))"

definition scroll_tick :: "drag_env \<Rightarrow> rat \<Rightarrow> gesture \<Rightarrow> gesture" where
  "scroll_tick e delta g =
     (case de_viewport e of
        None \<Rightarrow> g\<lparr>gs_frame := None\<rparr>
      | Some v \<Rightarrow>
          (let before = gs_scrollTop g; t = clamp_scroll v (before + delta)
           in if t = before then g\<lparr>gs_frame := None\<rparr>
              else (hitTestLast e (g\<lparr>gs_scrollTop := t\<rparr>))\<lparr>gs_frame := Some delta\<rparr>))"

definition onViewportScroll :: "drag_env \<Rightarrow> gesture \<Rightarrow> gesture" where
  "onViewportScroll e g = (if \<not> gs_active g then g else hitTestLast e g)"

definition activate :: "drag_env \<Rightarrow> gesture \<Rightarrow> gesture" where
  "activate e g =
     (if gs_active g then g
      else (createCarry e (g\<lparr>gs_active := True,
              gs_surface := Some (collectSurface (de_query e) (de_layout e)
                (if de_viewport e = None then None else Some (gs_scrollTop g)) (de_node e)),
              gs_scrollListening := (de_viewport e \<noteq> None), gs_dragMark := True,
              gs_cursor := (if gs_copy g then ''copy'' else ''grabbing''), gs_userSelect := ''none''\<rparr>))
           \<lparr>gs_blurListening := True\<rparr>)"

definition cleanup :: "gesture \<Rightarrow> gesture" where
  "cleanup g =
     (if gs_finished g then g
      else g\<lparr>gs_finished := True, gs_registered := False, gs_listening := False, gs_blurListening := False,
             gs_scrollListening := False, gs_timer := False, gs_frame := None, gs_painted := None,
             gs_dragMark := False, gs_noopMark := False, gs_carry := None, gs_cursor := [], gs_userSelect := []\<rparr>)"

definition cancel :: "rat \<Rightarrow> gesture \<Rightarrow> gesture" where
  "cancel now g = cleanup (if gs_active g then g\<lparr>gs_endedAt := now\<rparr> else g)"

definition onKeyDown :: "drag_env \<Rightarrow> string \<Rightarrow> rat \<Rightarrow> gesture \<Rightarrow> gesture" where
  "onKeyDown e key now g =
     (if key = ''Escape'' \<and> gs_active g then cancel now g
      else if key = ''Alt'' then setCopy e True g else g)"

definition onKeyUp :: "drag_env \<Rightarrow> string \<Rightarrow> gesture \<Rightarrow> gesture" where
  "onKeyUp e key g = (if key = ''Alt'' then setCopy e False g else g)"

text \<open>\<^verbatim>\<open>Math.hypot\<close> compared with a positive bound is the sum of the squares compared with its square.\<close>

definition onPointerMove :: "drag_env \<Rightarrow> nat \<Rightarrow> rat \<Rightarrow> rat \<Rightarrow> bool \<Rightarrow> rat \<Rightarrow> gesture \<Rightarrow> gesture" where
  "onPointerMove e pid x y alt now g =
     (if pid \<noteq> de_pointer e then g
      else let g1 = g\<lparr>gs_last := Some (x, y)\<rparr>;
               squared = (x - de_startX e)\<^sup>2 + (y - de_startY e)\<^sup>2;
               follow = (\<lambda>g. autoScroll e y (hitTest e x y (positionCarry e x y (setCopy e alt g))))
           in if gs_active g1 then follow g1
              else if de_touch e then (if squared > touchTolerancePx\<^sup>2 then cancel now g1 else g1)
              else if squared < moveDistancePx\<^sup>2 then g1
              else follow (activate e g1))"

definition onPointerUp :: "drag_env \<Rightarrow> nat \<Rightarrow> rat \<Rightarrow> gesture \<Rightarrow> gesture" where
  "onPointerUp e pid now g =
     (if pid \<noteq> de_pointer e then g
      else let landed = (if gs_active g then gs_hit g else None); g1 = cleanup g
           in if \<not> gs_active g1 then g1
              else let g2 = g1\<lparr>gs_endedAt := now, gs_suppressing := True\<rparr>
                   in case landed of
                        None \<Rightarrow> g2
                      | Some r \<Rightarrow> g2\<lparr>gs_drops := gs_drops g2 @ [\<lparr>dd_parentId = bx_parentId (rs_target r),
                                    dd_index = bx_index (rs_target r), dd_copy = gs_copy g\<rparr>]\<rparr>)"

definition onPointerCancel :: "drag_env \<Rightarrow> nat \<Rightarrow> rat \<Rightarrow> gesture \<Rightarrow> gesture" where
  "onPointerCancel e pid now g = (if pid \<noteq> de_pointer e then g else cancel now g)"

definition onTouchTimer :: "drag_env \<Rightarrow> gesture \<Rightarrow> gesture" where
  "onTouchTimer e g =
     (let g1 = activate e g
      in case gs_last g1 of None \<Rightarrow> g1 | Some (x, y) \<Rightarrow> hitTest e x y (positionCarry e x y g1))"

definition startDrag :: "drag_env \<Rightarrow> bool \<Rightarrow> rat \<Rightarrow> rat \<Rightarrow> gesture" where
  "startDrag e alt scrollTop endedAt =
     \<lparr>gs_active = False, gs_finished = False, gs_surface = None, gs_hit = None, gs_copy = alt, gs_last = None,
      gs_timer = de_touch e, gs_frame = None, gs_dropState = DropNone, gs_carry = None,
      gs_grab = (carryPointerOffsetPx, carryPointerOffsetPx), gs_listening = True, gs_blurListening = False,
      gs_scrollListening = False, gs_registered = True, gs_dragMark = False, gs_noopMark = False, gs_painted = None,
      gs_cursor = [], gs_userSelect = [], gs_scrollTop = scrollTop, gs_endedAt = endedAt, gs_suppressing = False,
      gs_swallowed = 0, gs_drops = []\<rparr>"

text \<open>The press on a row's handle (\<^verbatim>\<open>useFilterRowDrag\<close>): nothing while the builder is locked, and only the primary button.\<close>

definition onPointerDown :: "bool \<Rightarrow> int \<Rightarrow> drag_env \<Rightarrow> bool \<Rightarrow> rat \<Rightarrow> rat \<Rightarrow> gesture option" where
  "onPointerDown disabled button e alt scrollTop endedAt =
     (if disabled then None else if button \<noteq> 0 then None else Some (startDrag e alt scrollTop endedAt))"

section \<open>Runs\<close>

datatype drag_event =
    PointerMoved nat rat rat bool rat
  | PointerReleased nat rat
  | PointerCancelled nat rat
  | KeyPressed string rat
  | KeyReleased string
  | WindowBlurred rat
  | TimerFired
  | FrameFired
  | Scrolled rat
  | AllCancelled rat
  | Clicked rat

fun drag_step :: "drag_env \<Rightarrow> drag_event \<Rightarrow> gesture \<Rightarrow> gesture" where
  "drag_step e (PointerMoved pid x y alt now) g = (if gs_listening g then onPointerMove e pid x y alt now g else g)"
| "drag_step e (PointerReleased pid now) g = (if gs_listening g then onPointerUp e pid now g else g)"
| "drag_step e (PointerCancelled pid now) g = (if gs_listening g then onPointerCancel e pid now g else g)"
| "drag_step e (KeyPressed key now) g = (if gs_listening g then onKeyDown e key now g else g)"
| "drag_step e (KeyReleased key) g = (if gs_listening g then onKeyUp e key g else g)"
| "drag_step e (WindowBlurred now) g = (if gs_blurListening g then cancel now g else g)"
| "drag_step e TimerFired g = (if gs_timer g then onTouchTimer e (g\<lparr>gs_timer := False\<rparr>) else g)"
| "drag_step e FrameFired g = (case gs_frame g of None \<Rightarrow> g | Some d \<Rightarrow> scroll_tick e d g)"
| "drag_step e (Scrolled t) g =
     (let g1 = g\<lparr>gs_scrollTop := t\<rparr> in if gs_scrollListening g1 then onViewportScroll e g1 else g1)"
| "drag_step e (AllCancelled now) g = (if gs_registered g then cancel now g else g)"
| "drag_step e (Clicked now) g = (if gs_suppressing g then suppressTrailingClick now g else g)"

definition drag_run :: "drag_env \<Rightarrow> drag_event list \<Rightarrow> gesture \<Rightarrow> gesture" where
  "drag_run e evs g = fold (drag_step e) evs g"

text \<open>What the panel does with a report (\<^verbatim>\<open>filters-advanced.tsx\<close>).\<close>

definition panel_onDrop :: "bar_props \<Rightarrow> string \<Rightarrow> drop_details \<Rightarrow> bar_state \<Rightarrow> bar_state" where
  "panel_onDrop p nodeId d st =
     (if dd_copy d then copyNodeTo p nodeId (dd_parentId d) (dd_index d) st
      else moveNodeTo p nodeId (dd_parentId d) (dd_index d) st)"

section \<open>What holds throughout a gesture\<close>

named_theorems gesture_defs "the bodies of the listeners"

lemmas listener_defs [gesture_defs] = paintCursor_def setDropState_def paint_def positionCarry_def createCarry_def

definition tidy :: "gesture \<Rightarrow> bool" where
  "tidy g \<longleftrightarrow> gs_carry g = None \<and> \<not> gs_dragMark g \<and> \<not> gs_noopMark g \<and> gs_painted g = None \<and> gs_cursor g = [] \<and>
     gs_userSelect g = [] \<and> \<not> gs_blurListening g \<and> \<not> gs_scrollListening g \<and> gs_frame g = None"

definition answers :: "drag_env \<Rightarrow> measured_resolution \<Rightarrow> bool \<Rightarrow> bool" where
  "answers e r copy \<longleftrightarrow>
     (\<exists>x y. resolveFilterDrop (collect_zones (de_query e) (de_layout e) (de_node e)) (collect_rows (de_query e) (de_layout e) (de_node e))
        x y FILTER_ROW_SEAM_PX = Some r) \<and>
     \<not> isFilterDropNoop (Some r) (drag_origin (de_query e) (de_node e)) copy"

definition measured :: "drag_env \<Rightarrow> gesture \<Rightarrow> bool" where
  "measured e g \<longleftrightarrow> (\<exists>s. gs_surface g = Some s \<and> sf_zones s = collect_zones (de_query e) (de_layout e) (de_node e) \<and>
     sf_rows s = collect_rows (de_query e) (de_layout e) (de_node e))"

definition drag_inv :: "drag_env \<Rightarrow> gesture \<Rightarrow> bool" where
  "drag_inv e g \<longleftrightarrow>
     (gs_finished g \<longrightarrow> tidy g \<and> \<not> gs_listening g \<and> \<not> gs_registered g \<and> \<not> gs_timer g) \<and>
     (\<not> gs_active g \<longrightarrow> tidy g \<and> gs_surface g = None \<and> gs_hit g = None) \<and>
     (\<not> gs_finished g \<longrightarrow> gs_listening g \<and> gs_registered g \<and> gs_drops g = []) \<and>
     (gs_active g \<longrightarrow> measured e g) \<and>
     (\<not> gs_finished g \<longrightarrow> (\<forall>r. gs_hit g = Some r \<longrightarrow> gs_last g \<noteq> None \<and> answers e r (gs_copy g))) \<and>
     length (gs_drops g) \<le> 1 \<and>
     (\<forall>d\<in>set (gs_drops g). gs_active g \<and> (\<exists>r. answers e r (dd_copy d) \<and>
        dd_parentId d = bx_parentId (rs_target r) \<and> dd_index d = bx_index (rs_target r)))"

text \<open>The fields a listener's helper leaves alone.\<close>

definition same_course :: "gesture \<Rightarrow> gesture \<Rightarrow> bool" where
  "same_course g g' \<longleftrightarrow> gs_active g' = gs_active g \<and> gs_finished g' = gs_finished g \<and> gs_surface g' = gs_surface g \<and>
     gs_last g' = gs_last g \<and> gs_listening g' = gs_listening g \<and> gs_registered g' = gs_registered g \<and>
     gs_timer g' = gs_timer g \<and> gs_drops g' = gs_drops g"

lemma same_course_trans: "same_course g g' \<Longrightarrow> same_course g' g'' \<Longrightarrow> same_course g g''"
  by (simp add: same_course_def)

lemma course_hitTest: "same_course g (hitTest e x y g)"
  by (simp add: same_course_def hitTest_def Let_def gesture_defs split: option.splits)

lemma course_positionCarry: "same_course g (positionCarry e x y g)"
  by (simp add: same_course_def gesture_defs split: option.splits)

lemma course_hitTestLast: "same_course g (hitTestLast e g)"
  using course_hitTest by (auto simp: hitTestLast_def same_course_def split: option.splits)

lemma course_setCopy: "same_course g (setCopy e b g)"
proof -
  have "same_course g (paintCursor (g\<lparr>gs_copy := b, gs_carry := map_option (\<lambda>c. c\<lparr>ca_badge := b\<rparr>) (gs_carry g)\<rparr>))"
    by (simp add: same_course_def gesture_defs)
  from same_course_trans [OF this course_hitTestLast] show ?thesis by (simp add: setCopy_def same_course_def)
qed

text \<open>While a gesture is under way, its invariant is about what it would drop.\<close>

definition under_way :: "drag_env \<Rightarrow> gesture \<Rightarrow> bool" where
  "under_way e g \<longleftrightarrow> gs_active g \<and> \<not> gs_finished g \<and> gs_listening g \<and> gs_registered g \<and> gs_drops g = [] \<and> measured e g"

definition live_inv :: "drag_env \<Rightarrow> gesture \<Rightarrow> bool" where
  "live_inv e g \<longleftrightarrow> under_way e g \<and> (\<forall>r. gs_hit g = Some r \<longrightarrow> gs_last g \<noteq> None \<and> answers e r (gs_copy g))"

lemma live_inv_iff: "live_inv e g \<longleftrightarrow> drag_inv e g \<and> gs_active g \<and> \<not> gs_finished g"
  by (auto simp: live_inv_def drag_inv_def under_way_def)

lemma under_way_course: "under_way e g \<Longrightarrow> same_course g g' \<Longrightarrow> under_way e g'"
  by (simp add: under_way_def same_course_def measured_def)

lemma live_hitTest:
  assumes "under_way e g" "gs_last g \<noteq> None"
  shows "live_inv e (hitTest e x y g)"
proof -
  have "gs_hit (hitTest e x y g) = Some r \<Longrightarrow> answers e r (gs_copy (hitTest e x y g))" for r
    using assms(1)
    by (auto simp: hitTest_def Let_def gesture_defs answers_def under_way_def measured_def split: if_splits; blast)
  with under_way_course [OF assms(1) course_hitTest] assms(2) course_hitTest [of g e x y] show ?thesis
    by (simp add: live_inv_def same_course_def)
qed

lemma live_hitTestLast: "live_inv e g \<Longrightarrow> live_inv e (hitTestLast e g)"
  using live_hitTest [of e g] by (cases "gs_last g") (auto simp: hitTestLast_def live_inv_def)

lemma live_positionCarry: "live_inv e g \<Longrightarrow> live_inv e (positionCarry e x y g)"
  by (auto simp: live_inv_def under_way_def measured_def positionCarry_def split: option.splits)

lemma live_setCopy:
  assumes "live_inv e g"
  shows "live_inv e (setCopy e b g)"
proof (cases "gs_copy g = b")
  case True
  with assms show ?thesis by (simp add: setCopy_def)
next
  case False
  let ?g = "paintCursor (g\<lparr>gs_copy := b, gs_carry := map_option (\<lambda>c. c\<lparr>ca_badge := b\<rparr>) (gs_carry g)\<rparr>)"
  have course: "same_course g ?g" "gs_hit ?g = gs_hit g" by (simp_all add: same_course_def gesture_defs)
  have way: "under_way e ?g" using under_way_course [OF _ course(1)] assms by (simp add: live_inv_def)
  show ?thesis
  proof (cases "gs_last g")
    case None
    with assms have "gs_hit g = None" by (cases "gs_hit g") (auto simp: live_inv_def)
    with None False course way show ?thesis by (simp add: setCopy_def hitTestLast_def live_inv_def same_course_def)
  next
    case (Some xy)
    with False course live_hitTest [OF way] show ?thesis
      by (cases xy) (simp add: setCopy_def hitTestLast_def same_course_def)
  qed
qed

lemma live_frame: "live_inv e g \<Longrightarrow> live_inv e (g\<lparr>gs_frame := f\<rparr>)"
  "live_inv e g \<Longrightarrow> live_inv e (g\<lparr>gs_scrollTop := t\<rparr>)"
  "live_inv e g \<Longrightarrow> live_inv e (g\<lparr>gs_timer := b\<rparr>)"
  by (simp_all add: live_inv_def under_way_def measured_def)

lemma live_autoScroll: "live_inv e g \<Longrightarrow> live_inv e (autoScroll e y g)"
  by (auto simp: autoScroll_def intro: live_frame split: option.splits)

text \<open>A gesture that has not started holds nothing; activating it starts one.\<close>

definition pressed :: "gesture \<Rightarrow> bool" where
  "pressed g \<longleftrightarrow> \<not> gs_active g \<and> \<not> gs_finished g \<and> gs_listening g \<and> gs_registered g \<and> gs_drops g = [] \<and> tidy g \<and>
     gs_surface g = None \<and> gs_hit g = None"

lemma pressed_iff: "pressed g \<longleftrightarrow> drag_inv e g \<and> \<not> gs_active g \<and> \<not> gs_finished g"
  by (auto simp: pressed_def drag_inv_def)

lemma pressed_activate: "pressed g \<Longrightarrow> live_inv e (activate e g)"
  by (simp add: pressed_def activate_def live_inv_def under_way_def measured_def collectSurface_def gesture_defs Let_def)

lemma pressed_setCopy: "pressed g \<Longrightarrow> pressed (setCopy e b g)"
  by (auto simp: pressed_def setCopy_def hitTestLast_def hitTest_def paintCursor_def tidy_def split: option.splits prod.splits)

lemma pressed_fields: "pressed g \<Longrightarrow> pressed (g\<lparr>gs_last := l\<rparr>)" "pressed g \<Longrightarrow> pressed (g\<lparr>gs_timer := b\<rparr>)"
  "pressed g \<Longrightarrow> pressed (g\<lparr>gs_scrollTop := t\<rparr>)"
  by (simp_all add: pressed_def tidy_def)

text \<open>The three phases of a gesture cover its invariant.\<close>

definition released :: "drag_env \<Rightarrow> gesture \<Rightarrow> bool" where
  "released e g \<longleftrightarrow> drag_inv e g \<and> gs_finished g"

lemma drag_phases: "drag_inv e g \<longleftrightarrow> pressed g \<or> live_inv e g \<or> released e g"
  using pressed_iff [of g e] live_inv_iff [of e g] by (auto simp: released_def)

lemma released_cancel: "pressed g \<or> live_inv e g \<Longrightarrow> released e (cancel now g)"
  by (auto simp: released_def cancel_def cleanup_def drag_inv_def tidy_def pressed_def live_inv_def under_way_def measured_def)


section \<open>Every event keeps the invariant\<close>

lemma follow_live:
  assumes "live_inv e g" "gs_last g \<noteq> None"
  shows "live_inv e (autoScroll e y (hitTest e x y (positionCarry e x y (setCopy e alt g))))"
proof -
  let ?g = "positionCarry e x y (setCopy e alt g)"
  have "same_course g ?g" by (rule same_course_trans [OF course_setCopy course_positionCarry])
  with assms(2) have "gs_last ?g \<noteq> None" by (simp add: same_course_def)
  moreover have "under_way e ?g" using live_positionCarry [OF live_setCopy [OF assms(1)]] by (simp add: live_inv_def)
  ultimately show ?thesis by (intro live_autoScroll live_hitTest)
qed

lemma last_live: "live_inv e g \<Longrightarrow> live_inv e (g\<lparr>gs_last := Some xy\<rparr>)"
  by (auto simp: live_inv_def under_way_def measured_def)

lemma activate_last: "gs_last (activate e g) = gs_last g"
  by (simp add: activate_def gesture_defs Let_def)

lemma move_inv: "pressed g \<or> live_inv e g \<Longrightarrow> drag_inv e (onPointerMove e pid x y alt now g)"
proof (elim disjE)
  assume g: "pressed g"
  let ?g = "g\<lparr>gs_last := Some (x, y)\<rparr>"
  note p = pressed_fields(1) [OF g, of "Some (x, y)"]
  have "\<not> gs_active ?g" using g by (simp add: pressed_def)
  moreover have "live_inv e (autoScroll e y (hitTest e x y (positionCarry e x y (setCopy e alt (activate e ?g)))))"
    using follow_live [OF pressed_activate [OF p]] by (simp add: activate_last)
  moreover have "released e (cancel now ?g)" using p by (intro released_cancel) simp
  ultimately show ?thesis
    using g p by (auto simp: onPointerMove_def Let_def drag_phases)
next
  assume g: "live_inv e g"
  then have "gs_active g" by (simp add: live_inv_def under_way_def)
  with g follow_live [OF last_live [OF g], of "(x, y)" y x alt] show ?thesis
    by (auto simp: onPointerMove_def Let_def drag_phases)
qed

lemma up_inv: "pressed g \<or> live_inv e g \<Longrightarrow> drag_inv e (onPointerUp e pid now g)"
proof (elim disjE)
  assume "pressed g"
  then show ?thesis by (auto simp: onPointerUp_def cleanup_def drag_inv_def pressed_def tidy_def)
next
  assume g: "live_inv e g"
  show ?thesis
  proof (cases "pid = de_pointer e")
    case True
    with g show ?thesis
      by (auto simp: onPointerUp_def cleanup_def drag_inv_def live_inv_def under_way_def measured_def tidy_def Let_def
          split: option.splits)
  qed (use g in \<open>simp add: onPointerUp_def drag_phases\<close>)
qed

lemma timer_inv:
  assumes "pressed g \<or> live_inv e g"
  shows "drag_inv e (onTouchTimer e g)"
proof -
  have "activate e g = g" if "live_inv e g" using that by (simp add: activate_def live_inv_def under_way_def)
  with assms pressed_activate have live: "live_inv e (activate e g)" by metis
  have "live_inv e (onTouchTimer e g)"
  proof (cases "gs_last (activate e g)")
    case (Some xy)
    have "under_way e (positionCarry e (fst xy) (snd xy) (activate e g))"
      using live_positionCarry [OF live] by (simp add: live_inv_def)
    with Some live_hitTest [OF this] course_positionCarry [of "activate e g" e "fst xy" "snd xy"] show ?thesis
      by (auto simp: onTouchTimer_def same_course_def split: prod.splits)
  qed (use live in \<open>simp add: onTouchTimer_def\<close>)
  then show ?thesis by (simp add: drag_phases)
qed

lemma tick_inv: "live_inv e g \<Longrightarrow> drag_inv e (scroll_tick e d g)"
  using live_hitTestLast [OF live_frame(2)]
  by (auto simp: scroll_tick_def Let_def drag_phases intro: live_frame split: option.splits)

lemma released_still:
  assumes "released e g"
  shows "released e (drag_step e ev g) \<and> gs_drops (drag_step e ev g) = gs_drops g"
proof -
  have idle: "tidy g" "\<not> gs_listening g" "\<not> gs_registered g" "\<not> gs_timer g" using assms by (auto simp: released_def drag_inv_def)
  then have quiet: "\<not> gs_blurListening g" "\<not> gs_scrollListening g" "gs_frame g = None" by (auto simp: tidy_def)
  show ?thesis
  proof (cases ev)
    case (Scrolled t)
    with quiet assms show ?thesis by (simp add: released_def drag_inv_def tidy_def measured_def)
  next
    case (Clicked now)
    with assms show ?thesis by (simp add: suppressTrailingClick_def released_def drag_inv_def tidy_def measured_def)
  qed (use idle quiet assms in auto)
qed

lemma step_drag_inv:
  assumes "drag_inv e g"
  shows "drag_inv e (drag_step e ev g)"
proof (cases "released e g")
  case True
  with released_still [OF this, of ev] show ?thesis by (simp add: released_def)
next
  case False
  then have g: "pressed g \<or> live_inv e g" using assms by (auto simp: drag_phases)
  have ended: "drag_inv e (cancel now g)" for now using released_cancel [OF g] by (simp add: drag_phases)
  have copies: "drag_inv e (setCopy e b g)" for b using g pressed_setCopy live_setCopy by (auto simp: drag_phases)
  show ?thesis
  proof (cases ev)
    case TimerFired
    have "pressed (g\<lparr>gs_timer := False\<rparr>) \<or> live_inv e (g\<lparr>gs_timer := False\<rparr>)" using g pressed_fields(2) live_frame(3) by blast
    with TimerFired assms timer_inv show ?thesis by simp
  next
    case FrameFired
    have "gs_frame g \<noteq> None \<Longrightarrow> live_inv e g" using g by (auto simp: pressed_def tidy_def)
    with FrameFired assms tick_inv show ?thesis by (auto split: option.splits)
  next
    case (Scrolled t)
    have "drag_inv e (g\<lparr>gs_scrollTop := t\<rparr>)" using g pressed_fields(3) live_frame(2) by (auto simp: drag_phases)
    moreover have "gs_scrollListening g \<Longrightarrow> live_inv e (hitTestLast e (g\<lparr>gs_scrollTop := t\<rparr>))"
      using g live_hitTestLast [OF live_frame(2)] by (auto simp: pressed_def tidy_def)
    moreover have "gs_scrollListening g \<Longrightarrow> gs_active g" using g by (auto simp: pressed_def tidy_def live_inv_def under_way_def)
    ultimately show ?thesis using Scrolled by (cases "gs_scrollListening g") (simp_all add: onViewportScroll_def drag_phases Let_def)
  next
    case (Clicked now)
    have "drag_inv e (suppressTrailingClick now g)"
      using assms by (simp add: suppressTrailingClick_def drag_inv_def tidy_def measured_def)
    with Clicked assms show ?thesis by simp
  qed (use g assms ended copies move_inv up_inv in \<open>auto simp: onPointerCancel_def onKeyDown_def onKeyUp_def\<close>)
qed

lemma start_drag_inv: "drag_inv e (startDrag e alt scrollTop endedAt)"
  by (simp add: startDrag_def drag_inv_def tidy_def)

lemma run_drag_inv: "drag_inv e g \<Longrightarrow> drag_inv e (drag_run e evs g)"
  by (induction evs arbitrary: g) (auto simp: drag_run_def step_drag_inv)

lemma run_released: "released e g \<Longrightarrow> released e (drag_run e evs g) \<and> gs_drops (drag_run e evs g) = gs_drops g"
  by (induction evs arbitrary: g) (use released_still in \<open>fastforce simp: drag_run_def\<close>)+

section \<open>What the user can rely on\<close>


lemma announce_keeps [simp]:
  "bs_query (announceReorder p q i from st) = bs_query st" "bs_changes (announceReorder p q i from st) = bs_changes st"
  by (simp_all add: announceReorder_def setAnnouncement_def Let_def split: option.splits)

text \<open>C8: A drop the gesture reports is a drop the bar carries out.  If the query of the bar is the one the panel
  showed, its ids are distinct and the bar is neither locked nor vetoed, then a reported move makes the query the moved
  one and tells the consumer once; no reported drop is silently refused by the tree.\<close>

theorem reported_drop_applied:
  assumes "distinct_ids (de_query e)" "findFilterNode (de_query e) (de_node e) = Some f" "found_parent f \<noteq> None"
    and "d \<in> set (gs_drops (drag_run e evs (startDrag e alt scrollTop endedAt)))" "\<not> dd_copy d"
    and "bs_query st = de_query e" "\<not> locked p" "bp_before p = None"
  shows "\<exists>details. bs_query (panel_onDrop p (de_node e) d st) = moveFilterNodeTo (de_query e) (de_node e) (dd_parentId d) (dd_index d) \<and>
    bs_changes (panel_onDrop p (de_node e) d st) = bs_changes st @ [(bs_query (panel_onDrop p (de_node e) d st), details)]"
proof -
  have "drag_inv e (drag_run e evs (startDrag e alt scrollTop endedAt))" by (rule run_drag_inv [OF start_drag_inv])
  with assms(4) have "\<exists>r. answers e r (dd_copy d) \<and> dd_parentId d = bx_parentId (rs_target r) \<and> dd_index d = bx_index (rs_target r)"
    unfolding drag_inv_def by blast
  with assms(5) obtain r where r: "answers e r False" "dd_parentId d = bx_parentId (rs_target r)" "dd_index d = bx_index (rs_target r)"
    by auto
  from r(1) noop_iff_refused [OF assms(1-3)] r(2,3)
  obtain q where q: "move_to_ref (de_query e) (de_node e) (dd_parentId d) (dd_index d) = Some q"
    unfolding answers_def by fastforce
  with move_to_ref_Some [OF q] assms(5-8) show ?thesis
    by (auto simp: panel_onDrop_def moveNodeTo_def Let_def emit_def setQuery_def)
qed

definition sample_drag :: drag_env where
  "sample_drag = \<lparr>de_query = sample_query, de_layout = sample_layout, de_node = ''d'', de_pointer = 1, de_touch = False,
     de_startX = 90, de_startY = 160, de_viewport = None, de_dpr = 1\<rparr>"

definition sample_events :: "drag_event list" where
  "sample_events = [PointerMoved 1 90 158 False 1, PointerMoved 1 60 100 False 2, PointerMoved 2 0 0 False 3,
     PointerMoved 1 50 78 False 4, PointerReleased 1 5]"


theorem reported_drop_applied_witness:
  "\<exists>details. bs_query (panel_onDrop sample_props ''d'' \<lparr>dd_parentId = ''g'', dd_index = 1, dd_copy = False\<rparr> (mounted sample_query)) =
     moveFilterNodeTo sample_query ''d'' ''g'' 1 \<and>
   bs_changes (panel_onDrop sample_props ''d'' \<lparr>dd_parentId = ''g'', dd_index = 1, dd_copy = False\<rparr> (mounted sample_query)) =
     bs_changes (mounted sample_query) @
       [(bs_query (panel_onDrop sample_props ''d'' \<lparr>dd_parentId = ''g'', dd_index = 1, dd_copy = False\<rparr> (mounted sample_query)), details)]"
proof -
  have env: "de_query sample_drag = sample_query" "de_node sample_drag = ''d''" by (simp_all add: sample_drag_def)
  have found: "findFilterNode sample_query ''d'' = Some (the (findFilterNode sample_query ''d''))"
      "found_parent (the (findFilterNode sample_query ''d'')) \<noteq> None"
    by code_simp+
  have "gs_drops (drag_run sample_drag sample_events (startDrag sample_drag False 0 0)) = [\<lparr>dd_parentId = ''g'', dd_index = 1, dd_copy = False\<rparr>]"
    by code_simp
  then have d: "\<lparr>dd_parentId = ''g'', dd_index = 1, dd_copy = False\<rparr> \<in> set (gs_drops (drag_run sample_drag sample_events (startDrag sample_drag False 0 0)))"
    by simp
  have bar: "bs_query (mounted sample_query) = sample_query" "\<not> locked sample_props" "bp_before sample_props = None"
    by (simp_all add: mounted_def sample_props_def locked_def isFilterLocked_def)
  from reported_drop_applied [of sample_drag, unfolded env, OF sample_distinct found d _ bar] show ?thesis by auto
qed

end
