(* ===== verification/Filter_Panel.thy ===== *)
theory Filter_Panel
  imports Filter_Drag Filter_Bar_Run
begin

text \<open>
  The advanced builder (\<^verbatim>\<open>reui/filters/filters-advanced.tsx\<close>): the cells a row draws and which of them is the one tab stop,
  the keys that walk them, adding a row, the issues that may be shown, and where focus goes when the control that held
  it is gone.  The document is the list of the cells in document order; a popover's own keys and the cells' looks are
  not modelled.
\<close>

section \<open>Columns\<close>

type_synonym filter_column = focus_segment

definition CONTENT_COLUMNS :: "filter_column list" where
  "CONTENT_COLUMNS = [SegCombinator, SegField, SegOperator, SegValue]"

definition ACTION_COLUMNS :: "filter_column list" where
  "ACTION_COLUMNS = [SegDrag, SegMenu, SegAdd, SegRemove]"

definition at_column :: "filter_column list \<Rightarrow> int \<Rightarrow> (filter_column \<Rightarrow> 'e option) \<Rightarrow> 'e option" where
  "at_column cols i available = (if 0 \<le> i \<and> i < int (length cols) then available (cols ! nat i) else None)"

fun nearest_steps :: "filter_column list \<Rightarrow> nat \<Rightarrow> (filter_column \<Rightarrow> 'e option) \<Rightarrow> nat list \<Rightarrow> 'e option" where
  "nearest_steps cols base available [] = None"
| "nearest_steps cols base available (step # steps) =
     (case (if step = 0 then None else at_column cols (int base - int step) available) of
        Some before \<Rightarrow> Some before
      | None \<Rightarrow>
          (case at_column cols (int base + int step) available of
             Some after \<Rightarrow> Some after
           | None \<Rightarrow> nearest_steps cols base available steps))"

fun first_index :: "'a \<Rightarrow> 'a list \<Rightarrow> nat option" where
  "first_index x [] = None"
| "first_index x (y # ys) = (if x = y then Some 0 else map_option Suc (first_index x ys))"

definition nearestColumn :: "filter_column list \<Rightarrow> filter_column \<Rightarrow> (filter_column \<Rightarrow> 'e option) \<Rightarrow> 'e option" where
  "nearestColumn cols from available =
     (case first_index from cols of
        None \<Rightarrow> None
      | Some base \<Rightarrow> nearest_steps cols base available [0..<length cols])"

section \<open>What a row draws\<close>

record row_position =
  rp_index :: nat
  rp_parentId :: string
  rp_depth :: nat

definition canFilterNodeMove :: "filter_query \<Rightarrow> string \<Rightarrow> bool" where
  "canFilterNodeMove q parentId = (if parentId \<noteq> group_id q then True else length (group_rules q) > 1)"

text \<open>What the panel is rendered with.\<close>

record panel_env =
  pn_props :: bar_props
  pn_query :: filter_query
  pn_reorderable :: bool
  pn_rows :: row_store
  pn_focus :: filter_focus

definition takes_value :: "bar_props \<Rightarrow> filter_rule \<Rightarrow> bool" where
  "takes_value p r \<longleftrightarrow>
     (case getFilterField (bp_index p) (rule_path r) of
        None \<Rightarrow> rule_operator r \<noteq> [] \<and> operatorTakesValue (getFilterOperator [] (Some (rule_operator r)))
      | Some field \<Rightarrow> rule_operator r \<noteq> [] \<and>
          operatorTakesValue (getFilterOperator (resolveFilterOperators (bp_call p) (bp_catalog p) field) (Some (rule_operator r))))"

definition grip_column :: "panel_env \<Rightarrow> row_position \<Rightarrow> filter_column list" where
  "grip_column e pos = (if pn_reorderable e \<and> canFilterNodeMove (pn_query e) (rp_parentId pos) then [SegDrag] else [])"

definition combinator_column :: "row_position \<Rightarrow> filter_column list" where
  "combinator_column pos = (if filterCombinatorSlot (rp_index pos) = SlotToggle then [SegCombinator] else [])"

definition rule_columns :: "panel_env \<Rightarrow> row_position \<Rightarrow> filter_rule \<Rightarrow> filter_column list" where
  "rule_columns e pos r =
     combinator_column pos @ [SegField] @
     (if rule_id r \<in> set (rw_pending (pn_rows e)) then []
      else SegOperator # (if takes_value (pn_props e) r then [SegValue] else [])) @
     grip_column e pos @ [SegMenu]"

definition group_columns :: "panel_env \<Rightarrow> row_position \<Rightarrow> filter_column list" where
  "group_columns e pos = combinator_column pos @ [SegAdd] @ grip_column e pos @ [SegMenu]"

definition useActiveColumn :: "filter_focus \<Rightarrow> string \<Rightarrow> filter_column list \<Rightarrow> bool \<Rightarrow> filter_column option" where
  "useActiveColumn focus nodeId columns isFirstRow =
     (if focus_id focus = Some nodeId
      then (case focus_segment focus of
              Some s \<Rightarrow> if s \<in> set columns then Some s else Some (hd columns)
            | None \<Rightarrow> Some (hd columns))
      else if focus_id focus = None \<and> isFirstRow then Some (hd columns) else None)"

text \<open>A cell of the panel: its row, its column, and whether the Tab key stops on it.\<close>

record panel_cell =
  pc_row :: string
  pc_column :: filter_column
  pc_tab :: bool

definition cellProps :: "string \<Rightarrow> filter_column option \<Rightarrow> filter_column \<Rightarrow> panel_cell" where
  "cellProps i active column = \<lparr>pc_row = i, pc_column = column, pc_tab = (active = Some column)\<rparr>"

text \<open>The cells in document order.  A group's combinator comes before what it holds and its other controls after; a rule
  whose field the schema no longer has draws only the button that removes it, outside the roving scheme.\<close>

fun node_cells :: "panel_env \<Rightarrow> row_position \<Rightarrow> filter_node \<Rightarrow> panel_cell list"
and nodes_cells :: "panel_env \<Rightarrow> row_position \<Rightarrow> filter_node list \<Rightarrow> panel_cell list" where
  "node_cells e pos (RuleNode r) =
     (if getFilterField (bp_index (pn_props e)) (rule_path r) = None
      then [\<lparr>pc_row = rule_id r, pc_column = SegRemove, pc_tab = True\<rparr>]
      else let active = useActiveColumn (pn_focus e) (rule_id r) (rule_columns e pos r) (rp_depth pos = 1 \<and> rp_index pos = 0)
           in map (cellProps (rule_id r) active) (rule_columns e pos r))"
| "node_cells e pos (GroupNode (FilterGroup g c rs)) =
     (let active = useActiveColumn (pn_focus e) g (group_columns e pos) (rp_depth pos = 1 \<and> rp_index pos = 0);
          cs = map (cellProps g active) (group_columns e pos)
      in takeWhile (\<lambda>c. pc_column c = SegCombinator) cs @
         nodes_cells e \<lparr>rp_index = 0, rp_parentId = g, rp_depth = rp_depth pos + 1\<rparr> rs @
         dropWhile (\<lambda>c. pc_column c = SegCombinator) cs)"
| "nodes_cells e pos [] = []"
| "nodes_cells e pos (n # ns) = node_cells e pos n @ nodes_cells e (pos\<lparr>rp_index := rp_index pos + 1\<rparr>) ns"

definition panel_cells :: "panel_env \<Rightarrow> panel_cell list" where
  "panel_cells e = nodes_cells e \<lparr>rp_index = 0, rp_parentId = group_id (pn_query e), rp_depth = 1\<rparr> (group_rules (pn_query e))"

text \<open>The rows in document order.\<close>

definition panel_rows :: "panel_env \<Rightarrow> string list" where
  "panel_rows e = ids_of (group_rules (pn_query e))"

definition ownCells :: "panel_env \<Rightarrow> string \<Rightarrow> panel_cell list" where
  "ownCells e row = filter (\<lambda>c. pc_row c = row) (panel_cells e)"

section \<open>The keyboard\<close>

datatype key_outcome = KeyIgnored | KeyFocus panel_cell | KeyMove string int | KeyRemove string nat

record panel_key =
  ky_key :: string
  ky_alt :: bool
  ky_ctrl :: bool
  ky_rtl :: bool
  ky_editing :: bool

definition column_band :: "filter_column \<Rightarrow> filter_column list" where
  "column_band from = (if from \<in> set CONTENT_COLUMNS then CONTENT_COLUMNS else ACTION_COLUMNS)"

definition bandRows :: "panel_env \<Rightarrow> filter_column list \<Rightarrow> string list" where
  "bandRows e cols = rev (remdups (rev (map pc_row (filter (\<lambda>c. pc_column c \<in> set cols) (panel_cells e)))))"

definition focus_target :: "panel_cell option \<Rightarrow> key_outcome" where
  "focus_target t = (case t of None \<Rightarrow> KeyIgnored | Some c \<Rightarrow> KeyFocus c)"

definition nth_cell :: "panel_cell list \<Rightarrow> int \<Rightarrow> panel_cell option" where
  "nth_cell cs i = (if 0 \<le> i \<and> i < int (length cs) then Some (cs ! nat i) else None)"

definition by_column :: "panel_cell list \<Rightarrow> filter_column \<Rightarrow> panel_cell option" where
  "by_column cs column = map_of (rev (map (\<lambda>c. (pc_column c, c)) cs)) column"

definition focusRow :: "panel_env \<Rightarrow> panel_cell \<Rightarrow> int \<Rightarrow> key_outcome" where
  "focusRow e cell step =
     (let cols = column_band (pc_column cell); rows = bandRows e cols;
          target = (case first_index (pc_row cell) rows of None \<Rightarrow> -1 | Some k \<Rightarrow> int k) + step
      in if \<not> (0 \<le> target \<and> target < int (length rows)) then KeyIgnored
         else let cellsThere = ownCells e (rows ! nat target)
              in focus_target (case nearestColumn cols (pc_column cell) (by_column cellsThere) of
                                 Some c \<Rightarrow> Some c | None \<Rightarrow> nth_cell cellsThere 0))"

definition panel_onKeyDown :: "panel_env \<Rightarrow> panel_key \<Rightarrow> panel_cell \<Rightarrow> key_outcome" where
  "panel_onKeyDown e k cell =
     (let key = ky_key k; rows = panel_rows e; cells = ownCells e (pc_row cell);
          cellIndex = (case first_index cell cells of None \<Rightarrow> -1 | Some j \<Rightarrow> int j);
          rowIndex = (case first_index (pc_row cell) rows of None \<Rightarrow> 0 | Some j \<Rightarrow> j);
          forward = (if ky_rtl k then ''ArrowLeft'' else ''ArrowRight'');
          backward = (if ky_rtl k then ''ArrowRight'' else ''ArrowLeft'')
      in if pc_row cell = [] then KeyIgnored
         else if ky_alt k \<and> (key = ''ArrowUp'' \<or> key = ''ArrowDown'')
         then (if locked (pn_props e) \<or> \<not> pn_reorderable e then KeyIgnored
               else KeyMove (pc_row cell) (if key = ''ArrowDown'' then 1 else -1))
         else if key = ''ArrowDown'' then focusRow e cell 1
         else if key = ''ArrowUp'' then focusRow e cell (-1)
         else if ky_editing k then KeyIgnored
         else if key = forward then focus_target (nth_cell cells (cellIndex + 1))
         else if key = backward then focus_target (nth_cell cells (cellIndex - 1))
         else if key = ''Home'' then focus_target (nth_cell (if ky_ctrl k then ownCells e (hd rows) else cells) 0)
         else if key = ''End'' then
           (let scope = (if ky_ctrl k then ownCells e (last rows) else cells)
            in focus_target (nth_cell scope (int (length scope) - 1)))
         else if key = ''Backspace'' \<or> key = ''Delete'' then
           (if locked (pn_props e) then KeyIgnored else KeyRemove (pc_row cell) rowIndex)
         else KeyIgnored)"

text \<open>A cell that takes focus tells the focus store, the remove button of a broken row excepted.\<close>

definition onCellFocus :: "panel_cell \<Rightarrow> bar_state \<Rightarrow> bar_state" where
  "onCellFocus c st =
     (if pc_column c = SegRemove then st
      else st\<lparr>bs_focus := focus_set \<lparr>focus_id = Some (pc_row c), focus_segment = Some (pc_column c), focus_autoOpen = False\<rparr> (bs_focus st)\<rparr>)"

definition panel_env_of :: "bar_props \<Rightarrow> bool \<Rightarrow> bar_state \<Rightarrow> panel_env" where
  "panel_env_of p reorderable st =
     \<lparr>pn_props = p, pn_query = bs_query st, pn_reorderable = reorderable, pn_rows = bs_rows st, pn_focus = fs_snapshot (bs_focus st)\<rparr>"

text \<open>A key, with what follows in the next frame: after a removal, focus goes to the row that took the place.\<close>

definition after_removal :: "bar_props \<Rightarrow> bool \<Rightarrow> nat \<Rightarrow> bar_state \<Rightarrow> bar_state" where
  "after_removal p reorderable rowIndex st =
     (let e = panel_env_of p reorderable st; remaining = panel_rows e
      in if remaining = [] then st
         else case nth_cell (ownCells e (remaining ! min rowIndex (length remaining - 1))) 0 of
                None \<Rightarrow> st
              | Some c \<Rightarrow> onCellFocus c st)"

definition panel_press :: "bar_props \<Rightarrow> bool \<Rightarrow> panel_key \<Rightarrow> panel_cell \<Rightarrow> bar_state \<Rightarrow> bar_state" where
  "panel_press p reorderable k cell st =
     (case panel_onKeyDown (panel_env_of p reorderable st) k cell of
        KeyIgnored \<Rightarrow> st
      | KeyFocus c \<Rightarrow> onCellFocus c st
      | KeyMove i d \<Rightarrow> moveNode p i d st
      | KeyRemove i row \<Rightarrow> after_removal p reorderable row (removeNode p i st))"

section \<open>Adding\<close>

definition addFilterRow :: "bar_props \<Rightarrow> string option \<Rightarrow> bar_state \<Rightarrow> string option \<times> bar_state" where
  "addFilterRow p parentId st =
     (if isFilterLocked (bp_disabled p) (bp_readOnly p) then (None, st)
      else case find (\<lambda>(f, path). isFilterFieldPickable f) (fi_all (bp_index p)) of
             None \<Rightarrow> (None, st)
           | Some (f, path) \<Rightarrow>
               (let (i, st1) = nextId p st
                in (Some i, addRule p (createFilterRule i path [] JUndefined None) parentId st1)))"

definition addRow :: "bar_props \<Rightarrow> string option \<Rightarrow> bar_state \<Rightarrow> bar_state" where
  "addRow p parentId st =
     (case addFilterRow p parentId st of
        (None, st1) \<Rightarrow> st1
      | (Some i, st1) \<Rightarrow>
          if i = [] then st1
          else st1\<lparr>bs_rows := row_markPending i (bs_rows st1),
                   bs_focus := focus_set \<lparr>focus_id = Some i, focus_segment = Some SegField, focus_autoOpen = True\<rparr> (bs_focus st1)\<rparr>)"

definition addGroupRow :: "bar_props \<Rightarrow> bar_state \<Rightarrow> bar_state" where
  "addGroupRow p st =
     (let (i, st1) = addGroup p None COr st
      in if i = [] then st1
         else st1\<lparr>bs_focus := focus_set \<lparr>focus_id = Some i, focus_segment = Some SegAdd, focus_autoOpen = False\<rparr> (bs_focus st1)\<rparr>)"

section \<open>Issues and lost focus\<close>

definition visibleIssueMap :: "filter_issue list \<Rightarrow> row_store \<Rightarrow> filter_issue list" where
  "visibleIssueMap issues rows =
     filter (\<lambda>i. issue_reason i = Custom \<and> issue_node i \<in> set (rw_touched rows)) issues"

text \<open>A rise of the number of issues shown is announced, unless something else was said in between.\<close>

definition announceIssues :: "(nat \<Rightarrow> string) \<Rightarrow> nat \<times> nat \<Rightarrow> nat \<Rightarrow> bar_state \<Rightarrow> (nat \<times> nat) \<times> bar_state" where
  "announceIssues summary before shown_now st =
     (let now = (shown_now, fst (bs_announced st))
      in if fst (bs_announced st) \<noteq> snd before then (now, st)
         else if shown_now \<le> fst before then (now, st)
         else (now, announce (summary shown_now) st))"

definition issue_segment :: "issue_column \<Rightarrow> filter_column" where
  "issue_segment c = (case c of ColGroup \<Rightarrow> SegAdd | ColOperator \<Rightarrow> SegOperator | ColValue \<Rightarrow> SegValue)"

definition focusFirstIssue :: "panel_env \<Rightarrow> filter_issue list \<Rightarrow> panel_cell option" where
  "focusFirstIssue e issues =
     (case issues of
        [] \<Rightarrow> None
      | first # rest \<Rightarrow> find (\<lambda>c. pc_column c = issue_segment (issue_col first)) (ownCells e (issue_node first)))"

datatype focus_place = PlaceCell panel_cell | PlaceAddRow

definition restoreFocus :: "panel_env \<Rightarrow> bool \<Rightarrow> bool \<Rightarrow> focus_place option" where
  "restoreFocus e heldFocus bodyActive =
     (if focus_autoOpen (pn_focus e) \<or> \<not> heldFocus \<or> \<not> bodyActive then None
      else let rows = panel_rows e;
               cells = (case focus_id (pn_focus e) of
                          None \<Rightarrow> [] | Some i \<Rightarrow> if i \<noteq> [] \<and> i \<in> set rows then ownCells e i else [])
           in case find (\<lambda>c. Some (pc_column c) = focus_segment (pn_focus e)) cells of
                Some c \<Rightarrow> Some (PlaceCell c)
              | None \<Rightarrow>
                  (case nth_cell cells 0 of
                     Some c \<Rightarrow> Some (PlaceCell c)
                   | None \<Rightarrow>
                       (case (if rows = [] then None else nth_cell (ownCells e (hd rows)) 0) of
                          Some c \<Rightarrow> Some (PlaceCell c)
                        | None \<Rightarrow> Some PlaceAddRow)))"

section \<open>The nearest column\<close>

lemma first_index_nth: "distinct xs \<Longrightarrow> k < length xs \<Longrightarrow> first_index (xs ! k) xs = Some k"
  by (induction xs arbitrary: k) (auto simp: nth_Cons split: nat.split)

text \<open>How far a column is from where the walk came from, backward before forward.\<close>

definition step_rank :: "nat \<Rightarrow> nat \<Rightarrow> nat" where
  "step_rank k j = (if j < k then 2 * (k - j) else 2 * (j - k) + 1)"

lemma at_column_simps:
  "at_column cols (int k - int s) available = (if s \<le> k \<and> k - s < length cols then available (cols ! (k - s)) else None)"
  "at_column cols (int k + int s) available = (if k + s < length cols then available (cols ! (k + s)) else None)"
  by (auto simp: at_column_def nat_diff_distrib nat_add_distrib)

definition nearest_from :: "filter_column list \<Rightarrow> nat \<Rightarrow> (filter_column \<Rightarrow> 'e option) \<Rightarrow> nat \<Rightarrow> 'e option \<Rightarrow> bool" where
  "nearest_from cols k available m found \<longleftrightarrow>
     (case found of
        None \<Rightarrow> \<forall>j<length cols. available (cols ! j) \<noteq> None \<longrightarrow> step_rank k j < m
      | Some c \<Rightarrow> \<exists>j<length cols. available (cols ! j) = Some c \<and>
          (\<forall>j'<length cols. available (cols ! j') \<noteq> None \<longrightarrow> step_rank k j' < m \<or> step_rank k j \<le> step_rank k j'))"

lemma rank_back: "step_rank k j = 2 * s \<Longrightarrow> 0 < s \<and> s \<le> k \<and> j = k - s"
  by (auto simp: step_rank_def split: if_splits; presburger)

lemma rank_forth: "step_rank k j = 2 * s + 1 \<Longrightarrow> j = k + s"
  by (auto simp: step_rank_def split: if_splits; presburger)

lemma nearest_steps_found:
  assumes "k < length cols" "s \<le> length cols"
  shows "nearest_from cols k available (2 * s) (nearest_steps cols k available [s..<length cols])"
  using assms(2)
proof (induction "length cols - s" arbitrary: s)
  case 0
  then have "step_rank k j < 2 * s" if "j < length cols" for j
    using that assms(1) by (auto simp: step_rank_def)
  with 0 show ?case by (simp add: nearest_from_def)
next
  case (Suc d)
  then have upt: "[s..<length cols] = s # [Suc s..<length cols]" by (simp add: upt_conv_Cons)
  let ?behind_k = "if s = 0 then None else at_column cols (int k - int s) available"
  let ?ahead_k = "at_column cols (int k + int s) available"
  have none: "step_rank k j \<noteq> 2 * s" if "?behind_k = None" "j < length cols" "available (cols ! j) \<noteq> None" for j
    using that rank_back [of k j s] by (auto simp: at_column_simps split: if_splits)
  have none': "step_rank k j \<noteq> 2 * s + 1" if "?ahead_k = None" "j < length cols" "available (cols ! j) \<noteq> None" for j
    using that rank_forth [of k j s] by (auto simp: at_column_simps split: if_splits)
  show ?case
  proof (cases ?behind_k)
    case (Some c)
    then have "k - s < length cols" "available (cols ! (k - s)) = Some c" "step_rank k (k - s) = 2 * s"
      by (auto simp: at_column_simps step_rank_def split: if_splits)
    with Some show ?thesis by (auto simp: upt nearest_from_def intro!: exI [of _ "k - s"])
  next
    case None
    note behind = this
    show ?thesis
    proof (cases ?ahead_k)
      case (Some c)
      then have "k + s < length cols" "available (cols ! (k + s)) = Some c" "step_rank k (k + s) = 2 * s + 1"
        by (auto simp: at_column_simps step_rank_def split: if_splits)
      with Some behind none [OF behind] show ?thesis
        by (fastforce simp: upt nearest_from_def intro!: exI [of _ "k + s"])
    next
      case None
      have "nearest_from cols k available (2 * Suc s) (nearest_steps cols k available [Suc s..<length cols])"
        using Suc by (intro Suc.hyps(1)) auto
      moreover have "step_rank k j < 2 * s \<longleftrightarrow> step_rank k j < 2 * Suc s" if "j < length cols" "available (cols ! j) \<noteq> None" for j
        using none [OF behind that] none' [OF None that] by auto
      ultimately show ?thesis
        using behind None by (simp add: upt nearest_from_def split: option.splits)
    qed
  qed
qed

text \<open>Moving up or down a row lands in the nearest column the row has, in the band of columns the walk started in;
  of two equally near ones, in the earlier.  Only a row with no column of the band has none.\<close>

theorem nearest_column_exact:
  assumes "distinct cols" "k < length cols"
  shows "case nearestColumn cols (cols ! k) available of
      None \<Rightarrow> \<forall>c\<in>set cols. available c = None
    | Some c \<Rightarrow> \<exists>j<length cols. available (cols ! j) = Some c \<and>
        (\<forall>j'<length cols. available (cols ! j') \<noteq> None \<longrightarrow>
           \<bar>int j - int k\<bar> < \<bar>int j' - int k\<bar> \<or> \<bar>int j - int k\<bar> = \<bar>int j' - int k\<bar> \<and> j \<le> j')"
proof -
  have rank: "step_rank k j \<le> step_rank k j' \<longleftrightarrow> \<bar>int j - int k\<bar> < \<bar>int j' - int k\<bar> \<or> \<bar>int j - int k\<bar> = \<bar>int j' - int k\<bar> \<and> j \<le> j'" for j j'
    by (auto simp: step_rank_def)
  have "nearest_from cols k available 0 (nearestColumn cols (cols ! k) available)"
    using nearest_steps_found [OF assms(2), of 0 available] by (simp add: nearestColumn_def first_index_nth [OF assms])
  then show ?thesis
    by (auto simp: nearest_from_def rank in_set_conv_nth split: option.splits)
qed

theorem nearest_column_exact_witness:
  "distinct CONTENT_COLUMNS \<and> nearestColumn CONTENT_COLUMNS SegOperator (\<lambda>c. if c \<in> {SegField, SegValue} then Some c else None) = Some SegField \<and>
   (\<exists>j<length CONTENT_COLUMNS. (if CONTENT_COLUMNS ! j \<in> {SegField, SegValue} then Some (CONTENT_COLUMNS ! j) else None) = Some SegField)"
proof -
  have d: "distinct CONTENT_COLUMNS" "2 < length CONTENT_COLUMNS" "CONTENT_COLUMNS ! 2 = SegOperator"
    by (simp_all add: CONTENT_COLUMNS_def)
  have r: "nearestColumn CONTENT_COLUMNS SegOperator (\<lambda>c. if c \<in> {SegField, SegValue} then Some c else None) = Some SegField" by code_simp
  note near = nearest_column_exact [OF d(1,2), of "\<lambda>c. if c \<in> {SegField, SegValue} then Some c else None", unfolded d(3) r option.case]
  from near d(1) r show ?thesis by blast
qed

section \<open>One tab stop\<close>

definition tab_stops :: "panel_cell list \<Rightarrow> nat" where
  "tab_stops cs = length (filter pc_tab cs)"

lemma tab_stops_simps [simp]: "tab_stops [] = 0" "tab_stops (xs @ ys) = tab_stops xs + tab_stops ys"
  by (simp_all add: tab_stops_def)

lemma tab_stops_split: "tab_stops (takeWhile P cs) + tab_stops (dropWhile P cs) = tab_stops cs"
  by (metis tab_stops_simps(2) takeWhile_dropWhile_id)

lemma tab_stops_cells: "distinct cols \<Longrightarrow> tab_stops (map (cellProps i active) cols) = (case active of None \<Rightarrow> 0 | Some c \<Rightarrow> if c \<in> set cols then 1 else 0)"
  by (induction cols) (auto simp: tab_stops_def cellProps_def split: option.splits)

lemma columns_distinct:
  "distinct (rule_columns e pos r)" "distinct (group_columns e pos)" "rule_columns e pos r \<noteq> []" "group_columns e pos \<noteq> []"
  by (simp_all add: rule_columns_def group_columns_def combinator_column_def grip_column_def)

lemma active_in:
  "cols \<noteq> [] \<Longrightarrow> (case useActiveColumn focus i cols isFirst of None \<Rightarrow> 0 | Some c \<Rightarrow> if c \<in> set cols then 1 else (0::nat)) =
     (if focus_id focus = Some i \<or> focus_id focus = None \<and> isFirst then 1 else 0)"
  by (auto simp: useActiveColumn_def split: option.splits)

definition all_known :: "panel_env \<Rightarrow> bool" where
  "all_known e \<longleftrightarrow> (\<forall>r\<in>set (flattenFilterRules (pn_query e)). getFilterField (bp_index (pn_props e)) (rule_path r) \<noteq> None)"

lemma node_tab_stops:
  "(\<And>r. r \<in> set (flatten_walk n) \<Longrightarrow> getFilterField (bp_index (pn_props e)) (rule_path r) \<noteq> None) \<Longrightarrow> 0 < rp_depth pos \<Longrightarrow>
   tab_stops (node_cells e pos n) =
     length (filter (\<lambda>i. focus_id (pn_focus e) = Some i) (ids_node n)) +
     (if focus_id (pn_focus e) = None \<and> rp_depth pos = 1 \<and> rp_index pos = 0 then 1 else 0)"
  "(\<And>n r. n \<in> set ns \<Longrightarrow> r \<in> set (flatten_walk n) \<Longrightarrow> getFilterField (bp_index (pn_props e)) (rule_path r) \<noteq> None) \<Longrightarrow>
   0 < rp_depth pos \<Longrightarrow>
   tab_stops (nodes_cells e pos ns) =
     length (filter (\<lambda>i. focus_id (pn_focus e) = Some i) (ids_of ns)) +
     (if focus_id (pn_focus e) = None \<and> rp_depth pos = 1 \<and> rp_index pos = 0 \<and> ns \<noteq> [] then 1 else 0)"
proof (induction e pos n and e pos ns rule: node_cells_nodes_cells.induct)
  case (1 e pos r)
  then show ?case by (auto simp: Let_def tab_stops_cells columns_distinct active_in)
next
  case (2 e pos g c rs)
  let ?cs = "map (cellProps g (useActiveColumn (pn_focus e) g (group_columns e pos) (rp_depth pos = 1 \<and> rp_index pos = 0))) (group_columns e pos)"
  have "tab_stops (nodes_cells e \<lparr>rp_index = 0, rp_parentId = g, rp_depth = rp_depth pos + 1\<rparr> rs) =
      length (filter (\<lambda>i. focus_id (pn_focus e) = Some i) (ids_of rs))"
    using "2.IH" [OF refl refl] "2.prems" by auto
  then show ?case
    using tab_stops_split [of _ ?cs] by (auto simp: Let_def tab_stops_cells columns_distinct active_in)
next
  case (4 e pos n ns)
  note first = "4.IH"(1) [OF "4.prems"(1) [OF list.set_intros(1)] "4.prems"(2)]
  note rest = "4.IH"(2) [OF "4.prems"(1) [OF list.set_intros(2)]]
  from first rest "4.prems"(2) show ?case by simp
qed simp

lemma panel_tab_stops:
  assumes "all_known e" "group_rules (pn_query e) \<noteq> []"
  shows "tab_stops (panel_cells e) =
    length (filter (\<lambda>i. focus_id (pn_focus e) = Some i) (panel_rows e)) + (if focus_id (pn_focus e) = None then 1 else 0)"
proof -
  have "getFilterField (bp_index (pn_props e)) (rule_path r) \<noteq> None"
    if "n \<in> set (group_rules (pn_query e))" "r \<in> set (flatten_walk n)" for n r
    using assms(1) that by (cases "pn_query e") (auto simp: all_known_def flattenFilterRules_def)
  from node_tab_stops(2) [OF this] assms(2) show ?thesis by (simp add: panel_cells_def panel_rows_def)
qed

lemma filter_eq_one: "distinct xs \<Longrightarrow> y \<in> set xs \<Longrightarrow> length (filter ((=) y) xs) = 1"
  by (induction xs) (auto simp: filter_empty_conv)

lemma one_tab_stop_aux:
  assumes "distinct_ids (pn_query e)" "all_known e" "group_rules (pn_query e) \<noteq> []"
    and "\<And>i. focus_id (pn_focus e) = Some i \<Longrightarrow> i \<in> set (panel_rows e)"
  shows "tab_stops (panel_cells e) = 1"
proof -
  have "distinct (panel_rows e)" using assms(1) by (simp add: distinct_ids_def panel_rows_def ids_group)
  then have "length (filter (\<lambda>i. focus_id (pn_focus e) = Some i) (panel_rows e)) = (if focus_id (pn_focus e) = None then 0 else 1)"
    using assms(4) by (auto simp: filter_eq_one)
  with panel_tab_stops [OF assms(2,3)] show ?thesis by simp
qed

section \<open>Keys land on cells\<close>

lemma in_own_cells:
  "c \<in> set (takeWhile P (map (cellProps g a) cols)) \<Longrightarrow> pc_row c = g"
  "c \<in> set (dropWhile P (map (cellProps g a) cols)) \<Longrightarrow> pc_row c = g"
  by (auto simp: cellProps_def dest!: set_takeWhileD set_dropWhileD)

lemma in_node_cells:
  "c \<in> set (node_cells e pos n) \<Longrightarrow> pc_row c \<in> set (ids_node n)"
  "c \<in> set (nodes_cells e pos ns) \<Longrightarrow> pc_row c \<in> set (ids_of ns)"
  by (induction e pos n and e pos ns rule: node_cells_nodes_cells.induct)
    (auto simp: Let_def cellProps_def [of "rule_id _"] split: if_splits dest: in_own_cells)

lemma cell_row: "c \<in> set (panel_cells e) \<Longrightarrow> pc_row c \<in> set (panel_rows e)"
  using in_node_cells(2) by (simp add: panel_cells_def panel_rows_def)

lemma focus_lands:
  "nth_cell (ownCells e row) i = Some c \<Longrightarrow> c \<in> set (panel_cells e)"
  "by_column (ownCells e row) column = Some c \<Longrightarrow> c \<in> set (panel_cells e)"
  by (auto simp: nth_cell_def by_column_def ownCells_def split: if_splits dest!: map_of_SomeD)
    (metis filter_is_subset nat_less_iff nth_mem subsetD)

lemma nearest_steps_from: "nearest_steps cols k available steps = Some c \<Longrightarrow> \<exists>column. available column = Some c"
  by (induction steps) (auto simp: at_column_def split: option.splits if_splits)

lemma key_lands: "panel_onKeyDown e k cell = KeyFocus c \<Longrightarrow> c \<in> set (panel_cells e)"
proof -
  have target: "c \<in> set (panel_cells e)" if "focus_target t = KeyFocus c" "t = Some c \<Longrightarrow> c \<in> set (panel_cells e)" for t
    using that by (auto simp: focus_target_def split: option.splits)
  have near: "c \<in> set (panel_cells e)" if "nearestColumn cols column (by_column (ownCells e r)) = Some c" for cols column r
    using that nearest_steps_from focus_lands(2) by (fastforce simp: nearestColumn_def split: option.splits)
  have row: "c \<in> set (panel_cells e)" if "focusRow e cell step = KeyFocus c" for step
    using that by (auto simp: focusRow_def focus_target_def Let_def split: option.splits if_splits intro: near focus_lands(1))
  assume "panel_onKeyDown e k cell = KeyFocus c"
  then show ?thesis
    by (auto simp: panel_onKeyDown_def Let_def split: if_splits intro: row target focus_lands(1))
qed

text \<open>The builder has exactly one tab stop.  With distinct ids, rules the schema knows and a focus store that is empty or
  names a row, exactly one cell of the panel is reached by Tab, and it stays so after every key that moves focus.\<close>

theorem one_tab_stop:
  assumes "distinct_ids (bs_query st)" "all_known (panel_env_of p reorderable st)" "group_rules (bs_query st) \<noteq> []"
    and "focus_id (fs_snapshot (bs_focus st)) = None \<or> (\<exists>i\<in>set (panel_rows (panel_env_of p reorderable st)). focus_id (fs_snapshot (bs_focus st)) = Some i)"
    and "panel_onKeyDown (panel_env_of p reorderable st) k cell = KeyFocus c"
  shows "tab_stops (panel_cells (panel_env_of p reorderable st)) = 1 \<and>
    tab_stops (panel_cells (panel_env_of p reorderable (panel_press p reorderable k cell st))) = 1"
proof
  let ?e = "panel_env_of p reorderable st"
  show "tab_stops (panel_cells ?e) = 1"
    using assms by (intro one_tab_stop_aux) (auto simp: panel_env_of_def)
  let ?st = "panel_press p reorderable k cell st"
  have press: "?st = onCellFocus c st" using assms(5) by (simp add: panel_press_def)
  have same: "bs_query ?st = bs_query st" "bs_rows ?st = bs_rows st" by (simp_all add: press onCellFocus_def)
  have known: "all_known (panel_env_of p reorderable ?st)"
    using assms(2) same by (simp add: all_known_def panel_env_of_def)
  have "pc_row c \<in> set (panel_rows ?e)" using cell_row [OF key_lands [OF assms(5)]] .
  then have "i \<in> set (panel_rows (panel_env_of p reorderable ?st))" if "focus_id (fs_snapshot (bs_focus ?st)) = Some i" for i
    using that assms(4) same
    by (auto simp: press onCellFocus_def focus_set_def panel_rows_def panel_env_of_def split: if_splits)
  then show "tab_stops (panel_cells (panel_env_of p reorderable ?st)) = 1"
    using assms(1,3) known same by (intro one_tab_stop_aux) (auto simp: panel_env_of_def)
qed

definition plain_key :: "string \<Rightarrow> panel_key" where
  "plain_key key = \<lparr>ky_key = key, ky_alt = False, ky_ctrl = False, ky_rtl = False, ky_editing = False\<rparr>"

definition aged :: "string \<Rightarrow> filter_node" where
  "aged i = RuleNode \<lparr>rule_id = i, rule_path = [''age''], rule_operator = [], rule_value = JUndefined, rule_negated = None\<rparr>"

definition two_rows :: filter_query where
  "two_rows = FilterGroup ''root'' CAnd [aged ''a'', GroupNode (FilterGroup ''g'' COr [aged ''b''])]"

definition first_field :: panel_cell where
  "first_field = \<lparr>pc_row = ''a'', pc_column = SegField, pc_tab = True\<rparr>"

theorem one_tab_stop_witness:
  "panel_onKeyDown (panel_env_of sample_props True (mounted two_rows)) (plain_key ''ArrowDown'') first_field =
     KeyFocus \<lparr>pc_row = ''g'', pc_column = SegCombinator, pc_tab = False\<rparr> \<and>
   tab_stops (panel_cells (panel_env_of sample_props True (panel_press sample_props True (plain_key ''ArrowDown'') first_field (mounted two_rows)))) = 1"
proof -
  have "distinct_ids (bs_query (mounted two_rows))" by (simp add: distinct_ids_def two_rows_def aged_def mounted_def)
  moreover have "all_known (panel_env_of sample_props True (mounted two_rows))" unfolding all_known_def by code_simp
  moreover have "group_rules (bs_query (mounted two_rows)) \<noteq> []" "focus_id (fs_snapshot (bs_focus (mounted two_rows))) = None"
    by (simp_all add: two_rows_def mounted_def NO_FOCUS_def)
  moreover have k: "panel_onKeyDown (panel_env_of sample_props True (mounted two_rows)) (plain_key ''ArrowDown'') first_field =
     KeyFocus \<lparr>pc_row = ''g'', pc_column = SegCombinator, pc_tab = False\<rparr>" by code_simp
  ultimately show ?thesis using one_tab_stop by blast
qed

text \<open>Adding a row that the consumer vetoes takes the builder out of the tab order: the store then names a row that was never
  created, and no cell of the panel is a tab stop any more, also after the next render.\<close>

theorem vetoed_row_loses_tab_stop:
  "bs_query (addRow vetoing_props None (mounted two_rows)) = two_rows \<and>
   tab_stops (panel_cells (panel_env_of vetoing_props True (mounted two_rows))) = 1 \<and>
   tab_stops (panel_cells (panel_env_of vetoing_props True (afterRender None two_rows (addRow vetoing_props None (mounted two_rows))))) = 0"
proof (intro conjI)
  show "bs_query (addRow vetoing_props None (mounted two_rows)) = two_rows" by code_simp
  show "tab_stops (panel_cells (panel_env_of vetoing_props True (mounted two_rows))) = 1" by code_simp
  have "bs_query (addRow vetoing_props None (mounted two_rows)) = two_rows" "bs_internal (addRow vetoing_props None (mounted two_rows)) = two_rows"
    by code_simp+
  then have "afterRender None two_rows (addRow vetoing_props None (mounted two_rows)) = addRow vetoing_props None (mounted two_rows)"
    by (simp add: afterRender_def)
  then show "tab_stops (panel_cells (panel_env_of vetoing_props True (afterRender None two_rows (addRow vetoing_props None (mounted two_rows))))) = 0"
    by simp code_simp
qed

section \<open>A grip is drawn exactly where a drag can go somewhere\<close>

definition only_at :: "panel_element \<Rightarrow> panel_element \<Rightarrow> rect" where
  "only_at el x = (if x = el then band 0 20 else band 40 40)"

lemma only_at_contains:
  "0 \<le> y \<Longrightarrow> y \<le> 20 \<Longrightarrow> grow \<le> 6 \<Longrightarrow> 0 \<le> grow \<Longrightarrow> contains (measure_box (only_at el) m) 50 y grow \<longleftrightarrow> pm_el m = el"
  by (auto simp: contains_def measure_box_def only_at_def band_def Let_def)

lemma only_at_deepest:
  assumes "\<exists>m\<in>set ms. pm_el m = el" "0 \<le> y" "y \<le> 20" "grow \<le> 6" "0 \<le> grow"
  shows "\<exists>m\<in>set ms. pm_el m = el \<and> deepest 50 y grow None (map (measure_box (only_at el)) ms) = Some (measure_box (only_at el) m)"
proof -
  have "deepest 50 y grow None (map (measure_box (only_at el)) ms) \<noteq> None"
    using deepest_None [where x = 50 and y = y and grow = grow and cs = "map (measure_box (only_at el)) ms"] assms
    by (auto simp: only_at_contains split: option.splits)
  then obtain b where b: "deepest 50 y grow None (map (measure_box (only_at el)) ms) = Some b" by blast
  with deepest_sound [OF b] assms(2-5) show ?thesis by (auto simp: only_at_contains)
qed

lemma drawn_no_footer:
  "m \<in> set (draw_node outer p k n) \<Longrightarrow> pm_el m \<noteq> PanelFooterEl"
  "m \<in> set (draw_nodes outer p k ns) \<Longrightarrow> pm_el m \<noteq> PanelFooterEl"
  by (induction outer p k n and outer p k ns rule: draw_node_draw_nodes.induct)
    (auto simp: mark_row_def mark_zone_def split: if_splits)

lemma root_group:
  assumes "at_group q p C" "distinct_ids q" "group_id p = group_id q"
  shows "p = q"
  using assms(1)
proof (cases rule: at_group.cases)
  case (below q' C i c as bs)
  have "group_id p \<in> set (ids q')" using at_group_ids [OF below(3)] by (auto simp: ids_group)
  with assms(2,3) below(1) show ?thesis by (auto simp: distinct_ids_FilterGroup)
qed simp

text \<open>The footer of the panel, and the first row of the top level, can be hit alone.\<close>

lemma footer_hit:
  assumes "group_id q \<noteq> []"
  shows "\<exists>r. resolveFilterDrop (collect_zones q (only_at PanelFooterEl) i) (collect_rows q (only_at PanelFooterEl) i) 50 10 FILTER_ROW_SEAM_PX = Some r \<and>
    bx_parentId (rs_target r) = group_id q \<and> bx_index (rs_target r) = int (length (group_rules q))"
proof -
  let ?ms = "filter (\<lambda>m. \<not> is_row (pm_el m) \<and> i \<notin> set (pm_above m) \<and> pm_parent m \<noteq> []) (panel_marks q)"
  have "\<exists>m\<in>set ?ms. pm_el m = PanelFooterEl" using assms by (auto simp: panel_marks_def)
  from only_at_deepest [OF this, of 10 0] obtain m where
      m: "m \<in> set ?ms" "pm_el m = PanelFooterEl" "deepest 50 10 0 None (collect_zones q (only_at PanelFooterEl) i) = Some (measure_box (only_at PanelFooterEl) m)"
    unfolding collect_zones_def by auto
  have "pm_parent m = group_id q" "pm_index m = length (group_rules q)"
    using m(1,2) drawn_no_footer(2) by (auto simp: panel_marks_def split: if_splits)
  with m(3) show ?thesis by (simp add: resolveFilterDrop_def measure_box_def Let_def)
qed

lemma first_row_hit:
  assumes "group_id q \<noteq> []" "distinct_ids q" "group_rules q \<noteq> []"
  shows "\<exists>layout r. resolveFilterDrop (collect_zones q layout i) (collect_rows q layout i) 50 5 FILTER_ROW_SEAM_PX = Some r \<and>
    bx_parentId (rs_target r) = group_id q \<and> bx_index (rs_target r) = 0"
proof -
  let ?j = "node_id (group_rules q ! 0)"
  let ?ms = "filter (\<lambda>m. is_row (pm_el m) \<and> i \<notin> set (pm_above m) \<and> pm_parent m \<noteq> []) (panel_marks q)"
  have pos: "0 < length (group_rules q)" using assms(3) by simp
  have "mark_row [] (group_id q) 0 ?j \<in> set (draw_node [] (group_id q) 0 (group_rules q ! 0))"
    by (cases "group_rules q ! 0") (auto simp: in_draw_group)
  then have "mark_row [] (group_id q) 0 ?j \<in> set (panel_marks q)"
    using pos unfolding panel_marks_def by (auto simp: in_draw_nodes)
  then have "\<exists>m\<in>set ?ms. pm_el m = RowEl ?j" using assms(1) by (auto simp: mark_row_def intro!: bexI)
  from only_at_deepest [OF this, of 5 FILTER_ROW_SEAM_PX] obtain m where
      m: "m \<in> set ?ms" "pm_el m = RowEl ?j" "deepest 50 5 FILTER_ROW_SEAM_PX None (collect_rows q (only_at (RowEl ?j)) i) = Some (measure_box (only_at (RowEl ?j)) m)"
    unfolding collect_rows_def by (auto simp: FILTER_ROW_SEAM_PX_def)
  have "m \<in> set (panel_marks q)" using m(1) by simp
  from panel_placed [OF this] m(2) obtain g C where
      g: "at_group q g C" "group_id g = pm_parent m" "pm_index m < length (group_rules g)" "node_id (group_rules g ! pm_index m) = ?j"
    by (auto simp: mark_placed_def)
  from same_place [OF assms(2) here pos refl g(1,3,4)] g(2) have place: "pm_parent m = group_id q" "pm_index m = 0" by auto
  have none: "deepest 50 5 0 None (collect_zones q (only_at (RowEl ?j)) i) = None"
    using deepest_None [where x = 50 and y = 5 and grow = 0 and cs = "collect_zones q (only_at (RowEl ?j)) i"]
    by (auto simp: collect_zones_def only_at_contains split: option.splits)
  show ?thesis
    using m(3) none place m(2)
    by (intro exI [of _ "only_at (RowEl ?j)"]) (simp add: resolveFilterDrop_def measure_box_def only_at_def band_def Let_def)
qed

lemma sole_row_marks:
  assumes "group_rules q = [n]" "m \<in> set (panel_marks q)" "node_id n \<notin> set (pm_above m)"
  shows "pm_parent m = group_id q \<and> (pm_index m = 0 \<or> pm_index m = 1 \<and> \<not> is_row (pm_el m))"
proof (cases n)
  case (RuleNode r)
  with assms show ?thesis by (auto simp: panel_marks_def mark_row_def)
next
  case (GroupNode g)
  have "m = mark_row [] (group_id q) 0 (group_id g)" if "m \<in> set (draw_node [] (group_id q) 0 (GroupNode g))"
    using draw_group_cases [OF that] assms(3) draw_outer(2) [of m "[group_id g]"] GroupNode
    by (auto simp: mark_zone_def)
  with assms(1,2) GroupNode show ?thesis by (auto simp: panel_marks_def mark_row_def simp del: draw_node.simps(2))
qed



end
