(* ===== verification/File_Upload.thy ===== *)
theory File_Upload
  imports Prelude
begin

text \<open>
  The upload hook of the interface package (\<^verbatim>\<open>packages/ui/src/hooks/use-file-upload.ts\<close>): the files it holds, their object URLs,
  what it tells its consumer, and every action of it.  An action reads the files of the render it was made in
  (\<open>us_rendered\<close>) and updates the files as they are (\<open>us_files\<close>); \<open>upload_render\<close> brings the two together.  The browser's
  object URLs, the random part of an id, lower casing and the text of a number of bytes are parameters.
\<close>

section \<open>Files and options\<close>

record file_info =
  uf_name :: string
  uf_size :: nat
  uf_type :: string

text \<open>A file of the user's disk, or the description of one the server has, with its address and id.\<close>

datatype upload_source = FromDisk file_info | FromServer file_info string string

fun source_info :: "upload_source \<Rightarrow> file_info" where
  "source_info (FromDisk f) = f"
| "source_info (FromServer f url i) = f"

record file_with_preview =
  fw_file :: upload_source
  fw_id :: string
  fw_preview :: "string option"

record upload_options =
  uo_maxFiles :: "nat option"
  uo_maxSize :: "nat option"
  uo_accept :: string
  uo_multiple :: bool

record upload_host =
  uh_objectURL :: "nat \<Rightarrow> string"
  uh_uniqueId :: "file_info \<Rightarrow> nat \<Rightarrow> string"
  uh_lower :: "string \<Rightarrow> string"
  uh_formatBytes :: "nat \<Rightarrow> string"

record upload_state =
  us_files :: "file_with_preview list"
  us_isDragging :: bool
  us_errors :: "string list"
  us_rendered :: "file_with_preview list"
  us_urls :: "string list"
  us_drawn :: nat
  us_inputFilled :: bool
  us_changes :: "file_with_preview list list"
  us_added :: "file_with_preview list list"
  us_failures :: "string list list"

definition upload_init :: "(file_info \<times> string \<times> string) list \<Rightarrow> upload_state" where
  "upload_init initial =
     (let files = map (\<lambda>(f, url, i). \<lparr>fw_file = FromServer f url i, fw_id = i, fw_preview = Some url\<rparr>) initial
      in \<lparr>us_files = files, us_isDragging = False, us_errors = [], us_rendered = files, us_urls = [], us_drawn = 0,
          us_inputFilled = False, us_changes = [], us_added = [], us_failures = []\<rparr>)"

section \<open>Checks\<close>

definition too_big :: "upload_options \<Rightarrow> file_info \<Rightarrow> bool" where
  "too_big o' f = (case uo_maxSize o' of None \<Rightarrow> False | Some m \<Rightarrow> uf_size f > m)"

definition size_text :: "upload_options \<Rightarrow> upload_host \<Rightarrow> string" where
  "size_text o' h = (case uo_maxSize o' of None \<Rightarrow> [] | Some m \<Rightarrow> uh_formatBytes h m)"

definition file_extension :: "string \<Rightarrow> string" where
  "file_extension name = CHR ''.'' # last (split_on CHR ''.'' name)"

definition type_accepts :: "upload_host \<Rightarrow> file_info \<Rightarrow> string \<Rightarrow> bool" where
  "type_accepts h f ty =
     (if starts_with ty ''.'' then uh_lower h (file_extension (uf_name f)) = uh_lower h ty
      else if ends_with ty ''/*'' then starts_with (uf_type f) (hd (split_on CHR ''/'' ty) @ ''/'')
      else uf_type f = ty)"

definition validateFile :: "upload_options \<Rightarrow> upload_host \<Rightarrow> upload_source \<Rightarrow> string option" where
  "validateFile o' h s =
     (let f = source_info s
      in if too_big o' f then Some (''File \"'' @ uf_name f @ ''\" exceeds the maximum size of '' @ size_text o' h @ ''.'')
         else if uo_accept o' \<noteq> ''*'' \<and> \<not> list_ex (type_accepts h f) (map trim (split_on CHR '','' (uo_accept o')))
         then Some (''File \"'' @ uf_name f @ ''\" is not an accepted file type.'')
         else None)"

section \<open>Actions\<close>

definition is_image :: "file_info \<Rightarrow> bool" where
  "is_image f \<longleftrightarrow> starts_with (uf_type f) ''image/''"

text \<open>Revoking the object URL of a file that goes: only of a picture from the disk.\<close>

definition revoke :: "file_with_preview \<Rightarrow> string list \<Rightarrow> string list" where
  "revoke w urls =
     (case (fw_preview w, fw_file w) of
        (Some url, FromDisk f) \<Rightarrow> if url \<noteq> [] \<and> is_image f then removeAll url urls else urls
      | _ \<Rightarrow> urls)"

definition clearFiles :: "upload_state \<Rightarrow> upload_state" where
  "clearFiles st =
     st\<lparr>us_urls := fold revoke (us_files st) (us_urls st), us_inputFilled := False, us_files := [], us_errors := [],
        us_changes := us_changes st @ [[]]\<rparr>"

definition is_duplicate :: "file_with_preview list \<Rightarrow> file_info \<Rightarrow> bool" where
  "is_duplicate files f \<longleftrightarrow>
     list_ex (\<lambda>w. uf_name (source_info (fw_file w)) = uf_name f \<and> uf_size (source_info (fw_file w)) = uf_size f) files"

definition with_preview :: "upload_host \<Rightarrow> file_info \<Rightarrow> upload_state \<Rightarrow> file_with_preview \<times> upload_state" where
  "with_preview h f st =
     (let url = uh_objectURL h (us_drawn st)
      in (\<lparr>fw_file = FromDisk f, fw_id = uh_uniqueId h f (us_drawn st), fw_preview = Some url\<rparr>,
          st\<lparr>us_urls := us_urls st @ [url], us_drawn := us_drawn st + 1\<rparr>))"

text \<open>The loop over the new files; \<open>Inl\<close> is its early return at a duplicate.\<close>

fun add_loop ::
  "upload_options \<Rightarrow> upload_host \<Rightarrow> file_info list \<Rightarrow> file_with_preview list \<Rightarrow> string list \<Rightarrow> upload_state \<Rightarrow>
     upload_state + (file_with_preview list \<times> string list \<times> upload_state)" where
  "add_loop o' h [] valid errors st = Inr (valid, errors, st)"
| "add_loop o' h (f # fs) valid errors st =
     (if uo_multiple o' \<and> is_duplicate (us_rendered st) f then Inl st
      else if too_big o' f
      then add_loop o' h fs valid
             (errors @ [(if uo_multiple o' then ''Some files exceed the maximum size of '' else ''File exceeds the maximum size of '') @
                        size_text o' h @ ''.'']) st
      else case validateFile o' h (FromDisk f) of
             Some e \<Rightarrow> add_loop o' h fs valid (errors @ [e]) st
           | None \<Rightarrow> (let (w, st1) = with_preview h f st in add_loop o' h fs (valid @ [w]) errors st1))"

definition over_limit :: "upload_options \<Rightarrow> nat \<Rightarrow> bool" where
  "over_limit o' n = (case uo_maxFiles o' of None \<Rightarrow> False | Some m \<Rightarrow> uo_multiple o' \<and> n > m)"

definition addFiles :: "upload_options \<Rightarrow> upload_host \<Rightarrow> file_info list \<Rightarrow> upload_state \<Rightarrow> upload_state" where
  "addFiles o' h fs st =
     (if fs = [] then st
      else let st1 = st\<lparr>us_errors := []\<rparr>; st2 = (if uo_multiple o' then st1 else clearFiles st1)
           in if over_limit o' (length (us_rendered st2) + length fs)
              then (let errors = [''You can only upload a maximum of '' @ (case uo_maxFiles o' of None \<Rightarrow> [] | Some m \<Rightarrow> nat_to_dec m) @ '' files.'']
                    in st2\<lparr>us_failures := us_failures st2 @ [errors], us_errors := errors\<rparr>)
              else case add_loop o' h fs [] [] st2 of
                     Inl st3 \<Rightarrow> st3
                   | Inr (valid, errors, st3) \<Rightarrow>
                       (let st4 = (if valid \<noteq> []
                             then (let files = (if uo_multiple o' then us_files st3 @ valid else valid)
                                   in st3\<lparr>us_added := us_added st3 @ [valid], us_changes := us_changes st3 @ [files],
                                          us_files := files, us_errors := errors\<rparr>)
                             else if errors \<noteq> []
                             then st3\<lparr>us_failures := us_failures st3 @ [errors], us_errors := errors\<rparr>
                             else st3)
                        in st4\<lparr>us_inputFilled := False\<rparr>))"

definition removeFile :: "string \<Rightarrow> upload_state \<Rightarrow> upload_state" where
  "removeFile i st =
     (let files = filter (\<lambda>w. fw_id w \<noteq> i) (us_files st);
          urls = (case find (\<lambda>w. fw_id w = i) (us_files st) of None \<Rightarrow> us_urls st | Some w \<Rightarrow> revoke w (us_urls st))
      in st\<lparr>us_urls := urls, us_files := files, us_errors := [], us_changes := us_changes st @ [files]\<rparr>)"

definition clearErrors :: "upload_state \<Rightarrow> upload_state" where
  "clearErrors st = st\<lparr>us_errors := []\<rparr>"

definition handleDragEnter :: "upload_state \<Rightarrow> upload_state" where
  "handleDragEnter st = st\<lparr>us_isDragging := True\<rparr>"

definition handleDragLeave :: "bool \<Rightarrow> upload_state \<Rightarrow> upload_state" where
  "handleDragLeave stillInside st = (if stillInside then st else st\<lparr>us_isDragging := False\<rparr>)"

definition handleDrop :: "upload_options \<Rightarrow> upload_host \<Rightarrow> bool \<Rightarrow> file_info list \<Rightarrow> upload_state \<Rightarrow> upload_state" where
  "handleDrop o' h inputDisabled fs st =
     (let st1 = st\<lparr>us_isDragging := False\<rparr>
      in if inputDisabled then st1
         else if fs = [] then st1
         else if \<not> uo_multiple o' then addFiles o' h [hd fs] st1
         else addFiles o' h fs st1)"

definition handleFileChange :: "upload_options \<Rightarrow> upload_host \<Rightarrow> file_info list \<Rightarrow> upload_state \<Rightarrow> upload_state" where
  "handleFileChange o' h fs st = (if fs = [] then st else addFiles o' h fs (st\<lparr>us_inputFilled := True\<rparr>))"

definition upload_render :: "upload_state \<Rightarrow> upload_state" where
  "upload_render st = st\<lparr>us_rendered := us_files st\<rparr>"

datatype upload_event =
    UpDrop bool "file_info list" | UpPick "file_info list" | UpRemove string | UpClear | UpClearErrors
  | UpDragEnter | UpDragLeave bool

fun upload_step :: "upload_options \<Rightarrow> upload_host \<Rightarrow> upload_event \<Rightarrow> upload_state \<Rightarrow> upload_state" where
  "upload_step o' h (UpDrop disabled fs) st = handleDrop o' h disabled fs st"
| "upload_step o' h (UpPick fs) st = handleFileChange o' h fs st"
| "upload_step o' h (UpRemove i) st = removeFile i st"
| "upload_step o' h UpClear st = clearFiles st"
| "upload_step o' h UpClearErrors st = clearErrors st"
| "upload_step o' h UpDragEnter st = handleDragEnter st"
| "upload_step o' h (UpDragLeave inside) st = handleDragLeave inside st"

text \<open>A run in which the component renders after every event.\<close>

definition upload_run :: "upload_options \<Rightarrow> upload_host \<Rightarrow> upload_event list \<Rightarrow> upload_state \<Rightarrow> upload_state" where
  "upload_run o' h evs st = fold (\<lambda>ev st. upload_render (upload_step o' h ev st)) evs st"

section \<open>What is kept and what is refused\<close>

text \<open>Why a file is refused, if it is.\<close>

definition refusal :: "upload_options \<Rightarrow> upload_host \<Rightarrow> file_info \<Rightarrow> string option" where
  "refusal o' h f =
     (if too_big o' f
      then Some ((if uo_multiple o' then ''Some files exceed the maximum size of '' else ''File exceeds the maximum size of '') @ size_text o' h @ ''.'')
      else validateFile o' h (FromDisk f))"

lemma with_preview_keeps:
  "us_rendered (snd (with_preview h f st)) = us_rendered st" "us_files (snd (with_preview h f st)) = us_files st"
  "us_changes (snd (with_preview h f st)) = us_changes st" "fw_file (fst (with_preview h f st)) = FromDisk f"
  by (simp_all add: with_preview_def Let_def)

lemma add_loop_exact:
  assumes "uo_multiple o' \<Longrightarrow> list_all (\<lambda>f. \<not> is_duplicate (us_rendered st) f) fs"
  shows "\<exists>ws st'. add_loop o' h fs valid errors st = Inr (valid @ ws, errors @ List.map_filter (refusal o' h) fs, st') \<and>
    map fw_file ws = map FromDisk (filter (\<lambda>f. refusal o' h f = None) fs) \<and>
    us_files st' = us_files st \<and> us_changes st' = us_changes st"
  using assms
proof (induction fs arbitrary: valid errors st)
  case (Cons f fs)
  have fresh: "\<not> (uo_multiple o' \<and> is_duplicate (us_rendered st) f)" using Cons.prems by auto
  show ?case
  proof (cases "refusal o' h f")
    case (Some e)
    then have "add_loop o' h (f # fs) valid errors st = add_loop o' h fs valid (errors @ [e]) st"
      using fresh by (auto simp: refusal_def split: if_splits)
    with Cons.IH [of st valid "errors @ [e]"] Cons.prems Some show ?thesis by (auto simp: List.map_filter_def)
  next
    case None
    let ?w = "fst (with_preview h f st)" and ?st = "snd (with_preview h f st)"
    have step: "add_loop o' h (f # fs) valid errors st = add_loop o' h fs (valid @ [?w]) errors ?st"
      using fresh None by (auto simp: refusal_def split: if_splits prod.splits)
    have "uo_multiple o' \<Longrightarrow> list_all (\<lambda>f. \<not> is_duplicate (us_rendered ?st) f) fs" using Cons.prems by (auto simp: with_preview_keeps)
    from Cons.IH [OF this, of "valid @ [?w]" errors] obtain ws st' where
        "add_loop o' h fs (valid @ [?w]) errors ?st = Inr (valid @ [?w] @ ws, errors @ List.map_filter (refusal o' h) fs, st')"
        "map fw_file ws = map FromDisk (filter (\<lambda>f. refusal o' h f = None) fs)" "us_files st' = us_files st" "us_changes st' = us_changes st"
      by (auto simp: with_preview_keeps)
    with step None show ?thesis
      by (intro exI [of _ "?w # ws"] exI [of _ st']) (simp add: with_preview_keeps List.map_filter_def)
  qed
qed (simp add: List.map_filter_def)

text \<open>Adding files within the limit, none of them on the list yet, appends exactly those that pass the checks, in their
  order, and shows one message for each of the others; the consumer is told of the new list once, and not at all
  when nothing was added.\<close>

theorem add_keeps_accepted:
  assumes "uo_multiple o'" "fs \<noteq> []" "list_all (\<lambda>f. \<not> is_duplicate (us_rendered st) f) fs"
    and "\<not> over_limit o' (length (us_rendered st) + length fs)"
  shows "\<exists>ws. us_files (addFiles o' h fs st) = us_files st @ ws \<and>
    map fw_file ws = map FromDisk (filter (\<lambda>f. refusal o' h f = None) fs) \<and>
    us_errors (addFiles o' h fs st) = List.map_filter (refusal o' h) fs \<and>
    us_changes (addFiles o' h fs st) = us_changes st @ (if ws = [] then [] else [us_files st @ ws])"
proof -
  obtain ws st' where loop: "add_loop o' h fs [] [] (st\<lparr>us_errors := []\<rparr>) = Inr (ws, List.map_filter (refusal o' h) fs, st')"
      "map fw_file ws = map FromDisk (filter (\<lambda>f. refusal o' h f = None) fs)" "us_files st' = us_files st" "us_changes st' = us_changes st"
    using add_loop_exact [of o' "st\<lparr>us_errors := []\<rparr>" fs h "[]" "[]"] assms(3) by auto
  have "ws = [] \<Longrightarrow> List.map_filter (refusal o' h) fs \<noteq> []"
    using loop(2) assms(2) by (cases fs) (auto simp: List.map_filter_def filter_empty_conv split: if_splits)
  with loop assms show ?thesis by (auto simp: addFiles_def Let_def)
qed

section \<open>The limit on the number of files\<close>

lemma add_loop_bound:
  "add_loop o' h fs valid errors st = Inr (valid', errors', st') \<Longrightarrow>
     length valid' \<le> length valid + length fs \<and> us_files st' = us_files st"
  "add_loop o' h fs valid errors st = Inl st' \<Longrightarrow> us_files st' = us_files st"
  by (induction o' h fs valid errors st rule: add_loop.induct)
    (force split: if_splits option.splits prod.splits simp: with_preview_def Let_def)+

definition file_limit :: "upload_options \<Rightarrow> nat option" where
  "file_limit o' = (if uo_multiple o' then uo_maxFiles o' else Some 1)"

text \<open>The hook as it stands between two renders.\<close>

definition within_limit :: "upload_options \<Rightarrow> upload_state \<Rightarrow> bool" where
  "within_limit o' st \<longleftrightarrow> (case file_limit o' of None \<Rightarrow> True | Some m \<Rightarrow> length (us_files st) \<le> m)"

definition one_at_a_time :: "upload_options \<Rightarrow> upload_event \<Rightarrow> bool" where
  "one_at_a_time o' ev \<longleftrightarrow> uo_multiple o' \<or> (case ev of UpPick fs \<Rightarrow> length fs \<le> 1 | _ \<Rightarrow> True)"

lemma add_within:
  assumes "within_limit o' st" "us_rendered st = us_files st" "uo_multiple o' \<or> length fs \<le> 1"
  shows "within_limit o' (addFiles o' h fs st)"
proof (cases "uo_multiple o'")
  case True
  have "length (us_files (addFiles o' h fs st)) \<le> m" if "uo_maxFiles o' = Some m" for m
  proof (cases "over_limit o' (length (us_files st) + length fs) \<or> fs = []")
    case over: True
    then show ?thesis using assms(1,2) True that by (auto simp: within_limit_def file_limit_def addFiles_def Let_def)
  next
    case False
    then show ?thesis
      using assms(1,2) True that
      by (auto simp: within_limit_def file_limit_def addFiles_def over_limit_def Let_def
          split: sum.splits dest: add_loop_bound)
  qed
  with True show ?thesis by (auto simp: within_limit_def file_limit_def split: option.splits)
next
  case False
  then show ?thesis
    using assms by (auto simp: within_limit_def file_limit_def addFiles_def over_limit_def clearFiles_def Let_def
        split: sum.splits option.splits dest: add_loop_bound)
qed

lemma step_within:
  assumes "within_limit o' st" "us_rendered st = us_files st" "one_at_a_time o' ev"
  shows "within_limit o' (upload_render (upload_step o' h ev st))"
proof -
  have set: "within_limit o' (st\<lparr>us_isDragging := b\<rparr>)" "within_limit o' (st\<lparr>us_inputFilled := b\<rparr>)" for b
    using assms(1) by (simp_all add: within_limit_def split: option.splits)
  have "within_limit o' (upload_step o' h ev st)"
    using assms set add_within [of o' "st\<lparr>us_isDragging := False\<rparr>"] add_within [of o' "st\<lparr>us_inputFilled := True\<rparr>"]
    by (cases ev) (auto simp: handleDrop_def handleFileChange_def removeFile_def clearFiles_def clearErrors_def handleDragEnter_def
        handleDragLeave_def one_at_a_time_def within_limit_def [of o' "clearFiles st"] within_limit_def Let_def
        split: option.splits intro: le_trans [OF length_filter_le])
  then show ?thesis by (simp add: upload_render_def within_limit_def split: option.splits)
qed

lemma render_agrees: "us_rendered (upload_render st) = us_files (upload_render st)"
  by (simp add: upload_render_def)

text \<open>The hook never holds more files than it may.  If it starts within its limit (the given maximum, or one file in single
  mode, where a picker gives one file at a time) and renders after every event, it stays within it.\<close>

theorem files_within_limit:
  assumes "list_all (one_at_a_time o') evs" "within_limit o' (upload_init initial)"
  shows "within_limit o' (upload_run o' h evs (upload_init initial))"
proof -
  have "within_limit o' (upload_run o' h evs st)" if "within_limit o' st" "us_rendered st = us_files st" for st
    using assms(1) that
    by (induction evs arbitrary: st) (auto simp: upload_run_def step_within render_agrees)
  from this [OF assms(2)] show ?thesis by (simp add: upload_init_def Let_def)
qed

definition sample_file :: "string \<Rightarrow> nat \<Rightarrow> string \<Rightarrow> file_info" where
  "sample_file n b ty = \<lparr>uf_name = n, uf_size = b, uf_type = ty\<rparr>"

definition sample_host :: upload_host where
  "sample_host = \<lparr>uh_objectURL = (\<lambda>n. ''blob:'' @ nat_to_dec n), uh_uniqueId = (\<lambda>f n. uf_name f @ nat_to_dec n),
     uh_lower = (\<lambda>s. s), uh_formatBytes = nat_to_dec\<rparr>"

definition two_files :: upload_options where
  "two_files = \<lparr>uo_maxFiles = Some 2, uo_maxSize = Some 100, uo_accept = ''image/*, .pdf'', uo_multiple = True\<rparr>"

definition plan_pdf :: file_info where "plan_pdf = sample_file ''plan.pdf'' 10 ''application/pdf''"
definition roof_png :: file_info where "roof_png = sample_file ''roof.png'' 20 ''image/png''"
definition notes_txt :: file_info where "notes_txt = sample_file ''notes.txt'' 5 ''text/plain''"

theorem files_within_limit_witness:
  "within_limit two_files (upload_run two_files sample_host [UpDrop False [plan_pdf, roof_png], UpPick [notes_txt]] (upload_init []))"
  by (rule files_within_limit) (code_simp, code_simp)

theorem add_keeps_accepted_witness:
  "\<exists>ws. us_files (addFiles two_files sample_host [notes_txt, roof_png] (upload_init [])) = ws \<and> map fw_file ws = [FromDisk roof_png]"
proof -
  have "uo_multiple two_files" "[notes_txt, roof_png] \<noteq> []" "list_all (\<lambda>f. \<not> is_duplicate (us_rendered (upload_init [])) f) [notes_txt, roof_png]"
      "\<not> over_limit two_files (length (us_rendered (upload_init [])) + length [notes_txt, roof_png])" "us_files (upload_init []) = []"
      "filter (\<lambda>f. refusal two_files sample_host f = None) [notes_txt, roof_png] = [roof_png]"
    by code_simp+
  with add_keeps_accepted [of two_files "[notes_txt, roof_png]" "upload_init []" sample_host] show ?thesis by auto
qed

section \<open>Three ways it goes wrong\<close>

text \<open>One duplicate abandons the whole batch: the files beside it are not added either and no message says so, and a file before it
  has already been given an object URL that nothing will revoke.\<close>

theorem duplicate_abandons_batch:
  "let st = upload_run two_files sample_host [UpDrop False [plan_pdf]] (upload_init []);
       st2 = addFiles (two_files\<lparr>uo_maxFiles := None\<rparr>) sample_host [roof_png, plan_pdf] st
   in map fw_file (us_files st2) = [FromDisk plan_pdf] \<and> us_errors st2 = [] \<and> us_failures st2 = [] \<and>
      us_urls st2 = [''blob:0'', ''blob:1'']"
  by code_simp

text \<open>Two drops before the next render are both measured against the files of the last one, so together they exceed the limit.\<close>

theorem batched_adds_exceed_limit:
  "let st = addFiles two_files sample_host [plan_pdf, roof_png] (upload_init []);
       st' = addFiles two_files sample_host [sample_file ''yard.png'' 7 ''image/png''] st
   in length (us_files st') = 3 \<and> \<not> within_limit two_files st'"
  by code_simp

text \<open>Every file gets an object URL, but only a picture's is revoked when the file is removed.\<close>

theorem document_preview_leaks:
  "let st = upload_run two_files sample_host [UpDrop False [plan_pdf, roof_png], UpRemove ''plan.pdf0'', UpRemove ''roof.png1''] (upload_init [])
   in us_files st = [] \<and> us_urls st = [''blob:0'']"
  by code_simp

end
