(* ===== verification/Date_Selector.thy ===== *)
theory Date_Selector
  imports Prelude
begin

text \<open>
  The date selector of the interface package (\<^verbatim>\<open>reui/date-selector.tsx\<close>): the value it edits and its text, the hook
  \<^verbatim>\<open>useDateSelector\<close> with every handler and effect, the buttons of the period grids, and the text input of
  \<^verbatim>\<open>DateSelector\<close> with its parser.  A date is a reference with a time, since the hook compares dates by reference to see
  whether its value changed.  The functions of \<^verbatim>\<open>date-fns\<close> (formatting and parsing of a day) and the clock are parameters;
  the calendar of \<^verbatim>\<open>react-day-picker\<close> is too, which reports the day or the range it chose.
\<close>

section \<open>The value\<close>

datatype period_type = PDay | PMonth | PQuarter | PHalfYear | PYear

datatype filter_type = FIs | FBefore | FAfter | FBetween

record js_date =
  jd_ref :: nat
  jd_time :: int

record period_point =
  pp_year :: int
  pp_value :: nat

record date_value =
  dv_period :: period_type
  dv_operator :: filter_type
  dv_startDate :: "js_date option"
  dv_endDate :: "js_date option"
  dv_year :: "int option"
  dv_month :: "nat option"
  dv_quarter :: "nat option"
  dv_halfYear :: "nat option"
  dv_rangeStart :: "period_point option"
  dv_rangeEnd :: "period_point option"

text \<open>The texts that the selector composes or indexes; the labels of its tabs are left out.\<close>

record date_texts =
  dx_months :: "string list"
  dx_monthsShort :: "string list"
  dx_quarters :: "string list"
  dx_halfYears :: "string list"
  dx_weekdays :: "string list"
  dx_weekdaysShort :: "string list"
  dx_placeholder :: string

definition DEFAULT_DATE_SELECTOR_I18N :: date_texts where
  "DEFAULT_DATE_SELECTOR_I18N =
     \<lparr>dx_months = [''January'', ''February'', ''March'', ''April'', ''May'', ''June'', ''July'', ''August'', ''September'', ''October'',
        ''November'', ''December''],
      dx_monthsShort = [''Jan'', ''Feb'', ''Mar'', ''Apr'', ''May'', ''Jun'', ''Jul'', ''Aug'', ''Sep'', ''Oct'', ''Nov'', ''Dec''],
      dx_quarters = [''Q1'', ''Q2'', ''Q3'', ''Q4''], dx_halfYears = [''H1'', ''H2''],
      dx_weekdays = [''Sunday'', ''Monday'', ''Tuesday'', ''Wednesday'', ''Thursday'', ''Friday'', ''Saturday''],
      dx_weekdaysShort = [''Su'', ''Mo'', ''Tu'', ''We'', ''Th'', ''Fr'', ''Sa''],
      dx_placeholder = ''Select date...''\<rparr>"

text \<open>What the component is given from outside the repository, and its texts and formats.\<close>

record date_env =
  de_texts :: date_texts
  de_format :: "js_date \<Rightarrow> string \<Rightarrow> string"
  de_parse :: "string \<Rightarrow> string \<Rightarrow> js_date option"
  de_now :: js_date
  de_thisYear :: int
  de_dayDateFormat :: string
  de_dayDateFormats :: "string list option"
  de_inputHint :: "string option"

text \<open>The text of an integer, and of an array's entry: outside of the array it is the text of undefined.\<close>

definition int_to_dec :: "int \<Rightarrow> string" where
  "int_to_dec i = (if i < 0 then CHR ''-'' # nat_to_dec (nat (- i)) else nat_to_dec (nat i))"

definition item_text :: "string list \<Rightarrow> nat \<Rightarrow> string" where
  "item_text xs i = (if i < length xs then xs ! i else ''undefined'')"

definition period_text :: "string list \<Rightarrow> period_point \<Rightarrow> string" where
  "period_text items p = item_text items (pp_value p) @ '' '' @ int_to_dec (pp_year p)"

text \<open>The text of a value whose period has named items.\<close>

definition items_text :: "string list \<Rightarrow> date_value \<Rightarrow> nat option \<Rightarrow> string" where
  "items_text items v chosen =
     (case (dv_rangeStart v, dv_rangeEnd v) of
        (Some a, Some b) \<Rightarrow> period_text items a @ '' - '' @ period_text items b
      | _ \<Rightarrow> (case (dv_year v, chosen) of
                (Some y, Some i) \<Rightarrow> item_text items i @ '' '' @ int_to_dec y
              | _ \<Rightarrow> []))"

definition formatDateValue :: "date_env \<Rightarrow> date_value \<Rightarrow> string" where
  "formatDateValue e v =
     (let day = (\<lambda>d. de_format e d (de_dayDateFormat e))
      in case dv_period v of
           PDay \<Rightarrow> (case (dv_startDate v, dv_endDate v) of
                      (Some a, Some b) \<Rightarrow> day a @ '' - '' @ day b
                    | (Some a, None) \<Rightarrow> day a
                    | _ \<Rightarrow> [])
         | PMonth \<Rightarrow> items_text (dx_monthsShort (de_texts e)) v (dv_month v)
         | PQuarter \<Rightarrow> items_text (dx_quarters (de_texts e)) v (dv_quarter v)
         | PHalfYear \<Rightarrow> items_text (dx_halfYears (de_texts e)) v (dv_halfYear v)
         | PYear \<Rightarrow> (case (dv_rangeStart v, dv_rangeEnd v) of
                      (Some a, Some b) \<Rightarrow> int_to_dec (pp_year a) @ '' - '' @ int_to_dec (pp_year b)
                    | _ \<Rightarrow> (case dv_year v of Some y \<Rightarrow> int_to_dec y | None \<Rightarrow> [])))"

section \<open>The hook\<close>

text \<open>\<open>do_valueRef\<close> tells one object given as the value from another with the same contents.\<close>

record date_options =
  do_valueRef :: nat
  do_value :: "date_value option"
  do_defaultPeriodType :: period_type
  do_defaultFilterType :: filter_type
  do_presetMode :: "filter_type option"
  do_allowRange :: bool
  do_yearRange :: nat
  do_baseYear :: "int option"
  do_minYear :: "int option"
  do_maxYear :: "int option"
  do_periodTypes :: "period_type list option"

text \<open>The state of the hook and of the component's input.  The last four fields are what React keeps for the effects,
  the dependencies they ran with last, and what the consumer was told.\<close>

type_synonym sync_deps = "nat \<times> date_value option \<times> period_type \<times> filter_type \<times> filter_type option"

record selector_state =
  ss_periodType :: period_type
  ss_filterType :: filter_type
  ss_selectedDate :: "js_date option"
  ss_selectedEndDate :: "js_date option"
  ss_calendarMonth :: js_date
  ss_selectedYear :: "int option"
  ss_selectedMonth :: "nat option"
  ss_selectedQuarter :: "nat option"
  ss_selectedHalfYear :: "nat option"
  ss_rangeStart :: "period_point option"
  ss_rangeEnd :: "period_point option"
  ss_hoverDate :: "js_date option"
  ss_inputValue :: string
  ss_isInputFocused :: bool
  ss_synced :: "sync_deps option"
  ss_told :: "date_value option"
  ss_shown :: "(string \<times> bool) option"
  ss_reports :: "date_value list"

definition validDefaultPeriodType :: "date_options \<Rightarrow> period_type" where
  "validDefaultPeriodType o' =
     (case do_periodTypes o' of
        None \<Rightarrow> do_defaultPeriodType o'
      | Some ts \<Rightarrow> if ts = [] then do_defaultPeriodType o'
                  else if do_defaultPeriodType o' \<in> set ts then do_defaultPeriodType o'
                  else hd ts)"

definition effectiveFilterType :: "date_options \<Rightarrow> filter_type" where
  "effectiveFilterType o' =
     (case do_presetMode o' of
        Some m \<Rightarrow> m
      | None \<Rightarrow> (case do_value o' of Some v \<Rightarrow> dv_operator v | None \<Rightarrow> do_defaultFilterType o'))"

definition currentYear :: "date_env \<Rightarrow> date_options \<Rightarrow> int" where
  "currentYear e o' = (case do_baseYear o' of Some y \<Rightarrow> y | None \<Rightarrow> de_thisYear e)"

definition selector_years :: "date_env \<Rightarrow> date_options \<Rightarrow> int list" where
  "selector_years e o' =
     (case (do_minYear o', do_maxYear o') of
        (Some a, Some b) \<Rightarrow> map (\<lambda>i. a + int i) [0..<nat (b - a + 1)]
      | _ \<Rightarrow> map (\<lambda>i. currentYear e o' - int (do_yearRange o' div 2) + int i) [0..<do_yearRange o'])"

definition currentValue :: "date_options \<Rightarrow> selector_state \<Rightarrow> date_value" where
  "currentValue o' st =
     \<lparr>dv_period = ss_periodType st,
      dv_operator = (case do_presetMode o' of Some m \<Rightarrow> m | None \<Rightarrow> ss_filterType st),
      dv_startDate = ss_selectedDate st, dv_endDate = ss_selectedEndDate st, dv_year = ss_selectedYear st,
      dv_month = ss_selectedMonth st, dv_quarter = ss_selectedQuarter st, dv_halfYear = ss_selectedHalfYear st,
      dv_rangeStart = ss_rangeStart st, dv_rangeEnd = ss_rangeEnd st\<rparr>"

definition selector_init :: "date_env \<Rightarrow> date_options \<Rightarrow> selector_state" where
  "selector_init e o' =
     (let v = do_value o'; part = (\<lambda>f. case v of Some w \<Rightarrow> f w | None \<Rightarrow> None);
          st = \<lparr>ss_periodType = (case v of Some w \<Rightarrow> dv_period w | None \<Rightarrow> validDefaultPeriodType o'),
                ss_filterType = effectiveFilterType o', ss_selectedDate = part dv_startDate, ss_selectedEndDate = part dv_endDate,
                ss_calendarMonth = (case part dv_startDate of Some d \<Rightarrow> d | None \<Rightarrow> de_now e),
                ss_selectedYear = (case v of Some w \<Rightarrow> dv_year w | None \<Rightarrow> None),
                ss_selectedMonth = (case v of Some w \<Rightarrow> dv_month w | None \<Rightarrow> None),
                ss_selectedQuarter = (case v of Some w \<Rightarrow> dv_quarter w | None \<Rightarrow> None),
                ss_selectedHalfYear = (case v of Some w \<Rightarrow> dv_halfYear w | None \<Rightarrow> None),
                ss_rangeStart = (case v of Some w \<Rightarrow> dv_rangeStart w | None \<Rightarrow> None),
                ss_rangeEnd = (case v of Some w \<Rightarrow> dv_rangeEnd w | None \<Rightarrow> None),
                ss_hoverDate = None, ss_inputValue = [], ss_isInputFocused = False,
                ss_synced = None, ss_told = None, ss_shown = None, ss_reports = []\<rparr>
      in st\<lparr>ss_inputValue := formatDateValue e (currentValue o' st)\<rparr>)"

definition clearSelection :: "selector_state \<Rightarrow> selector_state" where
  "clearSelection st =
     st\<lparr>ss_selectedDate := None, ss_selectedEndDate := None, ss_selectedYear := None, ss_selectedMonth := None,
        ss_selectedQuarter := None, ss_selectedHalfYear := None, ss_rangeStart := None, ss_rangeEnd := None\<rparr>"

text \<open>Whether a click chooses one end of a range.\<close>

definition picks_range :: "date_options \<Rightarrow> selector_state \<Rightarrow> bool" where
  "picks_range o' st \<longleftrightarrow> ss_filterType st = FBetween \<and> do_allowRange o'"

definition handleDayClick :: "date_options \<Rightarrow> js_date \<Rightarrow> selector_state \<Rightarrow> selector_state" where
  "handleDayClick o' day st =
     (if picks_range o' st
      then (case (ss_selectedDate st, ss_selectedEndDate st) of
              (Some a, None) \<Rightarrow>
                if jd_time day < jd_time a then st\<lparr>ss_selectedEndDate := Some a, ss_selectedDate := Some day\<rparr>
                else st\<lparr>ss_selectedEndDate := Some day\<rparr>
            | _ \<Rightarrow> st\<lparr>ss_selectedDate := Some day, ss_selectedEndDate := None\<rparr>)
      else st\<lparr>ss_selectedDate := Some day, ss_selectedEndDate := None\<rparr>)"

definition set_item :: "nat \<Rightarrow> selector_state \<Rightarrow> selector_state" where
  "set_item i st =
     (case ss_periodType st of
        PMonth \<Rightarrow> st\<lparr>ss_selectedMonth := Some i\<rparr>
      | PQuarter \<Rightarrow> st\<lparr>ss_selectedQuarter := Some i\<rparr>
      | PHalfYear \<Rightarrow> st\<lparr>ss_selectedHalfYear := Some i\<rparr>
      | _ \<Rightarrow> st)"

definition period_key :: "period_point \<Rightarrow> int" where
  "period_key p = pp_year p * 100 + int (pp_value p)"

definition handlePeriodSelect :: "date_options \<Rightarrow> int \<Rightarrow> nat \<Rightarrow> selector_state \<Rightarrow> selector_state" where
  "handlePeriodSelect o' year i st =
     (let p = \<lparr>pp_year = year, pp_value = i\<rparr>
      in if picks_range o' st
         then (case (ss_rangeStart st, ss_rangeEnd st) of
                 (Some a, None) \<Rightarrow>
                   if period_key p < period_key a then st\<lparr>ss_rangeEnd := Some a, ss_rangeStart := Some p\<rparr>
                   else st\<lparr>ss_rangeEnd := Some p\<rparr>
               | _ \<Rightarrow> set_item i (st\<lparr>ss_rangeStart := Some p, ss_rangeEnd := None, ss_selectedYear := Some year\<rparr>))
         else (set_item i (st\<lparr>ss_selectedYear := Some year\<rparr>))\<lparr>ss_rangeStart := None, ss_rangeEnd := None\<rparr>)"

definition handleYearSelect :: "date_options \<Rightarrow> int \<Rightarrow> selector_state \<Rightarrow> selector_state" where
  "handleYearSelect o' year st =
     (let p = \<lparr>pp_year = year, pp_value = 0\<rparr>
      in if picks_range o' st
         then (case (ss_rangeStart st, ss_rangeEnd st) of
                 (Some a, None) \<Rightarrow>
                   if year < pp_year a then st\<lparr>ss_rangeEnd := Some a, ss_rangeStart := Some p\<rparr>
                   else st\<lparr>ss_rangeEnd := Some p\<rparr>
               | _ \<Rightarrow> st\<lparr>ss_rangeStart := Some p, ss_rangeEnd := None, ss_selectedYear := Some year\<rparr>)
         else st\<lparr>ss_selectedYear := Some year, ss_rangeStart := None, ss_rangeEnd := None\<rparr>)"

definition handlePeriodTypeChange :: "period_type \<Rightarrow> selector_state \<Rightarrow> selector_state" where
  "handlePeriodTypeChange ty st = clearSelection (st\<lparr>ss_periodType := ty\<rparr>)"

definition handleFilterTypeChange :: "date_options \<Rightarrow> filter_type \<Rightarrow> selector_state \<Rightarrow> selector_state" where
  "handleFilterTypeChange o' ty st =
     (if do_presetMode o' \<noteq> None then st else clearSelection (st\<lparr>ss_filterType := ty\<rparr>))"

definition isInRange :: "selector_state \<Rightarrow> int \<Rightarrow> nat \<Rightarrow> bool" where
  "isInRange st year i =
     (case (ss_rangeStart st, ss_rangeEnd st) of
        (Some a, Some b) \<Rightarrow>
          (let k = period_key \<lparr>pp_year = year, pp_value = i\<rparr> in period_key a \<le> k \<and> k \<le> period_key b)
      | _ \<Rightarrow> False)"

definition isYearInRange :: "selector_state \<Rightarrow> int \<Rightarrow> bool" where
  "isYearInRange st year =
     (case (ss_rangeStart st, ss_rangeEnd st) of
        (Some a, Some b) \<Rightarrow> pp_year a \<le> year \<and> year \<le> pp_year b
      | _ \<Rightarrow> False)"

text \<open>The effect that takes over a new value of the consumer, and the one that follows its mode.\<close>

definition sync_value :: "date_options \<Rightarrow> selector_state \<Rightarrow> selector_state" where
  "sync_value o' st =
     (case do_value o' of
        None \<Rightarrow> st
      | Some v \<Rightarrow>
          st\<lparr>ss_periodType := dv_period v,
             ss_filterType := (case do_presetMode o' of Some m \<Rightarrow> m | None \<Rightarrow> dv_operator v),
             ss_selectedDate := dv_startDate v, ss_selectedEndDate := dv_endDate v, ss_selectedYear := dv_year v,
             ss_selectedMonth := dv_month v, ss_selectedQuarter := dv_quarter v, ss_selectedHalfYear := dv_halfYear v,
             ss_rangeStart := dv_rangeStart v, ss_rangeEnd := dv_rangeEnd v\<rparr>)"

definition sync_preset :: "date_options \<Rightarrow> selector_state \<Rightarrow> selector_state" where
  "sync_preset o' st = (case do_presetMode o' of None \<Rightarrow> st | Some m \<Rightarrow> st\<lparr>ss_filterType := m\<rparr>)"

section \<open>The text input\<close>

definition dateFormats :: "date_env \<Rightarrow> string list" where
  "dateFormats e =
     (case de_dayDateFormats e of
        Some fs \<Rightarrow> if fs \<noteq> [] then (if de_dayDateFormat e \<in> set fs then fs else de_dayDateFormat e # fs)
                   else rev (remdups (rev [de_dayDateFormat e, ''dd/MM/yyyy'', ''yyyy-MM-dd'', ''MM-dd-yyyy'', ''dd-MM-yyyy'']))
      | None \<Rightarrow> rev (remdups (rev [de_dayDateFormat e, ''dd/MM/yyyy'', ''yyyy-MM-dd'', ''MM-dd-yyyy'', ''dd-MM-yyyy''])))"

text \<open>\<^verbatim>\<open>/^\d{4}$/\<close>, and \<^verbatim>\<open>/^Q([1-4])(?:\s+(\d{4}))?$/i\<close> with its two groups.\<close>

definition year_match :: "string \<Rightarrow> int option" where
  "year_match s = (if length s = 4 \<and> list_all is_digit s then Some (int (dec_value s)) else None)"

definition quarter_match :: "string \<Rightarrow> (nat \<times> int option) option" where
  "quarter_match s =
     (case s of
        q # d # rest \<Rightarrow>
          if q \<in> {CHR ''Q'', CHR ''q''} \<and> d \<in> {CHR ''1'', CHR ''2'', CHR ''3'', CHR ''4''}
          then (if rest = [] then Some (dec_value [d], None)
                else if is_ws (hd rest)
                then (case year_match (dropWhile is_ws rest) of
                        Some y \<Rightarrow> Some (dec_value [d], Some y)
                      | None \<Rightarrow> None)
                else None)
          else None
      | _ \<Rightarrow> None)"

definition no_parts :: "period_type \<Rightarrow> filter_type \<Rightarrow> date_value" where
  "no_parts ty opr =
     \<lparr>dv_period = ty, dv_operator = opr, dv_startDate = None, dv_endDate = None, dv_year = None, dv_month = None, dv_quarter = None,
      dv_halfYear = None, dv_rangeStart = None, dv_rangeEnd = None\<rparr>"

fun parse_dates :: "date_env \<Rightarrow> filter_type \<Rightarrow> string \<Rightarrow> string list \<Rightarrow> date_value option" where
  "parse_dates e opr s [] = None"
| "parse_dates e opr s (f # fs) =
     (case de_parse e s f of
        Some d \<Rightarrow> Some ((no_parts PDay opr)\<lparr>dv_startDate := Some d\<rparr>)
      | None \<Rightarrow> parse_dates e opr s fs)"

definition year_allowed :: "int \<Rightarrow> bool" where
  "year_allowed y \<longleftrightarrow> 1900 \<le> y \<and> y \<le> 2100"

definition parseInputValue :: "date_env \<Rightarrow> date_options \<Rightarrow> selector_state \<Rightarrow> string \<Rightarrow> date_value option" where
  "parseInputValue e o' st s =
     (let t = trim s; opr = (case do_presetMode o' of Some m \<Rightarrow> m | None \<Rightarrow> ss_filterType st);
          dates = parse_dates e opr t (dateFormats e);
          quarters = (case quarter_match t of
                        Some (q, y) \<Rightarrow>
                          (let year = (case y of Some n \<Rightarrow> n | None \<Rightarrow> de_thisYear e)
                           in if year_allowed year then Some ((no_parts PQuarter opr)\<lparr>dv_year := Some year, dv_quarter := Some (q - 1)\<rparr>)
                              else dates)
                      | None \<Rightarrow> dates)
      in if t = [] then None
         else case year_match t of
                Some y \<Rightarrow> if year_allowed y then Some ((no_parts PYear opr)\<lparr>dv_year := Some y\<rparr>) else quarters
              | None \<Rightarrow> quarters)"

definition displayValue :: "date_env \<Rightarrow> date_options \<Rightarrow> selector_state \<Rightarrow> string" where
  "displayValue e o' st = formatDateValue e (currentValue o' st)"

definition handleInputChange :: "date_env \<Rightarrow> date_options \<Rightarrow> string \<Rightarrow> selector_state \<Rightarrow> selector_state" where
  "handleInputChange e o' s st =
     (let st1 = st\<lparr>ss_inputValue := s\<rparr>
      in case parseInputValue e o' st s of
           Some v \<Rightarrow> st1\<lparr>ss_reports := ss_reports st1 @ [v]\<rparr>
         | None \<Rightarrow> st1)"

definition handleInputBlur :: "date_env \<Rightarrow> date_options \<Rightarrow> selector_state \<Rightarrow> selector_state" where
  "handleInputBlur e o' st =
     (let st1 = st\<lparr>ss_isInputFocused := False\<rparr>
      in if parseInputValue e o' st (ss_inputValue st) = None then st1\<lparr>ss_inputValue := displayValue e o' st\<rparr> else st1)"

section \<open>Effects\<close>

text \<open>One pass of the effects after a render: each runs when its dependencies changed, with the values of that render; what
  they set is seen by the next render.\<close>

definition selector_effects :: "date_env \<Rightarrow> date_options \<Rightarrow> selector_state \<Rightarrow> selector_state" where
  "selector_effects e o' st =
     (let cv = currentValue o' st; display = displayValue e o' st; focused = ss_isInputFocused st;
          deps = (do_valueRef o', do_value o', validDefaultPeriodType o', do_defaultFilterType o', do_presetMode o');
          st1 = (if ss_synced st \<noteq> Some deps then sync_value o' st else st);
          st2 = (if map_option (\<lambda>(_, _, _, _, m). m) (ss_synced st) \<noteq> Some (do_presetMode o') then sync_preset o' st1 else st1);
          st3 = (if ss_told st \<noteq> Some cv then st2\<lparr>ss_reports := ss_reports st2 @ [cv], ss_told := Some cv\<rparr> else st2);
          st4 = (if ss_shown st \<noteq> Some (display, focused) \<and> \<not> focused then st3\<lparr>ss_inputValue := display\<rparr> else st3)
      in st4\<lparr>ss_synced := Some deps, ss_shown := Some (display, focused)\<rparr>)"

section \<open>The views\<close>

definition selected_value :: "selector_state \<Rightarrow> nat option" where
  "selected_value st =
     (case ss_periodType st of
        PMonth \<Rightarrow> ss_selectedMonth st | PQuarter \<Rightarrow> ss_selectedQuarter st | PHalfYear \<Rightarrow> ss_selectedHalfYear st | _ \<Rightarrow> None)"

definition grid_items :: "date_env \<Rightarrow> selector_state \<Rightarrow> string list" where
  "grid_items e st =
     (case ss_periodType st of
        PMonth \<Rightarrow> dx_monthsShort (de_texts e) | PQuarter \<Rightarrow> dx_quarters (de_texts e) | PHalfYear \<Rightarrow> dx_halfYears (de_texts e) | _ \<Rightarrow> [])"

text \<open>How a button is painted: filled, tinted, or neither.\<close>

datatype button_look = Filled | Tinted | Outlined

definition button_look :: "bool \<Rightarrow> bool \<Rightarrow> button_look" where
  "button_look isEnd inRange = (if isEnd then Filled else if inRange then Tinted else Outlined)"

definition is_point :: "period_point option \<Rightarrow> int \<Rightarrow> nat \<Rightarrow> bool" where
  "is_point p year i = (case p of Some a \<Rightarrow> pp_year a = year \<and> pp_value a = i | None \<Rightarrow> False)"

definition period_button :: "selector_state \<Rightarrow> int \<Rightarrow> nat \<Rightarrow> button_look" where
  "period_button st year i =
     button_look
       (ss_selectedYear st = Some year \<and> selected_value st = Some i \<or> is_point (ss_rangeStart st) year i \<or> is_point (ss_rangeEnd st) year i)
       (isInRange st year i)"

definition DateSelectorPeriodGrid :: "date_env \<Rightarrow> date_options \<Rightarrow> selector_state \<Rightarrow> (int \<times> (string \<times> button_look) list) list" where
  "DateSelectorPeriodGrid e o' st =
     map (\<lambda>year. (year, map (\<lambda>i. (grid_items e st ! i, period_button st year i)) [0..<length (grid_items e st)])) (selector_years e o')"

definition year_button :: "selector_state \<Rightarrow> int \<Rightarrow> button_look" where
  "year_button st year =
     button_look
       (ss_selectedYear st = Some year \<and> ss_rangeStart st = None \<and> ss_rangeEnd st = None \<or>
        map_option pp_year (ss_rangeStart st) = Some year \<or> map_option pp_year (ss_rangeEnd st) = Some year)
       (isYearInRange st year)"

definition DateSelectorYearList :: "date_env \<Rightarrow> date_options \<Rightarrow> selector_state \<Rightarrow> (int \<times> button_look) list" where
  "DateSelectorYearList e o' st = map (\<lambda>year. (year, year_button st year)) (selector_years e o')"

text \<open>The captions of the calendar, and the placeholder of the input.\<close>

definition formatWeekdayName :: "date_texts \<Rightarrow> nat \<Rightarrow> string" where
  "formatWeekdayName x dayIndex =
     (if dayIndex < length (dx_weekdaysShort x) \<and> dx_weekdaysShort x ! dayIndex \<noteq> [] then dx_weekdaysShort x ! dayIndex
      else if dayIndex < length (dx_weekdays x) then dx_weekdays x ! dayIndex else [])"

definition formatMonthCaption :: "date_texts \<Rightarrow> nat \<Rightarrow> int \<Rightarrow> string" where
  "formatMonthCaption x monthIndex year = item_text (dx_months x) monthIndex @ '' '' @ int_to_dec year"

definition has_hint :: "date_env \<Rightarrow> bool" where
  "has_hint e = (case de_inputHint e of Some h \<Rightarrow> h \<noteq> [] | None \<Rightarrow> False)"

definition input_placeholder :: "date_env \<Rightarrow> selector_state \<Rightarrow> string" where
  "input_placeholder e st =
     (case de_inputHint e of
        Some h \<Rightarrow> if ss_isInputFocused st \<and> h \<noteq> [] then h else dx_placeholder (de_texts e)
      | None \<Rightarrow> dx_placeholder (de_texts e))"

text \<open>What the calendar reports: nothing, a day, or a range that may be open.\<close>

datatype day_choice = NoDay | OneDay js_date | DayRange "js_date option" "js_date option"

definition handleSelect :: "date_options \<Rightarrow> day_choice \<Rightarrow> selector_state \<Rightarrow> selector_state" where
  "handleSelect o' choice st =
     (case choice of
        NoDay \<Rightarrow> st
      | DayRange from to \<Rightarrow>
          if picks_range o' st
          then (case (from, to) of
                  (Some a, None) \<Rightarrow> handleDayClick o' a st
                | (Some a, Some b) \<Rightarrow> handleDayClick o' b st
                | _ \<Rightarrow> st)
          else st
      | OneDay d \<Rightarrow> if picks_range o' st then st else handleDayClick o' d st)"

definition period_tabs :: "date_options \<Rightarrow> period_type list" where
  "period_tabs o' =
     (case do_periodTypes o' of
        None \<Rightarrow> [PDay, PMonth, PQuarter, PHalfYear, PYear]
      | Some ts \<Rightarrow> filter (\<lambda>t. t \<in> set ts) [PDay, PMonth, PQuarter, PHalfYear, PYear])"

definition filter_tabs :: "date_options \<Rightarrow> filter_type list" where
  "filter_tabs o' =
     (if do_presetMode o' \<noteq> None then [] else [FIs, FBefore, FAfter] @ (if do_allowRange o' then [FBetween] else []))"

text \<open>The component passes its options on, with years of its own where none are given.\<close>

definition with_defaults :: "date_options \<Rightarrow> date_options" where
  "with_defaults o' =
     o'\<lparr>do_minYear := Some (case do_minYear o' of Some y \<Rightarrow> y | None \<Rightarrow> 2015),
        do_maxYear := Some (case do_maxYear o' of Some y \<Rightarrow> y | None \<Rightarrow> 2026)\<rparr>"

text \<open>What a user can do with the component as it is rendered.\<close>

datatype date_event =
    DayChosen day_choice | DayHovered "js_date option" | MonthShown js_date
  | ItemPressed int nat | YearPressed int | PeriodTab period_type | FilterTab filter_type
  | ClearPressed | InputFocused | InputTyped string | InputBlurred

fun offered :: "date_env \<Rightarrow> date_options \<Rightarrow> selector_state \<Rightarrow> date_event \<Rightarrow> bool" where
  "offered e o' st (DayChosen c) \<longleftrightarrow> ss_periodType st = PDay"
| "offered e o' st (DayHovered d) \<longleftrightarrow> ss_periodType st = PDay \<and> picks_range o' st"
| "offered e o' st (MonthShown d) \<longleftrightarrow> ss_periodType st = PDay"
| "offered e o' st (ItemPressed y i) \<longleftrightarrow> y \<in> set (selector_years e o') \<and> i < length (grid_items e st)"
| "offered e o' st (YearPressed y) \<longleftrightarrow> ss_periodType st = PYear \<and> y \<in> set (selector_years e o')"
| "offered e o' st (PeriodTab t) \<longleftrightarrow> t \<in> set (period_tabs o')"
| "offered e o' st (FilterTab t) \<longleftrightarrow> t \<in> set (filter_tabs o')"
| "offered e o' st ClearPressed \<longleftrightarrow> (if has_hint e then ss_inputValue st else displayValue e o' st) \<noteq> []"
| "offered e o' st InputFocused \<longleftrightarrow> True"
| "offered e o' st (InputTyped s) \<longleftrightarrow> has_hint e \<and> ss_isInputFocused st"
| "offered e o' st InputBlurred \<longleftrightarrow> ss_isInputFocused st"

fun selector_step :: "date_env \<Rightarrow> date_options \<Rightarrow> date_event \<Rightarrow> selector_state \<Rightarrow> selector_state" where
  "selector_step e o' (DayChosen c) st = handleSelect o' c st"
| "selector_step e o' (DayHovered d) st = st\<lparr>ss_hoverDate := d\<rparr>"
| "selector_step e o' (MonthShown d) st = st\<lparr>ss_calendarMonth := d\<rparr>"
| "selector_step e o' (ItemPressed y i) st = handlePeriodSelect o' y i st"
| "selector_step e o' (YearPressed y) st = handleYearSelect o' y st"
| "selector_step e o' (PeriodTab t) st = handlePeriodTypeChange t st"
| "selector_step e o' (FilterTab t) st = handleFilterTypeChange o' t st"
| "selector_step e o' ClearPressed st = clearSelection st"
| "selector_step e o' InputFocused st = st\<lparr>ss_isInputFocused := True\<rparr>"
| "selector_step e o' (InputTyped s) st = handleInputChange e o' s st"
| "selector_step e o' InputBlurred st = handleInputBlur e o' st"


end
