(* ===== verification/Date_Selector_Props.thy ===== *)
theory Date_Selector_Props
  imports Date_Selector
begin

text \<open>
  What holds in every run of the date selector: the ranges it holds and reports are in order, the buttons it paints are
  the periods its value covers, its effects come to rest and a value given back to it changes nothing, and the
  text of a year or of a quarter is read back as the value it was written from.
\<close>

section \<open>Values in order\<close>

text \<open>The order of two points of a period: by year, and within a year by item.\<close>

definition point_le :: "period_type \<Rightarrow> period_point \<Rightarrow> period_point \<Rightarrow> bool" where
  "point_le ty a b \<longleftrightarrow> pp_year a < pp_year b \<or> pp_year a = pp_year b \<and> (ty = PYear \<or> pp_value a \<le> pp_value b)"

definition chosen_item :: "date_value \<Rightarrow> nat option" where
  "chosen_item v = (case dv_period v of PMonth \<Rightarrow> dv_month v | PQuarter \<Rightarrow> dv_quarter v | PHalfYear \<Rightarrow> dv_halfYear v | _ \<Rightarrow> None)"

definition has_items :: "period_type \<Rightarrow> bool" where
  "has_items ty \<longleftrightarrow> ty \<in> {PMonth, PQuarter, PHalfYear}"

text \<open>The point that the single selection names is an end of the range, when there is a range.\<close>

definition marks_end :: "period_type \<Rightarrow> int option \<Rightarrow> nat option \<Rightarrow> period_point \<Rightarrow> bool" where
  "marks_end ty year item p \<longleftrightarrow> year = Some (pp_year p) \<and> (has_items ty \<longrightarrow> item = Some (pp_value p))"

fun days_ok :: "js_date option \<Rightarrow> js_date option \<Rightarrow> bool" where
  "days_ok (Some a) (Some b) \<longleftrightarrow> jd_time a \<le> jd_time b"
| "days_ok None (Some b) \<longleftrightarrow> False"
| "days_ok a None \<longleftrightarrow> True"

fun range_ok :: "period_type \<Rightarrow> int option \<Rightarrow> nat option \<Rightarrow> period_point option \<Rightarrow> period_point option \<Rightarrow> bool" where
  "range_ok ty year item (Some a) (Some b) \<longleftrightarrow>
     point_le ty a b \<and> pp_value a < 100 \<and> pp_value b < 100 \<and> (marks_end ty year item a \<or> marks_end ty year item b)"
| "range_ok ty year item (Some a) None \<longleftrightarrow> pp_value a < 100 \<and> marks_end ty year item a"
| "range_ok ty year item None (Some b) \<longleftrightarrow> False"
| "range_ok ty year item None None \<longleftrightarrow> True"

definition value_ok :: "date_value \<Rightarrow> bool" where
  "value_ok v \<longleftrightarrow>
     days_ok (dv_startDate v) (dv_endDate v) \<and>
     range_ok (dv_period v) (dv_year v) (chosen_item v) (dv_rangeStart v) (dv_rangeEnd v)"

definition given_ok :: "date_options \<Rightarrow> bool" where
  "given_ok o' = (case do_value o' of Some v \<Rightarrow> value_ok v | None \<Rightarrow> True)"

definition texts_fit :: "date_env \<Rightarrow> bool" where
  "texts_fit e \<longleftrightarrow>
     list_all (\<lambda>xs. length xs \<le> 100) [dx_monthsShort (de_texts e), dx_quarters (de_texts e), dx_halfYears (de_texts e)]"

section \<open>Runs\<close>

text \<open>The component is mounted, effects run, the user acts on what is offered, and the consumer passes other options.\<close>

inductive date_reach :: "date_env \<Rightarrow> date_options \<Rightarrow> selector_state \<Rightarrow> bool" for e where
  mount: "given_ok o' \<Longrightarrow> date_reach e o' (selector_init e o')"
| pass: "date_reach e o' st \<Longrightarrow> date_reach e o' (selector_effects e o' st)"
| act: "date_reach e o' st \<Longrightarrow> offered e o' st ev \<Longrightarrow> date_reach e o' (selector_step e o' ev st)"
| given: "date_reach e o' st \<Longrightarrow> given_ok o'' \<Longrightarrow> date_reach e o'' st"

text \<open>The parts of the state that its value is made of, whatever the mode.\<close>

definition state_ok :: "selector_state \<Rightarrow> bool" where
  "state_ok st \<longleftrightarrow>
     days_ok (ss_selectedDate st) (ss_selectedEndDate st) \<and>
     range_ok (ss_periodType st) (ss_selectedYear st) (selected_value st) (ss_rangeStart st) (ss_rangeEnd st)"

lemma chosen_current: "chosen_item (currentValue o' st) = selected_value st"
  by (simp add: chosen_item_def selected_value_def currentValue_def split: period_type.split)

lemma current_parts:
  "dv_period (currentValue o' st) = ss_periodType st" "dv_year (currentValue o' st) = ss_selectedYear st"
  "dv_rangeStart (currentValue o' st) = ss_rangeStart st" "dv_rangeEnd (currentValue o' st) = ss_rangeEnd st"
  "dv_startDate (currentValue o' st) = ss_selectedDate st" "dv_endDate (currentValue o' st) = ss_selectedEndDate st"
  by (simp_all add: currentValue_def)

lemma state_value_ok: "value_ok (currentValue o' st) = state_ok st"
  by (simp add: state_ok_def value_ok_def chosen_current current_parts)

lemma state_ok_clear: "state_ok (clearSelection st)"
  by (simp add: state_ok_def clearSelection_def)

lemma sync_selected: "do_value o' = Some v \<Longrightarrow> selected_value (sync_value o' st) = chosen_item v"
  by (simp add: selected_value_def chosen_item_def sync_value_def split: period_type.split)

lemma state_ok_sync:
  assumes "given_ok o'" "state_ok st"
  shows "state_ok (sync_value o' st)"
proof (cases "do_value o'")
  case (Some v)
  with assms show ?thesis
    by (simp add: state_ok_def given_ok_def value_ok_def sync_selected) (simp add: sync_value_def)
qed (use assms in \<open>simp add: sync_value_def\<close>)

lemma selected_value_cong:
  "selected_value (st\<lparr>ss_selectedDate := a\<rparr>) = selected_value st"
  "selected_value (st\<lparr>ss_selectedEndDate := a\<rparr>) = selected_value st"
  "selected_value (st\<lparr>ss_selectedYear := y\<rparr>) = selected_value st"
  "selected_value (st\<lparr>ss_rangeStart := p\<rparr>) = selected_value st"
  "selected_value (st\<lparr>ss_rangeEnd := p\<rparr>) = selected_value st"
  "selected_value (st\<lparr>ss_filterType := m\<rparr>) = selected_value st"
  "selected_value (st\<lparr>ss_reports := r\<rparr>) = selected_value st"
  "selected_value (st\<lparr>ss_told := c\<rparr>) = selected_value st"
  "selected_value (st\<lparr>ss_inputValue := t\<rparr>) = selected_value st"
  "selected_value (st\<lparr>ss_synced := d\<rparr>) = selected_value st"
  "selected_value (st\<lparr>ss_shown := u\<rparr>) = selected_value st"
  "selected_value (st\<lparr>ss_hoverDate := a\<rparr>) = selected_value st"
  "selected_value (st\<lparr>ss_calendarMonth := w\<rparr>) = selected_value st"
  "selected_value (st\<lparr>ss_isInputFocused := b\<rparr>) = selected_value st"
  by (simp_all add: selected_value_def split: period_type.split)

lemma set_item_simps:
  "ss_selectedDate (set_item i st) = ss_selectedDate st" "ss_selectedEndDate (set_item i st) = ss_selectedEndDate st"
  "ss_periodType (set_item i st) = ss_periodType st" "ss_selectedYear (set_item i st) = ss_selectedYear st"
  "ss_rangeStart (set_item i st) = ss_rangeStart st" "ss_rangeEnd (set_item i st) = ss_rangeEnd st"
  "ss_reports (set_item i st) = ss_reports st"
  "has_items (ss_periodType st) \<Longrightarrow> selected_value (set_item i st) = Some i"
  by (auto simp: set_item_def selected_value_def has_items_def split: period_type.splits)

lemma state_ok_day:
  assumes "state_ok st"
  shows "state_ok (handleDayClick o' d st)"
  using assms unfolding state_ok_def handleDayClick_def
  by (cases "ss_selectedDate st"; cases "ss_selectedEndDate st") (auto simp: selected_value_cong)

lemma key_less:
  assumes "pp_value a < 100" "pp_value b < 100"
  shows "period_key a \<le> period_key b \<longleftrightarrow> pp_year a < pp_year b \<or> pp_year a = pp_year b \<and> pp_value a \<le> pp_value b"
  using assms unfolding period_key_def by linarith

lemma state_ok_item:
  assumes "state_ok st" "i < 100" "has_items (ss_periodType st)"
  shows "state_ok (handlePeriodSelect o' y i st)"
proof -
  let ?p = "\<lparr>pp_year = y, pp_value = i\<rparr>"
  have key: "period_key ?p < period_key a \<longleftrightarrow> \<not> point_le (ss_periodType st) a ?p"
    if "pp_value a < 100" for a
    using key_less [of a ?p] that assms(2,3) by (auto simp: point_le_def has_items_def)
  have down: "point_le (ss_periodType st) ?p a" if "\<not> point_le (ss_periodType st) a ?p" for a
    using that assms(3) by (auto simp: point_le_def has_items_def)
  show ?thesis
    using assms key down
    by (cases "ss_rangeStart st"; cases "ss_rangeEnd st")
      (auto simp: state_ok_def handlePeriodSelect_def Let_def marks_end_def selected_value_cong set_item_simps)
qed

lemma state_ok_year:
  assumes "state_ok st" "ss_periodType st = PYear"
  shows "state_ok (handleYearSelect o' y st)"
  using assms
  by (cases "ss_rangeStart st"; cases "ss_rangeEnd st")
    (auto simp: state_ok_def handleYearSelect_def Let_def marks_end_def has_items_def point_le_def selected_value_cong)

lemma state_ok_passive:
  "state_ok (st\<lparr>ss_filterType := m\<rparr>) = state_ok st" "state_ok (st\<lparr>ss_reports := r\<rparr>) = state_ok st"
  "state_ok (st\<lparr>ss_told := c\<rparr>) = state_ok st" "state_ok (st\<lparr>ss_inputValue := t\<rparr>) = state_ok st"
  "state_ok (st\<lparr>ss_synced := d\<rparr>) = state_ok st" "state_ok (st\<lparr>ss_shown := u\<rparr>) = state_ok st"
  "state_ok (st\<lparr>ss_hoverDate := a\<rparr>) = state_ok st" "state_ok (st\<lparr>ss_calendarMonth := w\<rparr>) = state_ok st"
  "state_ok (st\<lparr>ss_isInputFocused := b\<rparr>) = state_ok st"
  by (simp_all add: state_ok_def selected_value_cong)

text \<open>What was told is in order as well: the values typed have no range, the others are the state's.\<close>

definition heard_ok :: "selector_state \<Rightarrow> bool" where
  "heard_ok st \<longleftrightarrow> list_all value_ok (ss_reports st)"

lemma parsed_ok:
  assumes "parseInputValue e o' st s = Some v"
  shows "value_ok v"
proof -
  have dates: "value_ok w" if "parse_dates e opr t fs = Some w" for w opr t fs
    using that by (induction fs) (auto simp: no_parts_def value_ok_def split: option.splits)
  show ?thesis
    using assms dates by (auto simp: parseInputValue_def no_parts_def value_ok_def Let_def split: if_splits option.splits)
qed

lemma reports_of_handlers:
  "ss_reports (clearSelection st) = ss_reports st" "ss_reports (handleDayClick o' d st) = ss_reports st"
  "ss_reports (handlePeriodSelect o' y i st) = ss_reports st" "ss_reports (handleYearSelect o' y st) = ss_reports st"
  "ss_reports (sync_value o' st) = ss_reports st" "ss_reports (sync_preset o' st) = ss_reports st"
  "ss_reports (handleSelect o' ch st) = ss_reports st"
  by (auto simp: clearSelection_def handleDayClick_def handlePeriodSelect_def handleYearSelect_def sync_value_def sync_preset_def
      handleSelect_def set_item_simps Let_def split: option.splits day_choice.splits)

lemma ok_init: "given_ok o' \<Longrightarrow> state_ok (selector_init e o') \<and> heard_ok (selector_init e o')"
  by (cases "do_value o'")
    (auto simp: selector_init_def heard_ok_def state_ok_passive Let_def state_ok_def given_ok_def value_ok_def selected_value_def chosen_item_def
      split: period_type.splits)

lemma ok_effects:
  assumes "given_ok o'" "state_ok st" "heard_ok st"
  shows "state_ok (selector_effects e o' st) \<and> heard_ok (selector_effects e o' st)"
proof -
  have "state_ok (sync_preset o' s) = state_ok s" for s
    by (simp add: sync_preset_def state_ok_passive split: option.splits)
  then have "state_ok (selector_effects e o' st)"
    using assms(2) state_ok_sync [OF assms(1,2)] by (simp add: selector_effects_def Let_def state_ok_passive)
  moreover have "heard_ok (selector_effects e o' st)"
    using assms(2,3) by (simp add: selector_effects_def heard_ok_def Let_def reports_of_handlers state_value_ok)
  ultimately show ?thesis ..
qed

lemma items_bound: "texts_fit e \<Longrightarrow> i < length (grid_items e st) \<Longrightarrow> i < 100 \<and> has_items (ss_periodType st)"
  by (auto simp: texts_fit_def grid_items_def has_items_def split: period_type.splits)

lemma ok_step:
  assumes "texts_fit e" "state_ok st" "heard_ok st" "offered e o' st ev"
  shows "state_ok (selector_step e o' ev st) \<and> heard_ok (selector_step e o' ev st)"
proof -
  have "state_ok (selector_step e o' ev st)"
    using assms items_bound [OF assms(1), of _ st]
    by (cases ev)
      (auto simp: state_ok_passive state_ok_clear state_ok_item state_ok_year state_ok_day handleSelect_def handlePeriodTypeChange_def
        handleFilterTypeChange_def handleInputChange_def handleInputBlur_def Let_def split: day_choice.splits option.splits)
  moreover have "heard_ok (selector_step e o' ev st)"
    using assms(3)
    by (cases ev)
      (auto simp: heard_ok_def reports_of_handlers handlePeriodTypeChange_def handleFilterTypeChange_def handleInputChange_def
        handleInputBlur_def Let_def parsed_ok split: option.splits)
  ultimately show ?thesis ..
qed

lemma reach_ok:
  assumes "date_reach e o' st" "texts_fit e"
  shows "given_ok o' \<and> state_ok st \<and> heard_ok st"
  using assms by (induction rule: date_reach.induct) (auto simp: ok_init ok_effects ok_step)


section \<open>The buttons\<close>

text \<open>The periods that a value covers.\<close>

definition covers :: "date_value \<Rightarrow> int \<Rightarrow> nat \<Rightarrow> bool" where
  "covers v y i =
     (case (dv_rangeStart v, dv_rangeEnd v) of
        (Some a, Some b) \<Rightarrow> point_le (dv_period v) a \<lparr>pp_year = y, pp_value = i\<rparr> \<and> point_le (dv_period v) \<lparr>pp_year = y, pp_value = i\<rparr> b
      | (Some a, None) \<Rightarrow> pp_year a = y \<and> (dv_period v = PYear \<or> pp_value a = i)
      | _ \<Rightarrow> dv_year v = Some y \<and> (dv_period v = PYear \<or> chosen_item v = Some i))"

lemma in_range_lex:
  assumes "has_items ty" "pp_value a < 100" "pp_value b < 100" "i < 100"
  shows "period_key a \<le> period_key \<lparr>pp_year = y, pp_value = i\<rparr> \<longleftrightarrow> point_le ty a \<lparr>pp_year = y, pp_value = i\<rparr>"
    and "period_key \<lparr>pp_year = y, pp_value = i\<rparr> \<le> period_key b \<longleftrightarrow> point_le ty \<lparr>pp_year = y, pp_value = i\<rparr> b"
  using assms key_less [of a "\<lparr>pp_year = y, pp_value = i\<rparr>"] key_less [of "\<lparr>pp_year = y, pp_value = i\<rparr>" b]
  by (auto simp: point_le_def has_items_def)

lemma item_painted:
  assumes "state_ok st" "has_items (ss_periodType st)" "i < 100"
  shows "period_button st y i \<noteq> Outlined \<longleftrightarrow> covers (currentValue o' st) y i"
proof -
  have not_year: "ss_periodType st \<noteq> PYear" using assms(2) by (auto simp: has_items_def)
  note defs = period_button_def button_look_def is_point_def isInRange_def covers_def chosen_current current_parts
  show ?thesis
  proof (cases "ss_rangeStart st")
    case None
    with assms not_year show ?thesis
      by (cases "ss_rangeEnd st") (auto simp: state_ok_def defs)
  next
    case (Some a)
    note left = this
    show ?thesis
    proof (cases "ss_rangeEnd st")
      case None
      with left assms not_year show ?thesis
        by (auto simp: state_ok_def marks_end_def defs)
    next
      case (Some b)
      with left assms have ok: "pp_value a < 100" "pp_value b < 100" "point_le (ss_periodType st) a b"
        "marks_end (ss_periodType st) (ss_selectedYear st) (selected_value st) a \<or> marks_end (ss_periodType st) (ss_selectedYear st) (selected_value st) b"
        by (auto simp: state_ok_def)
      note lex = in_range_lex [OF assms(2) ok(1,2) assms(3), of y]
      have inside: "isInRange st y i \<longleftrightarrow> covers (currentValue o' st) y i"
        using left Some lex by (simp add: isInRange_def covers_def current_parts Let_def)
      have "covers (currentValue o' st) y i"
        if "ss_selectedYear st = Some y \<and> selected_value st = Some i \<or> is_point (ss_rangeStart st) y i \<or> is_point (ss_rangeEnd st) y i"
        using that ok(3,4) left Some assms(2)
        by (auto simp: is_point_def covers_def marks_end_def point_le_def current_parts)
      with inside show ?thesis by (auto simp: period_button_def button_look_def)
    qed
  qed
qed


lemma year_painted:
  assumes "state_ok st" "ss_periodType st = PYear"
  shows "year_button st y \<noteq> Outlined \<longleftrightarrow> covers (currentValue o' st) y i"
  using assms
  by (cases "ss_rangeStart st"; cases "ss_rangeEnd st")
    (auto simp: state_ok_def year_button_def button_look_def isYearInRange_def covers_def point_le_def current_parts)

text \<open>The grid paints exactly what the value means.  In every state of every run, a button of the month, quarter or
  half-year grid is filled or tinted if and only if its period lies in the range that the value denotes, is its
  single start, or is the single selection; the same holds of the list of years.\<close>

theorem buttons_paint_value:
  assumes "date_reach e o' st" "texts_fit e"
  shows "(\<forall>(y, row) \<in> set (DateSelectorPeriodGrid e o' st). \<forall>i < length row.
      snd (row ! i) \<noteq> Outlined \<longleftrightarrow> covers (currentValue o' st) y i) \<and>
    (ss_periodType st = PYear \<longrightarrow>
      (\<forall>(y, look) \<in> set (DateSelectorYearList e o' st). look \<noteq> Outlined \<longleftrightarrow> covers (currentValue o' st) y 0))"
proof -
  have ok: "state_ok st" using reach_ok [OF assms] by simp
  have "period_button st y i \<noteq> Outlined \<longleftrightarrow> covers (currentValue o' st) y i" if "i < length (grid_items e st)" for y i
    using item_painted [OF ok] items_bound [OF assms(2) that] by blast
  then show ?thesis using year_painted [OF ok] by (auto simp: DateSelectorPeriodGrid_def DateSelectorYearList_def)
qed

section \<open>Effects come to rest\<close>

lemma effects_settled:
  assumes "ss_synced st = Some (do_valueRef o', do_value o', validDefaultPeriodType o', do_defaultFilterType o', do_presetMode o')"
    and "ss_told st = Some (currentValue o' st)" "ss_shown st = Some (displayValue e o' st, ss_isInputFocused st)"
  shows "selector_effects e o' st = st"
  using assms by (simp add: selector_effects_def Let_def)

lemma effects_marks:
  "ss_synced (selector_effects e o' st) = Some (do_valueRef o', do_value o', validDefaultPeriodType o', do_defaultFilterType o', do_presetMode o')"
  "ss_isInputFocused (selector_effects e o' st) = ss_isInputFocused st"
  by (auto simp: selector_effects_def Let_def sync_value_def sync_preset_def split: option.splits)

lemma current_passive:
  "currentValue o' (st\<lparr>ss_reports := r\<rparr>) = currentValue o' st" "currentValue o' (st\<lparr>ss_told := c\<rparr>) = currentValue o' st"
  "currentValue o' (st\<lparr>ss_inputValue := t\<rparr>) = currentValue o' st" "currentValue o' (st\<lparr>ss_synced := d\<rparr>) = currentValue o' st"
  "currentValue o' (st\<lparr>ss_shown := u\<rparr>) = currentValue o' st"
  by (simp_all add: currentValue_def split: option.split)

text \<open>A second pass has only the report and the input left to do.\<close>

lemma effects_again:
  assumes "ss_synced st = Some (do_valueRef o', do_value o', validDefaultPeriodType o', do_defaultFilterType o', do_presetMode o')"
  shows "currentValue o' (selector_effects e o' st) = currentValue o' st"
    "ss_told (selector_effects e o' st) = Some (currentValue o' st)"
    "ss_shown (selector_effects e o' st) = Some (displayValue e o' st, ss_isInputFocused st)"
  using assms by (simp_all add: selector_effects_def Let_def current_passive)

lemma effects_rest:
  "selector_effects e o' (selector_effects e o' (selector_effects e o' st)) = selector_effects e o' (selector_effects e o' st)"
proof (rule effects_settled)
  note again = effects_again [OF effects_marks(1) [of e o' st], of e]
  show "ss_told (selector_effects e o' (selector_effects e o' st)) = Some (currentValue o' (selector_effects e o' (selector_effects e o' st)))"
    using again by simp
  show "ss_shown (selector_effects e o' (selector_effects e o' st)) =
      Some (displayValue e o' (selector_effects e o' (selector_effects e o' st)), ss_isInputFocused (selector_effects e o' (selector_effects e o' st)))"
    using again by (simp add: displayValue_def effects_marks(2))
qed (rule effects_marks(1))

lemma current_sync_echo:
  assumes "do_presetMode o' = do_presetMode o''" "do_value o'' = Some (currentValue o' st)"
  shows "currentValue o'' (sync_preset o'' (sync_value o'' st)) = currentValue o' st"
    "currentValue o'' (sync_value o'' st) = currentValue o' st"
  using assms by (auto simp: sync_value_def sync_preset_def currentValue_def split: option.split)

text \<open>Controlled use does not loop.  Two passes bring the effects to rest for any options; and when the consumer then gives the
  reported value back, as a new object and with everything else the same, the selector takes it without a change of its value and
  without a further report.\<close>

theorem echoed_value_rests:
  assumes "st = selector_effects e o' (selector_effects e o' st\<^sub>0)" "o'' = o'\<lparr>do_valueRef := r, do_value := Some (currentValue o' st)\<rparr>"
  shows "selector_effects e o' st = st \<and> currentValue o'' (selector_effects e o'' st) = currentValue o' st \<and>
    ss_reports (selector_effects e o'' st) = ss_reports st \<and> selector_effects e o'' (selector_effects e o'' st) = selector_effects e o'' st"
proof -
  have rest: "selector_effects e o' st = st" using effects_rest assms(1) by simp
  have told: "ss_told st = Some (currentValue o' st)" "ss_shown st = Some (displayValue e o' st, ss_isInputFocused st)"
    using effects_again [OF effects_marks(1) [of e o' "st\<^sub>0"], of e] assms(1) by (simp_all add: displayValue_def effects_marks(2))
  have same: "currentValue o'' s = currentValue o' s" for s using assms(2) by (simp add: currentValue_def)
  have echo: "currentValue o'' (sync_preset o'' (sync_value o'' st)) = currentValue o' st" "currentValue o'' (sync_value o'' st) = currentValue o' st"
    using current_sync_echo [of o' o'' st] assms(2) by simp_all
  have kept: "currentValue o'' (selector_effects e o'' st) = currentValue o' st"
    using echo told(1) same by (simp add: selector_effects_def Let_def current_passive)
  have quiet: "ss_reports (selector_effects e o'' st) = ss_reports st"
    using told(1) same by (simp add: selector_effects_def Let_def reports_of_handlers)
  have "ss_told (selector_effects e o'' st) = Some (currentValue o' st)"
    using told(1) same by (simp add: selector_effects_def Let_def sync_value_def sync_preset_def split: option.splits)
  moreover have "ss_shown (selector_effects e o'' st) = Some (displayValue e o'' st, ss_isInputFocused st)"
    by (simp add: selector_effects_def Let_def)
  ultimately have "selector_effects e o'' (selector_effects e o'' st) = selector_effects e o'' st"
    using kept same by (intro effects_settled) (simp_all add: effects_marks displayValue_def)
  with rest kept quiet show ?thesis by simp
qed


section \<open>Text and value\<close>

lemma dec_length_step: "0 < n div 10 \<Longrightarrow> length (nat_to_dec n) = Suc (length (nat_to_dec (n div 10)))"
  by (subst nat_to_dec.simps) simp

lemma four_digits: "1000 \<le> n \<Longrightarrow> n < 10000 \<Longrightarrow> length (nat_to_dec n) = 4"
proof -
  assume n: "1000 \<le> n" "n < 10000"
  then have "n div 10 div 10 div 10 < 10" "0 < n div 10 div 10 div 10" by linarith+
  then show ?thesis
    by (simp add: dec_length_step nat_to_dec.simps [of "n div 10 div 10 div 10"] del: div_mult2_eq)
qed

lemma year_match_dec: "year_allowed y \<Longrightarrow> year_match (int_to_dec y) = Some y"
  using four_digits [of "nat y"] nat_mono [of 1900 y] nat_mono [of y 2100] by (simp add: year_match_def int_to_dec_def year_allowed_def nat_to_dec_digits dec_value_nat)

lemma year_text_edges:
  assumes "year_allowed y"
  shows "int_to_dec y \<noteq> []" "\<not> is_ws (hd (int_to_dec y))" "\<not> is_ws (last (int_to_dec y))"
  using assms nat_to_dec_digits [of "nat y"] nat_to_dec_ne [of "nat y"]
  by (auto simp: int_to_dec_def year_allowed_def list_all_iff digit_not_ws)

lemma quarter_items:
  assumes "i < 4"
  shows "[''Q1'', ''Q2'', ''Q3'', ''Q4''] ! i = [CHR ''Q'', digit_char (i + 1)] \<and>
     digit_char (i + 1) \<in> {CHR ''1'', CHR ''2'', CHR ''3'', CHR ''4''} \<and> dec_value [digit_char (i + 1)] = i + 1"
proof -
  have d: "digit_char 1 = CHR ''1''" "digit_char 2 = CHR ''2''" "digit_char 3 = CHR ''3''" "digit_char 4 = CHR ''4''" by code_simp+
  note d' = d(1) [unfolded One_nat_def] d(2) [unfolded numeral_2_eq_2]
  from assms consider "i = 0" | "i = 1" | "i = 2" | "i = 3" by linarith
  then show ?thesis by cases (simp_all add: d d' dec_value_def)
qed

lemma space_ws: "is_ws CHR '' ''" "\<not> is_ws CHR ''Q''"
  by (simp_all add: is_ws_def)

lemma quarter_match_text:
  assumes "year_allowed y" "i < 4"
  shows "quarter_match ([''Q1'', ''Q2'', ''Q3'', ''Q4''] ! i @ '' '' @ int_to_dec y) = Some (i + 1, Some y)"
proof -
  have "dropWhile is_ws (CHR '' '' # int_to_dec y) = int_to_dec y"
    using year_text_edges [OF assms(1)] space_ws by (cases "int_to_dec y") simp_all
  with quarter_items [OF assms(2)] year_match_dec [OF assms(1)] show ?thesis
    by (simp add: quarter_match_def space_ws)
qed

lemma quarter_no_year: "year_match (CHR ''Q'' # s) = None"
  by (simp add: year_match_def is_digit_def)

text \<open>The text of a value is read back.  What the selector shows for a year, or for a quarter with the default texts,
  parses to that very value when the year is one the parser takes (1900 to 2100), in whatever mode the selector is.\<close>

theorem text_read_back:
  assumes "year_allowed y" "i < 4" "de_texts e = DEFAULT_DATE_SELECTOR_I18N" "opr = dv_operator (currentValue o' st)"
    and "v \<in> {(no_parts PYear opr)\<lparr>dv_year := Some y\<rparr>, (no_parts PQuarter opr)\<lparr>dv_year := Some y, dv_quarter := Some i\<rparr>}"
  shows "parseInputValue e o' st (formatDateValue e v) = Some v"
proof -
  have opr: "(case do_presetMode o' of Some m \<Rightarrow> m | None \<Rightarrow> ss_filterType st) = opr"
    using assms(4) by (simp add: currentValue_def)
  note edges = year_text_edges [OF assms(1)]
  show ?thesis
  proof (cases "v = (no_parts PYear opr)\<lparr>dv_year := Some y\<rparr>")
    case True
    then have "formatDateValue e v = int_to_dec y" by (simp add: formatDateValue_def no_parts_def Let_def)
    with True edges assms(1) opr show ?thesis by (simp add: parseInputValue_def trim_edges year_match_dec Let_def)
  next
    case False
    let ?t = "[''Q1'', ''Q2'', ''Q3'', ''Q4''] ! i @ '' '' @ int_to_dec y"
    from False assms(5) have v: "v = (no_parts PQuarter opr)\<lparr>dv_year := Some y, dv_quarter := Some i\<rparr>" by simp
    then have shown: "formatDateValue e v = ?t"
      using assms(2,3) by (simp add: formatDateValue_def items_text_def item_text_def no_parts_def DEFAULT_DATE_SELECTOR_I18N_def Let_def)
    have head: "?t = CHR ''Q'' # digit_char (i + 1) # '' '' @ int_to_dec y" using quarter_items [OF assms(2)] by simp
    have "trim ?t = ?t" using edges space_ws unfolding head by (intro trim_edges) simp_all
    moreover have "year_match ?t = None" unfolding head by (rule quarter_no_year)
    ultimately show ?thesis
      using shown opr v assms(1) quarter_match_text [OF assms(1,2)] by (simp add: parseInputValue_def head Let_def)
  qed
qed


section \<open>Years, and what typing does\<close>

text \<open>The component always has a first and a last year, so that the range of years and the base year it is given never matter.\<close>

theorem year_range_never_used:
  "selector_years e (with_defaults (o'\<lparr>do_yearRange := n, do_baseYear := b\<rparr>)) = selector_years e (with_defaults o')"
  by (simp add: selector_years_def with_defaults_def)

definition plain_env :: date_env where
  "plain_env =
     \<lparr>de_texts = DEFAULT_DATE_SELECTOR_I18N, de_format = (\<lambda>d f. f), de_parse = (\<lambda>s f. None), de_now = \<lparr>jd_ref = 0, jd_time = 0\<rparr>,
      de_thisYear = 2025, de_dayDateFormat = ''MM/dd/yyyy'', de_dayDateFormats = None, de_inputHint = Some ''Try Q4 2025''\<rparr>"

definition plain_options :: date_options where
  "plain_options =
     \<lparr>do_valueRef = 0, do_value = None, do_defaultPeriodType = PMonth, do_defaultFilterType = FBetween, do_presetMode = None,
      do_allowRange = True, do_yearRange = 10, do_baseYear = None, do_minYear = Some 2015, do_maxYear = Some 2026,
      do_periodTypes = Some [PMonth]\<rparr>"

definition mounted_selector :: selector_state where
  "mounted_selector = selector_effects plain_env plain_options (selector_init plain_env plain_options)"

definition after :: "date_event \<Rightarrow> selector_state \<Rightarrow> selector_state" where
  "after ev st = selector_effects plain_env plain_options (selector_step plain_env plain_options ev st)"

text \<open>March 2020 is pressed, and then January 2020.\<close>

definition backward_range :: selector_state where
  "backward_range = after (ItemPressed 2020 0) (after (ItemPressed 2020 2) mounted_selector)"

text \<open>A selector without a value of the consumer reports the year that is typed and forgets it: when the input loses the focus,
  it shows nothing again, and its value has no year.  The quarter that is typed is reported although the only period offered is
  the month.\<close>

definition typed_selector :: "string \<Rightarrow> selector_state" where
  "typed_selector s = after InputBlurred (after (InputTyped s) (after InputFocused mounted_selector))"

theorem typed_value_forgotten:
  "map dv_year (ss_reports (typed_selector ''2025'')) = [None, Some 2025] \<and> ss_inputValue (typed_selector ''2025'') = [] \<and>
   dv_year (currentValue plain_options (typed_selector ''2025'')) = None"
  by code_simp

theorem typed_period_not_offered:
  "map dv_period (ss_reports (typed_selector ''Q1 2025'')) = [PMonth, PQuarter] \<and> period_tabs plain_options = [PMonth]"
  by code_simp

lemma backward_reached: "date_reach plain_env plain_options backward_range"
  unfolding backward_range_def mounted_selector_def after_def
  by (intro date_reach.intros) code_simp+


lemma grid_row:
  "k < length (selector_years e o') \<Longrightarrow>
     (selector_years e o' ! k, map (\<lambda>i. (grid_items e st ! i, period_button st (selector_years e o' ! k) i)) [0..<length (grid_items e st)])
       \<in> set (DateSelectorPeriodGrid e o' st)"
  by (auto simp: DateSelectorPeriodGrid_def)

theorem buttons_paint_value_witness:
  "period_button backward_range 2020 1 = Tinted \<and>
   (period_button backward_range 2020 1 \<noteq> Outlined \<longleftrightarrow> covers (currentValue plain_options backward_range) 2020 1) \<and>
   (period_button backward_range 2020 5 \<noteq> Outlined \<longleftrightarrow> covers (currentValue plain_options backward_range) 2020 5)"
proof -
  have "texts_fit plain_env" by code_simp
  note paints = buttons_paint_value [OF backward_reached this, THEN conjunct1]
  have years: "5 < length (selector_years plain_env plain_options)" "selector_years plain_env plain_options ! 5 = 2020" by code_simp+
  have "length (grid_items plain_env backward_range) = 12" "period_button backward_range 2020 1 = Tinted" by code_simp+
  then show ?thesis using bspec [OF paints grid_row [OF years(1), of backward_range]] years(2) by (auto dest: spec [of _ 1] spec [of _ 5])
qed

theorem echoed_value_rests_witness:
  "let st = after (ItemPressed 2020 2) mounted_selector; o' = plain_options\<lparr>do_valueRef := 7, do_value := Some (currentValue plain_options st)\<rparr>
   in dv_year (currentValue plain_options st) = Some 2020 \<and>
      ss_reports (selector_effects plain_env o' (selector_effects plain_env plain_options st)) = ss_reports (selector_effects plain_env plain_options st)"
proof -
  let ?st = "after (ItemPressed 2020 2) mounted_selector"
  have two: "selector_effects plain_env plain_options ?st =
      selector_effects plain_env plain_options (selector_effects plain_env plain_options (selector_step plain_env plain_options (ItemPressed 2020 2) mounted_selector))"
    by (simp add: after_def)
  have rest: "currentValue plain_options (selector_effects plain_env plain_options ?st) = currentValue plain_options ?st" by code_simp
  have "dv_year (currentValue plain_options ?st) = Some 2020" by code_simp
  then show ?thesis using echoed_value_rests [OF two refl, of 7] rest by (simp add: Let_def)
qed

theorem text_read_back_witness:
  "parseInputValue plain_env plain_options mounted_selector ''Q3 2024'' =
     Some ((no_parts PQuarter FBetween)\<lparr>dv_year := Some 2024, dv_quarter := Some 2\<rparr>)"
proof -
  have "formatDateValue plain_env ((no_parts PQuarter FBetween)\<lparr>dv_year := Some 2024, dv_quarter := Some 2\<rparr>) = ''Q3 2024''"
      "FBetween = dv_operator (currentValue plain_options mounted_selector)" "year_allowed 2024"
      "de_texts plain_env = DEFAULT_DATE_SELECTOR_I18N"
    by code_simp+
  then show ?thesis
    using text_read_back [of 2024 2 plain_env FBetween plain_options mounted_selector
        "(no_parts PQuarter FBetween)\<lparr>dv_year := Some 2024, dv_quarter := Some 2\<rparr>"] by simp
qed


end
