(* ===== verification/Console_Scope.thy ===== *)
theory Console_Scope
  imports Prelude
begin

text \<open>
  The scope picker of the console (\<^verbatim>\<open>apps/console/src/app/shell/scope-tree.tsx\<close>): the rows of the organization's tree, with
  the top level open, the nodes the user flipped, and the ancestors of the chosen node kept open.  Neither the climb to the
  ancestors nor the walk over the tree guards against cycles, so both are partial functions, with \<open>None\<close> for a loop that does not end; for a
  hierarchy as the API describes it they return.
\<close>

section \<open>Rows\<close>

record scope_node =
  sn_id :: string
  sn_name :: string
  sn_parentId :: "string option"
  sn_depth :: nat

datatype scope_icon = Building2 | Network | MapPin

record scope_row =
  sr_id :: "string option"
  sr_name :: string
  sr_depth :: nat
  sr_icon :: scope_icon
  sr_hasChildren :: bool
  sr_expanded :: bool

definition scope_children :: "scope_node list \<Rightarrow> string option \<Rightarrow> scope_node list" where
  "scope_children nodes parent = filter (\<lambda>n. sn_parentId n = parent) nodes"

text \<open>A map built from pairs keeps the last entry of a key.\<close>

definition scope_byId :: "scope_node list \<Rightarrow> string \<Rightarrow> scope_node option" where
  "scope_byId nodes i = find (\<lambda>n. sn_id n = i) (rev nodes)"

partial_function (option) climb_scope :: "scope_node list \<Rightarrow> scope_node option \<Rightarrow> string list option" where
  "climb_scope nodes cursor =
     (case cursor of
        None \<Rightarrow> Some []
      | Some n \<Rightarrow>
          (case sn_parentId n of
             None \<Rightarrow> Some []
           | Some p \<Rightarrow> if p = [] then Some [] else Option.bind (climb_scope nodes (scope_byId nodes p)) (\<lambda>up. Some (p # up))))"

declare climb_scope.simps [code]

definition scope_ancestors :: "scope_node list \<Rightarrow> string option \<Rightarrow> string list option" where
  "scope_ancestors nodes chosen =
     climb_scope nodes (case chosen of None \<Rightarrow> None | Some i \<Rightarrow> if i = [] then None else scope_byId nodes i)"

text \<open>What the walk over the tree closes over.\<close>

record scope_view =
  sv_nodes :: "scope_node list"
  sv_ancestors :: "string list"
  sv_toggled :: "string list"

definition is_open :: "scope_view \<Rightarrow> scope_node \<Rightarrow> bool" where
  "is_open v n \<longleftrightarrow> sn_id n \<in> set (sv_ancestors v) \<or> (sn_depth n = 0) \<noteq> (sn_id n \<in> set (sv_toggled v))"

definition is_expanded :: "scope_view \<Rightarrow> scope_node \<Rightarrow> bool" where
  "is_expanded v n \<longleftrightarrow> 0 < length (scope_children (sv_nodes v) (Some (sn_id n))) \<and> is_open v n"

definition scope_row_of :: "scope_view \<Rightarrow> scope_node \<Rightarrow> scope_row" where
  "scope_row_of v n =
     \<lparr>sr_id = (if sn_depth n = 0 then None else Some (sn_id n)), sr_name = sn_name n, sr_depth = sn_depth n,
      sr_icon = (if sn_depth n = 0 then Building2 else if sn_depth n = 1 then Network else MapPin),
      sr_hasChildren = (0 < length (scope_children (sv_nodes v) (Some (sn_id n)))),
      sr_expanded = is_expanded v n\<rparr>"

text \<open>The loop of one call, over what is left of the children it walks.\<close>

partial_function (option) scope_visit :: "scope_view \<Rightarrow> scope_node list \<Rightarrow> scope_row list option" where
  "scope_visit v level =
     (case level of
        [] \<Rightarrow> Some []
      | n # rest \<Rightarrow>
          Option.bind
            (if is_expanded v n then scope_visit v (scope_children (sv_nodes v) (Some (sn_id n))) else Some [])
            (\<lambda>below. Option.bind (scope_visit v rest) (\<lambda>others. Some (scope_row_of v n # below @ others))))"

declare scope_visit.simps [code]

definition all_sites_row :: scope_row where
  "all_sites_row =
     \<lparr>sr_id = None, sr_name = ''All sites'', sr_depth = 0, sr_icon = Building2, sr_hasChildren = False, sr_expanded = False\<rparr>"

definition scope_rows :: "scope_node list \<Rightarrow> string list \<Rightarrow> string option \<Rightarrow> scope_row list option" where
  "scope_rows nodes toggled chosen =
     Option.bind (scope_ancestors nodes chosen)
       (\<lambda>ancestors. Option.bind (scope_visit \<lparr>sv_nodes = nodes, sv_ancestors = ancestors, sv_toggled = toggled\<rparr> (scope_children nodes None))
         (\<lambda>out. Some (if out = [] then [all_sites_row] else out)))"

definition scope_rootId :: "scope_node list \<Rightarrow> string option" where
  "scope_rootId nodes = map_option sn_id (find (\<lambda>n. sn_depth n = 0) nodes)"

text \<open>The press of a row's chevron, and of the row itself.\<close>

definition toggle_row :: "scope_node list \<Rightarrow> scope_row \<Rightarrow> string list \<Rightarrow> string list" where
  "toggle_row nodes row toggled =
     (let key = (case sr_id row of Some i \<Rightarrow> i | None \<Rightarrow> (case scope_rootId nodes of Some r \<Rightarrow> r | None \<Rightarrow> []))
      in if key \<in> set toggled then removeAll key toggled else toggled @ [key])"

definition row_selected :: "string option \<Rightarrow> scope_row \<Rightarrow> bool" where
  "row_selected chosen row \<longleftrightarrow> chosen = sr_id row"

section \<open>A hierarchy\<close>

definition parent_ok :: "scope_node list \<Rightarrow> scope_node \<Rightarrow> bool" where
  "parent_ok nodes n \<longleftrightarrow>
     (case sn_parentId n of
        None \<Rightarrow> sn_depth n = 0
      | Some p \<Rightarrow> list_ex (\<lambda>m. sn_id m = p \<and> sn_depth n = sn_depth m + 1) nodes)"

definition hierarchy_ok :: "scope_node list \<Rightarrow> bool" where
  "hierarchy_ok nodes \<longleftrightarrow>
     distinct (map sn_id nodes) \<and> list_all (\<lambda>n. sn_id n \<noteq> []) nodes \<and> list_all (parent_ok nodes) nodes"

lemma byId_in:
  assumes "distinct (map sn_id nodes)" "n \<in> set nodes"
  shows "scope_byId nodes (sn_id n) = Some n"
proof -
  have "scope_byId nodes (sn_id n) \<noteq> None" using assms(2) by (auto simp: scope_byId_def find_None_all)
  then obtain m where m: "scope_byId nodes (sn_id n) = Some m" by auto
  then have "m \<in> set nodes" "sn_id m = sn_id n" by (auto simp: scope_byId_def dest: find_Some_in)
  with assms m show ?thesis by (metis distinct_map inj_onD)
qed

lemma parent_in:
  assumes "hierarchy_ok nodes" "n \<in> set nodes" "sn_parentId n = Some p"
  obtains m where "m \<in> set nodes" "sn_id m = p" "sn_depth n = sn_depth m + 1" "p \<noteq> []" "scope_byId nodes p = Some m"
proof -
  have "parent_ok nodes n" using assms by (auto simp: hierarchy_ok_def list_all_iff)
  then obtain m where m: "m \<in> set nodes" "sn_id m = p" "sn_depth n = sn_depth m + 1"
    using assms(3) by (auto simp: parent_ok_def list_ex_iff)
  then have "p \<noteq> []" "scope_byId nodes p = Some m"
    using assms(1) byId_in by (auto simp: hierarchy_ok_def list_all_iff)
  with m show ?thesis by (rule that)
qed

lemma root_depth: "hierarchy_ok nodes \<Longrightarrow> n \<in> set nodes \<Longrightarrow> sn_parentId n = None \<longleftrightarrow> sn_depth n = 0"
  by (auto simp: hierarchy_ok_def list_all_iff parent_ok_def list_ex_iff split: option.splits)

lemma same_node: "hierarchy_ok nodes \<Longrightarrow> m \<in> set nodes \<Longrightarrow> n \<in> set nodes \<Longrightarrow> sn_id m = sn_id n \<Longrightarrow> m = n"
  by (metis byId_in hierarchy_ok_def option.inject)

text \<open>The proper ancestors of a node, from its parent up.\<close>

inductive ancestor :: "scope_node list \<Rightarrow> string \<Rightarrow> scope_node \<Rightarrow> bool" for nodes where
  parent: "sn_parentId n = Some p \<Longrightarrow> ancestor nodes p n"
| higher: "ancestor nodes p m \<Longrightarrow> m \<in> set nodes \<Longrightarrow> sn_parentId n = Some (sn_id m) \<Longrightarrow> ancestor nodes p n"

inductive_cases ancestorE: "ancestor nodes p n"

lemma scope_climb_exact:
  assumes "hierarchy_ok nodes" "n \<in> set nodes"
  shows "\<exists>up. climb_scope nodes (Some n) = Some up \<and> set up = {p. ancestor nodes p n}"
  using assms(2)
proof (induction "sn_depth n" arbitrary: n rule: less_induct)
  case less
  show ?case
  proof (cases "sn_parentId n")
    case None
    then have "climb_scope nodes (Some n) = Some []" "\<not> ancestor nodes p n" for p
      by (auto simp: climb_scope.simps [of _ "Some n"] elim: ancestorE)
    then show ?thesis by simp
  next
    case (Some p)
    then obtain m where m: "m \<in> set nodes" "sn_id m = p" "sn_depth n = sn_depth m + 1" "p \<noteq> []" "scope_byId nodes p = Some m"
      using parent_in [OF assms(1) less.prems] by blast
    obtain up where up: "climb_scope nodes (Some m) = Some up" "set up = {q. ancestor nodes q m}"
      using less.hyps [OF _ m(1)] m(3) by auto
    have "climb_scope nodes (Some n) = Some (p # up)"
      using Some m up(1) by (subst climb_scope.simps) simp
    moreover have "ancestor nodes q n \<longleftrightarrow> q = p \<or> ancestor nodes q m" for q
    proof
      assume "ancestor nodes q n"
      then show "q = p \<or> ancestor nodes q m"
        using Some m(1,2) same_node [OF assms(1)] by cases auto
    qed (use Some m in \<open>auto intro: ancestor.intros\<close>)
    ultimately show ?thesis using up(2) by auto
  qed
qed

section \<open>What is shown\<close>

text \<open>A node is shown below another when every node on the way is expanded.\<close>

inductive shown_below :: "scope_view \<Rightarrow> scope_node \<Rightarrow> scope_node \<Rightarrow> bool" for v a where
  itself: "shown_below v a a"
| child: "shown_below v a p \<Longrightarrow> is_expanded v p \<Longrightarrow> n \<in> set (sv_nodes v) \<Longrightarrow> sn_parentId n = Some (sn_id p) \<Longrightarrow> shown_below v a n"

inductive_cases shown_belowE: "shown_below v a n"

lemma below_from_child:
  assumes "shown_below v c n" "is_expanded v a" "c \<in> set (sv_nodes v)" "sn_parentId c = Some (sn_id a)"
  shows "shown_below v a n"
  using assms by (induction rule: shown_below.induct) (auto intro: shown_below.intros)

lemma below_cases:
  assumes "shown_below v a n"
  shows "n = a \<or> is_expanded v a \<and> (\<exists>c \<in> set (scope_children (sv_nodes v) (Some (sn_id a))). shown_below v c n)"
  using assms
proof (induction rule: shown_below.induct)
  case (child p n)
  then show ?case by (auto simp: scope_children_def intro: shown_below.intros)
qed simp

lemma below_in: "shown_below v a n \<Longrightarrow> a \<in> set (sv_nodes v) \<Longrightarrow> n \<in> set (sv_nodes v)"
  by (induction rule: shown_below.induct) auto

lemma below_depth:
  assumes "hierarchy_ok (sv_nodes v)" "shown_below v a n" "a \<in> set (sv_nodes v)"
  shows "sn_depth a \<le> sn_depth n \<and> (sn_depth a = sn_depth n \<longrightarrow> a = n)"
  using assms(2,3)
proof (induction rule: shown_below.induct)
  case (child p n)
  obtain m where "m \<in> set (sv_nodes v)" "sn_id m = sn_id p" "sn_depth n = sn_depth m + 1"
    using parent_in [OF assms(1) child(3,4)] by blast
  then have "sn_depth n = sn_depth p + 1" using same_node [OF assms(1)] below_in [OF child(1)] child.prems by auto
  with child show ?case by auto
qed simp

lemma below_unique:
  assumes "hierarchy_ok (sv_nodes v)" "shown_below v a n" "shown_below v b n"
    and "a \<in> set (sv_nodes v)" "b \<in> set (sv_nodes v)" "sn_depth a = sn_depth b"
  shows "a = b"
  using assms(2,3)
proof (induction rule: shown_below.induct)
  case itself
  then show ?case using below_depth [OF assms(1), of b a] assms(5,6) by simp
next
  case (child p n)
  from child.prems show ?case
  proof cases
    case itself
    then show ?thesis using child below_depth [OF assms(1), of a n] assms(4,6) by (auto intro: shown_below.intros)
  next
    case (child q)
    have "q \<in> set (sv_nodes v)" "p \<in> set (sv_nodes v)"
      using below_in [OF child(1) assms(5)] below_in [OF \<open>shown_below v a p\<close> assms(4)] .
    moreover have "sn_id q = sn_id p" using child(4) \<open>sn_parentId n = Some (sn_id p)\<close> by simp
    ultimately have "q = p" using same_node [OF assms(1)] by blast
    with child(1) \<open>shown_below v b p \<Longrightarrow> a = b\<close> show ?thesis by simp
  qed
qed

lemma children_depth:
  assumes "hierarchy_ok (sv_nodes v)" "n \<in> set (sv_nodes v)" "c \<in> set (scope_children (sv_nodes v) (Some (sn_id n)))"
  shows "c \<in> set (sv_nodes v)" "sn_depth c = Suc (sn_depth n)"
proof -
  show c: "c \<in> set (sv_nodes v)" using assms(3) by (simp add: scope_children_def)
  from assms(3) have "sn_parentId c = Some (sn_id n)" by (simp add: scope_children_def)
  from parent_in [OF assms(1) c this] obtain m where "m \<in> set (sv_nodes v)" "sn_id m = sn_id n" "sn_depth c = sn_depth m + 1" by blast
  with same_node [OF assms(1) _ assms(2)] show "sn_depth c = Suc (sn_depth n)" by auto
qed

lemma hierarchy_distinct: "hierarchy_ok nodes \<Longrightarrow> distinct (scope_children nodes p)"
  by (auto simp: hierarchy_ok_def scope_children_def distinct_map)

text \<open>The walk returns: the depth below a level is bounded by the deepest node.\<close>

lemma visit_exact:
  assumes ok: "hierarchy_ok (sv_nodes v)" and deepest: "\<forall>n \<in> set (sv_nodes v). sn_depth n < bound"
    and level: "set level \<subseteq> set (sv_nodes v)" "\<forall>n \<in> set level. sn_depth n = d" "distinct level"
  shows "\<exists>ns. scope_visit v level = Some (map (scope_row_of v) ns) \<and> distinct ns \<and>
    set ns = {n. \<exists>a \<in> set level. shown_below v a n}"
  using level
proof (induction "bound - d" arbitrary: d level rule: less_induct)
  case less
  note deeper = less.hyps
  from less.prems show ?case
  proof (induction level)
    case Nil
    show ?case by (subst scope_visit.simps) simp
  next
    case (Cons n rest)
    let ?kids = "scope_children (sv_nodes v) (Some (sn_id n))"
    have n: "n \<in> set (sv_nodes v)" "sn_depth n = d" using Cons.prems by auto
    obtain others where others: "scope_visit v rest = Some (map (scope_row_of v) others)" "distinct others"
        "set others = {m. \<exists>a \<in> set rest. shown_below v a m}"
      using Cons by auto
    have kids: "set ?kids \<subseteq> set (sv_nodes v)" "\<forall>c \<in> set ?kids. sn_depth c = Suc d" "distinct ?kids"
      using children_depth [OF ok n(1)] n(2) hierarchy_distinct [OF ok] by auto
    obtain below where below: "(if is_expanded v n then scope_visit v ?kids else Some []) = Some (map (scope_row_of v) below)"
        "distinct below" "set below = {m. is_expanded v n \<and> (\<exists>a \<in> set ?kids. shown_below v a m)}"
    proof (cases "is_expanded v n")
      case True
      have "d < bound" using deepest n by auto
      then have "bound - Suc d < bound - d" by simp
      from deeper [OF this kids] obtain ns where "scope_visit v ?kids = Some (map (scope_row_of v) ns)" "distinct ns"
          "set ns = {m. \<exists>a \<in> set ?kids. shown_below v a m}" by blast
      with True that [of ns] show ?thesis by simp
    qed (use that [of "[]"] in auto)
    have tree: "shown_below v n m \<longleftrightarrow> m = n \<or> m \<in> set below" for m
      using below(3) below_cases [of v n m] below_from_child [of v _ m n] by (auto simp: scope_children_def intro: shown_below.intros)
    have "n \<notin> set below"
      using below(3) below_depth [OF ok, of _ n] kids n(2) by fastforce
    moreover have "({n} \<union> set below) \<inter> set others = {}"
    proof -
      have "a = n" if "shown_below v n m" "a \<in> set rest" "shown_below v a m" for a m
        using below_unique [OF ok that(3,1)] that Cons.prems n by auto
      with tree others(3) Cons.prems(3) show ?thesis by auto
    qed
    ultimately have "distinct (n # below @ others)" using below(2) others(2) by auto
    moreover have "scope_visit v (n # rest) = Some (map (scope_row_of v) (n # below @ others))"
      using below(1) others(1) by (subst scope_visit.simps) simp
    moreover have "set (n # below @ others) = {m. \<exists>a \<in> set (n # rest). shown_below v a m}" using tree others(3) by auto
    ultimately show ?case by blast
  qed
qed


lemma ancestors_expanded:
  assumes "hierarchy_ok nodes" "c \<in> set nodes" "sv_nodes v = nodes" "set (sv_ancestors v) = {p. ancestor nodes p c}"
    and "m \<in> set nodes" "m = c \<or> ancestor nodes (sn_id m) c"
  shows "\<exists>r \<in> set (scope_children nodes None). shown_below v r m"
  using assms(5,6)
proof (induction "sn_depth m" arbitrary: m rule: less_induct)
  case less
  show ?case
  proof (cases "sn_parentId m")
    case None
    with less.prems(1) show ?thesis by (auto simp: scope_children_def intro: shown_below.itself)
  next
    case (Some p)
    then obtain q where q: "q \<in> set nodes" "sn_id q = p" "sn_depth m = sn_depth q + 1" using parent_in [OF assms(1) less.prems(1)] by blast
    have up: "ancestor nodes (sn_id q) c"
    proof (cases "m = c")
      case True
      with Some q show ?thesis by (auto intro: ancestor.parent)
    next
      case False
      have "ancestor nodes (sn_id q) x" if "ancestor nodes (sn_id m) x" for x
        using that
      proof (induction "sn_id m" x rule: ancestor.induct)
        case (parent n)
        then show ?case using Some q less.prems(1) by (auto intro: ancestor.higher [OF ancestor.parent])
      qed (auto intro: ancestor.higher)
      with False less.prems(2) show ?thesis by blast
    qed
    have "m \<in> set (scope_children nodes (Some (sn_id q)))" using less.prems(1) Some q by (simp add: scope_children_def)
    then have "is_expanded v q" using up assms(3,4) by (auto simp: is_expanded_def is_open_def)
    with less.hyps [of q] q up less.prems(1) Some assms(3) show ?thesis by (auto intro: shown_below.child)
  qed
qed

lemma rows_exact:
  assumes "hierarchy_ok nodes" "nodes \<noteq> []" "scope_ancestors nodes chosen = Some up"
    and "v = \<lparr>sv_nodes = nodes, sv_ancestors = up, sv_toggled = toggled\<rparr>"
  shows "\<exists>ns. scope_rows nodes toggled chosen = Some (map (scope_row_of v) ns) \<and> distinct ns \<and>
    set ns = {n. \<exists>r \<in> set (scope_children nodes None). shown_below v r n}"
proof -
  let ?roots = "scope_children nodes None"
  have deepest: "\<forall>n \<in> set nodes. sn_depth n < Suc (Max (sn_depth ` set nodes))" by (simp add: less_Suc_eq_le)
  have roots: "set ?roots \<subseteq> set nodes" "\<forall>n \<in> set ?roots. sn_depth n = 0"
    using root_depth [OF assms(1)] by (auto simp: scope_children_def)
  obtain ns where ns: "scope_visit v ?roots = Some (map (scope_row_of v) ns)" "distinct ns"
      "set ns = {n. \<exists>r \<in> set ?roots. shown_below v r n}"
    using visit_exact [of v "Suc (Max (sn_depth ` set nodes))" ?roots 0] assms(1,4) deepest roots hierarchy_distinct [OF assms(1), of None]
    by auto
  have "?roots \<noteq> []"
  proof -
    have "\<exists>r \<in> set nodes. sn_parentId r = None" if "n \<in> set nodes" for n
      using that
    proof (induction "sn_depth n" arbitrary: n rule: less_induct)
      case less
      show ?case
      proof (cases "sn_parentId n")
        case (Some p)
        then obtain m where "m \<in> set nodes" "sn_depth n = sn_depth m + 1" using parent_in [OF assms(1) less.prems] by blast
        with less.hyps [of m] show ?thesis by simp
      qed (use less.prems in blast)
    qed
    with assms(2) show ?thesis by (metis (mono_tags, lifting) filter_empty_conv last_in_set scope_children_def)
  qed
  then have "ns \<noteq> []" using ns(3) by (metis (mono_tags, lifting) empty_iff last_in_set list.set(1) mem_Collect_eq shown_below.itself)
  with ns assms(3,4) show ?thesis by (auto simp: scope_rows_def)
qed

text \<open>C17: The picker returns and shows the choice.  For every hierarchy with distinct ids whose parents exist one level up, whatever the user
  flipped before, the rows are computed; they are the nodes all of whose ancestors are expanded, each once; and the
  chosen node is among them, whether or not its ancestors were closed.\<close>

theorem chosen_scope_shown:
  assumes "hierarchy_ok nodes" "c \<in> set nodes"
  shows "\<exists>up ns. scope_ancestors nodes (Some (sn_id c)) = Some up \<and> set up = {p. ancestor nodes p c} \<and>
    scope_rows nodes toggled (Some (sn_id c)) =
      Some (map (scope_row_of \<lparr>sv_nodes = nodes, sv_ancestors = up, sv_toggled = toggled\<rparr>) ns) \<and>
    distinct ns \<and> c \<in> set ns \<and>
    set ns = {n. \<exists>r \<in> set (scope_children nodes None). shown_below \<lparr>sv_nodes = nodes, sv_ancestors = up, sv_toggled = toggled\<rparr> r n}"
proof -
  have "sn_id c \<noteq> []" "scope_byId nodes (sn_id c) = Some c"
    using assms byId_in by (auto simp: hierarchy_ok_def list_all_iff)
  then obtain up where up: "scope_ancestors nodes (Some (sn_id c)) = Some up" "set up = {p. ancestor nodes p c}"
    using scope_climb_exact [OF assms] by (auto simp: scope_ancestors_def)
  let ?v = "\<lparr>sv_nodes = nodes, sv_ancestors = up, sv_toggled = toggled\<rparr>"
  have "nodes \<noteq> []" using assms(2) by auto
  then obtain ns where ns: "scope_rows nodes toggled (Some (sn_id c)) = Some (map (scope_row_of ?v) ns)" "distinct ns"
      "set ns = {n. \<exists>r \<in> set (scope_children nodes None). shown_below ?v r n}"
    using rows_exact [OF assms(1) _ up(1) refl] by blast
  moreover have "c \<in> set ns" using ancestors_expanded [OF assms, of ?v c] up(2) ns(3) assms(2) by simp
  ultimately show ?thesis using up by blast
qed

text \<open>The chevron flips the row it belongs to, unless the row is kept open for the choice, and no other row; the top row's key
  is the first root's.\<close>

theorem chevron_flips:
  assumes "hierarchy_ok (sv_nodes v)" "n \<in> set (sv_nodes v)" "sn_depth n = 0 \<Longrightarrow> scope_rootId (sv_nodes v) = Some (sn_id n)"
    and "v' = v\<lparr>sv_toggled := toggle_row (sv_nodes v) (scope_row_of v n) (sv_toggled v)\<rparr>"
  shows "is_open v' n = (sn_id n \<in> set (sv_ancestors v) \<or> \<not> is_open v n) \<and>
    (\<forall>m \<in> set (sv_nodes v). m \<noteq> n \<longrightarrow> is_open v' m = is_open v m)"
proof -
  have key: "(case sr_id (scope_row_of v n) of Some i \<Rightarrow> i | None \<Rightarrow> (case scope_rootId (sv_nodes v) of Some r \<Rightarrow> r | None \<Rightarrow> [])) = sn_id n"
    using assms(3) by (simp add: scope_row_of_def)
  have "sn_id m \<noteq> sn_id n" if "m \<in> set (sv_nodes v)" "m \<noteq> n" for m
    using that same_node [OF assms(1)] assms(2) by blast
  moreover have "set (sv_toggled v') = (if sn_id n \<in> set (sv_toggled v) then set (sv_toggled v) - {sn_id n} else insert (sn_id n) (set (sv_toggled v)))"
      "sv_ancestors v' = sv_ancestors v"
    using assms(4) by (simp_all add: toggle_row_def key Let_def)
  ultimately show ?thesis by (cases "sn_id n \<in> set (sv_toggled v)") (auto simp: is_open_def)
qed

definition sample_hierarchy :: "scope_node list" where
  "sample_hierarchy =
     [\<lparr>sn_id = ''r'', sn_name = ''Org'', sn_parentId = None, sn_depth = 0\<rparr>,
      \<lparr>sn_id = ''e'', sn_name = ''East'', sn_parentId = Some ''r'', sn_depth = 1\<rparr>,
      \<lparr>sn_id = ''w'', sn_name = ''West'', sn_parentId = Some ''r'', sn_depth = 1\<rparr>,
      \<lparr>sn_id = ''p'', sn_name = ''Portland'', sn_parentId = Some ''w'', sn_depth = 2\<rparr>]"

theorem chosen_scope_shown_witness:
  "map_option (map sr_name) (scope_rows sample_hierarchy [''r''] (Some ''p'')) = Some [''Org'', ''East'', ''West'', ''Portland''] \<and>
   map_option (map sr_name) (scope_rows sample_hierarchy [''r''] None) = Some [''Org''] \<and>
   (\<exists>ns. map_option (map sr_name) (scope_rows sample_hierarchy [''r''] (Some ''p'')) = Some (map sn_name ns) \<and> sample_hierarchy ! 3 \<in> set ns)"
proof (intro conjI)
  have names: "map sr_name (map (scope_row_of v) ns) = map sn_name ns" for v ns by (simp add: scope_row_of_def)
  have ok: "hierarchy_ok sample_hierarchy" "sn_id (sample_hierarchy ! 3) = ''p''" by code_simp+
  have "sample_hierarchy ! 3 \<in> set sample_hierarchy" by (simp add: sample_hierarchy_def)
  from chosen_scope_shown [OF ok(1) this, of "[''r'']"] ok(2) show
    "\<exists>ns. map_option (map sr_name) (scope_rows sample_hierarchy [''r''] (Some ''p'')) = Some (map sn_name ns) \<and> sample_hierarchy ! 3 \<in> set ns"
    by (metis (no_types, lifting) names option.map(2))
qed code_simp+

theorem chevron_flips_witness:
  "(let v = \<lparr>sv_nodes = sample_hierarchy, sv_ancestors = [''r'', ''w''], sv_toggled = []\<rparr>;
        v' = v\<lparr>sv_toggled := toggle_row sample_hierarchy (scope_row_of v (sample_hierarchy ! 1)) []\<rparr>
    in is_open v' (sample_hierarchy ! 1) \<and> is_open v' (sample_hierarchy ! 3) = is_open v (sample_hierarchy ! 3))"
proof -
  let ?v = "\<lparr>sv_nodes = sample_hierarchy, sv_ancestors = [''r'', ''w''], sv_toggled = []\<rparr>"
  have "hierarchy_ok sample_hierarchy" "sn_depth (sample_hierarchy ! 1) \<noteq> 0" "\<not> is_open ?v (sample_hierarchy ! 1)" by code_simp+
  moreover have "sample_hierarchy ! 1 \<in> set sample_hierarchy" "sample_hierarchy ! 3 \<in> set sample_hierarchy"
      "sample_hierarchy ! 3 \<noteq> sample_hierarchy ! 1" by (simp_all add: sample_hierarchy_def)
  ultimately show ?thesis using chevron_flips [of ?v "sample_hierarchy ! 1", OF _ _ _ refl] by (simp add: Let_def)
qed


end
