(* ===== verification/Console_Sites.thy ===== *)
theory Console_Sites
  imports Filter_Query Console_Lib
begin

text \<open>
  The sites feature of the console (\<^verbatim>\<open>apps/console/src/features/sites\<close>): the statuses that the filter bar asks the server for and the
  bar's own state (\<^verbatim>\<open>site-filters.tsx\<close>), the words for a recurrence rule (\<^verbatim>\<open>site-hours.tsx\<close>), the layers of the map
  (\<^verbatim>\<open>use-map-layers.ts\<close>), the boundary check of a site (\<^verbatim>\<open>schema.ts\<close>) and the search term of the picker.  The filter tree is
  the one of \<open>Filter_Query\<close>, the recurrence rule the one of \<open>Console_Lib\<close>.
\<close>

section \<open>Statuses of a filter tree\<close>

definition STATUS_OPTIONS :: "string list" where
  "STATUS_OPTIONS = [''Open'', ''ComingSoon'', ''TemporarilyClosed'', ''Closed'']"

text \<open>\<^verbatim>\<open>String(v)\<close>; the text of what is not a string is a parameter.\<close>

definition string_of :: "(js_value \<Rightarrow> string) \<Rightarrow> js_value \<Rightarrow> string" where
  "string_of other v = (case v of JStr s \<Rightarrow> s | _ \<Rightarrow> other v)"

definition chosen_statuses :: "(js_value \<Rightarrow> string) \<Rightarrow> filter_condition \<Rightarrow> string list" where
  "chosen_statuses other c = filter (\<lambda>s. s \<noteq> []) (map (string_of other) (cond_values c))"

definition excludes :: "filter_condition \<Rightarrow> bool" where
  "excludes c \<longleftrightarrow> cond_negated c \<or> cond_operator c = ''is_not'' \<or> cond_operator c = ''is_none_of''"

text \<open>\<^verbatim>\<open>Set.add\<close> keeps the order of insertion.\<close>

definition status_add :: "string \<Rightarrow> string list \<Rightarrow> string list" where
  "status_add s xs = (if s \<in> set xs then xs else xs @ [s])"

definition add_condition :: "(js_value \<Rightarrow> string) \<Rightarrow> filter_condition \<Rightarrow> string list \<Rightarrow> string list" where
  "add_condition other c statuses =
     (if cond_field c \<noteq> Some ''status'' then statuses
      else let chosen = chosen_statuses other c
           in if chosen = [] then statuses
              else if excludes c
              then fold (\<lambda>s acc. if s \<in> set chosen then acc else status_add s acc) STATUS_OPTIONS statuses
              else fold status_add chosen statuses)"

definition toStatuses :: "(js_value \<Rightarrow> string) \<Rightarrow> filter_query \<Rightarrow> string list" where
  "toStatuses other q = fold (add_condition other) (flattenFilterConditions q) []"

section \<open>What a tree means\<close>

text \<open>The statuses that a rule lets through, if it says anything about them: its operator and its negation each turn
  the choice around.  A group combines what its members say; members that say nothing do not count.\<close>

definition rule_choice :: "(js_value \<Rightarrow> string) \<Rightarrow> filter_rule \<Rightarrow> string list" where
  "rule_choice other r = filter (\<lambda>s. s \<noteq> []) (map (string_of other) (filter_values (rule_value r)))"

definition turns :: "filter_rule \<Rightarrow> bool" where
  "turns r \<longleftrightarrow> rule_operator r \<in> {''is_not'', ''is_none_of''}"

definition relevant :: "(js_value \<Rightarrow> string) \<Rightarrow> filter_rule \<Rightarrow> bool" where
  "relevant other r \<longleftrightarrow>
     isFilterRuleComplete r \<and> rule_path r \<noteq> [] \<and> hd (rule_path r) = ''status'' \<and> rule_choice other r \<noteq> []"

definition rule_lets :: "(js_value \<Rightarrow> string) \<Rightarrow> filter_rule \<Rightarrow> string \<Rightarrow> bool" where
  "rule_lets other r s \<longleftrightarrow> ((s \<in> set (rule_choice other r)) \<noteq> turns r) \<noteq> (rule_negated r = Some True)"

definition combine :: "filter_combinator \<Rightarrow> (string \<Rightarrow> bool) list \<Rightarrow> (string \<Rightarrow> bool) option" where
  "combine c ps =
     (if ps = [] then None
      else Some (\<lambda>s. case c of CAnd \<Rightarrow> list_all (\<lambda>p. p s) ps | COr \<Rightarrow> list_ex (\<lambda>p. p s) ps))"

fun node_lets :: "(js_value \<Rightarrow> string) \<Rightarrow> filter_node \<Rightarrow> (string \<Rightarrow> bool) option" where
  "node_lets other (RuleNode r) = (if relevant other r then Some (rule_lets other r) else None)"
| "node_lets other (GroupNode (FilterGroup i c rs)) =
     combine c (concat (map (\<lambda>p. case p of None \<Rightarrow> [] | Some f \<Rightarrow> [f]) (map (node_lets other) rs)))"

text \<open>A tree whose groups all say \<open>or\<close>, a chosen status that is no option, and a rule that is turned around twice.\<close>

fun all_or :: "filter_node \<Rightarrow> bool" where
  "all_or (RuleNode r) = True"
| "all_or (GroupNode (FilterGroup i c rs)) = (c = COr \<and> list_all id (map all_or rs))"

definition plain_rule :: "(js_value \<Rightarrow> string) \<Rightarrow> filter_rule \<Rightarrow> bool" where
  "plain_rule other r \<longleftrightarrow> set (rule_choice other r) \<subseteq> set STATUS_OPTIONS \<and> \<not> (turns r \<and> rule_negated r = Some True)"

definition relevant_rules :: "(js_value \<Rightarrow> string) \<Rightarrow> filter_node \<Rightarrow> filter_rule list" where
  "relevant_rules other n = filter (relevant other) (flatten_walk n)"

lemma relevant_rules_group:
  "relevant_rules other (GroupNode (FilterGroup i c rs)) = concat (map (relevant_rules other) rs)"
  by (simp add: relevant_rules_def [abs_def] filter_concat comp_def)

definition said :: "(js_value \<Rightarrow> string) \<Rightarrow> filter_node list \<Rightarrow> (string \<Rightarrow> bool) list" where
  "said other rs = concat (map (\<lambda>n. case node_lets other n of None \<Rightarrow> [] | Some f \<Rightarrow> [f]) rs)"

lemma said_simps: "said other [] = []" "said other (n # rs) = (case node_lets other n of None \<Rightarrow> [] | Some f \<Rightarrow> [f]) @ said other rs"
  by (simp_all add: said_def)

lemma said_Nil: "said other rs = [] \<longleftrightarrow> (\<forall>n \<in> set rs. node_lets other n = None)"
  by (induction rs) (simp_all add: said_simps split: option.split)

lemma node_lets_group: "node_lets other (GroupNode (FilterGroup i c rs)) = combine c (said other rs)"
  by (simp add: said_def comp_def)

lemma node_silent: "node_lets other n = None \<longleftrightarrow> relevant_rules other n = []"
  and group_silent: "node_lets other (GroupNode g) = None \<longleftrightarrow> relevant_rules other (GroupNode g) = []"
proof (induction n and g)
  case (FilterGroup i c rs)
  have "said other rs = [] \<longleftrightarrow> (\<forall>n \<in> set rs. relevant_rules other n = [])"
    using FilterGroup by (simp add: said_Nil)
  then show ?case by (simp add: node_lets_group combine_def relevant_rules_group del: node_lets.simps)
qed (auto simp: relevant_rules_def)

lemma said_or:
  assumes "\<And>n f. n \<in> set rs \<Longrightarrow> node_lets other n = Some f \<Longrightarrow> f s \<longleftrightarrow> (\<exists>r \<in> set (relevant_rules other n). rule_lets other r s)"
  shows "list_ex (\<lambda>p. p s) (said other rs) \<longleftrightarrow> (\<exists>r \<in> set (concat (map (relevant_rules other) rs)). rule_lets other r s)"
  using assms
proof (induction rs)
  case (Cons n rs)
  have rest: "list_ex (\<lambda>p. p s) (said other rs) \<longleftrightarrow> (\<exists>r \<in> set (concat (map (relevant_rules other) rs)). rule_lets other r s)"
    using Cons by simp
  show ?case
  proof (cases "node_lets other n")
    case None
    with rest node_silent [of other n] show ?thesis by (simp add: said_simps)
  next
    case (Some f)
    with Cons.prems [of n f] have "f s \<longleftrightarrow> (\<exists>r \<in> set (relevant_rules other n). rule_lets other r s)" by simp
    with Some rest show ?thesis by (simp add: said_simps bex_Un)
  qed
qed (simp add: said_simps)

lemma node_or:
  "all_or n \<Longrightarrow> node_lets other n = Some f \<Longrightarrow> f s \<longleftrightarrow> (\<exists>r \<in> set (relevant_rules other n). rule_lets other r s)"
  and group_or:
  "all_or (GroupNode g) \<Longrightarrow> node_lets other (GroupNode g) = Some f \<Longrightarrow>
     f s \<longleftrightarrow> (\<exists>r \<in> set (relevant_rules other (GroupNode g)). rule_lets other r s)"
proof (induction n and g arbitrary: f and f)
  case (FilterGroup i c rs)
  have "list_ex (\<lambda>p. p s) (said other rs) \<longleftrightarrow> (\<exists>r \<in> set (concat (map (relevant_rules other) rs)). rule_lets other r s)"
    using FilterGroup by (intro said_or) (auto simp: list_all_iff)
  with FilterGroup.prems show ?case
    by (auto simp: node_lets_group combine_def relevant_rules_group simp del: node_lets.simps split: if_splits)
qed (auto simp: relevant_rules_def split: if_splits)

lemma node_sole: "relevant_rules other n = [r] \<Longrightarrow> node_lets other n = Some (rule_lets other r)"
  and group_sole: "relevant_rules other (GroupNode g) = [r] \<Longrightarrow> node_lets other (GroupNode g) = Some (rule_lets other r)"
proof (induction n and g)
  case (FilterGroup i c rs)
  have "said other rs = [rule_lets other r]"
    using FilterGroup.prems [unfolded relevant_rules_group] FilterGroup.IH
  proof (induction rs)
    case (Cons n rs)
    show ?case
    proof (cases "relevant_rules other n = []")
      case True
      with Cons node_silent [of other n] show ?thesis by (simp add: said_simps)
    next
      case False
      with Cons.prems(1) have n: "relevant_rules other n = [r]" "concat (map (relevant_rules other) rs) = []"
        by (auto simp: append_eq_Cons_conv)
      then have "said other rs = []" by (simp add: said_Nil node_silent)
      with n Cons.prems(2) show ?thesis by (simp add: said_simps)
    qed
  qed simp
  then show ?case by (cases c) (simp_all add: node_lets_group combine_def del: node_lets.simps)
qed (auto simp: relevant_rules_def split: if_splits)

section \<open>The statuses asked for\<close>

lemma statuses_fold_add: "set (fold status_add xs acc) = set acc \<union> set xs"
  by (induction xs arbitrary: acc) (auto simp: status_add_def)

lemma statuses_fold_skip: "set (fold (\<lambda>s acc. if P s then acc else status_add s acc) xs acc) = set acc \<union> {s \<in> set xs. \<not> P s}"
  by (induction xs arbitrary: acc) (auto simp: status_add_def)

definition condition_of :: "filter_rule \<Rightarrow> filter_condition" where
  "condition_of r =
     \<lparr>cond_path = rule_path r, cond_field = (case rule_path r of [] \<Rightarrow> None | p # _ \<Rightarrow> Some p), cond_operator = rule_operator r,
      cond_values = filter_values (rule_value r), cond_negated = (rule_negated r = Some True)\<rparr>"

lemma flatten_conditions: "flattenFilterConditions q = map condition_of (filter isFilterRuleComplete (flattenFilterRules q))"
  by (simp add: flattenFilterConditions_def condition_of_def)

lemma add_condition_set:
  assumes "isFilterRuleComplete r" "relevant other r \<Longrightarrow> plain_rule other r"
  shows "set (add_condition other (condition_of r) acc) =
    set acc \<union> (if relevant other r then {s \<in> set STATUS_OPTIONS. rule_lets other r s} else {})"
proof -
  have choice: "chosen_statuses other (condition_of r) = rule_choice other r"
    by (simp add: chosen_statuses_def rule_choice_def condition_of_def)
  have field: "cond_field (condition_of r) = Some ''status'' \<longleftrightarrow> rule_path r \<noteq> [] \<and> hd (rule_path r) = ''status''"
    by (cases "rule_path r") (simp_all add: condition_of_def)
  have turn: "excludes (condition_of r) \<longleftrightarrow> turns r \<or> rule_negated r = Some True"
    by (auto simp: excludes_def turns_def condition_of_def)
  show ?thesis
    using assms
    by (auto simp: add_condition_def choice field turn Let_def statuses_fold_add statuses_fold_skip relevant_def plain_rule_def rule_lets_def)
qed

lemma toStatuses_set:
  assumes "\<forall>r \<in> set (relevant_rules other (GroupNode q)). plain_rule other r"
  shows "set (toStatuses other q) =
    {s \<in> set STATUS_OPTIONS. \<exists>r \<in> set (relevant_rules other (GroupNode q)). rule_lets other r s}"
proof -
  have "set (fold (add_condition other) (map condition_of rs) acc) =
      set acc \<union> {s \<in> set STATUS_OPTIONS. \<exists>r \<in> set (filter (relevant other) rs). rule_lets other r s}"
    if "\<forall>r \<in> set rs. isFilterRuleComplete r" "\<forall>r \<in> set (filter (relevant other) rs). plain_rule other r" for rs acc
    using that
  proof (induction rs arbitrary: acc)
    case (Cons r rs)
    then show ?case using add_condition_set [of r other acc] by (auto split: if_splits)
  qed simp
  from this [of "filter isFilterRuleComplete (flattenFilterRules q)" "[]"] assms
  have "set (toStatuses other q) = {s \<in> set STATUS_OPTIONS.
      \<exists>r \<in> set (filter (relevant other) (filter isFilterRuleComplete (flattenFilterRules q))). rule_lets other r s}"
    by (auto simp: toStatuses_def flatten_conditions relevant_rules_def flattenFilterRules_def)
  then show ?thesis by (auto simp: relevant_rules_def flattenFilterRules_def relevant_def)
qed


section \<open>The filter bar's state\<close>

text \<open>The search box, the tree, the search text once typing has paused (\<^verbatim>\<open>useDebounced\<close>), and what the page was told.\<close>

record site_filters =
  fs_q :: string
  fs_query :: filter_query
  fs_debounced :: string
  fs_told :: "(string \<times> string list) list"

datatype filters_event = Typed string | Paused | Chips filter_query

definition filters_mount :: "(js_value \<Rightarrow> string) \<Rightarrow> filter_query \<Rightarrow> site_filters" where
  "filters_mount other q = \<lparr>fs_q = [], fs_query = q, fs_debounced = [], fs_told = [([], toStatuses other q)]\<rparr>"

text \<open>The timer sets the text the effect depends on, which runs only when that text is another one.\<close>

definition useDebounced_fire :: "(js_value \<Rightarrow> string) \<Rightarrow> site_filters \<Rightarrow> site_filters" where
  "useDebounced_fire other st =
     (if fs_debounced st = fs_q st then st
      else st\<lparr>fs_debounced := fs_q st, fs_told := fs_told st @ [(trim (fs_q st), toStatuses other (fs_query st))]\<rparr>)"

fun filters_step :: "(js_value \<Rightarrow> string) \<Rightarrow> filters_event \<Rightarrow> site_filters \<Rightarrow> site_filters" where
  "filters_step other (Typed s) st = st\<lparr>fs_q := s\<rparr>"
| "filters_step other Paused st = useDebounced_fire other st"
| "filters_step other (Chips q) st =
     st\<lparr>fs_query := q, fs_told := fs_told st @ [(trim (fs_q st), toStatuses other q)]\<rparr>"

text \<open>A chip is changed only while the text has settled.\<close>

fun calm :: "(js_value \<Rightarrow> string) \<Rightarrow> filters_event list \<Rightarrow> site_filters \<Rightarrow> bool" where
  "calm other [] st = True"
| "calm other (ev # evs) st =
     ((case ev of Chips q \<Rightarrow> fs_debounced st = fs_q st | _ \<Rightarrow> True) \<and> calm other evs (filters_step other ev st))"

definition filters_run :: "(js_value \<Rightarrow> string) \<Rightarrow> filters_event list \<Rightarrow> site_filters \<Rightarrow> site_filters" where
  "filters_run other evs st = fold (filters_step other) evs st"

definition in_step :: "(js_value \<Rightarrow> string) \<Rightarrow> site_filters \<Rightarrow> bool" where
  "in_step other st \<longleftrightarrow> fs_told st \<noteq> [] \<and> last (fs_told st) = (trim (fs_debounced st), toStatuses other (fs_query st))"

lemma calm_in_step: "calm other evs st \<Longrightarrow> in_step other st \<Longrightarrow> in_step other (filters_run other evs st)"
proof (induction evs arbitrary: st)
  case (Cons ev evs)
  then have "in_step other (filters_step other ev st)"
    by (cases ev) (auto simp: in_step_def useDebounced_fire_def)
  with Cons show ?case by (simp add: filters_run_def)
qed (simp add: filters_run_def)

text \<open>The page asks for what the bar shows: when chips change only while the text has settled, then after every pause the last thing
  the page was told is the trimmed text of the box and the statuses of the tree.\<close>

theorem settled_bar_told:
  assumes "calm other evs (filters_mount other q)" "st = filters_run other (evs @ [Paused]) (filters_mount other q)"
  shows "last (fs_told st) = (trim (fs_q st), toStatuses other (fs_query st))"
proof -
  have start: "in_step other (filters_mount other q)" by (simp add: filters_mount_def in_step_def trim_def)
  have "in_step other (filters_run other evs (filters_mount other q))" using calm_in_step [OF assms(1) start] .
  then show ?thesis using assms(2) by (auto simp: filters_run_def useDebounced_fire_def in_step_def)
qed

text \<open>Otherwise it may not.  A text is typed, a chip changes before the pause and takes the text along, and the text is
  removed before the pause: nothing settles, and the page keeps searching for a text that the box no longer shows.\<close>

theorem removed_text_still_searched:
  "(let st = filters_run (\<lambda>v. []) [Typed ''x'', Chips (FilterGroup ''q'' CAnd []), Typed [], Paused]
               (filters_mount (\<lambda>v. []) (FilterGroup ''q'' CAnd []))
    in fs_q st = [] \<and> fs_debounced st = [] \<and> fst (last (fs_told st)) = ''x'')"
  by code_simp

text \<open>Two exclusions under \<open>and\<close> cancel each other, and excluding all statuses asks for all.\<close>

definition status_rule :: "string \<Rightarrow> string \<Rightarrow> string list \<Rightarrow> filter_node" where
  "status_rule i opr vs = RuleNode (createFilterRule i [''status''] opr (JArr (map JStr vs)) None)"

theorem exclusions_cancel:
  "(let q = FilterGroup ''q'' CAnd [status_rule ''a'' ''is_not'' [''Open''], status_rule ''b'' ''is_not'' [''Closed'']]
    in set (toStatuses (\<lambda>v. []) q) = set STATUS_OPTIONS \<and>
       (case node_lets (\<lambda>v. []) (GroupNode q) of
          Some f \<Rightarrow> filter f STATUS_OPTIONS = [''ComingSoon'', ''TemporarilyClosed''] | None \<Rightarrow> False))"
  by code_simp

theorem all_excluded_asks_for_all:
  "toStatuses (\<lambda>v. []) (FilterGroup ''q'' CAnd [status_rule ''a'' ''is_none_of'' STATUS_OPTIONS]) = []"
  by code_simp


theorem settled_bar_told_witness:
  "(let st = filters_run (\<lambda>v. []) ([Typed '' por '', Typed ''port '', Paused, Chips (FilterGroup ''q'' COr [])] @ [Paused])
               (filters_mount (\<lambda>v. []) (FilterGroup ''q'' CAnd []))
    in last (fs_told st) = (''port'', []))"
proof -
  let ?evs = "[Typed '' por '', Typed ''port '', Paused, Chips (FilterGroup ''q'' COr [])]"
  have "calm (\<lambda>v. []) ?evs (filters_mount (\<lambda>v. []) (FilterGroup ''q'' CAnd []))" by code_simp
  from settled_bar_told [OF this refl]
  have "last (fs_told (filters_run (\<lambda>v. []) (?evs @ [Paused]) (filters_mount (\<lambda>v. []) (FilterGroup ''q'' CAnd [])))) =
      (trim (fs_q (filters_run (\<lambda>v. []) (?evs @ [Paused]) (filters_mount (\<lambda>v. []) (FilterGroup ''q'' CAnd [])))),
       toStatuses (\<lambda>v. []) (fs_query (filters_run (\<lambda>v. []) (?evs @ [Paused]) (filters_mount (\<lambda>v. []) (FilterGroup ''q'' CAnd [])))))" .
  moreover have "(trim (fs_q (filters_run (\<lambda>v. []) (?evs @ [Paused]) (filters_mount (\<lambda>v. []) (FilterGroup ''q'' CAnd [])))),
       toStatuses (\<lambda>v. []) (fs_query (filters_run (\<lambda>v. []) (?evs @ [Paused]) (filters_mount (\<lambda>v. []) (FilterGroup ''q'' CAnd []))))) =
       (''port'', [])"
    by code_simp
  ultimately show ?thesis by (simp add: Let_def)
qed

section \<open>Words for a recurrence rule\<close>

definition is_upper_or_comma :: "char \<Rightarrow> bool" where
  "is_upper_or_comma c \<longleftrightarrow> (65 \<le> (of_char c :: nat) \<and> (of_char c :: nat) \<le> 90) \<or> c = CHR '',''"

text \<open>\<^verbatim>\<open>/BYDAY=([A-Z,]+)/.exec(rrule)?.[1]\<close>\<close>

fun byday_match :: "string \<Rightarrow> string option" where
  "byday_match [] = None"
| "byday_match (c # cs) =
     (let t = takeWhile is_upper_or_comma (drop 6 (c # cs))
      in if starts_with (c # cs) ''BYDAY='' \<and> t \<noteq> [] then Some t else byday_match cs)"

fun day_label :: "day_code \<Rightarrow> string" where
  "day_label MO = ''Mon''" | "day_label TU = ''Tue''" | "day_label WE = ''Wed''" | "day_label TH = ''Thu''"
| "day_label FR = ''Fri''" | "day_label SA = ''Sat''" | "day_label SU = ''Sun''"

definition DAYS :: "(string \<times> string) list" where
  "DAYS = map (\<lambda>d. (day_text d, day_label d)) [MO, TU, WE, TH, FR, SA, SU]"

definition code_label :: "string \<Rightarrow> string" where
  "code_label code = (case find (\<lambda>d. fst d = code) DAYS of Some d \<Rightarrow> snd d | None \<Rightarrow> code)"

definition describeRule :: "string \<Rightarrow> string" where
  "describeRule rrule =
     (if str_includes rrule ''FREQ=DAILY'' then ''Every day''
      else case byday_match rrule of
             Some byday \<Rightarrow>
               (let codes = split_on CHR '','' byday
                in if length codes = 7 then ''Every day''
                   else if join '','' codes = ''MO,TU,WE,TH,FR'' then ''Weekdays''
                   else if join '','' codes = ''SA,SU'' then ''Weekends''
                   else join '', '' (map code_label codes))
           | None \<Rightarrow> rrule)"

definition toggle_day :: "day_code \<Rightarrow> day_code list \<Rightarrow> day_code list" where
  "toggle_day d days = (if d \<in> set days then filter (\<lambda>x. x \<noteq> d) days else days @ [d])"

lemma includes_needs_char: "c \<in> set p \<Longrightarrow> c \<notin> set s \<Longrightarrow> \<not> str_includes s p"
  by (auto simp: str_includes_conv)

lemma code_label_text: "code_label (day_text d) = day_label d"
  by (cases d) (simp_all add: code_label_def DAYS_def)

lemma join_chars: "c \<in> set (join sep xs) \<Longrightarrow> c \<in> set sep \<or> (\<exists>x \<in> set xs. c \<in> set x)"
  by (induction sep xs rule: join.induct) auto

lemma rule_text_chars: "c \<in> set (join '','' (map day_text days)) \<Longrightarrow> is_upper_or_comma c"
proof -
  assume "c \<in> set (join '','' (map day_text days))"
  then have "c = CHR '','' \<or> (\<exists>d. c \<in> set (day_text d))" using join_chars [of c "'',''" "map day_text days"] by auto
  moreover have "is_upper_or_comma c" if "c \<in> set (day_text d)" for d
    using that by (cases d) (auto simp: is_upper_or_comma_def)
  ultimately show ?thesis by (auto simp: is_upper_or_comma_def)
qed

lemma rule_parsed:
  assumes "days \<noteq> []"
  shows "byday_match (''FREQ=WEEKLY;BYDAY='' @ join '','' (map day_text days)) = Some (join '','' (map day_text days))"
    and "\<not> str_includes (''FREQ=WEEKLY;BYDAY='' @ join '','' (map day_text days)) ''FREQ=DAILY''"
proof -
  let ?j = "join '','' (map day_text days)"
  have all: "takeWhile is_upper_or_comma ?j = ?j" using rule_text_chars by (simp add: takeWhile_eq_all_conv)
  have "day_text (hd days) \<noteq> []" by (cases "hd days") simp_all
  then have "?j \<noteq> []" using assms by (cases days; cases "tl days") auto
  with all show "byday_match (''FREQ=WEEKLY;BYDAY='' @ ?j) = Some ?j"
    by (simp add: starts_with_def Let_def del: takeWhile_eq_all_conv)
  have "CHR ''='' \<notin> set ?j" using rule_text_chars [of "CHR ''=''" days] by (auto simp: is_upper_or_comma_def)
  then have "\<not> str_includes ?j ''FREQ=DAILY''" by (intro includes_needs_char [of "CHR ''=''"]) simp_all
  then show "\<not> str_includes (''FREQ=WEEKLY;BYDAY='' @ ?j) ''FREQ=DAILY''" by (simp add: starts_with_def)
qed


lemma codes_read_back: "days \<noteq> [] \<Longrightarrow> split_on CHR '','' (join '','' (map day_text days)) = map day_text days"
  by (intro split_on_join) (auto simp: day_text_no_comma)

lemma day_UNIV: "(UNIV :: day_code set) = set [MO, TU, WE, TH, FR, SA, SU]"
proof -
  have "d \<in> set [MO, TU, WE, TH, FR, SA, SU]" for d by (cases d) simp_all
  then show ?thesis by auto
qed

lemma all_seven:
  assumes "distinct (days :: day_code list)"
  shows "length days = 7 \<longleftrightarrow> set days = UNIV"
proof -
  have seven: "card (UNIV :: day_code set) = 7" unfolding day_UNIV by simp
  have fin: "finite (UNIV :: day_code set)" unfolding day_UNIV by simp
  show ?thesis
  proof
    assume "length days = 7"
    then show "set days = UNIV" using card_subset_eq [OF fin, of "set days"] seven distinct_card [OF assms] by simp
  next
    assume "set days = UNIV"
    then show "length days = 7" using seven distinct_card [OF assms] by simp
  qed
qed

lemma same_join:
  assumes "distinct days" "days \<noteq> []" "sorted ds" "distinct ds" "ds \<noteq> []"
  shows "join '','' (map day_text (sort days)) = join '','' (map day_text ds) \<longleftrightarrow> set days = set ds"
proof
  assume eq: "join '','' (map day_text (sort days)) = join '','' (map day_text ds)"
  have "sort days \<noteq> []" using assms(2) by (metis set_empty set_sort)
  then have "map day_text (sort days) = map day_text ds"
    using eq assms(5) by (intro join_inject [of _ _ "CHR '',''"]) (auto simp: day_text_no_comma)
  then have "sort days = ds" by (rule map_injective) (auto simp: inj_on_def day_text_inject)
  then show "set days = set ds" by (metis set_sort)
next
  assume "set days = set ds"
  then have "sort days = ds" using assms by (metis distinct_sort set_sort sorted_distinct_set_unique sorted_sort)
  then show "join '','' (map day_text (sort days)) = join '','' (map day_text ds)" by simp
qed

lemma describe_listed:
  assumes "\<not> str_includes r ''FREQ=DAILY''" "byday_match r = Some b" "split_on CHR '','' b = map day_text ds"
  shows "describeRule r =
    (if length ds = 7 then ''Every day''
     else if join '','' (map day_text ds) = ''MO,TU,WE,TH,FR'' then ''Weekdays''
     else if join '','' (map day_text ds) = ''SA,SU'' then ''Weekends''
     else join '', '' (map day_label ds))"
proof -
  have "map (code_label \<circ> day_text) ds = map day_label ds" by (simp add: code_label_text)
  then show ?thesis unfolding describeRule_def Let_def using assms by (simp del: map_eq_conv)
qed

text \<open>The hours that the form creates are described by the days that were ticked, in the order of the week and whatever the order they were
  ticked in: all seven are every day, Monday to Friday are weekdays, Saturday and Sunday weekends.\<close>

theorem described_as_ticked:
  assumes "days \<noteq> []" "distinct days"
  shows "describeRule (ws_rule (weeklySchedule isoDate days now)) =
    (if set days = UNIV then ''Every day''
     else if set days = {MO, TU, WE, TH, FR} then ''Weekdays''
     else if set days = {SA, SU} then ''Weekends''
     else join '', '' (map day_label (sort days)))"
proof -
  have ne: "sort days \<noteq> []" using assms(1) by (metis set_empty set_sort)
  have parsed: "byday_match (''FREQ=WEEKLY;BYDAY='' @ join '','' (map day_text (sort days))) = Some (join '','' (map day_text (sort days)))"
      "\<not> str_includes (''FREQ=WEEKLY;BYDAY='' @ join '','' (map day_text (sort days))) ''FREQ=DAILY''"
      "split_on CHR '','' (join '','' (map day_text (sort days))) = map day_text (sort days)"
    by (rule rule_parsed [OF ne] codes_read_back [OF ne])+
  have week: "join '','' (map day_text (sort days)) = ''MO,TU,WE,TH,FR'' \<longleftrightarrow> set days = {MO, TU, WE, TH, FR}"
    using same_join [OF assms(2,1), of "[MO, TU, WE, TH, FR]"] by (simp add: less_eq_day_code_def DAY_ORDER_def)
  have rest: "join '','' (map day_text (sort days)) = ''SA,SU'' \<longleftrightarrow> set days = {SA, SU}"
    using same_join [OF assms(2,1), of "[SA, SU]"] by (simp add: less_eq_day_code_def DAY_ORDER_def)
  show ?thesis
    unfolding weeklySchedule_def weekly_schedule.select_convs sort_days describe_listed [OF parsed(2,1,3)] week rest
    using all_seven [OF assms(2)] by (simp add: length_sort)
qed

theorem described_as_ticked_witness:
  "describeRule (ws_rule (weeklySchedule (\<lambda>t. ''2026-01-01'') [SU, SA] 0)) = ''Weekends'' \<and>
   describeRule (ws_rule (weeklySchedule (\<lambda>t. ''2026-01-01'') [WE, MO] 0)) = ''Mon, Wed''"
proof
  have no: "{SU, SA} \<noteq> UNIV" "{SU, SA} \<noteq> {MO, TU, WE, TH, FR}" "{WE, MO} \<noteq> UNIV" "{WE, MO} \<noteq> {MO, TU, WE, TH, FR}" "{WE, MO} \<noteq> {SA, SU}"
    by (auto simp: day_UNIV)
  show "describeRule (ws_rule (weeklySchedule (\<lambda>t. ''2026-01-01'') [SU, SA] 0)) = ''Weekends''"
    using described_as_ticked [of "[SU, SA]" "\<lambda>t. ''2026-01-01''" 0] no by (simp add: insert_commute)
  have "sort [WE, MO] = [MO, WE]" by (simp add: less_eq_day_code_def less_day_code_def DAY_ORDER_def)
  then show "describeRule (ws_rule (weeklySchedule (\<lambda>t. ''2026-01-01'') [WE, MO] 0)) = ''Mon, Wed''"
    using described_as_ticked [of "[WE, MO]" "\<lambda>t. ''2026-01-01''" 0] no by simp
qed

section \<open>The map's layers\<close>

record data_layer =
  dl_name :: string
  dl_statuses :: "(string \<times> string) list"

record overlay_layer =
  ol_id :: string
  ol_featureCount :: nat

definition dataLayer :: "data_layer list \<Rightarrow> string \<Rightarrow> data_layer option" where
  "dataLayer layers choice =
     (case find (\<lambda>l. dl_name l = choice) layers of
        Some l \<Rightarrow> Some l
      | None \<Rightarrow> find (\<lambda>l. dl_name l = ''sites'') layers)"

definition layerName :: "data_layer list \<Rightarrow> string \<Rightarrow> string" where
  "layerName layers choice = (case dataLayer layers choice of Some l \<Rightarrow> dl_name l | None \<Rightarrow> ''sites'')"

definition layer_statuses :: "data_layer list \<Rightarrow> string \<Rightarrow> (string \<times> string) list" where
  "layer_statuses layers choice = (case dataLayer layers choice of Some l \<Rightarrow> dl_statuses l | None \<Rightarrow> [])"

definition toggleOverlay :: "string \<Rightarrow> string list \<Rightarrow> string list" where
  "toggleOverlay i hidden = (if i \<in> set hidden then filter (\<lambda>h. h \<noteq> i) hidden else hidden @ [i])"

definition overlayLayers :: "overlay_layer list option \<Rightarrow> overlay_layer list" where
  "overlayLayers answer = filter (\<lambda>l. 0 < ol_featureCount l) (case answer of Some ls \<Rightarrow> ls | None \<Rightarrow> [])"

definition shown_overlays :: "overlay_layer list option \<Rightarrow> string list \<Rightarrow> overlay_layer list" where
  "shown_overlays answer hidden = filter (\<lambda>l. ol_id l \<notin> set hidden) (overlayLayers answer)"

text \<open>The basemaps the organization configured, once they are loaded, by id.\<close>

definition knownChoice :: "string list option \<Rightarrow> string \<Rightarrow> bool" where
  "knownChoice rasters choice \<longleftrightarrow>
     choice = ''auto'' \<or> choice = ''osm'' \<or> rasters = None \<or> choice \<in> set (case rasters of Some rs \<Rightarrow> rs | None \<Rightarrow> [])"

definition basemap :: "string list option \<Rightarrow> string \<Rightarrow> string \<Rightarrow> string" where
  "basemap rasters choice theme =
     (if choice = ''auto'' \<or> \<not> knownChoice rasters choice then (if theme = ''dark'' then ''dark'' else ''light'') else choice)"

definition basemapChoices :: "(string \<times> string) list \<Rightarrow> (string \<times> string) list" where
  "basemapChoices rasters = [(''auto'', ''Match theme''), (''osm'', ''OpenStreetMap'')] @ rasters"

text \<open>A remembered choice that is gone does no harm: once the lists are loaded, the layer drawn is one that is offered or the
  default, and the basemap is one of the offered ones or the theme's own; pressing an overlay twice shows what was shown before, and once
  flips exactly that overlay.\<close>

theorem map_choices_offered:
  shows "layerName layers choice \<in> insert ''sites'' (dl_name ` set layers)"
    and "basemap (Some (map fst rasters)) bchoice theme \<in> {''light'', ''dark''} \<union> fst ` set (basemapChoices rasters)"
    and "l \<in> set (overlayLayers answer) \<Longrightarrow>
      (l \<in> set (shown_overlays answer (toggleOverlay i hidden)) \<longleftrightarrow> (l \<in> set (shown_overlays answer hidden)) \<noteq> (ol_id l = i))"
    and "shown_overlays answer (toggleOverlay i (toggleOverlay i hidden)) = shown_overlays answer hidden"
proof -
  show "layerName layers choice \<in> insert ''sites'' (dl_name ` set layers)"
    by (auto simp: layerName_def dataLayer_def dest!: find_Some_in split: option.splits)
  show "basemap (Some (map fst rasters)) bchoice theme \<in> {''light'', ''dark''} \<union> fst ` set (basemapChoices rasters)"
    by (auto simp: basemap_def knownChoice_def basemapChoices_def)
  show "l \<in> set (overlayLayers answer) \<Longrightarrow>
      (l \<in> set (shown_overlays answer (toggleOverlay i hidden)) \<longleftrightarrow> (l \<in> set (shown_overlays answer hidden)) \<noteq> (ol_id l = i))"
    by (auto simp: shown_overlays_def toggleOverlay_def)
  have "set (toggleOverlay i (toggleOverlay i hidden)) = set hidden" by (auto simp: toggleOverlay_def)
  then show "shown_overlays answer (toggleOverlay i (toggleOverlay i hidden)) = shown_overlays answer hidden"
    by (simp add: shown_overlays_def)
qed

section \<open>The boundary check of a site, and the picker\<close>

definition is_scalar :: "js_value \<Rightarrow> bool" where
  "is_scalar v = (case v of JStr s \<Rightarrow> True | JNum n \<Rightarrow> True | JBool b \<Rightarrow> True | _ \<Rightarrow> False)"

definition null_or_finite :: "js_value \<Rightarrow> bool" where
  "null_or_finite v = (case v of JNull \<Rightarrow> True | JNum (Fin r) \<Rightarrow> True | _ \<Rightarrow> False)"

record raw_site =
  rw_attributes :: js_value
  rw_version :: js_value
  rw_latitude :: js_value
  rw_longitude :: js_value

text \<open>The fields of a date are not its own properties, so that a date passes as an empty bag of attributes.\<close>

definition parseSiteResponse :: "raw_site \<Rightarrow> string + raw_site" where
  "parseSiteResponse v =
     (if \<not> (case rw_attributes v of JObj fs \<Rightarrow> list_all (\<lambda>f. is_scalar (snd f)) fs | JDate d \<Rightarrow> True | _ \<Rightarrow> False)
      then Inl ''invalid site attributes''
      else if \<not> list_all null_or_finite [rw_version v, rw_latitude v, rw_longitude v]
      then Inl ''invalid site coordinates or version''
      else Inr v)"

definition searchTerm :: "string \<Rightarrow> string option \<Rightarrow> string" where
  "searchTerm typed selectedName = (if Some (trim typed) = selectedName then [] else trim typed)"


end
