(* ===== verification/Console_Roles.thy ===== *)
theory Console_Roles
  imports Console_Session
begin

text \<open>
  The editors of an organization: roles and their grants (\<^verbatim>\<open>apps/console/src/features/roles\<close>: \<^verbatim>\<open>schema.ts\<close>, \<^verbatim>\<open>labels.ts\<close> and the form of
  \<^verbatim>\<open>role-editor.tsx\<close>), the names of the hierarchy's levels (\<^verbatim>\<open>features/hierarchy/levels-fields.tsx\<close>), and the value of an entitlement
  (\<^verbatim>\<open>features/operator/schema.ts\<close>).
\<close>

section \<open>Grants\<close>

record grant_spec =
  gr_domain :: string
  gr_action :: string

definition GRANTABLE :: "string list" where
  "GRANTABLE = filter (\<lambda>c. c \<noteq> ''public:read'' \<and> c \<noteq> ''platform:operate'') CAPABILITIES"

definition grantKey :: "grant_spec \<Rightarrow> string" where
  "grantKey g = gr_domain g @ '':'' @ gr_action g"

definition parseGrant :: "string \<Rightarrow> string + grant_spec" where
  "parseGrant v =
     (case split_on CHR '':'' v of
        [d, a] \<Rightarrow> if d = [] \<or> a = [] then Inl ''invalid capability'' else Inr \<lparr>gr_domain = d, gr_action = a\<rparr>
      | _ \<Rightarrow> Inl ''invalid capability'')"

definition CAPABILITY_LABELS :: "(string \<times> string \<times> string) list" where
  "CAPABILITY_LABELS =
    [(''public:read'', ''See public site info'', ''Sites''), (''sites:read'', ''See sites'', ''Sites''),
     (''sites:manage'', ''Manage sites'', ''Sites''), (''hierarchy:manage'', ''Manage the hierarchy'', ''Sites''),
     (''ingest:manage'', ''Bulk-load sites'', ''Sites''), (''reports:generate'', ''Generate reports'', ''Reports''),
     (''overlays:read'', ''See map overlays'', ''Map''), (''overlays:manage'', ''Manage map overlays'', ''Map''),
     (''checklists:complete'', ''Complete checklists'', ''Checklists''),
     (''checklists:manage'', ''Manage checklist templates'', ''Checklists''), (''files:read'', ''See files'', ''Files''),
     (''files:manage'', ''Manage files'', ''Files''), (''audit:read'', ''Read the audit log'', ''Audit''),
     (''audit:manage'', ''Manage audit settings'', ''Audit''), (''roles:manage'', ''Manage roles and members'', ''Organization''),
     (''entitlements:manage'', ''Manage the plan'', ''Organization''),
     (''org:manage'', ''Manage organization settings'', ''Organization''), (''platform:operate'', ''Operate the platform'', ''Platform'')]"

definition CAPABILITY_GROUPS :: "string list" where
  "CAPABILITY_GROUPS = [''Sites'', ''Checklists'', ''Files'', ''Reports'', ''Map'', ''Audit'', ''Organization'']"

definition capabilityLabel :: "string \<Rightarrow> string" where
  "capabilityLabel key =
     (if key = ''*:*'' then ''Everything'' else case map_of CAPABILITY_LABELS key of Some (l, g) \<Rightarrow> l | None \<Rightarrow> key)"

definition group_keys :: "string \<Rightarrow> string list" where
  "group_keys g = filter (\<lambda>c. map_option snd (map_of CAPABILITY_LABELS c) = Some g) GRANTABLE"

section \<open>The role editor\<close>

record role_response =
  ro_id :: string
  ro_name :: string
  ro_grants :: "grant_spec list"

record role_editor =
  re_name :: string
  re_picked :: "string list"

definition WILDCARD :: string where
  "WILDCARD = ''*:*''"

text \<open>The set of picked keys, in the order of insertion.\<close>

definition role_open :: "role_response option \<Rightarrow> role_editor" where
  "role_open role =
     (case role of
        None \<Rightarrow> \<lparr>re_name = [], re_picked = []\<rparr>
      | Some r \<Rightarrow> \<lparr>re_name = ro_name r, re_picked = rev (remdups (rev (map grantKey (ro_grants r))))\<rparr>)"

definition role_toggle :: "string \<Rightarrow> role_editor \<Rightarrow> role_editor" where
  "role_toggle key st =
     st\<lparr>re_picked := (if key \<in> set (re_picked st) then filter (\<lambda>k. k \<noteq> key) (re_picked st) else re_picked st @ [key])\<rparr>"

definition role_rename :: "string \<Rightarrow> role_editor \<Rightarrow> role_editor" where
  "role_rename name st = st\<lparr>re_name := name\<rparr>"

record grant_box =
  gb_key :: string
  gb_checked :: bool
  gb_disabled :: bool

definition role_boxes :: "role_editor \<Rightarrow> (string \<times> grant_box list) list" where
  "role_boxes st =
     (let everything = (WILDCARD \<in> set (re_picked st))
      in map (\<lambda>g. (g, map (\<lambda>c. \<lparr>gb_key = c, gb_checked = (everything \<or> c \<in> set (re_picked st)), gb_disabled = everything\<rparr>) (group_keys g)))
           (filter (\<lambda>g. group_keys g \<noteq> []) CAPABILITY_GROUPS))"

definition role_can_save :: "role_editor \<Rightarrow> bool \<Rightarrow> bool" where
  "role_can_save st isPending \<longleftrightarrow> trim (re_name st) \<noteq> [] \<and> re_picked st \<noteq> [] \<and> \<not> isPending"

fun parse_all :: "string list \<Rightarrow> string + grant_spec list" where
  "parse_all [] = Inr []"
| "parse_all (k # ks) =
     (case parseGrant k of
        Inl e \<Rightarrow> Inl e
      | Inr g \<Rightarrow> (case parse_all ks of Inl e \<Rightarrow> Inl e | Inr gs \<Rightarrow> Inr (g # gs)))"

definition role_save :: "role_response option \<Rightarrow> role_editor \<Rightarrow> string + (string option \<times> string \<times> grant_spec list)" where
  "role_save role st =
     (case parse_all (re_picked st) of
        Inl e \<Rightarrow> Inl e
      | Inr gs \<Rightarrow> Inr (map_option ro_id role, trim (re_name st), gs))"

section \<open>What is saved\<close>

definition grant_ok :: "grant_spec \<Rightarrow> bool" where
  "grant_ok g \<longleftrightarrow> gr_domain g \<noteq> [] \<and> gr_action g \<noteq> [] \<and> CHR '':'' \<notin> set (gr_domain g) \<and> CHR '':'' \<notin> set (gr_action g)"

lemma grant_roundtrip: "grant_ok g \<Longrightarrow> parseGrant (grantKey g) = Inr g"
  by (simp add: grant_ok_def grantKey_def parseGrant_def split_on_append split_on_no_sep)

lemma split_two: "split_on c v = [d, a] \<Longrightarrow> v = d @ c # a \<and> c \<notin> set d \<and> c \<notin> set a"
proof -
  have sole: "split_on c v = [a] \<Longrightarrow> v = a \<and> c \<notin> set a" for v a
  proof (induction v arbitrary: a)
    case (Cons x v)
    then show ?case by (auto split: if_splits list.splits)
  qed simp
  show "split_on c v = [d, a] \<Longrightarrow> v = d @ c # a \<and> c \<notin> set d \<and> c \<notin> set a"
  proof (induction v arbitrary: d)
    case (Cons x v)
    then show ?case using sole [of v a] by (auto split: if_splits list.splits)
  qed simp
qed

lemma parsed_grant: "parseGrant v = Inr g \<Longrightarrow> grant_ok g \<and> grantKey g = v"
proof -
  assume parsed: "parseGrant v = Inr g"
  then obtain d a where "split_on CHR '':'' v = [d, a]"
    by (auto simp: parseGrant_def split: list.splits)
  with parsed split_two [OF this] show ?thesis by (auto simp: parseGrant_def grant_ok_def grantKey_def split: if_splits)
qed

lemma grant_key_inj: "grant_ok g \<Longrightarrow> grant_ok h \<Longrightarrow> grantKey g = grantKey h \<Longrightarrow> g = h"
  by (metis Inr_inject grant_roundtrip)

lemma parse_keys: "list_all grant_ok gs \<Longrightarrow> parse_all (map grantKey gs) = Inr gs"
  by (induction gs) (simp_all add: grant_roundtrip)

lemma remdups_key:
  assumes "list_all grant_ok gs"
  shows "rev (remdups (rev (map grantKey gs))) = map grantKey (rev (remdups (rev gs)))"
proof -
  have "remdups (map grantKey hs) = map grantKey (remdups hs)" if "list_all grant_ok hs" for hs
    using that
  proof (induction hs)
    case (Cons h hs)
    have "grantKey h \<in> grantKey ` set hs \<longleftrightarrow> h \<in> set hs"
      using Cons.prems grant_key_inj [of h] by (auto simp: list_all_iff)
    with Cons show ?case by simp
  qed simp
  from this [of "rev gs"] assms show ?thesis by (simp add: rev_map list_all_iff)
qed

text \<open>A press on a box, on a role whose grants have a domain and an action.\<close>

lemma picked_grants:
  assumes "re_picked st = map grantKey gs" "distinct gs" "list_all grant_ok gs" "grant_ok g"
  shows "re_picked (role_toggle (grantKey g) st) = map grantKey (if g \<in> set gs then filter (\<lambda>h. h \<noteq> g) gs else gs @ [g])"
proof -
  have "grantKey h = grantKey g \<longleftrightarrow> h = g" if "h \<in> set gs" for h
    using that assms(3,4) grant_key_inj [of h g] by (auto simp: list_all_iff)
  then have key: "grantKey h = grantKey g \<longleftrightarrow> h = g" if "h \<in> set gs" for h using that by blast
  have "grantKey g \<in> grantKey ` set gs \<longleftrightarrow> g \<in> set gs" using key by (metis image_iff)
  moreover have "filter (\<lambda>k. k \<noteq> grantKey g) (map grantKey gs) = map grantKey (filter (\<lambda>h. h \<noteq> g) gs)"
    using key by (simp add: filter_map comp_def cong: filter_cong)
  ultimately show ?thesis using assms(1) by (simp add: role_toggle_def)
qed

definition press_all :: "grant_spec list \<Rightarrow> role_editor \<Rightarrow> role_editor" where
  "press_all gs st = fold (\<lambda>g. role_toggle (grantKey g)) gs st"

text \<open>The grants after the presses, as a set: each press flips its own.\<close>

definition flip :: "'a \<Rightarrow> 'a set \<Rightarrow> 'a set" where
  "flip g S = (if g \<in> S then S - {g} else insert g S)"

lemma presses_saved:
  assumes "re_picked st = map grantKey gs" "distinct gs" "list_all grant_ok gs" "list_all grant_ok ps"
  shows "\<exists>hs. re_picked (press_all ps st) = map grantKey hs \<and> distinct hs \<and> list_all grant_ok hs \<and>
    set hs = fold flip ps (set gs) \<and> re_name (press_all ps st) = re_name st"
  using assms
proof (induction ps arbitrary: st gs)
  case (Cons p ps)
  let ?gs = "if p \<in> set gs then filter (\<lambda>h. h \<noteq> p) gs else gs @ [p]"
  have "re_picked (role_toggle (grantKey p) st) = map grantKey ?gs" "distinct ?gs" "list_all grant_ok ?gs"
      "set ?gs = flip p (set gs)" "re_name (role_toggle (grantKey p) st) = re_name st"
    using picked_grants [of st gs p] Cons.prems by (auto simp: flip_def role_toggle_def list_all_iff)
  with Cons.IH [of "role_toggle (grantKey p) st" ?gs] Cons.prems(4) show ?case by (simp add: press_all_def)
qed (auto simp: press_all_def)

text \<open>Saving a role sends what the boxes say.  Opening a role, pressing any boxes in any order and saving never fails on a key, and
  the grants sent are the role's own with each press flipping its grant, each of them once; with no press they are the
  role's own grants, those that no box of the editor shows included.\<close>

theorem role_saved_as_pressed:
  assumes "list_all grant_ok (ro_grants r)" "list_all grant_ok ps"
  shows "\<exists>gs. role_save (Some r) (press_all ps (role_open (Some r))) = Inr (Some (ro_id r), trim (ro_name r), gs) \<and>
    distinct gs \<and> set gs = fold flip ps (set (ro_grants r))"
proof -
  have "list_all grant_ok (rev (remdups (rev (ro_grants r))))" using assms(1) by (simp add: list_all_iff)
  from presses_saved [OF _ _ this assms(2), of "role_open (Some r)"] remdups_key [OF assms(1)]
  obtain hs where "re_picked (press_all ps (role_open (Some r))) = map grantKey hs" "distinct hs" "list_all grant_ok hs"
      "set hs = fold flip ps (set (ro_grants r))" "re_name (press_all ps (role_open (Some r))) = ro_name r"
    by (auto simp: role_open_def)
  then show ?thesis by (simp add: role_save_def parse_keys)
qed

text \<open>Every grantable capability has exactly one box, and the box parses as a grant.\<close>

theorem each_capability_one_box:
  "mset (concat (map (\<lambda>(g, bs). map gb_key bs) (role_boxes st))) = mset GRANTABLE \<and>
   list_all (\<lambda>k. \<exists>g. parseGrant k = Inr g) GRANTABLE"
proof -
  have keys: "map gb_key (map (\<lambda>c. \<lparr>gb_key = c, gb_checked = P c, gb_disabled = d\<rparr>) ks) = ks" for P d ks
    by (induction ks) simp_all
  have "concat (map (\<lambda>(g, bs). map gb_key bs) (role_boxes st)) = concat (map group_keys (filter (\<lambda>g. group_keys g \<noteq> []) CAPABILITY_GROUPS))"
    by (simp add: role_boxes_def Let_def comp_def)
  moreover have "mset (concat (map group_keys (filter (\<lambda>g. group_keys g \<noteq> []) CAPABILITY_GROUPS))) = mset GRANTABLE" by code_simp
  moreover have "list_all (\<lambda>k. \<not> isl (parseGrant k)) GRANTABLE" by code_simp
  ultimately show ?thesis by (auto simp: list_all_iff) (metis isl_def sum.exhaust_sel sum.collapse(2))
qed

section \<open>Level names\<close>

datatype level_event = Rename nat string | RemoveLevel nat | AddLevel

definition levelLabel :: "nat \<Rightarrow> string" where
  "levelLabel index = (if index = 0 then ''Top level'' else ''Level '' @ nat_to_dec (index + 1))"

text \<open>Mapping and filtering by index change or drop one entry; a button that is disabled does nothing.\<close>

fun levels_step :: "nat \<Rightarrow> nat \<Rightarrow> level_event \<Rightarrow> string list \<Rightarrow> string list" where
  "levels_step mx mn (Rename i s) levels = levels[i := s]"
| "levels_step mx mn (RemoveLevel i) levels =
     (if length levels \<le> 1 \<or> i < mn then levels else take i levels @ drop (Suc i) levels)"
| "levels_step mx mn AddLevel levels = (if length levels \<ge> mx then levels else levels @ [[]])"

definition levels_run :: "nat \<Rightarrow> nat \<Rightarrow> level_event list \<Rightarrow> string list \<Rightarrow> string list" where
  "levels_run mx mn evs levels = fold (levels_step mx mn) evs levels"

text \<open>The number of levels stays between the deepest level in use, or one, and what the plan allows, and a level in use
  keeps its name unless it is renamed.\<close>

theorem levels_within_plan:
  assumes "max 1 mn \<le> length levels" "length levels \<le> mx"
  shows "max 1 mn \<le> length (levels_run mx mn evs levels) \<and> length (levels_run mx mn evs levels) \<le> mx \<and>
    (\<forall>i < mn. (\<forall>s. Rename i s \<notin> set evs) \<longrightarrow> levels_run mx mn evs levels ! i = levels ! i)"
  using assms
proof (induction evs arbitrary: levels)
  case (Cons ev evs)
  let ?next = "levels_step mx mn ev levels"
  have "max 1 mn \<le> length ?next" "length ?next \<le> mx" using Cons.prems by (cases ev; auto)+
  moreover have "?next ! i = levels ! i" if "i < mn" "\<forall>s. Rename i s \<noteq> ev" for i
    using that Cons.prems by (cases ev) (auto simp: nth_append nth_list_update)
  ultimately show ?case using Cons.IH [of ?next] by (auto simp: levels_run_def)
qed (simp add: levels_run_def)

theorem levels_within_plan_witness:
  "length (levels_run 3 1 [AddLevel, AddLevel, RemoveLevel 0, RemoveLevel 1] [''Region'', ''Market'']) \<le> 3 \<and>
   levels_run 3 1 [AddLevel, AddLevel, RemoveLevel 0, RemoveLevel 1] [''Region'', ''Market''] ! 0 = ''Region''"
  using levels_within_plan [of 1 "[''Region'', ''Market'']" 3 "[AddLevel, AddLevel, RemoveLevel 0, RemoveLevel 1]"] by simp

definition parseEntitlementValue :: "string \<Rightarrow> string + string" where
  "parseEntitlementValue v = (if trim v = [] then Inl ''entitlement value is required'' else Inr (trim v))"

definition sample_role :: role_response where
  "sample_role =
     \<lparr>ro_id = ''r1'', ro_name = '' Manager '',
      ro_grants = [\<lparr>gr_domain = ''platform'', gr_action = ''operate''\<rparr>, \<lparr>gr_domain = ''sites'', gr_action = ''read''\<rparr>]\<rparr>"

theorem role_saved_as_pressed_witness:
  "\<exists>gs. role_save (Some sample_role) (press_all [\<lparr>gr_domain = ''sites'', gr_action = ''read''\<rparr>] (role_open (Some sample_role))) =
      Inr (Some ''r1'', ''Manager'', gs) \<and> set gs = {\<lparr>gr_domain = ''platform'', gr_action = ''operate''\<rparr>}"
proof -
  have "list_all grant_ok (ro_grants sample_role)" "list_all grant_ok [\<lparr>gr_domain = ''sites'', gr_action = ''read''\<rparr>]"
      "trim (ro_name sample_role) = ''Manager''" "ro_id sample_role = ''r1''" by code_simp+
  with role_saved_as_pressed [of sample_role "[\<lparr>gr_domain = ''sites'', gr_action = ''read''\<rparr>]"] show ?thesis
    by (auto simp: flip_def sample_role_def)
qed

end
