(* ===== verification/Code_Block_Lines.thy ===== *)
theory Code_Block_Lines
  imports Prelude "HOL-Library.AList"
begin

text \<open>
  The pure part of the code block (\<^verbatim>\<open>reui/code-block/code-block-highlight.tsx\<close>): rendered lines and their state, line
  specifications, the word marks, the notation that a copy drops, plain lines, and the fences of a markdown text.  A set of line
  numbers is the list of what was added to it, since only membership and emptiness are asked.  The state of a line is an object
  of at most four keys; it lists them in the order in which they were set, which its JSON text shows.
\<close>

section \<open>Lines\<close>

datatype font_style = FontItalic | FontBold | FontUnderline

record cb_token =
  tk_content :: string
  tk_color :: "string option"
  tk_colorDark :: "string option"
  tk_fontStyle :: "font_style option"
  tk_word :: bool

datatype state_value = StateTrue | StateText string

type_synonym line_state = "(string \<times> state_value) list"

record cb_line =
  ln_tokens :: "cb_token list"
  ln_number :: int
  ln_text :: string
  ln_state :: "line_state option"
  ln_gutter :: "string option"

definition plain_token :: "string \<Rightarrow> cb_token" where
  "plain_token s = \<lparr>tk_content = s, tk_color = None, tk_colorDark = None, tk_fontStyle = None, tk_word = False\<rparr>"

section \<open>Line specifications\<close>

datatype line_spec = LineNumbers "js_num list" | LineText string

text \<open>\<^verbatim>\<open>Number.isInteger(value) && value > 0\<close>\<close>

fun positive_integer :: "js_num \<Rightarrow> nat option" where
  "positive_integer (Fin r) = (if of_int \<lfloor>r\<rfloor> = r \<and> r > 0 then Some (nat \<lfloor>r\<rfloor>) else None)"
| "positive_integer _ = None"

text \<open>\<^verbatim>\<open>/^(\d+)\s*-\s*(\d+)$/\<close> with its groups read as numbers.\<close>

definition range_match :: "string \<Rightarrow> (nat \<times> nat) option" where
  "range_match s =
     (let a = takeWhile is_digit s
      in case dropWhile is_ws (dropWhile is_digit s) of
           [] \<Rightarrow> None
         | c # r \<Rightarrow>
             (let b = dropWhile is_ws r
              in if a \<noteq> [] \<and> c = CHR ''-'' \<and> b \<noteq> [] \<and> list_all is_digit b then Some (dec_value a, dec_value b) else None))"

definition spec_part :: "string \<Rightarrow> nat list" where
  "spec_part part =
     (let trimmed = trim part
      in if trimmed = [] then []
         else case range_match trimmed of
                Some (first, final) \<Rightarrow> if 0 < first \<and> first \<le> final then [first..<Suc final] else []
              | None \<Rightarrow> if list_all is_digit trimmed \<and> 0 < dec_value trimmed then [dec_value trimmed] else [])"

definition parseLineSpec :: "line_spec option \<Rightarrow> nat list" where
  "parseLineSpec spec =
     (case spec of
        None \<Rightarrow> []
      | Some (LineNumbers vs) \<Rightarrow> List.map_filter positive_integer vs
      | Some (LineText s) \<Rightarrow> if s = [] then [] else concat (map spec_part (split_on CHR '','' s)))"

text \<open>\<^verbatim>\<open>code.replace(/\r\n?/g, "\n")\<close>\<close>

abbreviation CR :: char where "CR \<equiv> CHR 0x0D"
abbreviation LF :: char where "LF \<equiv> CHR 0x0A"

fun normalizeCode :: "string \<Rightarrow> string" where
  "normalizeCode [] = []"
| "normalizeCode (c # s) =
     (if c = CR then LF # (case s of [] \<Rightarrow> [] | d # s' \<Rightarrow> if d = LF then normalizeCode s' else normalizeCode s)
      else c # normalizeCode s)"

section \<open>Word marks\<close>

datatype word_spec = PlainWord string | WordIn string "line_spec option"

definition line_starts :: "string \<Rightarrow> nat list" where
  "line_starts code = 0 # map Suc (filter (\<lambda>i. code ! i = LF) [0..<length code])"

function line_search :: "nat list \<Rightarrow> nat \<Rightarrow> nat \<Rightarrow> nat \<Rightarrow> nat" where
  "line_search starts offset low high =
     (if low < high
      then (let mid = (low + high + 1) div 2
            in if starts ! mid \<le> offset then line_search starts offset mid high else line_search starts offset low (mid - 1))
      else low)"
  by pat_completeness auto
termination by (relation "measure (\<lambda>(starts, offset, low, high). high - low)") auto

declare line_search.simps [simp del]

definition lineAt :: "string \<Rightarrow> nat \<Rightarrow> nat" where
  "lineAt code offset = line_search (line_starts code) offset 0 (length (line_starts code) - 1) + 1"

text \<open>\<^verbatim>\<open>code.indexOf(word, from)\<close>\<close>

definition index_of_from :: "string \<Rightarrow> string \<Rightarrow> nat \<Rightarrow> nat option" where
  "index_of_from code word k = List.find (\<lambda>i. starts_with (drop i code) word) [k..<Suc (length code)]"

lemma index_of_from_Some: "index_of_from code word k = Some i \<Longrightarrow> k \<le> i \<and> i \<le> length code \<and> starts_with (drop i code) word"
  unfolding index_of_from_def by (drule find_Some_in) auto

text \<open>The ranges taken so far are also the ones that are given out; the limit is \<open>None\<close> for a word without lines.\<close>

function word_loop :: "string \<Rightarrow> string \<Rightarrow> nat list option \<Rightarrow> nat option \<Rightarrow> (nat \<times> nat) list \<Rightarrow> (nat \<times> nat) list" where
  "word_loop code word limit pos taken =
     (case pos of
        None \<Rightarrow> taken
      | Some a \<Rightarrow>
          if word = [] then taken
          else (let b = a + length word;
                    withinLimit = (case limit of None \<Rightarrow> True | Some ls \<Rightarrow> ls = [] \<or> lineAt code a \<in> set ls);
                    overlaps = list_ex (\<lambda>(s, e). a < e \<and> b > s) taken
                in word_loop code word limit (index_of_from code word (a + length word))
                     (if withinLimit \<and> \<not> overlaps then taken @ [(a, b)] else taken)))"
  by pat_completeness auto
termination
  by (relation "measure (\<lambda>(code, word, limit, pos, taken). case pos of None \<Rightarrow> 0 | Some a \<Rightarrow> Suc (Suc (length code) - a))")
    (auto simp flip: length_greater_0_conv split: option.splits dest!: index_of_from_Some)

declare word_loop.simps [simp del]

definition word_entry :: "string \<Rightarrow> word_spec \<Rightarrow> (nat \<times> nat) list \<Rightarrow> (nat \<times> nat) list" where
  "word_entry code entry taken =
     (let word = (case entry of PlainWord w \<Rightarrow> w | WordIn w _ \<Rightarrow> w);
          limit = (case entry of PlainWord _ \<Rightarrow> None | WordIn _ ls \<Rightarrow> Some (parseLineSpec ls))
      in if word = [] then taken else word_loop code word limit (index_of_from code word 0) taken)"

definition buildWordDecorations :: "string \<Rightarrow> word_spec list \<Rightarrow> (nat \<times> nat) list" where
  "buildWordDecorations code words = sort_key fst (fold (word_entry code) words [])"

section \<open>What a copy drops\<close>

text \<open>The whole of a text matches \<^verbatim>\<open>\s*(?:\/\/|#|--|;|%|<!--|\/\*)\s*\[!code[^\]]*\]\s*(?:-->|\*\/)?\s*$\<close>.\<close>

definition drop_prefix :: "string list \<Rightarrow> string \<Rightarrow> string option" where
  "drop_prefix ps s = map_option (\<lambda>p. drop (length p) s) (List.find (starts_with s) ps)"

definition notation_tail :: "string \<Rightarrow> bool" where
  "notation_tail s =
     (case drop_prefix [''//'', ''#'', ''--'', '';'', ''%'', ''<!--'', ''/*''] (dropWhile is_ws s) of
        None \<Rightarrow> False
      | Some r \<Rightarrow>
          (case drop_prefix [''[!code''] (dropWhile is_ws r) of
             None \<Rightarrow> False
           | Some q \<Rightarrow>
               (case dropWhile (\<lambda>c. c \<noteq> CHR '']'') q of
                  [] \<Rightarrow> False
                | _ # p \<Rightarrow>
                    (let e = dropWhile is_ws p
                     in list_all is_ws (case drop_prefix [''-->'', ''*/''] e of None \<Rightarrow> e | Some e' \<Rightarrow> e')))))"

definition strip_line :: "string \<Rightarrow> string" where
  "strip_line line =
     (case List.find (\<lambda>i. notation_tail (drop i line)) [0..<length line] of None \<Rightarrow> line | Some i \<Rightarrow> take i line)"

definition stripNotationComments :: "string \<Rightarrow> string" where
  "stripNotationComments code = join [LF] (map strip_line (split_on LF code))"

section \<open>Plain lines\<close>

definition plain_line :: "int \<Rightarrow> string \<Rightarrow> cb_line" where
  "plain_line n s =
     \<lparr>ln_tokens = (if s = [] then [] else [plain_token s]), ln_number = n, ln_text = s, ln_state = None, ln_gutter = None\<rparr>"

definition toPlainLines :: "string \<Rightarrow> int \<Rightarrow> cb_line list" where
  "toPlainLines code startLine =
     map (\<lambda>(i, s). plain_line (startLine + int i) s) (enumerate 0 (split_on LF (normalizeCode code)))"

section \<open>Markdown\<close>

text \<open>The children of an element: nothing, text, a number with its text, a list, or an element with its class and children.\<close>

datatype md_node = MdNothing | MdText string | MdNumber string | MdList "md_node list" | MdElement "string option" md_node

definition is_word_char :: "char \<Rightarrow> bool" where
  "is_word_char c \<longleftrightarrow>
     (let n = of_char c :: nat in 48 \<le> n \<and> n \<le> 57 \<or> 65 \<le> n \<and> n \<le> 90 \<or> 97 \<le> n \<and> n \<le> 122 \<or> n = 95) \<or> c \<in> set ''+#-''"

text \<open>\<^verbatim>\<open>/(?:^|\s)language-([\w+#-]+)/\<close>\<close>

definition language_class :: "string \<Rightarrow> string option" where
  "language_class s =
     map_option (\<lambda>i. takeWhile is_word_char (drop (i + length ''language-'') s))
       (List.find (\<lambda>i. (i = 0 \<or> is_ws (s ! (i - 1))) \<and> starts_with (drop i s) ''language-'' \<and>
          takeWhile is_word_char (drop (i + length ''language-'') s) \<noteq> []) [0..<length s])"

definition readClassName :: "string option \<Rightarrow> string option \<Rightarrow> string option" where
  "readClassName cls language =
     (case language of Some l \<Rightarrow> Some l | None \<Rightarrow> (case cls of None \<Rightarrow> None | Some s \<Rightarrow> language_class s))"

fun md_walk :: "md_node \<Rightarrow> string \<times> string option \<Rightarrow> string \<times> string option" where
  "md_walk MdNothing (code, language) = (code, language)"
| "md_walk (MdText s) (code, language) = (code @ s, language)"
| "md_walk (MdNumber s) (code, language) = (code @ s, language)"
| "md_walk (MdList []) (code, language) = (code, language)"
| "md_walk (MdList (n # ns)) (code, language) = md_walk (MdList ns) (md_walk n (code, language))"
| "md_walk (MdElement cls kids) (code, language) = md_walk kids (code, readClassName cls language)"

definition markdownCodeProps :: "string option \<Rightarrow> md_node \<Rightarrow> string \<times> string option" where
  "markdownCodeProps cls kids =
     (case md_walk kids ([], readClassName cls None) of
        (code, language) \<Rightarrow> (if code \<noteq> [] \<and> last code = LF then butlast code else code, language))"

record md_part =
  mp_code :: bool
  mp_content :: string
  mp_language :: "string option"
  mp_open :: bool

record fence_state =
  fs_parts :: "md_part list"
  fs_inFence :: bool
  fs_opener :: string
  fs_language :: "string option"
  fs_buffer :: "string list"

definition flushText :: "fence_state \<Rightarrow> fence_state" where
  "flushText st =
     (let text = trim (join [LF] (fs_buffer st))
      in st\<lparr>fs_parts := fs_parts st @
                (if text = [] then [] else [\<lparr>mp_code = False, mp_content = text, mp_language = None, mp_open = False\<rparr>]),
            fs_buffer := []\<rparr>)"

definition flushCode :: "bool \<Rightarrow> fence_state \<Rightarrow> fence_state" where
  "flushCode isOpen st =
     st\<lparr>fs_parts := fs_parts st @
          [\<lparr>mp_code = True, mp_content = join [LF] (fs_buffer st), mp_language = fs_language st, mp_open = isOpen\<rparr>],
        fs_buffer := [], fs_language := None\<rparr>"

text \<open>\<^verbatim>\<open>/^\s*(`{3,}|~{3,})([\w+#-]*)\s*$/\<close>\<close>

definition fence_match :: "string \<Rightarrow> (string \<times> string) option" where
  "fence_match line =
     (case dropWhile is_ws line of
        [] \<Rightarrow> None
      | c # s \<Rightarrow>
          (let mark = takeWhile (\<lambda>d. d = c) (c # s); r = dropWhile (\<lambda>d. d = c) (c # s)
           in if (c = CHR ''`'' \<or> c = CHR ''~'') \<and> 3 \<le> length mark \<and> list_all is_ws (dropWhile is_word_char r)
              then Some (mark, takeWhile is_word_char r) else None))"

definition fence_line :: "string \<Rightarrow> fence_state \<Rightarrow> fence_state" where
  "fence_line line st =
     (case fence_match line of
        Some (mark, lang) \<Rightarrow>
          if \<not> fs_inFence st
          then (flushText st)\<lparr>fs_inFence := True, fs_opener := mark, fs_language := (if lang = [] then None else Some lang)\<rparr>
          else if hd mark = hd (fs_opener st) \<and> length mark \<ge> length (fs_opener st) \<and> lang = []
          then (flushCode False st)\<lparr>fs_inFence := False\<rparr>
          else st\<lparr>fs_buffer := fs_buffer st @ [line]\<rparr>
      | None \<Rightarrow> st\<lparr>fs_buffer := fs_buffer st @ [line]\<rparr>)"

definition fence_start :: fence_state where
  "fence_start = \<lparr>fs_parts = [], fs_inFence = False, fs_opener = [], fs_language = None, fs_buffer = []\<rparr>"

definition markdownFences :: "string \<Rightarrow> md_part list" where
  "markdownFences markdown =
     (let st = fold fence_line (split_on LF markdown) fence_start
      in fs_parts (if fs_inFence st then flushCode True st else flushText st))"

section \<open>The line of an offset\<close>

definition newlines_before :: "string \<Rightarrow> nat \<Rightarrow> nat" where
  "newlines_before code k = length (filter (\<lambda>i. code ! i = LF) [0..<k])"

lemma line_search_found:
  assumes "low \<le> high" "high < length starts" "starts ! low \<le> offset" "\<And>i. high < i \<Longrightarrow> i < length starts \<Longrightarrow> offset < starts ! i"
    and "sorted starts"
  shows "low \<le> line_search starts offset low high \<and> line_search starts offset low high < length starts \<and>
    starts ! line_search starts offset low high \<le> offset \<and>
    (\<forall>i. line_search starts offset low high < i \<longrightarrow> i < length starts \<longrightarrow> offset < starts ! i)"
  using assms
proof (induction starts offset low high rule: line_search.induct)
  case (1 starts offset low high)
  let ?mid = "(low + high + 1) div 2"
  consider "\<not> low < high" | "low < high" "starts ! ?mid \<le> offset" | "low < high" "\<not> starts ! ?mid \<le> offset" by blast
  then show ?case
  proof cases
    case 1
    then have "line_search starts offset low high = low" by (subst line_search.simps) simp
    then show ?thesis using 1 "1.prems" by auto
  next
    case 2
    then have "line_search starts offset low high = line_search starts offset ?mid high"
      by (subst line_search.simps) (simp add: Let_def)
    moreover have "low \<le> ?mid" "?mid \<le> high" using 2(1) by auto
    ultimately show ?thesis using "1.IH"(1) [OF 2(1) refl 2(2) _ "1.prems"(2) 2(2) "1.prems"(4,5)] by force
  next
    case 3
    have beyond: "offset < starts ! i" if "?mid - 1 < i" "i < length starts" for i
    proof -
      have "?mid \<le> i" using that(1) by simp
      then have "starts ! ?mid \<le> starts ! i" using "1.prems"(5) that(2) by (simp add: sorted_nth_mono)
      with 3(2) show ?thesis by simp
    qed
    have "line_search starts offset low high = line_search starts offset low (?mid - 1)"
      using 3 by (subst line_search.simps) (simp add: Let_def)
    moreover have "low \<le> ?mid - 1" "?mid - 1 < length starts" using 3(1) "1.prems"(2) by auto
    ultimately show ?thesis using "1.IH"(2) [OF 3(1) refl 3(2) _ _ "1.prems"(3) beyond "1.prems"(5)] by simp
  qed
qed

lemma line_starts_sorted: "sorted (line_starts code)"
  by (simp add: line_starts_def sorted_wrt_filter sorted_map comp_def)

lemma sorted_split_count:
  fixes xs :: "nat list"
  assumes "sorted xs" "r < length xs" "xs ! r \<le> k" "\<forall>i. r < i \<longrightarrow> i < length xs \<longrightarrow> k < xs ! i"
  shows "length (filter (\<lambda>x. x \<le> k) xs) = Suc r"
proof -
  have "xs ! i \<le> k \<longleftrightarrow> i \<le> r" if "i < length xs" for i
    using that assms sorted_nth_mono [OF assms(1), of i r] by (cases "i \<le> r") (auto simp: not_le)
  then have "{i. i < length xs \<and> xs ! i \<le> k} = {..r}" using assms(2) by auto
  then show ?thesis by (simp add: length_filter_conv_card)
qed

lemma lineAt_exact:
  assumes "offset \<le> length code"
  shows "lineAt code offset = Suc (newlines_before code offset)"
proof -
  let ?s = "line_starts code" and ?r = "line_search (line_starts code) offset 0 (length (line_starts code) - 1)"
  have ne: "?s \<noteq> []" "?s ! 0 = 0" by (simp_all add: line_starts_def)
  then have "?r < length ?s \<and> ?s ! ?r \<le> offset \<and> (\<forall>i. ?r < i \<longrightarrow> i < length ?s \<longrightarrow> offset < ?s ! i)"
    using line_search_found [of 0 "length ?s - 1" ?s offset] line_starts_sorted by simp
  then have "length (filter (\<lambda>x. x \<le> offset) ?s) = Suc ?r" using sorted_split_count [OF line_starts_sorted] by blast
  moreover have "length (filter (\<lambda>x. x \<le> offset) ?s) = Suc (length (filter (\<lambda>i. code ! i = LF \<and> Suc i \<le> offset) [0..<length code]))"
    by (simp add: line_starts_def filter_map comp_def conj_commute)
  moreover have "filter (\<lambda>i. code ! i = LF \<and> Suc i \<le> offset) [0..<length code] = filter (\<lambda>i. code ! i = LF) [0..<offset]"
  proof -
    have "[0..<length code] = [0..<offset] @ [offset..<length code]" using assms by (metis le_add_diff_inverse upt_add_eq_append zero_le)
    then show ?thesis by (auto simp: filter_empty_conv intro: filter_cong)
  qed
  ultimately show ?thesis by (simp add: lineAt_def newlines_before_def)
qed

section \<open>Marks do not overlap\<close>

definition apart :: "nat \<times> nat \<Rightarrow> nat \<times> nat \<Rightarrow> bool" where
  "apart r q \<longleftrightarrow> snd r \<le> fst q \<or> snd q \<le> fst r"

definition mark_of :: "string \<Rightarrow> word_spec \<Rightarrow> nat \<times> nat \<Rightarrow> bool" where
  "mark_of code entry r \<longleftrightarrow>
     (case entry of
        PlainWord w \<Rightarrow> w \<noteq> [] \<and> snd r = fst r + length w \<and> take (length w) (drop (fst r) code) = w
      | WordIn w ls \<Rightarrow>
          w \<noteq> [] \<and> snd r = fst r + length w \<and> take (length w) (drop (fst r) code) = w \<and>
          (parseLineSpec ls = [] \<or> Suc (newlines_before code (fst r)) \<in> set (parseLineSpec ls)))"

definition entry_word :: "word_spec \<Rightarrow> string" where
  "entry_word entry = (case entry of PlainWord w \<Rightarrow> w | WordIn w _ \<Rightarrow> w)"

definition entry_limit :: "word_spec \<Rightarrow> nat list option" where
  "entry_limit entry = (case entry of PlainWord _ \<Rightarrow> None | WordIn _ ls \<Rightarrow> Some (parseLineSpec ls))"

lemma word_loop_marks:
  assumes "word = entry_word entry" "limit = entry_limit entry" "sorted_wrt apart taken"
    and "\<forall>r\<in>set taken. Q r" "\<And>r. mark_of code entry r \<Longrightarrow> Q r" "\<And>a. pos = Some a \<Longrightarrow> a \<le> length code \<and> starts_with (drop a code) word"
  shows "sorted_wrt apart (word_loop code word limit pos taken) \<and> (\<forall>r\<in>set (word_loop code word limit pos taken). Q r)"
  using assms
proof (induction code word limit pos taken rule: word_loop.induct)
  case (1 code word limit pos taken)
  show ?case
  proof (cases "pos = None \<or> word = []")
    case True
    then have "word_loop code word limit pos taken = taken" by (subst word_loop.simps) (auto split: option.splits)
    then show ?thesis using "1.prems"(3,4) by simp
  next
    case False
    then obtain a where a: "pos = Some a" by auto
    let ?b = "a + length word"
    let ?in = "case limit of None \<Rightarrow> True | Some ls \<Rightarrow> ls = [] \<or> lineAt code a \<in> set ls"
    let ?t = "if ?in \<and> \<not> list_ex (\<lambda>(s, e). a < e \<and> ?b > s) taken then taken @ [(a, ?b)] else taken"
    have at: "a \<le> length code" "starts_with (drop a code) word" using "1.prems"(6) a by auto
    have step: "word_loop code word limit pos taken = word_loop code word limit (index_of_from code word ?b) ?t"
      using False a by (subst word_loop.simps) (simp add: Let_def)
    have "mark_of code entry (a, ?b)" if ?in
      using that at False "1.prems"(1,2) lineAt_exact [OF at(1)]
      by (auto simp: mark_of_def starts_with_def entry_word_def entry_limit_def split: word_spec.splits)
    then have q: "\<forall>r\<in>set ?t. Q r" using "1.prems"(4,5) by auto
    have "\<forall>r\<in>set taken. apart r (a, ?b)" if "\<not> list_ex (\<lambda>(s, e). a < e \<and> ?b > s) taken"
      using that by (force simp: apart_def list_ex_iff not_less)
    then have ap: "sorted_wrt apart ?t" using "1.prems"(3) by (simp add: sorted_wrt_append)
    have nxt: "c \<le> length code \<and> starts_with (drop c code) word" if "index_of_from code word ?b = Some c" for c
      using index_of_from_Some [OF that] by blast
    show ?thesis
      unfolding step using "1.IH" [OF a _ refl refl refl "1.prems"(1,2) ap q "1.prems"(5) nxt] False by blast
  qed
qed

lemma word_entries_marks:
  assumes "sorted_wrt apart taken" "\<forall>r\<in>set taken. \<exists>entry\<in>set all. mark_of code entry r" "set words \<subseteq> set all"
  shows "sorted_wrt apart (fold (word_entry code) words taken) \<and>
    (\<forall>r\<in>set (fold (word_entry code) words taken). \<exists>entry\<in>set all. mark_of code entry r)"
  using assms
proof (induction words arbitrary: taken)
  case (Cons entry words)
  have "sorted_wrt apart (word_entry code entry taken) \<and> (\<forall>r\<in>set (word_entry code entry taken). \<exists>entry\<in>set all. mark_of code entry r)"
  proof (cases "entry_word entry = []")
    case True
    then show ?thesis using Cons.prems by (simp add: word_entry_def entry_word_def)
  next
    case False
    have "word_entry code entry taken = word_loop code (entry_word entry) (entry_limit entry) (index_of_from code (entry_word entry) 0) taken"
      using False by (simp add: word_entry_def entry_word_def entry_limit_def Let_def)
    moreover have "mark_of code entry r \<Longrightarrow> \<exists>entry\<in>set all. mark_of code entry r" for r using Cons.prems(3) by auto
    moreover have "index_of_from code (entry_word entry) 0 = Some a \<Longrightarrow> a \<le> length code \<and> starts_with (drop a code) (entry_word entry)" for a
      using index_of_from_Some by blast
    ultimately show ?thesis
      using word_loop_marks [OF refl refl Cons.prems(1,2), of code entry "index_of_from code (entry_word entry) 0"] by metis
  qed
  then show ?case using Cons.IH [of "word_entry code entry taken"] Cons.prems(3) by auto
qed simp

lemma sorted_wrt_insort: "(\<And>x y. R x y \<Longrightarrow> R y x) \<Longrightarrow> sorted_wrt R xs \<Longrightarrow> \<forall>y\<in>set xs. R x y \<Longrightarrow> sorted_wrt R (insort_key f x xs)"
  by (induction xs) (auto simp: set_insort_key)

lemma sorted_wrt_sort_key: "(\<And>x y. R x y \<Longrightarrow> R y x) \<Longrightarrow> sorted_wrt R xs \<Longrightarrow> sorted_wrt R (sort_key f xs)"
  by (induction xs) (auto intro: sorted_wrt_insort)


section \<open>Fences of a stream\<close>

lemma fence_line_parts: "\<exists>ps. fs_parts (fence_line line st) = fs_parts st @ ps \<and> list_all (\<lambda>p. \<not> mp_open p) ps"
  by (auto simp: fence_line_def flushText_def flushCode_def Let_def split: option.splits)

lemma fence_fold_parts: "\<exists>ps. fs_parts (fold fence_line lines st) = fs_parts st @ ps \<and> list_all (\<lambda>p. \<not> mp_open p) ps"
proof (induction lines arbitrary: st)
  case (Cons line lines)
  from fence_line_parts [of line st] Cons [of "fence_line line st"] show ?case by auto
qed simp

lemma butlast_prefix: "\<exists>q. xs = butlast xs @ q"
  by (cases xs rule: rev_cases) auto

lemma split_on_append_lines: "split_on c (s @ c # r) = split_on c s @ split_on c r"
  by (induction s) (auto split: list.splits)

text \<open>A transcript that arrives in pieces is split stably: after each whole line, every part but the last is there for good,
  and only the last may be a fence that is still open.\<close>

theorem fences_stable_under_stream:
  "(\<exists>ps. markdownFences (text @ LF # rest) = butlast (markdownFences text) @ ps) \<and>
   list_all (\<lambda>p. \<not> mp_open p) (butlast (markdownFences text))" (is "?stable \<and> ?closed")
proof
  let ?st = "fold fence_line (split_on LF text) fence_start"
  let ?final_of = "\<lambda>st. fs_parts (if fs_inFence st then flushCode True st else flushText st)"
  have fin: "\<exists>p. ?final_of st = fs_parts st @ p \<and> length p \<le> 1" for st by (auto simp: flushText_def flushCode_def Let_def)
  have "\<exists>ps. ?final_of (fold fence_line (split_on LF rest) ?st) = fs_parts ?st @ ps"
    using fin [of "fold fence_line (split_on LF rest) ?st"] fence_fold_parts [of "split_on LF rest" ?st] by (metis append_assoc)
  moreover obtain p where p: "markdownFences text = fs_parts ?st @ p" "length p \<le> 1"
    using fin [of ?st] by (auto simp: markdownFences_def Let_def)
  moreover have "\<exists>q. fs_parts ?st = butlast (fs_parts ?st @ p) @ q"
    using p(2) butlast_prefix by (cases p) auto
  moreover have "markdownFences (text @ LF # rest) = ?final_of (fold fence_line (split_on LF rest) ?st)"
    by (simp add: markdownFences_def Let_def split_on_append_lines)
  ultimately show ?stable by (metis append_assoc)
  have "list_all (\<lambda>p. \<not> mp_open p) (fs_parts ?st)"
    using fence_fold_parts [of "split_on LF text" fence_start] by (auto simp: fence_start_def)
  then show ?closed
    unfolding p(1) using p(2) by (cases p) (auto simp: list_all_iff dest: in_set_butlastD)
qed

text \<open>What a writer puts between two fences comes back, as long as none of its lines closes the fence.\<close>

definition closes :: "string \<Rightarrow> string \<Rightarrow> bool" where
  "closes mark line = (case fence_match line of None \<Rightarrow> False | Some (m, l) \<Rightarrow> hd m = hd mark \<and> length mark \<le> length m \<and> l = [])"

lemma fence_body:
  "fs_inFence st \<Longrightarrow> list_all (\<lambda>l. \<not> closes (fs_opener st) l) ls \<Longrightarrow> fold fence_line ls st = st\<lparr>fs_buffer := fs_buffer st @ ls\<rparr>"
proof (induction ls arbitrary: st)
  case (Cons l ls)
  then have "fence_line l st = st\<lparr>fs_buffer := fs_buffer st @ [l]\<rparr>"
    by (auto simp: fence_line_def closes_def split: option.splits)
  with Cons show ?case by simp
qed simp

lemma takeWhile_replicate: "takeWhile (\<lambda>d. d = c) (replicate n c @ s) = replicate n c @ takeWhile (\<lambda>d. d = c) s"
  by (induction n) auto

lemma dropWhile_replicate: "dropWhile (\<lambda>d. d = c) (replicate n c @ s) = dropWhile (\<lambda>d. d = c) s"
  by (induction n) auto

lemma fence_match_mark:
  assumes "c = CHR ''`'' \<or> c = CHR ''~''" "3 \<le> n" "list_all is_word_char lang"
  shows "fence_match (replicate n c @ lang) = Some (replicate n c, lang)"
proof -
  have c: "\<not> is_ws c" "\<not> is_word_char c" using assms(1) by (auto simp: is_ws_def is_word_char_def)
  have hd: "lang = [] \<or> hd lang \<noteq> c" using assms(3) c(2) by (cases lang) auto
  obtain m where n: "n = Suc m" using assms(2) by (cases n) auto
  have run: "takeWhile (\<lambda>d. d = c) (replicate n c @ lang) = replicate n c" "dropWhile (\<lambda>d. d = c) (replicate n c @ lang) = lang"
    using hd by (cases lang; simp add: takeWhile_replicate dropWhile_replicate)+
  have "takeWhile is_word_char lang = lang" "list_all is_ws (dropWhile is_word_char lang)"
    using assms(3) dropWhile_eq_Nil_conv [of is_word_char lang] by (simp add: takeWhile_eq_all_conv list_all_iff, metis list_all_iff empty_iff empty_set)
  with run c(1) assms(1,2) show ?thesis by (simp add: fence_match_def n Let_def)
qed

theorem fenced_code_read_back:
  assumes "c = CHR ''`'' \<or> c = CHR ''~''" "3 \<le> n" "list_all is_word_char lang" "lines \<noteq> []" "list_all (\<lambda>l. LF \<notin> set l) lines"
    and "list_all (\<lambda>l. \<not> closes (replicate n c) l) lines"
  shows "markdownFences (join [LF] ((replicate n c @ lang) # lines @ [replicate n c])) =
    [\<lparr>mp_code = True, mp_content = join [LF] lines, mp_language = (if lang = [] then None else Some lang), mp_open = False\<rparr>]"
proof -
  have "LF \<notin> set lang" using assms(3) by (auto simp: list_all_iff is_word_char_def)
  then have "split_on LF (join [LF] ((replicate n c @ lang) # lines @ [replicate n c])) = (replicate n c @ lang) # lines @ [replicate n c]"
    using assms(1,5) by (intro split_on_join) (auto simp: list_all_iff)
  moreover have "fence_line (replicate n c @ lang) fence_start =
      fence_start\<lparr>fs_inFence := True, fs_opener := replicate n c, fs_language := (if lang = [] then None else Some lang)\<rparr>" (is "_ = ?st")
    using fence_match_mark [OF assms(1-3)] by (simp add: fence_line_def fence_start_def flushText_def trim_def)
  moreover have "fold fence_line lines ?st = ?st\<lparr>fs_buffer := lines\<rparr>"
    using fence_body [of ?st lines] assms(6) by (simp add: fence_start_def)
  moreover have "fence_line (replicate n c) (?st\<lparr>fs_buffer := lines\<rparr>) = (flushCode False (?st\<lparr>fs_buffer := lines\<rparr>))\<lparr>fs_inFence := False\<rparr>"
    using fence_match_mark [OF assms(1,2), of "[]"] by (simp add: fence_line_def)
  ultimately show ?thesis
    by (simp add: markdownFences_def Let_def flushText_def flushCode_def fence_start_def trim_def)
qed

section \<open>Specifications\<close>

text \<open>Every number a specification yields is a line number, and a range text yields exactly its range: as many
  numbers as it says, without a bound.\<close>

lemma positive_integer_pos: "positive_integer v = Some n \<Longrightarrow> 0 < n"
  by (cases v) (auto split: if_splits)

lemma spec_part_pos: "n \<in> set (spec_part p) \<Longrightarrow> 0 < n"
  by (auto simp: spec_part_def Let_def split: if_splits option.splits)

theorem spec_positive: "n \<in> set (parseLineSpec spec) \<Longrightarrow> 0 < n"
  by (cases spec rule: option.exhaust [case_product line_spec.exhaust])
    (auto simp: parseLineSpec_def List.map_filter_def dest: spec_part_pos positive_integer_pos split: line_spec.splits if_splits)

lemma digits_take: "takeWhile is_digit (nat_to_dec n @ CHR ''-'' # s) = nat_to_dec n" "dropWhile is_digit (nat_to_dec n @ CHR ''-'' # s) = CHR ''-'' # s"
  using nat_to_dec_digits [of n] by (simp_all add: takeWhile_append dropWhile_append list_all_iff is_digit_def)

lemma dec_edges: "\<not> is_ws (hd (nat_to_dec n))" "\<not> is_ws (last (nat_to_dec n))"
  using nat_to_dec_digits [of n] digit_not_ws by (auto simp: list_all_iff)

theorem range_text_unbounded:
  assumes "0 < a" "a \<le> b"
  shows "parseLineSpec (Some (LineText (nat_to_dec a @ ''-'' @ nat_to_dec b))) = [a..<Suc b]"
proof -
  let ?s = "nat_to_dec a @ ''-'' @ nat_to_dec b"
  have "dropWhile is_ws (nat_to_dec b) = nat_to_dec b" using dec_edges(1) [of b] nat_to_dec_ne [of b] by (cases "nat_to_dec b") auto
  moreover have "\<not> is_ws (CHR ''-'')" by (simp add: is_ws_def)
  moreover have "\<exists>x\<in>set (nat_to_dec b). \<not> is_ws x" using dec_edges(1) [of b] hd_in_set [OF nat_to_dec_ne [of b]] by blast
  ultimately have "range_match ?s = Some (a, b)"
    by (simp add: range_match_def digits_take dec_value_nat nat_to_dec_digits Let_def)
  moreover have "trim ?s = ?s" using dec_edges [of a] dec_edges [of b] by (intro trim_edges) (simp_all add: hd_append)
  moreover have "CHR '','' \<notin> set ?s" using nat_to_dec_digits [of a] nat_to_dec_digits [of b] by (auto simp: list_all_iff is_digit_def)
  ultimately show ?thesis using assms by (simp add: parseLineSpec_def split_on_no_sep spec_part_def)
qed

end
