(* ===== verification/Code_Block_Formats.thy ===== *)
theory Code_Block_Formats
  imports Code_Block_Lines
begin

text \<open>
  Two formats the code block reads (\<^verbatim>\<open>code-block-highlight.tsx\<close>): terminal output with its colour codes, and unified patches.
\<close>

section \<open>Terminal output\<close>

abbreviation ESC :: char where "ESC \<equiv> CHR 0x1B"
abbreviation BEL :: char where "BEL \<equiv> CHR 0x07"

definition ANSI_SLOTS :: "string list" where
  "ANSI_SLOTS = [''black'', ''red'', ''green'', ''yellow'', ''blue'', ''magenta'', ''cyan'', ''white'', ''bright-black'', ''bright-red'',
     ''bright-green'', ''bright-yellow'', ''bright-blue'', ''bright-magenta'', ''bright-cyan'', ''bright-white'']"

definition ANSI_LIGHT :: "string list" where
  "ANSI_LIGHT = [''#3f3f46'', ''#dc2626'', ''#16a34a'', ''#a16207'', ''#2563eb'', ''#9333ea'', ''#0891b2'', ''#71717a'', ''#52525b'',
     ''#ef4444'', ''#22c55e'', ''#ca8a04'', ''#3b82f6'', ''#a855f7'', ''#06b6d4'', ''#a1a1aa'']"

definition ANSI_DARK :: "string list" where
  "ANSI_DARK = [''#a1a1aa'', ''#f87171'', ''#4ade80'', ''#facc15'', ''#60a5fa'', ''#c084fc'', ''#22d3ee'', ''#e4e4e7'', ''#71717a'',
     ''#fca5a5'', ''#86efac'', ''#fde047'', ''#93c5fd'', ''#d8b4fe'', ''#67e8f9'', ''#fafafa'']"

definition ansiVar :: "nat \<Rightarrow> string \<Rightarrow> string" where
  "ansiVar slot fallback = ''var(--code-ansi-'' @ ANSI_SLOTS ! slot @ '', '' @ fallback @ '')''"

text \<open>\<^verbatim>\<open>v.toString(16).padStart(2, "0")\<close>\<close>

definition hex_digit :: "nat \<Rightarrow> char" where
  "hex_digit d = ''0123456789abcdef'' ! d"

fun nat_to_hex :: "nat \<Rightarrow> string" where
  "nat_to_hex n = (if n < 16 then [hex_digit n] else nat_to_hex (n div 16) @ [hex_digit (n mod 16)])"

declare nat_to_hex.simps [simp del]

definition hex2 :: "nat \<Rightarrow> string" where
  "hex2 v = (let s = nat_to_hex v in replicate (2 - length s) (CHR ''0'') @ s)"

definition ansi256 :: "nat \<Rightarrow> string" where
  "ansi256 i =
     (if i < 16 then ANSI_DARK ! i
      else if i \<ge> 232 then (let h = hex2 (8 + (i - 232) * 10) in ''#'' @ h @ h @ h)
      else (let cube = [0, 95, 135, 175, 215, 255]; n = i - 16
            in ''#'' @ hex2 (cube ! (n div 36)) @ hex2 (cube ! (n div 6 mod 6)) @ hex2 (cube ! (n mod 6))))"

text \<open>\<^verbatim>\<open>/\x1b\[([0-9;]*)m/\<close> at the start of a text: its group, and what follows.\<close>

definition is_param :: "char \<Rightarrow> bool" where
  "is_param c \<longleftrightarrow> is_digit c \<or> c = CHR '';''"

definition sgr_match :: "string \<Rightarrow> (string \<times> string) option" where
  "sgr_match s =
     (case s of
        e # b # r \<Rightarrow>
          if e = ESC \<and> b = CHR ''['' \<and> dropWhile is_param r \<noteq> [] \<and> hd (dropWhile is_param r) = CHR ''m''
          then Some (takeWhile is_param r, tl (dropWhile is_param r)) else None
      | _ \<Rightarrow> None)"

lemma sgr_match_shorter: "sgr_match s = Some (p, r) \<Longrightarrow> length r < length s"
proof -
  assume "sgr_match s = Some (p, r)"
  then obtain e b t where "s = e # b # t" "r = tl (dropWhile is_param t)" by (auto simp: sgr_match_def split: list.splits if_splits)
  then show "length r < length s" using length_dropWhile_le [of is_param t] by simp
qed

text \<open>The other escapes at the start of a text: \<^verbatim>\<open>\x1b\[(?![0-9;]*m)[0-9;?]*[A-Za-z]\<close>, \<^verbatim>\<open>\x1b\][^\x07]*(?:\x07|\x1b\\)\<close>,
  whose star runs to the next bell, or, when there is none, back to the last string terminator; and
  \<^verbatim>\<open>\x1b[()][0-9A-B]\<close>.  The number is the length of the match.\<close>

definition is_letter :: "char \<Rightarrow> bool" where
  "is_letter c \<longleftrightarrow> (let n = of_char c :: nat in 65 \<le> n \<and> n \<le> 90 \<or> 97 \<le> n \<and> n \<le> 122)"

definition last_terminator :: "string \<Rightarrow> nat option" where
  "last_terminator r = List.find (\<lambda>i. starts_with (drop i r) [ESC, CHR 0x5C]) (rev [0..<length r])"

definition osc_length :: "string \<Rightarrow> nat option" where
  "osc_length r =
     (let body = takeWhile (\<lambda>c. c \<noteq> BEL) r
      in if length body < length r then Some (Suc (length body))
         else map_option (\<lambda>i. i + 2) (last_terminator body))"

definition csi_length :: "string \<Rightarrow> nat option" where
  "csi_length r =
     (let params = takeWhile (\<lambda>c. is_param c \<or> c = CHR ''?'') r; after = drop (length params) r
      in if dropWhile is_param r \<noteq> [] \<and> hd (dropWhile is_param r) = CHR ''m'' then None
         else if after \<noteq> [] \<and> is_letter (hd after) then Some (Suc (length params)) else None)"

definition other_escape :: "string \<Rightarrow> nat option" where
  "other_escape s =
     (case s of
        e # c # r \<Rightarrow>
          if e \<noteq> ESC then None
          else if c = CHR ''['' then map_option (\<lambda>n. n + 2) (csi_length r)
          else if c = CHR '']'' then map_option (\<lambda>n. n + 2) (osc_length r)
          else if (c = CHR ''('' \<or> c = CHR '')'') \<and> r \<noteq> [] \<and> (is_digit (hd r) \<or> hd r = CHR ''A'' \<or> hd r = CHR ''B'') then Some 3
          else None
      | _ \<Rightarrow> None)"

lemma other_escape_pos: "other_escape s = Some n \<Longrightarrow> 0 < n"
  by (auto simp: other_escape_def split: list.splits if_splits)

function strip_escapes :: "string \<Rightarrow> string" where
  "strip_escapes [] = []"
| "strip_escapes (c # s) =
     (case other_escape (c # s) of None \<Rightarrow> c # strip_escapes s | Some n \<Rightarrow> strip_escapes (drop n (c # s)))"
  by pat_completeness auto
termination by (relation "measure length") (auto dest: other_escape_pos)

record ansi_style =
  as_color :: "string option"
  as_colorDark :: "string option"
  as_bold :: bool
  as_italic :: bool
  as_underline :: bool

definition no_style :: ansi_style where
  "no_style = \<lparr>as_color = None, as_colorDark = None, as_bold = False, as_italic = False, as_underline = False\<rparr>"

definition ansi_flush :: "ansi_style \<Rightarrow> string \<Rightarrow> cb_token list" where
  "ansi_flush style content =
     (if content = [] then []
      else [\<lparr>tk_content = content, tk_color = as_color style, tk_colorDark = as_colorDark style,
             tk_fontStyle = (if as_bold style then Some FontBold else if as_italic style then Some FontItalic
                             else if as_underline style then Some FontUnderline else None), tk_word = False\<rparr>])"

text \<open>The parameters of one code, from left to right; an extended colour takes the ones after it, and a missing one counts as 0.\<close>

definition param_at :: "nat list \<Rightarrow> nat \<Rightarrow> nat" where
  "param_at ps i = (if i < length ps then ps ! i else 0)"

definition slot_style :: "nat \<Rightarrow> ansi_style \<Rightarrow> ansi_style" where
  "slot_style slot style =
     style\<lparr>as_color := Some (ansiVar slot (ANSI_LIGHT ! slot)), as_colorDark := Some (ansiVar slot (ANSI_DARK ! slot))\<rparr>"

definition hex_style :: "string \<Rightarrow> ansi_style \<Rightarrow> ansi_style" where
  "hex_style hex style = style\<lparr>as_color := Some hex, as_colorDark := Some hex\<rparr>"

function sgr_params :: "nat list \<Rightarrow> ansi_style \<Rightarrow> ansi_style" where
  "sgr_params [] style = style"
| "sgr_params (code # ps) style =
     (if code = 0 then sgr_params ps no_style
      else if code = 1 then sgr_params ps (style\<lparr>as_bold := True\<rparr>)
      else if code = 3 then sgr_params ps (style\<lparr>as_italic := True\<rparr>)
      else if code = 4 then sgr_params ps (style\<lparr>as_underline := True\<rparr>)
      else if code = 22 then sgr_params ps (style\<lparr>as_bold := False\<rparr>)
      else if code = 23 then sgr_params ps (style\<lparr>as_italic := False\<rparr>)
      else if code = 24 then sgr_params ps (style\<lparr>as_underline := False\<rparr>)
      else if code = 39 then sgr_params ps (style\<lparr>as_color := None, as_colorDark := None\<rparr>)
      else if 30 \<le> code \<and> code \<le> 37 then sgr_params ps (slot_style (code - 30) style)
      else if 90 \<le> code \<and> code \<le> 97 then sgr_params ps (slot_style (code - 82) style)
      else if code = 38 \<and> ps \<noteq> [] \<and> hd ps = 5 then sgr_params (drop 2 ps) (hex_style (ansi256 (param_at ps 1)) style)
      else if code = 38 \<and> ps \<noteq> [] \<and> hd ps = 2
      then sgr_params (drop 4 ps) (hex_style (''#'' @ hex2 (param_at ps 1) @ hex2 (param_at ps 2) @ hex2 (param_at ps 3)) style)
      else if code = 48 \<and> ps \<noteq> [] \<and> (hd ps = 5 \<or> hd ps = 2) then sgr_params (drop (if hd ps = 5 then 2 else 4) ps) style
      else sgr_params ps style)"
  by pat_completeness auto
termination by (relation "measure (\<lambda>(ps, style). length ps)") auto

declare sgr_params.simps(2) [simp del]

definition sgr_numbers :: "string \<Rightarrow> nat list" where
  "sgr_numbers s = map dec_value (split_on CHR '';'' (if s = [] then ''0'' else s))"

text \<open>One line: what was read since the last code, the style, and the rest of the text; it yields the tokens.\<close>

function ansi_scan :: "string \<Rightarrow> ansi_style \<Rightarrow> string \<Rightarrow> cb_token list" where
  "ansi_scan acc style [] = ansi_flush style acc"
| "ansi_scan acc style (c # s) =
     (case sgr_match (c # s) of
        Some (p, r) \<Rightarrow> ansi_flush style acc @ ansi_scan [] (sgr_params (sgr_numbers p) style) r
      | None \<Rightarrow> ansi_scan (acc @ [c]) style s)"
  by pat_completeness auto
termination by (relation "measure (\<lambda>(acc, style, s). length s)") (auto dest: sgr_match_shorter)

function strip_sgr :: "string \<Rightarrow> string" where
  "strip_sgr [] = []"
| "strip_sgr (c # s) = (case sgr_match (c # s) of Some (p, r) \<Rightarrow> strip_sgr r | None \<Rightarrow> c # strip_sgr s)"
  by pat_completeness auto
termination by (relation "measure length") (auto dest: sgr_match_shorter)

definition ansi_line :: "int \<Rightarrow> string \<Rightarrow> cb_line" where
  "ansi_line n raw =
     \<lparr>ln_tokens = ansi_scan [] no_style raw, ln_number = n, ln_text = strip_sgr raw, ln_state = None, ln_gutter = None\<rparr>"

definition ansiToLines :: "string \<Rightarrow> int \<Rightarrow> cb_line list" where
  "ansiToLines text startLine =
     map (\<lambda>(i, raw). ansi_line (startLine + int i) raw) (enumerate 0 (split_on LF (strip_escapes (normalizeCode text))))"

section \<open>Unified patches\<close>

record patch_file =
  pf_file :: string
  pf_lines :: "cb_line list"
  pf_added :: nat
  pf_removed :: nat
  pf_hunks :: "(string \<times> nat) list"

text \<open>The file that lines go to is the last one pushed, if any.\<close>

record patch_state =
  ps_files :: "patch_file list"
  ps_old :: nat
  ps_new :: nat
  ps_width :: nat

text \<open>\<^verbatim>\<open>/^diff --git a\/(.+) b\/(.+)$/\<close>, its second group: what follows the last place where the first one can end.\<close>

definition git_name :: "string \<Rightarrow> string option" where
  "git_name raw =
     (case drop_prefix [''diff --git a/''] raw of
        None \<Rightarrow> None
      | Some r \<Rightarrow>
          map_option (\<lambda>i. drop (i + 3) r)
            (List.find (\<lambda>i. 0 < i \<and> starts_with (drop i r) '' b/'' \<and> i + 3 < length r) (rev [0..<length r])))"

text \<open>\<^verbatim>\<open>/^\+\+\+ (?:b\/)?(.+)$/\<close>\<close>

definition plus_name :: "string \<Rightarrow> string option" where
  "plus_name raw =
     (case drop_prefix [''+++ ''] raw of
        None \<Rightarrow> None
      | Some r \<Rightarrow> if starts_with r ''b/'' \<and> 2 < length r then Some (drop 2 r) else if r \<noteq> [] then Some r else None)"

definition skipped_header :: "string \<Rightarrow> bool" where
  "skipped_header raw \<longleftrightarrow>
     list_ex (starts_with raw)
       [''---'', ''index '', ''old mode'', ''new mode'', ''new file'', ''deleted file'', ''similarity'', ''rename '', ''Binary '']"

text \<open>\<^verbatim>\<open>/^@@ -(\d+)(?:,(\d+))? \+(\d+)(?:,(\d+))? @@(.*)$/\<close>, with a missing count as 0.\<close>

definition range_read :: "string \<Rightarrow> (nat \<times> nat \<times> string) option" where
  "range_read s =
     (let a = takeWhile is_digit s; r = dropWhile is_digit s
      in if a = [] then None
         else case r of
                c # r' \<Rightarrow>
                  if c = CHR '',''
                  then (if takeWhile is_digit r' = [] then None else Some (dec_value a, dec_value (takeWhile is_digit r'), dropWhile is_digit r'))
                  else Some (dec_value a, 0, r)
              | [] \<Rightarrow> Some (dec_value a, 0, []))"

definition hunk_match :: "string \<Rightarrow> (nat \<times> nat \<times> nat \<times> nat \<times> string) option" where
  "hunk_match raw =
     Option.bind (drop_prefix [''@@ -''] raw) (\<lambda>r. Option.bind (range_read r) (\<lambda>(a, an, r1).
       Option.bind (drop_prefix ['' +''] r1) (\<lambda>r2. Option.bind (range_read r2) (\<lambda>(b, bn, r3).
         map_option (\<lambda>rest. (a, an, b, bn, rest)) (drop_prefix ['' @@''] r3)))))"

definition pad_start :: "nat \<Rightarrow> string \<Rightarrow> string" where
  "pad_start w s = replicate (w - length s) (CHR '' '') @ s"

definition patch_pad :: "nat \<Rightarrow> nat option \<Rightarrow> string" where
  "patch_pad w n = pad_start w (case n of None \<Rightarrow> [] | Some k \<Rightarrow> nat_to_dec k)"

definition patch_row :: "nat \<Rightarrow> string \<Rightarrow> line_state option \<Rightarrow> string \<Rightarrow> cb_line" where
  "patch_row n text state gutter =
     \<lparr>ln_tokens = [plain_token text], ln_number = int n, ln_text = text, ln_state = state, ln_gutter = Some gutter\<rparr>"

definition on_current :: "(patch_file \<Rightarrow> patch_file) \<Rightarrow> patch_state \<Rightarrow> patch_state" where
  "on_current f st = st\<lparr>ps_files := (if ps_files st = [] then [] else butlast (ps_files st) @ [f (last (ps_files st))])\<rparr>"

definition patch_push :: "string \<Rightarrow> line_state option \<Rightarrow> string \<Rightarrow> patch_state \<Rightarrow> patch_state" where
  "patch_push text state gutter = on_current (\<lambda>f. f\<lparr>pf_lines := pf_lines f @ [patch_row (length (pf_lines f) + 1) text state gutter]\<rparr>)"

definition open_file :: "string \<Rightarrow> patch_state \<Rightarrow> patch_state" where
  "open_file name st =
     (if name \<noteq> ''/dev/null'' \<and> (ps_files st = [] \<or> pf_file (last (ps_files st)) \<noteq> name)
      then st\<lparr>ps_files := ps_files st @ [\<lparr>pf_file = name, pf_lines = [], pf_added = 0, pf_removed = 0, pf_hunks = []\<rparr>]\<rparr>
      else st)"

definition start_hunk :: "string \<Rightarrow> nat \<Rightarrow> nat \<Rightarrow> nat \<Rightarrow> nat \<Rightarrow> string \<Rightarrow> patch_state \<Rightarrow> patch_state" where
  "start_hunk raw a an b bn rest st =
     (let width = max (max (length (nat_to_dec (a + an))) (length (nat_to_dec (b + bn)))) 2; dots = pad_start width [CHR 0xB7];
          st1 = on_current (\<lambda>f. f\<lparr>pf_hunks := pf_hunks f @ [(raw, length (pf_lines f) + 1)]\<rparr>)
                  (st\<lparr>ps_old := a, ps_new := b, ps_width := width\<rparr>)
      in patch_push (if trim rest = [] then raw else trim rest) (Some [(''level'', StateText ''info'')]) (dots @ '' '' @ dots) st1)"

definition body_line :: "string \<Rightarrow> patch_state \<Rightarrow> patch_state" where
  "body_line raw st =
     (let w = ps_width st; o' = ps_old st; n = ps_new st
      in if starts_with raw ''+''
         then (on_current (\<lambda>f. f\<lparr>pf_added := pf_added f + 1\<rparr>)
                (patch_push (drop 1 raw) (Some [(''diff'', StateText ''add'')]) (patch_pad w None @ '' '' @ patch_pad w (Some n)) st))\<lparr>ps_new := n + 1\<rparr>
         else if starts_with raw ''-''
         then (on_current (\<lambda>f. f\<lparr>pf_removed := pf_removed f + 1\<rparr>)
                (patch_push (drop 1 raw) (Some [(''diff'', StateText ''remove'')]) (patch_pad w (Some o') @ '' '' @ patch_pad w None) st))\<lparr>ps_old := o' + 1\<rparr>
         else if starts_with raw '' '' \<or> raw = []
         then (if pf_lines (last (ps_files st)) = [] \<and> raw = [] then st
               else (patch_push (drop 1 raw) None (patch_pad w (Some o') @ '' '' @ patch_pad w (Some n)) st)\<lparr>ps_old := o' + 1, ps_new := n + 1\<rparr>)
         else st)"

definition patch_line :: "string \<Rightarrow> patch_state \<Rightarrow> patch_state" where
  "patch_line raw st =
     (case (case git_name raw of Some n \<Rightarrow> Some n | None \<Rightarrow> plus_name raw) of
        Some name \<Rightarrow> open_file name st
      | None \<Rightarrow>
          if skipped_header raw then st
          else if ps_files st = [] then st
          else case hunk_match raw of
                 Some (a, an, b, bn, rest) \<Rightarrow> start_hunk raw a an b bn rest st
               | None \<Rightarrow> body_line raw st)"

definition parseUnifiedDiff :: "string \<Rightarrow> patch_file list" where
  "parseUnifiedDiff patch =
     ps_files (fold patch_line (split_on LF (normalizeCode patch)) \<lparr>ps_files = [], ps_old = 0, ps_new = 0, ps_width = 4\<rparr>)"

section \<open>Terminal text is kept\<close>

lemma flush_text [simp]: "concat (map tk_content (ansi_flush style s)) = s"
  by (simp add: ansi_flush_def)

lemma scan_text: "concat (map tk_content (ansi_scan acc style s)) = acc @ strip_sgr s"
  by (induction acc style s rule: ansi_scan.induct) (auto split: option.splits)

lemma no_escape_head: "ESC \<noteq> c \<Longrightarrow> sgr_match (c # s) = None" "ESC \<noteq> c \<Longrightarrow> other_escape (c # s) = None"
  by (cases s; simp add: sgr_match_def other_escape_def)+

lemma strip_sgr_plain: "ESC \<notin> set s \<Longrightarrow> strip_sgr s = s"
  by (induction s) (simp_all add: no_escape_head)

lemma strip_escapes_plain: "ESC \<notin> set s \<Longrightarrow> strip_escapes s = s"
  by (induction s) (simp_all add: no_escape_head)

lemma split_on_set: "w \<in> set (split_on c s) \<Longrightarrow> set w \<subseteq> set s"
proof (induction s arbitrary: w)
  case (Cons x s)
  obtain v vs where v: "split_on c s = v # vs" using split_on_ne [of c s] by (cases "split_on c s") auto
  have "set u \<subseteq> set s" if "u = v \<or> u \<in> set vs" for u using Cons.IH [of u] that v by auto
  then show ?case using Cons.prems v by (fastforce split: if_splits)
qed simp

lemma normalize_set: "set (normalizeCode s) \<subseteq> insert LF (set s)"
proof (induction s rule: normalizeCode.induct)
  case (2 c s)
  then show ?case by (cases s) (auto simp del: normalizeCode.simps simp: normalizeCode.simps(2) [of c])
qed simp

text \<open>Reading terminal output loses no text: the tokens of a line make up its text, and output without an escape
  character comes out line by line as it went in, numbered from the first line on.\<close>

theorem terminal_text_kept:
  "list_all (\<lambda>l. concat (map tk_content (ln_tokens l)) = ln_text l) (ansiToLines out n)"
  "ESC \<notin> set out \<Longrightarrow> map (\<lambda>l. (ln_number l, ln_text l)) (ansiToLines out n) = map (\<lambda>l. (ln_number l, ln_text l)) (toPlainLines out n)"
proof -
  show "list_all (\<lambda>l. concat (map tk_content (ln_tokens l)) = ln_text l) (ansiToLines out n)"
    by (auto simp: ansiToLines_def ansi_line_def scan_text list_all_iff)
  assume e: "ESC \<notin> set out"
  then have esc: "ESC \<notin> set (normalizeCode out)" using normalize_set [of out] by auto
  then have "ESC \<notin> set w" if "w \<in> set (split_on LF (normalizeCode out))" for w using split_on_set [OF that] by auto
  then have "strip_sgr w = w" if "(i, w) \<in> set (enumerate 0 (split_on LF (normalizeCode out)))" for i w
    using that by (intro strip_sgr_plain) (auto simp: in_set_enumerate_eq)
  then show "map (\<lambda>l. (ln_number l, ln_text l)) (ansiToLines out n) = map (\<lambda>l. (ln_number l, ln_text l)) (toPlainLines out n)"
    by (auto simp: ansiToLines_def toPlainLines_def strip_escapes_plain [OF esc] ansi_line_def plain_line_def)
qed

section \<open>A patch is read as it was written\<close>

datatype patch_change = Context string | Added string | Removed string

record patch_hunk =
  hk_old :: nat
  hk_oldCount :: nat
  hk_new :: nat
  hk_newCount :: nat
  hk_section :: string
  hk_changes :: "patch_change list"

fun change_text :: "patch_change \<Rightarrow> string" where
  "change_text (Context t) = '' '' @ t"
| "change_text (Added t) = ''+'' @ t"
| "change_text (Removed t) = ''-'' @ t"

definition hunk_head :: "patch_hunk \<Rightarrow> string" where
  "hunk_head h =
     ''@@ -'' @ nat_to_dec (hk_old h) @ '','' @ nat_to_dec (hk_oldCount h) @ '' +'' @ nat_to_dec (hk_new h) @ '','' @ nat_to_dec (hk_newCount h) @
     '' @@'' @ hk_section h"

definition hunk_text :: "patch_hunk \<Rightarrow> string list" where
  "hunk_text h = hunk_head h # map change_text (hk_changes h)"

definition file_text :: "string \<times> patch_hunk list \<Rightarrow> string list" where
  "file_text f =
     [''diff --git a/'' @ fst f @ '' b/'' @ fst f, ''--- a/'' @ fst f, ''+++ b/'' @ fst f] @ concat (map hunk_text (snd f))"

definition patch_text :: "(string \<times> patch_hunk list) list \<Rightarrow> string" where
  "patch_text fs = join [LF] (concat (map file_text fs))"

text \<open>The rows a hunk stands for: its head, then each change with the numbers it has on either side.\<close>

type_synonym row_content = "string \<times> line_state option \<times> string"

definition hunk_width :: "patch_hunk \<Rightarrow> nat" where
  "hunk_width h =
     max (max (length (nat_to_dec (hk_old h + hk_oldCount h))) (length (nat_to_dec (hk_new h + hk_newCount h)))) 2"

fun change_rows :: "nat \<Rightarrow> nat \<Rightarrow> nat \<Rightarrow> patch_change list \<Rightarrow> row_content list" where
  "change_rows w i j [] = []"
| "change_rows w i j (Context t # cs) = (t, None, patch_pad w (Some i) @ '' '' @ patch_pad w (Some j)) # change_rows w (i + 1) (j + 1) cs"
| "change_rows w i j (Added t # cs) =
     (t, Some [(''diff'', StateText ''add'')], patch_pad w None @ '' '' @ patch_pad w (Some j)) # change_rows w i (j + 1) cs"
| "change_rows w i j (Removed t # cs) =
     (t, Some [(''diff'', StateText ''remove'')], patch_pad w (Some i) @ '' '' @ patch_pad w None) # change_rows w (i + 1) j cs"

definition head_row :: "patch_hunk \<Rightarrow> row_content" where
  "head_row h =
     (let dots = pad_start (hunk_width h) [CHR 0xB7]
      in (if trim (hk_section h) = [] then hunk_head h else trim (hk_section h), Some [(''level'', StateText ''info'')], dots @ '' '' @ dots))"

definition hunk_rows :: "patch_hunk \<Rightarrow> row_content list" where
  "hunk_rows h = head_row h # change_rows (hunk_width h) (hk_old h) (hk_new h) (hk_changes h)"

definition number_rows :: "nat \<Rightarrow> row_content list \<Rightarrow> cb_line list" where
  "number_rows k rows = map (\<lambda>(i, (t, s, g)). patch_row i t s g) (enumerate k rows)"

definition count_added :: "patch_change list \<Rightarrow> nat" where
  "count_added cs = length (filter (\<lambda>c. case c of Added _ \<Rightarrow> True | _ \<Rightarrow> False) cs)"

definition count_removed :: "patch_change list \<Rightarrow> nat" where
  "count_removed cs = length (filter (\<lambda>c. case c of Removed _ \<Rightarrow> True | _ \<Rightarrow> False) cs)"

definition add_hunk :: "patch_hunk \<Rightarrow> patch_file \<Rightarrow> patch_file" where
  "add_hunk h f =
     f\<lparr>pf_lines := pf_lines f @ number_rows (length (pf_lines f) + 1) (hunk_rows h), pf_added := pf_added f + count_added (hk_changes h),
       pf_removed := pf_removed f + count_removed (hk_changes h), pf_hunks := pf_hunks f @ [(hunk_head h, length (pf_lines f) + 1)]\<rparr>"

definition shown_file :: "string \<times> patch_hunk list \<Rightarrow> patch_file" where
  "shown_file f = fold add_hunk (snd f) \<lparr>pf_file = fst f, pf_lines = [], pf_added = 0, pf_removed = 0, pf_hunks = []\<rparr>"

text \<open>Texts of one line, and changes whose line is not taken for a header.\<close>

definition one_line :: "string \<Rightarrow> bool" where
  "one_line s \<longleftrightarrow> LF \<notin> set s \<and> CR \<notin> set s"

fun change_ok :: "patch_change \<Rightarrow> bool" where
  "change_ok (Context t) = one_line t"
| "change_ok (Added t) = (one_line t \<and> \<not> (starts_with t ''++ '' \<and> 3 < length t))"
| "change_ok (Removed t) = (one_line t \<and> \<not> starts_with t ''--'')"

definition hunk_ok :: "patch_hunk \<Rightarrow> bool" where
  "hunk_ok h \<longleftrightarrow> one_line (hk_section h) \<and> list_all change_ok (hk_changes h)"

definition name_ok :: "string \<Rightarrow> bool" where
  "name_ok n \<longleftrightarrow> n \<noteq> [] \<and> one_line n \<and> n \<noteq> ''/dev/null'' \<and> \<not> str_includes n '' b/''"

lemma drop_prefix_one: "drop_prefix [p] s = (if starts_with s p then Some (drop (length p) s) else None)"
  by (simp add: drop_prefix_def)

lemma drop_prefix_append [simp]: "drop_prefix [p] (p @ s) = Some s"
  by (simp add: drop_prefix_one)

lemma range_read_dec:
  assumes "\<not> is_digit (hd r)" "r \<noteq> []"
  shows "range_read (nat_to_dec a @ CHR '','' # nat_to_dec b @ r) = Some (a, b, r)"
proof -
  have "takeWhile is_digit (nat_to_dec n @ s) = nat_to_dec n" "dropWhile is_digit (nat_to_dec n @ s) = s"
    if "s \<noteq> []" "\<not> is_digit (hd s)" for n s
    using nat_to_dec_digits [of n] that by (cases s; simp add: takeWhile_append dropWhile_append list_all_iff)+
  then show ?thesis using assms by (simp add: range_read_def dec_value_nat is_digit_def Let_def)
qed

lemma hunk_head_read: "hunk_match (hunk_head h) = Some (hk_old h, hk_oldCount h, hk_new h, hk_newCount h, hk_section h)"
proof -
  have sp: "\<not> is_digit (CHR '' '')" by (simp add: is_digit_def)
  show ?thesis
    using range_read_dec [of "'' +'' @ nat_to_dec (hk_new h) @ '','' @ nat_to_dec (hk_newCount h) @ '' @@'' @ hk_section h" "hk_old h" "hk_oldCount h"]
      range_read_dec [of "'' @@'' @ hk_section h" "hk_new h" "hk_newCount h"] sp
    by (simp add: hunk_match_def hunk_head_def drop_prefix_one starts_with_simps)
qed

lemma find_past: "\<forall>x\<in>set xs. \<not> P x \<Longrightarrow> P y \<Longrightarrow> List.find P (xs @ y # ys) = Some y"
  by (induction xs) auto

lemma find_rev_upt:
  assumes "k < n" "P k" "\<And>i. k < i \<Longrightarrow> i < n \<Longrightarrow> \<not> P i"
  shows "List.find P (rev [0..<n]) = Some k"
proof -
  have "[0..<n] = [0..<k] @ k # [Suc k..<n]" using assms(1) upt_add_eq_append [of 0 k "n - k"] upt_conv_Cons [of k n] by simp
  moreover have "List.find P (rev [Suc k..<n] @ k # rev [0..<k]) = Some k"
    using assms(2,3) by (intro find_past) auto
  ultimately show ?thesis by simp
qed

lemma git_name_read:
  assumes "name_ok n"
  shows "git_name (''diff --git a/'' @ n @ '' b/'' @ n) = Some n"
proof -
  let ?r = "n @ '' b/'' @ n"
  have "\<not> starts_with (drop i ?r) '' b/''" if later: "length n < i" for i
  proof
    assume "starts_with (drop i ?r) '' b/''"
    moreover have "drop i ?r = drop (i - length n) ('' b/'' @ n)" using later by simp
    ultimately obtain q where q: "drop (i - length n) ('' b/'' @ n) = '' b/'' @ q" by (auto simp: starts_with_conv)
    obtain j where j: "i - length n = Suc j" using later by (cases "i - length n") auto
    have "drop (j - 2) n = '' b/'' @ q" using q j by (cases j; cases "j - 1") auto
    then have "n = take (j - 2) n @ '' b/'' @ q" by (metis append_take_drop_id)
    then have "str_includes n '' b/''" by (auto simp: str_includes_conv)
    with assms show False by (simp add: name_ok_def)
  qed
  then have "List.find (\<lambda>i. 0 < i \<and> starts_with (drop i ?r) '' b/'' \<and> i + 3 < length ?r) (rev [0..<length ?r]) = Some (length n)"
    using assms by (intro find_rev_upt) (auto simp: name_ok_def starts_with_simps)
  then show ?thesis unfolding git_name_def drop_prefix_append by simp
qed

lemma plus_name_read: "n \<noteq> [] \<Longrightarrow> plus_name (''+++ b/'' @ n) = Some n"
  by (simp add: plus_name_def drop_prefix_one starts_with_simps)

text \<open>What a line does to the last file.\<close>

lemma row_pushed:
  "ps_files st = fs @ [f] \<Longrightarrow>
     patch_push t s g st = st\<lparr>ps_files := fs @ [f\<lparr>pf_lines := pf_lines f @ number_rows (length (pf_lines f) + 1) [(t, s, g)]\<rparr>]\<rparr>"
  by (simp add: patch_push_def on_current_def number_rows_def)

lemma change_read:
  assumes "change_ok c"
  shows "patch_line (change_text c) st = (if ps_files st = [] then st else body_line (change_text c) st)"
proof -
  have "git_name (change_text c) = None" "\<not> skipped_header (change_text c)" "hunk_match (change_text c) = None"
    using assms by (cases c; simp add: git_name_def skipped_header_def hunk_match_def drop_prefix_one starts_with_simps)+
  moreover have "plus_name (change_text c) = None"
    using assms by (cases c) (auto simp: plus_name_def drop_prefix_one starts_with_simps)
  ultimately show ?thesis by (simp add: patch_line_def)
qed

lemma number_rows_append: "number_rows k (xs @ ys) = number_rows k xs @ number_rows (k + length xs) ys"
  by (simp add: number_rows_def enumerate_append_eq)

lemma number_rows_Cons: "number_rows k (r # rows) = number_rows k [r] @ number_rows (Suc k) rows"
  using number_rows_append [of k "[r]" rows] by simp

lemma number_rows_length [simp]: "length (number_rows k rows) = length rows"
  by (simp add: number_rows_def)

definition advance :: "patch_change \<Rightarrow> patch_state \<Rightarrow> patch_state" where
  "advance c st = (case c of
      Context _ \<Rightarrow> st\<lparr>ps_old := ps_old st + 1, ps_new := ps_new st + 1\<rparr>
    | Added _ \<Rightarrow> st\<lparr>ps_new := ps_new st + 1\<rparr>
    | Removed _ \<Rightarrow> st\<lparr>ps_old := ps_old st + 1\<rparr>)"

lemma body_change:
  assumes "ps_files st = fs @ [f]"
  shows "body_line (change_text c) st = (advance c st)\<lparr>ps_files := fs @
    [f\<lparr>pf_lines := pf_lines f @ number_rows (length (pf_lines f) + 1) (change_rows (ps_width st) (ps_old st) (ps_new st) [c]),
       pf_added := pf_added f + count_added [c], pf_removed := pf_removed f + count_removed [c]\<rparr>]\<rparr>"
  using assms
  by (cases c)
    (simp_all add: body_line_def Let_def starts_with_simps row_pushed [OF assms] advance_def on_current_def count_added_def count_removed_def)

lemma change_rows_Cons:
  "change_rows (ps_width st) (ps_old st) (ps_new st) (c # cs) =
   change_rows (ps_width st) (ps_old st) (ps_new st) [c] @ change_rows (ps_width (advance c st)) (ps_old (advance c st)) (ps_new (advance c st)) cs"
  by (cases c) (simp_all add: advance_def)

lemma counts_Cons: "count_added (c # cs) = count_added [c] + count_added cs" "count_removed (c # cs) = count_removed [c] + count_removed cs"
  by (simp_all add: count_added_def count_removed_def)

lemma changes_read:
  assumes "list_all change_ok cs" "ps_files st = fs @ [f]"
  shows "\<exists>i j. fold patch_line (map change_text cs) st = st\<lparr>ps_old := i, ps_new := j, ps_files := fs @
    [f\<lparr>pf_lines := pf_lines f @ number_rows (length (pf_lines f) + 1) (change_rows (ps_width st) (ps_old st) (ps_new st) cs),
       pf_added := pf_added f + count_added cs, pf_removed := pf_removed f + count_removed cs\<rparr>]\<rparr>"
  using assms
proof (induction cs arbitrary: st f)
  case Nil
  then have "st\<lparr>ps_old := ps_old st, ps_new := ps_new st, ps_files := fs @ [f]\<rparr> = st" by simp
  then show ?case
    by (intro exI [of _ "ps_old st"] exI [of _ "ps_new st"]) (simp add: number_rows_def count_added_def count_removed_def)
next
  case (Cons c cs)
  let ?f = "f\<lparr>pf_lines := pf_lines f @ number_rows (length (pf_lines f) + 1) (change_rows (ps_width st) (ps_old st) (ps_new st) [c]),
       pf_added := pf_added f + count_added [c], pf_removed := pf_removed f + count_removed [c]\<rparr>"
  let ?st = "(advance c st)\<lparr>ps_files := fs @ [?f]\<rparr>"
  have one: "length (change_rows (ps_width st) (ps_old st) (ps_new st) [c]) = 1" by (cases c) simp_all
  have adv: "(advance c st)\<lparr>ps_old := i, ps_new := j, ps_files := x\<rparr> = st\<lparr>ps_old := i, ps_new := j, ps_files := x\<rparr>" for i j x
    by (cases c) (simp_all add: advance_def)
  have "fold patch_line (map change_text (c # cs)) st = fold patch_line (map change_text cs) ?st"
    using Cons.prems change_read [of c st] body_change [OF Cons.prems(2), of c] by simp
  moreover obtain i j where "fold patch_line (map change_text cs) ?st = ?st\<lparr>ps_old := i, ps_new := j, ps_files := fs @
    [?f\<lparr>pf_lines := pf_lines ?f @ number_rows (length (pf_lines ?f) + 1) (change_rows (ps_width ?st) (ps_old ?st) (ps_new ?st) cs),
       pf_added := pf_added ?f + count_added cs, pf_removed := pf_removed ?f + count_removed cs\<rparr>]\<rparr>"
    using Cons.IH [of ?st ?f] Cons.prems(1) by auto
  ultimately show ?case
    unfolding change_rows_Cons [of st c cs] counts_Cons [of c cs] number_rows_append
    using one by (auto simp: adv add.assoc intro!: exI)
qed

lemma head_read:
  "patch_line (hunk_head h) st =
     (if ps_files st = [] then st else start_hunk (hunk_head h) (hk_old h) (hk_oldCount h) (hk_new h) (hk_newCount h) (hk_section h) st)"
proof -
  have "git_name (hunk_head h) = None" "plus_name (hunk_head h) = None" "\<not> skipped_header (hunk_head h)"
    by (simp_all add: git_name_def plus_name_def skipped_header_def drop_prefix_one hunk_head_def starts_with_simps)
  then show ?thesis by (simp add: patch_line_def hunk_head_read)
qed

lemma head_applied:
  assumes "ps_files st = fs @ [f]"
  shows "patch_line (hunk_head h) st = st\<lparr>ps_old := hk_old h, ps_new := hk_new h, ps_width := hunk_width h, ps_files := fs @
    [f\<lparr>pf_lines := pf_lines f @ number_rows (length (pf_lines f) + 1) [head_row h], pf_hunks := pf_hunks f @ [(hunk_head h, length (pf_lines f) + 1)]\<rparr>]\<rparr>"
  using assms
  by (simp add: head_read start_hunk_def Let_def on_current_def row_pushed hunk_width_def [symmetric] head_row_def)

lemma hunk_applied:
  assumes "hunk_ok h" "ps_files st = fs @ [f]"
  shows "\<exists>i j. fold patch_line (hunk_text h) st = st\<lparr>ps_old := i, ps_new := j, ps_width := hunk_width h, ps_files := fs @ [add_hunk h f]\<rparr>"
proof -
  let ?f = "f\<lparr>pf_lines := pf_lines f @ number_rows (length (pf_lines f) + 1) [head_row h], pf_hunks := pf_hunks f @ [(hunk_head h, length (pf_lines f) + 1)]\<rparr>"
  let ?st = "st\<lparr>ps_old := hk_old h, ps_new := hk_new h, ps_width := hunk_width h, ps_files := fs @ [?f]\<rparr>"
  have ok: "list_all change_ok (hk_changes h)" using assms(1) by (simp add: hunk_ok_def)
  have "fold patch_line (hunk_text h) st = fold patch_line (map change_text (hk_changes h)) ?st"
    using head_applied [OF assms(2), of h] by (simp add: hunk_text_def)
  moreover obtain i j where "fold patch_line (map change_text (hk_changes h)) ?st = ?st\<lparr>ps_old := i, ps_new := j, ps_files := fs @
      [?f\<lparr>pf_lines := pf_lines ?f @ number_rows (length (pf_lines ?f) + 1) (change_rows (ps_width ?st) (ps_old ?st) (ps_new ?st) (hk_changes h)),
         pf_added := pf_added ?f + count_added (hk_changes h), pf_removed := pf_removed ?f + count_removed (hk_changes h)\<rparr>]\<rparr>"
    using changes_read [OF ok, of ?st fs ?f] by auto
  ultimately show ?thesis
    by (intro exI [of _ i] exI [of _ j] patch_state.equality)
      (simp_all add: add_hunk_def hunk_rows_def number_rows_Cons [of _ "head_row h" "change_rows _ _ _ _"])
qed

lemma hunks_applied:
  assumes "list_all hunk_ok hs" "ps_files st = fs @ [f]"
  shows "ps_files (fold patch_line (concat (map hunk_text hs)) st) = fs @ [fold add_hunk hs f]"
  using assms
proof (induction hs arbitrary: st f)
  case (Cons h hs)
  from hunk_applied [OF _ Cons.prems(2), of h] Cons.prems(1)
  obtain i j where "fold patch_line (hunk_text h) st = st\<lparr>ps_old := i, ps_new := j, ps_width := hunk_width h, ps_files := fs @ [add_hunk h f]\<rparr>" by auto
  with Cons show ?case by simp
qed simp

lemma headers_read:
  assumes "name_ok n" "ps_files st = [] \<or> pf_file (last (ps_files st)) \<noteq> n"
  shows "fold patch_line [''diff --git a/'' @ n @ '' b/'' @ n, ''--- a/'' @ n, ''+++ b/'' @ n] st =
    st\<lparr>ps_files := ps_files st @ [\<lparr>pf_file = n, pf_lines = [], pf_added = 0, pf_removed = 0, pf_hunks = []\<rparr>]\<rparr>"
proof -
  have n: "n \<noteq> []" "n \<noteq> ''/dev/null''" using assms(1) by (simp_all add: name_ok_def)
  let ?st = "st\<lparr>ps_files := ps_files st @ [\<lparr>pf_file = n, pf_lines = [], pf_added = 0, pf_removed = 0, pf_hunks = []\<rparr>]\<rparr>"
  have "patch_line (''diff --git a/'' @ n @ '' b/'' @ n) st = ?st"
    using git_name_read [OF assms(1)] n(2) assms(2) by (auto simp: patch_line_def open_file_def)
  moreover have "patch_line (''--- a/'' @ n) ?st = ?st"
    by (simp add: patch_line_def git_name_def plus_name_def skipped_header_def drop_prefix_one starts_with_simps)
  moreover have "git_name (''+++ b/'' @ n) = None" by (simp add: git_name_def drop_prefix_one starts_with_simps)
  then have "patch_line (''+++ b/'' @ n) ?st = ?st"
    using plus_name_read [OF n(1)] by (simp add: patch_line_def open_file_def)
  ultimately show ?thesis by simp
qed

lemma shown_file_name [simp]: "pf_file (shown_file f) = fst f"
proof -
  have "pf_file (fold add_hunk hs g) = pf_file g" for hs g by (induction hs arbitrary: g) (simp_all add: add_hunk_def)
  then show ?thesis by (simp add: shown_file_def)
qed

definition files_ok :: "(string \<times> patch_hunk list) list \<Rightarrow> bool" where
  "files_ok fs \<longleftrightarrow> list_all (\<lambda>f. name_ok (fst f) \<and> list_all hunk_ok (snd f)) fs \<and> distinct_adj (map fst fs)"

lemma files_read:
  assumes "files_ok fs" "fs \<noteq> [] \<longrightarrow> ps_files st = [] \<or> pf_file (last (ps_files st)) \<noteq> fst (hd fs)"
  shows "ps_files (fold patch_line (concat (map file_text fs)) st) = ps_files st @ map shown_file fs"
  using assms
proof (induction fs arbitrary: st)
  case (Cons f fs)
  let ?e = "\<lparr>pf_file = fst f, pf_lines = [], pf_added = 0, pf_removed = 0, pf_hunks = []\<rparr>"
  let ?st = "st\<lparr>ps_files := ps_files st @ [?e]\<rparr>"
  have f: "name_ok (fst f)" "list_all hunk_ok (snd f)" "files_ok fs"
    using Cons.prems(1) by (auto simp: files_ok_def distinct_adj_Cons)
  let ?st2 = "fold patch_line (concat (map hunk_text (snd f))) ?st"
  have "fold patch_line (file_text f) st = ?st2"
    using headers_read [OF f(1), of st] Cons.prems(2) by (simp add: file_text_def)
  moreover have files: "ps_files ?st2 = ps_files st @ [shown_file f]" using hunks_applied [OF f(2), of ?st "ps_files st" ?e] by (simp add: shown_file_def)
  moreover have "fs \<noteq> [] \<longrightarrow> fst f \<noteq> fst (hd fs)" using Cons.prems(1) by (cases fs) (auto simp: files_ok_def)
  ultimately show ?case using Cons.IH [OF f(3), of ?st2] by simp
qed simp

lemma dec_one_line: "one_line (nat_to_dec n)"
  using nat_to_dec_digits [of n] by (auto simp: one_line_def list_all_iff is_digit_def)

lemma file_text_lines: "name_ok (fst f) \<Longrightarrow> list_all hunk_ok (snd f) \<Longrightarrow> list_all one_line (file_text f)"
proof -
  assume f: "name_ok (fst f)" "list_all hunk_ok (snd f)"
  have "one_line (change_text c)" if "change_ok c" for c using that by (cases c) (auto simp: one_line_def)
  moreover have "one_line (hunk_head h)" if "hunk_ok h" for h using that dec_one_line by (auto simp: one_line_def hunk_head_def hunk_ok_def)
  ultimately have "list_all one_line (hunk_text h)" if "hunk_ok h" for h
    using that by (auto simp: hunk_text_def hunk_ok_def list_all_iff)
  then show ?thesis using f by (auto simp: file_text_def list_all_iff name_ok_def one_line_def)
qed

lemma join_set: "set (join sep xs) \<subseteq> set sep \<union> \<Union> (set ` set xs)"
  by (induction sep xs rule: join.induct) auto

lemma normalize_plain: "CR \<notin> set s \<Longrightarrow> normalizeCode s = s"
  by (induction s) auto


section \<open>On samples\<close>

definition sample_hunk :: patch_hunk where
  "sample_hunk = \<lparr>hk_old = 9, hk_oldCount = 3, hk_new = 9, hk_newCount = 3, hk_section = '' main'',
     hk_changes = [Context ''a'', Removed ''b'', Added ''+c'', Context []]\<rparr>"


text \<open>What the conditions leave out.  A removed line whose text starts with two dashes, a comment in SQL, Lua or Haskell, is dropped as if it were
  a header, and the lines after it are numbered one too low; an added line that starts with two plus signs and a space opens a new
  file, which takes the rest of the hunk.\<close>

theorem dashes_dropped:
  "map (\<lambda>f. (pf_removed f, map (\<lambda>l. (ln_text l, ln_gutter l)) (tl (pf_lines f))))
     (parseUnifiedDiff (join [LF] [''+++ b/q.sql'', ''@@ -1,2 +1,1 @@ x'', ''--- drop'', '' keep''])) =
   [(0, [(''keep'', Some '' 1  1'')])]"
  by code_simp

theorem pluses_open_file:
  "map (\<lambda>f. (pf_file f, pf_added f, length (pf_lines f)))
     (parseUnifiedDiff (join [LF] [''+++ b/n.c'', ''@@ -1,1 +1,2 @@ x'', ''+++ i;'', '' keep''])) =
   [(''n.c'', 0, 1), (''i;'', 0, 1)]"
  by code_simp

text \<open>The newline that ends every patch is read as one more unchanged, empty line of the last file; and a deleted file in a patch without the
  lines of git is not shown under its old name, but lost, or added to the file before it.\<close>

theorem last_newline_is_row:
  "map (\<lambda>f. map ln_text (pf_lines f)) (parseUnifiedDiff (''+++ b/n.c'' @ [LF] @ ''@@ -1 +1 @@ x'' @ [LF] @ '' keep'' @ [LF])) =
   [[''x'', ''keep'', []]]"
  by code_simp

theorem deletion_lost:
  "parseUnifiedDiff (join [LF] [''--- a/gone.c'', ''+++ /dev/null'', ''@@ -1,1 +0,0 @@ x'', ''-old'']) = [] \<and>
   map (\<lambda>f. (pf_file f, map ln_text (pf_lines f)))
     (parseUnifiedDiff (join [LF] [''--- a/n.c'', ''+++ b/n.c'', ''@@ -1,1 +1,1 @@ x'', ''+new'', ''--- a/gone.c'', ''+++ /dev/null'', ''@@ -1,1 +0,0 @@ y'', ''-old''])) =
   [(''n.c'', [''x'', ''new'', ''y'', ''old''])]"
  by code_simp

text \<open>Links in terminal output: the text between two sequences that end in the string terminator is taken for part of the first one.\<close>

theorem link_text_lost:
  "map ln_text (ansiToLines (ESC # '']8;;http://x'' @ [ESC, CHR 0x5C] @ ''docs'' @ ESC # '']8;;'' @ [ESC, CHR 0x5C] @ ''.'') 1) = [''.'']"
  by code_simp

theorem terminal_text_kept_witness:
  "map (\<lambda>l. (ln_number l, ln_text l)) (ansiToLines ''ok'' 3) = map (\<lambda>l. (ln_number l, ln_text l)) (toPlainLines ''ok'' 3)"
  by (rule terminal_text_kept(2)) simp

text \<open>Every index of the palette has a colour of six digits.\<close>

lemma hex2_length: "v < 256 \<Longrightarrow> length (hex2 v) = 2"
proof -
  assume "v < 256"
  then have "v div 16 < 16" by simp
  then show "length (hex2 v) = 2"
    by (cases "v < 16") (simp_all add: hex2_def nat_to_hex.simps [of v] nat_to_hex.simps [of "v div 16"] Let_def)
qed

theorem palette_colours:
  assumes "i < 256"
  shows "length (ansi256 i) = 7"
proof -
  let ?cube = "[0, 95, 135, 175, 215, 255 :: nat]"
  have cube: "?cube ! k < 256" if "k < 6" for k
    using that nth_mem [of k ?cube] by auto
  have "length (ANSI_DARK ! i) = 7" if "i < 16"
  proof -
    have "length ANSI_DARK = 16" "list_all (\<lambda>c. length c = 7) ANSI_DARK" by code_simp+
    then show ?thesis using that by (simp add: list_all_length)
  qed
  moreover have "length (ansi256 i) = 7" if "16 \<le> i" "i < 232"
  proof -
    have "(i - 16) div 36 < 6" "(i - 16) div 6 mod 6 < 6" "(i - 16) mod 6 < 6" using that by auto
    then show ?thesis using that cube hex2_length by (simp add: ansi256_def Let_def del: nth_Cons_numeral)
  qed
  moreover have "length (ansi256 i) = 7" if "232 \<le> i"
    using that assms hex2_length [of "8 + (i - 232) * 10"] by (simp add: ansi256_def Let_def)
  ultimately show ?thesis by (cases "i < 16"; cases "i < 232") (simp_all add: ansi256_def)
qed

end
