(* ===== verification/Code_Block_Engine.thy ===== *)
theory Code_Block_Engine
  imports Code_Block_Lines
begin

text \<open>
  Highlighting (\<^verbatim>\<open>code-block-highlight.tsx\<close>): the languages and themes, the tree of elements that the highlighter returns and the
  lines read from it, the state that props put on lines, and the cache of the last document.  The highlighter itself is a
  parameter: whether a grammar or a theme loads, and the tree for a source, \<open>None\<close> when it throws.  The module's state is a
  record; a call runs as one step on it.
\<close>

section \<open>Languages and themes\<close>

definition codeBlockLanguages :: "string list" where
  "codeBlockLanguages = [''bash'', ''c'', ''cpp'', ''csharp'', ''css'', ''diff'', ''docker'', ''go'', ''graphql'', ''html'', ''java'', ''javascript'',
     ''json'', ''jsx'', ''kotlin'', ''markdown'', ''php'', ''python'', ''ruby'', ''rust'', ''scss'', ''shell'', ''sql'', ''swift'', ''toml'', ''tsx'',
     ''typescript'', ''vue'', ''yaml'']"

definition LANGUAGE_ALIASES :: "(string \<times> string) list" where
  "LANGUAGE_ALIASES = [(''c++'', ''cpp''), (''c#'', ''csharp''), (''cs'', ''csharp''), (''dockerfile'', ''docker''), (''htm'', ''html''),
     (''js'', ''javascript''), (''jsonc'', ''json''), (''md'', ''markdown''), (''mdx'', ''markdown''), (''py'', ''python''), (''rb'', ''ruby''),
     (''rs'', ''rust''), (''sh'', ''shell''), (''shellscript'', ''shell''), (''ts'', ''typescript''), (''yml'', ''yaml''), (''zsh'', ''shell'')]"

definition codeBlockThemes :: "string list" where
  "codeBlockThemes = [''github-light'', ''github-dark'', ''css-variables'']"

datatype theme_side = LightSide | DarkSide

definition DEFAULT_CODE_BLOCK_THEMES :: "theme_side \<Rightarrow> string" where
  "DEFAULT_CODE_BLOCK_THEMES side = (case side of LightSide \<Rightarrow> ''github-light'' | DarkSide \<Rightarrow> ''github-dark'')"

text \<open>\<^verbatim>\<open>toLowerCase\<close> on the modelled characters.  A name that is a property of every object, such as \<^verbatim>\<open>constructor\<close>, is not modelled.\<close>

definition lower :: "string \<Rightarrow> string" where
  "lower = map (\<lambda>c. let n = of_char c :: nat in if 65 \<le> n \<and> n \<le> 90 \<or> 192 \<le> n \<and> n \<le> 222 \<and> n \<noteq> 215 then char_of (n + 32) else c)"

definition resolveCodeBlockLanguage :: "string option \<Rightarrow> string option" where
  "resolveCodeBlockLanguage language =
     (case language of
        None \<Rightarrow> None
      | Some l \<Rightarrow>
          if l = [] then None
          else (let normalized = lower (trim l);
                    resolved = (case map_of LANGUAGE_ALIASES normalized of Some r \<Rightarrow> r | None \<Rightarrow> normalized)
                in if resolved \<in> set codeBlockLanguages then Some resolved else None))"

section \<open>The tree of elements\<close>

datatype class_value = ClassList "string list" | ClassText string

record hast_props =
  hp_class :: "class_value option"
  hp_className :: "class_value option"
  hp_style :: "string option"

datatype hast_node = HText "string option" | HElement string hast_props "hast_node list" | HOther "hast_node list"

definition font_style_of :: "string \<Rightarrow> font_style option" where
  "font_style_of d = map_of [(''font-style:italic'', FontItalic), (''font-weight:bold'', FontBold), (''text-decoration:underline'', FontUnderline)] d"

definition read_declaration :: "string \<Rightarrow> cb_token \<Rightarrow> cb_token" where
  "read_declaration declaration t =
     (let trimmed = trim declaration; property = trim (takeWhile (\<lambda>c. c \<noteq> CHR '':'') trimmed);
          value' = trim (tl (dropWhile (\<lambda>c. c \<noteq> CHR '':'') trimmed))
      in if trimmed = [] \<or> CHR '':'' \<notin> set trimmed then t
         else if property = ''color'' then t\<lparr>tk_color := Some value'\<rparr>
         else if property = ''--shiki-dark'' then t\<lparr>tk_colorDark := Some value'\<rparr>
         else case font_style_of (property @ '':'' @ value') of Some f \<Rightarrow> t\<lparr>tk_fontStyle := Some f\<rparr> | None \<Rightarrow> t)"

text \<open>The fields of a style, as a token without text.\<close>

definition readTokenStyle :: "string option \<Rightarrow> cb_token" where
  "readTokenStyle style = (case style of None \<Rightarrow> plain_token [] | Some s \<Rightarrow> fold read_declaration (split_on CHR '';'' s) (plain_token []))"

fun split_ws :: "string \<Rightarrow> string \<Rightarrow> string list" where
  "split_ws acc [] = (if acc = [] then [] else [acc])"
| "split_ws acc (c # s) = (if is_ws c then (if acc = [] then [] else [acc]) @ split_ws [] s else split_ws (acc @ [c]) s)"

definition classListOf :: "hast_props \<Rightarrow> string list" where
  "classListOf p =
     (case (case hp_class p of Some v \<Rightarrow> Some v | None \<Rightarrow> hp_className p) of
        Some (ClassList cs) \<Rightarrow> cs
      | Some (ClassText s) \<Rightarrow> split_ws [] s
      | None \<Rightarrow> [])"

definition state_of :: "line_state \<Rightarrow> line_state option" where
  "state_of st = (if st = [] then None else Some st)"

definition LEVELS :: "string list" where
  "LEVELS = [''error'', ''warning'', ''info'']"

definition stateFromClasses :: "string list \<Rightarrow> line_state option" where
  "stateFromClasses classes =
     (let s1 = (if ''highlighted'' \<in> set classes then AList.update ''highlighted'' StateTrue [] else []);
          s2 = (if ''focused'' \<in> set classes then AList.update ''focused'' StateTrue s1 else s1);
          s3 = (if ''diff'' \<in> set classes
                then (if ''add'' \<in> set classes then AList.update ''diff'' (StateText ''add'') s2
                      else if ''remove'' \<in> set classes then AList.update ''diff'' (StateText ''remove'') s2 else s2)
                else s2)
      in state_of (fold (\<lambda>l s. if l \<in> set classes then AList.update ''level'' (StateText l) s else s) LEVELS s3))"

definition truthy_style :: "string option \<Rightarrow> bool" where
  "truthy_style s \<longleftrightarrow> s \<noteq> None \<and> s \<noteq> Some []"

fun is_text :: "hast_node \<Rightarrow> bool" where
  "is_text (HText _) = True"
| "is_text _ = False"

fun text_value :: "hast_node \<Rightarrow> string" where
  "text_value (HText (Some s)) = s"
| "text_value _ = []"

fun collectTokens :: "bool \<Rightarrow> hast_node list \<Rightarrow> cb_token list" where
  "collectTokens inWord [] = []"
| "collectTokens inWord (HText v # ns) =
     (case v of None \<Rightarrow> [] | Some s \<Rightarrow> if s = [] then [] else [(plain_token s)\<lparr>tk_word := inWord\<rparr>]) @ collectTokens inWord ns"
| "collectTokens inWord (HOther ks # ns) = collectTokens inWord ns"
| "collectTokens inWord (HElement tag p ks # ns) =
     (let childInWord = (inWord \<or> ''cb-word'' \<in> set (classListOf p)); style = readTokenStyle (hp_style p);
          hasStyle = (truthy_style (tk_color style) \<or> truthy_style (tk_colorDark style) \<or> tk_fontStyle style \<noteq> None);
          content = concat (map text_value ks)
      in (if hasStyle \<and> list_all is_text ks
          then (if content = [] then [] else [style\<lparr>tk_content := content, tk_word := childInWord\<rparr>])
          else collectTokens childInWord ks) @ collectTokens inWord ns)"

text \<open>The first element named \<^verbatim>\<open>code\<close> below a list of nodes, by its children.\<close>

fun find_code :: "hast_node list \<Rightarrow> hast_node list option" where
  "find_code [] = None"
| "find_code (HText v # ns) = find_code ns"
| "find_code (HOther ks # ns) = (case find_code ks of Some e \<Rightarrow> Some e | None \<Rightarrow> find_code ns)"
| "find_code (HElement tag p ks # ns) =
     (if tag = ''code'' then Some ks else case find_code ks of Some e \<Rightarrow> Some e | None \<Rightarrow> find_code ns)"

definition findCodeElement :: "hast_node \<Rightarrow> hast_node list option" where
  "findCodeElement tree = find_code [tree]"

fun read_lines :: "int \<Rightarrow> hast_node list \<Rightarrow> cb_line list" where
  "read_lines n [] = []"
| "read_lines n (HElement tag p ks # ns) =
     (let tokens = collectTokens False ks
      in \<lparr>ln_tokens = tokens, ln_number = n, ln_text = concat (map tk_content tokens), ln_state = stateFromClasses (classListOf p),
          ln_gutter = None\<rparr> # read_lines (n + 1) ns)"
| "read_lines n (_ # ns) = read_lines n ns"

section \<open>State from props\<close>

record highlight_options =
  ho_language :: "string option"
  ho_themes :: "(string \<times> string) option"
  ho_transformers :: nat
  ho_startLine :: "int option"
  ho_instanceKey :: "string option"
  ho_highlightedLines :: "line_spec option"
  ho_highlightedWords :: "word_spec list"
  ho_focusedLines :: "line_spec option"
  ho_added :: "line_spec option"
  ho_removed :: "line_spec option"
  ho_levels :: "string \<Rightarrow> line_spec option"

definition prop_state :: "highlight_options \<Rightarrow> nat \<Rightarrow> line_state \<Rightarrow> line_state" where
  "prop_state o' source s0 =
     (let s1 = (if source \<in> set (parseLineSpec (ho_highlightedLines o')) then AList.update ''highlighted'' StateTrue s0 else s0);
          s2 = (if source \<in> set (parseLineSpec (ho_focusedLines o')) then AList.update ''focused'' StateTrue s1 else s1);
          s3 = (if source \<in> set (parseLineSpec (ho_added o')) then AList.update ''diff'' (StateText ''add'') s2
                else if source \<in> set (parseLineSpec (ho_removed o')) then AList.update ''diff'' (StateText ''remove'') s2 else s2)
      in fold (\<lambda>l s. if source \<in> set (parseLineSpec (ho_levels o' l)) then AList.update ''level'' (StateText l) s else s) LEVELS s3)"

definition applyPropState :: "cb_line list \<Rightarrow> highlight_options \<Rightarrow> cb_line list" where
  "applyPropState lines o' =
     map (\<lambda>(i, line). line\<lparr>ln_state := state_of (prop_state o' (i + 1) (case ln_state line of None \<Rightarrow> [] | Some s \<Rightarrow> s))\<rparr>) (enumerate 0 lines)"

section \<open>Documents kept for reuse\<close>

definition MAX_TRACKED_DOCUMENTS :: nat where
  "MAX_TRACKED_DOCUMENTS = 24"

text \<open>The two states are compared by their JSON text, which lists the keys in their order.\<close>

definition sameLine :: "cb_line \<Rightarrow> cb_line \<Rightarrow> bool" where
  "sameLine a b \<longleftrightarrow>
     ln_number a = ln_number b \<and> ln_text a = ln_text b \<and> length (ln_tokens a) = length (ln_tokens b) \<and> ln_state a = ln_state b \<and>
     list_all (\<lambda>(l, r). tk_content l = tk_content r \<and> tk_color l = tk_color r \<and> tk_colorDark l = tk_colorDark r \<and>
        tk_fontStyle l = tk_fontStyle r \<and> tk_word l = tk_word r) (zip (ln_tokens a) (ln_tokens b))"

fun reuse_lines :: "cb_line list \<Rightarrow> cb_line list \<Rightarrow> cb_line list" where
  "reuse_lines (b # bs) (n # ns) = (if sameLine b n then b else n) # reuse_lines bs ns"
| "reuse_lines _ ns = ns"

text \<open>A map in the order its keys came in: setting a key that is there keeps its place.\<close>

definition reuseUnchangedLines ::
  "'k \<Rightarrow> cb_line list \<Rightarrow> ('k \<times> cb_line list) list \<Rightarrow> cb_line list \<times> ('k \<times> cb_line list) list" where
  "reuseUnchangedLines key lines docs =
     (let result = (case map_of docs key of Some previous \<Rightarrow> reuse_lines previous lines | None \<Rightarrow> lines);
          docs1 = AList.update key result docs
      in (result, if length docs1 > MAX_TRACKED_DOCUMENTS then tl docs1 else docs1))"

section \<open>Highlighting\<close>

text \<open>The signature of a call: the components of the array that is turned into its JSON text.\<close>

type_synonym signature =
  "string option \<times> string \<times> (string \<times> string) \<times> int \<times> line_spec option \<times> word_spec list \<times> line_spec option \<times>
     (line_spec option \<times> line_spec option) \<times> line_spec option list \<times> nat"

record highlight_request =
  hr_lang :: string
  hr_light :: string
  hr_dark :: string
  hr_decorations :: "(nat \<times> nat) list"

record highlighter =
  hl_themeLoads :: "string \<Rightarrow> bool"
  hl_languageLoads :: "string \<Rightarrow> bool"
  hl_codeToHast :: "string \<Rightarrow> highlight_request \<Rightarrow> hast_node option"

record engine =
  en_themes :: "string list"
  en_languages :: "string list"
  en_documents :: "(signature \<times> cb_line list) list"

text \<open>The warning on the console about an unknown theme is left out.\<close>

definition ensureTheme :: "highlighter \<Rightarrow> string \<Rightarrow> theme_side \<Rightarrow> engine \<Rightarrow> string option \<times> engine" where
  "ensureTheme h name side e =
     (let resolved = (if name \<in> set codeBlockThemes then name else DEFAULT_CODE_BLOCK_THEMES side)
      in if resolved \<in> set (en_themes e) then (Some resolved, e)
         else if hl_themeLoads h resolved then (Some resolved, e\<lparr>en_themes := en_themes e @ [resolved]\<rparr>)
         else (None, e))"

definition ensureLanguage :: "highlighter \<Rightarrow> string \<Rightarrow> engine \<Rightarrow> bool \<times> engine" where
  "ensureLanguage h language e =
     (if language \<in> set (en_languages e) \<or> language \<notin> set codeBlockLanguages then (True, e)
      else if hl_languageLoads h language then (True, e\<lparr>en_languages := en_languages e @ [language]\<rparr>)
      else (False, e))"

text \<open>Both sides are asked for without naming the side, so that each falls back to the light theme.  The two loads run side by side: a failure of
  one does not stop the other.\<close>

definition prepare :: "highlighter \<Rightarrow> string \<times> string \<Rightarrow> string \<Rightarrow> engine \<Rightarrow> (string \<times> string) option \<times> engine" where
  "prepare h themes language e =
     (case ensureTheme h (fst themes) LightSide e of (light, e1) \<Rightarrow>
      (case ensureTheme h (snd themes) LightSide e1 of (dark, e2) \<Rightarrow>
       (case (light, dark) of
          (Some l, Some d) \<Rightarrow> (case ensureLanguage h language e2 of (ok, e3) \<Rightarrow> (if ok then Some (l, d) else None, e3))
        | _ \<Rightarrow> (None, e2))))"

definition highlightCode :: "highlighter \<Rightarrow> string \<Rightarrow> highlight_options \<Rightarrow> engine \<Rightarrow> cb_line list \<times> engine" where
  "highlightCode h code o' e =
     (let source = normalizeCode code; startLine = (case ho_startLine o' of Some n \<Rightarrow> n | None \<Rightarrow> 1); plain = toPlainLines source startLine
      in case resolveCodeBlockLanguage (ho_language o') of
           None \<Rightarrow> (plain, e)
         | Some language \<Rightarrow>
             (let themes = (case ho_themes o' of Some t \<Rightarrow> t | None \<Rightarrow> (DEFAULT_CODE_BLOCK_THEMES LightSide, DEFAULT_CODE_BLOCK_THEMES DarkSide));
                  signature = (ho_instanceKey o', language, themes, startLine, ho_highlightedLines o', ho_highlightedWords o', ho_focusedLines o',
                    (ho_added o', ho_removed o'), map (ho_levels o') LEVELS, ho_transformers o')
              in case prepare h themes language e of
                   (None, e1) \<Rightarrow> (plain, e1)
                 | (Some (light, dark), e1) \<Rightarrow>
                     (case hl_codeToHast h source
                             \<lparr>hr_lang = language, hr_light = light, hr_dark = dark, hr_decorations = buildWordDecorations source (ho_highlightedWords o')\<rparr> of
                        None \<Rightarrow> (plain, e1)
                      | Some tree \<Rightarrow>
                          (case findCodeElement tree of
                             None \<Rightarrow> (plain, e1)
                           | Some kids \<Rightarrow>
                               (let lines = read_lines startLine kids
                                in if lines = [] then (plain, e1)
                                   else (case reuseUnchangedLines signature (applyPropState lines o') (en_documents e1) of
                                           (result, docs) \<Rightarrow> (result, e1\<lparr>en_documents := docs\<rparr>)))))))"

definition resetCodeBlockHighlighter :: "engine \<Rightarrow> engine" where
  "resetCodeBlockHighlighter e = e\<lparr>en_themes := [], en_languages := [], en_documents := []\<rparr>"

section \<open>The text is kept\<close>

text \<open>The text of a list of nodes, without what is neither text nor an element.\<close>

fun nodes_text :: "hast_node list \<Rightarrow> string" where
  "nodes_text [] = []"
| "nodes_text (HText v # ns) = (case v of None \<Rightarrow> [] | Some s \<Rightarrow> s) @ nodes_text ns"
| "nodes_text (HOther ks # ns) = nodes_text ns"
| "nodes_text (HElement tag p ks # ns) = nodes_text ks @ nodes_text ns"

lemma texts_only: "list_all is_text ks \<Longrightarrow> concat (map text_value ks) = nodes_text ks"
proof (induction ks)
  case (Cons k ks)
  then obtain v where "k = HText v" by (cases k) auto
  with Cons show ?case by (cases v) simp_all
qed simp

lemma tokens_text: "concat (map tk_content (collectTokens w ns)) = nodes_text ns"
proof (induction w ns rule: collectTokens.induct)
  case (2 w v ns)
  then show ?case by (auto simp: plain_token_def split: option.splits)
next
  case (4 w tag p ks ns)
  then show ?case by (auto simp: Let_def texts_only)
qed simp_all

definition line_elements :: "hast_node list \<Rightarrow> hast_node list list" where
  "line_elements ns = List.map_filter (\<lambda>n. case n of HElement tag p ks \<Rightarrow> Some ks | _ \<Rightarrow> None) ns"

lemma read_lines_text: "map ln_text (read_lines n ns) = map nodes_text (line_elements ns)"
  by (induction n ns rule: read_lines.induct) (simp_all add: line_elements_def List.map_filter_def tokens_text Let_def)

lemma read_lines_number: "map ln_number (read_lines n ns) = map (\<lambda>i. n + int i) [0..<length (read_lines n ns)]"
proof (induction n ns rule: read_lines.induct)
  case (2 n tag p ks ns)
  have "map (\<lambda>i. n + int i) [0..<Suc k] = n # map (\<lambda>i. n + 1 + int i) [0..<k]" for k
    by (simp add: upt_conv_Cons map_Suc_upt [symmetric] comp_def algebra_simps del: upt_Suc)
  with 2 show ?case by (simp add: Let_def)
qed simp_all

lemma read_lines_gutter: "list_all (\<lambda>l. ln_gutter l = None) (read_lines n ns)"
  by (induction n ns rule: read_lines.induct) (simp_all add: Let_def)

lemma same_line_eq: "sameLine a b \<Longrightarrow> ln_gutter a = ln_gutter b \<Longrightarrow> a = b"
  by (auto simp: sameLine_def list_all_length intro!: cb_line.equality nth_equalityI cb_token.equality)

lemma reuse_same: "list_all (\<lambda>l. ln_gutter l = None) bs \<Longrightarrow> list_all (\<lambda>l. ln_gutter l = None) ns \<Longrightarrow> reuse_lines bs ns = ns"
  by (induction bs ns rule: reuse_lines.induct) (auto dest: same_line_eq)

text \<open>What holds of the module's state between calls.\<close>

definition engine_ok :: "engine \<Rightarrow> bool" where
  "engine_ok e \<longleftrightarrow>
     distinct (map fst (en_documents e)) \<and> length (en_documents e) \<le> MAX_TRACKED_DOCUMENTS \<and>
     list_all (\<lambda>(k, ls). list_all (\<lambda>l. ln_gutter l = None) ls) (en_documents e)"

lemma reuse_transparent:
  assumes "list_all (\<lambda>(k, ls). list_all (\<lambda>l. ln_gutter l = None) ls) docs" "list_all (\<lambda>l. ln_gutter l = None) lines"
  shows "fst (reuseUnchangedLines key lines docs) = lines"
  using assms by (auto simp: reuseUnchangedLines_def Let_def list_all_iff intro!: reuse_same split: option.splits dest!: map_of_SomeD)

lemma update_docs:
  assumes "distinct (map fst docs)" "length docs \<le> MAX_TRACKED_DOCUMENTS" "list_all (\<lambda>(k, ls). Q ls) docs" "Q r"
  shows "distinct (map fst (AList.update key r docs))" "length (AList.update key r docs) \<le> Suc MAX_TRACKED_DOCUMENTS"
    "list_all (\<lambda>(k, ls). Q ls) (AList.update key r docs)"
proof -
  show "distinct (map fst (AList.update key r docs))" using assms(1) by (rule distinct_update)
  have "length (AList.update key r docs) \<le> Suc (length docs)" by (induction docs) auto
  with assms(2) show "length (AList.update key r docs) \<le> Suc MAX_TRACKED_DOCUMENTS" by simp
  show "list_all (\<lambda>(k, ls). Q ls) (AList.update key r docs)" using assms(3,4) by (induction docs) auto
qed

lemma reuse_keeps:
  assumes "engine_ok e" "list_all (\<lambda>l. ln_gutter l = None) lines"
  shows "engine_ok (e\<lparr>en_documents := snd (reuseUnchangedLines key lines (en_documents e))\<rparr>)"
proof -
  let ?r = "fst (reuseUnchangedLines key lines (en_documents e))"
  let ?d = "AList.update key ?r (en_documents e)"
  note ok = assms(1) [unfolded engine_ok_def]
  have r: "?r = lines" by (rule reuse_transparent [OF ok [THEN conjunct2, THEN conjunct2] assms(2)])
  have d: "distinct (map fst ?d)" "length ?d \<le> Suc MAX_TRACKED_DOCUMENTS" "list_all (\<lambda>(k, ls). list_all (\<lambda>l. ln_gutter l = None) ls) ?d"
    using update_docs [of "en_documents e" "list_all (\<lambda>l. ln_gutter l = None)" ?r key] ok assms(2) r by auto
  have "snd (reuseUnchangedLines key lines (en_documents e)) = (if length ?d > MAX_TRACKED_DOCUMENTS then tl ?d else ?d)"
    by (simp add: reuseUnchangedLines_def Let_def)
  moreover have "distinct (map fst (tl ?d))" "list_all (\<lambda>(k, ls). list_all (\<lambda>l. ln_gutter l = None) ls) (tl ?d)" "length (tl ?d) \<le> MAX_TRACKED_DOCUMENTS"
    using d by (cases ?d; simp)+
  ultimately show ?thesis using d by (simp add: engine_ok_def)
qed

lemma prop_state_keeps:
  "map ln_text (applyPropState lines o') = map ln_text lines" "map ln_number (applyPropState lines o') = map ln_number lines"
  "list_all (\<lambda>l. ln_gutter l = None) lines \<Longrightarrow> list_all (\<lambda>l. ln_gutter l = None) (applyPropState lines o')"
proof -
  have "map ln_text (map (\<lambda>(i, line). line\<lparr>ln_state := f i line\<rparr>) (enumerate k lines)) = map ln_text lines"
    "map ln_number (map (\<lambda>(i, line). line\<lparr>ln_state := f i line\<rparr>) (enumerate k lines)) = map ln_number lines" for f k
    by (induction lines arbitrary: k) simp_all
  note kept = this
  show "map ln_text (applyPropState lines o') = map ln_text lines" unfolding applyPropState_def by (rule kept(1))
  show "map ln_number (applyPropState lines o') = map ln_number lines" unfolding applyPropState_def by (rule kept(2))
  show "list_all (\<lambda>l. ln_gutter l = None) lines \<Longrightarrow> list_all (\<lambda>l. ln_gutter l = None) (applyPropState lines o')"
    by (auto simp: applyPropState_def list_all_iff in_set_enumerate_eq)
qed

lemma prepare_documents: "en_documents (snd (prepare h themes language e)) = en_documents e"
  by (simp add: prepare_def ensureTheme_def ensureLanguage_def Let_def split: prod.splits option.splits if_splits)

text \<open>What the highlighter documents of its tree: the code element has one element for each line of the source, with its text.\<close>

definition keeps_text :: "highlighter \<Rightarrow> bool" where
  "keeps_text h \<longleftrightarrow>
     (\<forall>source r tree kids. hl_codeToHast h source r = Some tree \<longrightarrow> findCodeElement tree = Some kids \<longrightarrow>
        map nodes_text (line_elements kids) = split_on LF source)"

lemma normalize_no_cr: "CR \<notin> set (normalizeCode s)"
proof (induction s rule: normalizeCode.induct)
  case (2 c s)
  then show ?case by (cases s) (auto simp del: normalizeCode.simps simp: normalizeCode.simps(2) [of c])
qed simp

lemma normalize_idem: "normalizeCode (normalizeCode s) = normalizeCode s"
proof -
  have "CR \<notin> set t \<Longrightarrow> normalizeCode t = t" for t by (induction t) auto
  then show ?thesis using normalize_no_cr by blast
qed

definition shows_source :: "string \<Rightarrow> int \<Rightarrow> cb_line list \<Rightarrow> bool" where
  "shows_source code n ls \<longleftrightarrow>
     map ln_text ls = split_on LF (normalizeCode code) \<and> map ln_number ls = map (\<lambda>i. n + int i) [0..<length (split_on LF (normalizeCode code))]"

lemma plain_shows: "shows_source code n (toPlainLines code n)" "shows_source code n (toPlainLines (normalizeCode code) n)"
proof -
  have "map ln_text (map (\<lambda>(i, s). plain_line (n + int i) s) (enumerate k xs)) = xs"
    "map ln_number (map (\<lambda>(i, s). plain_line (n + int i) s) (enumerate k xs)) = map (\<lambda>i. n + int i) [k..<k + length xs]" for k xs
    by (induction xs arbitrary: k) (simp_all add: plain_line_def upt_conv_Cons del: upt_Suc)
  from this [of 0] show "shows_source code n (toPlainLines code n)" "shows_source code n (toPlainLines (normalizeCode code) n)"
    by (simp_all add: shows_source_def toPlainLines_def normalize_idem)
qed

lemma highlight_cases:
  obtains (plain) "fst (highlightCode h code o' e) = toPlainLines (normalizeCode code) (case ho_startLine o' of Some n \<Rightarrow> n | None \<Rightarrow> 1)"
      "en_documents (snd (highlightCode h code o' e)) = en_documents e"
  | (tree) key themes language kids r tree where
      "hl_codeToHast h (normalizeCode code) r = Some tree" "findCodeElement tree = Some kids"
      "highlightCode h code o' e =
         (case reuseUnchangedLines key (applyPropState (read_lines (case ho_startLine o' of Some n \<Rightarrow> n | None \<Rightarrow> 1) kids) o') (en_documents e) of
            (result, docs) \<Rightarrow> (result, (snd (prepare h themes language e))\<lparr>en_documents := docs\<rparr>))"
proof (cases "resolveCodeBlockLanguage (ho_language o')")
  case None
  then show thesis using plain by (simp add: highlightCode_def)
next
  case (Some language)
  define themes where "themes = (case ho_themes o' of Some t \<Rightarrow> t | None \<Rightarrow> (DEFAULT_CODE_BLOCK_THEMES LightSide, DEFAULT_CODE_BLOCK_THEMES DarkSide))"
  obtain p e1 where prep: "prepare h themes language e = (p, e1)" by (cases "prepare h themes language e")
  have docs: "en_documents e1 = en_documents e" using prepare_documents [of h themes language e] prep by simp
  show thesis
  proof (cases p)
    case None
    then show thesis using plain Some prep docs by (simp add: highlightCode_def themes_def Let_def)
  next
    case p: (Some ld)
    obtain light dark where ld: "ld = (light, dark)" by (cases ld)
    define r where "r = \<lparr>hr_lang = language, hr_light = light, hr_dark = dark,
      hr_decorations = buildWordDecorations (normalizeCode code) (ho_highlightedWords o')\<rparr>"
    show thesis
    proof (cases "hl_codeToHast h (normalizeCode code) r")
      case None
      then show thesis using plain Some prep p ld docs by (simp add: highlightCode_def themes_def Let_def r_def)
    next
      case t: (Some t)
      show thesis
      proof (cases "\<exists>kids. findCodeElement t = Some kids \<and> read_lines (case ho_startLine o' of Some n \<Rightarrow> n | None \<Rightarrow> 1) kids \<noteq> []")
        case False
        then show thesis
          using plain Some prep p ld docs t by (auto simp: highlightCode_def themes_def Let_def r_def split: option.splits)
      next
        case True
        then obtain kids where "findCodeElement t = Some kids" "read_lines (case ho_startLine o' of Some n \<Rightarrow> n | None \<Rightarrow> 1) kids \<noteq> []" by blast
        then show thesis
          using tree [OF t, where themes = themes and language = language] Some prep p ld docs t
          by (simp add: highlightCode_def themes_def [symmetric] Let_def r_def)
      qed
    qed
  qed
qed

lemma highlight_text_kept:
  assumes "keeps_text h" "engine_ok e"
  shows "shows_source code (case ho_startLine o' of Some n \<Rightarrow> n | None \<Rightarrow> 1) (fst (highlightCode h code o' e)) \<and> engine_ok (snd (highlightCode h code o' e))"
proof (cases h code o' e rule: highlight_cases)
  case plain
  then show ?thesis using plain_shows assms(2) by (simp add: engine_ok_def)
next
  case (tree key themes language kids r t)
  let ?n = "case ho_startLine o' of Some n \<Rightarrow> n | None \<Rightarrow> 1"
  let ?ls = "applyPropState (read_lines ?n kids) o'"
  have none: "list_all (\<lambda>l. ln_gutter l = None) ?ls" by (intro prop_state_keeps(3) read_lines_gutter)
  have first: "fst (reuseUnchangedLines key ?ls (en_documents e)) = ?ls"
    using assms(2) none by (intro reuse_transparent) (auto simp: engine_ok_def)
  have "map nodes_text (line_elements kids) = split_on LF (normalizeCode code)" using assms(1) tree(1,2) by (auto simp: keeps_text_def)
  then have "map ln_text (read_lines ?n kids) = split_on LF (normalizeCode code)" by (simp add: read_lines_text)
  moreover from this have "length (read_lines ?n kids) = length (split_on LF (normalizeCode code))" by (metis length_map)
  ultimately have "shows_source code ?n ?ls" using read_lines_number [of ?n kids] by (simp add: shows_source_def prop_state_keeps(1,2))
  moreover have "engine_ok (e\<lparr>en_documents := snd (reuseUnchangedLines key ?ls (en_documents e))\<rparr>)" by (rule reuse_keeps [OF assms(2) none])
  ultimately show ?thesis using first tree(3) by (auto simp: engine_ok_def split: prod.splits)
qed


text \<open>Props win over the notation in the source: where a prop says something about a line, the state has it.\<close>

lemma level_fold:
  "map_of (fold (\<lambda>l s. if P l then AList.update ''level'' (StateText l) s else s) ls s) k =
     (if k = ''level'' \<and> list_ex P ls then Some (StateText (last (filter P ls))) else map_of s k)"
  by (induction ls arbitrary: s) (auto simp: update_conv' list_ex_iff filter_empty_conv)

theorem props_win:
  fixes lines :: "cb_line list" and o' :: highlight_options
  assumes "i < length lines"
  defines "st \<equiv> (case ln_state (applyPropState lines o' ! i) of None \<Rightarrow> [] | Some s \<Rightarrow> s)"
  shows "Suc i \<in> set (parseLineSpec (ho_highlightedLines o')) \<Longrightarrow> map_of st ''highlighted'' = Some StateTrue"
    and "Suc i \<in> set (parseLineSpec (ho_focusedLines o')) \<Longrightarrow> map_of st ''focused'' = Some StateTrue"
    and "Suc i \<in> set (parseLineSpec (ho_added o')) \<Longrightarrow> map_of st ''diff'' = Some (StateText ''add'')"
    and "Suc i \<in> set (parseLineSpec (ho_removed o')) - set (parseLineSpec (ho_added o')) \<Longrightarrow> map_of st ''diff'' = Some (StateText ''remove'')"
proof -
  have "st = prop_state o' (Suc i) (case ln_state (lines ! i) of None \<Rightarrow> [] | Some s \<Rightarrow> s)"
    using assms(1) by (simp add: st_def applyPropState_def nth_enumerate_eq state_of_def)
  note st = this [unfolded prop_state_def Let_def]
  show "Suc i \<in> set (parseLineSpec (ho_highlightedLines o')) \<Longrightarrow> map_of st ''highlighted'' = Some StateTrue"
    "Suc i \<in> set (parseLineSpec (ho_focusedLines o')) \<Longrightarrow> map_of st ''focused'' = Some StateTrue"
    "Suc i \<in> set (parseLineSpec (ho_added o')) \<Longrightarrow> map_of st ''diff'' = Some (StateText ''add'')"
    "Suc i \<in> set (parseLineSpec (ho_removed o')) - set (parseLineSpec (ho_added o')) \<Longrightarrow> map_of st ''diff'' = Some (StateText ''remove'')"
    unfolding st by (simp_all add: level_fold update_conv')
qed

section \<open>On a sample\<close>

text \<open>A highlighter that puts each line into one coloured element.\<close>

definition no_hast :: hast_props where
  "no_hast = \<lparr>hp_class = None, hp_className = None, hp_style = None\<rparr>"

definition sample_highlighter :: highlighter where
  "sample_highlighter = \<lparr>hl_themeLoads = (\<lambda>_. True), hl_languageLoads = (\<lambda>_. True),
     hl_codeToHast = (\<lambda>source r. Some (HOther [HElement ''pre'' no_hast [HElement ''code'' no_hast
        (map (\<lambda>l. HElement ''span'' no_hast [HElement ''span'' (no_hast\<lparr>hp_style := Some ''color:red''\<rparr>) [HText (Some l)]]) (split_on LF source))]]))\<rparr>"

lemma sample_keeps_text: "keeps_text sample_highlighter"
proof -
  have "map nodes_text (line_elements (map (\<lambda>l. HElement ''span'' no_hast [HElement ''span'' (no_hast\<lparr>hp_style := Some ''color:red''\<rparr>) [HText (Some l)]]) ls)) = ls" for ls
    by (induction ls) (simp_all add: line_elements_def List.map_filter_def)
  then show ?thesis by (auto simp: keeps_text_def sample_highlighter_def findCodeElement_def)
qed

definition plain_highlight :: highlight_options where
  "plain_highlight = \<lparr>ho_language = Some ''ts'', ho_themes = None, ho_transformers = 0, ho_startLine = Some 5, ho_instanceKey = None,
     ho_highlightedLines = Some (LineText ''2''), ho_highlightedWords = [], ho_focusedLines = None, ho_added = None, ho_removed = None, ho_levels = (\<lambda>_. None)\<rparr>"

definition new_engine :: engine where
  "new_engine = \<lparr>en_themes = [], en_languages = [], en_documents = []\<rparr>"


text \<open>A dark theme that is not known falls back to the light one.\<close>

theorem unknown_dark_is_light:
  "fst (prepare sample_highlighter (''github-light'', ''nord'') ''css'' new_engine) = Some (''github-light'', ''github-light'')"
  by code_simp

text \<open>Without a language, or when the highlighter fails, the lines of a specification are not marked.\<close>

theorem plain_ignores_props:
  "map ln_state (fst (highlightCode sample_highlighter (''a'' @ [LF] @ ''b'') (plain_highlight\<lparr>ho_language := None\<rparr>) new_engine)) = [None, None]"
  by code_simp

end
