(* ===== verification/Code_Block.thy ===== *)
theory Code_Block
  imports Code_Block_Engine
begin

text \<open>
  The code block component (\<^verbatim>\<open>reui/code-block/code-block.tsx\<close>): the fold regions, the root with its highlighting passes, the lines on screen,
  selection and folding, the keyboard of the surface, and what the copy and download buttons take.  React shows new props
  first with the deferred copy of the source it had, and again with the new one; each render may start a pass and cancels the one
  before it.
\<close>

section \<open>Fold regions\<close>

record fold_open =
  fo_start :: int
  fo_indent :: nat
  fo_last :: int

definition line_indent :: "string \<Rightarrow> nat" where
  "line_indent s = sum_list (map (\<lambda>c. if c = CHR 0x09 then 2 else 1) (takeWhile (\<lambda>c. c = CHR '' '' \<or> c = CHR 0x09) s))"

definition line_blank :: "string \<Rightarrow> bool" where
  "line_blank s \<longleftrightarrow> length (trim s) = 0"

definition close_regions :: "fold_open list \<Rightarrow> (int \<times> int) list" where
  "close_regions opens = map (\<lambda>o'. (fo_start o', fo_last o')) (filter (\<lambda>o'. fo_last o' > fo_start o') opens)"

text \<open>The stack has its top at the head; the last component is the previous line that is not blank, its number and indent.\<close>

type_synonym fold_scan = "(int \<times> int) list \<times> fold_open list \<times> (int \<times> nat) option"

definition fold_line :: "cb_line \<Rightarrow> fold_scan \<Rightarrow> fold_scan" where
  "fold_line line sc =
     (case sc of (regions, stack, previous) \<Rightarrow>
        if line_blank (ln_text line) then sc
        else (let own = line_indent (ln_text line);
                  popped = takeWhile (\<lambda>o'. own \<le> fo_indent o') stack;
                  kept = map (\<lambda>o'. o'\<lparr>fo_last := ln_number line\<rparr>) (dropWhile (\<lambda>o'. own \<le> fo_indent o') stack);
                  pushed = (case previous of
                              Some (n, d) \<Rightarrow> if own > d then [\<lparr>fo_start = n, fo_indent = d, fo_last = ln_number line\<rparr>] else []
                            | None \<Rightarrow> [])
              in (regions @ close_regions popped, pushed @ kept, Some (ln_number line, own))))"

definition computeFoldRegions :: "cb_line list \<Rightarrow> (int \<times> int) list" where
  "computeFoldRegions lines =
     (case fold fold_line lines ([], [], None) of (regions, stack, _) \<Rightarrow> sort_key fst (regions @ close_regions stack))"

section \<open>The root\<close>

text \<open>The presentation props as one value, the array behind \<^verbatim>\<open>specKey\<close>; the levels are listed in the order of \<open>LEVELS\<close>.\<close>

record block_spec =
  sp_themes :: "(string \<times> string) option"
  sp_startLine :: int
  sp_highlightedLines :: "line_spec option"
  sp_highlightedWords :: "word_spec list"
  sp_focusedLines :: "line_spec option"
  sp_added :: "line_spec option"
  sp_removed :: "line_spec option"
  sp_levels :: "line_spec option list"

text \<open>The props; a controlled value is \<open>Some\<close>.  The array of transformers is a reference with the length of the array.\<close>

record block_props =
  bp_code :: string
  bp_language :: "string option"
  bp_lines :: "cb_line list option"
  bp_highlight :: bool
  bp_spec :: block_spec
  bp_transformers :: "nat \<times> nat"
  bp_maxLines :: "nat option"
  bp_foldable :: bool
  bp_foldRegions :: "(int \<times> int) list option"
  bp_selected :: "int list option"
  bp_folded :: "int list option"
  bp_expanded :: "bool option"
  bp_wrap :: "bool option"

datatype block_report = ReportSelected "int list" | ReportFolded "int list" | ReportExpanded bool | ReportWrap bool

record block_state =
  cb_props :: block_props
  cb_deferred :: string
  cb_highlighted :: "(string \<times> block_spec \<times> cb_line list) option"
  cb_pass :: "(string \<times> block_spec \<times> highlight_options) option"
  cb_engine :: engine
  cb_selected :: "int list"
  cb_anchor :: "int option"
  cb_folded :: "int list"
  cb_expanded :: bool
  cb_wrap :: bool
  cb_active :: "int option"
  cb_reports :: "block_report list"

abbreviation cb_start :: "block_state \<Rightarrow> int" where
  "cb_start st \<equiv> sp_startLine (bp_spec (cb_props st))"

definition shouldHighlight :: "block_props \<Rightarrow> bool" where
  "shouldHighlight p \<longleftrightarrow>
     bp_lines p = None \<and> bp_highlight p \<and> resolveCodeBlockLanguage (bp_language p) \<noteq> None \<and> length (bp_code p) > 0"

definition level_spec :: "line_spec option list \<Rightarrow> string \<Rightarrow> line_spec option" where
  "level_spec ls l = (case map_of (zip LEVELS ls) l of Some s \<Rightarrow> s | None \<Rightarrow> None)"

definition pass_options :: "string \<Rightarrow> block_props \<Rightarrow> highlight_options" where
  "pass_options contentId p =
     (let s = bp_spec p
      in \<lparr>ho_language = bp_language p, ho_themes = sp_themes s, ho_transformers = snd (bp_transformers p), ho_startLine = Some (sp_startLine s),
          ho_instanceKey = Some contentId, ho_highlightedLines = sp_highlightedLines s, ho_highlightedWords = sp_highlightedWords s,
          ho_focusedLines = sp_focusedLines s, ho_added = sp_added s, ho_removed = sp_removed s, ho_levels = level_spec (sp_levels s)\<rparr>)"

text \<open>The effect, with the values it depends on; its cleanup makes the pass before it inactive.\<close>

definition pass_deps :: "block_state \<Rightarrow> bool \<times> string \<times> string option \<times> nat \<times> block_spec" where
  "pass_deps st =
     (shouldHighlight (cb_props st), cb_deferred st, bp_language (cb_props st), fst (bp_transformers (cb_props st)), bp_spec (cb_props st))"

definition start_pass :: "string \<Rightarrow> block_state \<Rightarrow> block_state" where
  "start_pass contentId st =
     (if \<not> shouldHighlight (cb_props st) then st\<lparr>cb_highlighted := None, cb_pass := None\<rparr>
      else st\<lparr>cb_pass := Some (cb_deferred st, bp_spec (cb_props st), pass_options contentId (cb_props st))\<rparr>)"

definition pass_effect :: "string \<Rightarrow> block_state \<Rightarrow> block_state \<Rightarrow> block_state" where
  "pass_effect contentId old st = (if pass_deps st = pass_deps old then st else start_pass contentId st)"

definition pass_done :: "highlighter \<Rightarrow> block_state \<Rightarrow> block_state" where
  "pass_done h st =
     (case cb_pass st of
        None \<Rightarrow> st
      | Some (source, spec, o') \<Rightarrow>
          (case highlightCode h source o' (cb_engine st) of
             (lines, e) \<Rightarrow> st\<lparr>cb_highlighted := Some (source, spec, lines), cb_pass := None, cb_engine := e\<rparr>))"

definition block_mount :: "string \<Rightarrow> engine \<Rightarrow> int list \<Rightarrow> int list \<Rightarrow> bool \<Rightarrow> bool \<Rightarrow> block_props \<Rightarrow> block_state" where
  "block_mount contentId e defaultSelected defaultFolded defaultExpanded defaultWrap p =
     start_pass contentId
       \<lparr>cb_props = p, cb_deferred = bp_code p, cb_highlighted = None, cb_pass = None, cb_engine = e, cb_selected = defaultSelected,
        cb_anchor = None, cb_folded = defaultFolded, cb_expanded = defaultExpanded, cb_wrap = defaultWrap, cb_active = None, cb_reports = []\<rparr>"

text \<open>The lines on screen.\<close>

definition block_lines :: "block_state \<Rightarrow> cb_line list" where
  "block_lines st =
     (let plain = toPlainLines (cb_deferred st) (cb_start st)
      in case bp_lines (cb_props st) of
           Some ls \<Rightarrow> ls
         | None \<Rightarrow>
             (case cb_highlighted st of
                None \<Rightarrow> plain
              | Some (source, spec, ls) \<Rightarrow>
                  if \<not> shouldHighlight (cb_props st) \<or> spec \<noteq> bp_spec (cb_props st) \<or> \<not> starts_with (cb_deferred st) source then plain
                  else if length ls \<ge> length plain then ls
                  else ls @ drop (length ls) plain))"

definition focusMode :: "block_state \<Rightarrow> bool" where
  "focusMode st \<longleftrightarrow> list_ex (\<lambda>l. case ln_state l of None \<Rightarrow> False | Some s \<Rightarrow> map_of s ''focused'' = Some StateTrue) (block_lines st)"

definition hasDiff :: "block_state \<Rightarrow> bool" where
  "hasDiff st \<longleftrightarrow> list_ex (\<lambda>l. case ln_state l of None \<Rightarrow> False | Some s \<Rightarrow> map_of s ''diff'' \<noteq> None) (block_lines st)"

definition collapsible :: "block_state \<Rightarrow> bool" where
  "collapsible st = (case bp_maxLines (cb_props st) of None \<Rightarrow> False | Some m \<Rightarrow> length (block_lines st) > m)"

definition isExpanded :: "block_state \<Rightarrow> bool" where
  "isExpanded st =
     (if collapsible st then (case bp_expanded (cb_props st) of Some x \<Rightarrow> x | None \<Rightarrow> cb_expanded st) else True)"

definition visibleLines :: "block_state \<Rightarrow> nat option" where
  "visibleLines st = (if collapsible st \<and> \<not> isExpanded st then bp_maxLines (cb_props st) else None)"

definition setExpanded :: "bool \<Rightarrow> block_state \<Rightarrow> block_state" where
  "setExpanded x st =
     (let st1 = (if bp_expanded (cb_props st) = None then st\<lparr>cb_expanded := x\<rparr> else st) in st1\<lparr>cb_reports := cb_reports st1 @ [ReportExpanded x]\<rparr>)"

definition setWrap :: "bool \<Rightarrow> block_state \<Rightarrow> block_state" where
  "setWrap x st =
     (let st1 = (if bp_wrap (cb_props st) = None then st\<lparr>cb_wrap := x\<rparr> else st) in st1\<lparr>cb_reports := cb_reports st1 @ [ReportWrap x]\<rparr>)"

section \<open>Selection\<close>

definition selection :: "block_state \<Rightarrow> int list" where
  "selection st = (case bp_selected (cb_props st) of Some s \<Rightarrow> s | None \<Rightarrow> cb_selected st)"

definition commitSelection :: "int list \<Rightarrow> block_state \<Rightarrow> block_state" where
  "commitSelection ls st =
     (let st1 = (if bp_selected (cb_props st) = None then st\<lparr>cb_selected := ls\<rparr> else st)
      in st1\<lparr>cb_reports := cb_reports st1 @ [ReportSelected ls]\<rparr>)"

definition toggleLine :: "int \<Rightarrow> bool \<Rightarrow> block_state \<Rightarrow> block_state" where
  "toggleLine line ext st =
     (case (if ext then cb_anchor st else None) of
        Some anchor \<Rightarrow> commitSelection [min anchor line..max anchor line] st
      | None \<Rightarrow>
          commitSelection
            (if line \<in> set (selection st) then filter (\<lambda>v. v \<noteq> line) (selection st) else sort (selection st @ [line]))
            (st\<lparr>cb_anchor := Some line\<rparr>))"

definition block_clearSelection :: "block_state \<Rightarrow> block_state" where
  "block_clearSelection st = commitSelection [] st"

section \<open>Folding\<close>

definition foldRegions :: "block_state \<Rightarrow> (int \<times> int) list" where
  "foldRegions st =
     (if \<not> bp_foldable (cb_props st) then []
      else case bp_foldRegions (cb_props st) of
             Some rs \<Rightarrow> rs
           | None \<Rightarrow> map (\<lambda>(a, b). (a - cb_start st + 1, b - cb_start st + 1)) (computeFoldRegions (block_lines st)))"

text \<open>\<^verbatim>\<open>new Map\<close> keeps the last region of a start line.\<close>

definition foldStarts :: "block_state \<Rightarrow> int \<Rightarrow> (int \<times> int) option" where
  "foldStarts st start = map_option (Pair start) (map_of (rev (foldRegions st)) start)"

definition foldedValue :: "block_state \<Rightarrow> int list" where
  "foldedValue st = (case bp_folded (cb_props st) of Some f \<Rightarrow> f | None \<Rightarrow> cb_folded st)"

definition commitFolded :: "int list \<Rightarrow> block_state \<Rightarrow> block_state" where
  "commitFolded ls st =
     (let st1 = (if bp_folded (cb_props st) = None then st\<lparr>cb_folded := ls\<rparr> else st) in st1\<lparr>cb_reports := cb_reports st1 @ [ReportFolded ls]\<rparr>)"

definition toggleFold :: "int \<Rightarrow> block_state \<Rightarrow> block_state" where
  "toggleFold start st =
     commitFolded (if start \<in> set (foldedValue st) then filter (\<lambda>v. v \<noteq> start) (foldedValue st) else sort (foldedValue st @ [start])) st"

definition foldAll :: "block_state \<Rightarrow> block_state" where
  "foldAll st = commitFolded (map fst (foldRegions st)) st"

definition unfoldAll :: "block_state \<Rightarrow> block_state" where
  "unfoldAll st = commitFolded [] st"

definition hidden_line :: "block_state \<Rightarrow> int \<Rightarrow> bool" where
  "hidden_line st n \<longleftrightarrow>
     list_ex (\<lambda>start. case foldStarts st start of
                None \<Rightarrow> False
              | Some (a, b) \<Rightarrow> a + 1 \<le> n - cb_start st + 1 \<and> n - cb_start st + 1 \<le> b) (foldedValue st)"

definition renderedLines :: "block_state \<Rightarrow> cb_line list" where
  "renderedLines st =
     (if \<not> bp_foldable (cb_props st) \<or> foldedValue st = [] then block_lines st
      else filter (\<lambda>l. \<not> hidden_line st (ln_number l)) (block_lines st))"

text \<open>A row: its region, whether it is folded, and its two fold buttons, the chevron beside the number and the chip behind the text.\<close>

definition row_region :: "block_state \<Rightarrow> cb_line \<Rightarrow> (int \<times> int) option" where
  "row_region st l = foldStarts st (ln_number l - cb_start st + 1)"

definition row_folded :: "block_state \<Rightarrow> cb_line \<Rightarrow> bool" where
  "row_folded st l \<longleftrightarrow> ln_number l - cb_start st + 1 \<in> set (foldedValue st)"

definition row_chip :: "block_state \<Rightarrow> cb_line \<Rightarrow> nat option" where
  "row_chip st l =
     (case row_region st l of Some (a, b) \<Rightarrow> if row_folded st l \<and> b - a > 0 then Some (nat (b - a)) else None | None \<Rightarrow> None)"

definition press_chevron :: "cb_line \<Rightarrow> block_state \<Rightarrow> block_state" where
  "press_chevron l st = (case row_region st l of Some (a, b) \<Rightarrow> toggleFold a st | None \<Rightarrow> st)"

definition press_chip :: "cb_line \<Rightarrow> block_state \<Rightarrow> block_state" where
  "press_chip l st = (if row_chip st l = None then st else toggleFold (ln_number l) st)"

section \<open>The surface\<close>

definition toggleDisplayed :: "int \<Rightarrow> bool \<Rightarrow> block_state \<Rightarrow> block_state" where
  "toggleDisplayed displayed ext st = toggleLine (displayed - cb_start st + 1) ext st"

fun number_index :: "int option \<Rightarrow> cb_line list \<Rightarrow> nat option" where
  "number_index v [] = None"
| "number_index v (l # ls) = (if Some (ln_number l) = v then Some 0 else map_option Suc (number_index v ls))"

definition number_at :: "block_state \<Rightarrow> int \<Rightarrow> int" where
  "number_at st i =
     (if 0 \<le> i \<and> nat i < length (renderedLines st) then ln_number (renderedLines st ! nat i) else cb_start st)"

definition next_active :: "block_state \<Rightarrow> string \<Rightarrow> int" where
  "next_active st key =
     (let ls = renderedLines st; final = int (length ls) - 1
      in if key = ''Home'' then number_at st 0
         else if key = ''End'' then number_at st final
         else (let step = (if key = ''ArrowDown'' then 1 else - 1 :: int)
               in number_at st (case number_index (cb_active st) ls of
                    None \<Rightarrow> if step = 1 then 0 else final
                  | Some i \<Rightarrow> min final (max 0 (int i + step)))))"

definition surface_handleKeyDown :: "bool \<Rightarrow> string \<Rightarrow> bool \<Rightarrow> block_state \<Rightarrow> block_state" where
  "surface_handleKeyDown selectable key shift st =
     (if \<not> selectable then st
      else if key = ''Escape'' then st\<lparr>cb_active := None\<rparr>
      else case (if key = ''Enter'' \<or> key = '' '' then cb_active st else None) of
             Some active \<Rightarrow> toggleDisplayed active shift st
           | None \<Rightarrow>
               (let isArrow = (key = ''ArrowDown'' \<or> key = ''ArrowUp'')
                in if \<not> isArrow \<and> key \<noteq> ''Home'' \<and> key \<noteq> ''End'' then st
                   else (let n = next_active st key; st1 = st\<lparr>cb_active := Some n\<rparr>
                         in if isArrow \<and> shift then toggleDisplayed n True st1 else st1)))"

section \<open>Copy and download\<close>

definition button_payload :: "string option \<Rightarrow> block_state \<Rightarrow> string" where
  "button_payload given st =
     (let fallback = (if bp_code (cb_props st) \<noteq> [] then bp_code (cb_props st) else join [LF] (map ln_text (block_lines st)))
      in stripNotationComments (case given of Some v \<Rightarrow> v | None \<Rightarrow> fallback))"

definition LANGUAGE_EXTENSIONS :: "(string \<times> string) list" where
  "LANGUAGE_EXTENSIONS = [(''bash'', ''sh''), (''c'', ''c''), (''cpp'', ''cpp''), (''csharp'', ''cs''), (''css'', ''css''), (''diff'', ''patch''),
     (''docker'', ''dockerfile''), (''go'', ''go''), (''graphql'', ''graphql''), (''html'', ''html''), (''java'', ''java''), (''javascript'', ''js''),
     (''json'', ''json''), (''jsx'', ''jsx''), (''kotlin'', ''kt''), (''markdown'', ''md''), (''php'', ''php''), (''python'', ''py''), (''ruby'', ''rb''),
     (''rust'', ''rs''), (''sql'', ''sql''), (''swift'', ''swift''), (''toml'', ''toml''), (''tsx'', ''tsx''), (''typescript'', ''ts''), (''xml'', ''xml''),
     (''yaml'', ''yaml'')]"

definition download_name :: "string option \<Rightarrow> block_state \<Rightarrow> string" where
  "download_name filename st =
     (let language = (case resolveCodeBlockLanguage (bp_language (cb_props st)) of Some l \<Rightarrow> l | None \<Rightarrow> []);
          extension = (case map_of LANGUAGE_EXTENSIONS language of Some x \<Rightarrow> x | None \<Rightarrow> ''txt'')
      in case filename of Some n \<Rightarrow> n | None \<Rightarrow> ''code.'' @ extension)"

section \<open>Runs\<close>

inductive block_step :: "string \<Rightarrow> highlighter \<Rightarrow> block_state \<Rightarrow> block_state \<Rightarrow> bool" for contentId h where
  new_props: "block_step contentId h st (pass_effect contentId st (st\<lparr>cb_props := p\<rparr>))"
| catch_up: "block_step contentId h st (pass_effect contentId st (st\<lparr>cb_deferred := bp_code (cb_props st)\<rparr>))"
| passed: "block_step contentId h st (pass_done h st)"
| elsewhere: "engine_ok e \<Longrightarrow> block_step contentId h st (st\<lparr>cb_engine := e\<rparr>)"
| toggle_line: "block_step contentId h st (toggleLine n ext st)"
| clear: "block_step contentId h st (block_clearSelection st)"
| toggle_fold: "block_step contentId h st (toggleFold n st)"
| fold_all: "block_step contentId h st (foldAll st)"
| unfold_all: "block_step contentId h st (unfoldAll st)"
| press_key: "block_step contentId h st (surface_handleKeyDown selectable key shift st)"
| hover: "block_step contentId h st (st\<lparr>cb_active := n\<rparr>)"
| expand: "block_step contentId h st (setExpanded x st)"
| rewrap: "block_step contentId h st (setWrap x st)"

inductive block_reach :: "string \<Rightarrow> highlighter \<Rightarrow> block_state \<Rightarrow> bool" for contentId h where
  mounted: "engine_ok e \<Longrightarrow> block_reach contentId h (block_mount contentId e sel fol ex wr p)"
| stepped: "block_reach contentId h st \<Longrightarrow> block_step contentId h st st' \<Longrightarrow> block_reach contentId h st'"

section \<open>Fold regions against a scan per line\<close>

text \<open>The definition by a scan for each line: a line owns the lines after it that are indented more, up to the first that is not.\<close>

fun scan_regions :: "(int \<times> nat) list \<Rightarrow> (int \<times> int) list" where
  "scan_regions [] = []"
| "scan_regions ((n, d) # rest) =
     (let body = takeWhile (\<lambda>(m, e). e > d) rest in if body = [] then [] else [(n, fst (last body))]) @ scan_regions rest"

definition indents :: "cb_line list \<Rightarrow> (int \<times> nat) list" where
  "indents lines = map (\<lambda>l. (ln_number l, line_indent (ln_text l))) (filter (\<lambda>l. \<not> line_blank (ln_text l)) lines)"

text \<open>The scan of the code on numbers and indents.\<close>

fun fold_item :: "int \<times> nat \<Rightarrow> fold_scan \<Rightarrow> fold_scan" where
  "fold_item (n, own) (regions, stack, previous) =
     (regions @ close_regions (takeWhile (\<lambda>o'. own \<le> fo_indent o') stack),
      (case previous of Some (m, d) \<Rightarrow> if own > d then [\<lparr>fo_start = m, fo_indent = d, fo_last = n\<rparr>] else [] | None \<Rightarrow> []) @
        map (\<lambda>o'. o'\<lparr>fo_last := n\<rparr>) (dropWhile (\<lambda>o'. own \<le> fo_indent o') stack),
      Some (n, own))"

lemma fold_lines_items: "fold fold_line lines sc = fold fold_item (indents lines) sc"
proof (induction lines arbitrary: sc)
  case (Cons l lines)
  have "fold_line l sc = (if line_blank (ln_text l) then sc else fold_item (ln_number l, line_indent (ln_text l)) sc)"
    by (cases sc) (simp add: fold_line_def Let_def)
  with Cons show ?case by (simp add: indents_def)
qed (simp add: indents_def)

text \<open>Where an open region ends if the given lines follow.\<close>

definition region_end :: "(int \<times> nat) list \<Rightarrow> fold_open \<Rightarrow> fold_open" where
  "region_end rest o' = (let body = takeWhile (\<lambda>(m, e). e > fo_indent o') rest in if body = [] then o' else o'\<lparr>fo_last := fst (last body)\<rparr>)"

definition stack_ok :: "fold_open list \<Rightarrow> (int \<times> nat) option \<Rightarrow> bool" where
  "stack_ok stack previous \<longleftrightarrow>
     sorted_wrt (\<lambda>a b. fo_indent a > fo_indent b) stack \<and> (case previous of None \<Rightarrow> stack = [] | Some (n, d) \<Rightarrow> \<forall>o'\<in>set stack. fo_indent o' < d)"

lemma stack_split:
  assumes "sorted_wrt (\<lambda>a b. fo_indent a > fo_indent b) stack"
  shows "takeWhile (\<lambda>o'. own \<le> fo_indent o') stack = filter (\<lambda>o'. own \<le> fo_indent o') stack"
    "dropWhile (\<lambda>o'. own \<le> fo_indent o') stack = filter (\<lambda>o'. fo_indent o' < own) stack"
  using assms by (induction stack) (auto simp: filter_empty_conv not_le intro!: filter_True [symmetric] filter_False [symmetric])

definition prev_regions :: "(int \<times> nat) option \<Rightarrow> (int \<times> nat) list \<Rightarrow> (int \<times> int) list" where
  "prev_regions previous rest =
     (case previous of
        None \<Rightarrow> []
      | Some (n, d) \<Rightarrow> (let body = takeWhile (\<lambda>(m, e). e > d) rest in if body = [] then [] else [(n, fst (last body))]))"

lemma scan_regions_prev: "scan_regions (x # rest) = prev_regions (Some x) rest @ scan_regions rest"
  by (cases x) (simp add: prev_regions_def)

lemma close_append: "close_regions (xs @ ys) = close_regions xs @ close_regions ys"
  by (simp add: close_regions_def)

definition long :: "fold_open \<Rightarrow> bool" where
  "long o' \<longleftrightarrow> fo_start o' < fo_last o'"

lemma close_long: "\<forall>o'\<in>set os. long o' \<Longrightarrow> close_regions os = map (\<lambda>o'. (fo_start o', fo_last o')) os"
  by (simp add: close_regions_def long_def)

lemma region_end_Cons:
  "region_end ((n, own) # rest) o' = (if own \<le> fo_indent o' then o' else region_end rest (o'\<lparr>fo_last := n\<rparr>))"
  by (simp add: region_end_def Let_def)

lemma region_end_long:
  assumes "long o'" "\<forall>x\<in>set rest. fo_start o' < fst x"
  shows "long (region_end rest o')"
proof -
  let ?body = "takeWhile (\<lambda>(m, e). e > fo_indent o') rest"
  have "fst (last ?body) > fo_start o'" if "?body \<noteq> []"
    using assms(2) last_in_set [OF that] set_takeWhileD by fastforce
  then show ?thesis using assms(1) by (auto simp: region_end_def long_def Let_def)
qed

lemma mset_map_split: "mset (map f xs) = mset (map f (filter P xs)) + mset (map f (filter (\<lambda>x. \<not> P x) xs))"
  by (induction xs) auto

text \<open>One step moves each open region to where it ends.\<close>

lemma stack_step:
  assumes "stack_ok stack previous" "\<forall>o'\<in>set stack. long o' \<and> fo_start o' < n \<and> (\<forall>x\<in>set rest. fo_start o' < fst x)"
    and "\<forall>m d. previous = Some (m, d) \<longrightarrow> m < n \<and> (\<forall>x\<in>set rest. m < fst x)"
    and "fold_item (n, own) (regions, stack, previous) = (regions', stack', previous')"
  shows "mset regions' + mset (close_regions (map (region_end rest) stack')) =
      mset regions + mset (close_regions (map (region_end ((n, own) # rest)) stack)) + mset (prev_regions previous ((n, own) # rest))"
    and "stack_ok stack' previous'" and "\<forall>o'\<in>set stack'. long o' \<and> (\<forall>x\<in>set rest. fo_start o' < fst x)" and "previous' = Some (n, own)"
proof -
  let ?f = "\<lambda>o'. (fo_start o', fo_last o')" and ?up = "\<lambda>o'. o'\<lparr>fo_last := n\<rparr>"
  let ?popped = "filter (\<lambda>o'. own \<le> fo_indent o') stack" and ?kept = "map ?up (filter (\<lambda>o'. fo_indent o' < own) stack)"
  let ?pushed = "case previous of Some (m, d) \<Rightarrow> if own > d then [\<lparr>fo_start = m, fo_indent = d, fo_last = n\<rparr>] else [] | None \<Rightarrow> []"
  have sorted: "sorted_wrt (\<lambda>a b. fo_indent a > fo_indent b) stack" using assms(1) by (simp add: stack_ok_def)
  have new: "regions' = regions @ close_regions ?popped" "stack' = ?pushed @ ?kept" "previous' = Some (n, own)"
    using assms(4) stack_split [OF sorted, of own] by auto
  have kept_long: "\<forall>o'\<in>set ?kept. long o' \<and> (\<forall>x\<in>set rest. fo_start o' < fst x)" using assms(2) by (auto simp: long_def)
  have pushed_long: "\<forall>o'\<in>set ?pushed. long o' \<and> (\<forall>x\<in>set rest. fo_start o' < fst x)"
  proof (cases previous)
    case (Some p)
    obtain m d where "p = (m, d)" by (cases p)
    then show ?thesis using assms(3) Some by (simp add: long_def)
  qed simp
  show long: "\<forall>o'\<in>set stack'. long o' \<and> (\<forall>x\<in>set rest. fo_start o' < fst x)" unfolding new(2) set_append using kept_long pushed_long by blast
  show "previous' = Some (n, own)" by (rule new(3))
  have "sorted_wrt (\<lambda>a b. fo_indent a > fo_indent b) ?kept" using sorted by (simp add: sorted_wrt_map sorted_wrt_filter)
  then show "stack_ok stack' previous'"
    using assms(1) unfolding new(2,3) stack_ok_def by (auto simp: sorted_wrt_append split: option.splits)
  have ends: "close_regions (map (region_end rest) os) = map (\<lambda>o'. ?f (region_end rest o')) os"
    if "\<forall>o'\<in>set os. long o' \<and> (\<forall>x\<in>set rest. fo_start o' < fst x)" for os
    using that region_end_long by (subst close_long) auto
  have "close_regions (map (region_end rest) stack') = map (\<lambda>o'. ?f (region_end rest o')) ?pushed @ map (\<lambda>o'. ?f (region_end rest o')) ?kept"
    using ends [OF long] new(2) by simp
  moreover have "map (\<lambda>o'. ?f (region_end rest o')) ?pushed = prev_regions previous ((n, own) # rest)"
    by (auto simp: prev_regions_def region_end_def Let_def split: option.splits)
  moreover have "long (region_end ((n, own) # rest) o')" if "o' \<in> set stack" for o'
    using assms(2) that by (intro region_end_long) simp_all
  then have "close_regions (map (region_end ((n, own) # rest)) stack) = map (\<lambda>o'. ?f (region_end ((n, own) # rest) o')) stack"
    by (subst close_long) auto
  moreover have "mset (map (\<lambda>o'. ?f (region_end ((n, own) # rest) o')) stack) =
      mset (map ?f ?popped) + mset (map (\<lambda>o'. ?f (region_end rest o')) ?kept)"
    unfolding mset_map_split [of _ stack "\<lambda>o'. own \<le> fo_indent o'"]
    by (intro arg_cong2 [where f = "(+)"] arg_cong [where f = mset])
      (auto simp: region_end_Cons not_le comp_def)
  moreover have "close_regions ?popped = map ?f ?popped" using assms(2) by (subst close_long) auto
  ultimately show "mset regions' + mset (close_regions (map (region_end rest) stack')) =
      mset regions + mset (close_regions (map (region_end ((n, own) # rest)) stack)) + mset (prev_regions previous ((n, own) # rest))"
    unfolding new(1) by simp
qed

lemma fold_items_regions:
  assumes "stack_ok stack previous" "\<forall>o'\<in>set stack. long o' \<and> (\<forall>x\<in>set rest. fo_start o' < fst x)"
    and "\<forall>m d. previous = Some (m, d) \<longrightarrow> (\<forall>x\<in>set rest. m < fst x)" "sorted_wrt (<) (map fst rest)"
  shows "mset (case fold fold_item rest (regions, stack, previous) of (r, s, _) \<Rightarrow> r @ close_regions s) =
    mset regions + mset (close_regions (map (region_end rest) stack)) + mset (prev_regions previous rest) + mset (scan_regions rest)"
  using assms
proof (induction rest arbitrary: regions stack previous)
  case Nil
  have "region_end [] = id" by (auto simp: region_end_def)
  then show ?case by (simp add: prev_regions_def split: option.splits)
next
  case (Cons x rest)
  obtain n own where x: "x = (n, own)" by (cases x)
  obtain regions' stack' previous' where step: "fold_item (n, own) (regions, stack, previous) = (regions', stack', previous')"
    by (cases "fold_item (n, own) (regions, stack, previous)")
  have pre: "\<forall>o'\<in>set stack. long o' \<and> fo_start o' < n \<and> (\<forall>x\<in>set rest. fo_start o' < fst x)"
    "\<forall>m d. previous = Some (m, d) \<longrightarrow> m < n \<and> (\<forall>x\<in>set rest. m < fst x)"
    using Cons.prems(2,3) x by auto
  note after = stack_step [OF Cons.prems(1) pre step]
  have later: "\<forall>y\<in>set rest. n < fst y" "sorted_wrt (<) (map fst rest)" using Cons.prems(4) x by auto
  from Cons.IH [OF after(2,3) _ later(2), of regions'] after(4) later(1)
  have "mset (case fold fold_item rest (regions', stack', previous') of (r, s, _) \<Rightarrow> r @ close_regions s) =
      mset regions' + mset (close_regions (map (region_end rest) stack')) + mset (prev_regions (Some (n, own)) rest) + mset (scan_regions rest)"
    by simp
  then show ?case using after(1) step unfolding x scan_regions_prev by simp
qed

lemma scan_starts: "sorted_wrt (<) (map fst xs) \<Longrightarrow> sorted_wrt (<) (map fst (scan_regions xs)) \<and> fst ` set (scan_regions xs) \<subseteq> fst ` set xs"
proof (induction xs)
  case (Cons x xs)
  have first: "prev_regions (Some x) xs = [] \<or> (\<exists>e. prev_regions (Some x) xs = [(fst x, e)])" by (cases x) (simp add: prev_regions_def Let_def)
  have rest: "sorted_wrt (<) (map fst (scan_regions xs))" "fst ` set (scan_regions xs) \<subseteq> fst ` set xs" using Cons by simp_all
  have "\<forall>y\<in>fst ` set xs. fst x < y" using Cons.prems by simp
  then have "\<forall>y\<in>set (scan_regions xs). fst x < fst y" using rest(2) by blast
  then show ?case unfolding scan_regions_prev using first rest by auto
qed simp

text \<open>C13: The single pass over a stack finds the regions that a scan for each line finds.  For lines numbered in increasing order, a line that is not blank
  owns a region exactly when the next line that is not blank is indented more, and the region ends with the last line before one
  that is indented no more than its owner; blank lines count for nothing, and the regions come in the order of their owners.\<close>

theorem fold_regions_exact:
  assumes "sorted_wrt (<) (map ln_number lines)"
  shows "computeFoldRegions lines = scan_regions (indents lines)"
proof -
  let ?xs = "indents lines"
  have "map fst ?xs = map ln_number (filter (\<lambda>l. \<not> line_blank (ln_text l)) lines)" by (simp add: indents_def)
  then have sorted: "sorted_wrt (<) (map fst ?xs)" using assms by (simp add: sorted_wrt_map sorted_wrt_filter)
  obtain r s p where run: "fold fold_item ?xs ([], [], None) = (r, s, p)" by (cases "fold fold_item ?xs ([], [], None)")
  have perm: "mset (r @ close_regions s) = mset (scan_regions ?xs)"
    using fold_items_regions [of "[]" None ?xs "[]"] sorted run by (simp add: stack_ok_def prev_regions_def close_regions_def)
  have starts: "sorted_wrt (<) (map fst (scan_regions ?xs))" using scan_starts [OF sorted] by blast
  then have "distinct (map fst (scan_regions ?xs))" "sorted (map fst (scan_regions ?xs))" by (simp_all add: strict_sorted_iff)
  then have "inj_on fst (set (r @ close_regions s))" using mset_eq_setD [OF perm] by (simp add: distinct_map)
  then have "sort_key fst (r @ close_regions s) = scan_regions ?xs"
    using sort_key_inj_key_eq [OF perm] \<open>sorted (map fst (scan_regions ?xs))\<close> by blast
  then show ?thesis using run by (simp add: computeFoldRegions_def fold_lines_items)
qed

definition indented_lines :: "cb_line list" where
  "indented_lines = toPlainLines (join [LF] [''if a'', ''  b'', [], ''    c'', ''d'']) 1"

theorem fold_regions_exact_witness: "computeFoldRegions indented_lines = [(1, 4), (2, 4)]"
proof -
  have "sorted_wrt (<) (map ln_number indented_lines)" "scan_regions (indents indented_lines) = [(1, 4), (2, 4)]" by code_simp+
  with fold_regions_exact show ?thesis by metis
qed

end
