(* ===== verification/Code_Block_Props.thy ===== *)
theory Code_Block_Props
  imports Code_Block
begin

text \<open>
  What the code block shows: the text of the source while it streams, the rows that the keyboard and the fold buttons reach, and the
  selection.
\<close>

section \<open>A source and its beginning\<close>

lemma normalize_append: "\<exists>t. normalizeCode (p @ s) = normalizeCode p @ t"
proof (induction p rule: normalizeCode.induct)
  case (2 c p)
  show ?case
  proof (cases "c = CR")
    case False
    with 2 show ?thesis by auto
  next
    case True
    show ?thesis
    proof (cases p)
      case Nil
      with True show ?thesis by (cases s) auto
    next
      case (Cons d q)
      with True 2 show ?thesis by (auto simp del: normalizeCode.simps simp: normalizeCode.simps(2) [of CR])
    qed
  qed
qed simp

lemma split_on_extend: "split_on c (a @ t) = butlast (split_on c a) @ (last (split_on c a) @ hd (split_on c t)) # tl (split_on c t)"
proof (induction a)
  case Nil
  then show ?case using split_on_ne [of c t] by simp
next
  case (Cons x a)
  show ?case
  proof (cases "x = c")
    case True
    with Cons show ?thesis by simp
  next
    case False
    obtain w ws where w: "split_on c a = w # ws" using split_on_ne [of c a] by (cases "split_on c a") auto
    with Cons False show ?thesis by (cases ws) auto
  qed
qed

text \<open>The lines of a beginning, followed by the rest of the lines, differ from the lines of the whole in one line at most, of which they have
  a beginning.\<close>

lemma beginning_lines:
  assumes "starts_with d source"
  defines "ws \<equiv> split_on LF (normalizeCode source)" and "vs \<equiv> split_on LF (normalizeCode d)"
  shows "length ws \<le> length vs" "\<exists>k m. k < length vs \<and> ws @ drop (length ws) vs = vs[k := take m (vs ! k)]"
proof -
  obtain s where "d = source @ s" using assms(1) by (auto simp: starts_with_conv)
  then obtain t where "normalizeCode d = normalizeCode source @ t" using normalize_append by metis
  then have vs: "vs = butlast ws @ (last ws @ hd (split_on LF t)) # tl (split_on LF t)"
    unfolding vs_def ws_def using split_on_extend by metis
  have ws: "ws = butlast ws @ [last ws]" unfolding ws_def by (simp add: append_butlast_last_id)
  then have len: "length ws = Suc (length (butlast ws))" by (metis length_append_singleton)
  show "length ws \<le> length vs" using vs len split_on_ne [of LF t] by (cases "split_on LF t") auto
  let ?k = "length (butlast ws)"
  have "drop (length ws) vs = tl (split_on LF t)" using vs len by simp
  moreover have "vs[?k := take (length (last ws)) (vs ! ?k)] = butlast ws @ last ws # tl (split_on LF t)"
    using vs by (simp add: nth_append list_update_append)
  ultimately have "ws @ drop (length ws) vs = vs[?k := take (length (last ws)) (vs ! ?k)]" using ws by (metis append.assoc append_Cons append_Nil)
  moreover have "?k < length vs" using vs by simp
  ultimately show "\<exists>k m. k < length vs \<and> ws @ drop (length ws) vs = vs[k := take m (vs ! k)]" by blast
qed

section \<open>The invariant of the root\<close>

definition block_inv :: "block_state \<Rightarrow> bool" where
  "block_inv st \<longleftrightarrow>
     engine_ok (cb_engine st) \<and>
     (case cb_highlighted st of None \<Rightarrow> True | Some (source, spec, ls) \<Rightarrow> shows_source source (sp_startLine spec) ls) \<and>
     (case cb_pass st of None \<Rightarrow> True | Some (source, spec, o') \<Rightarrow> ho_startLine o' = Some (sp_startLine spec))"

lemma block_inv_start: "block_inv st \<Longrightarrow> block_inv (start_pass contentId st)"
  by (auto simp: block_inv_def start_pass_def pass_options_def Let_def)

lemma block_inv_effect: "block_inv st \<Longrightarrow> block_inv (pass_effect contentId old st)"
  by (simp add: pass_effect_def block_inv_start)

lemma block_inv_done:
  assumes "keeps_text h" "block_inv st"
  shows "block_inv (pass_done h st)"
proof (cases "cb_pass st")
  case None
  with assms(2) show ?thesis by (simp add: pass_done_def)
next
  case (Some pass)
  then obtain source spec o' where pass: "cb_pass st = Some (source, spec, o')" by (cases pass) auto
  then have "engine_ok (cb_engine st)" "ho_startLine o' = Some (sp_startLine spec)" using assms(2) by (simp_all add: block_inv_def)
  with highlight_text_kept [OF assms(1), of "cb_engine st" source o'] show ?thesis
    by (auto simp: pass_done_def pass block_inv_def split: prod.splits)
qed

text \<open>What a handler leaves alone.\<close>

definition same_passes :: "block_state \<Rightarrow> block_state \<Rightarrow> bool" where
  "same_passes st st' \<longleftrightarrow> cb_engine st' = cb_engine st \<and> cb_highlighted st' = cb_highlighted st \<and> cb_pass st' = cb_pass st"

lemma block_inv_local: "block_inv st \<Longrightarrow> same_passes st st' \<Longrightarrow> block_inv st'"
  by (simp add: block_inv_def same_passes_def)

lemma commits_local: "same_passes st (commitSelection ls st)" "same_passes st (commitFolded ls st)" "same_passes st (setExpanded x st)" "same_passes st (setWrap x st)"
  by (simp_all add: same_passes_def commitSelection_def commitFolded_def setExpanded_def setWrap_def Let_def)

lemma toggle_local: "same_passes st (toggleLine n ext st)"
  using commits_local(1) [of "st\<lparr>cb_anchor := Some n\<rparr>"] commits_local(1) [of st]
  by (simp add: toggleLine_def same_passes_def split: option.split)

lemma key_local: "same_passes st (surface_handleKeyDown selectable key shift st)"
proof -
  have "same_passes st (toggleDisplayed n ext (st\<lparr>cb_active := a\<rparr>))" for n ext a
    using toggle_local [of "st\<lparr>cb_active := a\<rparr>"] by (simp add: toggleDisplayed_def same_passes_def)
  moreover have "same_passes st (toggleDisplayed n ext st)" "same_passes st (st\<lparr>cb_active := a\<rparr>)" "same_passes st st" for n ext a
    using toggle_local [of st] by (simp_all add: toggleDisplayed_def same_passes_def)
  ultimately show ?thesis unfolding surface_handleKeyDown_def Let_def by (simp split: option.split)
qed

lemmas handlers_local = commits_local toggle_local key_local

lemma block_inv_step:
  assumes "keeps_text h" "block_inv st" "block_step contentId h st st'"
  shows "block_inv st'"
  using assms(3)
proof cases
  case (new_props p)
  have "block_inv (st\<lparr>cb_props := p\<rparr>)" using assms(2) by (simp add: block_inv_def)
  then show ?thesis unfolding new_props by (rule block_inv_effect)
next
  case catch_up
  have "block_inv (st\<lparr>cb_deferred := bp_code (cb_props st)\<rparr>)" using assms(2) by (simp add: block_inv_def)
  then show ?thesis unfolding catch_up by (rule block_inv_effect)
next
  case passed
  then show ?thesis using block_inv_done [OF assms(1,2)] by simp
next
  case (elsewhere e)
  then show ?thesis using assms(2) by (simp add: block_inv_def)
qed (use block_inv_local [OF assms(2)] handlers_local in \<open>auto simp: block_clearSelection_def toggleFold_def foldAll_def unfoldAll_def same_passes_def\<close>)

lemma block_inv_reach:
  assumes "keeps_text h" "block_reach contentId h st"
  shows "block_inv st"
  using assms(2)
proof induction
  case (mounted e sel fol ex wr p)
  then show ?case unfolding block_mount_def by (intro block_inv_start) (simp add: block_inv_def)
next
  case (stepped st st')
  then show ?case using block_inv_step assms(1) by blast
qed

section \<open>What is on screen\<close>

definition source_lines :: "block_state \<Rightarrow> string list" where
  "source_lines st = split_on LF (normalizeCode (cb_deferred st))"

lemma plain_on_screen: "map ln_text (toPlainLines (cb_deferred st) n) = source_lines st" "length (toPlainLines (cb_deferred st) n) = length (source_lines st)"
    "map ln_number (toPlainLines (cb_deferred st) n) = map (\<lambda>i. n + int i) [0..<length (source_lines st)]"
  using plain_shows(1) [of "cb_deferred st" n] by (simp_all add: shows_source_def source_lines_def) (metis length_map)

lemma numbers_joined: "k \<le> m \<Longrightarrow> map f [0..<k] @ drop k (map f [0..<m]) = map f [0..<m]"
  by (metis append_take_drop_id min.absorb2 take_map take_upt add_0 diff_zero length_upt)


section \<open>Keyboard and selection\<close>

lemma number_index_less: "number_index v ls = Some i \<Longrightarrow> i < length ls"
  by (induction ls arbitrary: i) (auto split: if_splits)

text \<open>The arrows and the two ends always land on a row that is drawn, whatever is folded.\<close>

theorem key_lands_on_row:
  assumes "renderedLines st \<noteq> []"
  shows "\<exists>l\<in>set (renderedLines st). next_active st key = ln_number l"
proof -
  have at: "\<exists>l\<in>set (renderedLines st). number_at st i = ln_number l" if "0 \<le> i" "i < int (length (renderedLines st))" for i
    using that by (auto simp: number_at_def intro!: bexI [of _ "renderedLines st ! nat i"])
  have "0 < int (length (renderedLines st))" using assms by simp
  then show ?thesis
    unfolding next_active_def Let_def using number_index_less [of "cb_active st" "renderedLines st"]
    by (auto intro!: at split: option.splits)
qed

text \<open>A selection that is in order stays in order, whether lines are added, taken out or taken as a range; and pressing a line twice leaves the
  selection as it was.\<close>

definition in_order :: "int list \<Rightarrow> bool" where
  "in_order xs \<longleftrightarrow> sorted_wrt (<) xs"

lemma in_order_add: "in_order xs \<Longrightarrow> x \<notin> set xs \<Longrightarrow> in_order (sort (xs @ [x]))"
  by (simp add: in_order_def strict_sorted_iff)

theorem selection_in_order:
  assumes "in_order (selection st)" "bp_selected (cb_props st) = None"
  shows "in_order (selection (toggleLine n ext st))"
    and "selection (toggleLine n False (toggleLine n False st)) = selection st"
proof -
  have toggled: "selection (toggleLine n False st) =
      (if n \<in> set (selection st) then filter (\<lambda>v. v \<noteq> n) (selection st) else sort (selection st @ [n]))"
    if "bp_selected (cb_props st) = None" for st
    using that by (simp add: toggleLine_def commitSelection_def selection_def Let_def)
  have filtered: "in_order (filter (\<lambda>v. v \<noteq> n) (selection st))" using assms(1) by (simp add: in_order_def sorted_wrt_filter)
  show "in_order (selection (toggleLine n ext st))"
  proof (cases "ext \<and> cb_anchor st \<noteq> None")
    case True
    then show ?thesis using assms(2) sorted_wrt_upto by (auto simp: toggleLine_def commitSelection_def selection_def in_order_def Let_def)
  next
    case False
    then have "toggleLine n ext st = toggleLine n False st" by (auto simp: toggleLine_def)
    then show ?thesis using toggled [OF assms(2)] filtered in_order_add [OF assms(1)] by simp
  qed
  let ?st = "toggleLine n False st"
  have "bp_selected (cb_props ?st) = None" using assms(2) by (simp add: toggleLine_def commitSelection_def Let_def)
  note again = toggled [OF this]
  have sorted: "sorted (selection st)" "distinct (selection st)" using assms(1) by (simp_all add: in_order_def strict_sorted_iff)
  show "selection (toggleLine n False ?st) = selection st"
  proof (cases "n \<in> set (selection st)")
    case True
    have "sort (filter (\<lambda>v. v \<noteq> n) (selection st) @ [n]) = selection st"
      using sorted True by (intro sorted_distinct_set_unique) (auto simp: distinct_sort)
    then show ?thesis using True again toggled [OF assms(2)] by simp
  next
    case False
    have "filter (\<lambda>v. v \<noteq> n) (sort (selection st @ [n])) = selection st"
      using sorted False by (intro sorted_distinct_set_unique) (auto simp: sorted_wrt_filter)
    then show ?thesis using False again toggled [OF assms(2)] by simp
  qed
qed

section \<open>On samples\<close>

definition sample_spec :: "int \<Rightarrow> block_spec" where
  "sample_spec n = \<lparr>sp_themes = None, sp_startLine = n, sp_highlightedLines = None, sp_highlightedWords = [], sp_focusedLines = None,
     sp_added = None, sp_removed = None, sp_levels = [None, None, None]\<rparr>"

definition sample_props :: "int \<Rightarrow> string \<Rightarrow> block_props" where
  "sample_props n code = \<lparr>bp_code = code, bp_language = Some ''ts'', bp_lines = None, bp_highlight = True, bp_spec = sample_spec n,
     bp_transformers = (0, 0), bp_maxLines = None, bp_foldable = True, bp_foldRegions = None, bp_selected = None, bp_folded = None,
     bp_expanded = None, bp_wrap = None\<rparr>"

definition sample_block :: "int \<Rightarrow> string \<Rightarrow> block_state" where
  "sample_block n code = pass_done sample_highlighter (block_mount ''b'' new_engine [] [] False False (sample_props n code))"

lemma sample_reached: "block_reach ''b'' sample_highlighter (sample_block n code)"
proof -
  have "engine_ok new_engine" by code_simp
  from stepped [OF mounted [OF this] passed] show ?thesis unfolding sample_block_def .
qed

definition streamed :: "string \<Rightarrow> block_state \<Rightarrow> block_state" where
  "streamed code st =
     (let st1 = pass_effect ''b'' st (st\<lparr>cb_props := (cb_props st)\<lparr>bp_code := code\<rparr>\<rparr>)
      in pass_effect ''b'' st1 (st1\<lparr>cb_deferred := bp_code (cb_props st1)\<rparr>))"

lemma streamed_reached: "block_reach ''b'' h st \<Longrightarrow> block_reach ''b'' h (streamed code st)"
  unfolding streamed_def Let_def by (rule stepped [OF stepped [OF _ new_props] catch_up])


text \<open>The line that is being written: what a chunk adds to the last line is not on the screen until its pass is done; only whole
  new lines appear at once.\<close>

theorem line_tail_missing:
  "map ln_text (block_lines (streamed ''let x'' (sample_block 1 ''let''))) = [''let''] \<and>
   map ln_text (block_lines (streamed (''let x'' @ [LF] @ ''y'') (sample_block 1 ''let''))) = [''let'', ''y'']"
  by code_simp

text \<open>The chip of a folded region in a block that does not start at line 1: it is there to unfold the region, but toggles the number that is
  shown, not the line of the source, so that the region stays folded; the chevron of the same row unfolds it.\<close>

definition folded_block :: block_state where
  "folded_block = foldAll (sample_block 10 (''a {'' @ [LF] @ ''  b'' @ [LF] @ ''}''))"

theorem unfold_chip_misses:
  "(let row = hd (renderedLines folded_block)
    in row_chip folded_block row = Some 1 \<and> map ln_text (renderedLines folded_block) = [''a {'', ''}''] \<and>
       map ln_text (renderedLines (press_chip row folded_block)) = [''a {'', ''}''] \<and>
       map ln_text (renderedLines (press_chevron row folded_block)) = [''a {'', ''  b'', ''}''])"
  by code_simp

text \<open>A file of shell code is saved as text, although its language is known.\<close>

theorem shell_saved_as_text:
  "resolveCodeBlockLanguage (Some ''shell'') = Some ''shell'' \<and>
   download_name None (sample_block 1 ''ls''\<lparr>cb_props := (sample_props 1 ''ls'')\<lparr>bp_language := Some ''shell''\<rparr>\<rparr>) = ''code.txt''"
  by code_simp

end
