(* ===== verification/Spec2Isabelle.thy ===== *)
theory Spec2Isabelle
  imports Filter_Validation Filter_Bar_Run Session_Boundary Console_Lib Public_Props Cascader_Async_Merge Cascader_Nav Grid_Keys
    Filter_Gesture Filter_Panel File_Upload Date_Selector_Props Console_Scope Console_Sites Console_Roles
    Code_Block_Formats Code_Block_Props
begin

text \<open>
  The web front ends of a multi-tenant site management service, as far as they compute: the interface
  package (\<^verbatim>\<open>web/packages/ui\<close>), the API client (\<^verbatim>\<open>web/packages/api\<close>), the operator console
  (\<^verbatim>\<open>web/apps/console\<close>) and the server side of the public site (\<^verbatim>\<open>web/apps/public\<close>).  All paths below are
  under \<^verbatim>\<open>src/web\<close>; \<^verbatim>\<open>reui\<close> stands for \<^verbatim>\<open>packages/ui/src/components/reui\<close>.  This theory only imports the
  others; every property is a theorem of the theory of its component.

  \<^bold>\<open>The parts and how they meet.\<close>  A user of the console signs in; \<^verbatim>\<open>session.tsx\<close> checks the identity the API
  reports and derives what may be seen.  All requests go through one typed client with a session
  generation, and \<^verbatim>\<open>app/session-boundary.tsx\<close> replaces one session by the next without letting data of the
  old one through.  The pages are built from three large widgets with their own state: the filter bar (a query tree,
  a draft and their stores), the cascader (a tree index, a selection over it and a loader that fills it) and the
  data grid (cell selection, clipboard and editing).  The public site runs on a server, forwards requests
  upstream, relays session cookies and writes the sitemap.

  \<^bold>\<open>Shared\<close>
  \<^item> \<open>Prelude\<close>: the JavaScript values that travel as \<^verbatim>\<open>unknown\<close>, the array and string operations of the
    language the sources use, generic lemmas.
  \<^item> \<open>Web_Url\<close>: \<^verbatim>\<open>encodeURIComponent\<close> and form encoding, with the lemmas that encoded text holds no delimiter.

  \<^bold>\<open>The filter bar\<close> (\<^verbatim>\<open>reui/filters\<close>)
  \<^item> \<open>Filter_Query\<close>: the query tree and every function of \<^verbatim>\<open>filters-query.tsx\<close>.
  \<^item> \<open>Filter_Zipper\<close>: a group in its context (\<open>at_group\<close>) and two interfaces: \<open>tree_measure\<close>, what adds up
    over a tree (ids, rules, groups), and \<open>rewrite_key\<close>, a rewriting that acts where its key is found.  The
    edits are interpretations of these, so that what an edit does to the ids and to the rules is proved once.
  \<^item> \<open>Filter_Edits\<close>, \<open>Filter_Edits_More\<close>, \<open>Filter_Removal\<close>: one law per edit, and \<open>id_source\<close>, the interface
    between cloning and the id factory, which \<open>Filter_Schema_Props\<close> discharges for \<^verbatim>\<open>createFilterIdFactory\<close>.
  \<^item> \<open>Filter_Props\<close>, \<open>Filter_Validation\<close>: moving loses, repeats and misplaces nothing; removal takes exactly the
    node; pruning keeps what the index knows; wrapping and dissolving are inverse; the issues reported are empty exactly
    for a complete query.
  \<^item> \<open>Filter_Operators\<close>, \<open>Filter_Draft\<close>, \<open>Filter_Schema\<close>, \<open>Filter_Schema_Props\<close>: the operator catalogue and
    the coercion of values, the draft's reducer, the field index and its signature.  Purely visual fields of a
    schema entry (texts, class names) are left out of its record.
  \<^item> \<open>Filter_Bar\<close>, \<open>Filter_Bar_Props\<close>, \<open>Filter_Bar_Run\<close>: the bar of \<^verbatim>\<open>filters.tsx\<close> as a state with every
    action, and what holds in all its runs.
  \<^item> \<open>Filter_Drag\<close>, \<open>Filter_Gesture\<close>: dragging a row of the advanced builder (\<^verbatim>\<open>filters-dnd.tsx\<close>): the boxes of
    the rows, the resolution of a pointer to a position in the tree, and the gesture from pointer down to its end
    as a step relation.  The layout is a parameter, coordinates are rational numbers.  The
    marker agrees with what the tree edit would do, and every end of a gesture leaves nothing behind.
  \<^item> \<open>Filter_Panel\<close>: the cells of \<^verbatim>\<open>filters-advanced.tsx\<close>, its single tab stop, its keyboard, adding a row and
    restoring the focus.

  \<^bold>\<open>The cascader\<close> (\<^verbatim>\<open>reui/cascader\<close>)
  \<^item> \<open>Cascader_Index\<close>, \<open>Cascader_Select\<close>: \<^verbatim>\<open>cascader-lib.tsx\<close>.  \<open>Cascader_Tree\<close> is the invariant of an index,
    \<open>Cascader_Build\<close> that building establishes it, \<open>Cascader_Props\<close> and \<open>Cascader_Reads\<close> what selection and the
    reads promise over it.
  \<^item> \<open>Cascader_Loader\<close>: \<^verbatim>\<open>cascader-async.tsx\<close>, its refs and its store as one record; a request is pending
    until \<open>respond\<close> settles it.  \<open>Cascader_Loader_Inv\<close> is the step relation with any interleaving of calls and
    answers and its invariant; \<open>Cascader_Loader_Props\<close> what follows for the user.  A store update waits in
    \<open>ld_store\<close> until the next render copies it to the ref the callbacks read (\<open>commit\<close>).
  \<^item> \<open>Cascader_Merge\<close>, \<open>Cascader_Flatten\<close>: the index with the loaded pages merged into it, and the rows of tree mode; a
    merge keeps every node where it was and yields a tree again, and the rows are the nodes below expanded branches.
    \<open>Cascader_Async_Merge\<close> joins loader and index: what was loaded is in the merged index.
  \<^item> \<open>Cascader_Control\<close>: \<^verbatim>\<open>useControllable\<close>, the value, path, expansion, open flag and query of the root.
    \<open>Cascader_Root\<close> is the root of \<^verbatim>\<open>cascader.tsx\<close>: its state, the record its handlers read (\<^verbatim>\<open>latest\<close>), the rows of a
    render, the announcements, navigation that waits for a fetch, selection and opening.  \<open>Cascader_Root_Run\<close> is
    the step relation of handlers, answers and renders with its invariant; \<open>Cascader_Root_Props\<close> what the user sees:
    a query in tree mode shows exactly the hits and their ancestors, opening shows the selection, limits hold, and what
    the consumer heard last is what is selected.
  \<^item> \<open>Cascader_Nav\<close>: \<^verbatim>\<open>cascader-nav.tsx\<close>, the breadcrumb, the keyboard of the search field and the text of the trigger.  What the
    list of the combobox highlights after an arrow is a parameter that moves by one row; the back key then always
    finds the row of the parent.

  \<^bold>\<open>The data grid\<close> (\<^verbatim>\<open>reui/data-grid\<close>)
  \<^item> \<open>Grid_Clipboard\<close>, \<open>Grid_Batch\<close>, \<open>Grid_Session\<close>, \<open>Grid_Keys\<close>: \<^verbatim>\<open>data-grid-cell-selection.tsx\<close> in its order:
    clipboard text and HTML, batches of changes, the fill drag and the editor, the keyboard and clipboard handlers.
  \<^item> \<open>Grid_Props\<close>, \<open>Grid_Run\<close>: copying and pasting in place changes nothing, an inverted batch undoes it, each
    batch decides each of its cells once, previews agree with what a release does.

  \<^bold>\<open>The code block\<close> (\<^verbatim>\<open>reui/code-block\<close>)
  \<^item> \<open>Code_Block_Lines\<close>, \<open>Code_Block_Formats\<close>, \<open>Code_Block_Engine\<close>: \<^verbatim>\<open>code-block-highlight.tsx\<close>.  Line specifications, marks of words
    that never overlap, plain lines and the fences of a transcript; terminal output, and patches that are read as they were
    written; the lines read from the tree of the highlighter, a parameter, with the cache of earlier documents.
  \<^item> \<open>Code_Block\<close>, \<open>Code_Block_Props\<close>: \<^verbatim>\<open>code-block.tsx\<close>.  The fold regions against a scan for each line; the root as a step
    relation of new props, deferred sources, passes and presses, and that its screen follows the source.

  \<^bold>\<open>Date selector\<close>
  \<^item> \<open>Date_Selector\<close>: the hook and the component of \<^verbatim>\<open>reui/date-selector.tsx\<close>, a state with a step for every event and a
    pass of the effects after a render.  \<open>Date_Selector_Props\<close>: ranges are in order, the buttons paint what the value covers,
    effects come to rest, and years and quarters are read back from their text.

  \<^bold>\<open>File upload\<close>
  \<^item> \<open>File_Upload\<close>: the hook of \<^verbatim>\<open>packages/ui/src/hooks/use-file-upload.ts\<close>, its queued state updates and the preview
    URLs it creates and revokes.

  \<^bold>\<open>API client and console\<close>
  \<^item> \<open>Api_Client\<close>: \<^verbatim>\<open>packages/api/src/client.ts\<close>, with requests of several sessions in flight as a step
    relation: no response is taken in a session that did not ask for it.
  \<^item> \<open>Console_Session\<close>, \<open>Session_Boundary\<close>: \<^verbatim>\<open>session.tsx\<close>, \<^verbatim>\<open>app/shell/nav.ts\<close>, \<^verbatim>\<open>app/session-boundary.tsx\<close>,
    \<^verbatim>\<open>app/persisted.ts\<close>; the change of session as a step relation over several tabs' messages.
  \<^item> \<open>Console_Lib\<close>: mutations, uploads, preferences, schedules, theme and headers (\<^verbatim>\<open>lib\<close>, \<^verbatim>\<open>app\<close>).
  \<^item> \<open>Console_Scope\<close>: the scope picker of \<^verbatim>\<open>app/shell/scope-tree.tsx\<close>; it returns on every hierarchy and shows the choice.
  \<^item> \<open>Console_Sites\<close>: \<^verbatim>\<open>features/sites\<close>: the statuses asked for against the meaning of the filter tree, the debounced
    filter bar, the words for opening hours (over \<open>Console_Lib\<close>), the map's layers.
  \<^item> \<open>Console_Roles\<close>: \<^verbatim>\<open>features/roles\<close>, the level names of \<^verbatim>\<open>features/hierarchy\<close> and \<^verbatim>\<open>features/operator/schema.ts\<close>.

  \<^bold>\<open>Public site\<close>
  \<^item> \<open>Public_Api\<close>, \<open>Public_Props\<close>: \<^verbatim>\<open>api.ts\<close>, \<^verbatim>\<open>upstream.ts\<close>, \<^verbatim>\<open>security-headers.ts\<close> and the sitemap route.

  \<^bold>\<open>Parameters.\<close>  What is not in the repository is an argument: \<^verbatim>\<open>fetch\<close> and its answers, \<^verbatim>\<open>JSON.parse\<close>, \<^verbatim>\<open>Number\<close>
  on text, \<^verbatim>\<open>Date.parse\<close>, \<^verbatim>\<open>toLocaleLowerCase\<close>, the text of a number, callbacks a consumer passes, and the TanStack
  table, a record of the answers the grid reads from it.  Laws about them are hypotheses of the theorems that need
  them.  Where the sources compare by reference to see whether anything changed, the model returns an option, with
  \<open>None\<close> for the same object.

  \<^bold>\<open>Loops and bounds.\<close>  Walks over trees recurse on the tree, or end by a measure on the values not yet seen.
  Flattening the tree and the rows of the scope picker keep no set of seen values, so they are partial functions, with
  \<open>None\<close> for a walk that does not end, and they are proved to return on every index that is a tree and on every hierarchy.  The source's own limits are kept: 250 pages of sites,
  60 polls of an upload's scan, one retry of a mutation, 50000 sitemap entries.  Climbing to a parent ends by a
  measure on the values not yet seen.

  \<^bold>\<open>Not modelled.\<close>  JSX and styling; handlers that measure, scroll or move DOM elements; the memoisation of React
  hooks; \<^verbatim>\<open>Intl\<close> formatting; real time (a timer is an event that may fire); the generated API types and route tree; and
  the backend in C#.
\<close>

end
